(* ===== verification/Meow_Prelude.thy ===== *)
theory Meow_Prelude
  imports Main "HOL-Library.Word" "HOL-Library.Monad_Syntax"
begin

unbundle bit_operations_syntax

text \<open>
  The vocabulary the components share: the machine integer types of the kernel's
  C code, the page arithmetic of \<open>PAGE_SIZE\<close>, the counting loop
  \<open>for (a = lo; a < hi; a += step)\<close> over wrapping addresses, and the lemma
  collections the component proofs simplify with.
\<close>

section \<open>Machine integers\<close>

type_synonym u8 = "8 word"
type_synonym u16 = "16 word"
type_synonym u32 = "32 word"
type_synonym u64 = "64 word"

named_theorems word_nat \<comment> \<open>words read as natural numbers\<close>

lemmas [word_nat] =
  word_less_nat_alt word_le_nat_alt unat_div unat_mod

lemma unat_add_no_wrap [word_nat]:
  "unat (a::'a::len word) + unat b < 2 ^ LENGTH('a) \<Longrightarrow> unat (a + b) = unat a + unat b"
  by (simp add: unat_word_ariths)

lemma unat_sub_le [word_nat]:
  "unat (b::'a::len word) \<le> unat a \<Longrightarrow> unat (a - b) = unat a - unat b"
  by (simp add: unat_sub word_le_nat_alt)

lemma unat_of_nat_small:
  "n < 2 ^ LENGTH('a) \<Longrightarrow> unat (of_nat n :: 'a::len word) = n"
  by (simp add: unat_of_nat take_bit_eq_mod)

lemma unat_lt_2p32: "unat (x::u32) < 4294967296"
  using unsigned_less [of x, where 'a = nat] by simp

section \<open>Single bits of a word\<close>

text \<open>\<open>1 << j\<close>, the mask of bit \<open>j\<close>.\<close>

definition bit_mask :: "nat \<Rightarrow> 'a::len word" where
  "bit_mask j = push_bit j 1"

lemma bit_bit_mask [simp]:
  "bit (bit_mask j :: 'a::len word) n \<longleftrightarrow> n = j \<and> j < LENGTH('a)"
  by (auto simp: bit_mask_def bit_simps)

lemma and_bit_mask_eq_0 [simp]:
  "(w::'a::len word) AND bit_mask j = 0 \<longleftrightarrow> \<not> bit w j"
  by (metis (mono_tags, opaque_lifting) bit_and_iff bit_bit_mask bit_eq_iff bit_imp_le_length
      bit_0_eq bot_apply not_le bot_bool_def)

lemma word_all_ones_iff:
  "(w::'a::len word) = - 1 \<longleftrightarrow> (\<forall>n < LENGTH('a). bit w n)"
  by (auto simp: bit_eq_iff bit_simps dest: bit_imp_le_length)

lemma u32_max: "(4294967295::u32) = - 1"
  by simp

lemma word_zero_iff:
  "(w::'a::len word) = 0 \<longleftrightarrow> (\<forall>n < LENGTH('a). \<not> bit w n)"
  by (auto simp: bit_eq_iff bit_simps dest: bit_imp_le_length)

section \<open>Loops\<close>

text \<open>
  \<open>for (a = lo; a < hi; a += step) body(a)\<close>. The addition wraps, so a bound near
  the top of the address space gives a loop that never ends: the result is then
  \<open>None\<close>.
\<close>

partial_function (option) for_words ::
  "'w::len word \<Rightarrow> ('w word \<Rightarrow> 's \<Rightarrow> 's) \<Rightarrow> 'w word \<Rightarrow> 'w word \<Rightarrow> 's \<Rightarrow> 's option" where
  "for_words step body hi a s =
     (if a < hi then for_words step body hi (a + step) (body a s) else Some s)"

text \<open>The addresses such a loop visits, in order.\<close>

definition word_steps :: "'w::len word \<Rightarrow> 'w word \<Rightarrow> 'w word \<Rightarrow> 'w word list" where
  "word_steps step hi lo =
     map (\<lambda>k. of_nat (unat lo + k * unat step))
       [0..<(unat hi - unat lo + unat step - 1) div unat step]"

lemma word_steps_done [simp]: "\<not> lo < hi \<Longrightarrow> word_steps step hi lo = []"
  by (cases "unat step") (auto simp: word_steps_def word_less_nat_alt)

lemma div_round_up_Suc:
  fixes d k :: nat
  assumes "0 < d" "0 < k"
  shows "(d + k - 1) div k = Suc ((d - k + k - 1) div k)"
proof (cases "k \<le> d")
  case True
  have "d + k - 1 = (d - k + k - 1) + k" using assms True by linarith
  moreover have "((d - k + k - 1) + k) div k = (d - k + k - 1) div k + 1"
    using assms by (intro div_add_self2) simp
  ultimately show ?thesis by (simp only: Suc_eq_plus1)
next
  case False
  have "d + k - 1 = (d - 1) + k" using assms by linarith
  moreover have "((d - 1) + k) div k = (d - 1) div k + 1"
    using assms by (intro div_add_self2) simp
  moreover have "(d - 1) div k = 0" "(d - k + k - 1) div k = 0"
    using False assms by (auto intro!: div_less)
  ultimately show ?thesis by (simp only: Suc_eq_plus1)
qed

lemma word_steps_step:
  fixes lo hi step :: "'w::len word"
  assumes "lo < hi" "step \<noteq> 0" "unat hi + unat step \<le> 2 ^ LENGTH('w)"
  shows "word_steps step hi lo = lo # word_steps step hi (lo + step)"
proof -
  have st: "0 < unat step" using assms(2) by (simp add: unat_gt_0)
  have d: "0 < unat hi - unat lo" using assms(1) by (simp add: word_less_nat_alt)
  have nw: "unat (lo + step) = unat lo + unat step"
    using assms by (intro unat_add_no_wrap) (simp add: word_less_nat_alt)
  have sh: "unat hi - unat (lo + step) + unat step - 1 = unat hi - unat lo - unat step + unat step - 1"
    by (simp add: nw)
  show ?thesis
    unfolding word_steps_def div_round_up_Suc [OF d st] sh upt_conv_Cons [OF zero_less_Suc]
    by (simp add: nw map_Suc_upt [symmetric] algebra_simps del: upt_Suc)
qed

lemma for_words_terminates:
  fixes lo hi step :: "'w::len word"
  assumes "step \<noteq> 0" "unat hi + unat step \<le> 2 ^ LENGTH('w)"
  shows "for_words step body hi lo s = Some (fold body (word_steps step hi lo) s)"
proof (induction "unat hi - unat lo" arbitrary: lo s rule: less_induct)
  case less
  show ?case
  proof (cases "lo < hi")
    case True
    have nw: "unat (lo + step) = unat lo + unat step"
      using assms True by (intro unat_add_no_wrap) (simp add: word_less_nat_alt)
    have st: "0 < unat step" using assms(1) by (simp add: unat_gt_0)
    have "for_words step body hi (lo + step) (body lo s)
        = Some (fold body (word_steps step hi (lo + step)) (body lo s))"
      using True st by (intro less) (simp add: nw word_less_nat_alt)
    with True show ?thesis
      by (subst for_words.simps) (simp add: word_steps_step [OF True assms])
  next
    case False
    then show ?thesis by (subst for_words.simps) simp
  qed
qed

lemma set_word_steps:
  fixes lo hi step :: "'w::len word"
  assumes "step \<noteq> 0" "unat hi + unat step \<le> 2 ^ LENGTH('w)"
  shows "a \<in> set (word_steps step hi lo) \<longleftrightarrow>
    lo \<le> a \<and> a < hi \<and> (unat a - unat lo) mod unat step = 0"
proof (induction "unat hi - unat lo" arbitrary: lo rule: less_induct)
  case less
  show ?case
  proof (cases "lo < hi")
    case True
    have nw: "unat (lo + step) = unat lo + unat step"
      using assms True by (intro unat_add_no_wrap) (simp add: word_less_nat_alt)
    have st: "0 < unat step" using assms(1) by (simp add: unat_gt_0)
    have IH: "a \<in> set (word_steps step hi (lo + step)) \<longleftrightarrow>
        lo + step \<le> a \<and> a < hi \<and> (unat a - unat (lo + step)) mod unat step = 0"
      using True st by (intro less) (simp add: nw word_less_nat_alt)
    have far: "lo + step \<le> a \<longleftrightarrow> unat lo + unat step \<le> unat a"
      by (simp add: word_le_nat_alt nw)
    show ?thesis
    proof (cases "unat lo + unat step \<le> unat a")
      case True
      then have "(unat a - unat (lo + step)) mod unat step = (unat a - unat lo) mod unat step"
        by (simp add: nw le_mod_geq)
      moreover have "lo \<le> a" "a \<noteq> lo" using True st by (auto simp: word_le_nat_alt)
      ultimately show ?thesis using True
        by (simp add: word_steps_step [OF \<open>lo < hi\<close> assms] IH far)
    next
      case False
      then have "lo \<le> a \<Longrightarrow> (unat a - unat lo) mod unat step = 0 \<Longrightarrow> a = lo"
        by (simp add: word_le_nat_alt word_unat_eq_iff)
      with False True show ?thesis
        by (auto simp: word_steps_step [OF \<open>lo < hi\<close> assms] IH far)
    qed
  next
    case False
    then show ?thesis by auto
  qed
qed

lemma unat_ucast_wide: "unat (ucast a :: u32) = unat a" for a :: u8
  using unsigned_less [of a, where 'a = nat] by (simp add: unsigned_ucast_eq take_bit_eq_mod)

lemma sint_small:
  assumes "unat (v :: u32) < 2 ^ 31"
  shows "sint v = int (unat v)"
proof -
  have "sint v = signed_take_bit 31 (int (unat v))" by (simp add: sint_uint)
  also have "\<dots> = int (unat v)"
  proof (rule signed_take_bit_int_eq_self)
    show "- (2 ^ 31) \<le> int (unat v)" by (rule order.trans [of _ 0]) (simp, rule of_nat_0_le_iff)
    have "int (unat v) < int (2 ^ 31)" using assms by (simp only: of_nat_less_iff)
    then show "int (unat v) < 2 ^ 31" by simp
  qed
  finally show ?thesis .
qed

text \<open>A loop whose body may fail to return.\<close>

fun fold_opt :: "('a \<Rightarrow> 's \<Rightarrow> 's option) \<Rightarrow> 'a list \<Rightarrow> 's \<Rightarrow> 's option" where
  "fold_opt f [] s = Some s"
| "fold_opt f (x # xs) s = Option.bind (f x s) (fold_opt f xs)"

lemma fold_opt_Some:
  "(\<And>x s. x \<in> set xs \<Longrightarrow> f x s = Some (g x s)) \<Longrightarrow> fold_opt f xs s = Some (fold g xs s)"
  by (induction xs arbitrary: s) auto

lemma fold_preserves:
  "P s \<Longrightarrow> (\<And>x s. x \<in> set xs \<Longrightarrow> P s \<Longrightarrow> P (f x s)) \<Longrightarrow> P (fold f xs s)"
  by (induction xs arbitrary: s) auto

end
