(* ===== verification/Pmm.thy ===== *)
theory Pmm
  imports Meow_Prelude
begin

text \<open>
  The physical memory manager, \<open>src/kernel/mem/physical_memory_manager/pmm.c\<close>: one bit
  per 4 KiB block, set when the block is in use. \<open>pmm_words\<close> is the array of 32-bit
  words at the address \<open>pmm_bitmap\<close>. The lemmas give the bit-level meaning of every
  operation, the first-fit behaviour of the two allocators, what the boot-time
  initialisation leaves free, and the interface \<open>frame_allocator\<close> that the users of the
  manager rely on, interpreted on it.
\<close>

section \<open>State and operations\<close>

definition PAGE_SIZE :: u32 where
  "PAGE_SIZE = 4096"

record mmap_entry =
  mm_base :: u64
  mm_length :: u64
  mm_type :: u32
  mm_acpi :: u32

record pmm_state =
  pmm_bitmap :: u32
  pmm_words :: "nat \<Rightarrow> u32"
  pmm_max_blocks :: u32

definition pmm_block_is_valid :: "u32 \<Rightarrow> 'a pmm_state_scheme \<Rightarrow> bool" where
  "pmm_block_is_valid block s \<longleftrightarrow> pmm_bitmap s \<noteq> 0 \<and> block < pmm_max_blocks s"

definition pmm_addr_is_valid :: "u32 \<Rightarrow> 'a pmm_state_scheme \<Rightarrow> bool" where
  "pmm_addr_is_valid addr s =
     (if pmm_bitmap s = 0 \<or> addr mod PAGE_SIZE \<noteq> 0 then False
      else addr div PAGE_SIZE < pmm_max_blocks s)"

definition bitmap_set :: "u32 \<Rightarrow> 'a pmm_state_scheme \<Rightarrow> 'a pmm_state_scheme" where
  "bitmap_set b s =
     (if \<not> pmm_block_is_valid b s then s
      else s\<lparr>pmm_words := (pmm_words s)
               (unat (b div 32) := pmm_words s (unat (b div 32)) OR bit_mask (unat (b mod 32)))\<rparr>)"

definition bitmap_unset :: "u32 \<Rightarrow> 'a pmm_state_scheme \<Rightarrow> 'a pmm_state_scheme" where
  "bitmap_unset b s =
     (if \<not> pmm_block_is_valid b s then s
      else s\<lparr>pmm_words := (pmm_words s)
               (unat (b div 32) := pmm_words s (unat (b div 32)) AND NOT (bit_mask (unat (b mod 32))))\<rparr>)"

definition bitmap_test :: "u32 \<Rightarrow> 'a pmm_state_scheme \<Rightarrow> bool" where
  "bitmap_test b s \<longleftrightarrow> pmm_block_is_valid b s \<and>
     pmm_words s (unat (b div 32)) AND bit_mask (unat (b mod 32)) \<noteq> 0"

definition pmm_mark_free :: "u32 \<Rightarrow> 'a pmm_state_scheme \<Rightarrow> 'a pmm_state_scheme" where
  "pmm_mark_free addr s =
     (if \<not> pmm_addr_is_valid addr s then s else bitmap_unset (addr div PAGE_SIZE) s)"

definition pmm_mark_used :: "u32 \<Rightarrow> 'a pmm_state_scheme \<Rightarrow> 'a pmm_state_scheme" where
  "pmm_mark_used addr s =
     (if \<not> pmm_addr_is_valid addr s then s else bitmap_set (addr div PAGE_SIZE) s)"

definition pmm_free_block :: "u32 \<Rightarrow> 'a pmm_state_scheme \<Rightarrow> 'a pmm_state_scheme" where
  "pmm_free_block ptr s =
     (if ptr = 0 then s
      else if \<not> pmm_addr_is_valid ptr s then s
      else bitmap_unset (ptr div PAGE_SIZE) s)"

text \<open>
  \<open>pmm_initialize\<close>: fill the bitmap with ones, then mark the first 3 MiB and the
  bitmap's own pages used. The loop over the bitmap's pages may not end when the
  bitmap reaches the top of the address space.
\<close>

definition pmm_initialize ::
  "u64 \<Rightarrow> u32 \<Rightarrow> 'a pmm_state_scheme \<Rightarrow> 'a pmm_state_scheme option" where
  "pmm_initialize mem_size bitmap_addr s =
     (if mem_size < 4096 \<or> bitmap_addr = 0 then Some s
      else let s1 = s\<lparr>pmm_max_blocks := ucast (mem_size div 4096), pmm_bitmap := bitmap_addr\<rparr>;
               bitmap_words = (pmm_max_blocks s1 + 31) div 32;
               s2 = s1\<lparr>pmm_words := (\<lambda>i. if i < unat bitmap_words then 0xFFFFFFFF else pmm_words s1 i)\<rparr>;
               bitmap_end = bitmap_addr + bitmap_words * 4
           in do {
             s3 \<leftarrow> for_words PAGE_SIZE pmm_mark_used 0x300000 0 s2;
             for_words PAGE_SIZE pmm_mark_used bitmap_end bitmap_addr s3
           })"

text \<open>
  \<open>pmm_initialize_from_map\<close>: the count at \<open>0x9000\<close> and the entries at \<open>0x9004\<close> are the
  memory map the bootloader left.
\<close>

definition pmm_highest :: "u32 \<Rightarrow> (nat \<Rightarrow> mmap_entry) \<Rightarrow> u64" where
  "pmm_highest entry_count entries =
     fold (\<lambda>i h. if mm_type (entries i) = 1 \<and> mm_base (entries i) + mm_length (entries i) > h
                 then mm_base (entries i) + mm_length (entries i) else h)
       [0..<unat entry_count] 0"

definition pmm_free_from :: "u64 \<Rightarrow> 'a pmm_state_scheme \<Rightarrow> 'a pmm_state_scheme" where
  "pmm_free_from addr s = (if addr \<ge> 0x300000 then pmm_mark_free (ucast addr) s else s)"

definition pmm_free_entry ::
  "(nat \<Rightarrow> mmap_entry) \<Rightarrow> nat \<Rightarrow> 'a pmm_state_scheme \<Rightarrow> 'a pmm_state_scheme option" where
  "pmm_free_entry entries i s =
     (if mm_type (entries i) = 1
      then for_words 4096 pmm_free_from (mm_base (entries i) + mm_length (entries i))
             (mm_base (entries i)) s
      else Some s)"

definition pmm_initialize_from_map ::
  "u32 \<Rightarrow> (nat \<Rightarrow> mmap_entry) \<Rightarrow> 'a pmm_state_scheme \<Rightarrow> 'a pmm_state_scheme option" where
  "pmm_initialize_from_map entry_count entries s =
     (if entry_count = 0xFFFFFFFF \<or> entry_count = 0
      then do {
        s1 \<leftarrow> pmm_initialize (32 * 1024 * 1024) 0x200000 s;
        for_words PAGE_SIZE pmm_mark_free 0x2000000 0x300000 s1
      }
      else do {
        s1 \<leftarrow> pmm_initialize (pmm_highest entry_count entries) 0x200000 s;
        fold_opt (pmm_free_entry entries) [0..<unat entry_count] s1
      })"

text \<open>\<open>pmm_alloc_block\<close>: the words in order, the bits of a word that is not full in order.\<close>

definition pmm_find_in_word :: "nat \<Rightarrow> 'a pmm_state_scheme \<Rightarrow> nat option" where
  "pmm_find_in_word i s =
     find (\<lambda>j. pmm_words s i AND bit_mask j = 0 \<and> pmm_block_is_valid (of_nat (i * 32 + j)) s) [0..<32]"

fun pmm_find_free :: "nat list \<Rightarrow> 'a pmm_state_scheme \<Rightarrow> u32 option" where
  "pmm_find_free [] s = None"
| "pmm_find_free (i # is) s =
     (if pmm_words s i \<noteq> 0xFFFFFFFF
      then (case pmm_find_in_word i s of
              Some j \<Rightarrow> Some (of_nat (i * 32 + j))
            | None \<Rightarrow> pmm_find_free is s)
      else pmm_find_free is s)"

definition pmm_alloc_block :: "'a pmm_state_scheme \<Rightarrow> u32 \<times> 'a pmm_state_scheme" where
  "pmm_alloc_block s =
     (if pmm_bitmap s = 0 \<or> pmm_max_blocks s = 0 then (0, s)
      else case pmm_find_free [0..<unat (pmm_max_blocks s div 32)] s of
             None \<Rightarrow> (0, s)
           | Some block_index \<Rightarrow> (block_index * PAGE_SIZE, bitmap_set block_index s))"

text \<open>
  \<open>pmm_alloc_contiguous_blocks\<close>: \<open>consecutive\<close> counts the free blocks that end at the
  current one and \<open>start_bit\<close> is the first of them.
\<close>

fun pmm_find_run :: "u32 \<Rightarrow> nat list \<Rightarrow> u32 \<Rightarrow> u32 \<Rightarrow> 'a pmm_state_scheme \<Rightarrow> u32 option" where
  "pmm_find_run count [] consecutive start_bit s = None"
| "pmm_find_run count (i # is) consecutive start_bit s =
     (if \<not> bitmap_test (of_nat i) s
      then let start_bit' = (if consecutive = 0 then of_nat i else start_bit)
           in if consecutive + 1 = count then Some start_bit'
              else pmm_find_run count is (consecutive + 1) start_bit' s
      else pmm_find_run count is 0 start_bit s)"

definition pmm_alloc_contiguous_blocks ::
  "u32 \<Rightarrow> 'a pmm_state_scheme \<Rightarrow> u32 \<times> 'a pmm_state_scheme" where
  "pmm_alloc_contiguous_blocks count s =
     (if pmm_bitmap s = 0 \<or> pmm_max_blocks s = 0 \<or> count = 0 then (0, s)
      else case pmm_find_run count [0..<unat (pmm_max_blocks s)] 0 0 s of
             None \<Rightarrow> (0, s)
           | Some start_bit \<Rightarrow>
               (start_bit * PAGE_SIZE,
                fold (\<lambda>j. bitmap_set (start_bit + of_nat j)) [0..<unat count] s))"

definition pmm_count_word :: "u32 \<Rightarrow> u32 \<Rightarrow> u32" where
  "pmm_count_word w used =
     (if w = 0 then used
      else if w = 0xFFFFFFFF then used + 32
      else fold (\<lambda>j u. if w AND bit_mask j \<noteq> 0 then u + 1 else u) [0..<32] used)"

definition pmm_get_memory_info :: "'a pmm_state_scheme \<Rightarrow> u32 \<times> u32 \<times> u32" where
  "pmm_get_memory_info s =
     (if pmm_bitmap s = 0 \<or> pmm_max_blocks s = 0 then (0, 0, 0)
      else let used_blocks = fold (\<lambda>i. pmm_count_word (pmm_words s i))
                               [0..<unat (pmm_max_blocks s div 32)] 0;
               total = pmm_max_blocks s * PAGE_SIZE;
               used = used_blocks * PAGE_SIZE
           in (total, used, total - used))"

section \<open>What the bitmap says\<close>

text \<open>Block \<open>n\<close> is used when its bit is set; \<open>pmm_blocks\<close> blocks are managed.\<close>

definition pmm_used :: "'a pmm_state_scheme \<Rightarrow> nat \<Rightarrow> bool" where
  "pmm_used s n \<longleftrightarrow> bit (pmm_words s (n div 32)) (n mod 32)"

abbreviation pmm_blocks :: "'a pmm_state_scheme \<Rightarrow> nat" where
  "pmm_blocks s \<equiv> unat (pmm_max_blocks s)"

lemma block_split_eq: "n div 32 = m div 32 \<and> n mod 32 = m mod 32 \<longleftrightarrow> n = (m::nat)"
  by (metis div_mult_mod_eq)

lemma bitmap_test_used:
  "bitmap_test b s \<longleftrightarrow> pmm_block_is_valid b s \<and> pmm_used s (unat b)"
  by (simp add: bitmap_test_def pmm_used_def word_nat)

lemma bitmap_set_used [simp]:
  "pmm_used (bitmap_set b s) n \<longleftrightarrow> pmm_block_is_valid b s \<and> n = unat b \<or> pmm_used s n"
  using block_split_eq [of n "unat b"]
  by (auto simp: bitmap_set_def pmm_used_def word_nat bit_simps)

lemma bitmap_unset_used [simp]:
  "pmm_used (bitmap_unset b s) n \<longleftrightarrow> \<not> (pmm_block_is_valid b s \<and> n = unat b) \<and> pmm_used s n"
  using block_split_eq [of n "unat b"]
  by (auto simp: bitmap_unset_def pmm_used_def word_nat bit_simps)

text \<open>No operation but the initialisation changes where the bitmap is or what it covers.\<close>

lemma pmm_frame [simp]:
  "pmm_bitmap (bitmap_set b s) = pmm_bitmap s" "pmm_max_blocks (bitmap_set b s) = pmm_max_blocks s"
  "pmm_bitmap (bitmap_unset b s) = pmm_bitmap s" "pmm_max_blocks (bitmap_unset b s) = pmm_max_blocks s"
  "pmm_state.more (bitmap_set b s) = pmm_state.more s"
  "pmm_state.more (bitmap_unset b s) = pmm_state.more s"
  by (simp_all add: bitmap_set_def bitmap_unset_def)

lemma pmm_valid_frame [simp]:
  "pmm_block_is_valid b (bitmap_set c s) = pmm_block_is_valid b s"
  "pmm_block_is_valid b (bitmap_unset c s) = pmm_block_is_valid b s"
  "pmm_addr_is_valid a (bitmap_set c s) = pmm_addr_is_valid a s"
  "pmm_addr_is_valid a (bitmap_unset c s) = pmm_addr_is_valid a s"
  by (simp_all add: pmm_block_is_valid_def pmm_addr_is_valid_def)

lemma pmm_addr_valid_iff:
  "pmm_addr_is_valid a s \<longleftrightarrow>
     pmm_bitmap s \<noteq> 0 \<and> unat a mod 4096 = 0 \<and> unat a div 4096 < pmm_blocks s"
  by (auto simp: pmm_addr_is_valid_def PAGE_SIZE_def word_nat word_unat_eq_iff)

lemma pmm_block_valid_iff:
  "pmm_block_is_valid b s \<longleftrightarrow> pmm_bitmap s \<noteq> 0 \<and> unat b < pmm_blocks s"
  by (simp add: pmm_block_is_valid_def word_nat)

lemma unat_page_number [simp]: "unat (a div PAGE_SIZE) = unat a div 4096"
  by (simp add: PAGE_SIZE_def word_nat)

lemma pmm_mark_free_used [simp]:
  "pmm_used (pmm_mark_free a s) n \<longleftrightarrow>
     \<not> (pmm_addr_is_valid a s \<and> n = unat a div 4096) \<and> pmm_used s n"
  by (auto simp: pmm_mark_free_def pmm_addr_valid_iff pmm_block_valid_iff)

lemma pmm_mark_used_used [simp]:
  "pmm_used (pmm_mark_used a s) n \<longleftrightarrow>
     pmm_addr_is_valid a s \<and> n = unat a div 4096 \<or> pmm_used s n"
  by (auto simp: pmm_mark_used_def pmm_addr_valid_iff pmm_block_valid_iff)

lemma pmm_free_block_used [simp]:
  "pmm_used (pmm_free_block a s) n \<longleftrightarrow>
     \<not> (a \<noteq> 0 \<and> pmm_addr_is_valid a s \<and> n = unat a div 4096) \<and> pmm_used s n"
  by (auto simp: pmm_free_block_def pmm_addr_valid_iff pmm_block_valid_iff)

lemma pmm_mark_frame [simp]:
  "pmm_bitmap (pmm_mark_free a s) = pmm_bitmap s" "pmm_max_blocks (pmm_mark_free a s) = pmm_max_blocks s"
  "pmm_bitmap (pmm_mark_used a s) = pmm_bitmap s" "pmm_max_blocks (pmm_mark_used a s) = pmm_max_blocks s"
  "pmm_bitmap (pmm_free_block a s) = pmm_bitmap s" "pmm_max_blocks (pmm_free_block a s) = pmm_max_blocks s"
  "pmm_state.more (pmm_mark_free a s) = pmm_state.more s"
  "pmm_state.more (pmm_mark_used a s) = pmm_state.more s"
  "pmm_state.more (pmm_free_block a s) = pmm_state.more s"
  by (simp_all add: pmm_mark_free_def pmm_mark_used_def pmm_free_block_def)

section \<open>First fit\<close>

lemma block_number_small:
  "i < unat (m::u32) div 32 \<Longrightarrow> j < 32 \<Longrightarrow> unat (of_nat (i * 32 + j) :: u32) = i * 32 + j"
  using unat_lt_2p32 [of m] by (intro unat_of_nat_small) simp

lemma pmm_find_in_word_cases:
  assumes "pmm_bitmap s \<noteq> 0" "i < pmm_blocks s div 32"
  shows "case pmm_find_in_word i s of
      None \<Rightarrow> (\<forall>j < 32. pmm_used s (i * 32 + j))
    | Some j \<Rightarrow> j < 32 \<and> \<not> pmm_used s (i * 32 + j) \<and> (\<forall>k < j. pmm_used s (i * 32 + k))"
proof -
  have P: "(pmm_words s i AND bit_mask j = 0 \<and> pmm_block_is_valid (of_nat (i * 32 + j)) s)
      = (\<not> pmm_used s (i * 32 + j))" if "j < 32" for j
  proof -
    have "unat (of_nat (i * 32 + j) :: u32) = i * 32 + j"
      by (rule block_number_small [OF assms(2) that])
    moreover have "i * 32 + j < pmm_blocks s" using assms(2) that by linarith
    ultimately show ?thesis
      using assms(1) that by (auto simp: pmm_block_valid_iff pmm_used_def)
  qed
  have "pmm_find_in_word i s = find (\<lambda>j. \<not> pmm_used s (i * 32 + j)) [0..<32]"
    unfolding pmm_find_in_word_def by (rule find_cong) (use P in auto)
  then show ?thesis
    by (auto simp: find_None_iff find_Some_iff split: option.splits)
qed

lemma pmm_find_free_cases:
  assumes "pmm_bitmap s \<noteq> 0" "k \<le> pmm_blocks s div 32" "m \<le> k"
  shows "case pmm_find_free [m..<k] s of
      None \<Rightarrow> (\<forall>n. m * 32 \<le> n \<and> n < k * 32 \<longrightarrow> pmm_used s n)
    | Some b \<Rightarrow> m * 32 \<le> unat b \<and> unat b < k * 32 \<and> \<not> pmm_used s (unat b) \<and>
        (\<forall>n. m * 32 \<le> n \<and> n < unat b \<longrightarrow> pmm_used s n)"
  using assms(3)
proof (induction "k - m" arbitrary: m)
  case 0
  then show ?case by auto
next
  case (Suc d)
  then have mk: "m < k" and mk': "m < pmm_blocks s div 32" using assms(2) by auto
  then have upt: "[m..<k] = m # [Suc m..<k]" by (simp add: upt_conv_Cons)
  have dk: "d = k - Suc m" and mk2: "Suc m \<le> k" using Suc.hyps(2) mk by auto
  note IH = Suc.hyps(1) [OF dk mk2]
  note word = pmm_find_in_word_cases [OF assms(1) mk']
  have full: "pmm_words s m = 0xFFFFFFFF \<Longrightarrow> \<forall>j < 32. pmm_used s (m * 32 + j)"
    by (simp add: pmm_used_def u32_max)
  have extend: "\<forall>n. m * 32 \<le> n \<and> n < top \<longrightarrow> pmm_used s n"
    if "\<forall>j < 32. pmm_used s (m * 32 + j)" "\<forall>n. Suc m * 32 \<le> n \<and> n < top \<longrightarrow> pmm_used s n" for top
  proof (intro allI impI)
    fix n assume n: "m * 32 \<le> n \<and> n < top"
    show "pmm_used s n"
    proof (cases "Suc m * 32 \<le> n")
      case True
      then show ?thesis using that(2) n by blast
    next
      case False
      then have "n - m * 32 < 32" using n by simp
      then have "pmm_used s (m * 32 + (n - m * 32))" using that(1) by blast
      then show ?thesis using n by simp
    qed
  qed
  have rest: "case pmm_find_free [Suc m..<k] s of
      None \<Rightarrow> (\<forall>n. m * 32 \<le> n \<and> n < k * 32 \<longrightarrow> pmm_used s n)
    | Some b \<Rightarrow> m * 32 \<le> unat b \<and> unat b < k * 32 \<and> \<not> pmm_used s (unat b) \<and>
        (\<forall>n. m * 32 \<le> n \<and> n < unat b \<longrightarrow> pmm_used s n)"
    if "\<forall>j < 32. pmm_used s (m * 32 + j)"
  proof (cases "pmm_find_free [Suc m..<k] s")
    case None
    with IH have "\<forall>n. Suc m * 32 \<le> n \<and> n < k * 32 \<longrightarrow> pmm_used s n" by simp
    from extend [OF that this] None show ?thesis by simp
  next
    case (Some b)
    with IH have b: "Suc m * 32 \<le> unat b" "unat b < k * 32" "\<not> pmm_used s (unat b)"
      and below: "\<forall>n. Suc m * 32 \<le> n \<and> n < unat b \<longrightarrow> pmm_used s n" by auto
    from extend [OF that below] b Some show ?thesis by simp
  qed
  show ?case
  proof (cases "pmm_words s m = 0xFFFFFFFF")
    case True
    then show ?thesis using rest full by (simp add: upt)
  next
    case False
    show ?thesis
    proof (cases "pmm_find_in_word m s")
      case None
      with word have "\<forall>j < 32. pmm_used s (m * 32 + j)" by simp
      with False None rest show ?thesis by (simp add: upt)
    next
      case (Some j)
      with word have j: "j < 32" "\<not> pmm_used s (m * 32 + j)" "\<forall>k < j. pmm_used s (m * 32 + k)"
        by auto
      have "pmm_used s n" if "m * 32 \<le> n" "n < m * 32 + j" for n
      proof -
        have "n - m * 32 < j" using that by simp
        then have "pmm_used s (m * 32 + (n - m * 32))" using j(3) by blast
        then show ?thesis using that by simp
      qed
      moreover have "unat (of_nat (m * 32 + j) :: u32) = m * 32 + j"
        by (rule block_number_small [OF mk' j(1)])
      moreover have "m * 32 + j < k * 32" using mk j(1) by simp
      ultimately show ?thesis using False Some j(2) by (simp add: upt)
    qed
  qed
qed

lemma pmm_find_free_None_iff_full:
  assumes "pmm_bitmap s \<noteq> 0"
  shows "pmm_find_free [0..<unat (pmm_max_blocks s div 32)] s = None \<longleftrightarrow>
    (\<forall>n < 32 * (pmm_blocks s div 32). pmm_used s n)"
  using pmm_find_free_cases [OF assms, of "pmm_blocks s div 32" 0]
  by (auto simp: word_nat mult.commute split: option.splits)

lemma pmm_alloc_block_cases:
  assumes "pmm_bitmap s \<noteq> 0" and "pmm_alloc_block s = (a, s')"
  obtains (found) n where "n < 32 * (pmm_blocks s div 32)" "\<not> pmm_used s n" "\<forall>m < n. pmm_used s m"
      "a = of_nat n * PAGE_SIZE" "s' = bitmap_set (of_nat n) s"
      "\<forall>m. pmm_used s' m \<longleftrightarrow> m = n \<or> pmm_used s m"
    | (full) "\<forall>n < 32 * (pmm_blocks s div 32). pmm_used s n" "a = 0" "s' = s"
proof (cases "pmm_find_free [0..<unat (pmm_max_blocks s div 32)] s")
  case None
  with assms pmm_find_free_None_iff_full [OF assms(1)] show ?thesis
    by (intro full) (auto simp: pmm_alloc_block_def split: if_splits)
next
  case (Some b)
  with pmm_find_free_cases [OF assms(1), of "pmm_blocks s div 32" 0]
  have b: "unat b < 32 * (pmm_blocks s div 32)" "\<not> pmm_used s (unat b)" "\<forall>m < unat b. pmm_used s m"
    by (auto simp: word_nat mult.commute)
  then have "pmm_max_blocks s \<noteq> 0" "pmm_block_is_valid b s"
    using assms(1) by (auto simp: pmm_block_valid_iff)
  moreover from this have "(a, s') = (b * PAGE_SIZE, bitmap_set b s)"
    using Some assms by (simp add: pmm_alloc_block_def)
  ultimately show ?thesis using b by (intro found [of "unat b"]) auto
qed

lemma pmm_alloc_block_eq:
  assumes "pmm_bitmap s \<noteq> 0" "n < 32 * (pmm_blocks s div 32)" "\<not> pmm_used s n"
    "\<forall>m < n. pmm_used s m"
  shows "pmm_alloc_block s = (of_nat n * PAGE_SIZE, bitmap_set (of_nat n) s)"
proof -
  obtain a s' where r: "pmm_alloc_block s = (a, s')" by fastforce
  show ?thesis
  proof (rule pmm_alloc_block_cases [OF assms(1) r])
    fix n' assume n': "\<not> pmm_used s n'" "\<forall>m < n'. pmm_used s m"
      "a = of_nat n' * PAGE_SIZE" "s' = bitmap_set (of_nat n') s"
    have "n' = n" using n'(1,2) assms(3,4) by (meson linorder_neqE_nat)
    with n' r show ?thesis by simp
  qed (use assms in blast)
qed

text \<open>C1: \<open>pmm_alloc_block\<close> is first fit over the whole words of the bitmap: it hands out
  the lowest free block and marks that one block, or it returns \<open>NULL\<close> and changes
  nothing, exactly when every block of a whole word is used.\<close>

theorem pmm_alloc_block_first_fit:
  assumes "pmm_bitmap s \<noteq> 0" and "pmm_alloc_block s = (a, s')"
  shows "(\<exists>n < 32 * (pmm_blocks s div 32). \<not> pmm_used s n \<and> (\<forall>m < n. pmm_used s m) \<and>
            a = of_nat n * PAGE_SIZE \<and> s' = bitmap_set (of_nat n) s \<and>
            (\<forall>m. pmm_used s' m \<longleftrightarrow> m = n \<or> pmm_used s m)) \<or>
         (\<forall>n < 32 * (pmm_blocks s div 32). pmm_used s n) \<and> a = 0 \<and> s' = s"
  by (rule pmm_alloc_block_cases [OF assms]) blast+

theorem pmm_alloc_block_first_fit_witness:
  "pmm_alloc_block \<lparr>pmm_bitmap = 0x200000, pmm_words = (\<lambda>i. 0xF), pmm_max_blocks = 64\<rparr>
     = (0x4000, \<lparr>pmm_bitmap = 0x200000, pmm_words = (\<lambda>i. 0xF)(0 := 0x1F), pmm_max_blocks = 64\<rparr>)
   \<and> \<not> pmm_used \<lparr>pmm_bitmap = 0x200000, pmm_words = (\<lambda>i. 0xF), pmm_max_blocks = 64\<rparr> 4"
proof -
  let ?s = "\<lparr>pmm_bitmap = 0x200000, pmm_words = (\<lambda>i. 0xF), pmm_max_blocks = 64\<rparr>"
  have free: "\<not> pmm_used ?s 4" "pmm_used ?s 0" "pmm_used ?s 1" "pmm_used ?s 2" "pmm_used ?s 3"
    by (simp_all add: pmm_used_def)
  obtain a s' where r: "pmm_alloc_block ?s = (a, s')" by fastforce
  from pmm_alloc_block_first_fit [OF _ r] free(1)
  obtain n where n: "\<not> pmm_used ?s n" "\<forall>m < n. pmm_used ?s m"
    "a = of_nat n * PAGE_SIZE" "s' = bitmap_set (of_nat n) ?s"
    by (fastforce simp: div_nat_eqI)
  have "n = 4"
  proof (rule ccontr)
    assume "n \<noteq> 4"
    then consider "n = 0" | "n = 1" | "n = 2" | "n = 3" | "4 < n" by linarith
    then show False using n free by cases auto
  qed
  with n r free(1) show ?thesis
    by (simp add: PAGE_SIZE_def bitmap_set_def pmm_block_is_valid_def bit_mask_def)
qed

section \<open>Contiguous runs\<close>

definition pmm_free_run :: "'a pmm_state_scheme \<Rightarrow> nat \<Rightarrow> nat \<Rightarrow> bool" where
  "pmm_free_run s st len \<longleftrightarrow> (\<forall>n. st \<le> n \<and> n < st + len \<longrightarrow> \<not> pmm_used s n)"

text \<open>
  The scan at block \<open>m\<close> with \<open>c\<close> free blocks behind it: those blocks are free, the one
  before them is not, and no run of the wanted length ends at or before \<open>m\<close>.
\<close>

definition pmm_run_inv :: "'a pmm_state_scheme \<Rightarrow> u32 \<Rightarrow> nat \<Rightarrow> u32 \<Rightarrow> u32 \<Rightarrow> bool" where
  "pmm_run_inv s count m c st \<longleftrightarrow>
     unat c \<le> m \<and> c < count \<and> (c \<noteq> 0 \<longrightarrow> unat st = m - unat c) \<and>
     pmm_free_run s (m - unat c) (unat c) \<and>
     (m - unat c = 0 \<or> pmm_used s (m - unat c - 1)) \<and>
     (\<forall>q. q + unat count \<le> m \<longrightarrow> \<not> pmm_free_run s q (unat count))"

lemma pmm_run_inv_used:
  assumes "pmm_run_inv s count m c st" "pmm_used s m"
  shows "pmm_run_inv s count (Suc m) 0 st"
proof -
  have "0 < unat count" using assms(1) by (auto simp: pmm_run_inv_def word_nat)
  then have "\<not> pmm_free_run s q (unat count)" if "q + unat count \<le> Suc m" for q
    using assms that unfolding pmm_run_inv_def pmm_free_run_def
    by (cases "q + unat count = Suc m") (force, auto)
  with assms \<open>0 < unat count\<close> show ?thesis
    by (auto simp: pmm_run_inv_def pmm_free_run_def word_nat)
qed

lemma pmm_run_inv_free:
  assumes "pmm_run_inv s count m c st" "\<not> pmm_used s m" "c + 1 \<noteq> count" "m < 2 ^ 32"
  shows "pmm_run_inv s count (Suc m) (c + 1) (if c = 0 then of_nat m else st)"
proof -
  have c: "unat (c + 1) = unat c + 1" "unat c + 1 < unat count"
    using assms(1,3) unat_lt_2p32 [of count]
    by (auto simp: pmm_run_inv_def word_nat word_unat_eq_iff unat_add_no_wrap)
  have "\<not> pmm_free_run s q (unat count)" if q: "q + unat count \<le> Suc m" for q
  proof (cases "q + unat count \<le> m")
    case True
    then show ?thesis using assms(1) by (simp add: pmm_run_inv_def)
  next
    case False
    then have "q \<le> m - unat c - 1" "m - unat c - 1 < q + unat count" "m - unat c \<noteq> 0"
      using q c by auto
    moreover have "pmm_used s (m - unat c - 1)"
      using assms(1) \<open>m - unat c \<noteq> 0\<close> by (simp add: pmm_run_inv_def)
    ultimately show ?thesis by (auto simp: pmm_free_run_def)
  qed
  moreover have "unat (of_nat m :: u32) = m" using assms(4) by (simp add: unat_of_nat_small)
  moreover have "pmm_free_run s (m - unat c) (unat c + 1)"
    using assms(1,2) unfolding pmm_run_inv_def pmm_free_run_def
    by (metis Suc_eq_plus1 add_Suc_right le_add_diff_inverse2 less_Suc_eq)
  ultimately show ?thesis
    using assms(1) c by (auto simp: pmm_run_inv_def word_nat word_unat_eq_iff)
qed

lemma pmm_find_run_cases:
  assumes "pmm_bitmap s \<noteq> 0" "N = pmm_blocks s" "m \<le> N" "pmm_run_inv s count m c st"
  shows "case pmm_find_run count [m..<N] c st s of
      None \<Rightarrow> (\<forall>q. q + unat count \<le> N \<longrightarrow> \<not> pmm_free_run s q (unat count))
    | Some b \<Rightarrow> unat b + unat count \<le> N \<and> pmm_free_run s (unat b) (unat count) \<and>
        (\<forall>q < unat b. \<not> pmm_free_run s q (unat count))"
  using assms(3,4)
proof (induction "N - m" arbitrary: m c st)
  case 0
  then show ?case by (auto simp: pmm_run_inv_def)
next
  case (Suc d)
  then have mN: "m < N" and d: "d = N - Suc m" "Suc m \<le> N" by auto
  then have upt: "[m..<N] = m # [Suc m..<N]" by (simp add: upt_conv_Cons)
  have m32: "m < 2 ^ 32" using mN assms(2) unat_lt_2p32 [of "pmm_max_blocks s"] by simp
  then have um: "unat (of_nat m :: u32) = m" by (simp add: unat_of_nat_small)
  have test: "bitmap_test (of_nat m) s \<longleftrightarrow> pmm_used s m"
    using assms(1,2) mN by (simp add: bitmap_test_used pmm_block_valid_iff um)
  let ?st = "if c = 0 then of_nat m else st"
  show ?case
  proof (cases "pmm_used s m")
    case True
    with Suc.hyps(1) [OF d pmm_run_inv_used [OF Suc.prems(2) True]] show ?thesis
      by (simp add: upt test)
  next
    case False
    show ?thesis
    proof (cases "c + 1 = count")
      case True
      have c: "unat count = unat c + 1" "unat c \<le> m" and b: "unat ?st = m - unat c"
        using Suc.prems(2) True um by (auto simp: pmm_run_inv_def word_nat unat_word_ariths)
      have "pmm_free_run s (m - unat c) (unat count)"
        using Suc.prems(2) False c unfolding pmm_run_inv_def pmm_free_run_def
        by (metis Suc_eq_plus1 add_Suc_right le_add_diff_inverse2 less_Suc_eq)
      then show ?thesis
        using False True c b mN Suc.prems(2) by (auto simp: upt test pmm_run_inv_def Let_def)
    next
      case False
      with Suc.hyps(1) [OF d pmm_run_inv_free [OF Suc.prems(2) \<open>\<not> pmm_used s m\<close> False m32]]
      show ?thesis using \<open>\<not> pmm_used s m\<close> by (simp add: upt test Let_def)
    qed
  qed
qed

lemma pmm_run_inv_start: "count \<noteq> 0 \<Longrightarrow> pmm_run_inv s count 0 0 0"
  by (auto simp: pmm_run_inv_def pmm_free_run_def word_nat unat_gt_0)

lemma fold_bitmap_set:
  "pmm_used (fold (\<lambda>j. bitmap_set (b + of_nat j)) js s) n \<longleftrightarrow>
     (\<exists>j \<in> set js. pmm_block_is_valid (b + of_nat j) s \<and> n = unat (b + of_nat j)) \<or> pmm_used s n"
  by (induction js arbitrary: s) auto

text \<open>C2: \<open>pmm_alloc_contiguous_blocks\<close> finds the lowest run of \<open>count\<close> free blocks,
  marks exactly that run, and returns \<open>NULL\<close> with the bitmap unchanged only when there
  is no such run among the managed blocks.\<close>

theorem pmm_alloc_contiguous_first_run:
  assumes "pmm_bitmap s \<noteq> 0" "count \<noteq> 0"
    and "pmm_alloc_contiguous_blocks count s = (a, s')"
  shows "(\<exists>st. st + unat count \<le> pmm_blocks s \<and> pmm_free_run s st (unat count) \<and>
            (\<forall>q < st. \<not> pmm_free_run s q (unat count)) \<and> a = of_nat st * PAGE_SIZE \<and>
            (\<forall>n. pmm_used s' n \<longleftrightarrow> st \<le> n \<and> n < st + unat count \<or> pmm_used s n)) \<or>
         (\<forall>q. q + unat count \<le> pmm_blocks s \<longrightarrow> \<not> pmm_free_run s q (unat count)) \<and> a = 0 \<and> s' = s"
proof (cases "pmm_max_blocks s = 0")
  case True
  with assms show ?thesis by (auto simp: pmm_alloc_contiguous_blocks_def unat_eq_zero)
next
  case False
  note run = pmm_find_run_cases [OF assms(1) refl le0 pmm_run_inv_start [OF assms(2)]]
  show ?thesis
  proof (cases "pmm_find_run count [0..<pmm_blocks s] 0 0 s")
    case None
    with run assms False show ?thesis by (simp add: pmm_alloc_contiguous_blocks_def)
  next
    case (Some b)
    with run have b: "unat b + unat count \<le> pmm_blocks s" "pmm_free_run s (unat b) (unat count)"
      "\<forall>q < unat b. \<not> pmm_free_run s q (unat count)" by auto
    have j: "unat (b + of_nat j) = unat b + j" if "j < unat count" for j
    proof -
      have "unat b + j < 2 ^ 32" using that b(1) unat_lt_2p32 [of "pmm_max_blocks s"] by simp
      then show ?thesis by (simp add: unat_add_no_wrap unat_of_nat_small)
    qed
    have "pmm_used s' n \<longleftrightarrow> unat b \<le> n \<and> n < unat b + unat count \<or> pmm_used s n" for n
    proof -
      have "s' = fold (\<lambda>j. bitmap_set (b + of_nat j)) [0..<unat count] s"
        using assms Some False by (simp add: pmm_alloc_contiguous_blocks_def)
      then have "pmm_used s' n \<longleftrightarrow> (\<exists>j < unat count. n = unat b + j) \<or> pmm_used s n"
        using b(1) assms(1) by (auto simp: fold_bitmap_set pmm_block_valid_iff j)
      also have "(\<exists>j < unat count. n = unat b + j) \<longleftrightarrow> unat b \<le> n \<and> n < unat b + unat count"
        by (auto intro: exI [of _ "n - unat b"])
      finally show ?thesis .
    qed
    moreover have "a = b * PAGE_SIZE"
      using assms Some False by (simp add: pmm_alloc_contiguous_blocks_def)
    ultimately show ?thesis using b by (intro disjI1 exI [of _ "unat b"]) simp
  qed
qed

theorem pmm_alloc_contiguous_first_run_witness:
  "\<exists>s :: pmm_state. fst (pmm_alloc_contiguous_blocks 3 s) = 0x2000 \<and>
     (\<forall>n. pmm_used (snd (pmm_alloc_contiguous_blocks 3 s)) n \<longleftrightarrow> 2 \<le> n \<and> n < 5 \<or> pmm_used s n)"
proof -
  let ?s = "\<lparr>pmm_bitmap = 0x200000, pmm_words = (\<lambda>i. 3), pmm_max_blocks = 20\<rparr>"
  obtain a s' where r: "pmm_alloc_contiguous_blocks 3 ?s = (a, s')" by fastforce
  have used: "pmm_used ?s 0" "pmm_used ?s 1" and "\<not> pmm_used ?s 2" "\<not> pmm_used ?s 3" "\<not> pmm_used ?s 4"
    by (simp_all add: pmm_used_def)
  moreover have "n = 2 \<or> n = 3 \<or> n = 4" if "2 \<le> n" "n < 5" for n :: nat
    using that by linarith
  ultimately have run: "pmm_free_run ?s 2 3"
    by (fastforce simp: pmm_free_run_def)
  have no: "\<not> pmm_free_run ?s 0 3" "\<not> pmm_free_run ?s 1 3"
    using used(1) used(2) unfolding pmm_free_run_def by fastforce+
  from pmm_alloc_contiguous_first_run [OF _ _ r] run
  obtain st where st: "pmm_free_run ?s st 3" "\<forall>q < st. \<not> pmm_free_run ?s q 3"
    "a = of_nat st * PAGE_SIZE"
    "\<forall>n. pmm_used s' n \<longleftrightarrow> st \<le> n \<and> n < st + 3 \<or> pmm_used ?s n"
    by fastforce
  have "st = 2"
  proof (rule ccontr)
    assume "st \<noteq> 2"
    then consider "st = 0" | "st = 1" | "2 < st" by linarith
    then show False using st no run by cases auto
  qed
  with st r show ?thesis
    by (intro exI [of _ ?s]) (simp add: PAGE_SIZE_def)
qed

section \<open>Memory accounting\<close>

lemma fold_count_bits:
  "fold (\<lambda>j u. if bit (w::u32) j then u + 1 else u) [0..<k] (u::u32)
     = u + of_nat (card {j. j < k \<and> bit w j})"
proof (induction k)
  case 0
  then show ?case by simp
next
  case (Suc k)
  have "{j. j < Suc k \<and> bit w j} = (if bit w k then insert k {j. j < k \<and> bit w j} else {j. j < k \<and> bit w j})"
    by (auto simp: less_Suc_eq)
  with Suc show ?case by simp
qed

lemma pmm_count_word_card: "pmm_count_word w u = u + of_nat (card {j. j < 32 \<and> bit w j})"
proof -
  have "{j. j < 32 \<and> bit (4294967295::u32) j} = {..<32}"
    by (auto simp: u32_max)
  then show ?thesis
    by (simp add: pmm_count_word_def fold_count_bits)
qed

lemma fold_count_words:
  "fold (\<lambda>i. pmm_count_word (pmm_words s i)) [0..<k] 0 = of_nat (card {n. n < 32 * k \<and> pmm_used s n})"
proof (induction k)
  case 0
  then show ?case by simp
next
  case (Suc k)
  have "{n. n < 32 * Suc k \<and> pmm_used s n}
      = {n. n < 32 * k \<and> pmm_used s n} \<union> (\<lambda>j. 32 * k + j) ` {j. j < 32 \<and> bit (pmm_words s k) j}"
    (is "?all = ?low \<union> ?high")
  proof (intro equalityI subsetI)
    fix n assume n: "n \<in> ?all"
    show "n \<in> ?low \<union> ?high"
    proof (cases "n < 32 * k")
      case False
      then have "n div 32 = k" "n mod 32 = n - 32 * k" using n by (auto simp: div_nat_eqI mod_nat_eqI)
      then show ?thesis using n False
        by (auto simp: pmm_used_def intro!: image_eqI [of _ _ "n - 32 * k"])
    qed (use n in auto)
  qed (auto simp: pmm_used_def)
  moreover have "card (?low \<union> ?high) = card ?low + card ?high"
    by (intro card_Un_disjoint) auto
  moreover have "card ?high = card {j. j < 32 \<and> bit (pmm_words s k) j}"
    by (intro card_image) (auto simp: inj_on_def)
  ultimately show ?case using Suc by (simp add: pmm_count_word_card)
qed

text \<open>below 4 GiB, and for a whole number of bitmap words, \<open>pmm_get_memory_info\<close>
  reports the bytes of all blocks, of the used ones and of the free ones.\<close>

theorem pmm_get_memory_info_exact:
  assumes "pmm_bitmap s \<noteq> 0" "pmm_blocks s < 2 ^ 20" "32 dvd pmm_blocks s"
    and "pmm_get_memory_info s = (tot, usd, fre)"
  shows "unat tot = pmm_blocks s * 4096 \<and>
    unat usd = card {n. n < pmm_blocks s \<and> pmm_used s n} * 4096 \<and>
    unat fre = card {n. n < pmm_blocks s \<and> \<not> pmm_used s n} * 4096"
proof -
  let ?U = "{n. n < pmm_blocks s \<and> pmm_used s n}"
  let ?F = "{n. n < pmm_blocks s \<and> \<not> pmm_used s n}"
  have split: "card ?U + card ?F = pmm_blocks s"
  proof -
    have "card (?U \<union> ?F) = card ?U + card ?F" by (intro card_Un_disjoint) auto
    moreover have "?U \<union> ?F = {..<pmm_blocks s}" by auto
    ultimately show ?thesis by simp
  qed
  have all: "32 * (pmm_blocks s div 32) = pmm_blocks s" using assms(3) by simp
  have info: "tot = pmm_max_blocks s * 4096" "usd = of_nat (card ?U) * 4096" "fre = tot - usd"
    using assms(4) assms(1) all fold_count_words [of s "pmm_blocks s div 32"]
    by (auto simp: pmm_get_memory_info_def Let_def PAGE_SIZE_def word_nat split: if_splits)
  have times: "unat (of_nat k * 4096 :: u32) = k * 4096" if "k \<le> pmm_blocks s" for k
    using that assms(2) by (simp add: unat_word_ariths unat_of_nat_small)
  have t: "unat tot = pmm_blocks s * 4096" using info(1) times [of "pmm_blocks s"] by simp
  have u: "unat usd = card ?U * 4096" using info(2) times split by simp
  have "unat fre = unat tot - unat usd"
    using t u split info(3) by (simp add: word_nat)
  then have "unat fre = card ?F * 4096" using t u split by linarith
  with t u show ?thesis by blast
qed

theorem pmm_get_memory_info_exact_witness:
  "pmm_get_memory_info \<lparr>pmm_bitmap = 0x200000, pmm_words = (\<lambda>i. 0xF), pmm_max_blocks = 64\<rparr>
     = (262144, 32768, 229376)
   \<and> card {n. n < 64 \<and> \<not> pmm_used \<lparr>pmm_bitmap = 0x200000, pmm_words = (\<lambda>i. 0xF), pmm_max_blocks = 64\<rparr> n} = 56"
proof -
  let ?s = "\<lparr>pmm_bitmap = 0x200000, pmm_words = (\<lambda>i. 0xF), pmm_max_blocks = 64\<rparr> :: pmm_state"
  have r: "pmm_get_memory_info ?s = (262144, 32768, 229376)"
    by (simp add: pmm_get_memory_info_def PAGE_SIZE_def pmm_count_word_def upt_rec bit_mask_def)
  with pmm_get_memory_info_exact [OF _ _ _ r] show ?thesis by simp
qed

section \<open>Initialisation\<close>

lemma fold_mark_used_mono:
  "pmm_used s n \<Longrightarrow> pmm_used (fold pmm_mark_used as s) n"
  by (induction as arbitrary: s) auto

lemma fold_mark_used_frame [simp]:
  "pmm_bitmap (fold pmm_mark_used as s) = pmm_bitmap s"
  "pmm_max_blocks (fold pmm_mark_used as s) = pmm_max_blocks s"
  by (induction as arbitrary: s) auto

lemma pmm_initialize_all_used:
  assumes "mem_size \<ge> 4096" "bitmap_addr \<noteq> 0"
    and "unat (bitmap_addr + (ucast (mem_size div 4096) + 31) div 32 * 4 :: u32) + 4096 \<le> 2 ^ 32"
    and "unat (ucast (mem_size div 4096) :: u32) + 31 < 2 ^ 32"
  shows "\<exists>s'. pmm_initialize mem_size bitmap_addr s = Some s' \<and> pmm_bitmap s' = bitmap_addr \<and>
     pmm_max_blocks s' = ucast (mem_size div 4096) \<and> (\<forall>n < pmm_blocks s'. pmm_used s' n)"
proof -
  let ?max = "ucast (mem_size div 4096) :: u32"
  let ?s1 = "s\<lparr>pmm_max_blocks := ?max, pmm_bitmap := bitmap_addr\<rparr>"
  let ?s2 = "?s1\<lparr>pmm_words := (\<lambda>i. if i < unat ((?max + 31) div 32) then 0xFFFFFFFF else pmm_words ?s1 i)\<rparr>"
  let ?s3 = "fold pmm_mark_used (word_steps PAGE_SIZE 0x300000 0) ?s2"
  let ?s4 = "fold pmm_mark_used (word_steps PAGE_SIZE (bitmap_addr + (?max + 31) div 32 * 4) bitmap_addr) ?s3"
  have nz: "PAGE_SIZE \<noteq> 0" "\<not> mem_size < 4096" using assms(1) by (simp_all add: PAGE_SIZE_def)
  have l1: "for_words PAGE_SIZE pmm_mark_used 0x300000 0 ?s2 = Some ?s3"
    by (rule for_words_terminates) (simp_all add: PAGE_SIZE_def)
  have l2: "for_words PAGE_SIZE pmm_mark_used (bitmap_addr + (?max + 31) div 32 * 4) bitmap_addr ?s3 = Some ?s4"
    by (rule for_words_terminates) (use assms(3) nz in \<open>simp_all add: PAGE_SIZE_def\<close>)
  have words: "unat ((?max + 31) div 32) = (unat ?max + 31) div 32"
    using assms(4) by (simp add: unat_div unat_add_no_wrap)
  have "pmm_used ?s2 n" if "n < unat ?max" for n
  proof -
    have "n div 32 < (unat ?max + 31) div 32" using that by linarith
    then show ?thesis by (simp add: pmm_used_def words u32_max)
  qed
  then have "\<forall>n < unat ?max. pmm_used ?s4 n" by (blast intro: fold_mark_used_mono)
  moreover have "pmm_initialize mem_size bitmap_addr s = Some ?s4"
    unfolding pmm_initialize_def Let_def using nz assms(2) l1 l2 by simp
  ultimately show ?thesis by simp
qed

lemma unat_ucast_u32: "unat (ucast (w::u64) :: u32) = unat w mod 2 ^ 32"
  by (simp add: unsigned_ucast_eq take_bit_eq_mod)

lemma pmm_free_from_step [simp]:
  "pmm_used (pmm_free_from a s) n \<longleftrightarrow>
     \<not> (a \<ge> 0x300000 \<and> pmm_addr_is_valid (ucast a) s \<and> n = unat a mod 2 ^ 32 div 4096) \<and> pmm_used s n"
  "pmm_bitmap (pmm_free_from a s) = pmm_bitmap s"
  "pmm_max_blocks (pmm_free_from a s) = pmm_max_blocks s"
  "pmm_addr_is_valid b (pmm_free_from a s) = pmm_addr_is_valid b s"
  by (auto simp: pmm_free_from_def unat_ucast_u32 pmm_addr_valid_iff)

lemma fold_free_from:
  "pmm_used (fold pmm_free_from as s) n \<longleftrightarrow>
     \<not> (\<exists>a \<in> set as. a \<ge> 0x300000 \<and> pmm_addr_is_valid (ucast a) s \<and> n = unat a mod 2 ^ 32 div 4096)
     \<and> pmm_used s n"
  "pmm_bitmap (fold pmm_free_from as s) = pmm_bitmap s"
  "pmm_max_blocks (fold pmm_free_from as s) = pmm_max_blocks s"
  by (induction as arbitrary: s) auto

text \<open>
  The pages an entry frees: the multiples of 4 KiB counted from its base, at or above
  3 MiB, with their address cut to 32 bits as the cast in the call does.
\<close>

definition pmm_entry_frees :: "mmap_entry \<Rightarrow> nat \<Rightarrow> nat \<Rightarrow> bool" where
  "pmm_entry_frees e blocks n \<longleftrightarrow> mm_type e = 1 \<and>
     (\<exists>a. unat (mm_base e) \<le> a \<and> a < unat (mm_base e) + unat (mm_length e) \<and>
        (a - unat (mm_base e)) mod 4096 = 0 \<and> 0x300000 \<le> a \<and> a mod 4096 = 0 \<and>
        n = a mod 2 ^ 32 div 4096 \<and> n < blocks)"

definition mmap_no_wrap :: "mmap_entry \<Rightarrow> bool" where
  "mmap_no_wrap e \<longleftrightarrow> mm_type e = 1 \<longrightarrow> unat (mm_base e) + unat (mm_length e) + 4096 \<le> 2 ^ 64"

lemma pmm_free_entry_result:
  assumes "mmap_no_wrap (entries i)" "pmm_bitmap s \<noteq> 0"
  shows "\<exists>s'. pmm_free_entry entries i s = Some s' \<and>
    pmm_bitmap s' = pmm_bitmap s \<and> pmm_max_blocks s' = pmm_max_blocks s \<and>
    (\<forall>n. pmm_used s' n \<longleftrightarrow> \<not> pmm_entry_frees (entries i) (pmm_blocks s) n \<and> pmm_used s n)"
proof (cases "mm_type (entries i) = 1")
  case True
  let ?b = "mm_base (entries i)" and ?l = "mm_length (entries i)"
  let ?as = "word_steps 4096 (?b + ?l) ?b"
  have nw: "unat (?b + ?l) = unat ?b + unat ?l"
    using assms(1) True by (intro unat_add_no_wrap) (simp add: mmap_no_wrap_def)
  have hi: "unat (?b + ?l) + unat (4096::u64) \<le> 2 ^ LENGTH(64)"
    using assms(1) True nw by (simp add: mmap_no_wrap_def)
  have "for_words 4096 pmm_free_from (?b + ?l) ?b s = Some (fold pmm_free_from ?as s)"
    by (rule for_words_terminates) (use hi in simp_all)
  moreover have "(\<exists>a \<in> set ?as. a \<ge> 0x300000 \<and> pmm_addr_is_valid (ucast a) s \<and> n = unat a mod 2 ^ 32 div 4096)
      \<longleftrightarrow> pmm_entry_frees (entries i) (pmm_blocks s) n" (is "?L \<longleftrightarrow> ?R") for n
  proof
    assume ?L
    then obtain a where a: "a \<in> set ?as" "a \<ge> 0x300000" "pmm_addr_is_valid (ucast a) s"
      "n = unat a mod 2 ^ 32 div 4096" by blast
    have "a \<in> set ?as \<longleftrightarrow> ?b \<le> a \<and> a < ?b + ?l \<and> (unat a - unat ?b) mod unat (4096::u64) = 0"
      by (rule set_word_steps) (use hi in simp_all)
    then show ?R using a True nw
      by (auto simp: pmm_entry_frees_def pmm_addr_valid_iff unat_ucast_u32 word_le_nat_alt word_less_nat_alt
          mod_mod_cancel intro!: exI [of _ "unat a"])
  next
    assume ?R
    then obtain a where a: "unat ?b \<le> a" "a < unat ?b + unat ?l" "(a - unat ?b) mod 4096 = 0"
      "0x300000 \<le> a" "a mod 4096 = 0" "n = a mod 2 ^ 32 div 4096" "n < pmm_blocks s"
      by (auto simp: pmm_entry_frees_def)
    have ua: "unat (of_nat a :: u64) = a"
      using a(2) assms(1) True by (intro unat_of_nat_small) (simp add: mmap_no_wrap_def)
    have "of_nat a \<in> set ?as \<longleftrightarrow> ?b \<le> of_nat a \<and> of_nat a < ?b + ?l \<and>
        (unat (of_nat a :: u64) - unat ?b) mod unat (4096::u64) = 0"
      by (rule set_word_steps) (use hi in simp_all)
    then have "of_nat a \<in> set ?as"
      using a(1,2,3) by (simp add: word_le_nat_alt word_less_nat_alt ua nw)
    moreover have "pmm_addr_is_valid (ucast (of_nat a :: u64)) s"
      using a(5,6,7) assms(2) by (simp add: pmm_addr_valid_iff unat_ucast_u32 ua mod_mod_cancel)
    ultimately show ?L using a(4,6)
      by (intro bexI [of _ "of_nat a"]) (simp_all add: word_le_nat_alt ua)
  qed
  ultimately show ?thesis using True
    by (simp add: pmm_free_entry_def fold_free_from)
next
  case False
  then show ?thesis by (simp add: pmm_free_entry_def pmm_entry_frees_def)
qed

lemma fold_free_entries:
  assumes "\<forall>i \<in> set is. mmap_no_wrap (entries i)" "pmm_bitmap s \<noteq> 0"
  shows "\<exists>s'. fold_opt (pmm_free_entry entries) is s = Some s' \<and>
    pmm_bitmap s' = pmm_bitmap s \<and> pmm_max_blocks s' = pmm_max_blocks s \<and>
    (\<forall>n. pmm_used s' n \<longleftrightarrow>
       \<not> (\<exists>i \<in> set is. pmm_entry_frees (entries i) (pmm_blocks s) n) \<and> pmm_used s n)"
  using assms
proof (induction "is" arbitrary: s)
  case (Cons i "is")
  from Cons.prems pmm_free_entry_result [of entries i s] obtain s1 where
    s1: "pmm_free_entry entries i s = Some s1" "pmm_bitmap s1 = pmm_bitmap s"
    "pmm_max_blocks s1 = pmm_max_blocks s"
    "\<forall>n. pmm_used s1 n \<longleftrightarrow> \<not> pmm_entry_frees (entries i) (pmm_blocks s) n \<and> pmm_used s n"
    by auto
  from Cons.IH [of s1] Cons.prems s1 show ?case by auto
qed simp

lemma fold_running_max:
  fixes f :: "nat \<Rightarrow> 'a::linorder" and P :: "nat \<Rightarrow> bool"
  defines "g \<equiv> fold (\<lambda>i h. if P i \<and> f i > h then f i else h)"
  shows "h \<le> g xs h" "\<And>i. i \<in> set xs \<Longrightarrow> P i \<Longrightarrow> f i \<le> g xs h"
    "g xs h = h \<or> (\<exists>i \<in> set xs. P i \<and> g xs h = f i)"
  unfolding g_def
proof (induction xs arbitrary: h)
  case (Cons j js)
  { case 1 show ?case using Cons(1) [of "if P j \<and> f j > h then f j else h"] by (auto split: if_splits)
  next
    case (2 i)
    show ?case
    proof (cases "i = j")
      case True
      then show ?thesis using 2 Cons(1) [of "if P j \<and> f j > h then f j else h"]
        by (auto split: if_splits)
    qed (use 2 Cons(2) in auto)
  next
    case 3 show ?case using Cons(3) [of "if P j \<and> f j > h then f j else h"] by (auto split: if_splits)
  }
qed auto

lemma pmm_highest_props:
  "i < unat cnt \<Longrightarrow> mm_type (entries i) = 1 \<Longrightarrow>
     mm_base (entries i) + mm_length (entries i) \<le> pmm_highest cnt entries"
  "pmm_highest cnt entries = 0 \<or> (\<exists>i < unat cnt. mm_type (entries i) = 1 \<and>
     pmm_highest cnt entries = mm_base (entries i) + mm_length (entries i))"
  unfolding pmm_highest_def
  using fold_running_max(2,3) [where f = "\<lambda>i. mm_base (entries i) + mm_length (entries i)"
      and P = "\<lambda>i. mm_type (entries i) = 1" and xs = "[0..<unat cnt]" and h = "0::u64"]
  by auto

text \<open>What a memory map with regions below 1 TiB leaves.\<close>

lemma pmm_initialize_from_map_result:
  assumes cnt: "cnt \<noteq> 0" "cnt \<noteq> 0xFFFFFFFF"
    and bnd: "\<forall>i < unat cnt. mm_type (entries i) = 1 \<longrightarrow>
      unat (mm_base (entries i)) + unat (mm_length (entries i)) \<le> 2 ^ 40"
    and big: "k < unat cnt" "mm_type (entries k) = 1"
      "4096 \<le> unat (mm_base (entries k)) + unat (mm_length (entries k))"
  shows "\<exists>s'. pmm_initialize_from_map cnt entries s = Some s' \<and> pmm_bitmap s' = 0x200000 \<and>
     pmm_blocks s' = unat (pmm_highest cnt entries) div 4096 \<and>
     (\<forall>n < pmm_blocks s'. \<not> pmm_used s' n \<longleftrightarrow> (\<exists>i < unat cnt. pmm_entry_frees (entries i) (pmm_blocks s') n))"
proof -
  let ?h = "pmm_highest cnt entries"
  have nw: "mmap_no_wrap (entries i)" if "i < unat cnt" for i
    using bnd that by (auto simp: mmap_no_wrap_def)
  have sum: "unat (mm_base (entries i) + mm_length (entries i))
      = unat (mm_base (entries i)) + unat (mm_length (entries i))"
    if "i < unat cnt" "mm_type (entries i) = 1" for i
    using nw [OF that(1)] that(2) by (intro unat_add_no_wrap) (simp add: mmap_no_wrap_def)
  have h_big: "4096 \<le> unat ?h"
    using pmm_highest_props(1) [of k cnt entries, OF big(1,2)] sum [OF big(1,2)] big(3) by (simp add: word_le_nat_alt)
  then have "?h \<noteq> 0" by auto
  then obtain i where i: "i < unat cnt" "mm_type (entries i) = 1"
    "?h = mm_base (entries i) + mm_length (entries i)"
    using pmm_highest_props(2) [of cnt entries] by blast
  then have h40: "unat ?h \<le> 2 ^ 40" using bnd sum by auto
  have umax: "unat (ucast (?h div 4096) :: u32) = unat ?h div 4096"
    using h40 by (simp add: unat_ucast_u32 unat_div)
  let ?max = "ucast (?h div 4096) :: u32"
  have max28: "unat ?max \<le> 2 ^ 28" using umax h40 by (simp add: div_le_mono)
  have end_ok: "unat (0x200000 + (?max + 31) div 32 * 4 :: u32) + 4096 \<le> 2 ^ 32"
  proof -
    have a: "unat (?max + 31) = unat ?max + 31" using max28 unat_add_no_wrap [of ?max 31] by simp
    have b: "unat ((?max + 31) div 32 * 4) = (unat ?max + 31) div 32 * 4"
      using max28 by (simp add: unat_word_ariths unat_div a)
    have "unat (0x200000 + (?max + 31) div 32 * 4 :: u32) = 0x200000 + (unat ?max + 31) div 32 * 4"
      using max28 by (simp add: unat_word_ariths(1) b)
    then show ?thesis using max28 by simp
  qed
  obtain s1 where s1: "pmm_initialize ?h 0x200000 s = Some s1" "pmm_bitmap s1 = 0x200000"
    "pmm_max_blocks s1 = ?max" "\<forall>n < pmm_blocks s1. pmm_used s1 n"
    using pmm_initialize_all_used [of ?h "0x200000" s] h_big end_ok max28
    by (auto simp: word_le_nat_alt)
  obtain s' where s': "fold_opt (pmm_free_entry entries) [0..<unat cnt] s1 = Some s'"
    "pmm_bitmap s' = pmm_bitmap s1" "pmm_max_blocks s' = pmm_max_blocks s1"
    "\<forall>n. pmm_used s' n \<longleftrightarrow>
       \<not> (\<exists>i \<in> set [0..<unat cnt]. pmm_entry_frees (entries i) (pmm_blocks s1) n) \<and> pmm_used s1 n"
    using fold_free_entries [of "[0..<unat cnt]" entries s1] nw s1(2) by auto
  have "pmm_initialize_from_map cnt entries s = Some s'"
    using cnt s1(1) s'(1) by (simp add: pmm_initialize_from_map_def)
  then show ?thesis using s' s1 umax by auto
qed


definition sample_map :: "nat \<Rightarrow> mmap_entry" where
  "sample_map i =
     (if i = 0 then \<lparr>mm_base = 0, mm_length = 0x9FC00, mm_type = 1, mm_acpi = 0\<rparr>
      else if i = 1 then \<lparr>mm_base = 0x100000, mm_length = 0x1F00000, mm_type = 1, mm_acpi = 0\<rparr>
      else \<lparr>mm_base = 0, mm_length = 0, mm_type = 2, mm_acpi = 0\<rparr>)"


text \<open>A usable region that reaches past 4 GiB frees the kernel's memory. The cast of the
  64-bit address to 32 bits turns the page at 4 GiB into block 0, and the next
  \<open>pmm_alloc_block\<close> hands out block 0, whose address is the \<open>NULL\<close> that means failure.\<close>

theorem pmm_initialize_from_map_above_4GiB:
  assumes "cnt \<noteq> 0" "cnt \<noteq> 0xFFFFFFFF"
    and "\<forall>i < unat cnt. mm_type (entries i) = 1 \<longrightarrow>
      unat (mm_base (entries i)) + unat (mm_length (entries i)) \<le> 2 ^ 40"
    and "k < unat cnt" "mm_type (entries k) = 1" "unat (mm_base (entries k)) mod 4096 = 0"
      "unat (mm_base (entries k)) \<le> 2 ^ 32"
      "2 ^ 32 < unat (mm_base (entries k)) + unat (mm_length (entries k))"
  shows "\<exists>s'. pmm_initialize_from_map cnt entries s = Some s' \<and> \<not> pmm_used s' 0 \<and>
     fst (pmm_alloc_block s') = 0 \<and> pmm_used (snd (pmm_alloc_block s')) 0"
proof -
  from pmm_initialize_from_map_result [OF assms(1-5), of s] assms(8)
  obtain s' where s': "pmm_initialize_from_map cnt entries s = Some s'" "pmm_bitmap s' = 0x200000"
    "pmm_blocks s' = unat (pmm_highest cnt entries) div 4096"
    "\<forall>n < pmm_blocks s'. \<not> pmm_used s' n \<longleftrightarrow> (\<exists>i < unat cnt. pmm_entry_frees (entries i) (pmm_blocks s') n)"
    by auto
  have "unat (mm_base (entries k)) + unat (mm_length (entries k)) \<le> unat (pmm_highest cnt entries)"
  proof -
    have "unat (mm_base (entries k)) + unat (mm_length (entries k)) \<le> 2 ^ 40"
      using assms(3-5) by blast
    then have "unat (mm_base (entries k) + mm_length (entries k))
        = unat (mm_base (entries k)) + unat (mm_length (entries k))"
      by (intro unat_add_no_wrap) simp
    then show ?thesis using pmm_highest_props(1) [of k cnt entries, OF assms(4,5)]
      by (simp add: word_le_nat_alt)
  qed
  then have blocks: "32 \<le> pmm_blocks s'" using assms(8) s'(3) by simp
  have "pmm_entry_frees (entries k) (pmm_blocks s') 0"
    unfolding pmm_entry_frees_def using assms(5-8) blocks
    by (intro conjI exI [of _ "2 ^ 32"]) (auto simp: mod_0_imp_dvd dvd_diff_nat)
  then have free0: "\<not> pmm_used s' 0" using s'(4) assms(4) blocks by auto
  obtain a s2 where r: "pmm_alloc_block s' = (a, s2)" by fastforce
  have "a = 0 \<and> pmm_used s2 0"
  proof (rule pmm_alloc_block_cases [OF _ r])
    show "pmm_bitmap s' \<noteq> 0" using s'(2) by simp
  next
    fix n assume n: "\<forall>m < n. pmm_used s' m" "a = of_nat n * PAGE_SIZE" "\<forall>m. pmm_used s2 m \<longleftrightarrow> m = n \<or> pmm_used s' m"
    then have "n = 0" using free0 by blast
    with n show ?thesis by simp
  next
    assume "\<forall>n < 32 * (pmm_blocks s' div 32). pmm_used s' n"
    moreover have "0 < 32 * (pmm_blocks s' div 32)" using blocks by linarith
    ultimately show ?thesis using free0 by blast
  qed
  with r s'(1) free0 show ?thesis by auto
qed

theorem pmm_initialize_from_map_above_4GiB_witness:
  "\<exists>s'. pmm_initialize_from_map 1
      (\<lambda>i. \<lparr>mm_base = 0x100000000, mm_length = 0x10000, mm_type = 1, mm_acpi = 0\<rparr>)
      \<lparr>pmm_bitmap = 0, pmm_words = (\<lambda>i. 0), pmm_max_blocks = 0\<rparr> = Some s' \<and>
     \<not> pmm_used s' 0 \<and> fst (pmm_alloc_block s') = 0 \<and> pmm_used (snd (pmm_alloc_block s')) 0"
  by (rule pmm_initialize_from_map_above_4GiB [where k = 0]) simp_all

section \<open>The interface of the frame allocator\<close>

text \<open>
  What the users of the manager (the page tables and the heap) rely on: a frame that
  is allocated was not in use, is not the null address and is the only one that
  changes; releasing it makes it available again.
\<close>

locale frame_allocator =
  fixes alloc :: "'s \<Rightarrow> u32 \<times> 's"
    and release :: "u32 \<Rightarrow> 's \<Rightarrow> 's"
    and in_use :: "'s \<Rightarrow> u32 set"
    and inv :: "'s \<Rightarrow> bool"
  assumes alloc_fresh: "inv s \<Longrightarrow> alloc s = (a, s') \<Longrightarrow> a \<noteq> 0 \<Longrightarrow>
      a \<notin> in_use s \<and> a mod PAGE_SIZE = 0 \<and> in_use s' = insert a (in_use s)"
    and alloc_none: "inv s \<Longrightarrow> alloc s = (0, s') \<Longrightarrow> s' = s"
    and alloc_inv: "inv s \<Longrightarrow> alloc s = (a, s') \<Longrightarrow> inv s'"
    and release_use: "inv s \<Longrightarrow> a \<in> in_use s \<Longrightarrow> a \<noteq> 0 \<Longrightarrow>
      in_use (release a s) = in_use s - {a}"
    and release_inv: "inv s \<Longrightarrow> inv (release a s)"
begin

lemma alloc_twice_distinct:
  assumes "inv s" "alloc s = (a, s1)" "alloc s1 = (b, s2)" "b \<noteq> 0"
  shows "a \<noteq> b \<and> in_use s2 = insert b (if a = 0 then in_use s else insert a (in_use s))"
proof -
  have i1: "inv s1" using alloc_inv assms(1,2) by blast
  have b: "b \<notin> in_use s1" "in_use s2 = insert b (in_use s1)"
    using alloc_fresh [OF i1 assms(3,4)] by blast+
  show ?thesis
  proof (cases "a = 0")
    case True then show ?thesis using alloc_none [OF assms(1)] assms(2,4) b by auto
  next
    case False
    then show ?thesis using alloc_fresh [OF assms(1,2) False] b by auto
  qed
qed

lemma alloc_release:
  assumes "inv s" "alloc s = (a, s1)" "a \<noteq> 0"
  shows "in_use (release a s1) = in_use s"
  using alloc_fresh [OF assms] release_use [of s1 a] alloc_inv [OF assms(1,2)] assms(3) by auto

lemma alloc_twice_release:
  assumes "inv s" "alloc s = (a, s1)" "alloc s1 = (b, s2)" "a \<noteq> 0" "b \<noteq> 0"
  shows "a \<noteq> b \<and> a mod PAGE_SIZE = 0 \<and> b mod PAGE_SIZE = 0 \<and> a \<notin> in_use s \<and> b \<notin> in_use s \<and>
    in_use s2 = insert b (insert a (in_use s)) \<and> in_use (release a s2) = insert b (in_use s)"
proof -
  have i1: "inv s1" using alloc_inv assms(1,2) by blast
  then have i2: "inv s2" using alloc_inv assms(3) by blast
  show ?thesis
    using alloc_fresh [OF assms(1,2,4)] alloc_fresh [OF i1 assms(3,5)]
      release_use [OF i2 _ assms(4)] by auto
qed

end

text \<open>The frames in use, and the invariant of a manager that owns at most 4 GiB and keeps block 0.\<close>

definition pmm_in_use :: "'a pmm_state_scheme \<Rightarrow> u32 set" where
  "pmm_in_use s = {a. pmm_addr_is_valid a s \<and> pmm_used s (unat a div 4096)}"

definition pmm_inv :: "'a pmm_state_scheme \<Rightarrow> bool" where
  "pmm_inv s \<longleftrightarrow> pmm_bitmap s \<noteq> 0 \<and> 0 < pmm_blocks s \<and> pmm_blocks s \<le> 2 ^ 20 \<and> pmm_used s 0"

lemma pmm_in_use_zero: "pmm_inv s \<Longrightarrow> 0 \<in> pmm_in_use s"
  by (simp add: pmm_in_use_def pmm_inv_def pmm_addr_valid_iff)

lemma unat_block_address:
  assumes "n < 2 ^ 20"
  shows "unat (of_nat n * PAGE_SIZE) = n * 4096"
proof -
  have "unat (of_nat n :: u32) = n" using assms by (intro unat_of_nat_small) simp
  then show ?thesis using assms by (simp add: PAGE_SIZE_def unat_word_ariths)
qed

lemma pmm_alloc_block_in_use:
  assumes "pmm_inv s" "pmm_alloc_block s = (a, s')"
  shows "(a = 0 \<longrightarrow> s' = s) \<and> pmm_inv s' \<and>
    (a \<noteq> 0 \<longrightarrow> a \<notin> pmm_in_use s \<and> a mod PAGE_SIZE = 0 \<and> pmm_in_use s' = insert a (pmm_in_use s))"
proof -
  have inv: "pmm_bitmap s \<noteq> 0" "0 < pmm_blocks s" "pmm_blocks s \<le> 2 ^ 20" "pmm_used s 0"
    using assms(1) by (auto simp: pmm_inv_def)
  show ?thesis
  proof (rule pmm_alloc_block_cases [OF inv(1) assms(2)])
    fix n assume n: "n < 32 * (pmm_blocks s div 32)" "\<not> pmm_used s n" "a = of_nat n * PAGE_SIZE"
      "s' = bitmap_set (of_nat n) s" "\<forall>m. pmm_used s' m \<longleftrightarrow> m = n \<or> pmm_used s m"
    have nb: "n < pmm_blocks s" using n(1) by linarith
    have ua: "unat a = n * 4096" using unat_block_address [of n] nb inv(3) n(3) by simp
    have av: "pmm_addr_is_valid a s" using inv(1) nb by (simp add: pmm_addr_valid_iff ua)
    have same: "b = a" if "pmm_addr_is_valid b s" "unat b div 4096 = n" for b
    proof -
      have "unat b = n * 4096" using that by (simp add: pmm_addr_valid_iff) (metis div_mult_mod_eq add.right_neutral)
      then show ?thesis by (simp add: word_unat_eq_iff ua)
    qed
    have "pmm_in_use s' = {b. pmm_addr_is_valid b s \<and> (unat b div 4096 = n \<or> pmm_used s (unat b div 4096))}"
      using n(5) by (simp add: pmm_in_use_def n(4))
    also have "\<dots> = insert a (pmm_in_use s)"
      using av by (auto simp: pmm_in_use_def ua dest: same)
    finally have use': "pmm_in_use s' = insert a (pmm_in_use s)" .
    have "n \<noteq> 0" using n(2) inv(4) by metis
    then have "a \<noteq> 0" using ua by auto
    moreover have "pmm_inv s'" using inv n(5) by (simp add: pmm_inv_def n(4))
    moreover have "a \<notin> pmm_in_use s" using n(2) by (simp add: pmm_in_use_def ua)
    moreover have "a mod PAGE_SIZE = 0" by (simp add: word_unat_eq_iff unat_mod PAGE_SIZE_def ua)
    ultimately show ?thesis using use' by simp
  next
    assume "a = 0" "s' = s"
    with assms(1) show ?thesis by simp
  qed
qed

lemma pmm_free_block_in_use:
  assumes "pmm_inv s" "a \<in> pmm_in_use s" "a \<noteq> 0"
  shows "pmm_in_use (pmm_free_block a s) = pmm_in_use s - {a}"
proof -
  have "b = a" if "pmm_addr_is_valid b s" "unat b div 4096 = unat a div 4096" for b
    using that assms(2) unfolding pmm_in_use_def
    by (simp add: word_unat_eq_iff pmm_addr_valid_iff) (metis div_mult_mod_eq add.right_neutral)
  moreover have "pmm_addr_is_valid b (pmm_free_block a s) = pmm_addr_is_valid b s" for b
    by (simp add: pmm_addr_valid_iff)
  ultimately show ?thesis using assms by (auto simp: pmm_in_use_def)
qed

lemma pmm_free_block_inv: "pmm_inv s \<Longrightarrow> pmm_inv (pmm_free_block a s)"
  by (auto simp: pmm_inv_def pmm_addr_valid_iff word_unat_eq_iff)

interpretation pmm_frames: frame_allocator
  "pmm_alloc_block :: 'a pmm_state_scheme \<Rightarrow> u32 \<times> 'a pmm_state_scheme"
  pmm_free_block pmm_in_use pmm_inv
  by unfold_locales
    (use pmm_alloc_block_in_use pmm_free_block_in_use pmm_free_block_inv in \<open>blast+\<close>)

text \<open>C4: two allocations that succeed give distinct page-aligned frames, neither of which
  was in use; releasing the first leaves exactly the second in use in addition.\<close>

theorem pmm_alloc_twice_distinct:
  assumes "pmm_inv s" "pmm_alloc_block s = (a, s1)" "pmm_alloc_block s1 = (b, s2)" "a \<noteq> 0" "b \<noteq> 0"
  shows "a \<noteq> b \<and> a mod PAGE_SIZE = 0 \<and> b mod PAGE_SIZE = 0 \<and> a \<notin> pmm_in_use s \<and> b \<notin> pmm_in_use s \<and>
    pmm_in_use s2 = insert b (insert a (pmm_in_use s)) \<and>
    pmm_in_use (pmm_free_block a s2) = insert b (pmm_in_use s)"
  by (rule pmm_frames.alloc_twice_release [OF assms])

theorem pmm_alloc_twice_distinct_witness:
  "\<exists>a b s1 s2. pmm_alloc_block \<lparr>pmm_bitmap = 0x200000, pmm_words = (\<lambda>i. 0xF), pmm_max_blocks = 64\<rparr> = (a, s1) \<and>
     pmm_alloc_block s1 = (b, s2) \<and> a \<noteq> b \<and>
     pmm_in_use (pmm_free_block a s2)
       = insert b (pmm_in_use \<lparr>pmm_bitmap = 0x200000, pmm_words = (\<lambda>i. 0xF), pmm_max_blocks = 64\<rparr>)"
proof -
  let ?s = "\<lparr>pmm_bitmap = 0x200000, pmm_words = (\<lambda>i. 0xF), pmm_max_blocks = 64\<rparr> :: pmm_state"
  have inv: "pmm_inv ?s" by (simp add: pmm_inv_def pmm_used_def)
  have lt5: "m < 4 \<longleftrightarrow> m \<in> {0, 1, 2, 3}" "m < 5 \<longleftrightarrow> m \<in> {0, 1, 2, 3, 4}" for m :: nat by auto
  have a: "pmm_alloc_block ?s = (0x4000, bitmap_set 4 ?s)"
    using pmm_alloc_block_eq [of ?s 4] by (simp add: pmm_used_def lt5 PAGE_SIZE_def)
  have b: "pmm_alloc_block (bitmap_set 4 ?s) = (0x5000, bitmap_set 5 (bitmap_set 4 ?s))"
    using pmm_alloc_block_eq [of "bitmap_set 4 ?s" 5]
    by (simp add: lt5 PAGE_SIZE_def pmm_block_valid_iff) (simp add: pmm_used_def)
  from pmm_alloc_twice_distinct [OF inv a b] a b show ?thesis by auto
qed

end
