(* ===== verification/Vmm.thy ===== *)
theory Vmm
  imports Pmm
begin

text \<open>
  The virtual memory manager, \<open>src/kernel/mem/virtual_memory_manager/vmm.c\<close>: two-level x86
  page tables kept in physical frames of the frame allocator. \<open>mem\<close> holds the 32-bit
  word at a physical byte address (the kernel reaches the tables through the identity
  mapping), \<open>cr3\<close> is the register of that name. \<open>vmm_lookup\<close> is the walk the processor
  makes; the lemmas show that the operations refine updates of the finite map
  from virtual pages to page-table entries, as the interface \<open>address_space\<close> promises.
\<close>

section \<open>State and operations\<close>

definition PAGE_PRESENT :: u32 where "PAGE_PRESENT = 0x1"
definition PAGE_WRITE :: u32 where "PAGE_WRITE = 0x2"
definition PAGE_USER :: u32 where "PAGE_USER = 0x4"

definition USER_VIRT_MIN :: u32 where "USER_VIRT_MIN = 0x00100000"
definition KERNEL_VIRT_START :: u32 where "KERNEL_VIRT_START = 0xC0000000"
definition USER_STACK_TOP :: u32 where "USER_STACK_TOP = 0xBFFFF000"
definition USER_STACK_GUARD_MIN :: u32 where "USER_STACK_GUARD_MIN = 0xBFC00000"

record vmm_state = pmm_state +
  kernel_directory :: u32
  cr3 :: u32
  paging :: bool
  page_fault_registered :: bool
  mem :: "u32 \<Rightarrow> u32"

definition vmm_is_page_aligned :: "u32 \<Rightarrow> bool" where
  "vmm_is_page_aligned v \<longleftrightarrow> v AND (PAGE_SIZE - 1) = 0"

definition vmm_is_valid_directory :: "u32 \<Rightarrow> bool" where
  "vmm_is_valid_directory d \<longleftrightarrow> d \<noteq> 0 \<and> d AND (PAGE_SIZE - 1) = 0"

definition vmm_is_valid_page_index :: "u32 \<Rightarrow> bool" where
  "vmm_is_valid_page_index i \<longleftrightarrow> i < 1024"

text \<open>\<open>e & ~0xFFF\<close>, \<open>flags & 0xFFF\<close>, \<open>table[i]\<close>, \<open>virt >> 22\<close>, \<open>(virt >> 12) & 0x3FF\<close>, and
  \<open>memset(p, 0, PAGE_SIZE)\<close>.\<close>

definition frame_of :: "u32 \<Rightarrow> u32" where
  "frame_of e = e AND NOT 0xFFF"

definition flag_bits :: "u32 \<Rightarrow> u32" where
  "flag_bits flags = flags AND 0xFFF"

definition slot :: "u32 \<Rightarrow> u32 \<Rightarrow> u32" where
  "slot table i = table + 4 * i"

definition pd_index :: "u32 \<Rightarrow> u32" where
  "pd_index virt = drop_bit 22 virt"

definition pt_index :: "u32 \<Rightarrow> u32" where
  "pt_index virt = drop_bit 12 virt AND 0x3FF"

definition zero_page :: "u32 \<Rightarrow> 'a vmm_state_scheme \<Rightarrow> 'a vmm_state_scheme" where
  "zero_page p s = s\<lparr>mem := (\<lambda>a. if a - p < PAGE_SIZE then 0 else mem s a)\<rparr>"

definition set_word :: "u32 \<Rightarrow> u32 \<Rightarrow> 'a vmm_state_scheme \<Rightarrow> 'a vmm_state_scheme" where
  "set_word a v s = s\<lparr>mem := (mem s)(a := v)\<rparr>"

definition vmm_initialize :: "'a vmm_state_scheme \<Rightarrow> 'a vmm_state_scheme" where
  "vmm_initialize s =
     (let (d, s1) = pmm_alloc_block s;
          s1 = s1\<lparr>kernel_directory := d\<rparr>
      in if d = 0 then s1
         else let s2 = zero_page d s1;
                  (t1, s3) = pmm_alloc_block s2;
                  (t2, s4) = pmm_alloc_block s3
              in if t1 = 0 \<or> t2 = 0 then s4
                 else let s5 = fold (\<lambda>i. set_word (slot t1 (of_nat i))
                                 ((of_nat i * PAGE_SIZE) OR PAGE_PRESENT OR PAGE_WRITE)) [0..<1024] s4;
                          s6 = fold (\<lambda>i. set_word (slot t2 (of_nat i))
                                 ((0x400000 + of_nat i * PAGE_SIZE) OR PAGE_PRESENT OR PAGE_WRITE)) [0..<1024] s5;
                          s7 = set_word (slot d 0) (t1 OR PAGE_PRESENT OR PAGE_WRITE) s6;
                          s8 = set_word (slot d 1) (t2 OR PAGE_PRESENT OR PAGE_WRITE) s7;
                          s9 = set_word (slot d 1023) (d OR PAGE_PRESENT OR PAGE_WRITE) s8
                      in s9\<lparr>cr3 := d, paging := True, page_fault_registered := True\<rparr>)"

definition vmm_get_directory :: "'a vmm_state_scheme \<Rightarrow> u32" where
  "vmm_get_directory s = kernel_directory s"

definition vmm_create_directory :: "'a vmm_state_scheme \<Rightarrow> u32 \<times> 'a vmm_state_scheme" where
  "vmm_create_directory s =
     (let (new_dir, s1) = pmm_alloc_block s
      in if new_dir = 0 then (0, s1)
         else let s2 = zero_page new_dir s1;
                  s3 = fold (\<lambda>i s. set_word (slot new_dir (of_nat i))
                         (mem s (slot (kernel_directory s) (of_nat i))) s) [0..<1023] s2
              in (new_dir, set_word (slot new_dir 1023) (new_dir OR PAGE_PRESENT OR PAGE_WRITE) s3))"

definition vmm_switch_directory :: "u32 \<Rightarrow> 'a vmm_state_scheme \<Rightarrow> 'a vmm_state_scheme" where
  "vmm_switch_directory directory s =
     (if \<not> vmm_is_page_aligned directory then s else s\<lparr>cr3 := directory\<rparr>)"

text \<open>The end of \<open>vmm_map_page_in_directory\<close>, from the reload of the directory entry.\<close>

definition vmm_set_entry ::
  "u32 \<Rightarrow> u32 \<Rightarrow> u32 \<Rightarrow> u32 \<Rightarrow> 'a vmm_state_scheme \<Rightarrow> 'a vmm_state_scheme" where
  "vmm_set_entry dir phys virt flags s =
     (let table = frame_of (mem s (slot dir (pd_index virt)))
      in if table = 0 then s
         else set_word (slot table (pt_index virt))
                (frame_of phys OR flag_bits flags OR PAGE_PRESENT) s)"

definition vmm_map_page_in_directory ::
  "u32 \<Rightarrow> u32 \<Rightarrow> u32 \<Rightarrow> u32 \<Rightarrow> 'a vmm_state_scheme \<Rightarrow> 'a vmm_state_scheme" where
  "vmm_map_page_in_directory dir phys virt flags s =
     (if \<not> vmm_is_valid_directory dir then s
      else if phys = 0 \<or> virt = 0 then s
      else if \<not> vmm_is_page_aligned phys \<or> \<not> vmm_is_page_aligned virt then s
      else if \<not> vmm_is_valid_page_index (pd_index virt) \<or> \<not> vmm_is_valid_page_index (pt_index virt) then s
      else if mem s (slot dir (pd_index virt)) AND PAGE_PRESENT = 0
      then (let (new_table, s1) = pmm_alloc_block s
            in if new_table = 0 then s1
               else vmm_set_entry dir phys virt flags
                      (zero_page new_table
                        (set_word (slot dir (pd_index virt))
                           (frame_of new_table OR flag_bits flags OR PAGE_PRESENT) s1)))
      else vmm_set_entry dir phys virt flags s)"

definition vmm_map_page :: "u32 \<Rightarrow> u32 \<Rightarrow> u32 \<Rightarrow> 'a vmm_state_scheme \<Rightarrow> 'a vmm_state_scheme" where
  "vmm_map_page phys virt flags s = vmm_map_page_in_directory (cr3 s) phys virt flags s"

definition vmm_map_region ::
  "u32 \<Rightarrow> u32 \<Rightarrow> u32 \<Rightarrow> u32 \<Rightarrow> 'a vmm_state_scheme \<Rightarrow> 'a vmm_state_scheme option" where
  "vmm_map_region phys_start virt_start sz flags s =
     (let aligned_phys = phys_start AND NOT (PAGE_SIZE - 1);
          aligned_virt = virt_start AND NOT (PAGE_SIZE - 1);
          aligned_size = (sz + PAGE_SIZE - 1) AND NOT (PAGE_SIZE - 1)
      in for_words PAGE_SIZE
           (\<lambda>offset. vmm_map_page (aligned_phys + offset) (aligned_virt + offset) flags)
           aligned_size 0 s)"

definition vmm_unmap_page_in_directory ::
  "u32 \<Rightarrow> u32 \<Rightarrow> 'a vmm_state_scheme \<Rightarrow> 'a vmm_state_scheme" where
  "vmm_unmap_page_in_directory dir virt s =
     (if \<not> vmm_is_valid_directory dir \<or> virt = 0 then s
      else if \<not> vmm_is_page_aligned virt then s
      else if \<not> vmm_is_valid_page_index (pd_index virt) \<or> \<not> vmm_is_valid_page_index (pt_index virt) then s
      else if mem s (slot dir (pd_index virt)) AND PAGE_PRESENT = 0 then s
      else let page_table = frame_of (mem s (slot dir (pd_index virt)));
               pte = mem s (slot page_table (pt_index virt))
           in if pte AND PAGE_PRESENT = 0 then s
              else pmm_free_block (frame_of pte) (set_word (slot page_table (pt_index virt)) 0 s))"

definition vmm_handle_user_page_fault ::
  "u32 \<Rightarrow> u32 \<Rightarrow> 'a vmm_state_scheme \<Rightarrow> bool \<times> 'a vmm_state_scheme" where
  "vmm_handle_user_page_fault fault_addr error_code s =
     (if fault_addr < USER_VIRT_MIN \<or> KERNEL_VIRT_START \<le> fault_addr then (False, s)
      else let page = frame_of fault_addr
           in if USER_STACK_GUARD_MIN \<le> page \<and> page < USER_STACK_TOP
              then let (phys, s1) = pmm_alloc_block s
                   in if phys = 0 then (False, s1)
                      else (True, vmm_map_page_in_directory (cr3 s1) phys page
                                    (PAGE_PRESENT OR PAGE_WRITE OR PAGE_USER) s1)
              else (False, s))"

section \<open>Addresses of table entries\<close>

lemma page_mask: "(0xFFF::u32) = mask 12" "PAGE_SIZE - 1 = mask 12"
  by (simp_all add: mask_eq_exp_minus_1 PAGE_SIZE_def)

lemma and_page_mask: "(w::u32) AND mask 12 = 0 \<longleftrightarrow> unat w mod 4096 = 0"
proof -
  have "unat (w AND mask 12) = unat w mod 4096"
    unfolding take_bit_eq_mask [symmetric] unsigned_take_bit_eq by (simp add: take_bit_eq_mod)
  then show ?thesis by (simp only: word_unat_eq_iff unsigned_0)
qed

lemma vmm_is_page_aligned_iff: "vmm_is_page_aligned v \<longleftrightarrow> unat v mod 4096 = 0"
  by (simp only: vmm_is_page_aligned_def page_mask and_page_mask)

lemma vmm_is_valid_directory_iff: "vmm_is_valid_directory d \<longleftrightarrow> d \<noteq> 0 \<and> unat d mod 4096 = 0"
  by (simp only: vmm_is_valid_directory_def page_mask and_page_mask)

lemma unat_frame_of: "unat (frame_of w) = unat w div 4096 * 4096"
proof -
  have "frame_of w = push_bit 12 (drop_bit 12 w)"
    unfolding frame_of_def page_mask by (rule bit_word_eqI) (auto simp: bit_simps)
  then have "unat (frame_of w) = take_bit 32 (push_bit 12 (drop_bit 12 (unat w)))"
    by (simp only: unsigned_push_bit_eq unat_drop_bit_eq) simp
  then show ?thesis using unat_lt_2p32 [of w]
    by (simp add: push_bit_eq_mult drop_bit_eq_div take_bit_eq_mod)
qed

lemma frame_of_mod [simp]: "unat (frame_of w) mod 4096 = 0"
  by (simp add: unat_frame_of)

lemma frame_of_aligned [simp]: "unat w mod 4096 = 0 \<Longrightarrow> frame_of w = w"
  by (auto simp: word_unat_eq_iff unat_frame_of)

lemma frame_of_or [simp]: "frame_of (a OR b) = frame_of a OR frame_of b"
  unfolding frame_of_def by (rule bit_word_eqI) (auto simp: bit_simps)

lemma frame_of_flags [simp]:
  "frame_of (frame_of a) = frame_of a" "frame_of (flag_bits f) = 0"
  "frame_of PAGE_PRESENT = 0" "frame_of PAGE_WRITE = 0" "frame_of PAGE_USER = 0"
  unfolding frame_of_def flag_bits_def
  by (simp_all add: PAGE_PRESENT_def PAGE_WRITE_def PAGE_USER_def and.assoc)

lemma and_present_iff: "w AND PAGE_PRESENT = 0 \<longleftrightarrow> \<not> bit w 0"
proof -
  have "PAGE_PRESENT = bit_mask 0" by (simp add: PAGE_PRESENT_def bit_mask_def)
  then show ?thesis by (metis and_bit_mask_eq_0)
qed

lemma present_or [simp]:
  "bit (a OR b) 0 \<longleftrightarrow> bit (a::u32) 0 \<or> bit b 0" "bit PAGE_PRESENT 0"
  by (simp_all add: bit_simps PAGE_PRESENT_def)

lemma unat_pd_index: "unat (pd_index v) = unat v div 4194304"
  unfolding pd_index_def unat_drop_bit_eq by (simp add: drop_bit_eq_div)

lemma pd_index_lt: "unat (pd_index v) < 1024"
  using unat_lt_2p32 [of v] by (simp add: unat_pd_index)

lemma unat_pt_index: "unat (pt_index v) = unat v div 4096 mod 1024"
proof -
  have m: "(0x3FF::u32) = mask 10" by (simp add: mask_eq_exp_minus_1)
  show ?thesis
    unfolding pt_index_def m take_bit_eq_mask [symmetric] unsigned_take_bit_eq unat_drop_bit_eq
    by (simp add: drop_bit_eq_div take_bit_eq_mod)
qed

lemma pt_index_lt: "unat (pt_index v) < 1024"
  by (simp add: unat_pt_index)

lemma page_indices_valid [simp]:
  "vmm_is_valid_page_index (pd_index v)" "vmm_is_valid_page_index (pt_index v)"
  using pd_index_lt [of v] pt_index_lt [of v] by (simp_all add: vmm_is_valid_page_index_def word_nat)

lemma page_split: "n mod 4096 = 0 \<Longrightarrow> n = n div 4194304 * 4194304 + n div 4096 mod 1024 * (4096::nat)"
proof -
  assume "n mod 4096 = 0"
  then have n: "n = n div 4096 * 4096" by auto
  have "n div 4194304 = n div 4096 div 1024" by (simp add: div_mult2_eq [symmetric])
  moreover have "n div 4096 = n div 4096 div 1024 * 1024 + n div 4096 mod 1024" by simp
  ultimately show ?thesis using n by linarith
qed

lemma page_indices_inject:
  assumes "unat v mod 4096 = 0" "unat w mod 4096 = 0"
  shows "pd_index v = pd_index w \<and> pt_index v = pt_index w \<longleftrightarrow> v = w"
  using page_split [OF assms(1)] page_split [OF assms(2)]
  by (metis unat_pd_index unat_pt_index word_unat_eq_iff)

lemma page_end:
  assumes "unat (t::u32) mod 4096 = 0" shows "unat t + 4096 \<le> 4294967296"
proof -
  have "unat t = unat t div 4096 * 4096" using assms by auto
  moreover have "unat t div 4096 < 1048576" using unat_lt_2p32 [of t] by simp
  ultimately show ?thesis by linarith
qed

lemma unat_slot:
  assumes "unat t mod 4096 = 0" "unat i < 1024"
  shows "unat (slot t i) = unat t + 4 * unat i"
proof -
  have "unat (4 * i) = 4 * unat i" using assms(2) by (simp add: unat_word_ariths)
  then show ?thesis using page_end [OF assms(1)] assms(2)
    by (simp add: slot_def unat_add_no_wrap)
qed

lemma page_offset_unique:
  assumes "t mod 4096 = 0" "t' mod 4096 = 0" "i < 4096" "i' < (4096::nat)"
  shows "t + i = t' + i' \<longleftrightarrow> t = t' \<and> i = i'"
proof
  assume eq: "t + i = t' + i'"
  have "(t + i) div 4096 * 4096 = t" "(t' + i') div 4096 * 4096 = t'" using assms by auto
  with eq show "t = t' \<and> i = i'" by simp
qed simp

lemma slot_inject:
  assumes "unat t mod 4096 = 0" "unat t' mod 4096 = 0" "unat i < 1024" "unat i' < 1024"
  shows "slot t i = slot t' i' \<longleftrightarrow> t = t' \<and> i = i'"
  using page_offset_unique [of "unat t" "unat t'" "4 * unat i" "4 * unat i'"] assms
  by (simp add: word_unat_eq_iff unat_slot)

lemma slot_in_page:
  assumes "unat t mod 4096 = 0" "unat p mod 4096 = 0" "unat i < 1024"
  shows "slot t i - p < PAGE_SIZE \<longleftrightarrow> t = p"
proof
  assume "slot t i - p < PAGE_SIZE"
  then have d: "unat (slot t i - p) < 4096" by (simp add: PAGE_SIZE_def word_nat)
  have "unat (p + (slot t i - p)) = unat p + unat (slot t i - p)"
    using d page_end [OF assms(2)] by (intro unat_add_no_wrap) simp
  then have "unat t + 4 * unat i = unat p + unat (slot t i - p)" by (simp add: unat_slot assms)
  with page_offset_unique [of "unat t" "unat p" "4 * unat i" "unat (slot t i - p)"] assms d
  show "t = p" by (simp add: word_unat_eq_iff)
next
  assume "t = p"
  moreover have "unat (4 * i) = 4 * unat i" using assms(3) by (simp add: unat_word_ariths)
  ultimately show "slot t i - p < PAGE_SIZE"
    using assms(3) by (simp add: slot_def PAGE_SIZE_def word_nat)
qed

section \<open>The walk and the shape of a directory\<close>

text \<open>The entry of a table, and the entry the processor finds for a virtual address; a
  present bit of 0 in either level faults.\<close>

definition entry :: "u32 \<Rightarrow> u32 \<Rightarrow> 'a vmm_state_scheme \<Rightarrow> u32" where
  "entry table i s = mem s (slot table i)"

definition vmm_lookup :: "u32 \<Rightarrow> u32 \<Rightarrow> 'a vmm_state_scheme \<Rightarrow> u32 option" where
  "vmm_lookup dir virt s =
     (let pde = entry dir (pd_index virt) s
      in if pde AND PAGE_PRESENT = 0 then None
         else let pte = entry (frame_of pde) (pt_index virt) s
              in if pte AND PAGE_PRESENT = 0 then None else Some pte)"

text \<open>
  A directory is well formed when it and its tables are frames in use, all
  distinct; the last entry, which refers to the directory itself, takes no part.
\<close>

definition has_table :: "u32 \<Rightarrow> u32 \<Rightarrow> 'a vmm_state_scheme \<Rightarrow> bool" where
  "has_table dir i s \<longleftrightarrow> i < 1023 \<and> entry dir i s AND PAGE_PRESENT \<noteq> 0"

definition dir_wf :: "u32 \<Rightarrow> 'a vmm_state_scheme \<Rightarrow> bool" where
  "dir_wf dir s \<longleftrightarrow> pmm_inv s \<and> dir \<noteq> 0 \<and> dir \<in> pmm_in_use s \<and>
     (\<forall>i. has_table dir i s \<longrightarrow> frame_of (entry dir i s) \<in> pmm_in_use s - {0, dir}) \<and>
     (\<forall>i j. has_table dir i s \<longrightarrow> has_table dir j s \<longrightarrow>
        frame_of (entry dir i s) = frame_of (entry dir j s) \<longrightarrow> i = j)"

definition dir_frames :: "u32 \<Rightarrow> 'a vmm_state_scheme \<Rightarrow> u32 set" where
  "dir_frames dir s = insert dir {frame_of (entry dir i s) | i. has_table dir i s}"

text \<open>Virtual pages below the recursive last 4 MiB.\<close>

definition user_page :: "u32 \<Rightarrow> bool" where
  "user_page virt \<longleftrightarrow> virt \<noteq> 0 \<and> unat virt mod 4096 = 0 \<and> pd_index virt < 1023"

lemma in_use_aligned: "a \<in> pmm_in_use s \<Longrightarrow> unat a mod 4096 = 0"
  by (simp add: pmm_in_use_def pmm_addr_valid_iff)

lemma pmm_mem_frame [simp]:
  "mem (bitmap_set b s) = mem s" "mem (bitmap_unset b s) = mem s"
  "mem (pmm_free_block a s) = mem s" "cr3 (bitmap_set b s) = cr3 s" "cr3 (bitmap_unset b s) = cr3 s"
  "cr3 (pmm_free_block a s) = cr3 s" "kernel_directory (bitmap_set b s) = kernel_directory s"
  by (simp_all add: bitmap_set_def bitmap_unset_def pmm_free_block_def)

lemma pmm_alloc_mem:
  assumes "pmm_alloc_block s = (a, s')"
  shows "mem s' = mem s \<and> cr3 s' = cr3 s \<and> kernel_directory s' = kernel_directory s"
  using assms by (auto simp: pmm_alloc_block_def split: if_splits option.splits)

lemma vmm_pmm_frame [simp]:
  "pmm_in_use (set_word a v s) = pmm_in_use s" "pmm_inv (set_word a v s) = pmm_inv s"
  "pmm_in_use (zero_page p s) = pmm_in_use s" "pmm_inv (zero_page p s) = pmm_inv s"
  "cr3 (set_word a v s) = cr3 s" "cr3 (zero_page p s) = cr3 s"
  "kernel_directory (set_word a v s) = kernel_directory s"
  "kernel_directory (zero_page p s) = kernel_directory s"
  by (simp_all add: set_word_def zero_page_def pmm_in_use_def pmm_inv_def pmm_used_def
      pmm_addr_is_valid_def)

lemma entry_set_word:
  assumes "unat t mod 4096 = 0" "unat t' mod 4096 = 0" "unat i < 1024" "unat j < 1024"
  shows "entry t' j (set_word (slot t i) v s) = (if t' = t \<and> j = i then v else entry t' j s)"
  using slot_inject [OF assms(2,1,4,3)] by (simp add: entry_def set_word_def)

lemma entry_zero_page:
  assumes "unat p mod 4096 = 0" "unat t mod 4096 = 0" "unat i < 1024"
  shows "entry t i (zero_page p s) = (if t = p then 0 else entry t i s)"
  using slot_in_page [OF assms(2,1,3)] by (simp add: entry_def zero_page_def)

lemma entry_cong: "mem s' = mem s \<Longrightarrow> entry t i s' = entry t i s"
  by (simp add: entry_def)

lemma dir_wfD:
  assumes "dir_wf dir s"
  shows "pmm_inv s" "dir \<noteq> 0" "dir \<in> pmm_in_use s" "unat dir mod 4096 = 0"
    "has_table dir i s \<Longrightarrow> frame_of (entry dir i s) \<in> pmm_in_use s - {0, dir}"
    "has_table dir i s \<Longrightarrow> has_table dir j s \<Longrightarrow>
       frame_of (entry dir i s) = frame_of (entry dir j s) \<longleftrightarrow> i = j"
    "has_table dir i s \<Longrightarrow> unat i < 1024"
  using assms by (auto simp: dir_wf_def in_use_aligned has_table_def word_nat)

lemma vmm_lookup_user:
  "user_page w \<Longrightarrow> vmm_lookup dir w s =
     (if has_table dir (pd_index w) s
      then let pte = entry (frame_of (entry dir (pd_index w) s)) (pt_index w) s
           in if pte AND PAGE_PRESENT = 0 then None else Some pte
      else None)"
  by (simp add: vmm_lookup_def has_table_def user_page_def Let_def)

text \<open>A store into a table of a well-formed directory.\<close>

lemma dir_set_table_entry:
  assumes wf: "dir_wf dir s" and u: "has_table dir (pd_index virt) s"
    and t: "t = frame_of (entry dir (pd_index virt) s)"
    and s': "s' = set_word (slot t (pt_index virt)) v s"
  shows "dir_wf dir s'" "\<And>i. has_table dir i s' = has_table dir i s"
    "\<And>i. unat i < 1024 \<Longrightarrow> entry dir i s' = entry dir i s"
    "\<And>w. user_page w \<Longrightarrow> vmm_lookup dir w s' =
       (if pd_index w = pd_index virt \<and> pt_index w = pt_index virt
        then (if v AND PAGE_PRESENT = 0 then None else Some v) else vmm_lookup dir w s)"
proof -
  note D = dir_wfD [OF wf]
  have t': "t \<noteq> dir" using D(5) [OF u] t by simp
  have e: "entry t2 i s' = (if t2 = t \<and> i = pt_index virt then v else entry t2 i s)"
    if "unat t2 mod 4096 = 0" "unat i < 1024" for t2 i
    unfolding s' by (rule entry_set_word) (use that pt_index_lt in \<open>auto simp: t\<close>)
  show dir: "entry dir i s' = entry dir i s" if "unat i < 1024" for i
    using e [OF D(4) that] t' by simp
  show tab: "has_table dir i s' = has_table dir i s" for i
    using dir [of i] by (auto simp: has_table_def word_nat)
  have same: "entry dir i s' = entry dir i s" if "has_table dir i s" for i
    using dir D(7) that by blast
  show "dir_wf dir s'"
    unfolding dir_wf_def
  proof (intro conjI allI impI)
    fix i assume "has_table dir i s'"
    then show "frame_of (entry dir i s') \<in> pmm_in_use s' - {0, dir}"
      using tab same D(5) by (simp add: s')
  next
    fix i j assume "has_table dir i s'" "has_table dir j s'"
      "frame_of (entry dir i s') = frame_of (entry dir j s')"
    then show "i = j" using tab same D(6) by metis
  qed (use D(1-3) s' in auto)
  show "vmm_lookup dir w s' =
       (if pd_index w = pd_index virt \<and> pt_index w = pt_index virt
        then (if v AND PAGE_PRESENT = 0 then None else Some v) else vmm_lookup dir w s)"
    if "user_page w" for w
  proof (cases "has_table dir (pd_index w) s")
    case True
    have "frame_of (entry dir (pd_index w) s) = t \<longleftrightarrow> pd_index w = pd_index virt"
      unfolding t using D(6) [OF True u] .
    then show ?thesis using True same [OF True] that
      by (cases "pd_index w = pd_index virt \<and> pt_index w = pt_index virt")
        (auto simp: vmm_lookup_user tab e pt_index_lt Let_def)
  next
    case False
    then show ?thesis using that u by (auto simp: vmm_lookup_user tab)
  qed
qed

text \<open>A fresh table, cleared and entered into the directory, maps nothing yet.\<close>

lemma dir_add_table:
  assumes wf: "dir_wf dir s" and al: "pmm_alloc_block s = (t, s1)" "t \<noteq> 0"
    and i: "i < 1023" "\<not> has_table dir i s"
    and v: "frame_of v = t" "v AND PAGE_PRESENT \<noteq> 0"
    and s': "s' = zero_page t (set_word (slot dir i) v s1)"
  shows "dir_wf dir s'" "entry dir i s' = v" "\<And>j. has_table dir j s' \<longleftrightarrow> j = i \<or> has_table dir j s"
    "\<And>w. user_page w \<Longrightarrow> vmm_lookup dir w s' = vmm_lookup dir w s"
proof -
  note D = dir_wfD [OF wf]
  note fresh = pmm_frames.alloc_fresh [OF D(1) al]
  have m: "mem s1 = mem s" using pmm_alloc_mem [OF al(1)] by simp
  have t: "unat t mod 4096 = 0" "t \<noteq> dir" using v(1) fresh D(3) by auto
  have iu: "unat i < 1024" using i(1) by (simp add: word_nat)
  have e: "entry t2 j s' = (if t2 = t then 0 else if t2 = dir \<and> j = i then v else entry t2 j s)"
    if "unat t2 mod 4096 = 0" "unat j < 1024" for t2 j
    unfolding s' using that
    by (simp add: entry_zero_page t entry_set_word D(4) iu entry_cong [OF m])
  have dir: "entry dir j s' = (if j = i then v else entry dir j s)" if "unat j < 1024" for j
    using e [OF D(4) that] t(2) by simp
  show tab: "has_table dir j s' \<longleftrightarrow> j = i \<or> has_table dir j s" for j
    by (cases "j = i") (use i v(2) dir [of j] in \<open>auto simp: has_table_def word_nat\<close>)
  have same: "entry dir j s' = entry dir j s" if "has_table dir j s" for j
    using dir [of j] D(7) [OF that] that i(2) by auto
  show here: "entry dir i s' = v" using dir [OF iu] by simp
  have use: "pmm_in_use s' = insert t (pmm_in_use s)" using fresh by (simp add: s')
  have inv: "pmm_inv s'" using pmm_frames.alloc_inv [OF D(1) al(1)] by (simp add: s')
  have new: "frame_of (entry dir j s) \<noteq> t" if "has_table dir j s" for j
    using D(5) [OF that] fresh by auto
  show "dir_wf dir s'"
    unfolding dir_wf_def
  proof (intro conjI allI impI)
    fix j assume "has_table dir j s'"
    then show "frame_of (entry dir j s') \<in> pmm_in_use s' - {0, dir}"
      using tab [of j] here same D(5) [of j] v(1) al(2) t(2) by (auto simp: use)
  next
    fix j k assume "has_table dir j s'" "has_table dir k s'"
      "frame_of (entry dir j s') = frame_of (entry dir k s')"
    then show "j = k"
      using tab [of j] tab [of k] here same v(1) new D(6) [of j k] by metis
  qed (use D(2,3) inv use in auto)
  show "vmm_lookup dir w s' = vmm_lookup dir w s" if "user_page w" for w
  proof (cases "has_table dir (pd_index w) s")
    case True
    then show ?thesis using that new [OF True] same [OF True] D(5) [OF True]
      by (simp add: vmm_lookup_user tab e pt_index_lt)
  next
    case False
    then show ?thesis using that here v(1) t(1)
      by (auto simp: vmm_lookup_user tab e pt_index_lt)
  qed
qed

section \<open>Mapping and unmapping\<close>

lemma map_page_eq:
  assumes "dir_wf dir s" "phys \<noteq> 0" "unat phys mod 4096 = 0" "user_page virt"
  shows "vmm_map_page_in_directory dir phys virt flags s =
    (if \<not> has_table dir (pd_index virt) s
     then (case pmm_alloc_block s of (t, s1) \<Rightarrow>
             if t = 0 then s1
             else vmm_set_entry dir phys virt flags
               (zero_page t (set_word (slot dir (pd_index virt)) (t OR flag_bits flags OR PAGE_PRESENT) s1)))
     else vmm_set_entry dir phys virt flags s)"
proof -
  have "frame_of t = t" if "pmm_alloc_block s = (t, s1)" "t \<noteq> 0" for t s1
    using pmm_frames.alloc_fresh [OF dir_wfD(1) [OF assms(1)] that]
    by (intro frame_of_aligned) (simp add: PAGE_SIZE_def word_unat_eq_iff unat_mod)
  then show ?thesis
    using assms dir_wfD(2,4) [OF assms(1)]
    by (auto simp: vmm_map_page_in_directory_def vmm_is_valid_directory_iff vmm_is_page_aligned_iff
        user_page_def has_table_def entry_def Let_def split: prod.splits)
qed

lemma set_entry_result:
  assumes wf: "dir_wf dir s" and tab: "has_table dir (pd_index virt) s"
    and p: "unat phys mod 4096 = 0" "user_page virt"
    and s': "s' = vmm_set_entry dir phys virt flags s"
  shows "dir_wf dir s'" "pmm_in_use s' = pmm_in_use s"
    "vmm_lookup dir virt s' = Some (phys OR flag_bits flags OR PAGE_PRESENT)"
    "\<And>w. user_page w \<Longrightarrow> w \<noteq> virt \<Longrightarrow> vmm_lookup dir w s' = vmm_lookup dir w s"
    "dir_frames dir s' = dir_frames dir s"
proof -
  let ?t = "frame_of (entry dir (pd_index virt) s)"
  have t0: "?t \<noteq> 0" using dir_wfD(5) [OF wf tab] by simp
  have eq: "s' = set_word (slot ?t (pt_index virt)) (phys OR flag_bits flags OR PAGE_PRESENT) s"
    using t0 p(1) by (simp add: s' vmm_set_entry_def entry_def Let_def or.assoc)
  note R = dir_set_table_entry [OF wf tab refl eq]
  show "dir_wf dir s'" by (rule R(1))
  show "pmm_in_use s' = pmm_in_use s" by (simp add: eq)
  show "vmm_lookup dir virt s' = Some (phys OR flag_bits flags OR PAGE_PRESENT)"
    using R(4) [OF p(2)] by (simp add: and_present_iff)
  show "vmm_lookup dir w s' = vmm_lookup dir w s" if "user_page w" "w \<noteq> virt" for w
    using R(4) [OF that(1)] page_indices_inject [of w virt] that p(2) by (auto simp: user_page_def)
  have "entry dir i s' = entry dir i s" if "has_table dir i s" for i
    using R(3) dir_wfD(7) [OF wf that] by blast
  then show "dir_frames dir s' = dir_frames dir s"
    unfolding dir_frames_def R(2) by (intro arg_cong [of _ _ "insert dir"] Collect_cong) metis
qed

text \<open>What a mapping call does, on every path.\<close>

lemma map_page_result:
  assumes wf: "dir_wf dir s" and p: "phys \<noteq> 0" "unat phys mod 4096 = 0" "user_page virt"
    and s': "s' = vmm_map_page_in_directory dir phys virt flags s"
  shows "dir_wf dir s' \<and>
    (if \<not> has_table dir (pd_index virt) s \<and> fst (pmm_alloc_block s) = 0 then s' = s
     else vmm_lookup dir virt s' = Some (phys OR flag_bits flags OR PAGE_PRESENT) \<and>
       (\<forall>w. user_page w \<longrightarrow> w \<noteq> virt \<longrightarrow> vmm_lookup dir w s' = vmm_lookup dir w s) \<and>
       pmm_in_use s' = pmm_in_use s \<union> (if has_table dir (pd_index virt) s then {} else {fst (pmm_alloc_block s)}))"
proof (cases "has_table dir (pd_index virt) s")
  case True
  then have "s' = vmm_set_entry dir phys virt flags s" by (simp add: s' map_page_eq [OF wf p])
  from set_entry_result [OF wf True p(2,3) this] True show ?thesis by simp
next
  case False
  obtain t s1 where al: "pmm_alloc_block s = (t, s1)" by fastforce
  show ?thesis
  proof (cases "t = 0")
    case True
    with al have "s1 = s" using pmm_frames.alloc_none [OF dir_wfD(1) [OF wf]] by blast
    with True False al wf show ?thesis by (simp add: s' map_page_eq [OF wf p])
  next
    case t0: False
    note fresh = pmm_frames.alloc_fresh [OF dir_wfD(1) [OF wf] al t0]
    then have tal: "unat t mod 4096 = 0" by (simp add: PAGE_SIZE_def word_unat_eq_iff unat_mod)
    define v where "v = t OR flag_bits flags OR PAGE_PRESENT"
    have v: "frame_of v = t" "v AND PAGE_PRESENT \<noteq> 0"
      using tal by (simp_all add: v_def and_present_iff)
    define s2 where "s2 = zero_page t (set_word (slot dir (pd_index virt)) v s1)"
    note A = dir_add_table [OF wf al t0 _ False v s2_def]
    have i: "pd_index virt < 1023" using p(3) by (simp add: user_page_def)
    have eq: "s' = vmm_set_entry dir phys virt flags s2"
      using False al t0 by (simp add: s' map_page_eq [OF wf p] s2_def v_def)
    have tab: "has_table dir (pd_index virt) s2" using A(3) [OF i] by blast
    note E = set_entry_result [OF A(1) [OF i] tab p(2,3) eq]
    show ?thesis
      using E A(4) [OF i] False al t0 fresh by (auto simp: s2_def)
  qed
qed

text \<open>What an unmapping call does.\<close>

lemma unmap_page_result:
  assumes wf: "dir_wf dir s" and p: "user_page virt"
    and s': "s' = vmm_unmap_page_in_directory dir virt s"
    and pte: "\<And>pte. vmm_lookup dir virt s = Some pte \<Longrightarrow>
      frame_of pte \<in> pmm_in_use s \<and> frame_of pte \<noteq> 0 \<and> frame_of pte \<notin> dir_frames dir s"
  shows "dir_wf dir s' \<and> vmm_lookup dir virt s' = None \<and>
    (\<forall>w. user_page w \<longrightarrow> w \<noteq> virt \<longrightarrow> vmm_lookup dir w s' = vmm_lookup dir w s) \<and>
    pmm_in_use s' = pmm_in_use s - (case vmm_lookup dir virt s of None \<Rightarrow> {} | Some e \<Rightarrow> {frame_of e})"
proof (cases "vmm_lookup dir virt s")
  case None
  have "s' = s"
    using None p dir_wfD(2,4) [OF wf]
    by (auto simp: s' vmm_unmap_page_in_directory_def vmm_lookup_def entry_def Let_def split: if_splits)
  with None wf show ?thesis by simp
next
  case (Some e)
  let ?t = "frame_of (entry dir (pd_index virt) s)"
  define s1 where "s1 = set_word (slot ?t (pt_index virt)) 0 s"
  have tab: "has_table dir (pd_index virt) s" and e: "entry ?t (pt_index virt) s = e" "e AND PAGE_PRESENT \<noteq> 0"
    using Some p by (auto simp: vmm_lookup_user Let_def split: if_splits)
  have eq: "s' = pmm_free_block (frame_of e) s1"
    using tab e p dir_wfD(2,4) [OF wf]
    by (auto simp: s' s1_def vmm_unmap_page_in_directory_def vmm_is_valid_directory_iff
        vmm_is_page_aligned_iff user_page_def has_table_def entry_def Let_def)
  note R = dir_set_table_entry [OF wf tab refl s1_def]
  note F = pte [OF Some]
  have use1: "pmm_in_use s1 = pmm_in_use s" by (simp add: s1_def)
  have use: "pmm_in_use s' = pmm_in_use s - {frame_of e}"
    unfolding eq use1 [symmetric]
    by (rule pmm_frames.release_use) (use R(1) F use1 in \<open>auto simp: dir_wf_def\<close>)
  have ent: "entry t i s' = entry t i s1" for t i by (rule entry_cong) (simp add: eq)
  then have tab': "has_table dir i s' = has_table dir i s1" for i by (simp add: has_table_def)
  have look: "vmm_lookup dir w s' = vmm_lookup dir w s1" for w
    by (simp add: vmm_lookup_def ent Let_def)
  have ent1: "entry dir i s1 = entry dir i s" if "has_table dir i s" for i
    using R(3) dir_wfD(7) [OF wf that] by blast
  have "dir_wf dir s'"
    unfolding dir_wf_def
  proof (intro conjI allI impI)
    show "pmm_inv s'" using pmm_frames.release_inv dir_wfD(1) [OF R(1)] by (simp add: eq)
    show "dir \<in> pmm_in_use s'" using F dir_wfD(3) [OF wf] by (auto simp: use dir_frames_def)
    fix i assume "has_table dir i s'"
    then have i: "has_table dir i s" by (simp add: tab' R(2))
    then show "frame_of (entry dir i s') \<in> pmm_in_use s' - {0, dir}"
      using dir_wfD(5) [OF wf i] F by (auto simp: ent ent1 use dir_frames_def)
  next
    fix i j assume "has_table dir i s'" "has_table dir j s'"
      "frame_of (entry dir i s') = frame_of (entry dir j s')"
    then show "i = j" using dir_wfD(6) [OF R(1)] by (simp add: tab' ent)
  qed (rule dir_wfD(2) [OF wf])
  moreover have "vmm_lookup dir virt s' = None" using R(4) [OF p] by (simp add: look)
  moreover have "vmm_lookup dir w s' = vmm_lookup dir w s" if "user_page w" "w \<noteq> virt" for w
    using R(4) [OF that(1)] page_indices_inject [of w virt] that p by (auto simp: look user_page_def)
  ultimately show ?thesis using use Some by simp
qed

section \<open>The interface of an address space\<close>

text \<open>
  What the heap and the loader rely on: mapping a page refines the update of a finite
  map or, out of memory, does nothing; unmapping removes the page and gives its
  frame back.
\<close>

locale address_space =
  fixes map_page :: "u32 \<Rightarrow> u32 \<Rightarrow> u32 \<Rightarrow> 's \<Rightarrow> 's"
    and unmap_page :: "u32 \<Rightarrow> 's \<Rightarrow> 's"
    and mapping :: "'s \<Rightarrow> u32 \<Rightarrow> u32 option"
    and frames :: "'s \<Rightarrow> u32 set"
    and own_frames :: "'s \<Rightarrow> u32 set"
    and inv :: "'s \<Rightarrow> bool"
  assumes map_inv: "inv s \<Longrightarrow> phys \<noteq> 0 \<Longrightarrow> unat phys mod 4096 = 0 \<Longrightarrow> user_page virt \<Longrightarrow>
      inv (map_page phys virt flags s)"
    and map_refines: "inv s \<Longrightarrow> phys \<noteq> 0 \<Longrightarrow> unat phys mod 4096 = 0 \<Longrightarrow> user_page virt \<Longrightarrow>
      map_page phys virt flags s = s \<or>
      mapping (map_page phys virt flags s)
        = (mapping s)(virt \<mapsto> phys OR flag_bits flags OR PAGE_PRESENT)"
    and unmap_inv: "inv s \<Longrightarrow> user_page virt \<Longrightarrow> mapping s virt = Some e \<Longrightarrow>
      frame_of e \<in> frames s - own_frames s - {0} \<Longrightarrow> inv (unmap_page virt s)"
    and unmap_refines: "inv s \<Longrightarrow> user_page virt \<Longrightarrow> mapping s virt = Some e \<Longrightarrow>
      frame_of e \<in> frames s - own_frames s - {0} \<Longrightarrow>
      mapping (unmap_page virt s) = (mapping s)(virt := None) \<and>
      frames (unmap_page virt s) = frames s - {frame_of e}"
begin

lemma map_unmap:
  assumes "inv s" "phys \<noteq> 0" "unat phys mod 4096 = 0" "user_page virt"
    and "map_page phys virt flags s \<noteq> s"
    and "phys \<in> frames (map_page phys virt flags s) - own_frames (map_page phys virt flags s)"
  shows "mapping (unmap_page virt (map_page phys virt flags s)) = (mapping s)(virt := None) \<and>
    frames (unmap_page virt (map_page phys virt flags s)) = frames (map_page phys virt flags s) - {phys}"
proof -
  let ?s = "map_page phys virt flags s"
  have m: "mapping ?s = (mapping s)(virt \<mapsto> phys OR flag_bits flags OR PAGE_PRESENT)"
    using map_refines [OF assms(1-4)] assms(5) by blast
  have f: "frame_of (phys OR flag_bits flags OR PAGE_PRESENT) = phys" using assms(3) by simp
  show ?thesis
    using unmap_refines [OF map_inv [OF assms(1-4)] assms(4), of flags "phys OR flag_bits flags OR PAGE_PRESENT"]
      m f assms(2,6) by simp
qed

text \<open>A run of mappings: other pages keep their entries.\<close>

lemma map_pages_other:
  assumes "inv s" "\<forall>(p, v) \<in> set ps. p \<noteq> 0 \<and> unat p mod 4096 = 0 \<and> user_page v"
    and "w \<notin> snd ` set ps"
  shows "inv (fold (\<lambda>(p, v). map_page p v flags) ps s) \<and>
    mapping (fold (\<lambda>(p, v). map_page p v flags) ps s) w = mapping s w"
  using assms
proof (induction ps arbitrary: s)
  case (Cons pv ps)
  obtain p v where pv: "pv = (p, v)" by fastforce
  have ok: "p \<noteq> 0" "unat p mod 4096 = 0" "user_page v" "w \<noteq> v" using Cons.prems(2,3) pv by auto
  have "mapping (map_page p v flags s) w = mapping s w"
    using map_refines [OF Cons.prems(1) ok(1-3), of flags] ok(4) by auto
  then show ?case
    using Cons.IH [OF map_inv [OF Cons.prems(1) ok(1-3)]] Cons.prems(2,3) pv by simp
qed simp

end

definition vmm_mapping :: "u32 \<Rightarrow> 'a vmm_state_scheme \<Rightarrow> u32 \<Rightarrow> u32 option" where
  "vmm_mapping dir s virt = (if user_page virt then vmm_lookup dir virt s else None)"

lemma map_page_mapping:
  assumes "dir_wf dir s" "phys \<noteq> 0" "unat phys mod 4096 = 0" "user_page virt"
  shows "(if \<not> has_table dir (pd_index virt) s \<and> fst (pmm_alloc_block s) = 0
      then vmm_map_page_in_directory dir phys virt flags s = s
      else vmm_mapping dir (vmm_map_page_in_directory dir phys virt flags s)
        = (vmm_mapping dir s)(virt \<mapsto> phys OR flag_bits flags OR PAGE_PRESENT))"
  using map_page_result [OF assms refl, of flags] assms(4)
  by (auto simp: vmm_mapping_def fun_eq_iff)

lemma unmap_page_mapping:
  assumes "dir_wf dir s" "user_page virt" "vmm_mapping dir s virt = Some e"
    "frame_of e \<in> pmm_in_use s - dir_frames dir s - {0}"
  shows "dir_wf dir (vmm_unmap_page_in_directory dir virt s) \<and>
    vmm_mapping dir (vmm_unmap_page_in_directory dir virt s) = (vmm_mapping dir s)(virt := None) \<and>
    pmm_in_use (vmm_unmap_page_in_directory dir virt s) = pmm_in_use s - {frame_of e}"
  using unmap_page_result [OF assms(1,2) refl] assms
  by (auto simp: vmm_mapping_def fun_eq_iff)

interpretation user_space: address_space
  "vmm_map_page_in_directory dir :: u32 \<Rightarrow> u32 \<Rightarrow> u32 \<Rightarrow> 'a vmm_state_scheme \<Rightarrow> 'a vmm_state_scheme"
  "vmm_unmap_page_in_directory dir" "vmm_mapping dir" pmm_in_use "dir_frames dir" "dir_wf dir"
  for dir
proof unfold_locales
  fix s :: "'a vmm_state_scheme" and phys virt flags :: u32
  assume a: "dir_wf dir s" "phys \<noteq> 0" "unat phys mod 4096 = 0" "user_page virt"
  show "dir_wf dir (vmm_map_page_in_directory dir phys virt flags s)"
    using map_page_result [OF a refl] by blast
  show "vmm_map_page_in_directory dir phys virt flags s = s \<or>
      vmm_mapping dir (vmm_map_page_in_directory dir phys virt flags s)
        = (vmm_mapping dir s)(virt \<mapsto> phys OR flag_bits flags OR PAGE_PRESENT)"
    using map_page_mapping [OF a, of flags] by (auto split: if_splits)
qed (use unmap_page_mapping in blast)+


definition sample_space :: vmm_state where
  "sample_space = \<lparr>pmm_bitmap = 0x200000, pmm_words = (\<lambda>i. 3), pmm_max_blocks = 64,
     kernel_directory = 0x1000, cr3 = 0x1000, paging = True, page_fault_registered = True,
     mem = (\<lambda>a. 0)\<rparr>"

lemma sample_space_wf: "dir_wf 0x1000 sample_space" "\<not> has_table 0x1000 i sample_space"
  by (simp_all add: dir_wf_def sample_space_def has_table_def entry_def pmm_inv_def pmm_used_def
      pmm_in_use_def pmm_addr_valid_iff)

lemma sample_space_alloc: "fst (pmm_alloc_block sample_space) = 0x2000"
proof -
  have "m < 2 \<longleftrightarrow> m = 0 \<or> m = 1" for m :: nat by auto
  then show ?thesis
    using pmm_alloc_block_eq [of sample_space 2]
    by (simp add: sample_space_def pmm_used_def bit_simps PAGE_SIZE_def)
qed


text \<open>unmapping a page gives its frame back to the frame allocator: when a frame is
  allocated, mapped at a page whose table exists, and unmapped, the page is gone, every
  other page is as before and exactly the frames in use before are in use after.\<close>

theorem vmm_alloc_map_unmap:
  assumes "dir_wf dir s" "pmm_alloc_block s = (f, s1)" "f \<noteq> 0" "user_page virt"
    and "has_table dir (pd_index virt) s"
    and "s3 = vmm_unmap_page_in_directory dir virt (vmm_map_page_in_directory dir f virt flags s1)"
  shows "vmm_mapping dir s3 = (vmm_mapping dir s)(virt := None) \<and> pmm_in_use s3 = pmm_in_use s"
proof -
  note fresh = pmm_frames.alloc_fresh [OF dir_wfD(1) [OF assms(1)] assms(2,3)]
  have al: "unat f mod 4096 = 0" using fresh by (simp add: PAGE_SIZE_def word_unat_eq_iff unat_mod)
  have ent: "entry t i s1 = entry t i s" for t i
    by (rule entry_cong) (use pmm_alloc_mem [OF assms(2)] in simp)
  have tab: "has_table dir i s1 = has_table dir i s" for i by (simp add: has_table_def ent)
  have inv1: "pmm_inv s1" by (rule pmm_frames.alloc_inv [OF dir_wfD(1) [OF assms(1)] assms(2)])
  have wf: "dir_wf dir s1"
    using assms(1) fresh inv1 by (auto simp: dir_wf_def tab ent)
  have fr: "dir_frames dir s1 = dir_frames dir s" by (simp add: dir_frames_def tab ent)
  have own: "f \<notin> dir_frames dir s"
    using assms(1) fresh by (auto simp: dir_wf_def dir_frames_def)
  have map1: "vmm_mapping dir s1 = vmm_mapping dir s"
    by (simp add: vmm_mapping_def fun_eq_iff vmm_lookup_def ent Let_def)
  have t1: "has_table dir (pd_index virt) s1" using assms(5) tab by simp
  let ?s2 = "vmm_map_page_in_directory dir f virt flags s1"
  have s2: "?s2 = vmm_set_entry dir f virt flags s1"
    using map_page_eq [OF wf assms(3) al assms(4)] t1 by simp
  note E = set_entry_result [OF wf t1 al assms(4) s2]
  have "vmm_mapping dir ?s2 = (vmm_mapping dir s1)(virt \<mapsto> f OR flag_bits flags OR PAGE_PRESENT)"
    using E(3,4) assms(4) by (auto simp: vmm_mapping_def fun_eq_iff)
  moreover have "frame_of (f OR flag_bits flags OR PAGE_PRESENT) = f" using al by simp
  ultimately have "vmm_mapping dir s3 = (vmm_mapping dir s1)(virt := None)"
    "pmm_in_use s3 = pmm_in_use ?s2 - {f}"
    unfolding assms(6)
    using user_space.unmap_refines [OF E(1) assms(4), of "f OR flag_bits flags OR PAGE_PRESENT"]
      assms(3) own fresh by (auto simp: E(2,5) fr)
  then show ?thesis using fresh by (auto simp: E(2) map1)
qed

definition sample_space2 :: vmm_state where
  "sample_space2 = sample_space\<lparr>pmm_words := (\<lambda>i. 7), mem := (\<lambda>a. 0)(0x1080 := 0x2007)\<rparr>"

lemma sample_space2_entry:
  "unat i < 1024 \<Longrightarrow> entry 0x1000 i sample_space2 = (if i = 32 then 0x2007 else 0)"
proof -
  assume i: "unat i < 1024"
  have "slot 0x1000 32 = 0x1080" by (simp add: slot_def)
  then show ?thesis using slot_inject [of "0x1000" "0x1000" i 32] i
    by (simp add: entry_def sample_space2_def)
qed

lemma sample_space2_table: "has_table 0x1000 i sample_space2 \<longleftrightarrow> i = 32"
  using sample_space2_entry [of i]
  by (cases "unat i < 1023") (auto simp: has_table_def PAGE_PRESENT_def word_nat)

lemma sample_space2_wf: "dir_wf 0x1000 sample_space2"
proof -
  have "frame_of 0x2007 = 0x2000" by (simp add: frame_of_def)
  moreover have "0x1000 \<in> pmm_in_use sample_space2" "0x2000 \<in> pmm_in_use sample_space2" "pmm_inv sample_space2"
    by (simp_all add: sample_space_def sample_space2_def pmm_inv_def pmm_used_def bit_simps
        pmm_in_use_def pmm_addr_valid_iff)
  ultimately show ?thesis
    by (simp add: dir_wf_def sample_space2_table sample_space2_entry)
qed

lemma sample_space2_alloc: "pmm_alloc_block sample_space2 = (0x3000, bitmap_set 3 sample_space2)"
proof -
  have "m < 3 \<longleftrightarrow> m = 0 \<or> m = 1 \<or> m = 2" for m :: nat by auto
  then show ?thesis
    using pmm_alloc_block_eq [of sample_space2 3]
    by (simp add: sample_space_def sample_space2_def pmm_used_def bit_simps PAGE_SIZE_def)
qed

theorem vmm_alloc_map_unmap_witness:
  "\<exists>s1. pmm_alloc_block sample_space2 = (0x3000, s1) \<and>
     pmm_in_use (vmm_unmap_page_in_directory 0x1000 0x08048000
       (vmm_map_page_in_directory 0x1000 0x3000 0x08048000 7 s1)) = pmm_in_use sample_space2"
proof -
  have u: "user_page 0x08048000" by (simp add: user_page_def pd_index_def word_nat)
  have "has_table 0x1000 (pd_index 0x08048000) sample_space2"
    by (simp add: sample_space2_table pd_index_def)
  from vmm_alloc_map_unmap [OF sample_space2_wf sample_space2_alloc _ u this refl, of 7] show ?thesis
    using sample_space2_alloc by simp
qed

section \<open>Regions, directories and faults\<close>

lemma pmm_alloc_fails_iff:
  assumes "pmm_inv s"
  shows "fst (pmm_alloc_block s) = 0 \<longleftrightarrow> (\<forall>n < 32 * (pmm_blocks s div 32). pmm_used s n)"
proof -
  obtain a s' where r: "pmm_alloc_block s = (a, s')" by fastforce
  show ?thesis
  proof (rule pmm_alloc_block_cases [OF _ r])
    fix n assume n: "n < 32 * (pmm_blocks s div 32)" "\<not> pmm_used s n" "a = of_nat n * PAGE_SIZE"
    then have "n < 2 ^ 20" using assms by (auto simp: pmm_inv_def)
    moreover have "n \<noteq> 0" using n(2) assms by (metis pmm_inv_def)
    ultimately have "unat a \<noteq> 0" using unat_block_address [of n] n(3) by simp
    then show ?thesis using n r by auto
  qed (use assms r in \<open>auto simp: pmm_inv_def\<close>)
qed

lemma pmm_alloc_fails_frame:
  assumes "pmm_inv s" "pmm_inv s'" "\<And>n. pmm_used s' n = pmm_used s n" "pmm_max_blocks s' = pmm_max_blocks s"
  shows "fst (pmm_alloc_block s') = 0 \<longleftrightarrow> fst (pmm_alloc_block s) = 0"
  by (simp add: pmm_alloc_fails_iff assms)

lemma set_entry_pmm [simp]:
  "pmm_used (vmm_set_entry dir phys virt flags s) n = pmm_used s n"
  "pmm_max_blocks (vmm_set_entry dir phys virt flags s) = pmm_max_blocks s"
  "cr3 (vmm_set_entry dir phys virt flags s) = cr3 s"
  by (simp_all add: vmm_set_entry_def set_word_def pmm_used_def Let_def)

text \<open>The state of page \<open>w\<close> after the loop has mapped it: mapped, or impossible to map.\<close>

definition region_done :: "u32 \<Rightarrow> u32 \<Rightarrow> u32 \<Rightarrow> 'a vmm_state_scheme \<Rightarrow> bool" where
  "region_done dir w e s \<longleftrightarrow> vmm_lookup dir w s = Some e \<or>
     vmm_lookup dir w s = None \<and> \<not> has_table dir (pd_index w) s \<and> fst (pmm_alloc_block s) = 0"

lemma region_done_step:
  assumes wf: "dir_wf dir s" and p: "phys \<noteq> 0" "unat phys mod 4096 = 0" "user_page virt"
    and s': "s' = vmm_map_page_in_directory dir phys virt flags s"
  shows "region_done dir virt (phys OR flag_bits flags OR PAGE_PRESENT) s'"
    and "user_page w \<Longrightarrow> w \<noteq> virt \<Longrightarrow> region_done dir w e s \<Longrightarrow> region_done dir w e s'"
proof -
  note R = map_page_result [OF wf p s']
  show "region_done dir virt (phys OR flag_bits flags OR PAGE_PRESENT) s'"
    using R p(3) by (auto simp: region_done_def vmm_lookup_user split: if_splits)
  show "region_done dir w e s'" if w: "user_page w" "w \<noteq> virt" and d: "region_done dir w e s"
  proof (cases "s' = s")
    case False
    with R have same: "vmm_lookup dir w s' = vmm_lookup dir w s"
      and ok: "has_table dir (pd_index virt) s \<or> fst (pmm_alloc_block s) \<noteq> 0"
      using w by (auto split: if_splits)
    show ?thesis
    proof (cases "vmm_lookup dir w s = Some e")
      case False
      with d have f: "fst (pmm_alloc_block s) = 0" "\<not> has_table dir (pd_index w) s"
        "vmm_lookup dir w s = None" by (auto simp: region_done_def)
      with ok have tab: "has_table dir (pd_index virt) s" by simp
      then have eq: "s' = vmm_set_entry dir phys virt flags s" by (simp add: s' map_page_eq [OF wf p])
      then have alloc: "fst (pmm_alloc_block s') = 0"
        using pmm_alloc_fails_frame [OF dir_wfD(1) [OF wf], of s'] R dir_wfD(1) f(1) by auto
      let ?t = "frame_of (entry dir (pd_index virt) s)"
      have "has_table dir i s' = has_table dir i s" for i
      proof -
        have "?t \<noteq> 0" using dir_wfD(5) [OF wf tab] by simp
        then have "s' = set_word (slot ?t (pt_index virt)) (frame_of phys OR flag_bits flags OR PAGE_PRESENT) s"
          by (simp add: eq vmm_set_entry_def entry_def Let_def)
        then show ?thesis by (rule dir_set_table_entry(2) [OF wf tab refl])
      qed
      then show ?thesis using f same alloc by (simp add: region_done_def)
    qed (simp add: region_done_def same)
  qed (use d in simp)
qed

lemma map_page_cr3 [simp]: "cr3 (vmm_map_page_in_directory dir phys virt flags s) = cr3 s"
  by (auto simp: vmm_map_page_in_directory_def Let_def dest: pmm_alloc_mem split: prod.splits)

lemma map_region_fold:
  assumes wf: "dir_wf dir s" and c: "cr3 s = dir"
    and os: "\<forall>a \<in> set os. P + a \<noteq> 0 \<and> unat (P + a) mod 4096 = 0 \<and> user_page (V + a)"
    and s': "s' = fold (\<lambda>a. vmm_map_page (P + a) (V + a) flags) os s"
  shows "dir_wf dir s' \<and> cr3 s' = dir \<and>
    (\<forall>a \<in> set os. region_done dir (V + a) ((P + a) OR flag_bits flags OR PAGE_PRESENT) s') \<and>
    (\<forall>w. user_page w \<longrightarrow> (\<forall>a \<in> set os. w \<noteq> V + a) \<longrightarrow> vmm_lookup dir w s' = vmm_lookup dir w s)"
  using os unfolding s'
proof (induction os rule: rev_induct)
  case (snoc a os)
  let ?s = "fold (\<lambda>a. vmm_map_page (P + a) (V + a) flags) os s"
  let ?t = "vmm_map_page_in_directory dir (P + a) (V + a) flags ?s"
  have IH: "dir_wf dir ?s" "cr3 ?s = dir"
    "\<forall>b \<in> set os. region_done dir (V + b) ((P + b) OR flag_bits flags OR PAGE_PRESENT) ?s"
    "\<forall>w. user_page w \<longrightarrow> (\<forall>a \<in> set os. w \<noteq> V + a) \<longrightarrow> vmm_lookup dir w ?s = vmm_lookup dir w s"
    using snoc.IH snoc.prems by auto
  have ok: "P + a \<noteq> 0" "unat (P + a) mod 4096 = 0" "user_page (V + a)" using snoc.prems by auto
  note R = map_page_result [OF IH(1) ok refl, of flags]
  note D = region_done_step [OF IH(1) ok refl, where flags = flags]
  have eq: "fold (\<lambda>a. vmm_map_page (P + a) (V + a) flags) (os @ [a]) s = ?t"
    by (simp add: vmm_map_page_def IH(2))
  have "region_done dir (V + b) ((P + b) OR flag_bits flags OR PAGE_PRESENT) ?t" if "b \<in> set os" for b
  proof (cases "V + b = V + a")
    case False
    show ?thesis by (rule D(2)) (use snoc.prems that IH(3) False in auto)
  qed (use D(1) in simp)
  moreover have "vmm_lookup dir w ?t = vmm_lookup dir w s"
    if "user_page w" "\<forall>b \<in> set (os @ [a]). w \<noteq> V + b" for w
  proof -
    have "vmm_lookup dir w ?t = vmm_lookup dir w ?s" using R that by (auto split: if_splits)
    also have "\<dots> = vmm_lookup dir w s" using IH(4) that by simp
    finally show ?thesis .
  qed
  ultimately show ?case unfolding eq using R D(1) IH(2) by simp
qed (use wf c in simp)

lemma frame_of_page_mask: "w AND NOT (PAGE_SIZE - 1) = frame_of w"
  by (simp add: frame_of_def PAGE_SIZE_def)

lemma unat_frame_sum:
  assumes "unat (a::u32) + unat b < 2 ^ 32" "unat a mod 4096 = 0" "unat b mod 4096 = 0"
  shows "unat (a + b) = unat a + unat b \<and> unat (a + b) mod 4096 = 0"
  using assms by (simp add: unat_add_no_wrap mod_add_eq [symmetric])



text \<open>Stores into a frame's slots in a loop.\<close>

lemma fold_set_word_frame [simp]:
  "pmm_in_use (fold (\<lambda>i. set_word (f i) (g i)) is s) = pmm_in_use s"
  "pmm_inv (fold (\<lambda>i. set_word (f i) (g i)) is s) = pmm_inv s"
  "cr3 (fold (\<lambda>i. set_word (f i) (g i)) is s) = cr3 s"
  "kernel_directory (fold (\<lambda>i. set_word (f i) (g i)) is s) = kernel_directory s"
  by (induction "is" arbitrary: s) auto

lemma unat_slot_index: "n < 1024 \<Longrightarrow> unat (of_nat n :: u32) = n"
  by (intro unat_of_nat_small) simp

lemma entry_fold_set:
  assumes "unat p mod 4096 = 0" "unat t mod 4096 = 0" "unat j < 1024" "n \<le> 1024"
  shows "entry t j (fold (\<lambda>i. set_word (slot p (of_nat i)) (f i)) [0..<n] s)
     = (if t = p \<and> unat j < n then f (unat j) else entry t j s)"
  using assms(4)
proof (induction n)
  case (Suc n)
  have n: "unat (of_nat n :: u32) = n" using Suc.prems by (intro unat_slot_index) simp
  then have "j = of_nat n \<longleftrightarrow> unat j = n" by (auto simp: word_unat_eq_iff)
  moreover have "entry t j (fold (\<lambda>i. set_word (slot p (of_nat i)) (f i)) [0..<Suc n] s)
      = (if t = p \<and> j = of_nat n then f n
         else entry t j (fold (\<lambda>i. set_word (slot p (of_nat i)) (f i)) [0..<n] s))"
  proof -
    have f: "fold (\<lambda>i. set_word (slot p (of_nat i)) (f i)) [0..<Suc n] s
        = set_word (slot p (of_nat n)) (f n) (fold (\<lambda>i. set_word (slot p (of_nat i)) (f i)) [0..<n] s)"
      by simp
    show ?thesis unfolding f by (rule entry_set_word) (use assms n Suc.prems in simp_all)
  qed
  ultimately show ?case using Suc by auto
qed simp

lemma copy_table_frame [simp]:
  "pmm_in_use (fold (\<lambda>i s. set_word (f i) (g i s) s) is s) = pmm_in_use s"
  "pmm_inv (fold (\<lambda>i s. set_word (f i) (g i s) s) is s) = pmm_inv s"
  "cr3 (fold (\<lambda>i s. set_word (f i) (g i s) s) is s) = cr3 s"
  "kernel_directory (fold (\<lambda>i s. set_word (f i) (g i s) s) is s) = kernel_directory s"
  by (induction "is" arbitrary: s) auto

lemma entry_copy_table:
  assumes "unat p mod 4096 = 0" "unat t mod 4096 = 0" "unat (kernel_directory s) mod 4096 = 0"
    "kernel_directory s \<noteq> p" "unat j < 1024" "n \<le> 1024"
  shows "entry t j (fold (\<lambda>i s. set_word (slot p (of_nat i))
           (mem s (slot (kernel_directory s) (of_nat i))) s) [0..<n] s)
     = (if t = p \<and> unat j < n then entry (kernel_directory s) j s else entry t j s)"
  using assms(6,2,5)
proof (induction n arbitrary: t j)
  case (Suc n)
  let ?s = "fold (\<lambda>i s. set_word (slot p (of_nat i))
           (mem s (slot (kernel_directory s) (of_nat i))) s) [0..<n] s"
  have n: "unat (of_nat n :: u32) = n" using Suc.prems by (intro unat_slot_index) simp
  then have j: "j = of_nat n \<longleftrightarrow> unat j = n" by (auto simp: word_unat_eq_iff)
  have "mem ?s (slot (kernel_directory s) (of_nat n)) = entry (kernel_directory s) (of_nat n) s"
    using Suc.IH [of "kernel_directory s" "of_nat n"] Suc.prems(1) assms(3,4) n
    by (simp add: entry_def)
  then have f: "fold (\<lambda>i s. set_word (slot p (of_nat i))
           (mem s (slot (kernel_directory s) (of_nat i))) s) [0..<Suc n] s
      = set_word (slot p (of_nat n)) (entry (kernel_directory s) (of_nat n) s) ?s" by simp
  have "entry t j (fold (\<lambda>i s. set_word (slot p (of_nat i))
           (mem s (slot (kernel_directory s) (of_nat i))) s) [0..<Suc n] s)
      = (if t = p \<and> j = of_nat n then entry (kernel_directory s) (of_nat n) s else entry t j ?s)"
    unfolding f by (rule entry_set_word) (use assms(1) Suc.prems n in simp_all)
  then show ?case using Suc j by auto
qed simp

text \<open>A directory made by \<open>vmm_create_directory\<close> is a fresh, well-formed directory in which
  every page is mapped as it was in the kernel directory, and the kernel directory is
  unchanged; when memory is full the result is \<open>NULL\<close> and nothing changes.\<close>

theorem vmm_create_directory_copies:
  assumes "dir_wf (kernel_directory s) s" "vmm_create_directory s = (d, s')"
  shows "if d = 0 then s' = s
    else d \<notin> pmm_in_use s \<and> pmm_in_use s' = insert d (pmm_in_use s) \<and>
      dir_wf d s' \<and> dir_wf (kernel_directory s) s' \<and> frame_of (entry d 1023 s') = d \<and>
      (\<forall>w. user_page w \<longrightarrow> vmm_lookup d w s' = vmm_lookup (kernel_directory s) w s \<and>
         vmm_lookup (kernel_directory s) w s' = vmm_lookup (kernel_directory s) w s)"
proof -
  let ?k = "kernel_directory s"
  note D = dir_wfD [OF assms(1)]
  obtain t s1 where al: "pmm_alloc_block s = (t, s1)" by fastforce
  show ?thesis
  proof (cases "t = 0")
    case True
    with al assms(2) have "s' = s1" "d = 0" by (auto simp: vmm_create_directory_def Let_def)
    with True al show ?thesis using pmm_frames.alloc_none [OF D(1)] by auto
  next
    case False
    note fresh = pmm_frames.alloc_fresh [OF D(1) al False]
    have k1: "kernel_directory s1 = ?k" "mem s1 = mem s" using pmm_alloc_mem [OF al] by auto
    have ta: "unat t mod 4096 = 0" using fresh by (simp add: PAGE_SIZE_def word_unat_eq_iff unat_mod)
    have tk: "?k \<noteq> t" using fresh D(3) by auto
    have r: "d = t" "s' = set_word (slot t 1023) (t OR PAGE_PRESENT OR PAGE_WRITE)
      (fold (\<lambda>i s. set_word (slot t (of_nat i)) (mem s (slot (kernel_directory s) (of_nat i))) s)
         [0..<1023] (zero_page t s1))"
      using assms(2) al False by (auto simp: vmm_create_directory_def Let_def)
    have e: "entry p j s' =
        (if p = t then (if j = 1023 then t OR PAGE_PRESENT OR PAGE_WRITE else entry ?k j s)
         else entry p j s)"
      if "unat p mod 4096 = 0" "unat j < 1024" for p j
    proof -
      have "j = 1023 \<longleftrightarrow> \<not> unat j < 1023" using that(2) by (auto simp: word_unat_eq_iff)
      then show ?thesis
        using that ta tk D(4)
        by (simp add: r(2) entry_set_word entry_copy_table entry_zero_page k1 entry_cong [OF k1(2)])
    qed
    have lt: "j < 1023 \<Longrightarrow> unat j < 1024 \<and> j \<noteq> 1023" for j :: u32 by (auto simp: word_nat)
    have et: "entry t j s' = entry ?k j s" and ek: "entry ?k j s' = entry ?k j s" if "j < 1023" for j
      using e [OF ta, of j] e [OF D(4), of j] lt [OF that] tk by simp_all
    have tab: "has_table t j s' = has_table ?k j s" "has_table ?k j s' = has_table ?k j s" for j
      using et ek by (auto simp: has_table_def)
    have use: "pmm_in_use s' = insert t (pmm_in_use s)" "pmm_inv s'"
      using fresh pmm_frames.alloc_inv [OF D(1) al] by (simp_all add: r(2))
    have fr: "frame_of (entry ?k j s) \<in> pmm_in_use s - {0, ?k}" "frame_of (entry ?k j s) \<noteq> t" "j < 1023"
      if "has_table ?k j s" for j
      using D(5) [OF that] fresh that by (auto simp: has_table_def)
    have wf: "dir_wf t s'" "dir_wf ?k s'"
      using fr D(2,3,6) use False by (auto simp: dir_wf_def tab et ek)
    have look: "vmm_lookup t w s' = vmm_lookup ?k w s \<and> vmm_lookup ?k w s' = vmm_lookup ?k w s"
      if w: "user_page w" for w
    proof (cases "has_table ?k (pd_index w) s")
      case True
      have "entry (frame_of (entry ?k (pd_index w) s)) (pt_index w) s'
          = entry (frame_of (entry ?k (pd_index w) s)) (pt_index w) s"
        using e [of "frame_of (entry ?k (pd_index w) s)" "pt_index w"] fr [OF True] pt_index_lt by simp
      then show ?thesis using w True fr(3) [OF True] by (simp add: vmm_lookup_user tab et ek)
    qed (use w in \<open>simp add: vmm_lookup_user tab\<close>)
    have "frame_of (entry t 1023 s') = t" using e [OF ta, of 1023] ta by simp
    then show ?thesis using False fresh use wf look r(1) by simp
  qed
qed

theorem vmm_create_directory_copies_witness:
  "fst (vmm_create_directory sample_space2) = 0x3000 \<and>
   vmm_lookup 0x3000 0x08048000 (snd (vmm_create_directory sample_space2))
     = vmm_lookup 0x1000 0x08048000 sample_space2"
proof -
  obtain d s' where r: "vmm_create_directory sample_space2 = (d, s')" by fastforce
  then have d: "d = 0x3000" by (auto simp: vmm_create_directory_def sample_space2_alloc Let_def)
  have k: "kernel_directory sample_space2 = 0x1000" by (simp add: sample_space2_def sample_space_def)
  have u: "user_page 0x08048000" by (simp add: user_page_def pd_index_def word_nat)
  from vmm_create_directory_copies [OF _ r] sample_space2_wf u show ?thesis
    unfolding k r d by simp
qed

text \<open>Two directories that refer to the same tables, as after \<open>vmm_create_directory\<close>.\<close>

definition shares_tables :: "u32 \<Rightarrow> u32 \<Rightarrow> 'a vmm_state_scheme \<Rightarrow> bool" where
  "shares_tables d e s \<longleftrightarrow> d \<noteq> e \<and> (\<forall>i. i < 1023 \<longrightarrow> entry e i s = entry d i s)"


definition sample_space3 :: vmm_state where
  "sample_space3 = \<lparr>pmm_bitmap = 0x200000, pmm_words = (\<lambda>i. 7), pmm_max_blocks = 64,
     kernel_directory = 0x1000, cr3 = 0x2000, paging = True, page_fault_registered = True,
     mem = (\<lambda>a. 0)\<rparr>"

lemma sample_space3_wf: "dir_wf 0x1000 sample_space3" "dir_wf 0x2000 sample_space3"
  "shares_tables 0x1000 0x2000 sample_space3" "\<not> has_table d i sample_space3"
  by (simp_all add: dir_wf_def sample_space3_def has_table_def entry_def pmm_inv_def pmm_used_def
      pmm_in_use_def pmm_addr_valid_iff shares_tables_def bit_simps)

lemma sample_space3_alloc: "fst (pmm_alloc_block sample_space3) = 0x3000"
proof -
  have "m < 3 \<longleftrightarrow> m = 0 \<or> m = 1 \<or> m = 2" for m :: nat by auto
  then show ?thesis
    using pmm_alloc_block_eq [of sample_space3 3]
    by (simp add: sample_space3_def pmm_used_def bit_simps PAGE_SIZE_def)
qed


text \<open>A user page fault is reported as handled exactly when it lies in the stack area and a
  frame could be allocated. The page is then mapped to the fresh frame with user rights, unless the
  directory has no page table there and memory is now full: then the fault is
  reported as handled although the page is still unmapped, and the frame is lost.\<close>

theorem vmm_handle_user_page_fault_result:
  assumes "dir_wf (cr3 s) s" "vmm_handle_user_page_fault fault_addr error_code s = (handled, s')"
    and "pmm_alloc_block s = (f, s1)"
  shows "(handled \<longleftrightarrow> USER_STACK_GUARD_MIN \<le> fault_addr \<and> fault_addr < USER_STACK_TOP \<and> f \<noteq> 0) \<and>
    (\<not> handled \<longrightarrow> s' = s) \<and>
    (handled \<longrightarrow> f \<notin> pmm_in_use s \<and> f \<in> pmm_in_use s' \<and> dir_wf (cr3 s) s' \<and>
       vmm_lookup (cr3 s) (frame_of fault_addr) s' =
         (if \<not> has_table (cr3 s) (pd_index fault_addr) s \<and> fst (pmm_alloc_block s1) = 0 then None
          else Some (f OR PAGE_PRESENT OR PAGE_WRITE OR PAGE_USER)))"
proof -
  let ?v = "frame_of fault_addr"
  note D = dir_wfD [OF assms(1)]
  have uv: "unat ?v = unat fault_addr div 4096 * 4096" by (rule unat_frame_of)
  have range: "USER_STACK_GUARD_MIN \<le> ?v \<longleftrightarrow> USER_STACK_GUARD_MIN \<le> fault_addr"
    "?v < USER_STACK_TOP \<longleftrightarrow> fault_addr < USER_STACK_TOP"
    by (simp_all add: USER_STACK_GUARD_MIN_def USER_STACK_TOP_def word_nat uv) linarith+
  have user: "\<not> fault_addr < USER_VIRT_MIN" "\<not> KERNEL_VIRT_START \<le> fault_addr"
    if "USER_STACK_GUARD_MIN \<le> fault_addr" "fault_addr < USER_STACK_TOP"
    using that by (simp_all add: USER_STACK_GUARD_MIN_def USER_STACK_TOP_def USER_VIRT_MIN_def
        KERNEL_VIRT_START_def word_nat)
  have eq: "vmm_handle_user_page_fault fault_addr error_code s =
     (if USER_STACK_GUARD_MIN \<le> fault_addr \<and> fault_addr < USER_STACK_TOP
      then (if f = 0 then (False, s1)
            else (True, vmm_map_page_in_directory (cr3 s1) f ?v (PAGE_PRESENT OR PAGE_WRITE OR PAGE_USER) s1))
      else (False, s))"
    using user by (auto simp: vmm_handle_user_page_fault_def Let_def range assms(3))
  show ?thesis
  proof (cases "USER_STACK_GUARD_MIN \<le> fault_addr \<and> fault_addr < USER_STACK_TOP \<and> f \<noteq> 0")
    case False
    then show ?thesis
      using assms(2,3) pmm_frames.alloc_none [OF D(1)] by (auto simp: eq split: if_splits)
  next
    case True
    have m: "mem s1 = mem s" "cr3 s1 = cr3 s" using pmm_alloc_mem [OF assms(3)] by auto
    have fz: "f \<noteq> 0" using True by simp
    note fresh = pmm_frames.alloc_fresh [OF D(1) assms(3) fz]
    have fa: "unat f mod 4096 = 0" using fresh by (simp add: PAGE_SIZE_def word_unat_eq_iff unat_mod)
    have tab: "has_table d i s1 = has_table d i s" for d i by (simp add: has_table_def entry_cong [OF m(1)])
    have wf: "dir_wf (cr3 s) s1"
      using assms(1) fresh pmm_frames.alloc_inv [OF D(1) assms(3)]
      by (auto simp: dir_wf_def tab entry_cong [OF m(1)])
    have vb: "0xBFC00000 \<le> unat ?v" "unat ?v < 0xBFFFF000"
      using True range by (auto simp: USER_STACK_GUARD_MIN_def USER_STACK_TOP_def word_nat)
    then have vu: "user_page ?v" by (auto simp: user_page_def word_nat unat_pd_index)
    have pd: "pd_index ?v = pd_index fault_addr"
      by (simp add: word_unat_eq_iff unat_pd_index uv div_mult2_eq [symmetric])
    have s': "handled" "s' = vmm_map_page_in_directory (cr3 s) f ?v (PAGE_PRESENT OR PAGE_WRITE OR PAGE_USER) s1"
      using assms(2) True by (auto simp: eq m)
    have fl: "flag_bits (PAGE_PRESENT OR PAGE_WRITE OR PAGE_USER) OR PAGE_PRESENT
        = PAGE_PRESENT OR PAGE_WRITE OR PAGE_USER"
      by (simp add: flag_bits_def PAGE_PRESENT_def PAGE_WRITE_def PAGE_USER_def)
    have none: "vmm_lookup (cr3 s) ?v s1 = None" if "\<not> has_table (cr3 s) (pd_index fault_addr) s"
      using that vu by (simp add: vmm_lookup_user tab pd)
    show ?thesis
      using map_page_result [OF wf fz fa vu s'(2)] True fresh s'(1) none
      by (auto simp: tab pd fl or.assoc split: if_splits)
  qed
qed

theorem vmm_handle_user_page_fault_result_witness:
  "fst (vmm_handle_user_page_fault 0xBFFF0123 6 sample_space3) \<and>
   vmm_lookup 0x2000 0xBFFF0000 (snd (vmm_handle_user_page_fault 0xBFFF0123 6 sample_space3)) = Some 0x3007"
proof -
  have lt: "m < 3 \<longleftrightarrow> m = 0 \<or> m = 1 \<or> m = 2" "m < 4 \<longleftrightarrow> m = 0 \<or> m = 1 \<or> m = 2 \<or> m = 3" for m :: nat by auto
  have al: "pmm_alloc_block sample_space3 = (0x3000, bitmap_set 3 sample_space3)"
    using pmm_alloc_block_eq [of sample_space3 3]
    by (simp add: sample_space3_def pmm_used_def bit_simps PAGE_SIZE_def lt)
  have al2: "fst (pmm_alloc_block (bitmap_set 3 sample_space3)) \<noteq> 0"
    using pmm_alloc_block_eq [of "bitmap_set 3 sample_space3" 4]
    by (simp add: lt PAGE_SIZE_def pmm_block_valid_iff)
      (simp add: sample_space3_def pmm_used_def bit_simps)
  have c: "cr3 sample_space3 = 0x2000" by (simp add: sample_space3_def)
  obtain h s' where r: "vmm_handle_user_page_fault 0xBFFF0123 6 sample_space3 = (h, s')" by fastforce
  have "frame_of 0xBFFF0123 = 0xBFFF0000" by (simp add: frame_of_def)
  with vmm_handle_user_page_fault_result [OF _ r al] al2 show ?thesis
    unfolding c r using sample_space3_wf(2)
    by (simp add: USER_STACK_GUARD_MIN_def USER_STACK_TOP_def PAGE_PRESENT_def PAGE_WRITE_def PAGE_USER_def)
qed

text \<open>C8: \<open>vmm_initialize\<close> turns paging on with a well-formed kernel directory that maps
  the first 8 MiB to themselves, writable for the kernel only, maps nothing else below the
  recursive entry, and takes exactly three frames; it leaves paging off only
  when memory is full.\<close>

theorem vmm_initialize_identity:
  assumes "pmm_inv s" "\<not> paging s" "s' = vmm_initialize s"
  shows "if paging s'
    then cr3 s' = kernel_directory s' \<and> dir_wf (kernel_directory s') s' \<and>
      card (pmm_in_use s' - pmm_in_use s) = 3 \<and>
      (\<forall>w. user_page w \<longrightarrow> vmm_lookup (kernel_directory s') w s' =
         (if unat w < 0x800000 then Some (w OR PAGE_PRESENT OR PAGE_WRITE) else None))
    else fst (pmm_alloc_block s') = 0 \<and> cr3 s' = cr3 s"
proof -
  obtain d s1 where al: "pmm_alloc_block s = (d, s1)" by fastforce
  define s2 where "s2 = zero_page d (s1\<lparr>kernel_directory := d\<rparr>)"
  obtain t1 s3 where al1: "pmm_alloc_block s2 = (t1, s3)" by fastforce
  obtain t2 s4 where al2: "pmm_alloc_block s3 = (t2, s4)" by fastforce
  have keep: "paging (snd (pmm_alloc_block x)) = paging x" for x :: "'a vmm_state_scheme"
    by (simp add: pmm_alloc_block_def bitmap_set_def split: option.splits)
  have p: "paging s1 = paging s" "paging s3 = paging s2" "paging s4 = paging s3"
    using keep [of s] keep [of s2] keep [of s3] al al1 al2 by simp_all
  have m: "cr3 s1 = cr3 s" "cr3 s3 = cr3 s2" "cr3 s4 = cr3 s3"
    using pmm_alloc_mem [OF al] pmm_alloc_mem [OF al1] pmm_alloc_mem [OF al2] by auto
  have inv1: "pmm_inv s1" using pmm_frames.alloc_inv [OF assms(1) al] .
  then have inv2: "pmm_inv s2" by (simp add: s2_def pmm_inv_def pmm_used_def zero_page_def)
  have inv3: "pmm_inv s3" using pmm_frames.alloc_inv [OF inv2 al1] .
  have inv4: "pmm_inv s4" using pmm_frames.alloc_inv [OF inv3 al2] .
  have use2: "pmm_in_use s2 = pmm_in_use s1"
    by (simp add: s2_def pmm_in_use_def pmm_used_def zero_page_def pmm_addr_is_valid_def)
  consider (none) "d = 0" | (one) "d \<noteq> 0" "t1 = 0 \<or> t2 = 0" | (all) "d \<noteq> 0" "t1 \<noteq> 0" "t2 \<noteq> 0"
    by blast
  then show ?thesis
  proof cases
    case none
    then have s1: "s1 = s" using pmm_frames.alloc_none [OF assms(1)] al by blast
    have s': "s' = s\<lparr>kernel_directory := d\<rparr>"
      using none al s1 by (simp add: assms(3) vmm_initialize_def Let_def)
    have "fst (pmm_alloc_block s') = 0"
      using pmm_alloc_fails_frame [OF assms(1), of s'] al none assms(1)
      by (simp add: s' pmm_inv_def pmm_used_def)
    then show ?thesis using assms(2) s' by simp
  next
    case one
    have s': "s' = s4"
      using one al al1 al2 by (simp add: assms(3) vmm_initialize_def Let_def s2_def split: prod.splits)
    have "fst (pmm_alloc_block s4) = 0"
    proof (cases "t1 = 0")
      case True
      then have "s3 = s2" using pmm_frames.alloc_none [OF inv2] al1 by blast
      then show ?thesis using al1 al2 True by auto
    next
      case False
      then have "s4 = s3" using pmm_frames.alloc_none [OF inv3] al2 one(2) by blast
      then show ?thesis using al2 False one by simp
    qed
    then show ?thesis using assms(2) p m by (simp add: s' s2_def zero_page_def)
  next
    case all
    note f0 = pmm_frames.alloc_fresh [OF assms(1) al all(1)]
    note f1 = pmm_frames.alloc_fresh [OF inv2 al1 all(2)]
    note f2 = pmm_frames.alloc_fresh [OF inv3 al2 all(3)]
    let ?a = "\<lambda>i. slot t1 (of_nat i)" and ?b = "\<lambda>i. slot t2 (of_nat i)"
    let ?va = "\<lambda>i. (of_nat i * PAGE_SIZE) OR PAGE_PRESENT OR PAGE_WRITE"
    let ?vb = "\<lambda>i. (0x400000 + of_nat i * PAGE_SIZE) OR PAGE_PRESENT OR PAGE_WRITE"
    define s9 where "s9 = set_word (slot d 1023) (d OR PAGE_PRESENT OR PAGE_WRITE)
      (set_word (slot d 1) (t2 OR PAGE_PRESENT OR PAGE_WRITE)
      (set_word (slot d 0) (t1 OR PAGE_PRESENT OR PAGE_WRITE)
      (fold (\<lambda>i. set_word (?b i) (?vb i)) [0..<1024]
      (fold (\<lambda>i. set_word (?a i) (?va i)) [0..<1024] s4))))"
    have s': "s' = s9\<lparr>cr3 := d, paging := True, page_fault_registered := True\<rparr>"
      using all al al1 al2
      by (simp add: assms(3) vmm_initialize_def Let_def s2_def s9_def del: upt_Suc split: prod.splits)
    have al_d: "unat d mod 4096 = 0" and al_1: "unat t1 mod 4096 = 0" and al_2: "unat t2 mod 4096 = 0"
      using f0 f1 f2 by (simp_all add: PAGE_SIZE_def word_unat_eq_iff unat_mod)
    have ne: "d \<noteq> t1" "d \<noteq> t2" "t1 \<noteq> t2" using f0 f1 f2 use2 by auto
    have m4: "mem s4 = mem s2" using pmm_alloc_mem [OF al1] pmm_alloc_mem [OF al2] by auto
    have e: "entry t j s9 =
        (if t = d then if j = 1023 then d OR PAGE_PRESENT OR PAGE_WRITE
                       else if j = 1 then t2 OR PAGE_PRESENT OR PAGE_WRITE
                       else if j = 0 then t1 OR PAGE_PRESENT OR PAGE_WRITE else 0
         else if t = t2 then ?vb (unat j) else if t = t1 then ?va (unat j)
         else entry t j s4)" if "unat t mod 4096 = 0" "unat j < 1024" for t j
    proof -
      have "entry d j s4 = 0"
        by (simp add: entry_cong [OF m4] s2_def entry_zero_page [OF al_d al_d that(2)])
      then show ?thesis using that al_d al_1 al_2 ne
        by (simp add: s9_def entry_set_word entry_fold_set del: upt_Suc)
    qed
    have e': "entry t j s' = entry t j s9" for t j by (simp add: s' entry_def)
    have k: "kernel_directory s' = d"
      using pmm_alloc_mem [OF al1] pmm_alloc_mem [OF al2]
      by (simp add: s' s9_def s2_def del: upt_Suc)
    have use': "pmm_in_use s' = insert t2 (insert t1 (insert d (pmm_in_use s)))" and inv': "pmm_inv s'"
    proof -
      have "pmm_in_use s' = pmm_in_use s9" "pmm_inv s' = pmm_inv s9"
        by (simp_all add: s' pmm_in_use_def pmm_used_def pmm_addr_is_valid_def pmm_inv_def)
      then show "pmm_in_use s' = insert t2 (insert t1 (insert d (pmm_in_use s)))" "pmm_inv s'"
        using f0 f1 f2 use2 inv4 by (simp_all add: s9_def del: upt_Suc)
    qed
    have tab: "has_table d i s' \<longleftrightarrow> i = 0 \<or> i = 1" for i
    proof (cases "i < 1023")
      case True
      then have "unat i < 1024" "i \<noteq> 1023" by (auto simp: word_nat)
      then show ?thesis using True e [OF al_d, of i]
        by (simp add: has_table_def e' and_present_iff)
    qed (auto simp: has_table_def word_nat)
    have t: "frame_of (entry d 0 s') = t1" "frame_of (entry d 1 s') = t2"
      using e [OF al_d, of 0] e [OF al_d, of 1] al_1 al_2 by (simp_all add: e')
    have wf: "dir_wf d s'"
      using all ne by (auto simp: dir_wf_def tab t use' inv')
    have "pmm_in_use s' - pmm_in_use s = {d, t1, t2}"
      using f0 f1 f2 use2 by (auto simp: use')
    then have card: "card (pmm_in_use s' - pmm_in_use s) = 3" using ne by simp
    have look: "vmm_lookup d w s' =
        (if unat w < 0x800000 then Some (w OR PAGE_PRESENT OR PAGE_WRITE) else None)"
      if w: "user_page w" for w
    proof -
      let ?q = "unat w div 4096 mod 1024"
      have sp: "unat w = unat w div 4194304 * 4194304 + ?q * 4096"
        using page_split w by (auto simp: user_page_def)
      have q: "unat (of_nat ?q * PAGE_SIZE :: u32) = ?q * 4096"
        by (rule unat_block_address) (simp add: less_trans [OF mod_less_divisor])
      have i: "pd_index w = 0 \<longleftrightarrow> unat w div 4194304 = 0" "pd_index w = 1 \<longleftrightarrow> unat w div 4194304 = 1"
        by (simp_all add: word_unat_eq_iff unat_pd_index)
      consider "unat w div 4194304 = 0" | "unat w div 4194304 = 1" | "2 \<le> unat w div 4194304" by linarith
      then show ?thesis
      proof cases
        case 1
        then have "w = of_nat ?q * PAGE_SIZE" using sp q by (simp add: word_unat_eq_iff)
        then have "entry t1 (pt_index w) s' = w OR PAGE_PRESENT OR PAGE_WRITE"
          using e [OF al_1 pt_index_lt] ne by (simp add: e' unat_pt_index)
        moreover have "unat w < 0x800000" using 1 by simp
        ultimately show ?thesis using 1 w i tab t
          by (simp add: vmm_lookup_user and_present_iff)
      next
        case 2
        have "unat (0x400000 + of_nat ?q * PAGE_SIZE :: u32) = 0x400000 + ?q * 4096"
          using q by (simp add: unat_word_ariths less_trans [OF mod_less_divisor])
        then have "w = 0x400000 + of_nat ?q * PAGE_SIZE" using sp 2 by (simp add: word_unat_eq_iff)
        then have "entry t2 (pt_index w) s' = w OR PAGE_PRESENT OR PAGE_WRITE"
          using e [OF al_2 pt_index_lt] ne by (simp add: e' unat_pt_index)
        moreover have "unat w < 0x800000" using 2 sp by linarith
        ultimately show ?thesis using 2 w i tab t
          by (simp add: vmm_lookup_user and_present_iff)
      next
        case 3
        then have "\<not> unat w < 0x800000" by linarith
        then show ?thesis using 3 w i tab by (simp add: vmm_lookup_user)
      qed
    qed
    show ?thesis using wf card look k by (simp add: s')
  qed
qed

lemma alloc_chain_used:
  "pmm_used (zero_page p x) n = pmm_used x n" "pmm_used (x\<lparr>kernel_directory := d\<rparr>) n = pmm_used x n"
  "pmm_max_blocks (zero_page p x) = pmm_max_blocks x" "pmm_bitmap (zero_page p x) = pmm_bitmap x"
  by (simp_all add: zero_page_def pmm_used_def)

theorem vmm_initialize_identity_witness:
  "paging (vmm_initialize (sample_space\<lparr>paging := False\<rparr>)) \<and>
   vmm_lookup 0x2000 0x5000 (vmm_initialize (sample_space\<lparr>paging := False\<rparr>)) = Some 0x5003"
proof -
  let ?s = "sample_space\<lparr>paging := False\<rparr>" and ?s' = "vmm_initialize (sample_space\<lparr>paging := False\<rparr>)"
  have lt: "m < 2 \<longleftrightarrow> m = 0 \<or> m = 1" "m < 3 \<longleftrightarrow> m = 0 \<or> m = 1 \<or> m = 2"
    "m < 4 \<longleftrightarrow> m = 0 \<or> m = 1 \<or> m = 2 \<or> m = 3" for m :: nat by auto
  have S: "pmm_used ?s 0" "pmm_used ?s 1" "\<not> pmm_used ?s 2" "\<not> pmm_used ?s 3" "\<not> pmm_used ?s 4"
    "pmm_bitmap ?s = 0x200000" "pmm_max_blocks ?s = 64" "\<not> paging ?s" "pmm_inv ?s"
    by (simp_all add: sample_space_def pmm_used_def bit_simps pmm_inv_def)
  define s2 where "s2 = zero_page 0x2000 (bitmap_set 2 ?s\<lparr>kernel_directory := 0x2000\<rparr>)"
  have al: "pmm_alloc_block ?s = (0x2000, bitmap_set 2 ?s)"
    using pmm_alloc_block_eq [of ?s 2] S by (simp add: lt PAGE_SIZE_def)
  have S2: "pmm_used s2 n \<longleftrightarrow> n = 2 \<or> pmm_used ?s n" "pmm_bitmap s2 = 0x200000" "pmm_max_blocks s2 = 64" for n
    using S by (simp_all add: s2_def alloc_chain_used pmm_block_valid_iff)
  have al1: "pmm_alloc_block s2 = (0x3000, bitmap_set 3 s2)"
    using pmm_alloc_block_eq [of s2 3] S by (simp add: S2 lt PAGE_SIZE_def)
  have al2: "pmm_alloc_block (bitmap_set 3 s2) = (0x4000, bitmap_set 4 (bitmap_set 3 s2))"
    using pmm_alloc_block_eq [of "bitmap_set 3 s2" 4] S
    by (simp add: S2 lt PAGE_SIZE_def pmm_block_valid_iff)
  have on: "paging ?s'"
    by (simp add: vmm_initialize_def al s2_def [symmetric] al1 al2 Let_def del: upt_Suc)
  have k: "kernel_directory ?s' = 0x2000"
    using pmm_alloc_mem [OF al1] pmm_alloc_mem [OF al2]
    by (simp add: vmm_initialize_def al s2_def [symmetric] al1 al2 Let_def del: upt_Suc)
      (simp add: s2_def)
  have u: "user_page 0x5000" by (simp add: user_page_def pd_index_def word_nat)
  from vmm_initialize_identity [OF S(9,8) refl] on u show ?thesis
    by (simp add: k PAGE_PRESENT_def PAGE_WRITE_def)
qed

end
