(* ===== verification/Kheap.thy ===== *)
theory Kheap
  imports Vmm
begin

text \<open>
  The kernel heap, \<open>src/kernel/mem/heap/heap.c\<close>: a doubly linked list of blocks that tile the
  heap, searched from the block after the last allocation (next fit). \<open>blocks\<close> holds the
  header at an address and \<open>payload\<close> the bytes between the headers. The lemmas give the
  search as a \<open>find\<close> over the rotated block list, the tiling invariant \<open>heap_tiled\<close> and what
  each operation does to it, and that \<open>mem_alloc\<close> returns after at most one expansion.
\<close>

section \<open>State and operations\<close>

record heap_block =
  hb_magic :: u32
  hb_size :: u32
  hb_is_free :: u8
  hb_next :: u32
  hb_prev :: u32

record heap_state = vmm_state +
  blocks :: "u32 \<Rightarrow> heap_block"
  payload :: "u32 \<Rightarrow> u8"
  heap_start :: u32
  heap_current_end :: u32
  last_alloc :: u32

definition HEAP_MAGIC :: u32 where "HEAP_MAGIC = 0x12345678"

text \<open>\<open>sizeof(heap_block_t)\<close> on the 32-bit target, with the padding after \<open>is_free\<close>.\<close>

definition HEADER :: u32 where "HEADER = 20"

definition set_block :: "u32 \<Rightarrow> heap_block \<Rightarrow> 'a heap_state_scheme \<Rightarrow> 'a heap_state_scheme" where
  "set_block a h s = s\<lparr>blocks := (blocks s)(a := h)\<rparr>"

definition set_next :: "u32 \<Rightarrow> u32 \<Rightarrow> 'a heap_state_scheme \<Rightarrow> 'a heap_state_scheme" where
  "set_next a v s = set_block a (blocks s a\<lparr>hb_next := v\<rparr>) s"

definition set_prev :: "u32 \<Rightarrow> u32 \<Rightarrow> 'a heap_state_scheme \<Rightarrow> 'a heap_state_scheme" where
  "set_prev a v s = set_block a (blocks s a\<lparr>hb_prev := v\<rparr>) s"

definition set_size :: "u32 \<Rightarrow> u32 \<Rightarrow> 'a heap_state_scheme \<Rightarrow> 'a heap_state_scheme" where
  "set_size a v s = set_block a (blocks s a\<lparr>hb_size := v\<rparr>) s"

definition set_free :: "u32 \<Rightarrow> u8 \<Rightarrow> 'a heap_state_scheme \<Rightarrow> 'a heap_state_scheme" where
  "set_free a v s = set_block a (blocks s a\<lparr>hb_is_free := v\<rparr>) s"

abbreviation bsize :: "'a heap_state_scheme \<Rightarrow> u32 \<Rightarrow> u32" where
  "bsize s a \<equiv> hb_size (blocks s a)"

abbreviation bfree :: "'a heap_state_scheme \<Rightarrow> u32 \<Rightarrow> bool" where
  "bfree s a \<equiv> hb_is_free (blocks s a) \<noteq> 0"

abbreviation bnext :: "'a heap_state_scheme \<Rightarrow> u32 \<Rightarrow> u32" where
  "bnext s a \<equiv> hb_next (blocks s a)"

abbreviation bprev :: "'a heap_state_scheme \<Rightarrow> u32 \<Rightarrow> u32" where
  "bprev s a \<equiv> hb_prev (blocks s a)"

definition heap_initialize :: "u32 \<Rightarrow> u32 \<Rightarrow> 'a heap_state_scheme \<Rightarrow> 'a heap_state_scheme" where
  "heap_initialize start_addr sz s =
     set_block start_addr
       \<lparr>hb_magic = HEAP_MAGIC, hb_size = sz - HEADER, hb_is_free = 1, hb_next = 0, hb_prev = 0\<rparr>
       (s\<lparr>heap_start := start_addr, heap_current_end := start_addr + sz, last_alloc := start_addr\<rparr>)"

text \<open>\<open>while (current->next) current = current->next;\<close>\<close>

partial_function (option) heap_last :: "u32 \<Rightarrow> 'a heap_state_scheme \<Rightarrow> u32 option" where
  "heap_last current s =
     (if bnext s current \<noteq> 0 then heap_last (bnext s current) s else Some current)"

definition heap_add_page :: "'a heap_state_scheme \<Rightarrow> 'a heap_state_scheme" where
  "heap_add_page s =
     (let (phys, s1) = pmm_alloc_block s;
          s2 = vmm_map_page phys (heap_current_end s1) (PAGE_PRESENT OR PAGE_WRITE) s1
      in s2\<lparr>heap_current_end := heap_current_end s2 + PAGE_SIZE\<rparr>)"

definition heap_expand :: "u32 \<Rightarrow> 'a heap_state_scheme \<Rightarrow> 'a heap_state_scheme option" where
  "heap_expand additional_size s =
     (let pages_needed = (additional_size + PAGE_SIZE - 1) div PAGE_SIZE;
          total_expansion_size = pages_needed * PAGE_SIZE;
          new_big_block = heap_current_end s;
          s1 = fold (\<lambda>i. heap_add_page) [0..<unat pages_needed] s;
          s2 = set_block new_big_block (blocks s1 new_big_block
                 \<lparr>hb_magic := HEAP_MAGIC, hb_size := total_expansion_size - HEADER,
                  hb_is_free := 1, hb_next := 0\<rparr>) s1
      in do {
        current \<leftarrow> heap_last (heap_start s2) s2;
        let s3 = set_prev new_big_block current (set_next current new_big_block s2);
        Some (if bprev s3 new_big_block \<noteq> 0 \<and> bfree s3 (bprev s3 new_big_block)
              then let prev_block = bprev s3 new_big_block
                   in set_next prev_block 0
                        (set_size prev_block (bsize s3 prev_block + (HEADER + bsize s3 new_big_block)) s3)
              else s3)
      })"

text \<open>
  The loop of \<open>mem_alloc\<close>: \<open>Some (Some b)\<close> when it stops at a fitting free block \<open>b\<close>,
  \<open>Some None\<close> when it runs out of blocks, \<open>None\<close> when it never ends.
\<close>

definition heap_fits :: "u32 \<Rightarrow> 'a heap_state_scheme \<Rightarrow> u32 \<Rightarrow> bool" where
  "heap_fits formed_size s b \<longleftrightarrow> bfree s b \<and> formed_size \<le> bsize s b"

partial_function (option) heap_search ::
  "u32 \<Rightarrow> u32 \<Rightarrow> bool \<Rightarrow> 'a heap_state_scheme \<Rightarrow> u32 option option" where
  "heap_search formed_size current wrapped s =
     (if current = 0 then Some None
      else if heap_fits formed_size s current then Some (Some current)
      else let n = bnext s current;
               current' = (if n = 0 \<and> \<not> wrapped then heap_start s else n);
               wrapped' = (if n = 0 \<and> \<not> wrapped then True else wrapped)
           in if wrapped' \<and> current' = last_alloc s then Some None
              else heap_search formed_size current' wrapped' s)"

definition heap_split :: "u32 \<Rightarrow> u32 \<Rightarrow> 'a heap_state_scheme \<Rightarrow> 'a heap_state_scheme" where
  "heap_split formed_size current s =
     (let new_block = current + HEADER + formed_size;
          s1 = set_block new_block
                 \<lparr>hb_magic = HEAP_MAGIC, hb_size = bsize s current - formed_size - HEADER,
                  hb_is_free = 1, hb_next = bnext s current, hb_prev = current\<rparr> s;
          s2 = (if bnext s1 new_block \<noteq> 0 then set_prev (bnext s1 new_block) new_block s1 else s1)
      in set_next current new_block (set_size current formed_size s2))"

definition heap_take :: "u32 \<Rightarrow> u32 \<Rightarrow> 'a heap_state_scheme \<Rightarrow> u32 \<times> 'a heap_state_scheme" where
  "heap_take formed_size current s =
     (let s1 = (if bsize s current > formed_size + HEADER + 4 then heap_split formed_size current s else s);
          s2 = set_free current 0 s1;
          s3 = s2\<lparr>last_alloc := (if bnext s2 current \<noteq> 0 then bnext s2 current else heap_start s2)\<rparr>
      in (current + HEADER, s3))"

definition form_size :: "u32 \<Rightarrow> u32" where
  "form_size sz = (sz + 3) AND NOT 3"

partial_function (option) mem_alloc ::
  "u32 \<Rightarrow> 'a heap_state_scheme \<Rightarrow> (u32 \<times> 'a heap_state_scheme) option" where
  "mem_alloc sz s = do {
     found \<leftarrow> heap_search (form_size sz) (last_alloc s) False s;
     (case found of
        Some current \<Rightarrow> Some (heap_take (form_size sz) current s)
      | None \<Rightarrow> do { s1 \<leftarrow> heap_expand (sz + HEADER) s; mem_alloc sz s1 })
   }"

definition mem_zalloc :: "u32 \<Rightarrow> 'a heap_state_scheme \<Rightarrow> (u32 \<times> 'a heap_state_scheme) option" where
  "mem_zalloc sz s = do {
     (ptr, s1) \<leftarrow> mem_alloc sz s;
     Some (ptr, if ptr \<noteq> 0
                then s1\<lparr>payload := (\<lambda>a. if a - ptr < sz then 0 else payload s1 a)\<rparr> else s1)
   }"

text \<open>The two merges of \<open>mem_free\<close>.\<close>

definition heap_merge_next :: "u32 \<Rightarrow> 'a heap_state_scheme \<Rightarrow> 'a heap_state_scheme" where
  "heap_merge_next block s =
     (if bnext s block \<noteq> 0 \<and> bfree s (bnext s block)
      then let s1 = (if last_alloc s = bnext s block then s\<lparr>last_alloc := block\<rparr> else s);
               s2 = set_size block (bsize s1 block + (HEADER + bsize s1 (bnext s1 block))) s1;
               s3 = set_next block (bnext s2 (bnext s2 block)) s2
           in if bnext s3 block \<noteq> 0 then set_prev (bnext s3 block) block s3 else s3
      else s)"

definition heap_merge_prev :: "u32 \<Rightarrow> 'a heap_state_scheme \<Rightarrow> 'a heap_state_scheme" where
  "heap_merge_prev block s =
     (if bprev s block \<noteq> 0 \<and> bfree s (bprev s block)
      then let prev_block = bprev s block;
               s1 = (if last_alloc s = prev_block then s\<lparr>last_alloc := block\<rparr> else s);
               s2 = set_size prev_block (bsize s1 prev_block + (HEADER + bsize s1 block)) s1;
               s3 = set_next prev_block (bnext s2 block) s2
           in if bnext s3 block \<noteq> 0 then set_prev (bnext s3 block) prev_block s3 else s3
      else s)"

definition mem_free :: "u32 \<Rightarrow> 'a heap_state_scheme \<Rightarrow> 'a heap_state_scheme" where
  "mem_free ptr s =
     (if ptr = 0 then s
      else let block = ptr - HEADER
           in if hb_magic (blocks s block) \<noteq> HEAP_MAGIC then s
              else if bfree s block then s
              else heap_merge_prev block (heap_merge_next block (set_free block 1 s)))"

section \<open>Field updates\<close>

lemma blocks_set_block [simp]: "blocks (set_block a h s) b = (if b = a then h else blocks s b)"
  by (simp add: set_block_def)

lemma heap_frame [simp]:
  "heap_start (set_block a h s) = heap_start s" "last_alloc (set_block a h s) = last_alloc s"
  "heap_current_end (set_block a h s) = heap_current_end s" "payload (set_block a h s) = payload s"
  by (simp_all add: set_block_def)

lemmas heap_set_defs = set_next_def set_prev_def set_size_def set_free_def

section \<open>The tiling\<close>

text \<open>
  \<open>heap_seg s p a bs n e\<close>: the blocks \<open>bs\<close> lie end to end from address \<open>a\<close> to address \<open>e\<close>,
  linked both ways, with \<open>p\<close> before the first and \<open>n\<close> after the last.
\<close>

fun heap_seg :: "'a heap_state_scheme \<Rightarrow> u32 \<Rightarrow> nat \<Rightarrow> u32 list \<Rightarrow> u32 \<Rightarrow> nat \<Rightarrow> bool" where
  "heap_seg s p a [] n e \<longleftrightarrow> a = e"
| "heap_seg s p a (b # bs) n e \<longleftrightarrow>
     unat b = a \<and> b \<noteq> 0 \<and> hb_magic (blocks s b) = HEAP_MAGIC \<and>
     bprev s b = p \<and> bnext s b = hd (bs @ [n]) \<and>
     heap_seg s b (a + 20 + unat (bsize s b)) bs n e"

definition heap_tiled :: "'a heap_state_scheme \<Rightarrow> u32 list \<Rightarrow> bool" where
  "heap_tiled s bs \<longleftrightarrow> bs \<noteq> [] \<and> hd bs = heap_start s \<and> 24 \<le> unat (heap_start s) \<and>
     heap_seg s 0 (unat (heap_start s)) bs 0 (unat (heap_current_end s))"

lemma heap_seg_append:
  "heap_seg s p a (xs @ ys) n e \<longleftrightarrow>
     (\<exists>m. heap_seg s p a xs (hd (ys @ [n])) m \<and> heap_seg s (last (p # xs)) m ys n e)"
  by (induction xs arbitrary: p a) (auto simp: hd_append)

lemma heap_seg_bounds:
  "heap_seg s p a bs n e \<Longrightarrow> a \<le> e \<and>
     (\<forall>b \<in> set bs. a \<le> unat b \<and> unat b + 20 + unat (bsize s b) \<le> e)"
  by (induction bs arbitrary: p a) force+

lemma heap_seg_cong:
  "(\<And>b. b \<in> set bs \<Longrightarrow> blocks s' b = blocks s b) \<Longrightarrow>
     heap_seg s' p a bs n e = heap_seg s p a bs n e"
  by (induction bs arbitrary: p a) auto

lemma heap_seg_distinct: "heap_seg s p a bs n e \<Longrightarrow> distinct bs"
proof (induction bs arbitrary: p a)
  case (Cons b bs)
  then have seg: "unat b = a" "heap_seg s b (a + 20 + unat (bsize s b)) bs n e" by auto
  have "b \<notin> set bs"
  proof
    assume "b \<in> set bs"
    with heap_seg_bounds [OF seg(2)] have "a + 20 + unat (bsize s b) \<le> unat b" by blast
    with seg(1) show False by simp
  qed
  with Cons.IH [OF seg(2)] show ?case by simp
qed simp

lemma heap_seg_set_prev:
  assumes "heap_seg s p a (c # ys) n e"
  shows "heap_seg (set_prev c p' s) p' a (c # ys) n e"
proof -
  have "c \<notin> set ys" using heap_seg_distinct [OF assms] by simp
  then have "heap_seg (set_prev c p' s) c m ys n e = heap_seg s c m ys n e" for m
    by (intro heap_seg_cong) (auto simp: set_prev_def)
  with assms show ?thesis by (simp add: set_prev_def)
qed

lemma heap_seg_set_next:
  assumes "heap_seg s p a (xs @ [b]) n e"
  shows "heap_seg (set_next b n' s) p a (xs @ [b]) n' e"
proof -
  have "b \<notin> set xs" using heap_seg_distinct [OF assms] by simp
  then have "heap_seg (set_next b n' s) p a xs b m = heap_seg s p a xs b m" for m
    by (intro heap_seg_cong) (auto simp: set_next_def)
  with assms show ?thesis by (auto simp: heap_seg_append set_next_def)
qed

text \<open>The parts of a tiled heap around one of its blocks.\<close>

lemma heap_seg_around:
  "heap_seg s p a (xs @ b # ys) n e \<longleftrightarrow>
     heap_seg s p a xs b (unat b) \<and> b \<noteq> 0 \<and> hb_magic (blocks s b) = HEAP_MAGIC \<and>
     bprev s b = last (p # xs) \<and> bnext s b = hd (ys @ [n]) \<and>
     heap_seg s b (unat b + 20 + unat (bsize s b)) ys n e"
  by (auto simp: heap_seg_append)

lemma heap_seg_around_notin:
  assumes "heap_seg s p a (xs @ b # ys) n e"
  shows "b \<notin> set xs" "b \<notin> set ys" "set xs \<inter> set ys = {}"
  using heap_seg_distinct [OF assms] by auto

section \<open>The search\<close>

lemma heap_search_wrapped:
  assumes "heap_seg s p a (us @ l # vs) 0 e" "l = last_alloc s" "us \<noteq> []"
  shows "heap_search f (hd us) True s = Some (find (heap_fits f s) us)"
  using assms
proof (induction us arbitrary: p a)
  case (Cons u us)
  have u: "u \<noteq> 0" "bnext s u = hd (us @ l # vs)" "heap_seg s u (a + 20 + unat (bsize s u)) (us @ l # vs) 0 e"
    using Cons.prems(1) by (auto simp: hd_append)
  have l: "l \<noteq> 0" using Cons.prems(1) by (auto simp: heap_seg_append)
  show ?case
  proof (cases us)
    case Nil
    then show ?thesis using u l Cons.prems(2)
      by (subst heap_search.simps) simp
  next
    case (Cons w ws)
    have "w \<noteq> l" using heap_seg_distinct [OF u(3)] Cons by auto
    moreover have "w \<noteq> 0" using u(3) Cons by simp
    moreover have "heap_search f w True s = Some (find (heap_fits f s) us)"
      using Cons.IH [OF u(3)] Cons.prems(2) Cons by simp
    ultimately show ?thesis using u Cons Cons.prems(2)
      by (subst heap_search.simps) simp
  qed
qed simp

lemma heap_search_all:
  assumes "heap_seg s 0 (unat (heap_start s)) (xs @ l # ys) 0 e" "l = last_alloc s"
    and "hd (xs @ l # ys) = heap_start s" "heap_seg s p a zs 0 e'" "zs \<noteq> []"
  shows "heap_search f (hd zs) False s = Some (find (heap_fits f s) (zs @ xs))"
  using assms(4,5)
proof (induction zs arbitrary: p a)
  case (Cons z zs)
  have z: "z \<noteq> 0" "bnext s z = hd (zs @ [0])" "heap_seg s z (a + 20 + unat (bsize s z)) zs 0 e'"
    using Cons.prems(1) by auto
  show ?case
  proof (cases zs)
    case Nil
    show ?thesis
    proof (cases xs)
      case (Cons x xs')
      have "heap_search f (hd xs) True s = Some (find (heap_fits f s) xs)"
        by (rule heap_search_wrapped [OF assms(1,2)]) (simp add: Cons)
      moreover have "x \<noteq> l" using heap_seg_distinct [OF assms(1)] Cons by auto
      ultimately show ?thesis using z assms(2,3) Nil Cons
        by (subst heap_search.simps) simp
    qed (use z assms(2,3) Nil in \<open>subst heap_search.simps, simp\<close>)
  next
    case (Cons w ws)
    have "w \<noteq> 0" using z(3) Cons by simp
    moreover have "heap_search f w False s = Some (find (heap_fits f s) (zs @ xs))"
      using Cons.IH [OF z(3)] Cons by simp
    ultimately show ?thesis using z Cons
      by (subst heap_search.simps) simp
  qed
qed simp

text \<open>The order in which \<open>mem_alloc\<close> looks at the blocks: from the cursor to the end, then
  from the start to the cursor.\<close>

definition rotate_to :: "u32 \<Rightarrow> u32 list \<Rightarrow> u32 list" where
  "rotate_to l bs = dropWhile (\<lambda>b. b \<noteq> l) bs @ takeWhile (\<lambda>b. b \<noteq> l) bs"

lemma set_rotate_to [simp]: "set (rotate_to l bs) = set bs"
proof -
  have "set (rotate_to l bs) = set (takeWhile (\<lambda>b. b \<noteq> l) bs @ dropWhile (\<lambda>b. b \<noteq> l) bs)"
    by (simp only: rotate_to_def set_append Un_commute)
  then show ?thesis by simp
qed

lemma dropWhile_to: "l \<notin> set xs \<Longrightarrow> dropWhile (\<lambda>b. b \<noteq> l) (xs @ l # ys) = l # ys"
  by (induction xs) auto

lemma takeWhile_to: "l \<notin> set xs \<Longrightarrow> takeWhile (\<lambda>b. b \<noteq> l) (xs @ l # ys) = xs"
  by (induction xs) auto

lemma rotate_to_split: "l \<notin> set xs \<Longrightarrow> rotate_to l (xs @ l # ys) = (l # ys) @ xs"
  by (simp add: rotate_to_def dropWhile_to takeWhile_to)

lemma heap_search_next_fit:
  assumes "heap_tiled s bs" "last_alloc s \<in> set bs"
  shows "heap_search f (last_alloc s) False s = Some (find (heap_fits f s) (rotate_to (last_alloc s) bs))"
proof -
  obtain xs ys where bs: "bs = xs @ last_alloc s # ys" "last_alloc s \<notin> set xs"
    using split_list_first [OF assms(2)] by blast
  have seg: "heap_seg s 0 (unat (heap_start s)) (xs @ last_alloc s # ys) 0 (unat (heap_current_end s))"
    "hd (xs @ last_alloc s # ys) = heap_start s"
    using assms(1) by (auto simp: heap_tiled_def bs)
  then obtain m where m: "heap_seg s (last (0 # xs)) m (last_alloc s # ys) 0 (unat (heap_current_end s))"
    using heap_seg_append [of s 0 _ xs] by blast
  have "heap_search f (hd (last_alloc s # ys)) False s
      = Some (find (heap_fits f s) ((last_alloc s # ys) @ xs))"
    by (rule heap_search_all [OF seg(1) refl seg(2) m]) simp
  then show ?thesis using rotate_to_split [OF bs(2)] by (simp add: bs(1))
qed

section \<open>Taking a block\<close>

lemma heap_seg_set_size_free:
  "b \<notin> set bs \<Longrightarrow> heap_seg (set_size b v s) p a bs n e = heap_seg s p a bs n e"
  "b \<notin> set bs \<Longrightarrow> heap_seg (set_next b v s) p a bs n e = heap_seg s p a bs n e"
  "b \<notin> set bs \<Longrightarrow> heap_seg (set_prev b v s) p a bs n e = heap_seg s p a bs n e"
  "b \<notin> set bs \<Longrightarrow> heap_seg (set_block b h s) p a bs n e = heap_seg s p a bs n e"
  by (intro heap_seg_cong; auto simp: heap_set_defs)+

lemma heap_seg_set_free [simp]:
  "heap_seg (set_free b v s) p a bs n e = heap_seg s p a bs n e"
  by (induction bs arbitrary: p a) (auto simp: set_free_def)

lemma heap_seg_frame [simp]:
  "heap_seg (s\<lparr>last_alloc := l\<rparr>) p a bs n e = heap_seg s p a bs n e"
  by (induction bs arbitrary: p a) auto

lemma heap_set_frame [simp]:
  "heap_start (set_size a v s) = heap_start s" "last_alloc (set_size a v s) = last_alloc s"
  "heap_start (set_next a v s) = heap_start s" "last_alloc (set_next a v s) = last_alloc s"
  "heap_start (set_prev a v s) = heap_start s" "last_alloc (set_prev a v s) = last_alloc s"
  "heap_start (set_free a w s) = heap_start s" "last_alloc (set_free a w s) = last_alloc s"
  "heap_current_end (set_size a v s) = heap_current_end s"
  "heap_current_end (set_next a v s) = heap_current_end s"
  "heap_current_end (set_prev a v s) = heap_current_end s"
  "heap_current_end (set_free a w s) = heap_current_end s"
  by (simp_all add: heap_set_defs)

text \<open>The list of blocks after \<open>b\<close> has been taken for \<open>f\<close> bytes.\<close>

definition splits :: "u32 \<Rightarrow> u32 \<Rightarrow> 'a heap_state_scheme \<Rightarrow> bool" where
  "splits f b s \<longleftrightarrow> bsize s b > f + HEADER + 4"

lemma heap_tiled_block:
  assumes "heap_tiled s bs" "b \<in> set bs"
  shows "24 \<le> unat b" "unat b + 20 + unat (bsize s b) < 2 ^ 32" "b \<noteq> 0"
    "hb_magic (blocks s b) = HEAP_MAGIC"
proof -
  have seg: "heap_seg s 0 (unat (heap_start s)) bs 0 (unat (heap_current_end s))" "24 \<le> unat (heap_start s)"
    using assms(1) by (auto simp: heap_tiled_def)
  show "24 \<le> unat b" "unat b + 20 + unat (bsize s b) < 2 ^ 32"
    using heap_seg_bounds [OF seg(1)] seg(2) assms(2) unat_lt_2p32 [of "heap_current_end s"] by force+
  obtain xs ys where "bs = xs @ b # ys" using split_list [OF assms(2)] by blast
  then show "b \<noteq> 0" "hb_magic (blocks s b) = HEAP_MAGIC"
    using seg(1) by (auto simp: heap_seg_around)
qed

lemma splits_iff:
  assumes "heap_tiled s bs" "b \<in> set bs" "f \<le> bsize s b"
  shows "splits f b s \<longleftrightarrow> unat f + 24 < unat (bsize s b)"
    "unat (b + HEADER) = unat b + 20"
    "unat (b + HEADER + f) = unat b + 20 + unat f"
proof -
  note B = heap_tiled_block [OF assms(1,2)]
  have f: "unat f \<le> unat (bsize s b)" using assms(3) by (simp add: word_nat)
  have "unat (f + HEADER + 4) = unat f + 24"
    using B f by (simp add: HEADER_def unat_word_ariths)
  then show "splits f b s \<longleftrightarrow> unat f + 24 < unat (bsize s b)" by (simp add: splits_def word_nat)
  show h: "unat (b + HEADER) = unat b + 20" using B by (simp add: HEADER_def unat_word_ariths)
  show "unat (b + HEADER + f) = unat b + 20 + unat f"
    using B f h by (subst unat_add_no_wrap) simp_all
qed

text \<open>Splitting a block inserts a free block behind it and changes nothing else.\<close>

lemma heap_split_result:
  assumes t: "heap_tiled s (xs @ b # ys)" and f: "f \<le> bsize s b" "splits f b s"
  defines "nb \<equiv> b + HEADER + f"
  defines "s' \<equiv> heap_split f b s"
  shows "heap_tiled s' (xs @ b # nb # ys)" "nb \<notin> set (xs @ b # ys)"
    "bsize s' b = f" "bfree s' b = bfree s b" "bfree s' nb" "bnext s' b = nb"
    "unat (bsize s' nb) = unat (bsize s b) - unat f - 20"
    "\<And>c. c \<in> set (xs @ ys) \<Longrightarrow> bsize s' c = bsize s c \<and> bfree s' c = bfree s c"
    "heap_start s' = heap_start s" "last_alloc s' = last_alloc s"
proof -
  let ?e = "unat (heap_current_end s)" and ?a = "unat (heap_start s)"
  have b: "b \<in> set (xs @ b # ys)" by simp
  note B = heap_tiled_block [OF t b] and S = splits_iff [OF t b f(1)]
  have seg: "heap_seg s 0 ?a (xs @ b # ys) 0 ?e" using t by (simp add: heap_tiled_def)
  have A: "heap_seg s 0 ?a xs b (unat b)" "bprev s b = last (0 # xs)" "bnext s b = hd (ys @ [0])"
    "heap_seg s b (unat b + 20 + unat (bsize s b)) ys 0 ?e"
    using seg by (auto simp: heap_seg_around)
  note N = heap_seg_around_notin [OF seg]
  have nb: "unat nb = unat b + 20 + unat f" "unat f + 24 < unat (bsize s b)"
    using S f(2) by (auto simp: nb_def)
  have xs_lt: "\<And>c. c \<in> set xs \<Longrightarrow> unat c < unat b" using heap_seg_bounds [OF A(1)] by force
  have ys_ge: "\<And>c. c \<in> set ys \<Longrightarrow> unat b + 20 + unat (bsize s b) \<le> unat c"
    using heap_seg_bounds [OF A(4)] by force
  have nxs: "nb \<notin> set xs" using xs_lt nb by force
  moreover have nys: "nb \<notin> set ys" using ys_ge nb by force
  moreover have nbb: "nb \<noteq> b" using nb by auto
  ultimately show "nb \<notin> set (xs @ b # ys)" by simp
  have nb0: "nb \<noteq> 0" using nb by auto
  let ?h = "\<lparr>hb_magic = HEAP_MAGIC, hb_size = bsize s b - f - HEADER, hb_is_free = 1,
    hb_next = bnext s b, hb_prev = b\<rparr>"
  let ?s1 = "set_block nb ?h s"
  let ?s2 = "if bnext s b \<noteq> 0 then set_prev (bnext s b) nb ?s1 else ?s1"
  have s': "s' = set_next b nb (set_size b f ?s2)"
    by (simp add: s'_def heap_split_def nb_def Let_def)
  have szn: "unat (bsize s b - f - HEADER) = unat (bsize s b) - unat f - 20"
  proof -
    have "unat (bsize s b - f) = unat (bsize s b) - unat f"
      using f(1) by (simp add: unat_sub_le word_nat)
    then show ?thesis using nb(2) by (simp add: HEADER_def unat_sub_le)
  qed
  have zero: "0 \<notin> set xs" using heap_tiled_block(3) [OF t, of 0] by auto
  have next_b: "bnext s b \<noteq> b \<and> bnext s b \<noteq> nb \<and> bnext s b \<notin> set xs"
  proof (cases ys)
    case Nil
    then show ?thesis using A(3) B(3) nb0 zero by simp
  next
    case (Cons y ys')
    then show ?thesis using A(3) N nys by auto
  qed
  show "bsize s' b = f" "bfree s' b = bfree s b" "bfree s' nb" "bnext s' b = nb"
    using nbb next_b by (auto simp: s' heap_set_defs)
  show "unat (bsize s' nb) = unat (bsize s b) - unat f - 20"
    using nbb next_b szn by (auto simp: s' heap_set_defs)
  show "bsize s' c = bsize s c \<and> bfree s' c = bfree s c" if "c \<in> set (xs @ ys)" for c
  proof -
    have "c \<noteq> nb" "c \<noteq> b" using that nxs nys N by auto
    then show ?thesis by (auto simp: s' heap_set_defs)
  qed
  show st: "heap_start s' = heap_start s" "last_alloc s' = last_alloc s" by (simp_all add: s')
  have en: "heap_current_end s' = heap_current_end s" by (simp add: s')
  have segx: "heap_seg s' 0 ?a xs b (unat b)"
  proof -
    have "blocks s' c = blocks s c" if "c \<in> set xs" for c
    proof -
      have "c \<noteq> nb" "c \<noteq> b" "c \<noteq> bnext s b" using that nxs N(1) next_b by blast+
      then show ?thesis by (simp add: s' heap_set_defs)
    qed
    then have "heap_seg s' 0 ?a xs b (unat b) = heap_seg s 0 ?a xs b (unat b)" by (rule heap_seg_cong)
    then show ?thesis using A(1) by simp
  qed
  have segy: "heap_seg s' nb (unat b + 20 + unat (bsize s b)) ys 0 ?e"
  proof (cases ys)
    case (Cons y ys')
    have y: "bnext s b = y" "y \<noteq> 0" "y \<noteq> b" "y \<noteq> nb" using A Cons N nys by auto
    have "heap_seg (set_prev y nb ?s1) nb (unat b + 20 + unat (bsize s b)) ys 0 ?e"
      using A(4) nys unfolding Cons
      by (intro heap_seg_set_prev [where p = b]) (auto simp: heap_seg_set_size_free)
    then show ?thesis using y N(2) by (simp add: s' heap_seg_set_size_free)
  qed (use A(4) in simp)
  have mid: "hb_magic (blocks s' b) = HEAP_MAGIC" "bprev s' b = bprev s b"
    "hb_magic (blocks s' nb) = HEAP_MAGIC" "bprev s' nb = b" "bnext s' nb = bnext s b"
    using nbb next_b B(4) by (auto simp: s' heap_set_defs)
  show "heap_tiled s' (xs @ b # nb # ys)"
  proof -
    have "unat b + 20 + unat f + 20 + unat (bsize s' nb) = unat b + 20 + unat (bsize s b)"
      using nb \<open>unat (bsize s' nb) = unat (bsize s b) - unat f - 20\<close> by simp
    then have "heap_seg s' b (unat b + 20 + unat f) (nb # ys) 0 ?e"
      by (simp only: heap_seg.simps nb(1) nb0 mid(3-5) A(3) segy not_False_eq_True simp_thms)
    then have "heap_seg s' 0 ?a (xs @ b # nb # ys) 0 ?e"
      using segx B(3) mid(1,2) A(2) \<open>bsize s' b = f\<close> \<open>bnext s' b = nb\<close>
      unfolding heap_seg_around by simp
    then show ?thesis using t by (cases xs) (simp_all add: heap_tiled_def st en)
  qed
qed

text \<open>
  The heap as its users see it: for every block its address, size and state. Taking a
  block on that view cuts it in two when enough is left over.
\<close>

definition heap_view :: "'a heap_state_scheme \<Rightarrow> u32 list \<Rightarrow> (u32 \<times> u32 \<times> bool) list" where
  "heap_view s bs = map (\<lambda>b. (b, bsize s b, bfree s b)) bs"

fun view_take :: "u32 \<Rightarrow> u32 \<Rightarrow> (u32 \<times> u32 \<times> bool) list \<Rightarrow> (u32 \<times> u32 \<times> bool) list" where
  "view_take f b [] = []"
| "view_take f b ((a, z, fr) # vs) =
     (if a = b
      then (if unat f + 24 < unat z
            then (a, f, False) # (a + 20 + f, z - f - 20, True) # vs
            else (a, z, False) # vs)
      else (a, z, fr) # view_take f b vs)"

lemma view_take_around:
  "b \<notin> set xs \<Longrightarrow> view_take f b (heap_view s (xs @ b # ys)) =
     heap_view s xs @ view_take f b ((b, bsize s b, bfree s b) # heap_view s ys)"
  by (induction xs) (auto simp: heap_view_def)

lemma heap_view_cong:
  "(\<And>c. c \<in> set bs \<Longrightarrow> bsize s' c = bsize s c \<and> bfree s' c = bfree s c) \<Longrightarrow>
     heap_view s' bs = heap_view s bs"
  by (simp add: heap_view_def)

lemma heap_view_append [simp]: "heap_view s (xs @ ys) = heap_view s xs @ heap_view s ys"
  by (simp add: heap_view_def)

lemma heap_tiled_frame [simp]:
  "heap_tiled (s\<lparr>last_alloc := l\<rparr>) bs = heap_tiled s bs"
  "heap_tiled (set_free b v s) bs = heap_tiled s bs"
  by (simp_all add: heap_tiled_def)

lemma heap_take_result:
  assumes t: "heap_tiled s bs" and b: "b \<in> set bs" and f: "f \<le> bsize s b"
    and r: "heap_take f b s = (ptr, s')"
  shows "\<exists>bs'. ptr = b + 20 \<and> heap_tiled s' bs' \<and> last_alloc s' \<in> set bs' \<and>
    heap_view s' bs' = view_take f b (heap_view s bs)"
proof -
  obtain xs ys where bs: "bs = xs @ b # ys" using split_list [OF b] by blast
  have seg: "heap_seg s 0 (unat (heap_start s)) (xs @ b # ys) 0 (unat (heap_current_end s))"
    using t by (simp add: heap_tiled_def bs)
  note N = heap_seg_around_notin [OF seg]
  have A: "bnext s b = hd (ys @ [0])" "hd (xs @ b # ys) = heap_start s"
    using seg t by (auto simp: heap_seg_around heap_tiled_def bs)
  note S = splits_iff [OF t b f]
  have start: "heap_start s \<in> set (xs @ b # ys)" using A(2) by (metis Nil_is_append_conv hd_in_set list.discI)
  show ?thesis
  proof (cases "splits f b s")
    case True
    let ?nb = "b + HEADER + f"
    let ?s1 = "heap_split f b s"
    note R = heap_split_result [OF t [unfolded bs] f True]
    have nb0: "?nb \<noteq> 0" using S(3) by (auto simp: word_unat_eq_iff)
    have s': "ptr = b + 20" "s' = (set_free b 0 ?s1)\<lparr>last_alloc := ?nb\<rparr>"
      using r True R(6) nb0 by (auto simp: heap_take_def splits_def set_free_def HEADER_def Let_def)
    have view: "heap_view s' (xs @ b # ?nb # ys) = view_take f b (heap_view s bs)"
    proof -
      have keep: "bsize s' c = bsize s c \<and> bfree s' c = bfree s c" if "c \<in> set (xs @ ys)" for c
        using R(8) [OF that] that N by (auto simp: s' set_free_def)
      have "bsize s' ?nb = bsize s b - f - 20"
        using R(2,7) f S(1) True
        by (simp add: s' set_free_def word_unat_eq_iff unat_sub_le word_nat)
      moreover have "?nb \<noteq> b" using R(2) by auto
      ultimately have "heap_view s' [b, ?nb] = [(b, f, False), (b + 20 + f, bsize s b - f - 20, True)]"
        using R(3,5) by (simp add: heap_view_def s' set_free_def HEADER_def)
      moreover have "heap_view s' xs = heap_view s xs" "heap_view s' ys = heap_view s ys"
        using keep by (auto intro: heap_view_cong)
      moreover have "heap_view s' (xs @ b # ?nb # ys) = heap_view s' xs @ heap_view s' [b, ?nb] @ heap_view s' ys"
        by (simp add: heap_view_def)
      ultimately show ?thesis
        unfolding bs view_take_around [OF N(1)] using S(1) True by simp
    qed
    show ?thesis using s' R(1) view by (intro exI [of _ "xs @ b # ?nb # ys"]) simp
  next
    case False
    have s': "ptr = b + 20" "s' = (set_free b 0 s)\<lparr>last_alloc := (if bnext s b \<noteq> 0 then bnext s b else heap_start s)\<rparr>"
      using r False by (auto simp: heap_take_def splits_def set_free_def HEADER_def Let_def)
    have "last_alloc s' \<in> set bs"
      using A start by (cases ys) (auto simp: s' bs)
    moreover have "heap_view s' bs = view_take f b (heap_view s bs)"
    proof -
      have "blocks s' c = blocks s c" if "c \<in> set xs \<union> set ys" for c
        using that N by (auto simp: s' set_free_def)
      then have "heap_view s' xs = heap_view s xs" "heap_view s' ys = heap_view s ys"
        by (intro heap_view_cong; simp)+
      moreover have "heap_view s' bs = heap_view s' xs @ (b, bsize s b, False) # heap_view s' ys"
        by (simp add: heap_view_def bs s' set_free_def)
      ultimately show ?thesis
        unfolding bs view_take_around [OF N(1)] using S(1) False by simp
    qed
    ultimately show ?thesis using s' t by (intro exI [of _ bs]) simp
  qed
qed

text \<open>What \<open>mem_alloc\<close> does when some block fits: next fit.\<close>

lemma mem_alloc_found:
  assumes "heap_tiled s bs" "last_alloc s \<in> set bs"
    and "find (heap_fits (form_size sz) s) (rotate_to (last_alloc s) bs) = Some b"
  shows "\<exists>s' bs'. mem_alloc sz s = Some (b + 20, s') \<and> heap_tiled s' bs' \<and> last_alloc s' \<in> set bs' \<and>
    heap_view s' bs' = view_take (form_size sz) b (heap_view s bs)"
proof -
  have b: "b \<in> set bs" "form_size sz \<le> bsize s b"
    using assms(3) by (auto simp: find_Some_iff heap_fits_def) (metis nth_mem set_rotate_to)
  obtain ptr s' where r: "heap_take (form_size sz) b s = (ptr, s')" by fastforce
  have "mem_alloc sz s = Some (ptr, s')"
    using heap_search_next_fit [OF assms(1,2), of "form_size sz"] assms(3) r
    by (subst mem_alloc.simps) simp
  with heap_take_result [OF assms(1) b r] show ?thesis by auto
qed

section \<open>Expansion\<close>

lemma heap_pmm_frame [simp]:
  "blocks (bitmap_set b s) = blocks s" "heap_start (bitmap_set b s) = heap_start s"
  "heap_current_end (bitmap_set b s) = heap_current_end s" "last_alloc (bitmap_set b s) = last_alloc s"
  by (simp_all add: bitmap_set_def)

lemma pmm_alloc_heap:
  assumes "pmm_alloc_block s = (a, s')"
  shows "blocks s' = blocks s \<and> heap_start s' = heap_start s \<and>
    heap_current_end s' = heap_current_end s \<and> last_alloc s' = last_alloc s"
  using assms by (auto simp: pmm_alloc_block_def split: if_splits option.splits)

lemma vmm_heap_frame [simp]:
  "blocks (set_word a v s) = blocks s" "heap_start (set_word a v s) = heap_start s"
  "heap_current_end (set_word a v s) = heap_current_end s" "last_alloc (set_word a v s) = last_alloc s"
  "blocks (zero_page p s) = blocks s" "heap_start (zero_page p s) = heap_start s"
  "heap_current_end (zero_page p s) = heap_current_end s" "last_alloc (zero_page p s) = last_alloc s"
  by (simp_all add: set_word_def zero_page_def)

lemma vmm_set_entry_heap [simp]:
  "blocks (vmm_set_entry d p v f s) = blocks s" "heap_start (vmm_set_entry d p v f s) = heap_start s"
  "heap_current_end (vmm_set_entry d p v f s) = heap_current_end s"
  "last_alloc (vmm_set_entry d p v f s) = last_alloc s"
  by (simp_all add: vmm_set_entry_def Let_def)

lemma vmm_map_page_heap [simp]:
  "blocks (vmm_map_page p v f s) = blocks s \<and> heap_start (vmm_map_page p v f s) = heap_start s \<and>
   heap_current_end (vmm_map_page p v f s) = heap_current_end s \<and>
   last_alloc (vmm_map_page p v f s) = last_alloc s"
  by (simp add: vmm_map_page_def vmm_map_page_in_directory_def Let_def split: prod.split)
    (auto dest: pmm_alloc_heap)

lemma heap_add_page_heap [simp]:
  "blocks (heap_add_page s) = blocks s" "heap_start (heap_add_page s) = heap_start s"
  "heap_current_end (heap_add_page s) = heap_current_end s + PAGE_SIZE"
  "last_alloc (heap_add_page s) = last_alloc s"
  by (auto simp: heap_add_page_def Let_def dest: pmm_alloc_heap split: prod.split)

lemma heap_add_pages [simp]:
  "blocks (fold (\<lambda>i. heap_add_page) is s) = blocks s"
  "heap_start (fold (\<lambda>i. heap_add_page) is s) = heap_start s"
  "last_alloc (fold (\<lambda>i. heap_add_page) is s) = last_alloc s"
  "heap_current_end (fold (\<lambda>i. heap_add_page) is s) = heap_current_end s + of_nat (length is) * PAGE_SIZE"
  by (induction "is" arbitrary: s) (auto simp: algebra_simps)

lemma heap_last_result:
  "heap_seg s p a bs 0 e \<Longrightarrow> bs \<noteq> [] \<Longrightarrow> heap_last (hd bs) s = Some (last bs)"
proof (induction bs arbitrary: p a)
  case (Cons b bs)
  show ?case
  proof (cases bs)
    case Nil
    with Cons.prems show ?thesis by (subst heap_last.simps) simp
  next
    case (Cons c cs)
    with Cons.prems have "bnext s b = c" "c \<noteq> 0" by auto
    moreover have "heap_last c s = Some (last bs)"
      using Cons.IH Cons.prems(1) Cons by auto
    ultimately show ?thesis using Cons by (subst heap_last.simps) simp
  qed
qed simp

text \<open>The view of the heap grown by \<open>n\<close> bytes at its end \<open>e\<close>.\<close>

definition view_grow :: "u32 \<Rightarrow> u32 \<Rightarrow> (u32 \<times> u32 \<times> bool) list \<Rightarrow> (u32 \<times> u32 \<times> bool) list" where
  "view_grow e n vs =
     (case last vs of (a, z, fr) \<Rightarrow> if fr then butlast vs @ [(a, z + n, True)] else vs @ [(e, n - 20, True)])"

lemma heap_expand_pages:
  assumes "unat n + 4095 < 2 ^ 32" "n \<noteq> 0"
  shows "unat ((n + PAGE_SIZE - 1) div PAGE_SIZE * PAGE_SIZE) = (unat n + 4095) div 4096 * 4096"
    "unat ((n + PAGE_SIZE - 1) div PAGE_SIZE) = (unat n + 4095) div 4096"
    "unat n \<le> (unat n + 4095) div 4096 * 4096" "(unat n + 4095) div 4096 * 4096 \<le> unat n + 4095"
    "4096 \<le> (unat n + 4095) div 4096 * 4096"
proof -
  have n0: "0 < unat n" using assms(2) by (simp add: unat_gt_0)
  have eq: "n + PAGE_SIZE - 1 = n + 4095" by (simp add: PAGE_SIZE_def)
  have s: "unat (n + PAGE_SIZE - 1) = unat n + 4095"
    unfolding eq using assms(1) by (subst unat_add_no_wrap) simp_all
  then show d: "unat ((n + PAGE_SIZE - 1) div PAGE_SIZE) = (unat n + 4095) div 4096"
    by (simp add: PAGE_SIZE_def unat_div)
  show u: "(unat n + 4095) div 4096 * 4096 \<le> unat n + 4095" by simp
  have "unat ((n + PAGE_SIZE - 1) div PAGE_SIZE * PAGE_SIZE)
      = (unat n + 4095) div 4096 * 4096 mod 2 ^ 32"
    using d by (simp add: unat_word_ariths(2) PAGE_SIZE_def)
  then show "unat ((n + PAGE_SIZE - 1) div PAGE_SIZE * PAGE_SIZE) = (unat n + 4095) div 4096 * 4096"
    using u assms(1) by simp
  show "unat n \<le> (unat n + 4095) div 4096 * 4096"
    using div_mult_mod_eq [of "unat n + 4095" 4096] mod_less_divisor [of 4096 "unat n + 4095"] by linarith
  show "4096 \<le> (unat n + 4095) div 4096 * 4096"
    using n0 by (simp add: div_greater_zero_iff Suc_le_eq)
qed

lemma heap_expand_result:
  assumes t: "heap_tiled s bs" and n: "unat n + 4095 < 2 ^ 32" "n \<noteq> 0"
    and room: "unat (heap_current_end s) + unat n + 4095 < 2 ^ 32"
  defines "tot \<equiv> (n + PAGE_SIZE - 1) div PAGE_SIZE * PAGE_SIZE"
  shows "\<exists>s' bs'. heap_expand n s = Some s' \<and> heap_tiled s' bs' \<and> last_alloc s' = last_alloc s \<and>
    set bs \<subseteq> set bs' \<and> bfree s' (last bs') \<and> unat tot \<le> unat (bsize s' (last bs')) + 20 \<and>
    heap_view s' bs' = view_grow (heap_current_end s) tot (heap_view s bs)"
proof -
  let ?a = "unat (heap_start s)" and ?e = "unat (heap_current_end s)" and ?nb = "heap_current_end s"
  let ?p = "(n + PAGE_SIZE - 1) div PAGE_SIZE"
  note P = heap_expand_pages [OF n, folded tot_def]
  have seg: "heap_seg s 0 ?a bs 0 ?e" "bs \<noteq> []" "hd bs = heap_start s" "24 \<le> ?a"
    using t by (auto simp: heap_tiled_def)
  obtain xs l where bs: "bs = xs @ [l]" using seg(2) by (metis rev_exhaust)
  have L: "heap_seg s 0 ?a xs l (unat l)" "bprev s l = last (0 # xs)" "l \<noteq> 0" "bnext s l = 0"
    "hb_magic (blocks s l) = HEAP_MAGIC" "unat l + 20 + unat (bsize s l) = ?e"
    using seg(1) by (auto simp: bs heap_seg_around)
  have nd: "l \<notin> set xs" using heap_seg_distinct [OF seg(1)] by (simp add: bs)
  have below: "\<And>b. b \<in> set bs \<Longrightarrow> unat b < ?e" using heap_seg_bounds [OF seg(1)] by force
  have nb: "?nb \<notin> set bs" "?nb \<noteq> l" "?nb \<noteq> 0"
    using below [of l] below L(6) by (auto simp: bs)
  define s1 where "s1 = fold (\<lambda>i. heap_add_page) [0..<unat ?p] s"
  define h where "h = blocks s1 ?nb\<lparr>hb_magic := HEAP_MAGIC, hb_size := tot - HEADER, hb_is_free := 1, hb_next := 0\<rparr>"
  define s2 where "s2 = set_block ?nb h s1"
  define s3 where "s3 = set_prev ?nb l (set_next l ?nb s2)"
  have s1: "blocks s1 = blocks s" "heap_start s1 = heap_start s" "last_alloc s1 = last_alloc s"
    "heap_current_end s1 = heap_current_end s + tot"
    by (simp_all add: s1_def tot_def del: unat_page_number)
  have en: "unat (heap_current_end s + tot) = ?e + unat tot"
    using room P(1,4) by (intro unat_add_no_wrap) simp
  have tot20: "unat (tot - HEADER) = unat tot - 20"
    using P by (simp add: HEADER_def unat_sub_le)
  have same2: "blocks s2 c = blocks s c" if "c \<in> set bs" for c
    using that nb(1) by (auto simp: s2_def s1)
  have seg2: "heap_seg s2 0 ?a bs 0 ?e"
    using heap_seg_cong [of bs s2 s] same2 seg(1) by blast
  have hl: "heap_last (heap_start s2) s2 = Some l"
    using heap_last_result [OF seg2 seg(2)] seg(3) by (simp add: s2_def s1 bs)
  have seg3: "heap_seg s3 0 ?a bs ?nb ?e"
    using heap_seg_set_next [of s2 0 ?a xs l 0 ?e ?nb] seg2 nb(1)
    by (simp add: s3_def heap_seg_set_size_free bs)
  have B3: "bsize s3 l = bsize s l" "bfree s3 l = bfree s l" "bnext s3 l = ?nb"
    "bsize s3 ?nb = tot - HEADER" "bfree s3 ?nb" "bnext s3 ?nb = 0" "bprev s3 ?nb = l"
    "hb_magic (blocks s3 ?nb) = HEAP_MAGIC"
    using nb(2) same2 [of l] by (simp_all add: s3_def heap_set_defs s2_def h_def bs s1)
  have keep: "bsize s3 c = bsize s c \<and> bfree s3 c = bfree s c" if "c \<in> set bs" for c
    using that nb(1) same2 [OF that] by (auto simp: s3_def heap_set_defs)
  have fr: "heap_start s3 = heap_start s" "last_alloc s3 = last_alloc s"
    "heap_current_end s3 = heap_current_end s + tot"
    by (simp_all add: s3_def s2_def s1)
  have ex: "heap_expand n s = Some (if bfree s l
      then set_next l 0 (set_size l (bsize s3 l + (HEADER + bsize s3 ?nb)) s3) else s3)"
    unfolding heap_expand_def Let_def tot_def [symmetric] s1_def [symmetric] h_def [symmetric]
      s2_def [symmetric] hl
    using B3(2,7) L(3) by (simp add: s3_def [symmetric])
  show ?thesis
  proof (cases "bfree s l")
    case False
    have "heap_seg s3 0 ?a (bs @ [?nb]) 0 (?e + unat tot)"
      using seg3 B3 nb tot20 P by (simp add: heap_seg_append) (use bs in auto)
    moreover have "heap_view s3 (bs @ [?nb]) = view_grow ?nb tot (heap_view s bs)"
      using heap_view_cong [of bs s3 s] keep False B3
      by (simp add: heap_view_def view_grow_def bs HEADER_def)
    ultimately show ?thesis
      using ex False fr B3(4,5) tot20 P seg
      by (intro exI [of _ s3] exI [of _ "bs @ [?nb]"]) (auto simp: heap_tiled_def en bs hd_append)
  next
    case True
    let ?z = "bsize s3 l + (HEADER + bsize s3 ?nb)"
    let ?s = "set_next l 0 (set_size l ?z s3)"
    have z: "?z = bsize s l + tot" by (simp add: B3)
    have uz: "unat ?z = unat (bsize s l) + unat tot"
      unfolding z using room P(1,4) L(6) by (intro unat_add_no_wrap) simp
    have Bs: "bsize ?s l = ?z" "bfree ?s l" "bnext ?s l = 0" "bprev ?s l = bprev s3 l"
      "hb_magic (blocks ?s l) = hb_magic (blocks s3 l)"
      using True B3(2) by (simp_all add: heap_set_defs)
    have "heap_seg ?s 0 ?a (xs @ [l]) 0 (?e + unat tot)"
    proof -
      have "heap_seg ?s 0 ?a xs l (unat l)"
        using seg3 nd by (auto simp: bs heap_seg_around heap_seg_set_size_free)
      moreover have "bprev s3 l = last (0 # xs)" "hb_magic (blocks s3 l) = HEAP_MAGIC"
        using seg3 by (auto simp: bs heap_seg_around)
      ultimately show ?thesis using Bs L(3,6) uz by (simp add: heap_seg_around)
    qed
    moreover have "heap_view ?s bs = view_grow ?nb tot (heap_view s bs)"
    proof -
      have "heap_view ?s xs = heap_view s xs"
        using keep nd by (intro heap_view_cong) (auto simp: bs heap_set_defs)
      then show ?thesis using True z Bs by (simp add: heap_view_def view_grow_def bs)
    qed
    ultimately show ?thesis
      using ex True fr Bs(1,2) uz P seg
      by (intro exI [of _ ?s] exI [of _ bs]) (simp add: heap_tiled_def en bs)
  qed
qed

section \<open>Allocation\<close>

lemma unat_form_size: "unat sz + 3 < 2 ^ 32 \<Longrightarrow> unat (form_size sz) = (unat sz + 3) div 4 * 4"
proof -
  assume sz: "unat sz + 3 < 2 ^ 32"
  have m: "(3::u32) = mask 2" by (simp add: mask_eq_exp_minus_1)
  have "2 \<le> n \<Longrightarrow> Suc (Suc (n - 2)) = n" for n by arith
  then have "form_size sz = push_bit 2 (drop_bit 2 (sz + 3))"
    unfolding form_size_def by (subst (2) m, intro bit_word_eqI) (auto simp: bit_simps)
  then have "unat (form_size sz) = take_bit 32 (push_bit 2 (drop_bit 2 (unat (sz + 3))))"
    by (simp only: unsigned_push_bit_eq unat_drop_bit_eq) simp
  moreover have "unat (sz + 3) = unat sz + 3" using sz by (subst unat_add_no_wrap) simp_all
  ultimately show ?thesis using sz
    by (simp add: push_bit_eq_mult drop_bit_eq_div take_bit_eq_mod)
qed

lemma in_heap_view: "(c, z, fr) \<in> set (heap_view s bs) \<longleftrightarrow> c \<in> set bs \<and> z = bsize s c \<and> fr = bfree s c"
  by (auto simp: heap_view_def)

lemma view_take_other: "(c, z, fr) \<in> set vs \<Longrightarrow> c \<noteq> b \<Longrightarrow> (c, z, fr) \<in> set (view_take f b vs)"
  by (induction f b vs rule: view_take.induct) auto

lemma view_take_this:
  "b \<in> fst ` set vs \<Longrightarrow> (\<And>z fr. (b, z, fr) \<in> set vs \<Longrightarrow> f \<le> z) \<Longrightarrow>
     \<exists>z'. f \<le> z' \<and> (b, z', False) \<in> set (view_take f b vs)"
proof (induction f b vs rule: view_take.induct)
  case (2 f b a z fr vs)
  show ?case
  proof (cases "a = b")
    case True
    then have "f \<le> z" using 2(3) [of z fr] by simp
    with True show ?thesis by auto
  next
    case False
    then have "\<exists>z'. f \<le> z' \<and> (b, z', False) \<in> set (view_take f b vs)"
      using 2(2,3) by (intro 2(1)) auto
    with False show ?thesis by auto
  qed
qed simp

lemma fst_heap_view [simp]: "fst ` set (heap_view s bs) = set bs"
  by (force simp: heap_view_def)

lemma view_grow_used: "(c, z, False) \<in> set vs \<Longrightarrow> (c, z, False) \<in> set (view_grow e n vs)"
  by (cases vs rule: rev_cases) (auto simp: view_grow_def split: prod.splits)

lemma heap_seg_disjoint:
  "heap_seg s p a bs n e \<Longrightarrow> c \<in> set bs \<Longrightarrow> d \<in> set bs \<Longrightarrow> c \<noteq> d \<Longrightarrow>
     unat c + 20 + unat (bsize s c) \<le> unat d \<or> unat d + 20 + unat (bsize s d) \<le> unat c"
proof (induction bs arbitrary: p a)
  case (Cons b bs)
  then have seg: "unat b = a" "heap_seg s b (a + 20 + unat (bsize s b)) bs n e" by auto
  have "\<And>x. x \<in> set bs \<Longrightarrow> unat b + 20 + unat (bsize s b) \<le> unat x"
    using heap_seg_bounds [OF seg(2)] seg(1) by blast
  then show ?case using Cons.IH [OF seg(2)] Cons.prems(2-4) by auto
qed simp

text \<open>The size of an expansion for a request of \<open>sz\<close> bytes.\<close>

definition expansion_for :: "u32 \<Rightarrow> u32" where
  "expansion_for sz = (sz + HEADER + PAGE_SIZE - 1) div PAGE_SIZE * PAGE_SIZE"

lemma mem_alloc_cases:
  fixes s :: "'a heap_state_scheme"
  assumes t: "heap_tiled s bs" "last_alloc s \<in> set bs"
    and room: "unat (heap_current_end s) + unat sz + 4115 < 2 ^ 32"
  obtains b s' bs' where "mem_alloc sz s = Some (b + 20, s')" "heap_tiled s' bs'" "last_alloc s' \<in> set bs'"
    "find (heap_fits (form_size sz) s) (rotate_to (last_alloc s) bs) = Some b"
    "heap_view s' bs' = view_take (form_size sz) b (heap_view s bs)"
    "b \<in> set bs" "bfree s b" "form_size sz \<le> bsize s b"
  | b s' bs' s1 bs1 where "mem_alloc sz s = Some (b + 20, s')" "heap_tiled s' bs'" "last_alloc s' \<in> set bs'"
    "find (heap_fits (form_size sz) s) (rotate_to (last_alloc s) bs) = None"
    "heap_view (s1 :: 'a heap_state_scheme) bs1 =
       view_grow (heap_current_end s) (expansion_for sz) (heap_view s bs)"
    "heap_view s' bs' = view_take (form_size sz) b (heap_view s1 bs1)"
    "b \<in> set bs1" "bfree s1 b" "form_size sz \<le> bsize s1 b"
proof (cases "find (heap_fits (form_size sz) s) (rotate_to (last_alloc s) bs)")
  case (Some b)
  then have "b \<in> set bs" "bfree s b" "form_size sz \<le> bsize s b"
    by (auto simp: find_Some_iff heap_fits_def) (metis nth_mem set_rotate_to)
  with mem_alloc_found [OF t Some] Some that(1) show ?thesis by blast
next
  case None
  have n: "unat (sz + HEADER) = unat sz + 20" "sz + HEADER \<noteq> 0"
  proof -
    show "unat (sz + HEADER) = unat sz + 20"
      using room by (subst unat_add_no_wrap) (simp_all add: HEADER_def)
    then show "sz + HEADER \<noteq> 0" by auto
  qed
  have n4: "unat (sz + HEADER) + 4095 < 2 ^ 32" using n room by simp
  obtain s1 bs1 where x: "heap_expand (sz + HEADER) s = Some s1" "heap_tiled s1 bs1"
    "last_alloc s1 = last_alloc s" "set bs \<subseteq> set bs1" "bfree s1 (last bs1)"
    "unat (expansion_for sz) \<le> unat (bsize s1 (last bs1)) + 20"
    "heap_view s1 bs1 = view_grow (heap_current_end s) (expansion_for sz) (heap_view s bs)"
    using heap_expand_result [OF t(1) n4 n(2)] n room unfolding expansion_for_def by auto
  have l1: "last bs1 \<in> set bs1" using x(2) by (simp add: heap_tiled_def)
  have e: "unat (expansion_for sz) = (unat sz + 4115) div 4096 * 4096"
    "unat sz + 20 \<le> (unat sz + 4115) div 4096 * 4096"
    using heap_expand_pages(1,3) [OF n4 n(2)] n(1) by (simp_all add: expansion_for_def)
  have "(unat sz + 3) div 4 * 4 + 20 \<le> (unat sz + 4115) div 4096 * 4096"
  proof -
    have "(unat sz + 3) div 4 + 5 \<le> (unat sz + 4115) div 4096 * 1024" using e(2) by linarith
    then show ?thesis by linarith
  qed
  then have "form_size sz \<le> bsize s1 (last bs1)"
    using x(6) e(1) unat_form_size [of sz] room by (simp add: word_nat)
  then have "heap_fits (form_size sz) s1 (last bs1)" using x(5) by (simp add: heap_fits_def)
  moreover have la1: "last_alloc s1 \<in> set bs1" using x(3,4) t(2) by auto
  ultimately obtain b where b: "find (heap_fits (form_size sz) s1) (rotate_to (last_alloc s1) bs1) = Some b"
    using l1 by (cases "find (heap_fits (form_size sz) s1) (rotate_to (last_alloc s1) bs1)")
      (auto simp: find_None_iff)
  then have bb: "b \<in> set bs1" "bfree s1 b" "form_size sz \<le> bsize s1 b"
    by (auto simp: find_Some_iff heap_fits_def) (metis nth_mem set_rotate_to)
  have "mem_alloc sz s = mem_alloc sz s1"
    using heap_search_next_fit [OF t] None x(1) by (subst mem_alloc.simps) simp
  moreover obtain s' bs' where r: "mem_alloc sz s1 = Some (b + 20, s')" "heap_tiled s' bs'"
    "last_alloc s' \<in> set bs'" "heap_view s' bs' = view_take (form_size sz) b (heap_view s1 bs1)"
    using mem_alloc_found [OF x(2) la1 b] by blast
  ultimately have "mem_alloc sz s = Some (b + 20, s')" by simp
  from that(2) [OF this r(2,3) None x(7) r(4) bb] show ?thesis .
qed



section \<open>Release\<close>

text \<open>Block \<open>b\<close> swallowing the block \<open>c\<close> behind it, which both merges do.\<close>

definition heap_absorb :: "u32 \<Rightarrow> u32 \<Rightarrow> 'a heap_state_scheme \<Rightarrow> 'a heap_state_scheme" where
  "heap_absorb b c s =
     (let s2 = set_next b (bnext s c) (set_size b (bsize s b + (HEADER + bsize s c)) s)
      in if bnext s c \<noteq> 0 then set_prev (bnext s c) b s2 else s2)"

lemma heap_absorb_result:
  assumes t: "heap_tiled s (xs @ b # c # ys)" and s': "s' = heap_absorb b c s"
  shows "heap_tiled s' (xs @ b # ys)" "bsize s' b = bsize s b + 20 + bsize s c" "bfree s' b = bfree s b"
    "\<And>d. d \<in> set (xs @ ys) \<Longrightarrow> bsize s' d = bsize s d \<and> bfree s' d = bfree s d"
    "last_alloc s' = last_alloc s" "heap_start s' = heap_start s" "bprev s' b = bprev s b"
proof -
  let ?a = "unat (heap_start s)" and ?e = "unat (heap_current_end s)"
  have seg: "heap_seg s 0 ?a (xs @ b # c # ys) 0 ?e" using t by (simp add: heap_tiled_def)
  have A: "heap_seg s 0 ?a xs b (unat b)" "bprev s b = last (0 # xs)" "b \<noteq> 0"
    "hb_magic (blocks s b) = HEAP_MAGIC" "unat c = unat b + 20 + unat (bsize s b)"
    "bnext s c = hd (ys @ [0])" "heap_seg s c (unat c + 20 + unat (bsize s c)) ys 0 ?e"
    using seg by (auto simp: heap_seg_around)
  have N: "b \<notin> set xs" "b \<notin> set ys" "c \<noteq> b" "set xs \<inter> set ys = {}" "c \<notin> set xs" "c \<notin> set ys"
    using heap_seg_distinct [OF seg] by auto
  have zero: "0 \<notin> set xs" using heap_tiled_block(3) [OF t, of 0] by auto
  have nx: "bnext s c \<noteq> b" "bnext s c \<notin> set xs"
    using A(3,6) N zero by (cases ys; auto)+
  let ?z = "bsize s b + (HEADER + bsize s c)"
  let ?s2 = "set_next b (bnext s c) (set_size b ?z s)"
  have uz: "unat ?z = unat (bsize s b) + 20 + unat (bsize s c)"
  proof -
    have "unat c + 20 + unat (bsize s c) < 2 ^ 32"
      using heap_tiled_block(2) [OF t, of c] by simp
    then show ?thesis using A(5)
      by (simp add: HEADER_def unat_word_ariths)
  qed
  show B: "bsize s' b = bsize s b + 20 + bsize s c" "bfree s' b = bfree s b" "bprev s' b = bprev s b"
    "last_alloc s' = last_alloc s" "heap_start s' = heap_start s"
    using nx by (auto simp: s' heap_absorb_def heap_set_defs HEADER_def Let_def)
  have B2: "hb_magic (blocks s' b) = hb_magic (blocks s b)" "bnext s' b = bnext s c"
    "heap_current_end s' = heap_current_end s"
    using nx by (auto simp: s' heap_absorb_def heap_set_defs Let_def)
  show "bsize s' d = bsize s d \<and> bfree s' d = bfree s d" if "d \<in> set (xs @ ys)" for d
  proof -
    have "d \<noteq> b" using that N by auto
    then show ?thesis by (simp add: s' heap_absorb_def heap_set_defs Let_def)
  qed
  have segx: "heap_seg s' 0 ?a xs b (unat b)"
  proof -
    have "blocks s' d = blocks s d" if "d \<in> set xs" for d
    proof -
      have "d \<noteq> b" "d \<noteq> bnext s c" using that N(1) nx by blast+
      then show ?thesis by (simp add: s' heap_absorb_def heap_set_defs Let_def)
    qed
    then have "heap_seg s' 0 ?a xs b (unat b) = heap_seg s 0 ?a xs b (unat b)" by (rule heap_seg_cong)
    then show ?thesis using A(1) by simp
  qed
  have segy: "heap_seg s' b (unat b + 20 + unat ?z) ys 0 ?e"
  proof (cases ys)
    case Nil
    then show ?thesis using A(5,7) uz by simp
  next
    case (Cons y ys')
    have y: "bnext s c = y" "y \<noteq> 0" using A Cons by auto
    have e: "unat c + 20 + unat (bsize s c) = unat b + 20 + unat ?z" using A(5) uz by simp
    have "heap_seg ?s2 c (unat c + 20 + unat (bsize s c)) ys 0 ?e"
      using A(7) N(2) by (simp add: heap_seg_set_size_free)
    then have "heap_seg (set_prev y b ?s2) b (unat c + 20 + unat (bsize s c)) ys 0 ?e"
      unfolding Cons by (rule heap_seg_set_prev)
    then show ?thesis using y unfolding e by (simp add: s' heap_absorb_def)
  qed
  have "bsize s' b = ?z" by (simp add: B HEADER_def)
  then have "heap_seg s' 0 ?a (xs @ b # ys) 0 ?e"
    unfolding heap_seg_around B(3) B2 using segx segy A(2-4,6) by (simp only: simp_thms)
  then show "heap_tiled s' (xs @ b # ys)"
    using t B B2 by (cases xs) (simp_all add: heap_tiled_def)
qed

lemma heap_merge_next_absorb:
  "heap_merge_next b s =
     (if bnext s b \<noteq> 0 \<and> bfree s (bnext s b)
      then heap_absorb b (bnext s b)
             (if last_alloc s = bnext s b then s\<lparr>last_alloc := b\<rparr> else s)
      else s)" if "bnext s b \<noteq> b"
  using that by (auto simp: heap_merge_next_def heap_absorb_def heap_set_defs Let_def)

lemma heap_merge_prev_absorb:
  "heap_merge_prev b s =
     (if bprev s b \<noteq> 0 \<and> bfree s (bprev s b)
      then heap_absorb (bprev s b) b
             (if last_alloc s = bprev s b then s\<lparr>last_alloc := b\<rparr> else s)
      else s)" if "bprev s b \<noteq> b"
  using that by (auto simp: heap_merge_prev_def heap_absorb_def heap_set_defs Let_def)

text \<open>Releasing a block on the user's view: it becomes free and joins a free neighbour
  behind it and a free neighbour before it.\<close>

definition view_release ::
  "(u32 \<times> u32 \<times> bool) list \<Rightarrow> u32 \<Rightarrow> u32 \<Rightarrow> (u32 \<times> u32 \<times> bool) list \<Rightarrow> (u32 \<times> u32 \<times> bool) list" where
  "view_release us b z vs =
     (let (z', vs') = (case vs of (c, zc, True) # r \<Rightarrow> (z + 20 + zc, r) | _ \<Rightarrow> (z, vs))
      in if us \<noteq> [] \<and> snd (snd (last us))
         then butlast us @ (fst (last us), fst (snd (last us)) + 20 + z', True) # vs'
         else us @ (b, z', True) # vs')"

lemma heap_view_Cons [simp]: "heap_view s (b # bs) = (b, bsize s b, bfree s b) # heap_view s bs"
  by (simp add: heap_view_def)

lemma heap_view_Nil [simp]: "heap_view s [] = []" "heap_view s bs = [] \<longleftrightarrow> bs = []"
  by (simp_all add: heap_view_def)

text \<open>The forward merge.\<close>

lemma heap_merge_next_result:
  assumes t: "heap_tiled s (xs @ b # ys)" and s': "s' = heap_merge_next b s"
  defines "zs \<equiv> (case ys of c # r \<Rightarrow> if bfree s c then r else ys | [] \<Rightarrow> [])"
  shows "heap_tiled s' (xs @ b # zs)" "bfree s' b = bfree s b"
    "\<And>d. d \<in> set (xs @ zs) \<Longrightarrow> bsize s' d = bsize s d \<and> bfree s' d = bfree s d"
    "last_alloc s' = (case ys of c # r \<Rightarrow> if bfree s c \<and> last_alloc s = c then b else last_alloc s
                                | [] \<Rightarrow> last_alloc s)"
    "(bsize s' b, heap_view s zs) =
       (case heap_view s ys of (c, zc, True) # r \<Rightarrow> (bsize s b + 20 + zc, r) | _ \<Rightarrow> (bsize s b, heap_view s ys))"
proof -
  have seg: "heap_seg s 0 (unat (heap_start s)) (xs @ b # ys) 0 (unat (heap_current_end s))"
    using t by (simp add: heap_tiled_def)
  have nb: "bnext s b = hd (ys @ [0])" "bnext s b \<noteq> b"
    using seg heap_seg_distinct [OF seg] by (cases ys; auto simp: heap_seg_around)+
  let ?P = "heap_tiled s' (xs @ b # zs) \<and> bfree s' b = bfree s b \<and>
    (\<forall>d \<in> set (xs @ zs). bsize s' d = bsize s d \<and> bfree s' d = bfree s d) \<and>
    last_alloc s' = (case ys of c # r \<Rightarrow> if bfree s c \<and> last_alloc s = c then b else last_alloc s
                                | [] \<Rightarrow> last_alloc s) \<and>
    (bsize s' b, heap_view s zs) =
       (case heap_view s ys of (c, zc, True) # r \<Rightarrow> (bsize s b + 20 + zc, r) | _ \<Rightarrow> (bsize s b, heap_view s ys))"
  have ?P
  proof (cases "ys \<noteq> [] \<and> bfree s (hd ys)")
    case True
    then obtain c r where ys: "ys = c # r" "bfree s c" by (cases ys) auto
    have c0: "c \<noteq> 0" using heap_tiled_block(3) [OF t, of c] ys by simp
    let ?s1 = "if last_alloc s = c then s\<lparr>last_alloc := b\<rparr> else s"
    have t1: "heap_tiled ?s1 (xs @ b # c # r)" using t ys by simp
    have e: "s' = heap_absorb b c ?s1"
      using nb c0 ys by (simp add: s' heap_merge_next_absorb)
    note R = heap_absorb_result [OF t1 e]
    show ?thesis using R ys by (auto simp: zs_def)
  next
    case False
    then have "s' = s" using nb by (cases ys) (auto simp: s' heap_merge_next_absorb)
    moreover have "zs = ys" using False by (cases ys) (auto simp: zs_def)
    ultimately show ?thesis using t False by (cases ys) auto
  qed
  then show "heap_tiled s' (xs @ b # zs)" "bfree s' b = bfree s b"
    "\<And>d. d \<in> set (xs @ zs) \<Longrightarrow> bsize s' d = bsize s d \<and> bfree s' d = bfree s d"
    "last_alloc s' = (case ys of c # r \<Rightarrow> if bfree s c \<and> last_alloc s = c then b else last_alloc s
                                | [] \<Rightarrow> last_alloc s)"
    "(bsize s' b, heap_view s zs) =
       (case heap_view s ys of (c, zc, True) # r \<Rightarrow> (bsize s b + 20 + zc, r) | _ \<Rightarrow> (bsize s b, heap_view s ys))"
    by blast+
qed

lemma set_free_same [simp]:
  "bsize (set_free b v s) d = bsize s d" "bfree (set_free b v s) d \<longleftrightarrow> (if d = b then v \<noteq> 0 else bfree s d)"
  "hb_magic (blocks (set_free b v s) d) = hb_magic (blocks s d)"
  by (simp_all add: set_free_def)

lemma heap_view_set_free: "b \<notin> set bs \<Longrightarrow> heap_view (set_free b v s) bs = heap_view s bs"
  by (intro heap_view_cong) auto

text \<open>The cursor is left on a block that has been swallowed exactly in these cases.\<close>

definition stale_cursor :: "'a heap_state_scheme \<Rightarrow> u32 list \<Rightarrow> u32 \<Rightarrow> u32 list \<Rightarrow> bool" where
  "stale_cursor s xs b ys \<longleftrightarrow> xs \<noteq> [] \<and> bfree s (last xs) \<and>
     (last_alloc s = last xs \<or> last_alloc s = b \<or> ys \<noteq> [] \<and> bfree s (hd ys) \<and> last_alloc s = hd ys)"

text \<open>C11: releasing a block in use makes exactly that block free and joins it with its free
  neighbours; the blocks still tile the heap and every other block is as it was. The
  cursor stays on a block of the heap unless the backward merge swallows it
  or moves it: then it points at a header inside a free block.\<close>

theorem mem_free_coalesces:
  assumes "heap_tiled s (xs @ b # ys)" "\<not> bfree s b" "last_alloc s \<in> set (xs @ b # ys)"
  shows "\<exists>bs'. heap_tiled (mem_free (b + 20) s) bs' \<and>
    heap_view (mem_free (b + 20) s) bs' = view_release (heap_view s xs) b (bsize s b) (heap_view s ys) \<and>
    (last_alloc (mem_free (b + 20) s) \<in> set bs' \<longleftrightarrow> \<not> stale_cursor s xs b ys)"
proof -
  let ?s0 = "set_free b 1 s" and ?s' = "mem_free (b + 20) s"
  let ?s1 = "heap_merge_next b ?s0"
  define zs where "zs = (case ys of c # r \<Rightarrow> if bfree ?s0 c then r else ys | [] \<Rightarrow> [])"
  have seg: "heap_seg s 0 (unat (heap_start s)) (xs @ b # ys) 0 (unat (heap_current_end s))"
    using assms(1) by (simp add: heap_tiled_def)
  note N = heap_seg_around_notin [OF seg]
  have b: "b \<noteq> 0" "hb_magic (blocks s b) = HEAP_MAGIC" "24 \<le> unat b"
    using heap_tiled_block [OF assms(1), of b] by auto
  have ptr: "b + 20 \<noteq> 0" "b + 20 - HEADER = b"
  proof -
    have "unat (b + 20) = unat b + 20"
      using heap_tiled_block(2) [OF assms(1), of b] by (subst unat_add_no_wrap) simp_all
    then show "b + 20 \<noteq> 0" by auto
    show "b + 20 - HEADER = b" by (simp add: HEADER_def)
  qed
  have t0: "heap_tiled ?s0 (xs @ b # ys)" using assms(1) by simp
  note M = heap_merge_next_result [OF t0 refl, folded zs_def]
  have seg1: "heap_seg ?s1 0 (unat (heap_start ?s1)) (xs @ b # zs) 0 (unat (heap_current_end ?s1))"
    using M(1) by (simp add: heap_tiled_def)
  have N1: "b \<notin> set xs" "b \<notin> set zs" using heap_seg_around_notin [OF seg1] by auto
  have pb: "bprev ?s1 b = last (0 # xs)" using seg1 by (simp add: heap_seg_around)
  then have pnb: "bprev ?s1 b \<noteq> b" using N1 b(1) by (cases xs rule: rev_cases) auto
  have s': "?s' = heap_merge_prev b ?s1"
    using ptr b(2) assms(2) by (simp add: mem_free_def Let_def)
  have la: "last_alloc s \<in> set xs \<or> last_alloc s = b \<or> last_alloc s \<in> set ys" using assms(3) by auto
  have Hys: "bfree ?s0 c = bfree s c" if "c \<in> set ys" for c using that N by auto
  have vys: "heap_view ?s0 ys = heap_view s ys" "heap_view ?s0 xs = heap_view s xs"
    using N by (auto intro: heap_view_set_free)
  have view1: "heap_view ?s1 xs = heap_view s xs" "heap_view ?s1 zs = heap_view ?s0 zs"
    using M(3) vys by (auto intro!: heap_view_cong simp: heap_view_def)
  have M5: "(bsize ?s1 b, heap_view ?s1 zs) =
       (case heap_view s ys of (c, zc, True) # r \<Rightarrow> (bsize s b + 20 + zc, r) | _ \<Rightarrow> (bsize s b, heap_view s ys))"
    using M(5) unfolding view1 vys set_free_same .
  have fb: "bfree ?s1 b" using M(2) by simp
  have cur1: "last_alloc ?s1 \<in> set (xs @ b # zs)"
    using la M(4) Hys by (cases ys) (auto simp: zs_def)
  show ?thesis
  proof (cases "xs \<noteq> [] \<and> bfree s (last xs)")
    case False
    have "?s' = ?s1"
    proof (cases xs rule: rev_cases)
      case Nil
      then show ?thesis using pb pnb by (simp add: s' heap_merge_prev_absorb)
    next
      case (snoc ws a)
      then have "\<not> bfree ?s1 a" using False M(3) [of a] N by auto
      then show ?thesis using pb pnb snoc by (simp add: s' heap_merge_prev_absorb)
    qed
    moreover have "heap_view ?s1 (xs @ b # zs) = view_release (heap_view s xs) b (bsize s b) (heap_view s ys)"
    proof -
      have "\<not> (heap_view s xs \<noteq> [] \<and> snd (snd (last (heap_view s xs))))"
        using False by (cases xs rule: rev_cases) auto
      then have "view_release (heap_view s xs) b (bsize s b) (heap_view s ys)
          = heap_view s xs @ (b, bsize ?s1 b, True) # heap_view ?s1 zs"
        unfolding view_release_def M5 [symmetric] by (simp only: Let_def split if_False)
      then show ?thesis using fb by (simp add: view1)
    qed
    moreover have "\<not> stale_cursor s xs b ys" using False by (auto simp: stale_cursor_def)
    ultimately show ?thesis using M(1) cur1 by (intro exI [of _ "xs @ b # zs"]) simp
  next
    case True
    then obtain ws a where xs: "xs = ws @ [a]" and fa: "bfree s a" by (cases xs rule: rev_cases) auto
    have Na: "a \<noteq> b" "a \<notin> set ws" "a \<notin> set zs" "b \<notin> set ws"
      using heap_seg_distinct [OF seg1] by (auto simp: xs)
    have a0: "a \<noteq> 0" using heap_tiled_block(3) [OF assms(1), of a] xs by simp
    have A1: "bfree ?s1 a" "bsize ?s1 a = bsize s a" using M(3) [of a] Na fa by (auto simp: xs)
    let ?s2 = "if last_alloc ?s1 = a then ?s1\<lparr>last_alloc := b\<rparr> else ?s1"
    have t2: "heap_tiled ?s2 (ws @ a # b # zs)" using M(1) by (simp add: xs)
    have e: "?s' = heap_absorb a b ?s2"
      using pb pnb a0 A1 by (simp add: s' heap_merge_prev_absorb xs)
    note R = heap_absorb_result [OF t2 e]
    have "heap_view ?s' ws = heap_view s ws" "heap_view ?s' zs = heap_view ?s1 zs"
    proof -
      have "bsize ?s' d = bsize ?s1 d \<and> bfree ?s' d = bfree ?s1 d" if "d \<in> set (ws @ zs)" for d
        using R(4) [OF that] by (simp split: if_splits)
      then have "heap_view ?s' ws = heap_view ?s1 ws" "heap_view ?s' zs = heap_view ?s1 zs"
        by (intro heap_view_cong; simp)+
      moreover have "heap_view ?s1 ws = heap_view s ws" using view1(1) by (simp add: xs)
      ultimately show "heap_view ?s' ws = heap_view s ws" "heap_view ?s' zs = heap_view ?s1 zs" by simp_all
    qed
    moreover have "bsize ?s' a = bsize s a + 20 + bsize ?s1 b" "bfree ?s' a"
      using R(2,3) A1 by auto
    ultimately have v: "heap_view ?s' (ws @ a # zs) = view_release (heap_view s xs) b (bsize s b) (heap_view s ys)"
      using fa unfolding view_release_def M5 [symmetric] by (simp add: xs Let_def)
    have c: "last_alloc ?s' = (if last_alloc ?s1 = a then b else last_alloc ?s1)"
      using R(5) by simp
    have "last_alloc ?s' \<in> set (ws @ a # zs) \<longleftrightarrow> last_alloc ?s1 \<noteq> a \<and> last_alloc ?s1 \<noteq> b"
      using c cur1 Na N1 by (auto simp: xs)
    moreover have "stale_cursor s xs b ys \<longleftrightarrow> last_alloc ?s1 = a \<or> last_alloc ?s1 = b"
      using M(4) Hys fa N by (cases ys) (auto simp: stale_cursor_def xs)
    ultimately show ?thesis using R(1) v by (intro exI [of _ "ws @ a # zs"]) auto
  qed
qed

section \<open>Runs of the heap\<close>

lemma heap_initialize_tiled:
  fixes s :: "'a heap_state_scheme"
  assumes "24 \<le> unat start_addr" "unat start_addr + unat sz < 2 ^ 32" "20 \<le> unat sz"
  defines "s' \<equiv> heap_initialize start_addr sz s"
  shows "heap_tiled s' [start_addr]" "last_alloc s' = start_addr"
    "heap_view s' [start_addr] = [(start_addr, sz - 20, True)]"
proof -
  have "unat (start_addr + sz) = unat start_addr + unat sz"
    using assms(2) by (subst unat_add_no_wrap) simp_all
  moreover have "unat (sz - HEADER) = unat sz - 20"
    using assms(3) by (subst unat_sub_le) (simp_all add: HEADER_def)
  moreover have "start_addr \<noteq> 0" using assms(1) by auto
  ultimately show "heap_tiled s' [start_addr]" using assms(1,3)
    by (simp add: s'_def heap_initialize_def heap_tiled_def)
  show "last_alloc s' = start_addr" "heap_view s' [start_addr] = [(start_addr, sz - 20, True)]"
    by (simp_all add: s'_def heap_initialize_def HEADER_def)
qed

definition boot_heap :: "heap_state" where
  "boot_heap = heap_initialize 0x600000 0x100000
     \<lparr>pmm_bitmap = 0x200000, pmm_words = (\<lambda>i. 7), pmm_max_blocks = 64,
      kernel_directory = 0x1000, cr3 = 0x1000, paging = True, page_fault_registered = True,
      mem = (\<lambda>a. 0), blocks = (\<lambda>a. \<lparr>hb_magic = 0, hb_size = 0, hb_is_free = 0, hb_next = 0, hb_prev = 0\<rparr>),
      payload = (\<lambda>a. 0), heap_start = 0, heap_current_end = 0, last_alloc = 0\<rparr>"

lemma boot_heap_tiled: "heap_tiled boot_heap [0x600000]"
  unfolding boot_heap_def by (rule heap_initialize_tiled(1)) simp_all

lemma boot_heap_fields:
  "last_alloc boot_heap = 0x600000" "heap_current_end boot_heap = 0x700000"
  "bfree boot_heap 0x600000" "bsize boot_heap 0x600000 = 0xFFFEC"
  by (simp_all add: boot_heap_def heap_initialize_def HEADER_def)

lemma form_size_100: "form_size 100 = 100"
  by (simp add: form_size_def)



theorem mem_free_coalesces_witness:
  "\<exists>s1. mem_alloc 100 boot_heap = Some (0x600014, s1) \<and>
     (\<exists>bs'. heap_tiled (mem_free (0x600000 + 20) s1) bs' \<and>
        heap_view (mem_free (0x600000 + 20) s1) bs' = [(0x600000, 0xFFFEC, True)])"
proof -
  obtain s1 bs where r: "mem_alloc 100 boot_heap = Some (0x600014, s1)" "heap_tiled s1 bs" "last_alloc s1 \<in> set bs"
    "heap_view s1 bs = [(0x600000, 100, False), (0x600078, 0xFFF74, True)]"
    using mem_alloc_found [of boot_heap "[0x600000]" 100] boot_heap_tiled
    by (fastforce simp: rotate_to_def heap_fits_def form_size_100 boot_heap_fields)
  have bs: "bs = [0x600000, 0x600078]"
    using r(4) by (auto simp: heap_view_def)
  from mem_free_coalesces [of s1 "[]" "0x600000" "[0x600078]"] r show ?thesis
    by (auto simp: bs view_release_def)
qed

text \<open>One step of the search, and an allocation that finds its block at once.\<close>

lemma heap_search_found: "c \<noteq> 0 \<Longrightarrow> heap_fits f s c \<Longrightarrow> heap_search f c w s = Some (Some c)"
  by (subst heap_search.simps) simp

lemma heap_search_next:
  "c \<noteq> 0 \<Longrightarrow> \<not> heap_fits f s c \<Longrightarrow> bnext s c = n \<Longrightarrow> n \<noteq> 0 \<Longrightarrow> \<not> w \<or> n \<noteq> last_alloc s \<Longrightarrow>
     heap_search f c w s = heap_search f n w s"
  by (subst heap_search.simps) (auto simp: Let_def)

lemma heap_search_wrap:
  "c \<noteq> 0 \<Longrightarrow> \<not> heap_fits f s c \<Longrightarrow> bnext s c = 0 \<Longrightarrow> heap_start s \<noteq> last_alloc s \<Longrightarrow>
     heap_search f c False s = heap_search f (heap_start s) True s"
  by (subst heap_search.simps) (simp add: Let_def)

lemma mem_alloc_eval:
  "heap_search (form_size sz) (last_alloc s) False s = Some (Some b) \<Longrightarrow>
     mem_alloc sz s = Some (heap_take (form_size sz) b s)"
  by (subst mem_alloc.simps) simp

text \<open>Five allocations and two releases on a small heap.\<close>

definition stale_cursor_run :: "'a heap_state_scheme \<Rightarrow> (u32 \<times> u32 \<times> 'a heap_state_scheme) option" where
  "stale_cursor_run s = do {
     (a, s1) \<leftarrow> mem_alloc 16 s;
     (b, s2) \<leftarrow> mem_alloc 16 s1;
     (c, s3) \<leftarrow> mem_alloc 164 s2;
     (p, s4) \<leftarrow> mem_alloc 16 (mem_free b (mem_free a s3));
     (q, s5) \<leftarrow> mem_alloc 40 s4;
     Some (p, q, s5)
   }"

abbreviation hblock :: "u32 \<Rightarrow> u8 \<Rightarrow> u32 \<Rightarrow> u32 \<Rightarrow> heap_block" where
  "hblock z f n p \<equiv> \<lparr>hb_magic = HEAP_MAGIC, hb_size = z, hb_is_free = f, hb_next = n, hb_prev = p\<rparr>"

definition run_state ::
  "'a heap_state_scheme \<Rightarrow> u32 \<Rightarrow> heap_block \<Rightarrow> heap_block \<Rightarrow> heap_block \<Rightarrow> bool" where
  "run_state s l x y z \<longleftrightarrow> heap_start s = 0x600000 \<and> last_alloc s = l \<and>
     blocks s 0x600000 = x \<and> blocks s 0x600024 = y \<and> blocks s 0x600048 = z"

lemmas run_simps = heap_search_found heap_fits_def form_size_def heap_take_def heap_split_def
  HEADER_def heap_set_defs run_state_def

lemma run1:
  "\<exists>s1 z. mem_alloc 16 (heap_initialize 0x600000 0x100 s) = Some (0x600014, s1) \<and>
     run_state s1 0x600024 (hblock 16 0 0x600024 0) (hblock 200 1 0 0x600000) z"
  by (subst mem_alloc_eval [where b = "0x600000"])
    (simp_all add: heap_initialize_def run_simps Let_def)

lemma run2: "run_state s1 0x600024 (hblock 16 0 0x600024 0) (hblock 200 1 0 0x600000) z \<Longrightarrow>
   \<exists>s2. mem_alloc 16 s1 = Some (0x600038, s2) \<and>
     run_state s2 0x600048 (hblock 16 0 0x600024 0) (hblock 16 0 0x600048 0x600000) (hblock 164 1 0 0x600024)"
  by (subst mem_alloc_eval [where b = "0x600024"]) (simp_all add: run_simps Let_def)

lemma run3: "run_state s2 0x600048 (hblock 16 0 0x600024 0) (hblock 16 0 0x600048 0x600000) (hblock 164 1 0 0x600024) \<Longrightarrow>
   \<exists>s3. mem_alloc 164 s2 = Some (0x60005C, s3) \<and>
     run_state s3 0x600000 (hblock 16 0 0x600024 0) (hblock 16 0 0x600048 0x600000) (hblock 164 0 0 0x600024)"
  by (subst mem_alloc_eval [where b = "0x600048"]) (simp_all add: run_simps Let_def)

lemma run4: "run_state s3 0x600000 (hblock 16 0 0x600024 0) (hblock 16 0 0x600048 0x600000) (hblock 164 0 0 0x600024) \<Longrightarrow>
   run_state (mem_free 0x600014 s3) 0x600000
     (hblock 16 1 0x600024 0) (hblock 16 0 0x600048 0x600000) (hblock 164 0 0 0x600024)"
  by (simp add: mem_free_def heap_merge_next_def heap_merge_prev_def run_simps)

lemma run5: "run_state s3 0x600000 (hblock 16 1 0x600024 0) (hblock 16 0 0x600048 0x600000) (hblock 164 0 0 0x600024) \<Longrightarrow>
   run_state (mem_free 0x600038 s3) 0x600024
     (hblock 52 1 0x600048 0) (hblock 16 1 0x600048 0x600000) (hblock 164 0 0 0x600000)"
proof -
  assume s: "run_state s3 0x600000 (hblock 16 1 0x600024 0) (hblock 16 0 0x600048 0x600000) (hblock 164 0 0 0x600024)"
  let ?s = "set_free 0x600024 1 s3"
  have a: "mem_free 0x600038 s3 = heap_merge_prev 0x600024 (heap_merge_next 0x600024 ?s)"
    using s by (simp add: mem_free_def HEADER_def run_state_def)
  have b: "heap_merge_next 0x600024 ?s = ?s"
    using s by (simp add: heap_merge_next_def run_state_def set_free_def)
  have c: "heap_merge_prev 0x600024 ?s = heap_absorb 0x600000 0x600024 (?s\<lparr>last_alloc := 0x600024\<rparr>)"
    using s by (subst heap_merge_prev_absorb) (simp_all add: run_state_def set_free_def)
  show ?thesis
    unfolding a b c using s
    by (simp add: heap_absorb_def heap_set_defs run_state_def HEADER_def)
qed

lemma run6: "run_state s4 0x600024 (hblock 52 1 0x600048 0) (hblock 16 1 0x600048 0x600000) (hblock 164 0 0 0x600000) \<Longrightarrow>
   \<exists>s5. mem_alloc 16 s4 = Some (0x600038, s5) \<and>
     run_state s5 0x600048 (hblock 52 1 0x600048 0) (hblock 16 0 0x600048 0x600000) (hblock 164 0 0 0x600000)"
  by (subst mem_alloc_eval [where b = "0x600024"]) (simp_all add: run_simps Let_def)

lemma run7: "run_state s5 0x600048 (hblock 52 1 0x600048 0) (hblock 16 0 0x600048 0x600000) (hblock 164 0 0 0x600000) \<Longrightarrow>
   \<exists>s6. mem_alloc 40 s5 = Some (0x600014, s6) \<and>
     run_state s6 0x600048 (hblock 52 0 0x600048 0) (hblock 16 0 0x600048 0x600000) (hblock 164 0 0 0x600000)"
  by (subst mem_alloc_eval [where b = "0x600000"], subst heap_search_wrap)
    (simp_all add: run_simps Let_def)

text \<open>C12: a stale cursor makes the heap hand out the same memory twice. After three
  allocations that fill a heap, releasing the first two and allocating 16 and 40 bytes, both results
  are in use, and the 16 bytes of the one lie inside the 40 bytes of the other.\<close>

theorem stale_cursor_overlap:
  "\<exists>p q s'. stale_cursor_run (heap_initialize 0x600000 0x100 s) = Some (p, q, s') \<and>
     \<not> bfree s' (p - 20) \<and> \<not> bfree s' (q - 20) \<and> bsize s' (p - 20) = 16 \<and> 40 \<le> bsize s' (q - 20) \<and>
     q < p \<and> unat p + 16 \<le> unat q + unat (bsize s' (q - 20))"
proof -
  obtain s1 z where 1: "mem_alloc 16 (heap_initialize 0x600000 0x100 s) = Some (0x600014, s1)"
    "run_state s1 0x600024 (hblock 16 0 0x600024 0) (hblock 200 1 0 0x600000) z"
    using run1 by blast
  from run2 [OF 1(2)] obtain s2 where 2: "mem_alloc 16 s1 = Some (0x600038, s2)"
    "run_state s2 0x600048 (hblock 16 0 0x600024 0) (hblock 16 0 0x600048 0x600000) (hblock 164 1 0 0x600024)"
    by blast
  from run3 [OF 2(2)] obtain s3 where 3: "mem_alloc 164 s2 = Some (0x60005C, s3)"
    "run_state s3 0x600000 (hblock 16 0 0x600024 0) (hblock 16 0 0x600048 0x600000) (hblock 164 0 0 0x600024)"
    by blast
  from run6 [OF run5 [OF run4 [OF 3(2)]]] obtain s5 where
    5: "mem_alloc 16 (mem_free 0x600038 (mem_free 0x600014 s3)) = Some (0x600038, s5)"
    "run_state s5 0x600048 (hblock 52 1 0x600048 0) (hblock 16 0 0x600048 0x600000) (hblock 164 0 0 0x600000)"
    by blast
  from run7 [OF 5(2)] obtain s6 where 6: "mem_alloc 40 s5 = Some (0x600014, s6)"
    "run_state s6 0x600048 (hblock 52 0 0x600048 0) (hblock 16 0 0x600048 0x600000) (hblock 164 0 0 0x600000)"
    by blast
  show ?thesis using 1(1) 2(1) 3(1) 5(1) 6
    by (simp add: stale_cursor_run_def run_state_def)
qed

end
