(* ===== verification/Cstring.thy ===== *)
theory Cstring
  imports Meow_Prelude
begin

text \<open>
  The C strings of the kernel: \<open>src/kernel/lib/string/string.c\<close>, \<open>itoa.c\<close>, \<open>atoi.c\<close> and
  \<open>src/kernel/lib/path/resolve_path.c\<close>. A \<open>char *\<close> that is only read is the list of the bytes
  from it on; the end of the list reads as the terminating zero, and so does a zero
  byte. A buffer that is written is a list whose length is its capacity, and a write
  outside of it gives \<open>None\<close>.
\<close>

section \<open>Reading\<close>

type_synonym cstr = "u8 list"

text \<open>\<open>*s\<close> and the bytes before the terminator.\<close>

definition deref :: "cstr \<Rightarrow> u8" where
  "deref s = (case s of [] \<Rightarrow> 0 | c # cs \<Rightarrow> c)"

definition content :: "cstr \<Rightarrow> u8 list" where
  "content s = takeWhile (\<lambda>c. c \<noteq> 0) s"

fun strlen :: "cstr \<Rightarrow> nat" where
  "strlen [] = 0"
| "strlen (c # cs) = (if c \<noteq> 0 then Suc (strlen cs) else 0)"

fun strcmp :: "cstr \<Rightarrow> cstr \<Rightarrow> int" where
  "strcmp [] t = 0 - uint (deref t)"
| "strcmp (c # cs) t =
     (if c \<noteq> 0 \<and> c = deref t then strcmp cs (tl t) else uint c - uint (deref t))"

definition to_lower :: "u8 \<Rightarrow> u8" where
  "to_lower c = (if 65 \<le> c \<and> c \<le> 90 then c + 32 else c)"

fun strcasecmp :: "cstr \<Rightarrow> cstr \<Rightarrow> int" where
  "strcasecmp [] t = 0 - uint (to_lower (deref t))"
| "strcasecmp (c # cs) t =
     (let c1 = to_lower c; c2 = to_lower (deref t)
      in if c1 \<noteq> 0 \<and> c1 = c2 then strcasecmp cs (tl t) else uint c1 - uint c2)"

fun strchr :: "cstr \<Rightarrow> u8 \<Rightarrow> cstr option" where
  "strchr [] c = (if c = 0 then Some [] else None)"
| "strchr (x # xs) c =
     (if x \<noteq> 0 then (if x = c then Some (x # xs) else strchr xs c)
      else if c = 0 then Some (x # xs) else None)"

fun strrchr_from :: "cstr \<Rightarrow> u8 \<Rightarrow> cstr option \<Rightarrow> cstr option" where
  "strrchr_from [] c found = (if c = 0 then Some [] else found)"
| "strrchr_from (x # xs) c found =
     (let found' = (if x = c then Some (x # xs) else found)
      in if x \<noteq> 0 then strrchr_from xs c found' else found')"

definition strrchr :: "cstr \<Rightarrow> u8 \<Rightarrow> cstr option" where
  "strrchr s c = strrchr_from s c None"

text \<open>The inner loop of \<open>strstr\<close>: whether the needle is used up.\<close>

fun strstr_at :: "cstr \<Rightarrow> cstr \<Rightarrow> bool" where
  "strstr_at h [] = True"
| "strstr_at h (n # ns) =
     (if deref h \<noteq> 0 \<and> n \<noteq> 0 \<and> deref h = n then strstr_at (tl h) ns else n = 0)"

fun strstr_from :: "cstr \<Rightarrow> cstr \<Rightarrow> cstr option" where
  "strstr_from [] needle = None"
| "strstr_from (x # xs) needle =
     (if x \<noteq> 0 then (if strstr_at (x # xs) needle then Some (x # xs) else strstr_from xs needle)
      else None)"

definition strstr :: "cstr \<Rightarrow> cstr \<Rightarrow> cstr option" where
  "strstr haystack needle =
     (if deref needle = 0 then Some haystack else strstr_from haystack needle)"

fun memcmp :: "u8 list \<Rightarrow> u8 list \<Rightarrow> nat \<Rightarrow> int" where
  "memcmp p1 p2 0 = 0"
| "memcmp p1 p2 (Suc n) =
     (if deref p1 \<noteq> deref p2 then uint (deref p1) - uint (deref p2) else memcmp (tl p1) (tl p2) n)"

fun strncmp :: "cstr \<Rightarrow> cstr \<Rightarrow> nat \<Rightarrow> int" where
  "strncmp s t 0 = 0"
| "strncmp s t (Suc n) =
     (if deref s \<noteq> 0 \<and> deref s = deref t then strncmp (tl s) (tl t) n
      else uint (deref s) - uint (deref t))"

text \<open>
  \<open>strtok\<close> with its static \<open>last_str\<close> as the last argument and result. A token is the
  string up to the zero byte that replaces the delimiter.
\<close>

fun is_delim :: "u8 \<Rightarrow> cstr \<Rightarrow> bool" where
  "is_delim c [] = False"
| "is_delim c (d # ds) = (if d \<noteq> 0 then (if c = d then True else is_delim c ds) else False)"

fun skip_delims :: "cstr \<Rightarrow> cstr \<Rightarrow> cstr" where
  "skip_delims delimiters [] = []"
| "skip_delims delimiters (c # cs) =
     (if c \<noteq> 0 \<and> is_delim c delimiters then skip_delims delimiters cs else c # cs)"

fun take_token :: "cstr \<Rightarrow> cstr \<Rightarrow> u8 list \<times> cstr" where
  "take_token delimiters [] = ([], [])"
| "take_token delimiters (c # cs) =
     (if c = 0 then ([], c # cs)
      else if is_delim c delimiters then ([], cs)
      else (case take_token delimiters cs of (t, r) \<Rightarrow> (c # t, r)))"

definition strtok :: "cstr option \<Rightarrow> cstr \<Rightarrow> cstr option \<Rightarrow> u8 list option \<times> cstr option" where
  "strtok str delimiters last_str =
     (let last_str = (case str of Some s \<Rightarrow> Some s | None \<Rightarrow> last_str)
      in case last_str of
           None \<Rightarrow> (None, None)
         | Some s \<Rightarrow>
             if deref s = 0 then (None, last_str)
             else let token_start = skip_delims delimiters s
                  in if deref token_start = 0 then (None, None)
                     else (case take_token delimiters token_start of (t, r) \<Rightarrow> (Some t, Some r)))"

section \<open>Writing\<close>

definition put :: "'a list \<Rightarrow> nat \<Rightarrow> 'a \<Rightarrow> 'a list option" where
  "put buf i v = (if i < length buf then Some (buf[i := v]) else None)"

fun strcpy_at :: "u8 list \<Rightarrow> nat \<Rightarrow> cstr \<Rightarrow> u8 list option" where
  "strcpy_at dest i [] = put dest i 0"
| "strcpy_at dest i (c # cs) =
     (if c \<noteq> 0 then Option.bind (put dest i c) (\<lambda>d. strcpy_at d (Suc i) cs) else put dest i 0)"

definition strcpy :: "u8 list \<Rightarrow> cstr \<Rightarrow> u8 list option" where
  "strcpy dest src = strcpy_at dest 0 src"

fun strncpy_at :: "u8 list \<Rightarrow> nat \<Rightarrow> cstr \<Rightarrow> nat \<Rightarrow> u8 list option" where
  "strncpy_at dest i src 0 = Some dest"
| "strncpy_at dest i src (Suc n) =
     Option.bind (put dest i (deref src))
       (\<lambda>d. strncpy_at d (Suc i) (if deref src \<noteq> 0 then tl src else src) n)"

definition strncpy :: "u8 list \<Rightarrow> cstr \<Rightarrow> nat \<Rightarrow> u8 list option" where
  "strncpy dest src n = strncpy_at dest 0 src n"

definition strcat :: "u8 list \<Rightarrow> cstr \<Rightarrow> u8 list option" where
  "strcat dest src = strcpy_at dest (strlen dest) src"

fun memset :: "u8 list \<Rightarrow> nat \<Rightarrow> u8 \<Rightarrow> nat \<Rightarrow> u8 list option" where
  "memset p i v 0 = Some p"
| "memset p i v (Suc num) = Option.bind (put p i v) (\<lambda>d. memset d (Suc i) v num)"

fun memcpy :: "u8 list \<Rightarrow> nat \<Rightarrow> u8 list \<Rightarrow> nat \<Rightarrow> u8 list option" where
  "memcpy dest i src 0 = Some dest"
| "memcpy dest i src (Suc num) = Option.bind (put dest i (deref src)) (\<lambda>d. memcpy d (Suc i) (tl src) num)"

section \<open>Numbers\<close>

definition digits :: "u8 list" where
  "digits = [48, 49, 50, 51, 52, 53, 54, 55, 56, 57, 65, 66, 67, 68, 69, 70]"

text \<open>The loop that writes the digits, lowest first; \<open>None\<close> for a base it cannot divide by or
  index with, and for base 1, where it never ends.\<close>

partial_function (option) digit_loop :: "u32 \<Rightarrow> u32 \<Rightarrow> u8 list \<Rightarrow> u8 list option" where
  "digit_loop n base buf =
     (if n = 0 then Some buf
      else if base = 0 \<or> 16 \<le> unat (n mod base) then None
      else digit_loop (n div base) base (buf @ [digits ! unat (n mod base)]))"

text \<open>The loop that reverses the buffer in place.\<close>

function reverse_loop :: "'a list \<Rightarrow> nat \<Rightarrow> nat \<Rightarrow> 'a list" where
  "reverse_loop buf i j =
     (if i < j then reverse_loop (buf[i := buf ! j, j := buf ! i]) (i + 1) (j - 1) else buf)"
  by pat_completeness auto
termination by (relation "measure (\<lambda>(buf, i, j). j - i)") auto

definition itoa :: "u32 \<Rightarrow> u32 \<Rightarrow> cstr option" where
  "itoa n base =
     (if n = 0 then Some [48]
      else let is_negative = (sint n < 0 \<and> base = 10);
               n = (if is_negative then - n else n)
           in do {
             buf \<leftarrow> digit_loop n base [];
             let buf = (if is_negative then buf @ [45] else buf);
             Some (reverse_loop buf 0 (length buf - 1))
           })"

definition utoa :: "u32 \<Rightarrow> u32 \<Rightarrow> cstr option" where
  "utoa n base =
     (if n = 0 then Some [48]
      else do {
        buf \<leftarrow> digit_loop n base [];
        Some (reverse_loop buf 0 (length buf - 1))
      })"

fun skip_space :: "cstr \<Rightarrow> cstr" where
  "skip_space [] = []"
| "skip_space (c # cs) = (if c = 32 \<or> c \<in> {9, 10, 11, 12, 13} then skip_space cs else c # cs)"

fun atoi_digits :: "cstr \<Rightarrow> u32 \<Rightarrow> u32" where
  "atoi_digits [] res = res"
| "atoi_digits (c # cs) res =
     (if 48 \<le> c \<and> c \<le> 57 then atoi_digits cs (res * 10 + (ucast c - 48)) else res)"

definition atoi :: "cstr \<Rightarrow> u32" where
  "atoi str =
     (let s = skip_space str
      in if deref s = 45 then - 1 * atoi_digits (tl s) 0
         else if deref s = 43 then 1 * atoi_digits (tl s) 0
         else 1 * atoi_digits s 0)"

text \<open>The arguments of \<open>snprintf\<close>: a string (or \<open>NULL\<close>) or a 32-bit integer.\<close>

datatype printf_arg = ArgStr "cstr option" | ArgInt u32

definition null_text :: cstr where
  "null_text = [40, 110, 117, 108, 108, 41]"

text \<open>The loops that copy a string while \<open>dest_idx < size - 1\<close>; \<open>out\<close> is what is written so far.\<close>

fun copy_bounded :: "nat \<Rightarrow> u8 list \<Rightarrow> cstr \<Rightarrow> u8 list" where
  "copy_bounded sz out [] = out"
| "copy_bounded sz out (c # cs) =
     (if c \<noteq> 0 \<and> length out < sz - 1 then copy_bounded sz (out @ [c]) cs else out)"

text \<open>One conversion; \<open>None\<close> when the argument list does not fit the format.\<close>

definition printf_conv :: "nat \<Rightarrow> u8 \<Rightarrow> printf_arg list \<Rightarrow> u8 list \<Rightarrow> (u8 list \<times> printf_arg list) option" where
  "printf_conv sz p args out =
     (if p = 115
      then (case args of
              ArgStr s # as \<Rightarrow>
                Some (copy_bounded sz out (case s of None \<Rightarrow> null_text | Some t \<Rightarrow> t), as)
            | _ \<Rightarrow> None)
      else if p = 100 \<or> p = 105 \<or> p = 117
      then (case args of
              ArgInt v # as \<Rightarrow> do { buf \<leftarrow> itoa v 10; Some (copy_bounded sz out buf, as) }
            | _ \<Rightarrow> None)
      else if p = 120 \<or> p = 88
      then (case args of
              ArgInt v # as \<Rightarrow> do { buf \<leftarrow> itoa v 16; Some (copy_bounded sz out buf, as) }
            | _ \<Rightarrow> None)
      else if p = 37 then Some (out @ [37], args)
      else Some (out, args))"

fun snprintf_loop :: "nat \<Rightarrow> cstr \<Rightarrow> printf_arg list \<Rightarrow> u8 list \<Rightarrow> u8 list option" where
  "snprintf_loop sz [] args out = Some out"
| "snprintf_loop sz (c # cs) args out =
     (if c \<noteq> 0 \<and> length out < sz - 1
      then if c \<noteq> 37 then snprintf_loop sz cs args (out @ [c])
           else (case cs of
                   [] \<Rightarrow> Some out
                 | p # ps \<Rightarrow>
                     if p = 0 then Some out
                     else do {
                       (out', args') \<leftarrow> printf_conv sz p args out;
                       snprintf_loop sz ps args' out'
                     })
      else Some out)"

text \<open>The bytes written, terminator included, and the result.\<close>

definition snprintf :: "nat \<Rightarrow> cstr \<Rightarrow> printf_arg list \<Rightarrow> (u8 list \<times> nat) option" where
  "snprintf sz format args =
     (if sz = 0 then Some ([], 0)
      else do {
        out \<leftarrow> snprintf_loop sz format args [];
        Some (out @ [0], length out)
      })"

section \<open>Numbers and back\<close>

lemma reverse_loop_eq:
  "j < length buf \<Longrightarrow> i \<le> Suc j \<Longrightarrow>
     reverse_loop buf i j = take i buf @ rev (take (Suc j - i) (drop i buf)) @ drop (Suc j) buf"
proof (induction buf i j rule: reverse_loop.induct)
  case (1 buf i j)
  show ?case
  proof (cases "i < j")
    case True
    let ?b = "buf[i := buf ! j, j := buf ! i]"
    have "reverse_loop buf i j = reverse_loop ?b (i + 1) (j - 1)" using True by simp
    also have "\<dots> = take (i + 1) ?b @ rev (take (Suc (j - 1) - (i + 1)) (drop (i + 1) ?b)) @ drop (Suc (j - 1)) ?b"
      using True 1(2) by (intro 1(1)) auto
    also have "take (i + 1) ?b = take i buf @ [buf ! j]"
      using True 1(2) by (simp add: take_Suc_conv_app_nth take_update_cancel nth_list_update)
    also have "drop (Suc (j - 1)) ?b = buf ! i # drop (Suc j) buf"
      using True 1(2) by (simp add: Cons_nth_drop_Suc [symmetric] nth_list_update drop_update_cancel)
    also have "take (Suc (j - 1) - (i + 1)) (drop (i + 1) ?b) = take (j - i - 1) (drop (i + 1) buf)"
      using True 1(2) by (intro nth_equalityI) (auto simp: nth_list_update)
    also have "(take i buf @ [buf ! j]) @ rev (take (j - i - 1) (drop (i + 1) buf)) @ buf ! i # drop (Suc j) buf
        = take i buf @ rev (take (Suc j - i) (drop i buf)) @ drop (Suc j) buf"
    proof -
      have "drop i buf = buf ! i # drop (Suc i) buf" using True 1(2) by (simp add: Cons_nth_drop_Suc)
      moreover have "take (j - i) (drop (Suc i) buf) = take (j - i - 1) (drop (Suc i) buf) @ [buf ! j]"
      proof -
        have "j - i - 1 < length (drop (Suc i) buf)" "Suc (j - i - 1) = j - i" "drop (Suc i) buf ! (j - i - 1) = buf ! j"
          using True 1(2) by auto
        then show ?thesis using take_Suc_conv_app_nth [of "j - i - 1" "drop (Suc i) buf"] by simp
      qed
      ultimately have "take (Suc j - i) (drop i buf) = buf ! i # take (j - i - 1) (drop (Suc i) buf) @ [buf ! j]"
        using True by (simp add: Suc_diff_le)
      then show ?thesis by simp
    qed
    finally show ?thesis .
  next
    case False
    with 1(3) consider "i = j" | "i = Suc j" by linarith
    then show ?thesis
    proof cases
      case 1
      then have "take (Suc j - i) (drop i buf) = [buf ! i]"
        using \<open>j < length buf\<close> by (simp add: take_Suc_conv_app_nth)
      then show ?thesis using False 1 \<open>j < length buf\<close>
        by (simp add: Cons_nth_drop_Suc)
    qed (use False in simp)
  qed
qed

lemma reverse_loop_rev: "reverse_loop buf 0 (length buf - 1) = rev buf"
  by (cases buf) (simp_all add: reverse_loop_eq del: reverse_loop.simps, simp)

text \<open>The decimal digits of a number, lowest first.\<close>

fun dec_digits :: "nat \<Rightarrow> u8 list" where
  "dec_digits n = (if n = 0 then [] else digits ! (n mod 10) # dec_digits (n div 10))"

declare dec_digits.simps [simp del]

lemma digit_nth:
  assumes "k < 10"
  shows "48 \<le> digits ! k \<and> digits ! k \<le> 57" "(ucast (digits ! k) :: u32) - 48 = of_nat k"
proof -
  have "k = 0 \<or> k = 1 \<or> k = 2 \<or> k = 3 \<or> k = 4 \<or> k = 5 \<or> k = 6 \<or> k = 7 \<or> k = 8 \<or> k = 9"
    using assms by presburger
  then show "48 \<le> digits ! k \<and> digits ! k \<le> 57" "(ucast (digits ! k) :: u32) - 48 = of_nat k"
    by (auto simp: digits_def)
qed

lemma digit_loop_dec: "digit_loop n 10 buf = Some (buf @ dec_digits (unat n))"
proof (induction "unat n" arbitrary: n buf rule: less_induct)
  case less
  show ?case
  proof (cases "n = 0")
    case True
    then show ?thesis by (subst digit_loop.simps) (simp add: dec_digits.simps)
  next
    case False
    have d: "unat (n div 10) = unat n div 10" "unat (n mod 10) = unat n mod 10"
      by (simp_all add: unat_div unat_mod)
    have "unat (n div 10) < unat n" using False by (simp add: d unat_gt_0)
    then have "digit_loop (n div 10) 10 (buf @ [digits ! (unat n mod 10)])
        = Some (buf @ digits ! (unat n mod 10) # dec_digits (unat n div 10))"
      using less by (simp add: d)
    moreover have "unat n mod 10 < 16" by (simp add: less_trans [OF mod_less_divisor])
    ultimately show ?thesis using False
      by (subst digit_loop.simps, subst dec_digits.simps) (simp add: d unat_eq_zero not_le)
  qed
qed

lemma dec_digits_range: "c \<in> set (dec_digits n) \<Longrightarrow> 48 \<le> c \<and> c \<le> 57"
proof (induction n rule: dec_digits.induct)
  case (1 n)
  then show ?case
    using digit_nth(1) [of "n mod 10"] dec_digits.simps [of n] by (auto split: if_splits)
qed

lemma atoi_digits_append:
  "(\<And>c. c \<in> set xs \<Longrightarrow> 48 \<le> c \<and> c \<le> 57) \<Longrightarrow>
     atoi_digits (xs @ ys) r = atoi_digits ys (atoi_digits xs r)"
  by (induction xs arbitrary: r) auto

lemma atoi_dec_digits: "atoi_digits (rev (dec_digits n)) 0 = of_nat n"
proof (induction n rule: dec_digits.induct)
  case (1 n)
  show ?case
  proof (cases "n = 0")
    case True then show ?thesis by (simp add: dec_digits.simps)
  next
    case False
    let ?c = "digits ! (n mod 10)"
    have r: "48 \<le> ?c \<and> ?c \<le> 57" "(ucast ?c :: u32) - 48 = of_nat (n mod 10)"
      using digit_nth [of "n mod 10"] by simp_all
    moreover have "atoi_digits (rev (dec_digits n)) 0 = atoi_digits [?c] (of_nat (n div 10))"
    proof -
      have "dec_digits n = ?c # dec_digits (n div 10)" using False by (subst dec_digits.simps) simp
      moreover have "atoi_digits (rev (dec_digits (n div 10)) @ [?c]) 0
          = atoi_digits [?c] (atoi_digits (rev (dec_digits (n div 10))) 0)"
        by (rule atoi_digits_append) (use dec_digits_range in auto)
      ultimately show ?thesis using 1 False by (simp del: atoi_digits.simps)
    qed
    moreover have "(of_nat (n div 10) * 10 + of_nat (n mod 10) :: u32) = of_nat n"
      by (metis div_mult_mod_eq of_nat_add of_nat_mult of_nat_numeral)
    ultimately show ?thesis using r by simp
  qed
qed

lemma dec_digits_nonempty: "0 < n \<Longrightarrow> dec_digits n \<noteq> []"
  by (subst dec_digits.simps) simp

lemma atoi_plain:
  assumes "0 < n" shows "atoi (rev (dec_digits n)) = of_nat n"
proof -
  obtain c cs where cs: "rev (dec_digits n) = c # cs"
    using dec_digits_nonempty [OF assms] by (cases "rev (dec_digits n)") auto
  then have "c \<in> set (dec_digits n)" by (metis list.set_intros(1) set_rev)
  then have c: "48 \<le> c" "c \<le> 57" using dec_digits_range by auto
  then have ne: "c \<noteq> 32" "c \<notin> {9, 10, 11, 12, 13}" "c \<noteq> 45" "c \<noteq> 43" by auto
  then have "skip_space (c # cs) = c # cs" by simp
  then have "atoi (c # cs) = atoi_digits (c # cs) 0"
    using ne unfolding atoi_def Let_def by (simp add: deref_def del: atoi_digits.simps)
  then show ?thesis using atoi_dec_digits [of n] cs by simp
qed

text \<open>C13: \<open>atoi\<close> reads back what \<open>itoa\<close> and \<open>utoa\<close> write in base 10, for every 32-bit value,
  the smallest negative one included.\<close>

theorem itoa_atoi_roundtrip:
  "map_option atoi (itoa n 10) = Some n \<and> map_option atoi (utoa n 10) = Some n"
proof -
  have zero: "atoi [48] = 0" by (simp add: atoi_def deref_def)
  have plain: "atoi (rev (dec_digits (unat m))) = m" if "m \<noteq> 0" for m :: u32
    using atoi_plain [of "unat m"] that by (simp add: unat_gt_0)
  have neg: "atoi (45 # rev (dec_digits (unat (- m)))) = m" for m :: u32
    using atoi_dec_digits [of "unat (- m)"] by (simp add: atoi_def deref_def)
  show ?thesis
    using plain [of n] neg [of n] zero
    by (auto simp: itoa_def utoa_def digit_loop_dec reverse_loop_rev Let_def
        simp del: reverse_loop.simps One_nat_def)
qed

section \<open>Formatting\<close>

text \<open>What a format and its arguments say, without a bound.\<close>

definition format_arg :: "u8 \<Rightarrow> printf_arg list \<Rightarrow> (u8 list \<times> printf_arg list) option" where
  "format_arg p args =
     (if p = 115
      then (case args of ArgStr s # as \<Rightarrow> Some (content (case s of None \<Rightarrow> null_text | Some t \<Rightarrow> t), as)
                       | _ \<Rightarrow> None)
      else if p \<in> {100, 105, 117}
      then (case args of ArgInt v # as \<Rightarrow> map_option (\<lambda>b. (content b, as)) (itoa v 10) | _ \<Rightarrow> None)
      else if p \<in> {120, 88}
      then (case args of ArgInt v # as \<Rightarrow> map_option (\<lambda>b. (content b, as)) (itoa v 16) | _ \<Rightarrow> None)
      else if p = 37 then Some ([37], args)
      else Some ([], args))"

fun format_all :: "cstr \<Rightarrow> printf_arg list \<Rightarrow> u8 list option" where
  "format_all [] args = Some []"
| "format_all (c # cs) args =
     (if c = 0 then Some []
      else if c \<noteq> 37 then map_option ((#) c) (format_all cs args)
      else (case cs of
              [] \<Rightarrow> Some []
            | p # ps \<Rightarrow>
                if p = 0 then Some []
                else (case format_arg p args of
                        None \<Rightarrow> None
                      | Some (tx, args') \<Rightarrow> map_option ((@) tx) (format_all ps args'))))"

lemma content_simps [simp]:
  "content [] = []" "content (c # cs) = (if c \<noteq> 0 then c # content cs else [])"
  by (simp_all add: content_def)

lemma strlen_content: "strlen s = length (content s)"
  by (induction s) auto

lemma copy_bounded_take:
  "length out \<le> sz - 1 \<Longrightarrow> copy_bounded sz out cs = out @ take (sz - 1 - length out) (content cs)"
proof (induction cs arbitrary: out)
  case (Cons c cs)
  show ?case
  proof (cases "c \<noteq> 0 \<and> length out < sz - 1")
    case True
    then obtain k where k: "sz - 1 - length out = Suc k" by (metis Suc_diff_Suc)
    then have "sz - 1 - length (out @ [c]) = k" by simp
    with Cons.IH [of "out @ [c]"] True k show ?thesis by simp
  next
    case False
    then show ?thesis using Cons.prems by auto
  qed
qed simp

lemma printf_conv_format:
  assumes "format_arg p args = Some (tx, args')" "length out < sz - 1"
  shows "printf_conv sz p args out = Some (out @ take (sz - 1 - length out) tx, args')"
proof -
  have one: "take (sz - 1 - length out) [37] = [37::u8]"
    using assms(2) by (cases "sz - 1 - length out") auto
  show ?thesis
    using assms one
    by (auto simp: format_arg_def printf_conv_def copy_bounded_take
        split: if_splits list.splits printf_arg.splits)
qed

lemma snprintf_loop_take:
  "format_all f args = Some full \<Longrightarrow> length out \<le> sz - 1 \<Longrightarrow>
     snprintf_loop sz f args out = Some (out @ take (sz - 1 - length out) full)"
proof (induction sz f args out arbitrary: full rule: snprintf_loop.induct)
  case (2 sz c cs args out)
  show ?case
  proof (cases "c \<noteq> 0 \<and> length out < sz - 1")
    case go: True
    then obtain k where k: "sz - 1 - length out = Suc k" by (metis Suc_diff_Suc)
    then have k': "sz - 1 - length (out @ [c]) = k" by simp
    show ?thesis
    proof (cases "c = 37")
      case False
      then obtain r where "format_all cs args = Some r" "full = c # r" using 2(3) go by auto
      with 2(1) [OF go False, of r] go False k k' show ?thesis by simp
    next
      case pct: True
      show ?thesis
      proof (cases cs)
        case Nil
        then show ?thesis using 2(3) go pct by simp
      next
        case (Cons p ps)
        show ?thesis
        proof (cases "p = 0")
          case False
          then obtain tx args' r where f: "format_arg p args = Some (tx, args')"
            "format_all ps args' = Some r" "full = tx @ r"
            using 2(3) go pct Cons by (auto split: option.splits)
          have pc: "printf_conv sz p args out = Some (out @ take (sz - 1 - length out) tx, args')"
            using printf_conv_format f(1) go by blast
          have "snprintf_loop sz ps args' (out @ take (sz - 1 - length out) tx)
              = Some ((out @ take (sz - 1 - length out) tx)
                  @ take (sz - 1 - length (out @ take (sz - 1 - length out) tx)) r)"
            using 2(2) [OF go _ Cons False pc refl] pct f(2) go by simp
          moreover have "take (sz - 1 - length out) (tx @ r) =
              take (sz - 1 - length out) tx @ take (sz - 1 - length (out @ take (sz - 1 - length out) tx)) r"
            by (cases "length tx \<le> sz - 1 - length out") auto
          ultimately show ?thesis using go pct Cons False pc f(3) by simp
        qed (use 2(3) go pct Cons in simp)
      qed
    qed
  next
    case False
    then show ?thesis using 2(3,4) by auto
  qed
qed simp

text \<open>C14: \<open>snprintf\<close> writes what the format says cut to \<open>size - 1\<close> bytes, then a zero: it
  never writes past the \<open>size\<close> bytes of the buffer, and its result is the number of bytes kept.\<close>

theorem snprintf_truncates:
  assumes "format_all format args = Some full" "0 < sz"
  shows "snprintf sz format args = Some (take (sz - 1) full @ [0], min (length full) (sz - 1)) \<and>
    length (take (sz - 1) full @ [0]) \<le> sz"
  using snprintf_loop_take [OF assms(1), of "[]" sz] assms(2)
  by (auto simp: snprintf_def min_def)

theorem snprintf_truncates_witness:
  "snprintf 6 [97, 37, 100, 33] [ArgInt 1234] = Some ([97, 49, 50, 51, 52, 0], 5)"
proof -
  have d: "dec_digits 1234 = [52, 51, 50, 49]"
    by (simp add: dec_digits.simps [of 1234] dec_digits.simps [of 123] dec_digits.simps [of 12]
        dec_digits.simps [of "Suc 0"] dec_digits.simps [of 0] digits_def)
  have "itoa 1234 10 = Some [49, 50, 51, 52]"
    by (simp add: itoa_def digit_loop_dec reverse_loop_rev Let_def d
        del: reverse_loop.simps One_nat_def)
  then have "format_all [97, 37, 100, 33] [ArgInt 1234] = Some [97, 49, 50, 51, 52, 33]"
    by (simp add: format_arg_def)
  from snprintf_truncates [OF this, of 6] show ?thesis by simp
qed

text \<open>\<open>%u\<close> goes through the signed \<open>itoa\<close>: from \<open>2 ^ 31\<close> on it prints a negative number.\<close>

lemma snprintf_unsigned_prints_sign:
  assumes "sint v < 0" "12 < sz"
  shows "\<exists>rest k. snprintf sz [37, 117] [ArgInt v] = Some (45 # rest, k)"
proof -
  have "v \<noteq> 0" using assms(1) by auto
  then have i: "itoa v 10 = Some (45 # rev (dec_digits (unat (- v))))"
    using assms(1) by (simp add: itoa_def digit_loop_dec reverse_loop_rev Let_def
        del: reverse_loop.simps One_nat_def)
  then have "format_all [37, 117] [ArgInt v] = Some (45 # content (rev (dec_digits (unat (- v)))))"
    by (simp add: format_arg_def)
  from snprintf_loop_take [OF this, of "[]" sz] assms(2) show ?thesis
    by (cases "sz - 1") (simp_all add: snprintf_def)
qed

section \<open>Searching\<close>

lemma deref_content: "deref s = (case content s of [] \<Rightarrow> 0 | c # cs \<Rightarrow> c)"
  by (cases s) (auto simp: deref_def)

lemma strstr_at_prefix: "strstr_at h n \<longleftrightarrow> take (length (content n)) (content h) = content n"
proof (induction h n rule: strstr_at.induct)
  case (2 h n ns)
  then show ?case by (cases h) (auto simp: deref_def)
qed simp

lemma strstr_from_cases:
  "case strstr_from h n of
     Some r \<Rightarrow> (\<exists>k < length (content h). r = drop k h \<and>
       take (length (content n)) (drop k (content h)) = content n \<and>
       (\<forall>j < k. take (length (content n)) (drop j (content h)) \<noteq> content n))
   | None \<Rightarrow> (\<forall>j < length (content h). take (length (content n)) (drop j (content h)) \<noteq> content n)"
proof (induction h)
  case (Cons x xs)
  show ?case
  proof (cases "x = 0")
    case False
    show ?thesis
    proof (cases "strstr_at (x # xs) n")
      case True
      then show ?thesis using False by (auto simp: strstr_at_prefix)
    next
      case no: False
      then have n0: "take (length (content n)) (x # content xs) \<noteq> content n"
        using False by (simp add: strstr_at_prefix)
      show ?thesis
      proof (cases "strstr_from xs n")
        case None
        then have "take (length (content n)) (drop j (x # content xs)) \<noteq> content n"
          if "j < Suc (length (content xs))" for j
          using Cons n0 that by (cases j) auto
        then show ?thesis using None False no by auto
      next
        case (Some r)
        then obtain k where k: "k < length (content xs)" "r = drop k xs"
          "take (length (content n)) (drop k (content xs)) = content n"
          "\<forall>j < k. take (length (content n)) (drop j (content xs)) \<noteq> content n"
          using Cons by auto
        have "take (length (content n)) (drop j (x # content xs)) \<noteq> content n" if "j < Suc k" for j
          using n0 k(4) that by (cases j) auto
        with k Some False no show ?thesis by (auto intro!: exI [of _ "Suc k"])
      qed
    qed
  qed simp
qed simp

text \<open>\<open>strstr\<close> returns the first occurrence of the needle: the suffix of the haystack at the
  least offset where the needle's bytes stand, and \<open>NULL\<close> exactly when they stand nowhere.\<close>

theorem strstr_first_occurrence:
  "case strstr h n of
     Some r \<Rightarrow> (\<exists>k. r = drop k h \<and> take (length (content n)) (drop k (content h)) = content n \<and>
       (\<forall>j < k. take (length (content n)) (drop j (content h)) \<noteq> content n))
   | None \<Rightarrow> (\<forall>j. take (length (content n)) (drop j (content h)) \<noteq> content n)"
proof (cases "deref n = 0")
  case True
  then have "content n = []" by (cases n) (auto simp: deref_def)
  then show ?thesis using True by (auto simp: strstr_def intro!: exI [of _ 0])
next
  case False
  then have ne: "content n \<noteq> []" by (cases n) (auto simp: deref_def)
  have eq: "strstr h n = strstr_from h n" using False by (simp add: strstr_def)
  show ?thesis
  proof (cases "strstr_from h n")
    case None
    then have "\<forall>j < length (content h). take (length (content n)) (drop j (content h)) \<noteq> content n"
      using strstr_from_cases [of h n] by simp
    then have "take (length (content n)) (drop j (content h)) \<noteq> content n" for j
      using ne by (cases "j < length (content h)") auto
    then show ?thesis using None eq by simp
  next
    case (Some r)
    then show ?thesis using strstr_from_cases [of h n] eq by auto
  qed
qed

theorem strstr_first_occurrence_witness:
  "strstr [97, 98, 99, 98, 99, 0] [98, 99] = Some [98, 99, 98, 99, 0] \<and>
    take 2 (drop 1 (content [97, 98, 99, 98, 99, 0])) = content [98, 99]"
proof -
  have r: "strstr [97, 98, 99, 98, 99, 0] [98, 99] = Some [98, 99, 98, 99, 0]"
    by (simp add: strstr_def deref_def)
  obtain k where k: "[98, 99, 98, 99, 0] = drop k [97, 98, 99, 98, 99, 0 :: u8]"
    "take (length (content [98, 99])) (drop k (content [97, 98, 99, 98, 99, 0])) = content [98, 99 :: u8]"
    using strstr_first_occurrence [where h = "[97, 98, 99, 98, 99, 0]" and n = "[98, 99]"] unfolding r by auto
  have "k = 1" using arg_cong [OF k(1), of length] by simp
  then show ?thesis using k(2) r by (simp add: content_def)
qed

section \<open>What the string routines compute\<close>

lemma strcmp_zero: "strcmp s t = 0 \<longleftrightarrow> content s = content t"
proof (induction s t rule: strcmp.induct)
  case (1 t)
  then show ?case by (cases t) (auto simp: deref_def uint_0_iff word_uint_eq_iff [symmetric])
next
  case (2 c cs t)
  then show ?case by (cases t) (auto simp: deref_def uint_0_iff word_uint_eq_iff [symmetric])
qed

lemma strncmp_zero: "strncmp s t n = 0 \<longleftrightarrow> take n (content s) = take n (content t)"
proof (induction s t n rule: strncmp.induct)
  case (2 s t n)
  show ?case
    using 2 by (cases s; cases t) (auto simp: deref_def uint_0_iff word_uint_eq_iff [symmetric])
qed simp

lemma strncmp_prefix: "strncmp s t (strlen t) = 0 \<longleftrightarrow> take (length (content t)) (content s) = content t"
  by (simp add: strncmp_zero strlen_content)

lemma strcpy_at_some:
  "strcpy_at dest i src = Some d \<Longrightarrow>
     length d = length dest \<and> i + length (content src) < length dest \<and>
     take (i + length (content src)) d = take i dest @ content src \<and> d ! (i + length (content src)) = 0"
proof (induction dest i src arbitrary: d rule: strcpy_at.induct)
  case (2 dest i c cs)
  show ?case
  proof (cases "c = 0")
    case False
    with 2(2) obtain d1 where d1: "put dest i c = Some d1" "strcpy_at d1 (Suc i) cs = Some d"
      by (auto split: bind_split_asm)
    then have "d1 = dest[i := c]" "i < length dest" by (auto simp: put_def split: if_splits)
    then show ?thesis using 2(1) [OF False d1] False by (simp add: take_Suc_conv_app_nth)
  qed (use 2(2) in \<open>auto simp: put_def split: if_splits\<close>)
qed (auto simp: put_def split: if_splits)

lemma content_append: "\<forall>c \<in> set xs. c \<noteq> 0 \<Longrightarrow> content (xs @ r) = xs @ content r"
  by (induction xs) auto

lemma content_nonzero: "c \<in> set (content s) \<Longrightarrow> c \<noteq> 0"
  by (auto simp: content_def dest: set_takeWhileD)

lemma content_content [simp]: "content (content s) = content s"
  using content_append [of "content s" "[]"] content_nonzero by simp

lemma strcpy_content:
  assumes "strcpy dest src = Some d"
  shows "content d = content src"
proof -
  let ?n = "length (content src)"
  have *: "length d = length dest" "?n < length d" "take ?n d = content src" "d ! ?n = 0"
    using strcpy_at_some [OF assms [unfolded strcpy_def]] by auto
  have "d = content src @ 0 # drop (Suc ?n) d"
    using * by (metis Cons_nth_drop_Suc append_take_drop_id)
  then have "content d = content (content src @ 0 # drop (Suc ?n) d)" by (rule arg_cong)
  also have "\<dots> = content src" using content_nonzero by (subst content_append) auto
  finally show ?thesis .
qed

lemma strcpy_some:
  assumes "length (content src) < length dest"
  shows "\<exists>d. strcpy dest src = Some d"
proof -
  have "\<exists>d. strcpy_at dest i src = Some d" if "i + length (content src) < length dest" for i
    using that
  proof (induction dest i src rule: strcpy_at.induct)
    case (2 dest i c cs)
    then show ?case by (cases "c = 0") (auto simp: put_def)
  qed (auto simp: put_def)
  from this [of 0] assms show ?thesis by (simp add: strcpy_def)
qed

text \<open>A string literal of the source.\<close>

definition bytes :: "string \<Rightarrow> cstr" where
  "bytes s = map of_char s"

end
