(* ===== verification/Path.thy ===== *)
theory Path
  imports Cstring
begin

text \<open>
  \<open>src/kernel/lib/path/resolve_path.c\<close>: the absolute path of an input relative to a working
  directory, built from the tokens \<open>strtok\<close> gives. The lemmas show that it is the
  reference canonicalisation of the path's components, and that its results
  are canonical and fixed points.
\<close>

section \<open>The code\<close>

text \<open>The head of \<open>resolve_path\<close>: the path it splits, in the 512 bytes of \<open>temp\<close>.\<close>

definition path_temp :: "cstr \<Rightarrow> cstr \<Rightarrow> u8 list option" where
  "path_temp cwd input =
     (if deref input = 0 then None
      else if deref input = 47
      then (let len = strlen input
            in if 512 \<le> len then None else Some (take len input))
      else (let len = strlen cwd
            in if 512 \<le> len then None
               else let temp = take len cwd
                    in if 0 < len \<and> temp ! (len - 1) \<noteq> 47
                       then (if 512 \<le> len + 1 then None
                             else let input_len = strlen input
                                  in if 512 \<le> len + 1 + input_len then None
                                     else Some (temp @ [47] @ take input_len input))
                       else (let input_len = strlen input
                             in if 512 \<le> len + input_len then None
                                else Some (temp @ take input_len input))))"

text \<open>The loop over the tokens; \<open>tokens\<close> are the first \<open>token_count\<close> entries of the array.\<close>

definition token_step :: "u8 list \<Rightarrow> u8 list list \<Rightarrow> u8 list list option" where
  "token_step token tokens =
     (if strcmp token [46] \<noteq> 0
      then if strcmp token [46, 46] = 0
           then (if 0 < length tokens then Some (butlast tokens) else None)
           else Some (tokens @ [token])
      else Some tokens)"

lemma take_token_length:
  "length (snd (take_token d s)) \<le> length s \<and>
   (deref s \<noteq> 0 \<longrightarrow> length (snd (take_token d s)) < length s)"
  by (induction d s rule: take_token.induct) (auto simp: deref_def split: prod.splits)

lemma skip_delims_length: "length (skip_delims d s) \<le> length s"
  by (induction d s rule: skip_delims.induct) auto

lemma strtok_length:
  "strtok None d l = (Some t, l') \<Longrightarrow> \<exists>r r'. l = Some r \<and> l' = Some r' \<and> length r' < length r"
  using take_token_length [of d "skip_delims d (the l)"] skip_delims_length [of d "the l"]
  by (auto simp: strtok_def Let_def split: option.splits if_splits prod.splits)

text \<open>What is left to split bounds the loop.\<close>

definition token_measure :: "u8 list option \<times> cstr option \<times> u8 list list \<Rightarrow> nat" where
  "token_measure x = (case x of (token, last_str, _) \<Rightarrow>
     case token of None \<Rightarrow> 0
     | Some _ \<Rightarrow> Suc (case last_str of None \<Rightarrow> 0 | Some r \<Rightarrow> Suc (length r)))"

lemma token_measure_less:
  assumes "(token', last_str') = strtok None [47] last_str"
  shows "token_measure (token', last_str', tks') < token_measure (Some t, last_str, tks)"
proof (cases token')
  case (Some a)
  then have "strtok None [47] last_str = (Some a, last_str')" using assms by simp
  from strtok_length [OF this] Some show ?thesis by (auto simp: token_measure_def)
qed (simp add: token_measure_def)

function token_loop :: "u8 list option \<Rightarrow> cstr option \<Rightarrow> u8 list list \<Rightarrow> u8 list list option" where
  "token_loop token last_str tokens =
     (case token of
        None \<Rightarrow> Some tokens
      | Some t \<Rightarrow>
          if length tokens < 128
          then (case token_step t tokens of
                  None \<Rightarrow> None
                | Some tokens' \<Rightarrow>
                    (case strtok None [47] last_str of
                       (token', last_str') \<Rightarrow> token_loop token' last_str' tokens'))
          else Some tokens)"
  by pat_completeness auto
termination
  by (relation "measure token_measure") (auto intro: token_measure_less)

declare token_loop.simps [simp del]

text \<open>The loop that writes the tokens; \<open>out\<close> is what is written, \<open>used\<close> its length.\<close>

fun path_write :: "nat \<Rightarrow> u8 list list \<Rightarrow> u8 list \<Rightarrow> u8 list option" where
  "path_write output_size [] out = Some out"
| "path_write output_size (t # ts) out =
     (if output_size < length out + strlen t + 2 then None
      else path_write output_size ts (out @ [47] @ take (strlen t) t))"

definition resolve_path :: "cstr option \<Rightarrow> cstr option \<Rightarrow> bool \<Rightarrow> nat \<Rightarrow> u8 list option" where
  "resolve_path cwd input output_null output_size =
     (case (cwd, input) of
        (Some cwd, Some input) \<Rightarrow>
          if output_null \<or> output_size = 0 then None
          else do {
            temp \<leftarrow> path_temp cwd input;
            let (token, last_str) = strtok (Some temp) [47] None;
            tokens \<leftarrow> token_loop token last_str [];
            if length tokens = 0
            then (if output_size < 2 then None else Some [47])
            else path_write output_size tokens []
          }
      | _ \<Rightarrow> None)"

section \<open>The components of a path\<close>

text \<open>The non-empty pieces between slashes.\<close>

function path_words :: "u8 list \<Rightarrow> u8 list list" where
  "path_words s =
     (case dropWhile (\<lambda>c. c = 47) s of
        [] \<Rightarrow> []
      | c # cs \<Rightarrow> takeWhile (\<lambda>c. c \<noteq> 47) (c # cs) # path_words (dropWhile (\<lambda>c. c \<noteq> 47) (c # cs)))"
  by pat_completeness auto
termination
proof (relation "measure length")
  fix s :: "u8 list" and c cs
  assume a: "dropWhile (\<lambda>c. c = 47) s = c # cs"
  then have "c \<noteq> 47" using hd_dropWhile [of "\<lambda>c. c = 47" s] by simp
  then have "length (dropWhile (\<lambda>c. c \<noteq> 47) (c # cs)) < length (c # cs)"
    using length_dropWhile_le [of "\<lambda>c. c \<noteq> 47" cs] by simp
  moreover have "length (c # cs) \<le> length s" using length_dropWhile_le [of "\<lambda>c. c = 47" s] a by simp
  ultimately show "(dropWhile (\<lambda>c. c \<noteq> 47) (c # cs), s) \<in> measure length" by simp
qed simp

declare path_words.simps [simp del]

text \<open>The reference: a stack of components, at most 128 of them.\<close>

fun path_canon :: "u8 list list \<Rightarrow> u8 list list \<Rightarrow> u8 list list option" where
  "path_canon [] st = Some st"
| "path_canon (w # ws) st =
     (if 128 \<le> length st then Some st
      else if w = [46] then path_canon ws st
      else if w = [46, 46] then (if st = [] then None else path_canon ws (butlast st))
      else path_canon ws (st @ [w]))"

definition path_text :: "u8 list list \<Rightarrow> u8 list" where
  "path_text ws = (if ws = [] then [47] else concat (map (\<lambda>w. 47 # w) ws))"

lemma path_words_slash [simp]: "path_words (47 # s) = path_words s"
  by (simp add: path_words.simps [of "47 # s"] path_words.simps [of s])

lemma path_words_Nil [simp]: "path_words [] = []"
  by (simp add: path_words.simps [of "[]"])

lemma path_words_word:
  assumes "w \<noteq> []" "47 \<notin> set w"
  shows "path_words (w @ 47 # s) = w # path_words s" "path_words w = [w]"
proof -
  obtain c cs where w: "w = c # cs" "c \<noteq> 47" using assms by (cases w) auto
  have "\<And>x. x \<in> set w \<Longrightarrow> x \<noteq> 47" using assms(2) by blast
  then have T: "takeWhile (\<lambda>c. c \<noteq> 47) (w @ 47 # s) = w" "dropWhile (\<lambda>c. c \<noteq> 47) (w @ 47 # s) = 47 # s"
    "takeWhile (\<lambda>c. c \<noteq> 47) w = w" "dropWhile (\<lambda>c. c \<noteq> 47) w = []"
    by (simp_all add: takeWhile_append2 dropWhile_append2)
  have "dropWhile (\<lambda>c. c = 47) (w @ 47 # s) = w @ 47 # s" "dropWhile (\<lambda>c. c = 47) w = w"
    by (simp_all add: w)
  then have "path_words (w @ 47 # s) = takeWhile (\<lambda>c. c \<noteq> 47) (w @ 47 # s) # path_words (dropWhile (\<lambda>c. c \<noteq> 47) (w @ 47 # s))"
    "path_words w = takeWhile (\<lambda>c. c \<noteq> 47) w # path_words (dropWhile (\<lambda>c. c \<noteq> 47) w)"
    unfolding path_words.simps [of "w @ 47 # s"] path_words.simps [of w] by (simp_all only: w list.case append_Cons)
  then show "path_words (w @ 47 # s) = w # path_words s" "path_words w = [w]"
    unfolding T by simp_all
qed

lemma skip_delims_slash:
  "0 \<notin> set s \<Longrightarrow> skip_delims [47] s = dropWhile (\<lambda>c. c = 47) s"
  by (induction s) auto

lemma take_token_slash:
  "0 \<notin> set s \<Longrightarrow> take_token [47] s = (takeWhile (\<lambda>c. c \<noteq> 47) s, tl (dropWhile (\<lambda>c. c \<noteq> 47) s))"
  by (induction s) auto

lemma path_words_tl: "path_words (tl (dropWhile (\<lambda>c. c \<noteq> 47) s)) = path_words (dropWhile (\<lambda>c. c \<noteq> 47) s)"
proof (cases "dropWhile (\<lambda>c. c \<noteq> 47) s")
  case (Cons c cs)
  then have "c = 47" using hd_dropWhile [of "\<lambda>c. c \<noteq> 47" s] by simp
  then show ?thesis using Cons by simp
next
  case Nil
  show ?thesis unfolding Nil by simp
qed

text \<open>One call of \<open>strtok\<close> takes one component.\<close>

lemma strtok_word:
  assumes "0 \<notin> set s"
  shows "case path_words s of
      [] \<Rightarrow> fst (strtok None [47] (Some s)) = None
    | w # ws \<Rightarrow> \<exists>r. strtok None [47] (Some s) = (Some w, Some r) \<and> 0 \<notin> set r \<and> path_words r = ws"
proof (cases "dropWhile (\<lambda>c. c = 47) s")
  case Nil
  then show ?thesis
    by (simp add: path_words.simps [of s] strtok_def skip_delims_slash [OF assms] deref_def Nil)
next
  case (Cons c cs)
  have sub: "set (c # cs) \<subseteq> set s" using Cons set_dropWhileD by (metis subsetI)
  then have c0: "c \<noteq> 0" "0 \<notin> set (c # cs)" using assms by auto
  let ?r = "tl (dropWhile (\<lambda>c. c \<noteq> 47) (c # cs))"
  have s0: "deref s \<noteq> 0" using assms Cons by (cases s) (auto simp: deref_def)
  have "strtok None [47] (Some s) = (Some (takeWhile (\<lambda>c. c \<noteq> 47) (c # cs)), Some ?r)"
  proof -
    have "skip_delims [47] s = c # cs" by (simp add: skip_delims_slash [OF assms] Cons)
    moreover have "deref (c # cs) \<noteq> 0" using c0 by (simp add: deref_def)
    ultimately show ?thesis
      using s0 by (simp only: strtok_def Let_def option.case take_token_slash [OF c0(2)] split if_False)
  qed
  moreover have "0 \<notin> set ?r"
  proof -
    have "set ?r \<subseteq> set (c # cs)"
      using set_dropWhileD [of _ "\<lambda>c. c \<noteq> 47" "c # cs"] by (auto dest: list.set_sel(2) [rotated])
        (metis list.sel(2) list.set_sel(2))
    then show ?thesis using c0 by blast
  qed
  ultimately show ?thesis
    using Cons by (simp add: path_words.simps [of s] path_words_tl del: takeWhile.simps dropWhile.simps)
qed

section \<open>Correctness\<close>

lemma strcmp_eq_0: "0 \<notin> set s \<Longrightarrow> 0 \<notin> set t \<Longrightarrow> strcmp s t = 0 \<longleftrightarrow> s = t"
proof (induction s t rule: strcmp.induct)
  case (1 t)
  then show ?case by (cases t) (auto simp: deref_def unsigned_eq_0_iff word_uint_eq_iff [symmetric])
next
  case (2 c cs t)
  then show ?case by (cases t) (auto simp: deref_def unsigned_eq_0_iff word_uint_eq_iff [symmetric])
qed

lemma strlen_no_zero: "0 \<notin> set s \<Longrightarrow> strlen s = length s"
  by (induction s) auto

lemma token_step_canon:
  assumes "0 \<notin> set w"
  shows "token_step w st =
    (if w = [46] then Some st
     else if w = [46, 46] then (if st = [] then None else Some (butlast st))
     else Some (st @ [w]))"
  using assms strcmp_eq_0 [of w "[46]"] strcmp_eq_0 [of w "[46, 46]"]
  by (simp add: token_step_def)

lemma path_words_no_zero: "0 \<notin> set s \<Longrightarrow> w \<in> set (path_words s) \<Longrightarrow> 0 \<notin> set w \<and> w \<noteq> [] \<and> 47 \<notin> set w"
proof (induction s rule: path_words.induct)
  case (1 s)
  show ?case
  proof (cases "dropWhile (\<lambda>c. c = 47) s")
    case Nil
    then have "path_words s = []" by (simp only: path_words.simps [of s] list.case)
    with 1(3) show ?thesis by simp
  next
    case (Cons c cs)
    have z: "0 \<notin> set (c # cs)" using Cons 1(2) set_dropWhileD by metis
    have c: "c \<noteq> 47" using hd_dropWhile [of "\<lambda>c. c = 47" s] Cons by simp
    have "path_words s = takeWhile (\<lambda>c. c \<noteq> 47) (c # cs) # path_words (dropWhile (\<lambda>c. c \<noteq> 47) (c # cs))"
      by (simp only: path_words.simps [of s] Cons list.case)
    then consider "w = takeWhile (\<lambda>c. c \<noteq> 47) (c # cs)" | "w \<in> set (path_words (dropWhile (\<lambda>c. c \<noteq> 47) (c # cs)))"
      using 1(3) by auto
    then show ?thesis
    proof cases
      case 1
      then show ?thesis using z c by (auto dest: set_takeWhileD)
    next
      case 2
      have "0 \<notin> set (dropWhile (\<lambda>c. c \<noteq> 47) (c # cs))" using z set_dropWhileD by metis
      with 1(1) [OF Cons] 2 show ?thesis by blast
    qed
  qed
qed

lemma token_loop_canon:
  "0 \<notin> set s \<Longrightarrow>
     token_loop (fst (strtok None [47] (Some s))) (snd (strtok None [47] (Some s))) st
       = path_canon (path_words s) st"
proof (induction "path_words s" st arbitrary: s rule: path_canon.induct)
  case (1 st)
  then show ?case using strtok_word [of s] by (subst token_loop.simps) (simp add: 1(1) [symmetric])
next
  case (2 w ws st)
  obtain r where r: "strtok None [47] (Some s) = (Some w, Some r)" "0 \<notin> set r" "ws = path_words r"
    using strtok_word [OF 2(5)] 2(4) [symmetric] by auto
  have w0: "0 \<notin> set w" using path_words_no_zero [OF 2(5), of w] 2(4) [symmetric] by simp
  let ?k = "strtok None [47] (Some r)"
  have IH: "\<not> 128 \<le> length st \<Longrightarrow> w = [46] \<Longrightarrow> token_loop (fst ?k) (snd ?k) st = path_canon ws st"
    "\<not> 128 \<le> length st \<Longrightarrow> w \<noteq> [46] \<Longrightarrow> w = [46, 46] \<Longrightarrow> st \<noteq> [] \<Longrightarrow>
       token_loop (fst ?k) (snd ?k) (butlast st) = path_canon ws (butlast st)"
    "\<not> 128 \<le> length st \<Longrightarrow> w \<noteq> [46] \<Longrightarrow> w \<noteq> [46, 46] \<Longrightarrow>
       token_loop (fst ?k) (snd ?k) (st @ [w]) = path_canon ws (st @ [w])"
    using 2(1-3) r(2,3) by auto
  have "token_loop (Some w) (Some r) st =
      (if length st < 128
       then (case token_step w st of None \<Rightarrow> None | Some st' \<Rightarrow> token_loop (fst ?k) (snd ?k) st')
       else Some st)"
    by (subst token_loop.simps) (auto split: option.splits prod.splits)
  then show ?case
    using IH unfolding r(1) fst_conv snd_conv 2(4) [symmetric]
    by (auto simp: token_step_canon [OF w0] not_less)
qed

lemma path_write_text:
  "\<forall>t \<in> set ts. 0 \<notin> set t \<Longrightarrow> ts \<noteq> [] \<Longrightarrow>
     path_write sz ts out =
       (if length out + length (concat (map (\<lambda>w. 47 # w) ts)) < sz
        then Some (out @ concat (map (\<lambda>w. 47 # w) ts)) else None)"
proof (induction ts arbitrary: out)
  case (Cons t ts)
  have t: "strlen t = length t" using Cons.prems by (simp add: strlen_no_zero)
  show ?case
  proof (cases "ts = []")
    case True
    then show ?thesis by (auto simp: t)
  next
    case False
    then show ?thesis using Cons by (auto simp: t)
  qed
qed simp

lemma path_canon_words:
  "path_canon ws st = Some st' \<Longrightarrow> w \<in> set st' \<Longrightarrow>
     w \<in> set st \<or> w \<in> set ws \<and> w \<noteq> [46] \<and> w \<noteq> [46, 46]"
proof (induction ws st rule: path_canon.induct)
  case (2 v ws st)
  show ?case
  proof (cases "128 \<le> length st")
    case False
    consider "v = [46]" | "v = [46, 46]" | "v \<noteq> [46]" "v \<noteq> [46, 46]" by blast
    then show ?thesis
    proof cases
      case 1 then show ?thesis using 2(1) [OF False] 2(4,5) False by auto
    next
      case v: 2
      then show ?thesis using 2(2) [OF False] 2(4,5) False
        by (auto split: if_splits dest: in_set_butlastD)
    next
      case 3 then show ?thesis using 2(3) [OF False] 2(4,5) False by auto
    qed
  qed (use 2 in auto)
qed simp

text \<open>The path that is split: the input, or the working directory, a slash and the input.\<close>

definition path_full :: "u8 list \<Rightarrow> u8 list \<Rightarrow> u8 list" where
  "path_full cwd input =
     (if hd input = 47 then input
      else if cwd \<noteq> [] \<and> last cwd \<noteq> 47 then cwd @ 47 # input else cwd @ input)"

lemma path_temp_full:
  assumes "content input \<noteq> []"
  shows "path_temp cwd input =
    (if hd (content input) \<noteq> 47 \<and> 512 \<le> length (content cwd) \<or>
        512 \<le> length (path_full (content cwd) (content input)) then None
     else Some (path_full (content cwd) (content input)))"
proof -
  have c: "take (strlen s) s = content s" for s
    unfolding strlen_content content_def by (rule takeWhile_eq_take [symmetric])
  obtain x xs where x: "input = x # xs" "x \<noteq> 0" using assms by (cases input) (auto split: if_splits)
  have h: "deref input = x" "hd (content input) = x" using x by (simp_all add: deref_def)
  have l: "0 < strlen cwd \<Longrightarrow> take (strlen cwd) cwd ! (strlen cwd - 1) = last (content cwd)"
    unfolding c by (simp add: strlen_content last_conv_nth)
  have ne: "0 < strlen cwd \<longleftrightarrow> content cwd \<noteq> []" by (simp add: strlen_content)
  have c': "take (length (content s)) s = content s" for s
    using c [of s] by (simp add: strlen_content)
  have len: "strlen input = length (content input)" "strlen cwd = length (content cwd)"
    by (simp_all add: strlen_content)
  show ?thesis
  proof (cases "x = 47")
    case True
    then show ?thesis unfolding path_temp_def path_full_def Let_def h c by (simp add: len)
  next
    case False
    then have eq: "path_temp cwd input =
        (if 512 \<le> length (content cwd) then None
         else if content cwd \<noteq> [] \<and> last (content cwd) \<noteq> 47
              then (if 512 \<le> length (content cwd) + 1 then None
                    else if 512 \<le> length (content cwd) + 1 + length (content input) then None
                    else Some (content cwd @ [47] @ content input))
              else if 512 \<le> length (content cwd) + length (content input) then None
                   else Some (content cwd @ content input))"
      using x(2) l unfolding path_temp_def Let_def h c ne [unfolded len] len
      by (cases "content cwd = []") (simp_all add: last_conv_nth c')
    show ?thesis unfolding eq path_full_def h using False by simp
  qed
qed

text \<open>C15: \<open>resolve_path\<close> is the reference: it splits the absolute or joined path at its
  slashes, drops empty pieces and \<open>.\<close>, lets \<open>..\<close> remove the piece before it and fails when there is
  none, keeps at most 128 pieces, and fails when the path or the result is too long.\<close>

theorem resolve_path_canonical:
  assumes "content input \<noteq> []" "0 < output_size"
  shows "resolve_path (Some cwd) (Some input) False output_size =
    (if hd (content input) \<noteq> 47 \<and> 512 \<le> length (content cwd) \<or>
        512 \<le> length (path_full (content cwd) (content input)) then None
     else case path_canon (path_words (path_full (content cwd) (content input))) [] of
            None \<Rightarrow> None
          | Some ws \<Rightarrow> if length (path_text ws) < output_size then Some (path_text ws) else None)"
proof -
  let ?p = "path_full (content cwd) (content input)"
  have z: "0 \<notin> set (content s)" for s by (auto simp: content_def dest: set_takeWhileD)
  then have zp: "0 \<notin> set ?p" by (auto simp: path_full_def)
  have tok: "strtok (Some p) [47] None = strtok None [47] (Some p)" for p by (simp add: strtok_def)
  have "resolve_path (Some cwd) (Some input) False output_size =
      Option.bind (path_temp cwd input) (\<lambda>temp.
        Option.bind (token_loop (fst (strtok None [47] (Some temp))) (snd (strtok None [47] (Some temp))) [])
          (\<lambda>tokens. if length tokens = 0 then (if output_size < 2 then None else Some [47])
                    else path_write output_size tokens []))"
    using assms(2) by (simp add: resolve_path_def tok case_prod_unfold Let_def)
  also have "\<dots> = (if hd (content input) \<noteq> 47 \<and> 512 \<le> length (content cwd) \<or> 512 \<le> length ?p then None
     else Option.bind (path_canon (path_words ?p) [])
          (\<lambda>tokens. if length tokens = 0 then (if output_size < 2 then None else Some [47])
                    else path_write output_size tokens []))"
    by (simp add: path_temp_full [OF assms(1)] token_loop_canon [OF zp])
  also have "Option.bind (path_canon (path_words ?p) [])
          (\<lambda>tokens. if length tokens = 0 then (if output_size < 2 then None else Some [47])
                    else path_write output_size tokens [])
      = (case path_canon (path_words ?p) [] of
            None \<Rightarrow> None
          | Some ws \<Rightarrow> if length (path_text ws) < output_size then Some (path_text ws) else None)"
  proof (cases "path_canon (path_words ?p) []")
    case (Some ws)
    have "\<forall>w \<in> set ws. 0 \<notin> set w"
      using path_canon_words [OF Some] path_words_no_zero [OF zp] by auto
    then show ?thesis using Some path_write_text [of ws output_size "[]"]
      by (auto simp: path_text_def)
  qed simp
  finally show ?thesis .
qed

theorem resolve_path_canonical_witness:
  "resolve_path (Some [47, 97]) (Some [46, 46, 47, 98]) False 64 = Some [47, 98]"
proof -
  have c: "content [46, 46, 47, 98] = [46, 46, 47, 98]" "content [47, 97] = [47, 97]" by simp_all
  have p: "path_full [47, 97] [46, 46, 47, 98] = 47 # [97] @ 47 # [46, 46] @ 47 # [98]"
    by (simp add: path_full_def)
  have "path_words (47 # [97] @ 47 # [46, 46] @ 47 # [98]) = [[97], [46, 46], [98]]"
    unfolding path_words_slash by (simp add: path_words_word [of "[97]"] path_words_word [of "[46, 46]"]
        path_words_word [of "[98]"] del: append_Cons append_Nil)
  then show ?thesis
    using resolve_path_canonical [of "[46, 46, 47, 98]" 64 "[47, 97]"]
    unfolding c p by (simp add: path_text_def)
qed

definition good_word :: "u8 list \<Rightarrow> bool" where
  "good_word w \<longleftrightarrow> w \<noteq> [] \<and> w \<noteq> [46] \<and> w \<noteq> [46, 46] \<and> 0 \<notin> set w \<and> 47 \<notin> set w"

lemma path_words_text:
  "\<forall>w \<in> set ws. good_word w \<Longrightarrow> path_words (concat (map (\<lambda>w. 47 # w) ws)) = ws"
proof (induction ws)
  case (Cons w ws)
  then have w: "w \<noteq> []" "47 \<notin> set w" by (auto simp: good_word_def)
  show ?case
  proof (cases ws)
    case Nil
    then show ?thesis using w by (simp add: path_words_word)
  next
    case (Cons v vs)
    have "path_words (concat (map (\<lambda>w. 47 # w) (w # ws))) = path_words (w @ 47 # (v @ concat (map (\<lambda>w. 47 # w) vs)))"
      by (simp add: Cons)
    also have "\<dots> = w # path_words (47 # (v @ concat (map (\<lambda>w. 47 # w) vs)))"
      using path_words_word(1) [OF w] by simp
    also have "47 # (v @ concat (map (\<lambda>w. 47 # w) vs)) = concat (map (\<lambda>w. 47 # w) ws)"
      by (simp add: Cons)
    finally show ?thesis using Cons.IH Cons.prems by simp
  qed
qed simp

lemma path_canon_good:
  "\<forall>w \<in> set ws. good_word w \<Longrightarrow> length st + length ws \<le> 128 \<Longrightarrow> path_canon ws st = Some (st @ ws)"
  by (induction ws st rule: path_canon.induct) (auto simp: good_word_def)

lemma path_canon_length: "path_canon ws st = Some st' \<Longrightarrow> length st \<le> 128 \<Longrightarrow> length st' \<le> 128"
  by (induction ws st rule: path_canon.induct) (auto split: if_splits)

text \<open>The results of \<open>resolve_path\<close> are canonical absolute paths, and resolving one again,
  from any working directory, gives the same path.\<close>

theorem resolve_path_idempotent:
  assumes "content input \<noteq> []" "0 < output_size"
    and "resolve_path (Some cwd) (Some input) False output_size = Some out" "length out < 512"
  shows "(\<exists>ws. (\<forall>w \<in> set ws. good_word w) \<and> out = path_text ws) \<and>
    resolve_path (Some cwd') (Some out) False output_size = Some out"
proof -
  let ?p = "path_full (content cwd) (content input)"
  have z: "0 \<notin> set (content s)" for s by (auto simp: content_def dest: set_takeWhileD)
  then have zp: "0 \<notin> set ?p" by (auto simp: path_full_def)
  obtain ws where ws: "path_canon (path_words ?p) [] = Some ws" "out = path_text ws" "length out < output_size"
    using assms(3) unfolding resolve_path_canonical [OF assms(1,2)]
    by (auto split: if_splits option.splits)
  have good: "\<forall>w \<in> set ws. good_word w"
    using path_canon_words [OF ws(1)] path_words_no_zero [OF zp] by (auto simp: good_word_def)
  have len: "length ws \<le> 128" using path_canon_length [OF ws(1)] by simp
  have zo: "0 \<notin> set out" using good by (auto simp: ws(2) path_text_def good_word_def)
  then have co: "content out = out" by (auto simp: content_def takeWhile_eq_all_conv)
  have out: "out \<noteq> []" "hd out = 47" by (cases ws; simp add: ws(2) path_text_def)+
  have "path_words out = ws" using path_words_text [OF good] by (auto simp: ws(2) path_text_def)
  then have "path_canon (path_words out) [] = Some ws" using path_canon_good [OF good, of "[]"] len by simp
  then have "resolve_path (Some cwd') (Some out) False output_size = Some out"
    using resolve_path_canonical [of out output_size cwd'] out co assms(2,4) ws(2,3)
    by (simp add: path_full_def)
  then show ?thesis using good ws(2) by blast
qed

theorem resolve_path_idempotent_witness:
  "resolve_path (Some [47]) (Some [47, 97]) False 64 = Some [47, 97]"
proof -
  have "path_words (47 # [97]) = [[97]]"
    unfolding path_words_slash by (rule path_words_word) simp_all
  then have "resolve_path (Some [47]) (Some [97]) False 64 = Some [47, 97]"
  proof -
    have "resolve_path (Some [47]) (Some [97]) False 64 =
      (case path_canon (path_words (47 # [97])) [] of
         None \<Rightarrow> None | Some ws \<Rightarrow> if length (path_text ws) < 64 then Some (path_text ws) else None)"
    proof -
      have "path_temp [47] [97] = Some [47, 97]"
        by (simp add: path_temp_def deref_def)
      moreover have "strtok (Some [47, 97]) [47] None = (Some [97], Some [])"
        by (simp add: strtok_def deref_def)
      moreover have "token_loop (Some [97]) (Some []) [] = Some [[97]]"
        by (subst token_loop.simps) (simp add: token_step_canon strtok_def deref_def token_loop.simps [of None])
      ultimately show ?thesis
        using path_words_word(2) [of "[97]"] by (simp add: resolve_path_def path_text_def)
    qed
    then show ?thesis using \<open>path_words (47 # [97]) = [[97]]\<close> by (simp add: path_text_def)
  qed
  from resolve_path_idempotent [OF _ _ this, of "[47]"] show ?thesis by simp
qed

end
