(* ===== verification/Spinlock.thy ===== *)
theory Spinlock
  imports Meow_Prelude
begin

text \<open>
  \<open>arch/x86/sync/spinlock.h\<close>. A lock is the word \<open>locked\<close>; test-and-set returns the
  old word and stores 1. The kernel runs on one processor, so nobody releases a lock
  while the processor spins on it: acquiring a held lock does not return, which is the
  result \<open>None\<close>. The flags register is a word of which the code uses bit 9, the
  interrupt flag.
\<close>

definition test_and_set :: "u32 \<Rightarrow> u32 \<times> u32" where
  "test_and_set locked = (locked, 1)"

partial_function (option) spinlock_acquire :: "u32 \<Rightarrow> u32 option" where
  "spinlock_acquire locked =
     (let (old, locked') = test_and_set locked
      in if old \<noteq> 0 then spinlock_acquire locked' else Some locked')"

definition spinlock_release :: "u32 \<Rightarrow> u32" where
  "spinlock_release locked = 0"

definition disable_interrupts :: "u32 \<Rightarrow> u32" where
  "disable_interrupts eflags = eflags AND NOT 0x200"

definition enable_interrupts :: "u32 \<Rightarrow> u32" where
  "enable_interrupts eflags = eflags OR 0x200"

definition spinlock_acquire_irq :: "u32 \<Rightarrow> u32 \<Rightarrow> (u32 \<times> u32) option" where
  "spinlock_acquire_irq locked eflags =
     do { locked' \<leftarrow> spinlock_acquire locked; Some (locked', disable_interrupts eflags) }"

definition spinlock_release_irq :: "u32 \<Rightarrow> u32 \<Rightarrow> u32 \<times> u32" where
  "spinlock_release_irq locked eflags = (spinlock_release locked, enable_interrupts eflags)"

definition spinlock_save_flags_and_cli :: "u32 \<Rightarrow> u32 \<times> u32" where
  "spinlock_save_flags_and_cli eflags = (eflags, disable_interrupts eflags)"

definition spinlock_restore_flags :: "u32 \<Rightarrow> u32 \<Rightarrow> u32" where
  "spinlock_restore_flags flags eflags =
     (if flags AND 0x200 \<noteq> 0 then enable_interrupts eflags else disable_interrupts eflags)"

text \<open>\<open>spinlock_acquire_irq_save\<close> returns the saved flags, the lock and the new flags.\<close>

definition spinlock_acquire_irq_save :: "u32 \<Rightarrow> u32 \<Rightarrow> (u32 \<times> u32 \<times> u32) option" where
  "spinlock_acquire_irq_save locked eflags =
     (let (flags, eflags') = spinlock_save_flags_and_cli eflags
      in do { locked' \<leftarrow> spinlock_acquire locked; Some (flags, locked', eflags') })"

definition spinlock_release_irq_restore :: "u32 \<Rightarrow> u32 \<Rightarrow> u32 \<Rightarrow> u32 \<times> u32" where
  "spinlock_release_irq_restore locked flags eflags =
     (0, spinlock_restore_flags flags eflags)"

named_theorems lock_defs \<comment> \<open>the lock operations on a concrete lock word\<close>

lemma spinlock_acquire_free [simp, lock_defs]: "spinlock_acquire 0 = Some 1"
  by (subst spinlock_acquire.simps) (simp add: test_and_set_def)

lemma spinlock_acquire_Some:
  assumes "spinlock_acquire l = Some y"
  shows "l = 0 \<and> y = 1"
  using assms
proof (rule spinlock_acquire.raw_induct [rotated])
  fix f la ya
  assume IH: "\<And>l y. f l = Some y \<Longrightarrow> l = 0 \<and> y = (1 :: u32)"
    and run: "(let (old, l') = test_and_set la in if old \<noteq> 0 then f l' else Some l') = Some ya"
  show "la = 0 \<and> ya = 1"
  proof (cases "la = 0")
    case False
    then have "f 1 = Some ya" using run by (simp add: test_and_set_def)
    from IH [OF this] show ?thesis by simp
  qed (use run in \<open>simp add: test_and_set_def\<close>)
qed

lemma spinlock_acquire_held [simp]: "l \<noteq> 0 \<Longrightarrow> spinlock_acquire l = None"
  using spinlock_acquire_Some [of l] by (cases "spinlock_acquire l") auto

lemma IF_mask: "(0x200 :: u32) = bit_mask 9"
  by (simp add: bit_mask_def)

lemma interrupt_flag_bit: "(eflags :: u32) AND 0x200 \<noteq> 0 \<longleftrightarrow> bit eflags 9"
  unfolding IF_mask by simp

lemma interrupt_flag_enable [simp]: "bit (enable_interrupts eflags) n \<longleftrightarrow> n = 9 \<or> bit eflags n"
  unfolding enable_interrupts_def IF_mask by (auto simp: bit_or_iff)

lemma interrupt_flag_disable [simp]: "bit (disable_interrupts eflags) n \<longleftrightarrow> n \<noteq> 9 \<and> bit eflags n"
  unfolding disable_interrupts_def IF_mask
  by (auto simp: bit_and_iff bit_not_iff dest: bit_imp_le_length)

text \<open>Restoring the flags of a critical section gives back the interrupt flag it found.\<close>

lemma spinlock_restore_saved [simp]:
  "spinlock_restore_flags eflags (disable_interrupts eflags) = eflags"
  by (rule bit_eqI) (auto simp: spinlock_restore_flags_def interrupt_flag_bit)

lemma spinlock_irq_section [lock_defs]:
  "spinlock_acquire_irq_save 0 eflags = Some (eflags, 1, disable_interrupts eflags)"
  "spinlock_release_irq_restore l eflags (disable_interrupts eflags) = (0, eflags)"
  by (simp_all add: spinlock_acquire_irq_save_def spinlock_save_flags_and_cli_def
      spinlock_release_irq_restore_def)

lemma spinlock_acquire_irq_save_held [simp]:
  "l \<noteq> 0 \<Longrightarrow> spinlock_acquire_irq_save l eflags = None"
  by (simp add: spinlock_acquire_irq_save_def spinlock_save_flags_and_cli_def)

end
