(* ===== verification/Fifo.thy ===== *)
theory Fifo
  imports Meow_Prelude
begin

text \<open>
  What the kernel's bounded byte queues promise. A ring buffer is an array with a start
  index and a length; the locale \<open>byte_queue\<close> states the contract of a queue over any
  representation, and inside it the first-in-first-out property of every interleaving
  of pushes and pops is proved once. The pipe and the keyboard buffer provide it.
\<close>

section \<open>Rings\<close>

definition ring :: "'a list \<Rightarrow> nat \<Rightarrow> nat \<Rightarrow> 'a list" where
  "ring d h n = map (\<lambda>i. d ! ((h + i) mod length d)) [0..<n]"

lemma length_ring [simp]: "length (ring d h n) = n"
  by (simp add: ring_def)

lemma ring_Nil [simp]: "ring d h 0 = []"
  by (simp add: ring_def)

lemma ring_nth: "i < n \<Longrightarrow> ring d h n ! i = d ! ((h + i) mod length d)"
  by (simp add: ring_def)

lemma mod_add_inj:
  fixes h i j m :: nat
  assumes "i < m" "j < m" "(h + i) mod m = (h + j) mod m"
  shows "i = j"
proof -
  have wlog: "a = b" if "a \<le> b" "b < m" "(h + a) mod m = (h + b) mod m" for a b
  proof -
    have "m dvd (h + b) - (h + a)" using that by (metis mod_eq_dvd_iff_nat add_left_mono)
    then have "m dvd b - a" by simp
    then show ?thesis using that by (metis dvd_imp_le diff_is_0_eq not_gr_zero le_antisym
        less_imp_diff_less not_le zero_less_diff)
  qed
  from wlog [of i j] wlog [of j i] assms show ?thesis by (cases "i \<le> j") auto
qed

lemma ring_push:
  assumes "n < length d" "t = (h + n) mod length d"
  shows "ring (d[t := x]) h (Suc n) = ring d h n @ [x]"
proof (rule nth_equalityI)
  fix i assume i: "i < length (ring (d[t := x]) h (Suc n))"
  have "0 < length d" using assms by linarith
  then have t: "t < length d" using assms by simp
  show "ring (d[t := x]) h (Suc n) ! i = (ring d h n @ [x]) ! i"
  proof (cases "i = n")
    case True
    then show ?thesis using t assms by (simp add: ring_nth nth_append)
  next
    case False
    then have "i < n" using i by simp
    then have "(h + i) mod length d \<noteq> t"
      using mod_add_inj [of i "length d" n h] assms by auto
    then show ?thesis using \<open>i < n\<close> t by (simp add: ring_nth nth_append)
  qed
qed simp

lemma ring_pop:
  "ring d h (Suc n) = d ! (h mod length d) # ring d (Suc h mod length d) n"
proof (rule nth_equalityI)
  fix i assume i: "i < length (ring d h (Suc n))"
  then show "ring d h (Suc n) ! i = (d ! (h mod length d) # ring d (Suc h mod length d) n) ! i"
    by (cases i) (simp_all add: ring_nth mod_simps)
qed simp

section \<open>Runs of a queue\<close>

datatype 'b qop = Push 'b | Pop

text \<open>
  Performs the operations in order and collects the bytes the queue accepted and the
  bytes it delivered. A push that finds the queue full and a pop that finds it empty
  do nothing.
\<close>

fun queue_run ::
  "('b \<Rightarrow> 'q \<Rightarrow> 'q option) \<Rightarrow> ('q \<Rightarrow> ('b \<times> 'q) option) \<Rightarrow> 'b qop list \<Rightarrow> 'q \<Rightarrow> 'b list \<times> 'b list \<times> 'q"
where
  "queue_run enq deq [] q = ([], [], q)"
| "queue_run enq deq (Push x # ops) q =
     (case enq x q of
        None \<Rightarrow> queue_run enq deq ops q
      | Some q' \<Rightarrow> (let (acc, del, r) = queue_run enq deq ops q' in (x # acc, del, r)))"
| "queue_run enq deq (Pop # ops) q =
     (case deq q of
        None \<Rightarrow> queue_run enq deq ops q
      | Some (x, q') \<Rightarrow> (let (acc, del, r) = queue_run enq deq ops q' in (acc, x # del, r)))"

section \<open>The contract\<close>

locale byte_queue =
  fixes inv :: "'q \<Rightarrow> bool"
    and content :: "'q \<Rightarrow> 'b list"
    and cap :: nat
    and enq :: "'b \<Rightarrow> 'q \<Rightarrow> 'q option"
    and deq :: "'q \<Rightarrow> ('b \<times> 'q) option"
  assumes bounded: "inv q \<Longrightarrow> length (content q) \<le> cap"
    and enq_room: "inv q \<Longrightarrow> length (content q) < cap \<Longrightarrow>
        \<exists>q'. enq x q = Some q' \<and> inv q' \<and> content q' = content q @ [x]"
    and enq_full: "inv q \<Longrightarrow> length (content q) = cap \<Longrightarrow> enq x q = None"
    and deq_empty: "inv q \<Longrightarrow> content q = [] \<Longrightarrow> deq q = None"
    and deq_head: "inv q \<Longrightarrow> content q = x # xs \<Longrightarrow>
        \<exists>q'. deq q = Some (x, q') \<and> inv q' \<and> content q' = xs"
begin

lemma enq_cases:
  assumes "inv q"
  obtains (full) "length (content q) = cap" "enq x q = None"
  | (room) q' where "length (content q) < cap" "enq x q = Some q'" "inv q'" "content q' = content q @ [x]"
  using assms bounded [OF assms] enq_room [OF assms, of x] enq_full [OF assms, of x]
  by (cases "length (content q) = cap") (auto simp: nat_less_le)

lemma deq_cases:
  assumes "inv q"
  obtains (empty) "content q = []" "deq q = None"
  | (head) x q' where "deq q = Some (x, q')" "inv q'" "content q = x # content q'"
  using assms deq_empty [OF assms] deq_head [OF assms]
  by (cases "content q") auto

lemma run_fifo:
  assumes "queue_run enq deq ops q = (acc, del, q')" "inv q"
  shows "inv q' \<and> content q @ acc = del @ content q'"
  using assms
proof (induction ops arbitrary: q acc del)
  case (Cons a ops)
  show ?case
  proof (cases a)
    case (Push x)
    from Cons.prems(2) show ?thesis
    proof (cases rule: enq_cases [of q x])
      case full
      then show ?thesis using Cons Push by simp
    next
      case (room q1)
      then show ?thesis using Cons.prems(1) Cons.IH [of q1] Push by (auto split: prod.splits)
    qed
  next
    case Pop
    from Cons.prems(2) show ?thesis
    proof (cases rule: deq_cases)
      case empty
      then show ?thesis using Cons.prems Cons.IH [of q] Pop by simp
    next
      case (head x q1)
      then show ?thesis using Cons.prems(1) Cons.IH [of q1] Pop by (auto split: prod.splits)
    qed
  qed
qed simp

end

end
