(* ===== verification/Vfs.thy ===== *)
theory Vfs
  imports Kheap Cstring
begin

text \<open>
  \<open>fs/vfs/vfs.c\<close> with the allocation wrappers of \<open>kernel_services.c\<close> it uses. The state
  holds the kernel heap, the \<open>vfs_node_t\<close> objects by address, the hash table of the
  registered nodes, the driver table and the mount list. A linked list whose cells only
  the module itself sees is a list (a hash bucket, the mounts); the list of the
  registered nodes runs through the \<open>prev\<close> and \<open>next\<close> fields of the nodes. A function
  pointer is a constructor that names the function it points to; the operations that call
  through one take the interpretation of the pointers as an argument. The result
  \<open>None\<close> is a write outside an object, a call through \<open>NULL\<close>, or a heap walk
  that does not return.
\<close>

section \<open>Data\<close>

datatype read_fn = No_read | Fn_pipe_read | Fn_null_read | Fn_zero_read | Fn_random_read
  | Fn_procfs_read | Fn_fat16_read | Fn_ata_read | Fn_keyboard_read

datatype write_fn = No_write | Fn_pipe_write | Fn_null_write | Fn_zero_write | Fn_random_write
  | Fn_fat16_write | Fn_ata_write | Fn_vga_write

datatype close_fn = No_close | Fn_pipe_close_read | Fn_pipe_close_write | Fn_procfs_close

datatype open_fn = No_open | Fn_devfs_open | Fn_procfs_open | Fn_fat16_open

record vfs_node =
  nd_name :: "u8 list"
  nd_log_use :: bool
  nd_type :: u32
  nd_length :: u32
  nd_uid :: u32
  nd_gid :: u32
  nd_mode :: u16
  nd_flags :: u32
  nd_ref_count :: u32
  nd_persistent :: bool
  nd_ptr :: u32
  nd_prev :: u32
  nd_next :: u32
  nd_driver :: u32
  nd_read :: read_fn
  nd_write :: write_fn
  nd_close :: close_fn

definition VFS_FILE :: u32 where "VFS_FILE = 1"
definition VFS_DEVICE :: u32 where "VFS_DEVICE = 3"
definition VFS_PIPE :: u32 where "VFS_PIPE = 4"

definition zero_node :: vfs_node where
  "zero_node = \<lparr>nd_name = replicate 256 0, nd_log_use = False, nd_type = 0, nd_length = 0, nd_uid = 0,
     nd_gid = 0, nd_mode = 0, nd_flags = 0, nd_ref_count = 0, nd_persistent = False, nd_ptr = 0,
     nd_prev = 0, nd_next = 0, nd_driver = 0, nd_read = No_read, nd_write = No_write, nd_close = No_close\<rparr>"

record fs_driver =
  drv_name :: cstr
  drv_open :: open_fn

record mount_point =
  mp_path :: "u8 list"
  mp_driver :: fs_driver

record vfs_hash_entry =
  he_addr :: u32
  he_name :: "u8 list"
  he_node :: u32

record vfs_state =
  kheap :: heap_state
  nodes :: "u32 \<Rightarrow> vfs_node"
  vfs_hash_table :: "vfs_hash_entry list list"
  registered_drivers :: "fs_driver option list"
  mount_list :: "mount_point list"
  vfs_root :: u32

definition VFS_HASH_SIZE :: u32 where "VFS_HASH_SIZE = 128"
definition MAX_DRIVERS :: nat where "MAX_DRIVERS = 8"
definition SIZEOF_NODE :: u32 where "SIZEOF_NODE = 320"
definition SIZEOF_ENTRY :: u32 where "SIZEOF_ENTRY = 40"
definition SIZEOF_MOUNT :: u32 where "SIZEOF_MOUNT = 72"

section \<open>Allocation\<close>

definition kmem_alloc :: "u32 \<Rightarrow> 'a vfs_state_scheme \<Rightarrow> (u32 \<times> 'a vfs_state_scheme) option" where
  "kmem_alloc sz s = do { (p, h) \<leftarrow> mem_alloc sz (kheap s); Some (p, s\<lparr>kheap := h\<rparr>) }"

definition kmem_zalloc :: "u32 \<Rightarrow> 'a vfs_state_scheme \<Rightarrow> (u32 \<times> 'a vfs_state_scheme) option" where
  "kmem_zalloc sz s = do { (p, h) \<leftarrow> mem_zalloc sz (kheap s); Some (p, s\<lparr>kheap := h\<rparr>) }"

definition kmem_free :: "u32 \<Rightarrow> 'a vfs_state_scheme \<Rightarrow> 'a vfs_state_scheme" where
  "kmem_free p s = s\<lparr>kheap := mem_free p (kheap s)\<rparr>"

definition set_node :: "u32 \<Rightarrow> vfs_node \<Rightarrow> 'a vfs_state_scheme \<Rightarrow> 'a vfs_state_scheme" where
  "set_node p n s = s\<lparr>nodes := (nodes s)(p := n)\<rparr>"

section \<open>Drivers and mounts\<close>

fun first_free_slot :: "'d option list \<Rightarrow> nat option" where
  "first_free_slot [] = None"
| "first_free_slot (d # ds) =
     (case d of None \<Rightarrow> Some 0 | Some _ \<Rightarrow> map_option Suc (first_free_slot ds))"

definition vfs_register_driver :: "fs_driver \<Rightarrow> 'a vfs_state_scheme \<Rightarrow> 'a vfs_state_scheme" where
  "vfs_register_driver driver s =
     (case first_free_slot (registered_drivers s) of
        Some i \<Rightarrow> s\<lparr>registered_drivers := (registered_drivers s)[i := Some driver]\<rparr>
      | None \<Rightarrow> s)"

fun get_driver_from :: "cstr \<Rightarrow> fs_driver option list \<Rightarrow> fs_driver option" where
  "get_driver_from name [] = None"
| "get_driver_from name (d # ds) =
     (case d of
        Some drv \<Rightarrow> if strcmp (drv_name drv) name = 0 then Some drv else get_driver_from name ds
      | None \<Rightarrow> get_driver_from name ds)"

definition vfs_get_driver :: "cstr \<Rightarrow> 'a vfs_state_scheme \<Rightarrow> fs_driver option" where
  "vfs_get_driver name s = get_driver_from name (registered_drivers s)"

definition vfs_mount :: "cstr \<Rightarrow> cstr \<Rightarrow> 'a vfs_state_scheme \<Rightarrow> (int \<times> 'a vfs_state_scheme) option" where
  "vfs_mount path driver_name s =
     (case vfs_get_driver driver_name s of
        None \<Rightarrow> Some (- 1, s)
      | Some driver \<Rightarrow> do {
          (mp, s1) \<leftarrow> kmem_zalloc SIZEOF_MOUNT s;
          if mp = 0 then Some (- 1, s1)
          else do {
            p \<leftarrow> strncpy (replicate 64 0) path 63;
            Some (0, s1\<lparr>mount_list := \<lparr>mp_path = p, mp_driver = driver\<rparr> # mount_list s1\<rparr>)
          }
        })"

section \<open>Nodes by name\<close>

fun hash_loop :: "cstr \<Rightarrow> u32 \<Rightarrow> u32" where
  "hash_loop [] h = h"
| "hash_loop (c # cs) h = (if c \<noteq> 0 then hash_loop cs ((push_bit 5 h + h) + scast c) else h)"

definition vfs_hash :: "cstr \<Rightarrow> u32" where
  "vfs_hash str = hash_loop str 5381 mod VFS_HASH_SIZE"

fun find_entry :: "cstr \<Rightarrow> vfs_hash_entry list \<Rightarrow> u32" where
  "find_entry name [] = 0"
| "find_entry name (e # es) = (if strcmp (he_name e) name = 0 then he_node e else find_entry name es)"

definition vfs_find :: "cstr option \<Rightarrow> 'a vfs_state_scheme \<Rightarrow> u32" where
  "vfs_find name s =
     (case name of
        None \<Rightarrow> 0
      | Some n \<Rightarrow> find_entry n (vfs_hash_table s ! unat (vfs_hash n)))"

definition vfs_find_path :: "cstr option \<Rightarrow> 'a vfs_state_scheme \<Rightarrow> u32" where
  "vfs_find_path path s =
     (case path of
        None \<Rightarrow> 0
      | Some p \<Rightarrow> vfs_find (Some (if deref p = 47 then tl p else p)) s)"

partial_function (option) last_node :: "u32 \<Rightarrow> 'a vfs_state_scheme \<Rightarrow> u32 option" where
  "last_node current s =
     (if nd_next (nodes s current) \<noteq> 0 then last_node (nd_next (nodes s current)) s else Some current)"

definition link_node :: "u32 \<Rightarrow> 'a vfs_state_scheme \<Rightarrow> 'a vfs_state_scheme option" where
  "link_node node s =
     (if vfs_root s = 0 then Some (s\<lparr>vfs_root := node\<rparr>)
      else do {
        current \<leftarrow> last_node (vfs_root s) s;
        let s1 = set_node current (nodes s current\<lparr>nd_next := node\<rparr>) s;
        Some (set_node node (nodes s1 node\<lparr>nd_prev := current\<rparr>) s1)
      })"

definition vfs_register_node :: "u32 \<Rightarrow> 'a vfs_state_scheme \<Rightarrow> 'a vfs_state_scheme option" where
  "vfs_register_node node s =
     (if node = 0 then Some s
      else do {
        let n = nodes s node\<lparr>nd_next := 0, nd_prev := 0\<rparr>;
        let n = (if nd_ref_count n = 0 then n\<lparr>nd_ref_count := 1\<rparr> else n);
        s1 \<leftarrow> link_node node (set_node node n s);
        let h = unat (vfs_hash (nd_name (nodes s1 node)));
        (entry, s2) \<leftarrow> kmem_zalloc SIZEOF_ENTRY s1;
        if entry = 0 then None
        else do {
          nm \<leftarrow> strcpy (replicate 32 0) (nd_name (nodes s2 node));
          Some (s2\<lparr>vfs_hash_table := (vfs_hash_table s2)
            [h := \<lparr>he_addr = entry, he_name = nm, he_node = node\<rparr> # vfs_hash_table s2 ! h]\<rparr>)
        }
      })"

text \<open>The loop of \<open>vfs_unregister_node\<close>: the bucket without the first entry of the node, and that entry.\<close>

fun remove_entry :: "u32 \<Rightarrow> vfs_hash_entry list \<Rightarrow> vfs_hash_entry list \<times> vfs_hash_entry option" where
  "remove_entry node [] = ([], None)"
| "remove_entry node (e # es) =
     (if he_node e = node then (es, Some e)
      else let (es', r) = remove_entry node es in (e # es', r))"

definition unlink_node :: "u32 \<Rightarrow> 'a vfs_state_scheme \<Rightarrow> 'a vfs_state_scheme" where
  "unlink_node node s =
     (let n = nodes s node;
          s1 = (if nd_prev n \<noteq> 0 then set_node (nd_prev n) (nodes s (nd_prev n)\<lparr>nd_next := nd_next n\<rparr>) s
                else s\<lparr>vfs_root := nd_next n\<rparr>);
          m = nodes s1 node
      in if nd_next m \<noteq> 0 then set_node (nd_next m) (nodes s1 (nd_next m)\<lparr>nd_prev := nd_prev m\<rparr>) s1
         else s1)"

definition vfs_unregister_node :: "u32 \<Rightarrow> 'a vfs_state_scheme \<Rightarrow> 'a vfs_state_scheme" where
  "vfs_unregister_node node s =
     (if node = 0 then s
      else let s1 = unlink_node node s;
               h = unat (vfs_hash (nd_name (nodes s1 node)));
               (bucket, removed) = remove_entry node (vfs_hash_table s1 ! h);
               s2 = (case removed of
                       None \<Rightarrow> s1
                     | Some e \<Rightarrow> kmem_free (he_addr e) (s1\<lparr>vfs_hash_table := (vfs_hash_table s1)[h := bucket]\<rparr>))
           in set_node node (nodes s2 node\<lparr>nd_next := 0, nd_prev := 0\<rparr>) s2)"

section \<open>Calls through a node\<close>

definition vfs_read ::
  "(read_fn \<Rightarrow> u32 \<Rightarrow> u32 \<Rightarrow> u32 \<Rightarrow> 'b \<Rightarrow> 'a vfs_state_scheme \<Rightarrow> (u32 \<times> 'b \<times> 'a vfs_state_scheme) option)
   \<Rightarrow> u32 \<Rightarrow> u32 \<Rightarrow> u32 \<Rightarrow> 'b option \<Rightarrow> 'a vfs_state_scheme \<Rightarrow> (u32 \<times> 'b option \<times> 'a vfs_state_scheme) option"
where
  "vfs_read call node offset sz buffer s =
     (case buffer of
        None \<Rightarrow> Some (0, None, s)
      | Some b \<Rightarrow>
          if node = 0 \<or> nd_read (nodes s node) = No_read then Some (0, Some b, s)
          else do {
            (n, b', s') \<leftarrow> call (nd_read (nodes s node)) node offset sz b s;
            Some (n, Some b', s')
          })"

definition vfs_write ::
  "(write_fn \<Rightarrow> u32 \<Rightarrow> u32 \<Rightarrow> u32 \<Rightarrow> 'b \<Rightarrow> 'a vfs_state_scheme \<Rightarrow> (u32 \<times> 'a vfs_state_scheme) option)
   \<Rightarrow> u32 \<Rightarrow> u32 \<Rightarrow> u32 \<Rightarrow> 'b option \<Rightarrow> 'a vfs_state_scheme \<Rightarrow> (u32 \<times> 'a vfs_state_scheme) option"
where
  "vfs_write call node offset sz buffer s =
     (case buffer of
        None \<Rightarrow> Some (0, s)
      | Some b \<Rightarrow>
          if node = 0 \<or> nd_write (nodes s node) = No_write then Some (0, s)
          else call (nd_write (nodes s node)) node offset sz b s)"

definition vfs_retain :: "u32 \<Rightarrow> 'a vfs_state_scheme \<Rightarrow> u32 \<times> 'a vfs_state_scheme" where
  "vfs_retain node s =
     (if node = 0 then (0, s)
      else (node, if \<not> nd_persistent (nodes s node)
                  then set_node node (nodes s node\<lparr>nd_ref_count := nd_ref_count (nodes s node) + 1\<rparr>) s
                  else s))"

definition vfs_release ::
  "(close_fn \<Rightarrow> u32 \<Rightarrow> 'a vfs_state_scheme \<Rightarrow> 'a vfs_state_scheme option)
   \<Rightarrow> u32 \<Rightarrow> 'a vfs_state_scheme \<Rightarrow> 'a vfs_state_scheme option"
where
  "vfs_release call node s =
     (if node = 0 then Some s
      else let s1 = (if nd_ref_count (nodes s node) > 0
                     then set_node node (nodes s node\<lparr>nd_ref_count := nd_ref_count (nodes s node) - 1\<rparr>) s
                     else s)
           in if nd_ref_count (nodes s1 node) = 0 \<and> \<not> nd_persistent (nodes s1 node)
              then if nd_close (nodes s1 node) \<noteq> No_close then call (nd_close (nodes s1 node)) node s1
                   else Some (kmem_free node s1)
              else Some s1)"

definition vfs_close ::
  "(close_fn \<Rightarrow> u32 \<Rightarrow> 'a vfs_state_scheme \<Rightarrow> 'a vfs_state_scheme option)
   \<Rightarrow> u32 \<Rightarrow> 'a vfs_state_scheme \<Rightarrow> 'a vfs_state_scheme option"
where
  "vfs_close call node s = vfs_release call node s"

text \<open>
  The boundary test of the longest-prefix match. \<open>path[len - 1]\<close> is read only when the
  first two tests fail, and then lies before the object if the mount path is empty.
\<close>

definition at_boundary :: "cstr \<Rightarrow> cstr \<Rightarrow> bool option" where
  "at_boundary name path =
     (let len = strlen path; c = deref (drop len name)
      in if c = 47 \<or> c = 0 then Some True
         else if len = 0 then None else Some (path ! (len - 1) = 47))"

fun best_mount ::
  "cstr \<Rightarrow> mount_point list \<Rightarrow> mount_point option \<Rightarrow> nat \<Rightarrow> mount_point option option"
where
  "best_mount name [] best best_len = Some best"
| "best_mount name (m # ms) best best_len =
     (let len = strlen (mp_path m)
      in if strncmp name (mp_path m) len = 0
         then do {
           b \<leftarrow> at_boundary name (mp_path m);
           if b \<and> best_len < len then best_mount name ms (Some m) len
           else best_mount name ms best best_len
         }
         else best_mount name ms best best_len)"

definition vfs_open ::
  "(open_fn \<Rightarrow> cstr \<Rightarrow> 'a vfs_state_scheme \<Rightarrow> (u32 \<times> 'a vfs_state_scheme) option)
   \<Rightarrow> cstr \<Rightarrow> 'a vfs_state_scheme \<Rightarrow> (u32 \<times> 'a vfs_state_scheme) option"
where
  "vfs_open call name s =
     (let node = vfs_find (Some name) s
      in if node \<noteq> 0 then Some (vfs_retain node s)
         else do {
           best \<leftarrow> best_mount name (mount_list s) None 0;
           case best of
             Some m \<Rightarrow> if drv_open (mp_driver m) \<noteq> No_open then call (drv_open (mp_driver m)) name s
                       else Some (0, s)
           | None \<Rightarrow> Some (0, s)
         })"

definition vfs_is_device :: "u32 \<Rightarrow> 'a vfs_state_scheme \<Rightarrow> bool" where
  "vfs_is_device node s \<longleftrightarrow> node \<noteq> 0 \<and> nd_type (nodes s node) = VFS_DEVICE"

section \<open>Lookup\<close>

lemma hash_loop_content: "hash_loop (content s) h = hash_loop s h"
  by (induction s arbitrary: h) auto

lemma vfs_hash_cong: "content s = content t \<Longrightarrow> vfs_hash s = vfs_hash t"
  by (metis vfs_hash_def hash_loop_content)

lemma vfs_hash_less: "unat (vfs_hash s) < 128"
  by (simp add: vfs_hash_def VFS_HASH_SIZE_def unat_mod)

lemma kmem_zalloc_heap:
  assumes "kmem_zalloc sz s = Some (p, s')"
  shows "\<exists>h. s' = s\<lparr>kheap := h\<rparr>"
  using assms by (auto simp: kmem_zalloc_def split: bind_split_asm)

lemma set_node_fields [simp]:
  "nodes (set_node p n s) = (nodes s)(p := n)" "vfs_hash_table (set_node p n s) = vfs_hash_table s"
  "registered_drivers (set_node p n s) = registered_drivers s" "mount_list (set_node p n s) = mount_list s"
  "vfs_root (set_node p n s) = vfs_root s" "kheap (set_node p n s) = kheap s"
  "vfs_state.more (set_node p n s) = vfs_state.more s"
  by (simp_all add: set_node_def)

lemma kmem_free_fields [simp]:
  "nodes (kmem_free p s) = nodes s" "vfs_hash_table (kmem_free p s) = vfs_hash_table s"
  "mount_list (kmem_free p s) = mount_list s" "vfs_state.more (kmem_free p s) = vfs_state.more s"
  by (simp_all add: kmem_free_def)

lemma link_node_table:
  assumes "link_node node s = Some s'"
  shows "vfs_hash_table s' = vfs_hash_table s \<and> (\<forall>p. nd_name (nodes s' p) = nd_name (nodes s p))"
  using assms by (auto simp: link_node_def Let_def split: if_splits bind_split_asm)

lemma unlink_node_table [simp]:
  "vfs_hash_table (unlink_node node s) = vfs_hash_table s"
  "nd_name (nodes (unlink_node node s) p) = nd_name (nodes s p)"
  by (simp_all add: unlink_node_def Let_def)

lemma vfs_find_Some: "vfs_find (Some n) s = find_entry n (vfs_hash_table s ! unat (vfs_hash n))"
  by (simp add: vfs_find_def)

lemma vfs_register_node_effect:
  assumes "vfs_register_node node s = Some s'" "node \<noteq> 0"
  shows "\<exists>e. he_node e = node \<and> content (he_name e) = content (nd_name (nodes s node)) \<and>
      vfs_hash_table s' = (let h = unat (vfs_hash (nd_name (nodes s node)))
         in (vfs_hash_table s)[h := e # vfs_hash_table s ! h]) \<and>
      nd_name (nodes s' node) = nd_name (nodes s node)"
proof -
  define n where "n = (let n = nodes s node\<lparr>nd_next := 0, nd_prev := 0\<rparr>
      in if nd_ref_count n = 0 then n\<lparr>nd_ref_count := 1\<rparr> else n)"
  have nm0: "nd_name n = nd_name (nodes s node)" by (simp add: n_def Let_def)
  from assms obtain s1 entry s2 nm where
    s1: "link_node node (set_node node n s) = Some s1" and
    s2: "kmem_zalloc SIZEOF_ENTRY s1 = Some (entry, s2)" and
    nm: "strcpy (replicate 32 0) (nd_name (nodes s2 node)) = Some nm" and
    s': "s' = s2\<lparr>vfs_hash_table := (vfs_hash_table s2)
      [unat (vfs_hash (nd_name (nodes s1 node))) := \<lparr>he_addr = entry, he_name = nm, he_node = node\<rparr> #
         vfs_hash_table s2 ! unat (vfs_hash (nd_name (nodes s1 node)))]\<rparr>"
    unfolding vfs_register_node_def n_def [symmetric] Let_def
    by (auto simp: n_def Let_def split: bind_split_asm if_split_asm)
  have n1: "nd_name (nodes s1 node) = nd_name (nodes s node)" and t1: "vfs_hash_table s1 = vfs_hash_table s"
    using link_node_table [OF s1] nm0 by auto
  from kmem_zalloc_heap [OF s2] obtain h where s2': "s2 = s1\<lparr>kheap := h\<rparr>" by blast
  show ?thesis
    using n1 t1 strcpy_content [OF nm] unfolding s' s2'
    by (intro exI [of _ "\<lparr>he_addr = entry, he_name = nm, he_node = node\<rparr>"]) (simp add: Let_def)
qed

lemma vfs_unregister_node_table:
  assumes "node \<noteq> 0"
  shows "vfs_hash_table (vfs_unregister_node node s) =
    (let h = unat (vfs_hash (nd_name (nodes s node)))
     in case remove_entry node (vfs_hash_table s ! h) of
          (bucket, None) \<Rightarrow> vfs_hash_table s
        | (bucket, Some e) \<Rightarrow> (vfs_hash_table s)[h := bucket])"
  using assms by (simp add: vfs_unregister_node_def Let_def split: prod.split option.split)

text \<open>Registering a node makes \<open>vfs_find\<close> return it for its name and for no other name,
  and unregistering it again gives back the table as it was: the node that had the name
  before, if any, is found again.\<close>

theorem vfs_register_unregister:
  assumes "vfs_register_node node s = Some s'" "node \<noteq> 0" "length (vfs_hash_table s) = 128"
  shows "vfs_find (Some name) s' =
      (if content name = content (nd_name (nodes s node)) then node else vfs_find (Some name) s) \<and>
    vfs_hash_table (vfs_unregister_node node s') = vfs_hash_table s"
proof -
  obtain e where e: "he_node e = node" "content (he_name e) = content (nd_name (nodes s node))"
      "vfs_hash_table s' = (let h = unat (vfs_hash (nd_name (nodes s node)))
         in (vfs_hash_table s)[h := e # vfs_hash_table s ! h])"
      "nd_name (nodes s' node) = nd_name (nodes s node)"
    using vfs_register_node_effect [OF assms(1,2)] by blast
  note len = assms(3) vfs_hash_less
  have "vfs_find (Some name) s' =
      (if content name = content (nd_name (nodes s node)) then node else vfs_find (Some name) s)"
  proof (cases "vfs_hash name = vfs_hash (nd_name (nodes s node))")
    case True
    then show ?thesis using e len by (auto simp: vfs_find_Some Let_def strcmp_zero)
  next
    case False
    then have "content name \<noteq> content (nd_name (nodes s node))" using vfs_hash_cong by blast
    moreover have "unat (vfs_hash (nd_name (nodes s node))) \<noteq> unat (vfs_hash name)"
      using False by (simp add: word_unat_eq_iff)
    ultimately show ?thesis using e by (simp add: vfs_find_Some Let_def)
  qed
  moreover have "vfs_hash_table (vfs_unregister_node node s') = vfs_hash_table s"
    using e len by (simp add: vfs_unregister_node_table [OF assms(2)] Let_def)
  ultimately show ?thesis by blast
qed

section \<open>Mounts\<close>

text \<open>A mount serves a name if its path is a prefix that ends at a component boundary.\<close>

definition mount_serves :: "cstr \<Rightarrow> mount_point \<Rightarrow> bool" where
  "mount_serves name m \<longleftrightarrow>
     (let p = content (mp_path m); rest = drop (length p) (content name)
      in take (length p) (content name) = p \<and> (rest = [] \<or> hd rest = 47 \<or> last p = 47))"

text \<open>The first of the longest paths among the mounts that serve the name.\<close>

definition is_longest :: "cstr \<Rightarrow> mount_point list \<Rightarrow> mount_point \<Rightarrow> bool" where
  "is_longest name ms m \<longleftrightarrow>
     (\<exists>xs ys. ms = xs @ m # ys \<and> mount_serves name m \<and>
        (\<forall>x \<in> set xs. mount_serves name x \<longrightarrow> strlen (mp_path x) < strlen (mp_path m)) \<and>
        (\<forall>y \<in> set ys. mount_serves name y \<longrightarrow> strlen (mp_path y) \<le> strlen (mp_path m)))"

lemma is_longest_head:
  "mount_serves name m \<Longrightarrow> \<forall>y \<in> set ms. mount_serves name y \<longrightarrow> strlen (mp_path y) \<le> strlen (mp_path m) \<Longrightarrow>
     is_longest name (m # ms) m"
  unfolding is_longest_def by (intro exI [of _ "[]"] exI [of _ ms]) simp

lemma is_longest_later:
  assumes "is_longest name ms m'" "mount_serves name m \<longrightarrow> strlen (mp_path m) < strlen (mp_path m')"
  shows "is_longest name (m # ms) m'"
proof -
  from assms(1) obtain xs ys where "ms = xs @ m' # ys" "mount_serves name m'"
    "\<forall>x \<in> set xs. mount_serves name x \<longrightarrow> strlen (mp_path x) < strlen (mp_path m')"
    "\<forall>y \<in> set ys. mount_serves name y \<longrightarrow> strlen (mp_path y) \<le> strlen (mp_path m')"
    unfolding is_longest_def by blast
  then show ?thesis using assms(2) unfolding is_longest_def
    by (intro exI [of _ "m # xs"] exI [of _ ys]) simp
qed

lemma deref_drop_content:
  assumes "n \<le> length (content s)"
  shows "deref (drop n s) = (if n < length (content s) then content s ! n else 0)"
  using assms
proof (induction s arbitrary: n)
  case (Cons c cs)
  then show ?case by (cases n) (auto simp: deref_def split: if_splits)
qed (simp add: deref_def)

lemma nth_content: "i < length (content s) \<Longrightarrow> s ! i = content s ! i"
  by (simp add: content_def takeWhile_nth)

lemma mount_boundary:
  assumes "content (mp_path m) \<noteq> []" "take (length (content (mp_path m))) (content name) = content (mp_path m)"
  shows "at_boundary name (mp_path m) = Some (mount_serves name m)"
proof -
  define p n where "p = content (mp_path m)" and "n = content name"
  have p: "p \<noteq> []" "take (length p) n = p" using assms by (simp_all add: p_def n_def)
  have lp: "mp_path m ! (length p - 1) = last p"
    using p(1) nth_content [of "length p - 1" "mp_path m"] by (simp add: p_def last_conv_nth)
  have le: "length p \<le> length n" using p(2) by (metis length_take min.cobounded1)
  have d: "deref (drop (length p) name) = (if length p < length n then n ! length p else 0)"
    using deref_drop_content [of "length p" name] le by (simp add: n_def)
  have serves: "mount_serves name m \<longleftrightarrow> drop (length p) n = [] \<or> hd (drop (length p) n) = 47 \<or> last p = 47"
    using p(2) by (simp add: mount_serves_def Let_def p_def n_def)
  have bd: "at_boundary name (mp_path m) =
      Some (deref (drop (length p) name) = 47 \<or> deref (drop (length p) name) = 0 \<or> last p = 47)"
    using p(1) lp by (simp add: at_boundary_def Let_def strlen_content p_def [symmetric])
  show ?thesis
  proof (cases "length p < length n")
    case True
    then have "n ! length p \<noteq> 0" using content_nonzero nth_mem n_def by blast
    with True show ?thesis by (simp add: bd serves d hd_drop_conv_nth)
  qed (simp add: bd serves d)
qed

lemma best_mount_step:
  assumes "content (mp_path m) \<noteq> []"
  shows "best_mount name (m # ms) best n =
    (if mount_serves name m \<and> n < strlen (mp_path m)
     then best_mount name ms (Some m) (strlen (mp_path m))
     else best_mount name ms best n)"
proof (cases "strncmp name (mp_path m) (strlen (mp_path m)) = 0")
  case True
  then have "take (length (content (mp_path m))) (content name) = content (mp_path m)"
    by (simp add: strncmp_prefix)
  with True mount_boundary [OF assms] show ?thesis by (simp add: Let_def)
next
  case False
  then have "\<not> mount_serves name m" by (simp add: strncmp_prefix mount_serves_def Let_def)
  with False show ?thesis by (simp add: Let_def)
qed

declare best_mount.simps(2) [simp del]

lemma best_mount_spec:
  assumes "\<forall>m \<in> set ms. content (mp_path m) \<noteq> []"
  shows "\<exists>r. best_mount name ms best n = Some r \<and>
    (r = best \<and> (\<forall>m \<in> set ms. mount_serves name m \<longrightarrow> strlen (mp_path m) \<le> n) \<or>
     (\<exists>m. r = Some m \<and> n < strlen (mp_path m) \<and> is_longest name ms m))"
  using assms
proof (induction ms arbitrary: best n)
  case (Cons m ms)
  show ?case
  proof (cases "mount_serves name m \<and> n < strlen (mp_path m)")
    case True
    have "\<exists>r. best_mount name ms (Some m) (strlen (mp_path m)) = Some r \<and>
      (r = Some m \<and> (\<forall>m' \<in> set ms. mount_serves name m' \<longrightarrow> strlen (mp_path m') \<le> strlen (mp_path m)) \<or>
       (\<exists>m'. r = Some m' \<and> strlen (mp_path m) < strlen (mp_path m') \<and> is_longest name ms m'))"
      using Cons.prems by (intro Cons.IH, simp)
    moreover have "best_mount name (m # ms) best n = best_mount name ms (Some m) (strlen (mp_path m))"
      using True Cons.prems by (simp add: best_mount_step)
    ultimately show ?thesis
      using True is_longest_head [of name m ms] is_longest_later [of name ms _ m] by (metis less_trans)
  next
    case False
    have "\<exists>r. best_mount name ms best n = Some r \<and>
      (r = best \<and> (\<forall>m' \<in> set ms. mount_serves name m' \<longrightarrow> strlen (mp_path m') \<le> n) \<or>
       (\<exists>m'. r = Some m' \<and> n < strlen (mp_path m') \<and> is_longest name ms m'))"
      using Cons.prems by (intro Cons.IH, simp)
    moreover have "best_mount name (m # ms) best n = best_mount name ms best n"
      using Cons.prems by (subst best_mount_step) (simp, simp only: if_not_P [OF False])
    moreover have "is_longest name (m # ms) m'" if "n < strlen (mp_path m')" "is_longest name ms m'" for m'
      using that False by (intro is_longest_later) auto
    moreover have "mount_serves name m \<longrightarrow> strlen (mp_path m) \<le> n" using False by auto
    ultimately show ?thesis by auto
  qed
qed simp

text \<open>C16: Opening a name that no registered node has calls the open function of the longest mount
  path that is a prefix of the name and ends at a component boundary (of two equal paths, of
  the one mounted last), and fails without a call if no mount serves the name.\<close>

theorem vfs_open_longest_prefix:
  assumes "\<forall>m \<in> set (mount_list s). content (mp_path m) \<noteq> []"
    and "\<forall>m \<in> set (mount_list s). drv_open (mp_driver m) \<noteq> No_open"
  shows "if vfs_find (Some name) s \<noteq> 0 then vfs_open call name s = Some (vfs_retain (vfs_find (Some name) s) s)
    else (\<exists>m. is_longest name (mount_list s) m \<and> vfs_open call name s = call (drv_open (mp_driver m)) name s) \<or>
      (\<forall>m \<in> set (mount_list s). \<not> mount_serves name m) \<and> vfs_open call name s = Some (0, s)"
proof (cases "vfs_find (Some name) s \<noteq> 0")
  case False
  from best_mount_spec [OF assms(1), of name None 0] obtain r where
    r: "best_mount name (mount_list s) None 0 = Some r" and
    "r = None \<and> (\<forall>m \<in> set (mount_list s). mount_serves name m \<longrightarrow> strlen (mp_path m) \<le> 0) \<or>
      (\<exists>m. r = Some m \<and> is_longest name (mount_list s) m)" by blast
  then consider
    (none) "r = None" "\<forall>m \<in> set (mount_list s). mount_serves name m \<longrightarrow> strlen (mp_path m) \<le> 0"
    | (some) m where "r = Some m" "is_longest name (mount_list s) m" by blast
  then show ?thesis
  proof cases
    case none
    then have "\<forall>m \<in> set (mount_list s). \<not> mount_serves name m" using assms(1) by (auto simp: strlen_content)
    then show ?thesis using False none r by (simp add: vfs_open_def)
  next
    case some
    then have "m \<in> set (mount_list s)" by (auto simp: is_longest_def)
    then have "vfs_open call name s = call (drv_open (mp_driver m)) name s"
      using False some r assms(2) by (simp add: vfs_open_def)
    then show ?thesis using False some by auto
  qed
qed (simp add: vfs_open_def Let_def)

section \<open>Reference counts\<close>

lemma vfs_release_counts_down:
  assumes "node \<noteq> 0" "1 < nd_ref_count (nodes s node)"
  shows "vfs_release call node s =
    Some (set_node node (nodes s node\<lparr>nd_ref_count := nd_ref_count (nodes s node) - 1\<rparr>) s)"
proof -
  have "nd_ref_count (nodes s node) \<noteq> 1" using assms(2) by auto
  then have "nd_ref_count (nodes s node) - 1 \<noteq> 0" by simp
  moreover have "nd_ref_count (nodes s node) > 0" using assms(2) by (simp add: word_less_nat_alt)
  ultimately show ?thesis using assms(1) by (simp add: vfs_release_def Let_def)
qed

fun retain_times :: "nat \<Rightarrow> u32 \<Rightarrow> 'a vfs_state_scheme \<Rightarrow> 'a vfs_state_scheme" where
  "retain_times 0 node s = s"
| "retain_times (Suc k) node s = retain_times k node (snd (vfs_retain node s))"

fun release_times ::
  "(close_fn \<Rightarrow> u32 \<Rightarrow> 'a vfs_state_scheme \<Rightarrow> 'a vfs_state_scheme option)
   \<Rightarrow> nat \<Rightarrow> u32 \<Rightarrow> 'a vfs_state_scheme \<Rightarrow> 'a vfs_state_scheme option"
where
  "release_times call 0 node s = Some s"
| "release_times call (Suc k) node s = Option.bind (vfs_release call node s) (release_times call k node)"

lemma set_node_set_node [simp]: "set_node p n (set_node p m s) = set_node p n s"
  by (simp add: set_node_def)

lemma set_node_same [simp]: "set_node p (nodes s p) s = s"
  by (simp add: set_node_def)

lemma retain_times_eq:
  assumes "node \<noteq> 0" "\<not> nd_persistent (nodes s node)"
  shows "retain_times k node s =
    set_node node (nodes s node\<lparr>nd_ref_count := nd_ref_count (nodes s node) + of_nat k\<rparr>) s"
  using assms
  by (induction k arbitrary: s) (simp_all add: vfs_retain_def algebra_simps)

lemma release_times_eq:
  assumes "node \<noteq> 0" "k < unat (nd_ref_count (nodes s node))"
  shows "release_times call k node s =
    Some (set_node node (nodes s node\<lparr>nd_ref_count := nd_ref_count (nodes s node) - of_nat k\<rparr>) s)"
  using assms
proof (induction k arbitrary: s)
  case (Suc k)
  let ?c = "nd_ref_count (nodes s node)"
  have "1 < ?c" using Suc.prems by (simp add: word_less_nat_alt)
  then have u: "unat (?c - 1) = unat ?c - 1" by (simp add: unat_sub_le word_less_nat_alt)
  have "vfs_release call node s = Some (set_node node (nodes s node\<lparr>nd_ref_count := ?c - 1\<rparr>) s)"
    using Suc.prems \<open>1 < ?c\<close> by (intro vfs_release_counts_down)
  then show ?case using Suc.prems u by (simp add: Suc.IH algebra_simps)
qed simp

text \<open>Reference counting is balanced: after any number of retains, as many releases give back
  the state as it was, and only the release that takes the count to zero closes the node, by
  its close function or, when it has none, by freeing it.\<close>

theorem vfs_retain_release_balanced:
  assumes "node \<noteq> 0" "\<not> nd_persistent (nodes s node)" "nd_ref_count (nodes s node) = 1" "k < 4294967294"
  shows "release_times call k node (retain_times k node s) = Some s \<and>
    vfs_release call node s =
      (let s1 = set_node node (nodes s node\<lparr>nd_ref_count := 0\<rparr>) s
       in if nd_close (nodes s node) = No_close then Some (kmem_free node s1)
          else call (nd_close (nodes s node)) node s1)"
proof -
  have "unat (1 + of_nat k :: u32) = Suc k"
    using assms(4) by (simp add: unat_add_no_wrap unat_of_nat_small)
  moreover have same: "nodes s node\<lparr>nd_ref_count := 1\<rparr> = nodes s node"
    using assms(3) by (cases "nodes s node") simp
  ultimately have "release_times call k node (retain_times k node s) = Some s"
    using assms(1-3) by (simp add: retain_times_eq release_times_eq same)
  then show ?thesis using assms(1-3) by (simp add: vfs_release_def Let_def)
qed

section \<open>Witnesses\<close>

lemma mem_zalloc_boot:
  assumes "form_size sz \<le> 0xFFFEC"
  shows "\<exists>h. mem_zalloc sz boot_heap = Some (0x600014, h)"
proof -
  obtain s1 where "mem_alloc sz boot_heap = Some (0x600014, s1)"
    using mem_alloc_found [of boot_heap "[0x600000]" sz] boot_heap_tiled assms
    by (fastforce simp: rotate_to_def heap_fits_def boot_heap_fields)
  then show ?thesis by (simp add: mem_zalloc_def)
qed

definition sample_vfs :: vfs_state where
  "sample_vfs = \<lparr>kheap = boot_heap, nodes = (\<lambda>p. zero_node\<lparr>nd_name := bytes ''hda''\<rparr>),
     vfs_hash_table = replicate 128 [], registered_drivers = replicate 8 None,
     mount_list = [\<lparr>mp_path = bytes ''/dev'', mp_driver = \<lparr>drv_name = bytes ''devfs'', drv_open = Fn_devfs_open\<rparr>\<rparr>,
       \<lparr>mp_path = bytes ''/'', mp_driver = \<lparr>drv_name = bytes ''fat16'', drv_open = Fn_fat16_open\<rparr>\<rparr>],
     vfs_root = 0\<rparr>"

theorem vfs_register_unregister_witness:
  "\<exists>s'. vfs_register_node 0x5000 sample_vfs = Some s' \<and> vfs_find (Some (bytes ''hda'')) s' = 0x5000"
proof -
  obtain h where h: "mem_zalloc SIZEOF_ENTRY boot_heap = Some (0x600014, h)"
    using mem_zalloc_boot [of SIZEOF_ENTRY] by (auto simp: form_size_def SIZEOF_ENTRY_def)
  obtain nm where nm: "strcpy (replicate 32 0) (bytes ''hda'') = Some nm"
    using strcpy_some [of "bytes ''hda''" "replicate 32 0"] by (auto simp: bytes_def)
  obtain s' where "vfs_register_node 0x5000 sample_vfs = Some s'"
    using h nm
    by (simp add: vfs_register_node_def link_node_def sample_vfs_def set_node_def kmem_zalloc_def zero_node_def Let_def)
  with vfs_register_unregister [OF this, of "bytes ''hda''"] show ?thesis
    by (simp add: sample_vfs_def)
qed

theorem vfs_open_longest_prefix_witness:
  "vfs_open (\<lambda>f n s. Some (if f = Fn_devfs_open then 7 else 8, s)) (bytes ''/dev/null'') sample_vfs = Some (7, sample_vfs)"
proof -
  let ?c = "\<lambda>f n s. Some (if f = Fn_devfs_open then 7 else 8, s)"
  have f: "vfs_find (Some (bytes ''/dev/null'')) sample_vfs = 0"
    using vfs_hash_less by (simp add: vfs_find_def sample_vfs_def)
  have l: "is_longest (bytes ''/dev/null'') (mount_list sample_vfs) m \<Longrightarrow> drv_open (mp_driver m) = Fn_devfs_open" for m
    by (auto simp: is_longest_def sample_vfs_def mount_serves_def bytes_def Let_def Cons_eq_append_conv)
  have s: "\<not> (\<forall>m \<in> set (mount_list sample_vfs). \<not> mount_serves (bytes ''/dev/null'') m)"
    by (simp add: sample_vfs_def mount_serves_def bytes_def)
  from vfs_open_longest_prefix [of sample_vfs "bytes ''/dev/null''" ?c] f l s
  show ?thesis by (auto simp: sample_vfs_def bytes_def)
qed

theorem vfs_retain_release_balanced_witness:
  "release_times (\<lambda>f n s. None) 3 9 (retain_times 3 9 (set_node 9 (zero_node\<lparr>nd_ref_count := 1\<rparr>) sample_vfs))
     = Some (set_node 9 (zero_node\<lparr>nd_ref_count := 1\<rparr>) sample_vfs)"
  using vfs_retain_release_balanced [of 9 "set_node 9 (zero_node\<lparr>nd_ref_count := 1\<rparr>) sample_vfs" 3 "\<lambda>f n s. None"]
  by (simp add: zero_node_def)

end
