(* ===== verification/Devfs.thy ===== *)
theory Devfs
  imports Vfs
begin

text \<open>
  \<open>fs/devfs/devfs.c\<close>: the list of the device nodes under \<open>/dev\<close> and the devices \<open>null\<close>,
  \<open>zero\<close> and \<open>random\<close>. The wrapper cells of the list are the elements of a list of node
  addresses; the seed of the generator is a word. \<open>get_ticks\<close> is an argument of the
  operation that reads the timer.
\<close>

record devfs_state = vfs_state +
  devfs_nodes :: "u32 list"
  random_seed :: u32

definition SIZEOF_WRAPPER :: u32 where "SIZEOF_WRAPPER = 8"

definition devfs_register_node :: "u32 \<Rightarrow> 'a devfs_state_scheme \<Rightarrow> 'a devfs_state_scheme option" where
  "devfs_register_node node s =
     (if node = 0 then Some s
      else do {
        (w, s1) \<leftarrow> kmem_zalloc SIZEOF_WRAPPER s;
        if w = 0 then None else Some (s1\<lparr>devfs_nodes := node # devfs_nodes s1\<rparr>)
      })"

definition null_read :: "u32 \<Rightarrow> 'b \<Rightarrow> u32 \<times> 'b" where
  "null_read sz buffer = (0, buffer)"

definition null_write :: "u32 \<Rightarrow> 'b \<Rightarrow> u32" where
  "null_write sz buffer = sz"

definition zero_read :: "u32 \<Rightarrow> u8 list \<Rightarrow> (u32 \<times> u8 list) option" where
  "zero_read sz buffer = do { b \<leftarrow> memset buffer 0 0 (unat sz); Some (sz, b) }"

definition zero_write :: "u32 \<Rightarrow> 'b \<Rightarrow> u32" where
  "zero_write sz buffer = sz"

text \<open>One step of the generator, and the byte it yields.\<close>

definition next_seed :: "u32 \<Rightarrow> u32" where
  "next_seed seed = seed * 1103515245 + 12345"

definition seed_byte :: "u32 \<Rightarrow> u8" where
  "seed_byte seed = ucast (drop_bit 16 seed AND 0xFF)"

fun random_fill :: "nat \<Rightarrow> nat \<Rightarrow> u32 \<Rightarrow> u8 list \<Rightarrow> (u32 \<times> u8 list) option" where
  "random_fill i 0 seed buffer = Some (seed, buffer)"
| "random_fill i (Suc n) seed buffer =
     do { b \<leftarrow> put buffer i (seed_byte (next_seed seed)); random_fill (Suc i) n (next_seed seed) b }"

definition random_read ::
  "u32 \<Rightarrow> u32 \<Rightarrow> u8 list \<Rightarrow> 'a devfs_state_scheme \<Rightarrow> (u32 \<times> u8 list \<times> 'a devfs_state_scheme) option"
where
  "random_read ticks sz buffer s =
     do {
       let seed = (if random_seed s = 0 then ticks XOR 0xDEADBEEF else random_seed s);
       (seed', b) \<leftarrow> random_fill 0 (unat sz) seed buffer;
       Some (sz, b, s\<lparr>random_seed := seed'\<rparr>)
     }"

definition random_write :: "u32 \<Rightarrow> 'b \<Rightarrow> u32" where
  "random_write sz buffer = sz"

fun devfs_lookup :: "cstr \<Rightarrow> u32 list \<Rightarrow> 'a vfs_state_scheme \<Rightarrow> u32" where
  "devfs_lookup name [] s = 0"
| "devfs_lookup name (p # ps) s =
     (if strcmp (nd_name (nodes s p)) name = 0 then p else devfs_lookup name ps s)"

definition devfs_open :: "cstr \<Rightarrow> 'a devfs_state_scheme \<Rightarrow> u32 \<times> 'a devfs_state_scheme" where
  "devfs_open path s =
     (let name = (if strncmp path (bytes ''/dev/'') 5 = 0 then drop 5 path else path);
          node = devfs_lookup name (devfs_nodes s) s
      in if node \<noteq> 0 then vfs_retain node s else (0, s))"

text \<open>One device of \<open>devfs_initialize\<close>: allocate the node, fill it in and register it.\<close>

definition devfs_add_device ::
  "cstr \<Rightarrow> read_fn \<Rightarrow> write_fn \<Rightarrow> 'a devfs_state_scheme \<Rightarrow> 'a devfs_state_scheme option"
where
  "devfs_add_device name rd wr s =
     do {
       (n, s1) \<leftarrow> kmem_zalloc SIZEOF_NODE s;
       if n = 0 then None
       else do {
         nm \<leftarrow> strcpy (replicate 256 0) name;
         devfs_register_node n (set_node n
           (zero_node\<lparr>nd_name := nm, nd_type := VFS_DEVICE, nd_read := rd, nd_write := wr, nd_persistent := True\<rparr>) s1)
       }
     }"

definition devfs_initialize :: "'a devfs_state_scheme \<Rightarrow> 'a devfs_state_scheme option" where
  "devfs_initialize s =
     do {
       let s1 = vfs_register_driver \<lparr>drv_name = bytes ''devfs'', drv_open = Fn_devfs_open\<rparr> s;
       (r, s2) \<leftarrow> vfs_mount (bytes ''/dev'') (bytes ''devfs'') s1;
       s3 \<leftarrow> devfs_add_device (bytes ''null'') Fn_null_read Fn_null_write s2;
       s4 \<leftarrow> devfs_add_device (bytes ''zero'') Fn_zero_read Fn_zero_write s3;
       devfs_add_device (bytes ''random'') Fn_random_read Fn_random_write s4
     }"

section \<open>Lookup and data\<close>

text \<open>The path below \<open>/dev/\<close>, which \<open>devfs_open\<close> looks up.\<close>

lemma devfs_open_found:
  assumes "strncmp path (bytes ''/dev/'') 5 = 0" "devfs_lookup (drop 5 path) (devfs_nodes s) s = p"
    "p \<noteq> 0" "nd_persistent (nodes s p)"
  shows "devfs_open path s = (p, s)"
  using assms by (simp add: devfs_open_def Let_def vfs_retain_def)

text \<open>The device of a name is the one registered last under it.\<close>

lemma devfs_lookup_spec:
  assumes "0 \<notin> set ps"
  shows "devfs_lookup name ps s =
    (case find (\<lambda>p. content (nd_name (nodes s p)) = content name) ps of None \<Rightarrow> 0 | Some p \<Rightarrow> p)"
  using assms by (induction ps) (auto simp: strcmp_zero)

text \<open>The bytes of \<open>n\<close> steps of the generator.\<close>

fun seed_bytes :: "nat \<Rightarrow> u32 \<Rightarrow> u8 list" where
  "seed_bytes 0 seed = []"
| "seed_bytes (Suc n) seed = seed_byte (next_seed seed) # seed_bytes n (next_seed seed)"

lemma length_seed_bytes [simp]: "length (seed_bytes n seed) = n"
  by (induction n arbitrary: seed) auto

lemma random_fill_bytes:
  "i + n \<le> length b \<Longrightarrow> random_fill i n seed b =
     Some ((next_seed ^^ n) seed, take i b @ seed_bytes n seed @ drop (i + n) b)"
proof (induction n arbitrary: i seed b)
  case (Suc n)
  have "take (Suc i) (b[i := x]) = take i b @ [x]" for x
    using Suc.prems by (simp add: take_Suc_conv_app_nth)
  then show ?case using Suc by (simp add: put_def funpow_swap1)
qed simp

end
