(* ===== verification/Pipe.thy ===== *)
theory Pipe
  imports Devfs Spinlock Fifo
begin

text \<open>
  \<open>fs/pipe/pipe.c\<close>. The rings are objects by address; a read or write call is a loop whose
  body runs under the ring's lock and ends by taking or storing one byte, by yielding the
  processor or by leaving the loop. What the other tasks do while the caller has yielded
  is an argument: one function on the state for each time the call yields, in order; a
  call that yields once more than there are functions has not returned, which is
  \<open>None\<close>.
\<close>

section \<open>The ring\<close>

record pipe_ring =
  buffer :: "u8 list"
  head :: u32
  tail :: u32
  available_bytes :: u32
  read_closed :: bool
  write_closed :: bool
  pipe_lock :: u32

record pipe_state = devfs_state +
  pipes :: "u32 \<Rightarrow> pipe_ring"

definition PIPE_BUFFER_SIZE :: u32 where "PIPE_BUFFER_SIZE = 4096"
definition SIZEOF_PIPE :: u32 where "SIZEOF_PIPE = 4116"

definition zero_pipe :: pipe_ring where
  "zero_pipe = \<lparr>buffer = replicate 4096 0, head = 0, tail = 0, available_bytes = 0,
     read_closed = False, write_closed = False, pipe_lock = 0\<rparr>"

definition set_pipe :: "u32 \<Rightarrow> pipe_ring \<Rightarrow> 'a pipe_state_scheme \<Rightarrow> 'a pipe_state_scheme" where
  "set_pipe p r s = s\<lparr>pipes := (pipes s)(p := r)\<rparr>"

text \<open>How one turn of a loop ends.\<close>

datatype turn = Again | Yield | Leave

definition pipe_read_turn ::
  "u32 \<Rightarrow> u8 list \<Rightarrow> pipe_ring \<Rightarrow> (turn \<times> u32 \<times> u8 list \<times> pipe_ring) option"
where
  "pipe_read_turn bytes_read buf r =
     do {
       l \<leftarrow> spinlock_acquire (pipe_lock r);
       if available_bytes r > 0
       then do {
         b \<leftarrow> put buf (unat bytes_read) (buffer r ! unat (head r));
         Some (Again, bytes_read + 1, b,
           r\<lparr>head := (head r + 1) mod PIPE_BUFFER_SIZE, available_bytes := available_bytes r - 1,
             pipe_lock := spinlock_release l\<rparr>)
       }
       else if bytes_read > 0 then Some (Leave, bytes_read, buf, r\<lparr>pipe_lock := spinlock_release l\<rparr>)
       else if write_closed r then Some (Leave, bytes_read, buf, r\<lparr>pipe_lock := spinlock_release l\<rparr>)
       else Some (Yield, bytes_read, buf, r\<lparr>pipe_lock := spinlock_release l\<rparr>)
     }"

partial_function (option) pipe_read_loop ::
  "('a pipe_state_scheme \<Rightarrow> 'a pipe_state_scheme) list \<Rightarrow> u32 \<Rightarrow> u32 \<Rightarrow> u32 \<Rightarrow> u8 list
   \<Rightarrow> 'a pipe_state_scheme \<Rightarrow> (u32 \<times> u8 list \<times> 'a pipe_state_scheme) option"
where
  "pipe_read_loop others pipe sz bytes_read buf s =
     (if bytes_read < sz
      then do {
        (t, n, b, r) \<leftarrow> pipe_read_turn bytes_read buf (pipes s pipe);
        let s1 = set_pipe pipe r s;
        case t of
          Again \<Rightarrow> pipe_read_loop others pipe sz n b s1
        | Leave \<Rightarrow> Some (n, b, s1)
        | Yield \<Rightarrow> (case others of [] \<Rightarrow> None | e # es \<Rightarrow> pipe_read_loop es pipe sz n b (e s1))
      }
      else Some (bytes_read, buf, s))"

definition pipe_vfs_read ::
  "('a pipe_state_scheme \<Rightarrow> 'a pipe_state_scheme) list \<Rightarrow> u32 \<Rightarrow> u32 \<Rightarrow> u32 \<Rightarrow> u8 list option
   \<Rightarrow> 'a pipe_state_scheme \<Rightarrow> (u32 \<times> u8 list option \<times> 'a pipe_state_scheme) option"
where
  "pipe_vfs_read others node offset sz buf s =
     (let pipe = nd_ptr (nodes s node)
      in case buf of
           None \<Rightarrow> Some (0, None, s)
         | Some b \<Rightarrow>
             if pipe = 0 \<or> sz = 0 then Some (0, Some b, s)
             else do { (n, b', s') \<leftarrow> pipe_read_loop others pipe sz 0 b s; Some (n, Some b', s') })"

definition pipe_write_turn :: "u32 \<Rightarrow> u8 list \<Rightarrow> pipe_ring \<Rightarrow> (turn \<times> u32 \<times> pipe_ring) option" where
  "pipe_write_turn bytes_written buf r =
     do {
       l \<leftarrow> spinlock_acquire (pipe_lock r);
       if read_closed r then Some (Leave, bytes_written, r\<lparr>pipe_lock := spinlock_release l\<rparr>)
       else if available_bytes r < PIPE_BUFFER_SIZE
       then Some (Again, bytes_written + 1,
         r\<lparr>buffer := (buffer r)[unat (tail r) := buf ! unat bytes_written],
           tail := (tail r + 1) mod PIPE_BUFFER_SIZE, available_bytes := available_bytes r + 1,
           pipe_lock := spinlock_release l\<rparr>)
       else Some (Yield, bytes_written, r\<lparr>pipe_lock := spinlock_release l\<rparr>)
     }"

partial_function (option) pipe_write_loop ::
  "('a pipe_state_scheme \<Rightarrow> 'a pipe_state_scheme) list \<Rightarrow> u32 \<Rightarrow> u32 \<Rightarrow> u32 \<Rightarrow> u8 list
   \<Rightarrow> 'a pipe_state_scheme \<Rightarrow> (u32 \<times> 'a pipe_state_scheme) option"
where
  "pipe_write_loop others pipe sz bytes_written buf s =
     (if bytes_written < sz
      then do {
        (t, n, r) \<leftarrow> pipe_write_turn bytes_written buf (pipes s pipe);
        let s1 = set_pipe pipe r s;
        case t of
          Again \<Rightarrow> pipe_write_loop others pipe sz n buf s1
        | Leave \<Rightarrow> Some (n, s1)
        | Yield \<Rightarrow> (case others of [] \<Rightarrow> None | e # es \<Rightarrow> pipe_write_loop es pipe sz n buf (e s1))
      }
      else Some (bytes_written, s))"

definition pipe_vfs_write ::
  "('a pipe_state_scheme \<Rightarrow> 'a pipe_state_scheme) list \<Rightarrow> u32 \<Rightarrow> u32 \<Rightarrow> u32 \<Rightarrow> u8 list option
   \<Rightarrow> 'a pipe_state_scheme \<Rightarrow> (u32 \<times> 'a pipe_state_scheme) option"
where
  "pipe_vfs_write others node offset sz buf s =
     (let pipe = nd_ptr (nodes s node)
      in case buf of
           None \<Rightarrow> Some (0, s)
         | Some b \<Rightarrow> if pipe = 0 \<or> sz = 0 then Some (0, s) else pipe_write_loop others pipe sz 0 b s)"

section \<open>Opening and closing\<close>

definition pipe_vfs_close_read :: "u32 \<Rightarrow> 'a pipe_state_scheme \<Rightarrow> 'a pipe_state_scheme option" where
  "pipe_vfs_close_read node s =
     (let pipe = nd_ptr (nodes s node); r = pipes s pipe
      in if pipe = 0 then Some s
         else do {
           l \<leftarrow> spinlock_acquire (pipe_lock r);
           let should_free = write_closed r;
           let s1 = set_pipe pipe (r\<lparr>read_closed := True, pipe_lock := spinlock_release l\<rparr>) s;
           Some (kmem_free node (if should_free then kmem_free pipe s1 else s1))
         })"

definition pipe_vfs_close_write :: "u32 \<Rightarrow> 'a pipe_state_scheme \<Rightarrow> 'a pipe_state_scheme option" where
  "pipe_vfs_close_write node s =
     (let pipe = nd_ptr (nodes s node); r = pipes s pipe
      in if pipe = 0 then Some s
         else do {
           l \<leftarrow> spinlock_acquire (pipe_lock r);
           let should_free = read_closed r;
           let s1 = set_pipe pipe (r\<lparr>write_closed := True, pipe_lock := spinlock_release l\<rparr>) s;
           Some (kmem_free node (if should_free then kmem_free pipe s1 else s1))
         })"

text \<open>An end of a new pipe.\<close>

definition pipe_node :: "cstr \<Rightarrow> u32 \<Rightarrow> read_fn \<Rightarrow> write_fn \<Rightarrow> close_fn \<Rightarrow> vfs_node option" where
  "pipe_node name pipe rd wr cl =
     do {
       nm \<leftarrow> strcpy (replicate 256 0) name;
       Some (zero_node\<lparr>nd_type := VFS_PIPE, nd_ref_count := 1, nd_persistent := False, nd_name := nm,
         nd_ptr := pipe, nd_read := rd, nd_write := wr, nd_close := cl\<rparr>)
     }"

text \<open>\<open>pipe_create\<close> returns the status and the two nodes.\<close>

definition pipe_create :: "'a pipe_state_scheme \<Rightarrow> (int \<times> u32 \<times> u32 \<times> 'a pipe_state_scheme) option" where
  "pipe_create s =
     do {
       (pipe, s1) \<leftarrow> kmem_zalloc SIZEOF_PIPE s;
       if pipe = 0 then Some (- 1, 0, 0, s1)
       else do {
         (rn, s2) \<leftarrow> kmem_zalloc SIZEOF_NODE (set_pipe pipe zero_pipe s1);
         if rn = 0 then Some (- 1, 0, 0, kmem_free pipe s2)
         else do {
           r \<leftarrow> pipe_node (bytes ''pipe_read'') pipe Fn_pipe_read No_write Fn_pipe_close_read;
           (wn, s3) \<leftarrow> kmem_zalloc SIZEOF_NODE (set_node rn r s2);
           if wn = 0 then Some (- 1, rn, 0, kmem_free pipe (kmem_free rn s3))
           else do {
             w \<leftarrow> pipe_node (bytes ''pipe_write'') pipe No_read Fn_pipe_write Fn_pipe_close_write;
             Some (0, rn, wn, set_node wn w s3)
           }
         }
       }
     }"

section \<open>Closing a node\<close>

text \<open>\<open>procfs_close\<close> of \<open>procfs.c\<close>, and the call through a node's close pointer.\<close>

definition procfs_close :: "u32 \<Rightarrow> 'a vfs_state_scheme \<Rightarrow> 'a vfs_state_scheme" where
  "procfs_close node s =
     (let p = nd_ptr (nodes s node) in kmem_free node (if p \<noteq> 0 then kmem_free p s else s))"

definition close_node :: "close_fn \<Rightarrow> u32 \<Rightarrow> 'a pipe_state_scheme \<Rightarrow> 'a pipe_state_scheme option" where
  "close_node f node s =
     (case f of
        No_close \<Rightarrow> None
      | Fn_pipe_close_read \<Rightarrow> pipe_vfs_close_read node s
      | Fn_pipe_close_write \<Rightarrow> pipe_vfs_close_write node s
      | Fn_procfs_close \<Rightarrow> Some (procfs_close node s))"

lemma vfs_close_frame:
  fixes s :: "'a pipe_state_scheme"
  assumes "vfs_close close_node node s = Some s'"
  shows "pipe_state.more s' = pipe_state.more s"
proof -
  have free: "pipe_state.more (kmem_free p t) = pipe_state.more t" for p and t :: "'a pipe_state_scheme"
    by (simp add: kmem_free_def)
  have node: "pipe_state.more (set_node p n t) = pipe_state.more t" for p n and t :: "'a pipe_state_scheme"
    by (simp add: set_node_def)
  have ring: "pipe_state.more (set_pipe p r t) = pipe_state.more t" for p r and t :: "'a pipe_state_scheme"
    by (simp add: set_pipe_def)
  have close: "close_node f n t = Some t' \<Longrightarrow> pipe_state.more t' = pipe_state.more t"
    for f n and t t' :: "'a pipe_state_scheme"
    by (auto simp: close_node_def pipe_vfs_close_read_def pipe_vfs_close_write_def procfs_close_def Let_def
        free node ring split: close_fn.splits bind_split_asm if_splits)
  show ?thesis
    using assms by (auto simp: vfs_close_def vfs_release_def Let_def free node split: if_splits dest: close)
qed

text \<open>Closing both ends, in either order, marks them closed and releases the ring with the second.\<close>

lemma pipe_close_both:
  assumes "pipe_lock (pipes s p) = 0" "p \<noteq> 0" "nd_ptr (nodes s r) = p" "nd_ptr (nodes s w) = p"
    "\<not> read_closed (pipes s p)" "\<not> write_closed (pipes s p)"
  shows "Option.bind (pipe_vfs_close_read r s) (pipe_vfs_close_write w) =
    Some (kmem_free w (kmem_free p (set_pipe p (pipes s p\<lparr>write_closed := True, read_closed := True\<rparr>) (kmem_free r s))))"
proof -
  have eq: "pipes s p\<lparr>read_closed := True, write_closed := True, pipe_lock := 0\<rparr> =
      pipes s p\<lparr>write_closed := True, read_closed := True\<rparr>"
    using assms(1) by (cases "pipes s p") simp
  show ?thesis
    using assms
    by (simp add: pipe_vfs_close_read_def pipe_vfs_close_write_def Let_def spinlock_release_def
        set_pipe_def kmem_free_def eq)
qed

section \<open>The ring as a queue\<close>

definition pipe_ok :: "pipe_ring \<Rightarrow> bool" where
  "pipe_ok r \<longleftrightarrow> length (buffer r) = 4096 \<and> unat (head r) < 4096 \<and> unat (available_bytes r) \<le> 4096 \<and>
     unat (tail r) = (unat (head r) + unat (available_bytes r)) mod 4096 \<and> pipe_lock r = 0"

definition pipe_content :: "pipe_ring \<Rightarrow> u8 list" where
  "pipe_content r = ring (buffer r) (unat (head r)) (unat (available_bytes r))"

lemma pipe_ok_zero [simp]: "pipe_ok zero_pipe" "pipe_content zero_pipe = []"
  by (simp_all add: pipe_ok_def pipe_content_def zero_pipe_def)

lemma length_pipe_content [simp]: "length (pipe_content r) = unat (available_bytes r)"
  by (simp add: pipe_content_def)

lemma pipe_content_flags [simp]:
  "pipe_ok (r\<lparr>write_closed := b\<rparr>) = pipe_ok r" "pipe_ok (r\<lparr>read_closed := b\<rparr>) = pipe_ok r"
  "pipe_content (r\<lparr>write_closed := b\<rparr>) = pipe_content r" "pipe_content (r\<lparr>read_closed := b\<rparr>) = pipe_content r"
  by (simp_all add: pipe_ok_def pipe_content_def)

lemma unat_ring_Suc:
  assumes "unat (h :: u32) < 4096"
  shows "unat ((h + 1) mod PIPE_BUFFER_SIZE) = Suc (unat h) mod 4096"
proof -
  have "unat (h + 1) = Suc (unat h)" using assms by (simp add: unat_add_no_wrap)
  then show ?thesis by (simp add: PIPE_BUFFER_SIZE_def unat_mod)
qed

lemma unlock_ok [simp]: "pipe_ok r \<Longrightarrow> r\<lparr>pipe_lock := 0\<rparr> = r"
  by (cases r) (simp add: pipe_ok_def)

lemma pipe_read_turn_data:
  assumes "pipe_ok r" "pipe_content r \<noteq> []" "unat n < length b"
  obtains r' where "pipe_read_turn n b r = Some (Again, n + 1, b[unat n := hd (pipe_content r)], r')"
    "pipe_ok r'" "pipe_content r' = tl (pipe_content r)"
    "read_closed r' = read_closed r" "write_closed r' = write_closed r"
proof -
  obtain k where k: "unat (available_bytes r) = Suc k"
    using assms(2) by (cases "unat (available_bytes r)") (simp_all add: pipe_content_def)
  then have pos: "0 < available_bytes r" by (simp add: word_less_nat_alt)
  have k': "unat (available_bytes r - 1) = k" using k by (simp add: unat_sub_le)
  have h: "unat (head r) < 4096" and len: "length (buffer r) = 4096"
    using assms(1) by (simp_all add: pipe_ok_def)
  have c: "pipe_content r = buffer r ! unat (head r) # ring (buffer r) (Suc (unat (head r)) mod 4096) k"
    using ring_pop [of "buffer r" "unat (head r)" k] h len k by (simp add: pipe_content_def)
  let ?r = "r\<lparr>head := (head r + 1) mod PIPE_BUFFER_SIZE, available_bytes := available_bytes r - 1, pipe_lock := 0\<rparr>"
  have "pipe_ok ?r"
    using assms(1) h k k' unfolding pipe_ok_def
    by (simp add: unat_ring_Suc mod_simps)
  moreover have "pipe_content ?r = tl (pipe_content r)"
    using c h k' by (simp add: pipe_content_def [of ?r] unat_ring_Suc)
  moreover have "pipe_read_turn n b r = Some (Again, n + 1, b[unat n := hd (pipe_content r)], ?r)"
    using assms c pos by (simp add: pipe_read_turn_def pipe_ok_def put_def spinlock_release_def)
  ultimately show ?thesis using that by simp
qed

lemma pipe_read_turn_empty:
  assumes "pipe_ok r" "pipe_content r = []"
  shows "pipe_read_turn n b r = Some (if n > 0 \<or> write_closed r then Leave else Yield, n, b, r)"
proof -
  have "available_bytes r = 0" using assms(2) length_pipe_content [of r] by (simp add: unat_eq_0)
  moreover have "pipe_lock r = 0" using assms(1) by (simp add: pipe_ok_def)
  ultimately show ?thesis using assms(1) by (simp add: pipe_read_turn_def spinlock_release_def)
qed

lemma pipe_write_turn_room:
  assumes "pipe_ok r" "\<not> read_closed r" "length (pipe_content r) < 4096"
  obtains r' where "pipe_write_turn n b r = Some (Again, n + 1, r')"
    "pipe_ok r'" "pipe_content r' = pipe_content r @ [b ! unat n]"
    "read_closed r' = read_closed r" "write_closed r' = write_closed r"
proof -
  have a: "unat (available_bytes r) < 4096" using assms(3) by simp
  then have lt: "available_bytes r < PIPE_BUFFER_SIZE" by (simp add: word_less_nat_alt PIPE_BUFFER_SIZE_def)
  have a': "unat (available_bytes r + 1) = Suc (unat (available_bytes r))"
    using a by (simp add: unat_add_no_wrap)
  have ok: "length (buffer r) = 4096" "unat (tail r) = (unat (head r) + unat (available_bytes r)) mod 4096"
    "pipe_lock r = 0" using assms(1) by (simp_all add: pipe_ok_def)
  let ?r = "r\<lparr>buffer := (buffer r)[unat (tail r) := b ! unat n], tail := (tail r + 1) mod PIPE_BUFFER_SIZE,
    available_bytes := available_bytes r + 1, pipe_lock := 0\<rparr>"
  have t: "unat ((tail r + 1) mod PIPE_BUFFER_SIZE) = Suc (unat (tail r)) mod 4096"
    using ok by (intro unat_ring_Suc) simp
  have "pipe_ok ?r" using assms(1) a a' ok t by (simp add: pipe_ok_def mod_simps)
  moreover have "pipe_content ?r = pipe_content r @ [b ! unat n]"
    using ring_push [of "unat (available_bytes r)" "buffer r" "unat (tail r)" "unat (head r)" "b ! unat n"] ok a a'
    by (simp add: pipe_content_def)
  moreover have "pipe_write_turn n b r = Some (Again, n + 1, ?r)"
    using assms(2) lt ok by (simp add: pipe_write_turn_def spinlock_release_def)
  ultimately show ?thesis using that by simp
qed

lemma pipe_write_turn_stuck:
  assumes "pipe_ok r" "read_closed r \<or> length (pipe_content r) = 4096"
  shows "pipe_write_turn n b r = Some (if read_closed r then Leave else Yield, n, r)"
proof -
  have "\<not> read_closed r \<Longrightarrow> \<not> available_bytes r < PIPE_BUFFER_SIZE"
    using assms(2) by (simp add: PIPE_BUFFER_SIZE_def word_less_nat_alt)
  moreover have "pipe_lock r = 0" using assms(1) by (simp add: pipe_ok_def)
  ultimately show ?thesis using assms(1) by (simp add: pipe_write_turn_def spinlock_release_def)
qed

text \<open>One byte in and one byte out, by the turns of the two loops.\<close>

definition pipe_put :: "u8 \<Rightarrow> pipe_ring \<Rightarrow> pipe_ring option" where
  "pipe_put x r = (case pipe_write_turn 0 [x] r of Some (Again, n, r') \<Rightarrow> Some r' | _ \<Rightarrow> None)"

definition pipe_get :: "pipe_ring \<Rightarrow> (u8 \<times> pipe_ring) option" where
  "pipe_get r = (case pipe_read_turn 0 [0] r of Some (Again, n, b, r') \<Rightarrow> Some (hd b, r') | _ \<Rightarrow> None)"

interpretation pipe_queue: byte_queue "\<lambda>r. pipe_ok r \<and> \<not> read_closed r" pipe_content 4096 pipe_put pipe_get
proof (unfold_locales, goal_cases)
  case (1 r)
  then show ?case by (simp add: pipe_ok_def)
next
  case (2 r x)
  then obtain r' where "pipe_write_turn 0 [x] r = Some (Again, 0 + 1, r')" "pipe_ok r'"
    "pipe_content r' = pipe_content r @ [[x] ! unat (0 :: u32)]" "read_closed r' = read_closed r"
    using pipe_write_turn_room [of r 0 "[x]"] by blast
  then show ?case using 2 by (simp add: pipe_put_def)
next
  case (3 r x)
  then show ?case by (simp add: pipe_put_def pipe_write_turn_stuck)
next
  case (4 r)
  then show ?case by (simp add: pipe_get_def pipe_read_turn_empty)
next
  case (5 r x xs)
  then obtain r' where "pipe_read_turn 0 [0] r = Some (Again, 0 + 1, [0][unat (0 :: u32) := hd (pipe_content r)], r')"
    "pipe_ok r'" "pipe_content r' = tl (pipe_content r)" "read_closed r' = read_closed r"
    using pipe_read_turn_data [of r 0 "[0]"] by auto
  then show ?case using 5 by (simp add: pipe_get_def)
qed

section \<open>Readers and writers interleaved\<close>

text \<open>
  A writer that writes \<open>data\<close> and a reader that fills \<open>buf\<close>, each turn of either at any time,
  from a new pipe; the ends may be closed at any time.
\<close>

inductive pipe_run :: "u32 \<Rightarrow> u32 \<Rightarrow> u8 list \<Rightarrow> u8 list \<Rightarrow> u32 \<Rightarrow> u8 list \<Rightarrow> u32 \<Rightarrow> pipe_ring \<Rightarrow> bool"
  for rsz wsz data buf0
where
  start: "pipe_run rsz wsz data buf0 0 buf0 0 zero_pipe"
| reader: "pipe_run rsz wsz data buf0 n b m r \<Longrightarrow> n < rsz \<Longrightarrow>
     pipe_read_turn n b r = Some (t, n', b', r') \<Longrightarrow> pipe_run rsz wsz data buf0 n' b' m r'"
| writer: "pipe_run rsz wsz data buf0 n b m r \<Longrightarrow> m < wsz \<Longrightarrow>
     pipe_write_turn m data r = Some (t, m', r') \<Longrightarrow> pipe_run rsz wsz data buf0 n b m' r'"
| close_read: "pipe_run rsz wsz data buf0 n b m r \<Longrightarrow> pipe_run rsz wsz data buf0 n b m (r\<lparr>read_closed := True\<rparr>)"
| close_write: "pipe_run rsz wsz data buf0 n b m r \<Longrightarrow> pipe_run rsz wsz data buf0 n b m (r\<lparr>write_closed := True\<rparr>)"

text \<open>C17: Under every interleaving of a reader and a writer the bytes accepted from the writer are
  those delivered to the reader followed by those still in the ring: nothing is lost,
  duplicated or reordered, and at most 4096 bytes are under way.\<close>

theorem pipe_interleaving_fifo:
  assumes "pipe_run rsz wsz data buf0 n b m r" "unat wsz \<le> length data" "unat rsz \<le> length buf0"
  shows "pipe_ok r \<and> take (unat m) data = take (unat n) b @ pipe_content r \<and>
    unat m \<le> unat n + 4096 \<and> length b = length buf0 \<and> n \<le> rsz \<and> m \<le> wsz"
  using assms(1)
proof (induction rule: pipe_run.induct)
  case (reader n b m r t n' b' r')
  then have IH: "pipe_ok r" "take (unat m) data = take (unat n) b @ pipe_content r" "unat m \<le> unat n + 4096"
    "length b = length buf0" "m \<le> wsz" "n \<le> rsz" by auto
  have n: "unat n < length b" "unat (n + 1) = Suc (unat n)"
    using reader.hyps(2) IH(4) assms(3) unat_lt_2p32 [of rsz] by (auto simp: word_less_nat_alt unat_add_no_wrap)
  show ?case
  proof (cases "pipe_content r = []")
    case True
    then show ?thesis using reader.hyps(3) IH pipe_read_turn_empty [OF IH(1) True] by simp
  next
    case False
    from pipe_read_turn_data [OF IH(1) False n(1)] obtain r1 where
      r1: "pipe_read_turn n b r = Some (Again, n + 1, b[unat n := hd (pipe_content r)], r1)"
        "pipe_ok r1" "pipe_content r1 = tl (pipe_content r)" by blast
    then have eq: "n' = n + 1" "b' = b[unat n := hd (pipe_content r)]" "r' = r1" using reader.hyps(3) by auto
    have "take (unat n') b' @ pipe_content r' = take (unat n) b @ pipe_content r"
      using n False r1(3) by (simp add: eq take_Suc_conv_app_nth)
    then show ?thesis using IH r1 n reader.hyps(2) by (simp add: eq word_less_nat_alt word_le_nat_alt)
  qed
next
  case (writer n b m r t m' r')
  then have IH: "pipe_ok r" "take (unat m) data = take (unat n) b @ pipe_content r"
    "length b = length buf0" "m \<le> wsz" "n \<le> rsz" "unat m \<le> unat n + 4096" by auto
  have m: "unat m < length data" "unat (m + 1) = Suc (unat m)"
    using writer.hyps(2) assms(2) unat_lt_2p32 [of wsz] by (auto simp: word_less_nat_alt unat_add_no_wrap)
  have nb: "unat n \<le> length b" using IH(3,5) assms(3) by (simp add: word_le_nat_alt)
  show ?case
  proof (cases "read_closed r \<or> length (pipe_content r) = 4096")
    case True
    then show ?thesis using writer.hyps(3) IH pipe_write_turn_stuck [OF IH(1) True] by simp
  next
    case False
    then have room: "\<not> read_closed r" "length (pipe_content r) < 4096"
      using IH(1) by (auto simp: pipe_ok_def)
    from pipe_write_turn_room [OF IH(1) room] obtain r1 where
      r1: "pipe_write_turn m data r = Some (Again, m + 1, r1)" "pipe_ok r1"
        "pipe_content r1 = pipe_content r @ [data ! unat m]" by blast
    then have eq: "m' = m + 1" "r' = r1" using writer.hyps(3) by auto
    have "unat m = unat n + length (pipe_content r)"
      using arg_cong [OF IH(2), of length] m(1) nb by simp
    then show ?thesis using IH r1 m room(2) writer.hyps(2)
      by (simp add: eq take_Suc_conv_app_nth word_less_nat_alt word_le_nat_alt)
  qed
qed simp_all

section \<open>Whole calls\<close>

lemma set_pipe_simps [simp]:
  "pipes (set_pipe p r s) = (pipes s)(p := r)" "set_pipe p r (set_pipe p r' s) = set_pipe p r s"
  "nodes (set_pipe p r s) = nodes s" "pipes s p = r \<Longrightarrow> set_pipe p r s = s"
  by (auto simp: set_pipe_def)

lemma pipe_read_loop_drain:
  fixes s :: "'a pipe_state_scheme"
  assumes "pipe_ok (pipes s pipe)" "unat n + k \<le> unat sz" "k \<le> length (pipe_content (pipes s pipe))"
    "unat sz \<le> length b"
  shows "\<exists>r. pipe_ok r \<and> pipe_content r = drop k (pipe_content (pipes s pipe)) \<and>
    write_closed r = write_closed (pipes s pipe) \<and> read_closed r = read_closed (pipes s pipe) \<and>
    pipe_read_loop others pipe sz n b s = pipe_read_loop others pipe sz (n + of_nat k)
      (take (unat n) b @ take k (pipe_content (pipes s pipe)) @ drop (unat n + k) b) (set_pipe pipe r s)"
  using assms
proof (induction k arbitrary: n b s)
  case 0
  then show ?case by (intro exI [of _ "pipes s pipe"]) simp
next
  case (Suc k)
  let ?c = "pipe_content (pipes s pipe)"
  have ne: "?c \<noteq> []" and n: "n < sz" "unat n < length b"
    using Suc.prems by (auto simp: word_less_nat_alt simp del: length_pipe_content)
  have n1: "unat (n + 1) = Suc (unat n)"
    using Suc.prems(2) unat_lt_2p32 [of sz] by (simp add: unat_add_no_wrap)
  from pipe_read_turn_data [OF Suc.prems(1) ne n(2)] obtain r1 where
    r1: "pipe_read_turn n b (pipes s pipe) = Some (Again, n + 1, b[unat n := hd ?c], r1)" "pipe_ok r1"
      "pipe_content r1 = tl ?c" "read_closed r1 = read_closed (pipes s pipe)"
      "write_closed r1 = write_closed (pipes s pipe)" by blast
  have step: "pipe_read_loop others pipe sz n b s =
      pipe_read_loop others pipe sz (n + 1) (b[unat n := hd ?c]) (set_pipe pipe r1 s)"
    using n(1) r1(1) by (subst pipe_read_loop.simps) simp
  have upd: "take (Suc (unat n)) (b[unat n := hd ?c]) = take (unat n) b @ [hd ?c]"
    using n(2) by (simp add: take_Suc_conv_app_nth)
  have kk: "k \<le> unat (available_bytes (pipes s pipe)) - Suc 0" using Suc.prems(3) by simp
  have "\<exists>r. pipe_ok r \<and> pipe_content r = drop k (tl ?c) \<and> write_closed r = write_closed r1 \<and>
    read_closed r = read_closed r1 \<and>
    pipe_read_loop others pipe sz (n + 1) (b[unat n := hd ?c]) (set_pipe pipe r1 s) =
     pipe_read_loop others pipe sz (n + 1 + of_nat k)
      (take (Suc (unat n)) (b[unat n := hd ?c]) @ take k (tl ?c) @ drop (Suc (unat n) + k) b) (set_pipe pipe r s)"
    using Suc.IH [of "set_pipe pipe r1 s" "n + 1" "b[unat n := hd ?c]"] Suc.prems(2,4) r1(2,3) n1 kk by simp
  then obtain r where r: "pipe_ok r" "pipe_content r = drop k (tl ?c)" "write_closed r = write_closed r1"
    "read_closed r = read_closed r1"
    "pipe_read_loop others pipe sz (n + 1) (b[unat n := hd ?c]) (set_pipe pipe r1 s) =
     pipe_read_loop others pipe sz (n + 1 + of_nat k)
      (take (Suc (unat n)) (b[unat n := hd ?c]) @ take k (tl ?c) @ drop (Suc (unat n) + k) b) (set_pipe pipe r s)"
    by blast
  have "take (Suc k) ?c = hd ?c # take k (tl ?c)" "drop (Suc k) ?c = drop k (tl ?c)"
    using ne by (cases ?c; simp)+
  then show ?case using r r1 step upd by (intro exI [of _ r]) (simp add: algebra_simps)
qed

text \<open>A read with bytes in the ring returns the first of them, at most as many as asked for, in
  order and without waiting, and takes exactly these out of the ring; at the end of the
  stream it returns 0; otherwise it yields and reads again after the other tasks have run.\<close>

theorem pipe_vfs_read_result:
  fixes s :: "'a pipe_state_scheme"
  assumes "pipe_ok (pipes s pipe)" "nd_ptr (nodes s node) = pipe" "pipe \<noteq> 0" "0 < sz" "unat sz \<le> length b"
  shows "let c = pipe_content (pipes s pipe); k = min (unat sz) (length c) in
    if c \<noteq> [] then
      (\<exists>r. pipe_vfs_read others node off sz (Some b) s = Some (of_nat k, Some (take k c @ drop k b), set_pipe pipe r s) \<and>
         pipe_ok r \<and> pipe_content r = drop k c)
    else if write_closed (pipes s pipe) then pipe_vfs_read others node off sz (Some b) s = Some (0, Some b, s)
    else pipe_vfs_read others node off sz (Some b) s =
      (case others of [] \<Rightarrow> None
       | e # es \<Rightarrow> map_option (\<lambda>(n, b', s'). (n, Some b', s')) (pipe_read_loop es pipe sz 0 b (e s)))"
proof -
  let ?c = "pipe_content (pipes s pipe)" and ?k = "min (unat sz) (length (pipe_content (pipes s pipe)))"
  have call: "pipe_vfs_read others node off sz (Some b) s =
      map_option (\<lambda>(n, b', s'). (n, Some b', s')) (pipe_read_loop others pipe sz 0 b s)"
    using assms(2-4) by (auto simp: pipe_vfs_read_def Let_def map_option_case split: bind_split option.split prod.split)
  show ?thesis
  proof (cases "?c = []")
    case True
    show ?thesis
      using assms(4) pipe_read_turn_empty [OF assms(1) True, of 0 b] True
      by (simp add: call) (subst pipe_read_loop.simps, simp split: list.split)+
  next
    case False
    from pipe_read_loop_drain [OF assms(1), of 0 ?k sz b others] assms(5) obtain r where
      r: "pipe_ok r" "pipe_content r = drop ?k ?c"
      "pipe_read_loop others pipe sz 0 b s =
         pipe_read_loop others pipe sz (of_nat ?k) (take ?k ?c @ drop ?k b) (set_pipe pipe r s)" by auto
    have u: "unat (of_nat ?k :: u32) = ?k" using unat_lt_2p32 [of sz] by (simp add: unat_of_nat_small)
    have kpos: "0 < ?k" using False assms(4) by (simp add: word_less_nat_alt del: length_pipe_content)
    have "pipe_read_loop others pipe sz (of_nat ?k) (take ?k ?c @ drop ?k b) (set_pipe pipe r s) =
        Some (of_nat ?k, take ?k ?c @ drop ?k b, set_pipe pipe r s)"
    proof (cases "?k = unat sz")
      case True
      then have "\<not> of_nat ?k < sz" using u by (simp add: word_less_nat_alt)
      then show ?thesis by (subst pipe_read_loop.simps) simp
    next
      case part: False
      then have lt: "of_nat ?k < sz" and e: "pipe_content r = []" using u r(2) by (auto simp: word_less_nat_alt)
      have "(0 :: u32) < of_nat ?k" using u kpos by (simp add: word_less_nat_alt)
      then show ?thesis using lt pipe_read_turn_empty [OF r(1) e] by (subst pipe_read_loop.simps) simp
    qed
    then show ?thesis using False r by (auto simp: call Let_def)
  qed
qed

definition sample_pipe :: pipe_ring where
  "sample_pipe = zero_pipe\<lparr>buffer := (replicate 4096 0)[4095 := 65, 0 := 66], head := 4095, tail := 1, available_bytes := 2\<rparr>"

lemma sample_pipe_ok: "pipe_ok sample_pipe" "pipe_content sample_pipe = [65, 66]"
  by (simp_all add: pipe_ok_def pipe_content_def sample_pipe_def zero_pipe_def ring_def upt_conv_Cons)

definition sample_pipe_state :: pipe_state where
  "sample_pipe_state = vfs_state.extend
     (sample_vfs\<lparr>nodes := (\<lambda>p. zero_node\<lparr>nd_ptr := 0x9000\<rparr>)\<rparr>)
     \<lparr>devfs_nodes = [], random_seed = 0, pipes = (\<lambda>p. sample_pipe)\<rparr>"

theorem pipe_interleaving_fifo_witness:
  "pipe_run 1 1 [7] [0] 1 [7] 1 (zero_pipe\<lparr>buffer := (replicate 4096 0)[0 := 7], head := 1, tail := 1\<rparr>) \<and>
   take 1 [7 :: u8] = take 1 [7 :: u8] @ []"
proof -
  let ?r1 = "zero_pipe\<lparr>buffer := (replicate 4096 0)[0 := 7], tail := 1, available_bytes := 1\<rparr>"
  let ?r2 = "zero_pipe\<lparr>buffer := (replicate 4096 0)[0 := 7], head := 1, tail := 1\<rparr>"
  have w: "pipe_write_turn 0 [7] zero_pipe = Some (Again, 1, ?r1)"
    by (simp add: pipe_write_turn_def zero_pipe_def PIPE_BUFFER_SIZE_def spinlock_release_def)
  have r: "pipe_read_turn 0 [0] ?r1 = Some (Again, 1, [7], ?r2)"
    by (simp add: pipe_read_turn_def zero_pipe_def PIPE_BUFFER_SIZE_def spinlock_release_def put_def)
  have "pipe_run 1 1 [7] [0] 0 [0] 1 ?r1"
    by (rule pipe_run.writer [OF pipe_run.start _ w]) simp
  from pipe_run.reader [OF this _ r] have run: "pipe_run 1 1 [7] [0] 1 [7] 1 ?r2" by simp
  from pipe_interleaving_fifo [OF run] run show ?thesis by simp
qed

theorem pipe_vfs_read_result_witness:
  "\<exists>s'. pipe_vfs_read [] 5 0 3 (Some [0, 0, 9]) sample_pipe_state = Some (2, Some [65, 66, 9], s')"
  using pipe_vfs_read_result [where s = sample_pipe_state and pipe = "0x9000" and node = "5" and sz = "3"
      and b = "[0, 0, 9]" and others = "[]" and off = "0"]
  by (auto simp: sample_pipe_state_def sample_pipe_ok vfs_state.extend_def)

end
