(* ===== verification/Task.thy ===== *)
theory Task
  imports Pipe
begin

text \<open>
  \<open>arch/x86/task/task.c\<close>, with the stack switch of \<open>switch.asm\<close>. The task list is the list
  of the task addresses and their structures in the order of the \<open>next\<close> pointers; the
  current task is an address, 0 is \<open>NULL\<close>. The scheduler lock is the lock word, and every
  operation takes and releases it as the code does; \<open>None\<close> is a spin on a held lock, a store
  through \<open>NULL\<close> or outside an object, or an endless loop. A switch gives the processor to
  another stack: an operation returns whether it switched, and the rest of it, which runs
  when the caller is scheduled again, is written out for the case that it did not.
\<close>

section \<open>Data\<close>

record file_descriptor =
  fd_in_use :: bool
  fd_filename :: "u8 list"
  fd_current_offset :: u32
  fd_file_size :: u32
  fd_node :: u32

record task =
  t_pid :: u32
  t_name :: "u8 list"
  t_exec_path :: "u8 list"
  t_esp :: u32
  t_page_directory :: u32
  t_next_user_vaddr :: u32
  t_uid :: u32
  t_gid :: u32
  t_euid :: u32
  t_egid :: u32
  t_caps :: u32
  t_umask :: u16
  t_stack_base :: u32
  t_kernel_stack_top :: u32
  t_state :: u8
  t_base_priority :: u8
  t_dynamic_priority :: u8
  t_wait_ticks :: u32
  t_quantum :: u32
  t_slice_remaining :: u32
  t_cpu_time_ticks :: u32
  t_waiting_on_pid :: u32
  t_wake_tick :: u32
  t_parent_pid :: u32
  t_exit_status :: u32
  t_child_pids :: "u32 list"
  t_child_count :: u32
  t_user_rip :: u32
  t_is_user :: u32
  t_tls_ptr :: u32
  t_heap_start :: u32
  t_heap_break :: u32
  t_yield_requested :: bool
  t_is_zombie :: bool
  t_pending_signals :: u32
  t_signal_mask :: u32
  t_signal_handlers :: "u32 list"
  t_wants_spinner :: bool
  t_last_output_tick :: u32
  t_fd_table :: "file_descriptor list"

record task_state = pipe_state +
  current_task :: u32
  task_list :: "(u32 \<times> task) list"
  next_pid :: u32
  task_lock :: u32
  needs_cleanup :: bool
  system_ticks :: u32
  eflags :: u32
  tss_esp0 :: u32
  cpu_esp :: u32
  stack_words :: "u32 \<Rightarrow> u32"

definition TASK_STATE_READY :: u8 where "TASK_STATE_READY = 0"
definition TASK_STATE_RUNNING :: u8 where "TASK_STATE_RUNNING = 1"
definition TASK_STATE_WAITING :: u8 where "TASK_STATE_WAITING = 2"
definition TASK_STATE_BLOCKED :: u8 where "TASK_STATE_BLOCKED = 3"
definition TASK_STATE_SLEEPING :: u8 where "TASK_STATE_SLEEPING = 4"
definition TASK_STATE_DEAD :: u8 where "TASK_STATE_DEAD = 5"

lemmas task_states = TASK_STATE_READY_def TASK_STATE_RUNNING_def TASK_STATE_WAITING_def
  TASK_STATE_BLOCKED_def TASK_STATE_SLEEPING_def TASK_STATE_DEAD_def

definition PRIORITY_IDLE :: u8 where "PRIORITY_IDLE = 0"
definition PRIORITY_NORMAL :: u8 where "PRIORITY_NORMAL = 2"
definition PRIORITY_MAX :: u8 where "PRIORITY_MAX = 4"
definition STARVATION_THRESHOLD :: u32 where "STARVATION_THRESHOLD = 50"
definition MAX_CHILDREN :: u32 where "MAX_CHILDREN = 16"
definition NSIG :: int where "NSIG = 32"
definition SIGINT :: nat where "SIGINT = 2"
definition SIGILL :: nat where "SIGILL = 4"
definition SIGABRT :: nat where "SIGABRT = 6"
definition SIGFPE :: nat where "SIGFPE = 8"
definition SIGKILL :: nat where "SIGKILL = 9"
definition SIGSEGV :: nat where "SIGSEGV = 11"
definition SIGTERM :: nat where "SIGTERM = 15"
definition SIG_IGN :: u32 where "SIG_IGN = 1"
definition SIG_ERR :: u32 where "SIG_ERR = - 1"
definition SIZEOF_TASK :: u32 where "SIZEOF_TASK = 4964"

definition zero_fd :: file_descriptor where
  "zero_fd = \<lparr>fd_in_use = False, fd_filename = replicate 256 0, fd_current_offset = 0, fd_file_size = 0, fd_node = 0\<rparr>"

definition zero_task :: task where
  "zero_task = \<lparr>t_pid = 0, t_name = replicate 32 0, t_exec_path = replicate 256 0, t_esp = 0,
     t_page_directory = 0, t_next_user_vaddr = 0, t_uid = 0, t_gid = 0, t_euid = 0, t_egid = 0, t_caps = 0,
     t_umask = 0, t_stack_base = 0, t_kernel_stack_top = 0, t_state = 0, t_base_priority = 0,
     t_dynamic_priority = 0, t_wait_ticks = 0, t_quantum = 0, t_slice_remaining = 0, t_cpu_time_ticks = 0,
     t_waiting_on_pid = 0, t_wake_tick = 0, t_parent_pid = 0, t_exit_status = 0,
     t_child_pids = replicate 16 0, t_child_count = 0, t_user_rip = 0, t_is_user = 0, t_tls_ptr = 0,
     t_heap_start = 0, t_heap_break = 0, t_yield_requested = False, t_is_zombie = False,
     t_pending_signals = 0, t_signal_mask = 0, t_signal_handlers = replicate 32 0,
     t_wants_spinner = False, t_last_output_tick = 0, t_fd_table = replicate 16 zero_fd\<rparr>"

text \<open>Reading and updating the structure at an address of the list.\<close>

definition task_at :: "u32 \<Rightarrow> 'a task_state_scheme \<Rightarrow> task" where
  "task_at p s = (case map_of (task_list s) p of Some t \<Rightarrow> t | None \<Rightarrow> zero_task)"

definition map_task :: "u32 \<Rightarrow> (task \<Rightarrow> task) \<Rightarrow> (u32 \<times> task) list \<Rightarrow> (u32 \<times> task) list" where
  "map_task p f = map (\<lambda>(q, t). (q, if q = p then f t else t))"

definition upd_task :: "u32 \<Rightarrow> (task \<Rightarrow> task) \<Rightarrow> 'a task_state_scheme \<Rightarrow> 'a task_state_scheme" where
  "upd_task p f s = s\<lparr>task_list := map_task p f (task_list s)\<rparr>"

abbreviation cur :: "'a task_state_scheme \<Rightarrow> task" where
  "cur s \<equiv> task_at (current_task s) s"

abbreviation upd_cur :: "(task \<Rightarrow> task) \<Rightarrow> 'a task_state_scheme \<Rightarrow> 'a task_state_scheme" where
  "upd_cur f s \<equiv> upd_task (current_task s) f s"

definition lock_tasks :: "'a task_state_scheme \<Rightarrow> (u32 \<times> 'a task_state_scheme) option" where
  "lock_tasks s =
     do { (flags, l, e) \<leftarrow> spinlock_acquire_irq_save (task_lock s) (eflags s);
          Some (flags, s\<lparr>task_lock := l, eflags := e\<rparr>) }"

definition unlock_tasks :: "u32 \<Rightarrow> 'a task_state_scheme \<Rightarrow> 'a task_state_scheme" where
  "unlock_tasks flags s =
     (let (l, e) = spinlock_release_irq_restore (task_lock s) flags (eflags s)
      in s\<lparr>task_lock := l, eflags := e\<rparr>)"

section \<open>Lookup and bookkeeping\<close>

definition task_calculate_quantum :: "u8 \<Rightarrow> u32" where
  "task_calculate_quantum priority =
     (if priority = 0 then 2 else if priority = 1 then 5 else if priority = 2 then 10
      else if priority = 3 then 20 else if priority = 4 then 30 else 10)"

fun find_pid :: "u32 \<Rightarrow> (u32 \<times> task) list \<Rightarrow> u32" where
  "find_pid pid [] = 0"
| "find_pid pid ((p, t) # ts) = (if t_pid t = pid then p else find_pid pid ts)"

definition task_get_by_pid :: "u32 \<Rightarrow> 'a task_state_scheme \<Rightarrow> u32" where
  "task_get_by_pid pid s = find_pid pid (task_list s)"

definition task_add_child :: "u32 \<Rightarrow> u32 \<Rightarrow> 'a task_state_scheme \<Rightarrow> bool \<times> 'a task_state_scheme" where
  "task_add_child parent child_pid s =
     (let p = task_at parent s
      in if parent = 0 \<or> t_child_count p \<ge> MAX_CHILDREN then (False, s)
         else if child_pid \<in> set (take (unat (t_child_count p)) (t_child_pids p)) then (True, s)
         else (True, upd_task parent (\<lambda>t. t\<lparr>t_child_pids := (t_child_pids t)[unat (t_child_count t) := child_pid],
                                             t_child_count := t_child_count t + 1\<rparr>) s))"

definition task_can_reap :: "task \<Rightarrow> (u32 \<times> task) list \<Rightarrow> bool" where
  "task_can_reap t ts \<longleftrightarrow>
     t_state t = TASK_STATE_DEAD \<and>
     (\<not> t_is_zombie t \<or> t_parent_pid t = 0 \<or>
      (let p = find_pid (t_parent_pid t) ts; parent = (case map_of ts p of Some u \<Rightarrow> u | None \<Rightarrow> zero_task)
       in p = 0 \<or> t_state parent = TASK_STATE_DEAD \<or>
          t_state parent = TASK_STATE_WAITING \<and> t_waiting_on_pid parent = t_pid t))"

definition wake_if_expired :: "u32 \<Rightarrow> task \<Rightarrow> task" where
  "wake_if_expired now t =
     (if t_state t = TASK_STATE_SLEEPING \<and> t_wake_tick t \<noteq> 0 \<and> now \<ge> t_wake_tick t
      then t\<lparr>t_state := TASK_STATE_READY, t_wake_tick := 0, t_wait_ticks := 0\<rparr> else t)"

definition task_wake_expired_sleepers :: "'a task_state_scheme \<Rightarrow> 'a task_state_scheme" where
  "task_wake_expired_sleepers s =
     s\<lparr>task_list := map (\<lambda>(p, t). (p, wake_if_expired (system_ticks s) t)) (task_list s)\<rparr>"

section \<open>Choosing the next task\<close>

definition runnable :: "u32 \<Rightarrow> u32 \<Rightarrow> task \<Rightarrow> bool" where
  "runnable current p t \<longleftrightarrow>
     t_state t = TASK_STATE_READY \<or> p = current \<and> t_state t = TASK_STATE_RUNNING"

definition age :: "u32 \<Rightarrow> u32 \<Rightarrow> task \<Rightarrow> task" where
  "age current p t =
     (if p \<noteq> current \<and> t_state t = TASK_STATE_READY
      then let w = t_wait_ticks t + 1
           in if w \<ge> STARVATION_THRESHOLD \<and> t_dynamic_priority t < PRIORITY_MAX
              then t\<lparr>t_dynamic_priority := t_dynamic_priority t + 1, t_wait_ticks := 0\<rparr>
              else t\<lparr>t_wait_ticks := w\<rparr>
      else t)"

fun find_ready_loop ::
  "u32 \<Rightarrow> (u32 \<times> task) list \<Rightarrow> u32 \<Rightarrow> u8 \<Rightarrow> u32 \<Rightarrow> (u32 \<times> task) list \<times> u32"
where
  "find_ready_loop current [] best prio wait = ([], best)"
| "find_ready_loop current ((p, t) # ts) best prio wait =
     (if runnable current p t
      then let t' = age current p t;
               better = (best = 0 \<or> t_dynamic_priority t' > prio \<or>
                         t_dynamic_priority t' = prio \<and> t_wait_ticks t' > wait);
               (ts', r) = (if better then find_ready_loop current ts p (t_dynamic_priority t') (t_wait_ticks t')
                           else find_ready_loop current ts best prio wait)
           in ((p, t') # ts', r)
      else let (ts', r) = find_ready_loop current ts best prio wait in ((p, t) # ts', r))"

definition task_find_next_ready :: "u32 \<Rightarrow> 'a task_state_scheme \<Rightarrow> u32 \<times> 'a task_state_scheme" where
  "task_find_next_ready current s =
     (let (ts, best) = find_ready_loop current (task_list s) 0 0 0 in (best, s\<lparr>task_list := ts\<rparr>))"

section \<open>Yielding\<close>

text \<open>\<open>switch_to_task\<close>: the stack pointer after the pushes is stored, the new stack and page
  directory are loaded, and interrupts are enabled.\<close>

definition switch_to_task :: "u32 \<Rightarrow> u32 \<Rightarrow> u32 \<Rightarrow> 'a task_state_scheme \<Rightarrow> 'a task_state_scheme" where
  "switch_to_task old new_esp new_cr3 s =
     (let s1 = upd_task old (\<lambda>t. t\<lparr>t_esp := cpu_esp s\<rparr>) s;
          s2 = (if cr3 (kheap s1) = new_cr3 then s1 else s1\<lparr>kheap := (kheap s1)\<lparr>cr3 := new_cr3\<rparr>\<rparr>)
      in s2\<lparr>cpu_esp := new_esp, eflags := enable_interrupts (eflags s2)\<rparr>)"

definition tss_set_kernel_stack :: "u32 \<Rightarrow> 'a task_state_scheme \<Rightarrow> 'a task_state_scheme" where
  "tss_set_kernel_stack stack s = s\<lparr>tss_esp0 := stack\<rparr>"

text \<open>The bookkeeping of \<open>task_yield\<close> for the task that gets the processor.\<close>

definition run_next :: "task \<Rightarrow> task" where
  "run_next t = t\<lparr>t_state := TASK_STATE_RUNNING, t_dynamic_priority := t_base_priority t, t_wait_ticks := 0,
     t_quantum := task_calculate_quantum (t_base_priority t),
     t_slice_remaining := task_calculate_quantum (t_base_priority t)\<rparr>"

definition preempt :: "task \<Rightarrow> task" where
  "preempt t = (if t_state t = TASK_STATE_RUNNING then t\<lparr>t_state := TASK_STATE_READY\<rparr> else t)"

definition refill :: "task \<Rightarrow> task" where
  "refill t = (if t_state t = TASK_STATE_RUNNING
     then t\<lparr>t_slice_remaining := task_calculate_quantum (t_base_priority t)\<rparr> else t)"

text \<open>\<open>task_yield\<close> up to the check of the pending signals.\<close>

definition yield_core :: "'a task_state_scheme \<Rightarrow> (bool \<times> 'a task_state_scheme) option" where
  "yield_core s =
     do {
       (flags, s1) \<leftarrow> lock_tasks s;
       if current_task s1 = 0 then Some (False, unlock_tasks flags s1)
       else do {
         let (nxt, s2) = task_find_next_ready (current_task s1) s1;
         if nxt = 0 \<or> nxt = current_task s2
         then Some (False, unlock_tasks flags (upd_cur refill s2))
         else do {
           let old = current_task s2;
           let s3 = (upd_task nxt run_next (upd_task old preempt s2))\<lparr>current_task := nxt\<rparr>;
           let s4 = unlock_tasks flags (tss_set_kernel_stack (t_kernel_stack_top (cur s3)) s3);
           Some (True, switch_to_task old (t_esp (cur s4)) (t_page_directory (cur s4)) s4)
         }
       }
     }"

text \<open>
  \<open>task_exit_with_status\<close>: waiting tasks are woken, the descriptors are closed through the
  close pointers of their nodes, and the task yields for ever; it leaves the processor at
  its first yield, or never if no task is ready.
\<close>

definition wake_waiter :: "u32 \<Rightarrow> u32 \<Rightarrow> task \<Rightarrow> task" where
  "wake_waiter pid status t =
     (if t_state t = TASK_STATE_WAITING \<and> t_waiting_on_pid t = pid
      then t\<lparr>t_state := TASK_STATE_READY, t_waiting_on_pid := 0, t_exit_status := status\<rparr> else t)"

definition is_waiter :: "u32 \<Rightarrow> task \<Rightarrow> bool" where
  "is_waiter pid t \<longleftrightarrow> t_state t = TASK_STATE_WAITING \<and> t_waiting_on_pid t = pid"

definition close_fd :: "nat \<Rightarrow> 'a task_state_scheme \<Rightarrow> 'a task_state_scheme option" where
  "close_fd i s =
     (let fd = t_fd_table (cur s) ! i
      in if fd_in_use fd
         then do {
           s1 \<leftarrow> (if fd_node fd \<noteq> 0 then vfs_close close_node (fd_node fd) s else Some s);
           Some (upd_cur (\<lambda>t. t\<lparr>t_fd_table := (t_fd_table t)
             [i := (t_fd_table t ! i)\<lparr>fd_node := 0, fd_in_use := False\<rparr>]\<rparr>) s1)
         }
         else Some s)"

definition exit_mark :: "u32 \<Rightarrow> 'a task_state_scheme \<Rightarrow> 'a task_state_scheme option" where
  "exit_mark status s =
     do {
       let pid = t_pid (cur s);
       let s1 = upd_cur (\<lambda>t. t\<lparr>t_exit_status := status, t_state := TASK_STATE_DEAD, t_is_zombie := True\<rparr>) s;
       let waited = (\<exists>(p, t) \<in> set (task_list s1). is_waiter pid t);
       let s2 = s1\<lparr>task_list := map (\<lambda>(p, t). (p, wake_waiter pid status t)) (task_list s1)\<rparr>;
       let s3 = (if waited then upd_cur (\<lambda>t. t\<lparr>t_is_zombie := False\<rparr>) s2 else s2);
       s4 \<leftarrow> fold_opt close_fd [0..<16] s3;
       Some (s4\<lparr>needs_cleanup := True\<rparr>)
     }"

definition task_exit_with_status :: "u32 \<Rightarrow> 'a task_state_scheme \<Rightarrow> 'a task_state_scheme option" where
  "task_exit_with_status status s =
     do {
       (flags, s1) \<leftarrow> lock_tasks s;
       if current_task s1 = 0 then Some (unlock_tasks flags s1)
       else do {
         s2 \<leftarrow> exit_mark status s1;
         let s3 = unlock_tasks flags s2;
         (switched, s4) \<leftarrow> yield_core (s3\<lparr>eflags := enable_interrupts (eflags s3)\<rparr>);
         if switched then Some s4 else None
       }
     }"

definition task_exit :: "'a task_state_scheme \<Rightarrow> 'a task_state_scheme option" where
  "task_exit s = task_exit_with_status 0 s"

section \<open>Signals\<close>

definition fatal_signal :: "nat \<Rightarrow> bool" where
  "fatal_signal sig \<longleftrightarrow> sig = SIGINT \<or> sig = SIGKILL \<or> sig = SIGSEGV \<or> sig = SIGFPE \<or> sig = SIGILL \<or>
     sig = SIGTERM \<or> sig = SIGABRT"

fun check_signals_loop ::
  "u32 \<Rightarrow> nat list \<Rightarrow> 'a task_state_scheme \<Rightarrow> 'a task_state_scheme option"
where
  "check_signals_loop deliverable [] s = Some s"
| "check_signals_loop deliverable (sig # sigs) s =
     (if bit deliverable sig
      then let handler = t_signal_handlers (cur s) ! sig;
               s1 = upd_cur (\<lambda>t. t\<lparr>t_pending_signals := t_pending_signals t AND NOT (bit_mask sig)\<rparr>) s
           in if handler = SIG_IGN then check_signals_loop deliverable sigs s1
              else if fatal_signal sig then task_exit_with_status (of_nat (128 + sig)) s1
              else check_signals_loop deliverable sigs s1
      else check_signals_loop deliverable sigs s)"

definition task_check_signals :: "'a task_state_scheme \<Rightarrow> 'a task_state_scheme option" where
  "task_check_signals s =
     (if current_task s = 0 \<or> t_is_user (cur s) = 0 \<or> t_state (cur s) = TASK_STATE_DEAD then Some s
      else let deliverable = t_pending_signals (cur s) AND NOT (t_signal_mask (cur s))
           in if deliverable = 0 then Some s else check_signals_loop deliverable [1..<32] s)"

definition task_yield :: "'a task_state_scheme \<Rightarrow> (bool \<times> 'a task_state_scheme) option" where
  "task_yield s =
     do {
       (switched, s1) \<leftarrow> yield_core s;
       if switched \<or> current_task s1 = 0 then Some (switched, s1)
       else do {
         s2 \<leftarrow> (if t_is_user (cur s1) \<noteq> 0 then task_check_signals s1 else Some s1);
         Some (current_task s2 \<noteq> current_task s1, s2)
       }
     }"

definition task_send_signal ::
  "u32 \<Rightarrow> int \<Rightarrow> 'a task_state_scheme \<Rightarrow> (int \<times> 'a task_state_scheme) option"
where
  "task_send_signal pid signum s =
     (if signum \<le> 0 \<or> signum \<ge> NSIG then Some (- 1, s)
      else do {
        (flags, s1) \<leftarrow> lock_tasks s;
        let target = task_get_by_pid pid s1;
        if target = 0 \<or> t_state (task_at target s1) = TASK_STATE_DEAD then Some (- 1, unlock_tasks flags s1)
        else do {
          let s2 = upd_task target (\<lambda>t. t\<lparr>t_pending_signals := t_pending_signals t OR bit_mask (nat signum)\<rparr>) s1;
          let st = t_state (task_at target s2);
          let s3 = (if st = TASK_STATE_BLOCKED \<or> st = TASK_STATE_SLEEPING \<or> st = TASK_STATE_WAITING
                    then upd_task target (\<lambda>t. t\<lparr>t_state := TASK_STATE_READY, t_wake_tick := 0,
                           t_slice_remaining := task_calculate_quantum (t_base_priority t)\<rparr>) s2
                    else s2);
          let s4 = unlock_tasks flags s3;
          s5 \<leftarrow> (if current_task s4 \<noteq> 0 \<and> t_pid (cur s4) = pid \<and> t_is_user (cur s4) \<noteq> 0
                 then task_check_signals s4 else Some s4);
          Some (0, s5)
        }
      })"

fun first_user :: "(u32 \<times> task) list \<Rightarrow> u32" where
  "first_user [] = 0"
| "first_user ((p, t) # ts) =
     (if t_is_user t \<noteq> 0 \<and> t_state t \<noteq> TASK_STATE_DEAD then t_pid t else first_user ts)"

definition task_get_foreground_pid :: "'a task_state_scheme \<Rightarrow> (u32 \<times> 'a task_state_scheme) option" where
  "task_get_foreground_pid s =
     do {
       (flags, s1) \<leftarrow> lock_tasks s;
       let c = cur s1;
       let pid = (if current_task s1 \<noteq> 0 \<and> t_is_user c \<noteq> 0 \<and> t_state c \<noteq> TASK_STATE_DEAD then t_pid c
                  else if current_task s1 \<noteq> 0 \<and> t_waiting_on_pid c \<noteq> 0 then t_waiting_on_pid c
                  else first_user (task_list s1));
       Some (pid, unlock_tasks flags s1)
     }"

definition task_set_signal_handler :: "int \<Rightarrow> u32 \<Rightarrow> 'a task_state_scheme \<Rightarrow> u32 \<times> 'a task_state_scheme" where
  "task_set_signal_handler signum handler s =
     (if signum \<le> 0 \<or> signum \<ge> NSIG \<or> signum = int SIGKILL then (SIG_ERR, s)
      else if current_task s = 0 then (SIG_ERR, s)
      else (t_signal_handlers (cur s) ! nat signum,
            upd_cur (\<lambda>t. t\<lparr>t_signal_handlers := (t_signal_handlers t)[nat signum := handler]\<rparr>) s))"

section \<open>Blocking and waking\<close>

definition task_block :: "'a task_state_scheme \<Rightarrow> (bool \<times> 'a task_state_scheme) option" where
  "task_block s =
     do {
       (flags, s1) \<leftarrow> lock_tasks s;
       let s2 = (if current_task s1 \<noteq> 0
                 then upd_cur (\<lambda>t. t\<lparr>t_state := TASK_STATE_BLOCKED, t_slice_remaining := 0\<rparr>) s1 else s1);
       task_yield (unlock_tasks flags s2)
     }"

definition task_unblock :: "u32 \<Rightarrow> 'a task_state_scheme \<Rightarrow> 'a task_state_scheme option" where
  "task_unblock pid s =
     do {
       (flags, s1) \<leftarrow> lock_tasks s;
       let task = task_get_by_pid pid s1;
       let s2 = (if task \<noteq> 0 \<and> t_state (task_at task s1) = TASK_STATE_BLOCKED
                 then upd_task task (\<lambda>t. t\<lparr>t_state := TASK_STATE_READY, t_wait_ticks := 0,
                        t_slice_remaining := task_calculate_quantum (t_base_priority t)\<rparr>) s1
                 else s1);
       Some (unlock_tasks flags s2)
     }"

definition task_set_priority :: "u32 \<Rightarrow> u8 \<Rightarrow> 'a task_state_scheme \<Rightarrow> 'a task_state_scheme option" where
  "task_set_priority pid priority s =
     do {
       let priority = (if priority > PRIORITY_MAX then PRIORITY_MAX else priority);
       (flags, s1) \<leftarrow> lock_tasks s;
       let task = task_get_by_pid pid s1;
       let s2 = (if task \<noteq> 0
                 then upd_task task (\<lambda>t. t\<lparr>t_base_priority := priority, t_dynamic_priority := priority,
                        t_quantum := task_calculate_quantum priority\<rparr>) s1
                 else s1);
       Some (unlock_tasks flags s2)
     }"

definition task_get_priority :: "u32 \<Rightarrow> 'a task_state_scheme \<Rightarrow> u8" where
  "task_get_priority pid s =
     (let task = task_get_by_pid pid s in if task \<noteq> 0 then t_base_priority (task_at task s) else PRIORITY_NORMAL)"

text \<open>\<open>task_sleep\<close> releases the lock without restoring the flags, and restores the interrupt
  flag after the yield, that is, when the sleeper runs again.\<close>

definition task_sleep :: "u32 \<Rightarrow> 'a task_state_scheme \<Rightarrow> (bool \<times> 'a task_state_scheme) option" where
  "task_sleep ticks s =
     (if ticks = 0 \<or> current_task s = 0 then Some (False, s)
      else do {
        (flags, s1) \<leftarrow> lock_tasks s;
        let s2 = upd_cur (\<lambda>t. t\<lparr>t_state := TASK_STATE_SLEEPING, t_wake_tick := system_ticks s1 + ticks,
                               t_slice_remaining := 0\<rparr>) s1;
        (switched, s3) \<leftarrow> task_yield (s2\<lparr>task_lock := spinlock_release (task_lock s2)\<rparr>);
        Some (switched, if \<not> switched \<and> flags AND 0x200 \<noteq> 0
                        then s3\<lparr>eflags := enable_interrupts (eflags s3)\<rparr> else s3)
      })"

fun wake_first :: "u32 \<Rightarrow> (u32 \<times> task) list \<Rightarrow> (u32 \<times> task) list" where
  "wake_first pid [] = []"
| "wake_first pid ((p, t) # ts) =
     (if t_pid t = pid \<and> t_state t = TASK_STATE_SLEEPING
      then (p, t\<lparr>t_state := TASK_STATE_READY, t_wake_tick := 0, t_wait_ticks := 0,
                 t_slice_remaining := task_calculate_quantum (t_base_priority t)\<rparr>) # ts
      else (p, t) # wake_first pid ts)"

definition task_wake :: "u32 \<Rightarrow> 'a task_state_scheme \<Rightarrow> 'a task_state_scheme option" where
  "task_wake pid s =
     (if task_list s = [] then Some s
      else do {
        (flags, s1) \<leftarrow> lock_tasks s;
        Some (unlock_tasks flags (s1\<lparr>task_list := wake_first pid (task_list s1)\<rparr>))
      })"

definition task_request_yield :: "'a task_state_scheme \<Rightarrow> 'a task_state_scheme option" where
  "task_request_yield s =
     (if current_task s = 0 then Some s
      else do {
        (flags, s1) \<leftarrow> lock_tasks s;
        Some (unlock_tasks flags (upd_cur (\<lambda>t. t\<lparr>t_yield_requested := True\<rparr>) s1))
      })"

definition task_wait :: "u32 \<Rightarrow> 'a task_state_scheme \<Rightarrow> (bool \<times> 'a task_state_scheme) option" where
  "task_wait pid s =
     do {
       (flags, s1) \<leftarrow> lock_tasks s;
       let target = task_get_by_pid pid s1;
       if target = 0 then Some (False, unlock_tasks flags s1)
       else if current_task s1 = 0 then None
       else if t_state (task_at target s1) = TASK_STATE_DEAD
       then do {
         let status = t_exit_status (task_at target s1);
         let s2 = upd_cur (\<lambda>t. t\<lparr>t_exit_status := status, t_waiting_on_pid := 0\<rparr>) s1;
         let s3 = upd_task target (\<lambda>t. t\<lparr>t_is_zombie := False\<rparr>) s2;
         Some (False, unlock_tasks flags (s3\<lparr>needs_cleanup := True\<rparr>))
       }
       else do {
         let s2 = upd_cur (\<lambda>t. t\<lparr>t_state := TASK_STATE_WAITING, t_waiting_on_pid := pid, t_wake_tick := 0\<rparr>) s1;
         (switched, s3) \<leftarrow> task_yield (unlock_tasks flags s2);
         Some (switched, if switched then s3 else s3\<lparr>eflags := enable_interrupts (eflags s3)\<rparr>)
       }
     }"

definition task_get_exit_status :: "u32 \<Rightarrow> 'a task_state_scheme \<Rightarrow> u32" where
  "task_get_exit_status pid s =
     (let task = task_get_by_pid pid s in if task \<noteq> 0 then t_exit_status (task_at task s) else 0)"

definition task_get_cpu_time :: "u32 \<Rightarrow> 'a task_state_scheme \<Rightarrow> u32" where
  "task_get_cpu_time pid s =
     (let task = task_get_by_pid pid s in if task \<noteq> 0 then t_cpu_time_ticks (task_at task s) else 0)"

section \<open>The timer\<close>

definition task_schedule_tick :: "'a task_state_scheme \<Rightarrow> (bool \<times> 'a task_state_scheme) option" where
  "task_schedule_tick s0 =
     (let s = task_wake_expired_sleepers s0; st = t_state (cur s)
      in if current_task s = 0 then Some (False, s)
         else if st = TASK_STATE_DEAD then task_yield s
         else if st = TASK_STATE_BLOCKED \<or> st = TASK_STATE_SLEEPING \<or> st = TASK_STATE_WAITING
         then Some (False, s)
         else
           let s1 = upd_cur (\<lambda>t. t\<lparr>t_cpu_time_ticks := t_cpu_time_ticks t + 1\<rparr>) s
           in if t_yield_requested (cur s1)
              then task_yield (upd_cur (\<lambda>t. t\<lparr>t_yield_requested := False\<rparr>) s1)
              else
                let s2 = (if t_slice_remaining (cur s1) > 0
                          then upd_cur (\<lambda>t. t\<lparr>t_slice_remaining := t_slice_remaining t - 1\<rparr>) s1 else s1)
                in if t_slice_remaining (cur s2) = 0 then task_yield (upd_cur preempt s2)
                   else Some (False, s2))"

definition pit_handle_interrupt :: "'a task_state_scheme \<Rightarrow> (bool \<times> 'a task_state_scheme) option" where
  "pit_handle_interrupt s =
     (let s1 = s\<lparr>system_ticks := system_ticks s + 1\<rparr>
      in if current_task s1 \<noteq> 0 \<and> t_is_user (cur s1) = 0 then task_schedule_tick s1 else Some (False, s1))"

section \<open>Reaping\<close>

text \<open>One pass of the idle task over the list; \<open>pre\<close> is the part it keeps, in front of the rest.\<close>

fun reap_loop :: "(u32 \<times> task) list \<Rightarrow> (u32 \<times> task) list \<Rightarrow> 'a task_state_scheme \<Rightarrow> 'a task_state_scheme" where
  "reap_loop pre [] s = s\<lparr>task_list := pre\<rparr>"
| "reap_loop pre ((p, t) # ts) s =
     (if t_state t = TASK_STATE_DEAD \<and> task_can_reap t (pre @ (p, t) # ts)
      then reap_loop pre ts (kmem_free p (kmem_free (t_stack_base t) s))
      else reap_loop (pre @ [(p, t)]) ts s)"

definition idle_cleanup :: "'a task_state_scheme \<Rightarrow> 'a task_state_scheme option" where
  "idle_cleanup s =
     (if needs_cleanup s
      then do {
        (l, e) \<leftarrow> spinlock_acquire_irq (task_lock s) (eflags s);
        let s1 = reap_loop [] (task_list s) (s\<lparr>task_lock := l, eflags := e\<rparr>);
        let (l', e') = spinlock_release_irq (task_lock s1) (eflags s1);
        Some (s1\<lparr>needs_cleanup := False, task_lock := l', eflags := e'\<rparr>)
      }
      else Some s)"

section \<open>Creation\<close>

definition std_fds :: "u32 \<Rightarrow> u32 \<Rightarrow> u32 \<Rightarrow> file_descriptor list" where
  "std_fds a b c =
     [zero_fd\<lparr>fd_in_use := True, fd_node := a\<rparr>, zero_fd\<lparr>fd_in_use := True, fd_node := b\<rparr>,
      zero_fd\<lparr>fd_in_use := True, fd_node := c\<rparr>] @ replicate 13 zero_fd"

definition open_std_fds ::
  "(open_fn \<Rightarrow> cstr \<Rightarrow> 'a task_state_scheme \<Rightarrow> (u32 \<times> 'a task_state_scheme) option)
   \<Rightarrow> 'a task_state_scheme \<Rightarrow> (file_descriptor list \<times> 'a task_state_scheme) option"
where
  "open_std_fds opn s =
     do {
       (a, s1) \<leftarrow> vfs_open opn (bytes ''/dev/stdin'') s;
       (b, s2) \<leftarrow> vfs_open opn (bytes ''/dev/stdout'') s1;
       (c, s3) \<leftarrow> vfs_open opn (bytes ''/dev/stdout'') s2;
       Some (std_fds a b c, s3)
     }"

text \<open>\<open>*addr = w\<close> for the words of a new stack, lowest address first.\<close>

fun store_words :: "u32 \<Rightarrow> u32 list \<Rightarrow> (u32 \<Rightarrow> u32) \<Rightarrow> u32 \<Rightarrow> u32" where
  "store_words a [] m = m"
| "store_words a (w # ws) m = store_words (a + 4) ws (m(a := w))"

definition fresh_task :: "u32 \<Rightarrow> task" where
  "fresh_task parent = zero_task\<lparr>t_uid := 0, t_gid := 0, t_euid := 0, t_egid := 0, t_caps := 0xFFFFFFFF,
     t_umask := 18, t_base_priority := PRIORITY_NORMAL, t_dynamic_priority := PRIORITY_NORMAL,
     t_quantum := task_calculate_quantum PRIORITY_NORMAL,
     t_slice_remaining := task_calculate_quantum PRIORITY_NORMAL, t_parent_pid := parent\<rparr>"

text \<open>\<open>next_pid++\<close> and \<open>task_add_child\<close>, which both creation routines do.\<close>

definition take_pid :: "'a task_state_scheme \<Rightarrow> u32 \<times> 'a task_state_scheme" where
  "take_pid s =
     (let pid = next_pid s; s1 = s\<lparr>next_pid := pid + 1\<rparr>
      in (pid, if current_task s1 \<noteq> 0 then snd (task_add_child (current_task s1) pid s1) else s1))"

text \<open>The insertion at the head of the list. It takes the lock without disabling interrupts.\<close>

definition insert_task :: "u32 \<Rightarrow> task \<Rightarrow> 'a task_state_scheme \<Rightarrow> 'a task_state_scheme option" where
  "insert_task p t s =
     do {
       l \<leftarrow> spinlock_acquire (task_lock s);
       Some (s\<lparr>task_list := (p, t) # task_list s, task_lock := spinlock_release l\<rparr>)
     }"

definition task_create ::
  "(open_fn \<Rightarrow> cstr \<Rightarrow> 'a task_state_scheme \<Rightarrow> (u32 \<times> 'a task_state_scheme) option)
   \<Rightarrow> cstr \<Rightarrow> u32 \<Rightarrow> u32 \<Rightarrow> 'a task_state_scheme \<Rightarrow> (u32 \<times> 'a task_state_scheme) option"
where
  "task_create opn name entry_point page_directory s =
     do {
       (new_task, s1) \<leftarrow> kmem_zalloc SIZEOF_TASK s;
       (stack, s2) \<leftarrow> kmem_zalloc 16384 s1;
       if new_task = 0 \<or> stack = 0 then None
       else do {
         let esp = stack + 16384 - 20;
         let s3 = s2\<lparr>stack_words := store_words esp [0, 0, 0, 0, entry_point] (stack_words s2)\<rparr>;
         let parent = (if current_task s3 \<noteq> 0 then t_pid (cur s3) else 0);
         (fds, s4) \<leftarrow> open_std_fds opn s3;
         let (pid, s5) = take_pid s4;
         nm \<leftarrow> strcpy (replicate 32 0) name;
         s6 \<leftarrow> insert_task new_task
           ((fresh_task parent)\<lparr>t_stack_base := stack, t_kernel_stack_top := stack + 16384, t_is_user := 0,
             t_fd_table := fds, t_pid := pid, t_name := nm, t_esp := esp, t_state := TASK_STATE_READY,
             t_page_directory := page_directory, t_next_user_vaddr := 0x10000000\<rparr>) s5;
         Some (pid, s6)
       }
     }"

text \<open>\<open>task_create_user\<close>; \<open>rtu\<close> is the link address of \<open>return_to_user_mode\<close>.\<close>

definition task_create_user ::
  "u32 \<Rightarrow> (open_fn \<Rightarrow> cstr \<Rightarrow> 'a task_state_scheme \<Rightarrow> (u32 \<times> 'a task_state_scheme) option)
   \<Rightarrow> cstr \<Rightarrow> u32 \<Rightarrow> u32 \<Rightarrow> 'a task_state_scheme \<Rightarrow> (u32 \<times> 'a task_state_scheme) option"
where
  "task_create_user rtu opn name entry_point page_directory s =
     do {
       (new_task, s1) \<leftarrow> kmem_zalloc SIZEOF_TASK s;
       (kstack, s2) \<leftarrow> kmem_zalloc 16384 s1;
       if new_task = 0 \<or> kstack = 0 then None
       else do {
         let stack_top = (kstack + 16384) AND NOT 0xF;
         let esp = stack_top - 40;
         let parent = (if current_task s2 \<noteq> 0 then t_pid (cur s2) else 0);
         let s3 = s2\<lparr>stack_words := store_words esp
           [0, 0, 0, 0, rtu, entry_point, 0x1B, 0x202, 0xBFFFF000 + 4096 - 16, 0x23] (stack_words s2)\<rparr>;
         (fds, s4) \<leftarrow> open_std_fds opn s3;
         let base_name = (case strrchr name 47 of None \<Rightarrow> name | Some slash \<Rightarrow> tl slash);
         nm \<leftarrow> strncpy (replicate 32 0) base_name 31;
         ex \<leftarrow> strncpy (replicate 256 0) name 255;
         let (pid, s5) = take_pid s4;
         s6 \<leftarrow> insert_task new_task
           ((fresh_task parent)\<lparr>t_stack_base := kstack, t_kernel_stack_top := stack_top, t_is_user := 1,
             t_fd_table := fds, t_pid := pid, t_name := nm[31 := 0], t_exec_path := ex[255 := 0], t_esp := esp,
             t_state := TASK_STATE_READY, t_page_directory := page_directory,
             t_next_user_vaddr := 0x10000000\<rparr>) s5;
         Some (pid, s6)
       }
     }"

text \<open>\<open>task_initialize\<close>; \<open>idle\<close> is the link address of \<open>idle_task_function\<close>.\<close>

definition task_initialize ::
  "u32 \<Rightarrow> (open_fn \<Rightarrow> cstr \<Rightarrow> 'a task_state_scheme \<Rightarrow> (u32 \<times> 'a task_state_scheme) option)
   \<Rightarrow> 'a task_state_scheme \<Rightarrow> 'a task_state_scheme option"
where
  "task_initialize idle opn s =
     do {
       (root, s1) \<leftarrow> kmem_zalloc SIZEOF_TASK s;
       if root = 0 then None
       else do {
         let pid = next_pid s1;
         nm \<leftarrow> strcpy (replicate 32 0) (bytes ''kernel_shell'');
         let dir = vmm_get_directory (kheap s1);
         (fds, s2) \<leftarrow> open_std_fds opn (s1\<lparr>next_pid := pid + 1\<rparr>);
         (stack, s3) \<leftarrow> kmem_zalloc 16384 s2;
         let top = stack + 16384;
         let t = (fresh_task 0)\<lparr>t_pid := pid, t_name := nm, t_state := TASK_STATE_RUNNING,
           t_page_directory := dir, t_next_user_vaddr := 0x10000000, t_fd_table := fds,
           t_stack_base := stack, t_kernel_stack_top := top, t_esp := top\<rparr>;
         let s4 = (tss_set_kernel_stack top s3)\<lparr>task_list := [(root, t)], current_task := root\<rparr>;
         (idle_pid, s5) \<leftarrow> task_create opn (bytes ''idle'') idle (vmm_get_directory (kheap s4)) s4;
         task_set_priority idle_pid PRIORITY_IDLE s5
       }
     }"

section \<open>Process information\<close>

record process_info =
  pi_pid :: u32
  pi_parent_pid :: u32
  pi_state :: u32
  pi_cpu_ticks :: u32
  pi_base_priority :: u8
  pi_dynamic_priority :: u8
  pi_name :: "u8 list"

definition task_info :: "task \<Rightarrow> process_info option" where
  "task_info t =
     do {
       nm \<leftarrow> strncpy (replicate 32 0) (t_name t) 31;
       Some \<lparr>pi_pid = t_pid t, pi_parent_pid = t_parent_pid t, pi_state = ucast (t_state t),
         pi_cpu_ticks = t_cpu_time_ticks t, pi_base_priority = t_base_priority t,
         pi_dynamic_priority = t_dynamic_priority t, pi_name = nm[31 := 0]\<rparr>
     }"

fun info_loop :: "nat \<Rightarrow> (u32 \<times> task) list \<Rightarrow> process_info list option" where
  "info_loop 0 ts = Some []"
| "info_loop (Suc n) [] = Some []"
| "info_loop (Suc n) ((p, t) # ts) =
     do { i \<leftarrow> task_info t; rest \<leftarrow> info_loop n ts; Some (i # rest) }"

text \<open>\<open>task_get_process_info\<close> returns the entries it writes; their number is the result.\<close>

definition task_get_process_info ::
  "u32 \<Rightarrow> 'a task_state_scheme \<Rightarrow> (process_info list \<times> 'a task_state_scheme) option"
where
  "task_get_process_info max_entries s =
     do {
       (flags, s1) \<leftarrow> lock_tasks s;
       infos \<leftarrow> info_loop (unat max_entries) (task_list s1);
       Some (infos, unlock_tasks flags s1)
     }"

end
