(* ===== verification/Sched.thy ===== *)
theory Sched
  imports Task
begin

text \<open>
  What the scheduler of \<open>task.c\<close> guarantees: which task a yield selects, the invariant every
  scheduling operation keeps, that no ready task waits for ever, and what exiting and
  waiting for a task do.
\<close>

section \<open>The task list\<close>

lemma map_task_fst [simp]: "map fst (map_task p f ts) = map fst ts"
  by (induction ts) (auto simp: map_task_def)

lemma map_of_map_task:
  "map_of (map_task p f ts) q = map_option (\<lambda>t. if q = p then f t else t) (map_of ts q)"
  by (induction ts) (auto simp: map_task_def)

lemma map_of_map_snd: "map_of (map (\<lambda>(p, t). (p, g p t)) ts) q = map_option (g q) (map_of ts q)"
  by (induction ts) auto

lemma task_at_upd:
  "q \<in> fst ` set (task_list s) \<Longrightarrow> task_at q (upd_task p f s) = (if q = p then f (task_at q s) else task_at q s)"
  by (auto simp: task_at_def upd_task_def map_of_map_task split: option.split dest: weak_map_of_SomeI)

lemma upd_task_fields [simp]:
  "current_task (upd_task p f s) = current_task s" "task_lock (upd_task p f s) = task_lock s"
  "eflags (upd_task p f s) = eflags s" "next_pid (upd_task p f s) = next_pid s"
  "system_ticks (upd_task p f s) = system_ticks s" "kheap (upd_task p f s) = kheap s"
  "cpu_esp (upd_task p f s) = cpu_esp s" "tss_esp0 (upd_task p f s) = tss_esp0 s"
  "needs_cleanup (upd_task p f s) = needs_cleanup s" "task_list (upd_task p f s) = map_task p f (task_list s)"
  by (simp_all add: upd_task_def)

lemma task_at_mem:
  "distinct (map fst (task_list s)) \<Longrightarrow> (p, t) \<in> set (task_list s) \<Longrightarrow> task_at p s = t"
  by (simp add: task_at_def)

lemma task_at_in:
  "p \<in> fst ` set (task_list s) \<Longrightarrow> (p, task_at p s) \<in> set (task_list s)"
  by (auto simp: task_at_def dest: map_of_SomeD weak_map_of_SomeI split: option.split)

lemma lock_tasks_free:
  "task_lock s = 0 \<Longrightarrow> lock_tasks s = Some (eflags s, s\<lparr>task_lock := 1, eflags := disable_interrupts (eflags s)\<rparr>)"
  by (simp add: lock_tasks_def lock_defs)

lemma lock_tasks_held: "task_lock s \<noteq> 0 \<Longrightarrow> lock_tasks s = None"
  by (simp add: lock_tasks_def)

lemma unlock_tasks_eq:
  "unlock_tasks f s = s\<lparr>task_lock := 0, eflags := spinlock_restore_flags f (eflags s)\<rparr>"
  by (simp add: unlock_tasks_def spinlock_release_irq_restore_def)

section \<open>The choice of the next task\<close>

definition aged :: "u32 \<Rightarrow> (u32 \<times> task) list \<Rightarrow> (u32 \<times> task) list" where
  "aged current ts = map (\<lambda>(p, t). (p, age current p t)) ts"

text \<open>The order in which tasks are preferred: by dynamic priority, then by waiting time.\<close>

definition beats :: "task \<Rightarrow> u8 \<Rightarrow> u32 \<Rightarrow> bool" where
  "beats t prio wait \<longleftrightarrow> t_dynamic_priority t > prio \<or> t_dynamic_priority t = prio \<and> t_wait_ticks t > wait"

lemma beats_trans:
  "beats u (t_dynamic_priority t) (t_wait_ticks t) \<Longrightarrow> beats t p w \<Longrightarrow> beats u p w"
  by (auto simp: beats_def)

lemma not_beats_trans:
  "\<not> beats u (t_dynamic_priority t) (t_wait_ticks t) \<Longrightarrow> \<not> beats t p w \<Longrightarrow> \<not> beats u p w"
  by (auto simp: beats_def)

lemma beats_not_beats:
  "\<not> beats u p w \<Longrightarrow> beats t p w \<Longrightarrow> \<not> beats u (t_dynamic_priority t) (t_wait_ticks t)"
  by (auto simp: beats_def)

lemma age_state [simp]: "t_state (age current p t) = t_state t"
  by (simp add: age_def Let_def)

lemma runnable_age [simp]: "runnable current p (age current p t) = runnable current p t"
  by (simp add: runnable_def)

lemma age_not_runnable: "\<not> runnable current p t \<Longrightarrow> age current p t = t"
  by (auto simp: age_def runnable_def)

lemma age_self [simp]: "age current current t = t"
  by (simp add: age_def)

lemma find_ready_Cons:
  "find_ready_loop current ((p, t) # ts) best prio wait =
    (let t' = age current p t;
         r = (if runnable current p t \<and> (best = 0 \<or> beats t' prio wait)
              then find_ready_loop current ts p (t_dynamic_priority t') (t_wait_ticks t')
              else find_ready_loop current ts best prio wait)
     in ((p, t') # fst r, snd r))"
proof (cases "runnable current p t")
  case True
  then show ?thesis
    by (cases "best = 0 \<or> beats (age current p t) prio wait")
      (simp_all add: Let_def beats_def case_prod_beta)
next
  case False
  then show ?thesis by (simp add: Let_def case_prod_beta age_not_runnable)
qed

declare find_ready_loop.simps(2) [simp del]

lemma find_ready_list: "fst (find_ready_loop current ts best prio wait) = aged current ts"
proof (induction ts arbitrary: best prio wait)
  case (Cons x ts)
  then show ?case by (cases x) (simp add: find_ready_Cons aged_def Let_def)
qed (simp add: aged_def)

text \<open>The task \<open>t\<close> at \<open>r\<close> is runnable and no runnable task of the list is preferred to it.\<close>

definition preferred :: "u32 \<Rightarrow> (u32 \<times> task) list \<Rightarrow> u32 \<Rightarrow> task \<Rightarrow> bool" where
  "preferred current ts r t \<longleftrightarrow> (r, t) \<in> set ts \<and> runnable current r t \<and>
     (\<forall>(q, u) \<in> set ts. runnable current q u \<longrightarrow> \<not> beats u (t_dynamic_priority t) (t_wait_ticks t))"

lemma preferred_Cons:
  assumes "preferred current ts r u"
    "runnable current p t \<longrightarrow> \<not> beats t (t_dynamic_priority u) (t_wait_ticks u)"
  shows "preferred current ((p, t) # ts) r u"
  using assms by (auto simp: preferred_def)

lemma preferred_head:
  assumes "runnable current p t"
    "\<forall>(q, u) \<in> set ts. runnable current q u \<longrightarrow> \<not> beats u (t_dynamic_priority t) (t_wait_ticks t)"
  shows "preferred current ((p, t) # ts) p t"
  using assms by (auto simp: preferred_def beats_def)

lemma find_ready_best:
  assumes "0 \<notin> fst ` set ts"
  shows "snd (find_ready_loop current ts best prio wait) = best \<and>
      (\<forall>(p, t) \<in> set (aged current ts). runnable current p t \<longrightarrow> best \<noteq> 0 \<and> \<not> beats t prio wait) \<or>
    (\<exists>t. preferred current (aged current ts) (snd (find_ready_loop current ts best prio wait)) t \<and>
       (best \<noteq> 0 \<longrightarrow> beats t prio wait))"
  using assms
proof (induction ts arbitrary: best prio wait)
  case (Cons x ts)
  obtain p t where x: "x = (p, t)" by (cases x)
  let ?t = "age current p t" and ?b = "best = 0 \<or> beats (age current p t) prio wait"
  have ne: "p \<noteq> 0" "0 \<notin> fst ` set ts" using Cons.prems by (auto simp: x)
  have cons: "aged current (x # ts) = (p, ?t) # aged current ts" by (simp add: aged_def x)
  note IH = Cons.IH [OF ne(2)]
  show ?case
  proof (cases "runnable current p t \<and> ?b")
    case True
    define r where "r = snd (find_ready_loop current ts p (t_dynamic_priority ?t) (t_wait_ticks ?t))"
    have r: "snd (find_ready_loop current (x # ts) best prio wait) = r"
      using True by (auto simp: x find_ready_Cons Let_def r_def)
    from IH [of p "t_dynamic_priority ?t" "t_wait_ticks ?t", folded r_def] show ?thesis
    proof (elim disjE conjE exE)
      assume *: "r = p" "\<forall>(q, u) \<in> set (aged current ts). runnable current q u \<longrightarrow>
          p \<noteq> 0 \<and> \<not> beats u (t_dynamic_priority ?t) (t_wait_ticks ?t)"
      have "preferred current ((p, ?t) # aged current ts) p ?t"
        using True * by (intro preferred_head) auto
      then show ?thesis using True unfolding r cons * by blast
    next
      fix u assume u: "preferred current (aged current ts) r u"
        "p \<noteq> 0 \<longrightarrow> beats u (t_dynamic_priority ?t) (t_wait_ticks ?t)"
      have "preferred current ((p, ?t) # aged current ts) r u"
        using u ne(1) by (intro preferred_Cons) (auto simp: beats_def)
      moreover have "best \<noteq> 0 \<longrightarrow> beats u prio wait" using True u(2) ne(1) beats_trans by blast
      ultimately show ?thesis unfolding r cons by blast
    qed
  next
    case False
    define r where "r = snd (find_ready_loop current ts best prio wait)"
    have r: "snd (find_ready_loop current (x # ts) best prio wait) = r"
      using False by (auto simp: x find_ready_Cons Let_def r_def)
    from IH [of best prio wait, folded r_def] show ?thesis
    proof (elim disjE conjE exE)
      assume *: "r = best" "\<forall>(q, u) \<in> set (aged current ts). runnable current q u \<longrightarrow>
          best \<noteq> 0 \<and> \<not> beats u prio wait"
      then show ?thesis using False unfolding r cons by auto
    next
      fix u assume u: "preferred current (aged current ts) r u" "best \<noteq> 0 \<longrightarrow> beats u prio wait"
      have "preferred current ((p, ?t) # aged current ts) r u"
        using u False beats_not_beats [of ?t prio wait u] by (intro preferred_Cons) auto
      then show ?thesis using u unfolding r cons by blast
    qed
  qed
qed (simp add: aged_def)

lemma find_next_ready:
  assumes "0 \<notin> fst ` set (task_list s)"
  shows "\<exists>r. task_find_next_ready c s = (r, s\<lparr>task_list := aged c (task_list s)\<rparr>) \<and>
    (r = 0 \<and> (\<forall>(p, t) \<in> set (task_list s). \<not> runnable c p t) \<or>
     (\<exists>t. preferred c (aged c (task_list s)) r t))"
proof -
  define r where "r = snd (find_ready_loop c (task_list s) 0 0 0)"
  have "task_find_next_ready c s = (r, s\<lparr>task_list := aged c (task_list s)\<rparr>)"
    unfolding task_find_next_ready_def case_prod_beta find_ready_list Let_def r_def by (rule refl)
  moreover have "r = 0 \<and> (\<forall>(p, t) \<in> set (task_list s). \<not> runnable c p t) \<or>
     (\<exists>t. preferred c (aged c (task_list s)) r t)"
    using find_ready_best [OF assms, of c 0 0 0, folded r_def] by (auto simp: aged_def)
  ultimately show ?thesis by blast
qed

section \<open>The invariant\<close>

text \<open>
  Only the current task is running, its waiting time is zero, the priorities stay in their
  range, and addresses and process ids identify tasks.
\<close>

definition entry_ok :: "u32 \<Rightarrow> u32 \<Rightarrow> task \<Rightarrow> bool" where
  "entry_ok c p t \<longleftrightarrow> (t_state t = TASK_STATE_RUNNING \<longrightarrow> p = c) \<and> (p = c \<longrightarrow> t_wait_ticks t = 0) \<and>
     t_dynamic_priority t \<le> 4 \<and> t_base_priority t \<le> 4 \<and> t_state t \<le> 5"

definition list_ok :: "u32 \<Rightarrow> (u32 \<times> task) list \<Rightarrow> bool" where
  "list_ok c ts \<longleftrightarrow> distinct (map fst ts) \<and> 0 \<notin> fst ` set ts \<and> distinct (map (t_pid \<circ> snd) ts) \<and>
     (\<forall>(p, t) \<in> set ts. entry_ok c p t)"

definition sched_inv :: "'a task_state_scheme \<Rightarrow> bool" where
  "sched_inv s \<longleftrightarrow> task_lock s = 0 \<and> current_task s \<in> fst ` set (task_list s) \<and>
     list_ok (current_task s) (task_list s)"

lemma list_ok_map:
  assumes "list_ok c ts" "\<And>p t. (p, t) \<in> set ts \<Longrightarrow> t_pid (g p t) = t_pid t"
    "\<And>p t. (p, t) \<in> set ts \<Longrightarrow> entry_ok c p t \<Longrightarrow> entry_ok c' p (g p t)"
  shows "list_ok c' (map (\<lambda>(p, t). (p, g p t)) ts)"
proof -
  have m1: "map fst (map (\<lambda>(p, t). (p, g p t)) ts) = map fst ts" by (induction ts) auto
  have m2: "map (t_pid \<circ> snd) (map (\<lambda>(p, t). (p, g p t)) ts) = map (t_pid \<circ> snd) ts"
    using assms(2) by (induction ts) auto
  have m3: "fst ` set (map (\<lambda>(p, t). (p, g p t)) ts) = fst ` set ts" by force
  show ?thesis using assms(1,3) unfolding list_ok_def m1 m2 m3 by auto
qed

lemma map_task_eq: "map_task q f ts = map (\<lambda>(p, t). (p, if p = q then f t else t)) ts"
  by (simp add: map_task_def)

lemma list_ok_map_task:
  assumes "list_ok c ts" "\<And>t. t_pid (f t) = t_pid t"
    "\<And>t. (q, t) \<in> set ts \<Longrightarrow> entry_ok c q t \<Longrightarrow> entry_ok c q (f t)"
  shows "list_ok c (map_task q f ts)"
  unfolding map_task_eq using assms by (intro list_ok_map [OF assms(1)]) auto

lemma fst_set_map [simp]:
  "fst ` set (map_task p f ts) = fst ` set ts" "fst ` set (aged c ts) = fst ` set ts"
  by (force simp: map_task_def aged_def)+

lemma age_fields [simp]:
  "t_pid (age c p t) = t_pid t" "t_base_priority (age c p t) = t_base_priority t"
  "t_esp (age c p t) = t_esp t" "t_page_directory (age c p t) = t_page_directory t"
  "t_kernel_stack_top (age c p t) = t_kernel_stack_top t" "t_is_user (age c p t) = t_is_user t"
  "t_pending_signals (age c p t) = t_pending_signals t"
  by (simp_all add: age_def Let_def)

lemma age_priority:
  assumes "t_dynamic_priority t \<le> 4"
  shows "t_dynamic_priority (age c p t) \<le> 4"
proof -
  have "t_dynamic_priority t < 4 \<Longrightarrow> t_dynamic_priority t + 1 \<le> 4"
    by (simp add: word_less_nat_alt word_le_nat_alt unat_add_no_wrap)
  then show ?thesis using assms by (simp add: age_def Let_def PRIORITY_MAX_def)
qed

lemma list_ok_aged: "list_ok c ts \<Longrightarrow> list_ok c (aged c ts)"
  unfolding aged_def by (intro list_ok_map) (auto simp: entry_ok_def age_priority)

lemma list_ok_at: "list_ok c ts \<Longrightarrow> (p, t) \<in> set ts \<Longrightarrow> map_of ts p = Some t"
  by (simp add: list_ok_def)

lemma sched_inv_nonzero: "sched_inv s \<Longrightarrow> current_task s \<noteq> 0"
  unfolding sched_inv_def list_ok_def by metis

section \<open>One yield\<close>

lemma record_same_lock: "task_lock s = 0 \<Longrightarrow> s\<lparr>task_lock := 0\<rparr> = s"
  by (cases s) simp

text \<open>A yield that finds no better task refills the time slice and leaves the processor as it is.\<close>

lemma yield_core_stay:
  assumes "sched_inv s" "task_find_next_ready (current_task s) s = (r, s\<lparr>task_list := ts\<rparr>)"
    "r = 0 \<or> r = current_task s"
  shows "yield_core s = Some (False, s\<lparr>task_list := map_task (current_task s) refill ts\<rparr>)"
proof -
  have lk: "task_lock s = 0" and c: "current_task s \<noteq> 0" using assms(1) sched_inv_nonzero by (auto simp: sched_inv_def)
  define s1 where "s1 = s\<lparr>task_lock := 1, eflags := disable_interrupts (eflags s)\<rparr>"
  have cs1: "current_task s1 = current_task s" by (simp add: s1_def)
  have f1: "task_find_next_ready (current_task s) s1 = (r, s1\<lparr>task_list := ts\<rparr>)"
    using assms(2) by (cases s) (simp add: s1_def task_find_next_ready_def split: prod.splits)
  have "yield_core s = Some (False, unlock_tasks (eflags s) (upd_task (current_task s) refill (s1\<lparr>task_list := ts\<rparr>)))"
    unfolding yield_core_def lock_tasks_free [OF lk] s1_def [symmetric] using c cs1 f1 assms(3) by auto
  also have "unlock_tasks (eflags s) (upd_task (current_task s) refill (s1\<lparr>task_list := ts\<rparr>)) =
      s\<lparr>task_list := map_task (current_task s) refill ts\<rparr>"
    using lk by (cases s) (simp add: unlock_tasks_eq upd_task_def s1_def)
  finally show ?thesis .
qed

text \<open>A yield that switches: the state afterwards.\<close>

lemma yield_core_switch:
  assumes "sched_inv s" "task_find_next_ready (current_task s) s = (r, s\<lparr>task_list := ts\<rparr>)"
    "r \<noteq> 0" "r \<noteq> current_task s" "map_of ts r = Some t"
  shows "yield_core s = Some (True,
    s\<lparr>task_list := map_task (current_task s) (\<lambda>u. u\<lparr>t_esp := cpu_esp s\<rparr>)
        (map_task r run_next (map_task (current_task s) preempt ts)),
      current_task := r, tss_esp0 := t_kernel_stack_top t, kheap := (kheap s)\<lparr>cr3 := t_page_directory t\<rparr>,
      cpu_esp := t_esp t, eflags := enable_interrupts (eflags s)\<rparr>)"
proof -
  have lk: "task_lock s = 0" and c: "current_task s \<noteq> 0" using assms(1) sched_inv_nonzero by (auto simp: sched_inv_def)
  define s1 where "s1 = s\<lparr>task_lock := 1, eflags := disable_interrupts (eflags s)\<rparr>"
  have cs1: "current_task s1 = current_task s" by (simp add: s1_def)
  have f1: "task_find_next_ready (current_task s) s1 = (r, s1\<lparr>task_list := ts\<rparr>)"
    using assms(2) by (cases s) (simp add: s1_def task_find_next_ready_def split: prod.splits)
  define s3 where "s3 = (upd_task r run_next (upd_task (current_task s) preempt (s1\<lparr>task_list := ts\<rparr>)))\<lparr>current_task := r\<rparr>"
  have at: "task_at r s3 = run_next t"
    using assms(4,5) by (simp add: s3_def task_at_def upd_task_def map_of_map_task)
  have cs3: "current_task s3 = r" by (simp add: s3_def)
  have rn: "t_kernel_stack_top (run_next t) = t_kernel_stack_top t" "t_esp (run_next t) = t_esp t"
    "t_page_directory (run_next t) = t_page_directory t" by (simp_all add: run_next_def)
  define s4 where "s4 = unlock_tasks (eflags s) (tss_set_kernel_stack (t_kernel_stack_top t) s3)"
  have at4: "task_at r s4 = run_next t" and cs4: "current_task s4 = r"
    using at by (simp_all add: s4_def unlock_tasks_eq tss_set_kernel_stack_def task_at_def cs3)
  have "yield_core s = Some (True, switch_to_task (current_task s) (t_esp t) (t_page_directory t) s4)"
    unfolding yield_core_def lock_tasks_free [OF lk] s1_def [symmetric]
    using c assms(3,4) cs1
    by (simp add: f1 s3_def [symmetric] cs3 at rn s4_def [symmetric] cs4 at4 Let_def)
  also have "switch_to_task (current_task s) (t_esp t) (t_page_directory t) s4 =
    s\<lparr>task_list := map_task (current_task s) (\<lambda>u. u\<lparr>t_esp := cpu_esp s\<rparr>)
        (map_task r run_next (map_task (current_task s) preempt ts)),
      current_task := r, tss_esp0 := t_kernel_stack_top t, kheap := (kheap s)\<lparr>cr3 := t_page_directory t\<rparr>,
      cpu_esp := t_esp t, eflags := enable_interrupts (eflags s)\<rparr>"
    using lk
    by (cases s, cases "kheap s")
      (simp add: switch_to_task_def s4_def s3_def s1_def unlock_tasks_eq tss_set_kernel_stack_def upd_task_def Let_def)
  finally show ?thesis .
qed

definition switched :: "'a task_state_scheme \<Rightarrow> u32 \<Rightarrow> task \<Rightarrow> 'a task_state_scheme" where
  "switched s r t = s\<lparr>task_list := map_task (current_task s) (\<lambda>u. u\<lparr>t_esp := cpu_esp s\<rparr>)
        (map_task r run_next (map_task (current_task s) preempt (aged (current_task s) (task_list s)))),
      current_task := r, tss_esp0 := t_kernel_stack_top t, kheap := (kheap s)\<lparr>cr3 := t_page_directory t\<rparr>,
      cpu_esp := t_esp t, eflags := enable_interrupts (eflags s)\<rparr>"

definition stayed :: "'a task_state_scheme \<Rightarrow> 'a task_state_scheme" where
  "stayed s = s\<lparr>task_list := map_task (current_task s) refill (aged (current_task s) (task_list s))\<rparr>"

lemma switched_list:
  assumes "r \<noteq> current_task s"
  shows "task_list (switched s r t) = map (\<lambda>(p, u). (p,
    if p = current_task s then (preempt u)\<lparr>t_esp := cpu_esp s\<rparr>
    else let v = age (current_task s) p u in if p = r then run_next v else v)) (task_list s)"
  using assms by (auto simp: switched_def map_task_def aged_def Let_def)

lemma yield_core_cases:
  assumes "sched_inv s"
  obtains (stay) "yield_core s = Some (False, stayed s)"
      "(\<forall>(p, t) \<in> set (task_list s). \<not> runnable (current_task s) p t) \<or>
       (\<exists>t. preferred (current_task s) (aged (current_task s) (task_list s)) (current_task s) t)"
  | (switch) r t where "r \<noteq> 0" "r \<noteq> current_task s" "t_state t = TASK_STATE_READY"
      "preferred (current_task s) (aged (current_task s) (task_list s)) r t"
      "map_of (aged (current_task s) (task_list s)) r = Some t"
      "yield_core s = Some (True, switched s r t)"
proof -
  let ?c = "current_task s" and ?ts = "aged (current_task s) (task_list s)"
  have lo: "list_ok ?c (task_list s)" "list_ok ?c ?ts"
    using assms list_ok_aged by (auto simp: sched_inv_def)
  then have z: "0 \<notin> fst ` set (task_list s)" by (simp add: list_ok_def)
  obtain r where r: "task_find_next_ready ?c s = (r, s\<lparr>task_list := ?ts\<rparr>)"
    "r = 0 \<and> (\<forall>(p, t) \<in> set (task_list s). \<not> runnable ?c p t) \<or> (\<exists>t. preferred ?c ?ts r t)"
    using find_next_ready [OF z, of ?c] by blast
  show ?thesis
  proof (cases "r = 0 \<or> r = ?c")
    case True
    have "0 \<notin> fst ` set ?ts" using z by simp
    then have "\<not> preferred ?c ?ts 0 t" for t unfolding preferred_def by (metis fst_conv image_eqI)
    then have "(\<forall>(p, t) \<in> set (task_list s). \<not> runnable ?c p t) \<or> (\<exists>t. preferred ?c ?ts ?c t)"
      using True r(2) by auto
    moreover have "yield_core s = Some (False, stayed s)"
      unfolding stayed_def by (rule yield_core_stay [OF assms r(1) True])
    ultimately show ?thesis by (intro stay)
  next
    case False
    then obtain t where t: "preferred ?c ?ts r t" using r(2) by auto
    then have m: "map_of ?ts r = Some t" using list_ok_at [OF lo(2)] by (auto simp: preferred_def)
    have st: "t_state t = TASK_STATE_READY" using t False by (auto simp: preferred_def runnable_def)
    have rn: "r \<noteq> 0" "r \<noteq> ?c" using False by simp_all
    have "yield_core s = Some (True, switched s r t)"
      unfolding switched_def by (rule yield_core_switch [OF assms r(1) rn m])
    from switch [OF rn st t m this] show ?thesis .
  qed
qed

lemma entry_ok_simps [simp]:
  "t_pid (preempt t) = t_pid t" "t_pid (run_next t) = t_pid t" "t_pid (refill t) = t_pid t"
  "entry_ok c p (t\<lparr>t_esp := e\<rparr>) = entry_ok c p t"
  "entry_ok c p (refill t) = entry_ok c p t"
  by (simp_all add: preempt_def run_next_def refill_def entry_ok_def)

lemma stayed_inv: "sched_inv s \<Longrightarrow> sched_inv (stayed s)"
  unfolding sched_inv_def stayed_def by (auto intro!: list_ok_map_task list_ok_aged)

lemma switched_inv:
  assumes "sched_inv s" "r \<noteq> current_task s" "r \<in> fst ` set (task_list s)"
  shows "sched_inv (switched s r t)"
proof -
  let ?c = "current_task s"
  have lo: "list_ok ?c (task_list s)" using assms(1) by (simp add: sched_inv_def)
  have c: "current_task (switched s r t) = r" "task_lock (switched s r t) = task_lock s"
    by (simp_all add: switched_def)
  have "entry_ok r p (if p = ?c then (preempt u)\<lparr>t_esp := cpu_esp s\<rparr>
      else let v = age ?c p u in if p = r then run_next v else v)" if "entry_ok ?c p u" for p u
    using that assms(2)
    by (auto simp: entry_ok_def Let_def preempt_def run_next_def task_states age_priority)
  then have "list_ok r (task_list (switched s r t))"
    unfolding switched_list [OF assms(2)] by (intro list_ok_map [OF lo]) (auto simp: Let_def)
  moreover have "fst ` set (task_list (switched s r t)) = fst ` set (task_list s)"
    by (simp add: switched_def)
  ultimately show ?thesis using assms(1,3) c by (simp add: sched_inv_def)
qed

lemma length_map_task [simp]: "length (map_task p f ts) = length ts" "length (aged c ts) = length ts"
  by (simp_all add: map_task_def aged_def)

lemma map_of_aged_in: "map_of (aged c ts) r = Some t \<Longrightarrow> r \<in> fst ` set ts"
  by (drule map_of_SomeD) (metis fst_conv fst_set_map(2) image_eqI)

lemma yield_core_inv:
  assumes "sched_inv s"
  shows "\<exists>sw s'. yield_core s = Some (sw, s') \<and> sched_inv s' \<and>
    fst ` set (task_list s') = fst ` set (task_list s) \<and> length (task_list s') = length (task_list s) \<and>
    next_pid s' = next_pid s \<and> system_ticks s' = system_ticks s"
  using assms
proof (cases rule: yield_core_cases)
  case stay
  have "sched_inv (stayed s)" by (rule stayed_inv [OF assms])
  with stay(1) show ?thesis by (intro exI [of _ False] exI [of _ "stayed s"]) (simp add: stayed_def)
next
  case (switch r t)
  have "sched_inv (switched s r t)" by (rule switched_inv [OF assms switch(2) map_of_aged_in [OF switch(5)]])
  with switch(6) show ?thesis by (intro exI [of _ True] exI [of _ "switched s r t"]) (simp add: switched_def)
qed


section \<open>No starvation\<close>

lemma task_at_map_of: "map_of (task_list s) p = Some t \<Longrightarrow> task_at p s = t"
  by (simp add: task_at_def)

lemma in_list_map_of: "p \<in> fst ` set ts \<Longrightarrow> \<exists>t. map_of ts p = Some t"
  using map_of_eq_None_iff [of ts p] by auto

lemma task_at_stayed:
  assumes "p \<in> fst ` set (task_list s)"
  shows "task_at p (stayed s) =
    (if p = current_task s then refill (task_at p s) else age (current_task s) p (task_at p s))"
  using in_list_map_of [OF assms]
  by (auto simp: task_at_def stayed_def map_of_map_task aged_def map_of_map_snd)

lemma task_at_switched:
  assumes "p \<in> fst ` set (task_list s)" "r \<noteq> current_task s"
  shows "task_at p (switched s r t) =
    (if p = current_task s then (preempt (task_at p s))\<lparr>t_esp := cpu_esp s\<rparr>
     else let v = age (current_task s) p (task_at p s) in if p = r then run_next v else v)"
  using in_list_map_of [OF assms(1)] assms(2)
  by (auto simp: task_at_def switched_def map_of_map_task aged_def map_of_map_snd Let_def)

text \<open>The ready tasks that could be selected before a task at the highest priority.\<close>

definition rivals :: "u32 \<Rightarrow> 'a task_state_scheme \<Rightarrow> u32 set" where
  "rivals x s = {p \<in> fst ` set (task_list s). p \<noteq> x \<and> p \<noteq> current_task s \<and>
     t_state (task_at p s) = TASK_STATE_READY \<and> t_dynamic_priority (task_at p s) = 4 \<and>
     t_wait_ticks (task_at x s) \<le> t_wait_ticks (task_at p s)}"

text \<open>A ready task that is waiting for the processor, and waiting times that do not wrap in \<open>k\<close> yields.\<close>

definition waiting_ready :: "u32 \<Rightarrow> 'a task_state_scheme \<Rightarrow> bool" where
  "waiting_ready x s \<longleftrightarrow> x \<in> fst ` set (task_list s) \<and> x \<noteq> current_task s \<and>
     t_state (task_at x s) = TASK_STATE_READY \<and>
     (t_dynamic_priority (task_at x s) < 4 \<longrightarrow> t_wait_ticks (task_at x s) < 50)"

definition waits_below :: "nat \<Rightarrow> 'a task_state_scheme \<Rightarrow> bool" where
  "waits_below k s \<longleftrightarrow> (\<forall>p \<in> fst ` set (task_list s). unat (t_wait_ticks (task_at p s)) + k < 2 ^ 32)"

lemma waits_belowD:
  "waits_below k s \<Longrightarrow> p \<in> fst ` set (task_list s) \<Longrightarrow> unat (t_wait_ticks (task_at p s)) + k < 2 ^ 32"
  unfolding waits_below_def by blast

lemma age_ready:
  assumes "p \<noteq> c" "t_state t = TASK_STATE_READY"
  shows "age c p t = (if t_wait_ticks t + 1 \<ge> 50 \<and> t_dynamic_priority t < 4
    then t\<lparr>t_dynamic_priority := t_dynamic_priority t + 1, t_wait_ticks := 0\<rparr>
    else t\<lparr>t_wait_ticks := t_wait_ticks t + 1\<rparr>)"
  using assms by (simp add: age_def Let_def STARVATION_THRESHOLD_def PRIORITY_MAX_def)

lemma age_top: "t_dynamic_priority t = 4 \<Longrightarrow> p \<noteq> c \<Longrightarrow> t_state t = TASK_STATE_READY \<Longrightarrow>
    age c p t = t\<lparr>t_wait_ticks := t_wait_ticks t + 1\<rparr>"
  by (simp add: age_ready)

lemma unat_wait_Suc:
  "unat (w :: u32) + 1 < 2 ^ 32 \<Longrightarrow> unat (w + 1) = Suc (unat w)"
  by (simp add: unat_add_no_wrap)

lemma wait_age_le: "unat (t_wait_ticks t) + 1 < 2 ^ 32 \<Longrightarrow> unat (t_wait_ticks (age c p t)) \<le> unat (t_wait_ticks t) + 1"
  using unat_wait_Suc [of "t_wait_ticks t"] by (simp add: age_def Let_def)

lemma entry_at:
  assumes "sched_inv s" "p \<in> fst ` set (task_list s)"
  shows "entry_ok (current_task s) p (task_at p s)"
  using assms task_at_in [OF assms(2)] by (auto simp: sched_inv_def list_ok_def)

text \<open>A task that beats the top-priority task \<open>x\<close> after aging was at the top priority and waited as long.\<close>

lemma aged_rival:
  assumes "t_wait_ticks u + 1 \<le> t_wait_ticks (age c p t)" "t_dynamic_priority (age c p t) = 4"
    "p \<noteq> c" "t_state t = TASK_STATE_READY" "unat (t_wait_ticks u) + 1 < 2 ^ 32" "unat (t_wait_ticks t) + 1 < 2 ^ 32"
  shows "t_dynamic_priority t = 4 \<and> t_wait_ticks u \<le> t_wait_ticks t"
proof -
  have u: "unat (t_wait_ticks u + 1) = Suc (unat (t_wait_ticks u))" using assms(5) by (rule unat_wait_Suc)
  have nb: "\<not> (t_wait_ticks t + 1 \<ge> 50 \<and> t_dynamic_priority t < 4)"
  proof
    assume "t_wait_ticks t + 1 \<ge> 50 \<and> t_dynamic_priority t < 4"
    then have "t_wait_ticks (age c p t) = 0" using assms(3,4) by (simp add: age_ready)
    then show False using assms(1) u by (simp add: word_le_nat_alt)
  qed
  then have a: "age c p t = t\<lparr>t_wait_ticks := t_wait_ticks t + 1\<rparr>" by (simp only: age_ready [OF assms(3,4)] nb if_False)
  then show ?thesis using assms(1,2) u unat_wait_Suc [OF assms(6)] by (simp add: word_le_nat_alt)
qed

lemma yield_step:
  assumes "sched_inv s" "waiting_ready x s" "waits_below 1 s"
  obtains (got) s' where "yield_core s = Some (True, s')" "current_task s' = x"
  | (other) sw s' where "yield_core s = Some (sw, s')" "x \<noteq> current_task s'" "sw \<or> current_task s' = current_task s"
      "task_at x s' = age (current_task s) x (task_at x s)"
      "t_dynamic_priority (task_at x s) = 4 \<Longrightarrow> rivals x s' \<subset> rivals x s"
proof -
  let ?c = "current_task s" and ?x = "task_at x s"
  have x: "x \<in> fst ` set (task_list s)" "x \<noteq> ?c" "t_state ?x = TASK_STATE_READY"
    using assms(2) by (simp_all add: waiting_ready_def)
  have wx: "unat (t_wait_ticks ?x) + 1 < 2 ^ 32" by (rule waits_belowD [OF assms(3) x(1)])
  have runx: "runnable ?c x ?x" using x(3) by (simp add: runnable_def)
  have mem: "(x, age ?c x ?x) \<in> set (aged ?c (task_list s))"
    using task_at_in [OF x(1)] by (force simp: aged_def)
  from assms(1) show ?thesis
  proof (cases rule: yield_core_cases)
    case stay
    have "\<not> (\<forall>(p, t) \<in> set (task_list s). \<not> runnable ?c p t)" using task_at_in [OF x(1)] runx by blast
    then obtain t where t: "preferred ?c (aged ?c (task_list s)) ?c t" using stay(2) by blast
    have "t_dynamic_priority ?x \<noteq> 4"
    proof
      assume top: "t_dynamic_priority ?x = 4"
      have "(?c, t) \<in> set (aged ?c (task_list s))" using t by (simp add: preferred_def)
      then have "entry_ok ?c ?c t" using list_ok_aged assms(1) by (fastforce simp: sched_inv_def list_ok_def)
      then have e: "t_wait_ticks t = 0" "t_dynamic_priority t \<le> 4" by (simp_all add: entry_ok_def)
      have "\<not> beats (age ?c x ?x) (t_dynamic_priority t) (t_wait_ticks t)"
        using t mem runx by (fastforce simp: preferred_def)
      then have "\<not> 0 < t_wait_ticks ?x + 1" using e x top by (auto simp: beats_def age_top)
      then show False using unat_wait_Suc [OF wx] by (simp add: word_less_nat_alt)
    qed
    moreover have "task_at x (stayed s) = age ?c x ?x" using x by (simp add: task_at_stayed)
    moreover have "current_task (stayed s) = ?c" by (simp add: stayed_def)
    ultimately show ?thesis using other [OF stay(1)] x(2) by auto
  next
    case (switch r t)
    have cs: "current_task (switched s r t) = r" by (simp add: switched_def)
    show ?thesis
    proof (cases "r = x")
      case True
      then show ?thesis using got [OF switch(6)] cs by simp
    next
      case False
      let ?s = "switched s r t"
      have rin: "r \<in> fst ` set (task_list s)" by (rule map_of_aged_in [OF switch(5)])
      have tr: "t = age ?c r (task_at r s)"
        using switch(5) in_list_map_of [OF rin] by (auto simp: aged_def map_of_map_snd task_at_def)
      have at: "task_at x ?s = age ?c x ?x"
        using False x by (simp add: task_at_switched [OF _ switch(2)] Let_def)
      have "rivals x ?s \<subset> rivals x s" if top: "t_dynamic_priority ?x = 4"
      proof -
        have ax: "age ?c x ?x = ?x\<lparr>t_wait_ticks := t_wait_ticks ?x + 1\<rparr>" using top x by (simp add: age_top)
        have "\<not> beats (age ?c x ?x) (t_dynamic_priority t) (t_wait_ticks t)"
          using switch(4) mem runx by (fastforce simp: preferred_def)
        moreover have "t_dynamic_priority t \<le> 4"
          unfolding tr using entry_at [OF assms(1) rin] by (simp add: entry_ok_def age_priority)
        ultimately have t4: "t_dynamic_priority t = 4" "t_wait_ticks ?x + 1 \<le> t_wait_ticks t"
          using top by (auto simp: beats_def ax)
        have wr: "unat (t_wait_ticks (task_at r s)) + 1 < 2 ^ 32" by (rule waits_belowD [OF assms(3) rin])
        have sr: "t_state (task_at r s) = TASK_STATE_READY" using switch(3) by (simp add: tr)
        have "r \<in> rivals x s"
          using aged_rival [of ?x ?c r "task_at r s"] t4 tr switch(2) sr wx wr rin False by (simp add: rivals_def)
        moreover have "r \<notin> rivals x ?s" by (simp add: rivals_def cs)
        moreover have "rivals x ?s \<subseteq> rivals x s"
        proof
          fix p assume p: "p \<in> rivals x ?s"
          have lst: "fst ` set (task_list ?s) = fst ` set (task_list s)" by (simp add: switched_def)
          have q: "p \<in> fst ` set (task_list s)" "p \<noteq> x" "p \<noteq> r" "t_state (task_at p ?s) = TASK_STATE_READY"
            "t_dynamic_priority (task_at p ?s) = 4" "t_wait_ticks ?x + 1 \<le> t_wait_ticks (task_at p ?s)"
            using p at unfolding rivals_def lst cs ax by auto
          have "p \<noteq> ?c"
          proof
            assume "p = ?c"
            then have "t_wait_ticks (task_at p ?s) = t_wait_ticks (task_at p s)"
              using q(1) by (simp add: task_at_switched [OF _ switch(2)] preempt_def)
            also have "\<dots> = 0" using entry_at [OF assms(1) q(1)] \<open>p = ?c\<close> by (simp add: entry_ok_def)
            finally show False using q(6) unat_wait_Suc [OF wx] by (simp add: word_le_nat_alt)
          qed
          then have ap: "task_at p ?s = age ?c p (task_at p s)"
            using q(1,3) by (simp add: task_at_switched [OF _ switch(2)] Let_def)
          have "unat (t_wait_ticks (task_at p s)) + 1 < 2 ^ 32" by (rule waits_belowD [OF assms(3) q(1)])
          with aged_rival [of ?x ?c p "task_at p s"] q ap \<open>p \<noteq> ?c\<close> wx show "p \<in> rivals x s"
            by (simp add: rivals_def)
        qed
        ultimately show ?thesis by blast
      qed
      then show ?thesis using other [OF switch(6)] cs at False by auto
    qed
  qed
qed

text \<open>
  How many more yields the task may have to wait: 50 for each priority level it still has to
  climb, less the time it has waited on this one, and then one for each rival.
\<close>

definition patience :: "u32 \<Rightarrow> 'a task_state_scheme \<Rightarrow> nat" where
  "patience x s =
     (let t = task_at x s
      in if t_dynamic_priority t < 4
         then 50 * (4 - unat (t_dynamic_priority t)) - unat (t_wait_ticks t) + length (task_list s)
         else card (rivals x s))"

lemma card_rivals: "x \<in> fst ` set (task_list s) \<Longrightarrow> card (rivals x s) < length (task_list s)"
proof -
  assume x: "x \<in> fst ` set (task_list s)"
  have "rivals x s \<subset> fst ` set (task_list s)" using x by (auto simp: rivals_def)
  then have "card (rivals x s) < card (fst ` set (task_list s))" by (intro psubset_card_mono) simp
  also have "\<dots> \<le> length (task_list s)"
    using card_image_le [of "set (task_list s)" fst] card_length [of "task_list s"] by simp
  finally show ?thesis .
qed

lemma patience_decreases:
  assumes "waiting_ready x s" "t_dynamic_priority (task_at x s) \<le> 4" "waits_below 1 s"
    and "x \<in> fst ` set (task_list s')" "length (task_list s') = length (task_list s)"
    and "task_at x s' = age (current_task s) x (task_at x s)"
    and "t_dynamic_priority (task_at x s) = 4 \<Longrightarrow> rivals x s' \<subset> rivals x s"
  shows "patience x s' < patience x s \<and>
    (t_dynamic_priority (task_at x s') < 4 \<longrightarrow> t_wait_ticks (task_at x s') < 50)"
proof -
  let ?t = "task_at x s"
  have x: "x \<noteq> current_task s" "t_state ?t = TASK_STATE_READY" "x \<in> fst ` set (task_list s)"
    using assms(1) by (simp_all add: waiting_ready_def)
  have w1: "unat (t_wait_ticks ?t + 1) = Suc (unat (t_wait_ticks ?t))"
    by (rule unat_wait_Suc [OF waits_belowD [OF assms(3) x(3)]])
  show ?thesis
  proof (cases "t_dynamic_priority ?t < 4")
    case False
    then have top: "t_dynamic_priority ?t = 4" using assms(2) by simp
    have "finite (rivals x s)" by (simp add: rivals_def)
    then have "card (rivals x s') < card (rivals x s)" using assms(7) [OF top] by (rule psubset_card_mono)
    moreover have "t_dynamic_priority (task_at x s') = 4" using top x assms(6) by (simp add: age_top)
    ultimately show ?thesis using top by (simp add: patience_def Let_def)
  next
    case low: True
    then have w: "t_wait_ticks ?t < 50" using assms(1) by (simp add: waiting_ready_def)
    then have wn: "unat (t_wait_ticks ?t) < 50" by (simp add: word_less_nat_alt)
    have dn: "unat (t_dynamic_priority ?t) < 4" using low by (simp add: word_less_nat_alt)
    show ?thesis
    proof (cases "50 \<le> t_wait_ticks ?t + 1")
      case True
      then have s': "task_at x s' = ?t\<lparr>t_dynamic_priority := t_dynamic_priority ?t + 1, t_wait_ticks := 0\<rparr>"
        using low x assms(6) by (simp add: age_ready)
      have d': "unat (t_dynamic_priority ?t + 1) = Suc (unat (t_dynamic_priority ?t))"
        using dn by (simp add: unat_add_no_wrap)
      have "49 \<le> unat (t_wait_ticks ?t)" using True w1 by (simp add: word_le_nat_alt)
      then have p: "patience x s = 50 * (4 - unat (t_dynamic_priority ?t)) - 49 + length (task_list s)"
        using low wn by (simp add: patience_def Let_def)
      have "patience x s' < patience x s"
      proof (cases "t_dynamic_priority ?t + 1 < 4")
        case True
        then have "patience x s' = 50 * (4 - Suc (unat (t_dynamic_priority ?t))) + length (task_list s)"
          using s' d' assms(5) by (simp add: patience_def Let_def)
        then show ?thesis using p dn by linarith
      next
        case False
        then have "patience x s' = card (rivals x s')" by (simp add: patience_def Let_def s')
        then show ?thesis using p dn card_rivals [OF assms(4)] assms(5) by linarith
      qed
      then show ?thesis using s' by simp
    next
      case False
      then have s': "task_at x s' = ?t\<lparr>t_wait_ticks := t_wait_ticks ?t + 1\<rparr>"
        using x assms(6) by (simp add: age_ready)
      have "t_wait_ticks ?t + 1 < 50" using False by simp
      moreover have "patience x s' < patience x s"
      proof -
        have "patience x s = 50 * (4 - unat (t_dynamic_priority ?t)) - unat (t_wait_ticks ?t) + length (task_list s)"
          "patience x s' = 50 * (4 - unat (t_dynamic_priority ?t)) - Suc (unat (t_wait_ticks ?t)) + length (task_list s)"
          using low s' w1 assms(5) by (simp_all add: patience_def Let_def)
        then show ?thesis using wn dn by linarith
      qed
      ultimately show ?thesis using s' by simp
    qed
  qed
qed

text \<open>\<open>k\<close> yields in a row, by whichever task has the processor.\<close>

fun yields :: "nat \<Rightarrow> 'a task_state_scheme \<Rightarrow> 'a task_state_scheme option" where
  "yields 0 s = Some s"
| "yields (Suc k) s = Option.bind (task_yield s) (\<lambda>(sw, s'). yields k s')"

definition quiet :: "'a task_state_scheme \<Rightarrow> bool" where
  "quiet s \<longleftrightarrow> (\<forall>p \<in> fst ` set (task_list s). t_pending_signals (task_at p s) = 0)"

lemma pending_simps [simp]:
  "t_pending_signals (refill t) = t_pending_signals t" "t_pending_signals (preempt t) = t_pending_signals t"
  "t_pending_signals (run_next t) = t_pending_signals t"
  "t_wait_ticks (refill t) = t_wait_ticks t" "t_wait_ticks (preempt t) = t_wait_ticks t"
  "t_wait_ticks (run_next t) = 0"
  by (simp_all add: refill_def preempt_def run_next_def)

lemma yield_core_entries:
  assumes "sched_inv s" "yield_core s = Some (sw, s')" "p \<in> fst ` set (task_list s)"
  shows "t_pending_signals (task_at p s') = t_pending_signals (task_at p s) \<and>
    (t_wait_ticks (task_at p s') = t_wait_ticks (task_at p s) \<or> t_wait_ticks (task_at p s') = 0 \<or>
     t_wait_ticks (task_at p s') = t_wait_ticks (age (current_task s) p (task_at p s)))"
  using assms(1)
proof (cases rule: yield_core_cases)
  case stay
  then show ?thesis using assms(2,3) by (auto simp: task_at_stayed)
next
  case (switch r t)
  then show ?thesis using assms(2,3) by (auto simp: task_at_switched [OF assms(3) switch(2)] Let_def)
qed

lemma task_yield_quiet:
  assumes "sched_inv s" "quiet s"
  shows "task_yield s = yield_core s"
proof -
  obtain sw s' where y: "yield_core s = Some (sw, s')" "sched_inv s'"
    "fst ` set (task_list s') = fst ` set (task_list s)" using yield_core_inv [OF assms(1)] by blast
  have "t_pending_signals (cur s') = 0"
  proof -
    have c: "current_task s' \<in> fst ` set (task_list s)" using y(2,3) by (simp add: sched_inv_def)
    show ?thesis using yield_core_entries [OF assms(1) y(1) c] assms(2) c unfolding quiet_def by auto
  qed
  then have "task_check_signals s' = Some s'" by (simp add: task_check_signals_def)
  then show ?thesis using y by (simp add: task_yield_def)
qed

lemma starvation_bound:
  assumes "sched_inv s" "quiet s" "waiting_ready x s" "waits_below (Suc (patience x s)) s"
  shows "\<exists>k s'. k \<le> Suc (patience x s) \<and> yields k s = Some s' \<and> current_task s' = x"
  using assms
proof (induction "patience x s" arbitrary: s rule: less_induct)
  case less
  have wb: "waits_below 1 s" using less.prems(4) unfolding waits_below_def by fastforce
  have ty: "task_yield s = yield_core s" by (rule task_yield_quiet [OF less.prems(1,2)])
  from less.prems(1,3) wb show ?case
  proof (cases rule: yield_step)
    case (got s')
    then show ?thesis using ty by (intro exI [of _ 1] exI [of _ s']) simp
  next
    case (other sw s')
    note y = other(1)
    obtain inv: "sched_inv s'" "fst ` set (task_list s') = fst ` set (task_list s)"
      "length (task_list s') = length (task_list s)"
      using yield_core_inv [OF less.prems(1)] y by auto
    have x: "x \<in> fst ` set (task_list s)" "x \<noteq> current_task s" "t_state (task_at x s) = TASK_STATE_READY"
      using less.prems(3) by (simp_all add: waiting_ready_def)
    have "t_dynamic_priority (task_at x s) \<le> 4" using entry_at [OF less.prems(1) x(1)] by (simp add: entry_ok_def)
    from patience_decreases [OF less.prems(3) this wb _ inv(3) other(4,5)] x(1) inv(2)
    have dec: "patience x s' < patience x s"
      and w50: "t_dynamic_priority (task_at x s') < 4 \<longrightarrow> t_wait_ticks (task_at x s') < 50" by auto
    have q: "quiet s'" using yield_core_entries [OF less.prems(1) y] inv(2) less.prems(2) by (simp add: quiet_def)
    have r: "waiting_ready x s'" using x inv(2) other(2,4) w50 by (simp add: waiting_ready_def)
    have "waits_below (Suc (patience x s')) s'"
      unfolding waits_below_def
    proof
      fix p assume "p \<in> fst ` set (task_list s')"
      then have p: "p \<in> fst ` set (task_list s)" using inv(2) by simp
      have b: "unat (t_wait_ticks (task_at p s)) + Suc (patience x s) < 2 ^ 32"
        by (rule waits_belowD [OF less.prems(4) p])
      have "unat (t_wait_ticks (task_at p s')) \<le> unat (t_wait_ticks (task_at p s)) + 1"
        using yield_core_entries [OF less.prems(1) y p] wait_age_le [of "task_at p s" "current_task s" p]
          waits_belowD [OF wb p] by auto
      then show "unat (t_wait_ticks (task_at p s')) + Suc (patience x s') < 2 ^ 32" using b dec by linarith
    qed
    from less.hyps [OF dec inv(1) q r this] obtain k s'' where
      "k \<le> Suc (patience x s')" "yields k s' = Some s''" "current_task s'' = x" by blast
    then show ?thesis using dec ty y by (intro exI [of _ "Suc k"] exI [of _ s'']) simp
  qed
qed

text \<open>C19: No ready task waits for ever: among \<open>N\<close> tasks, whatever their priorities and whichever of
  them yield, a ready task gets the processor within \<open>201 + N\<close> yields.\<close>

theorem task_no_starvation:
  assumes "sched_inv s" "quiet s" "waiting_ready x s" "waits_below (201 + length (task_list s)) s"
  shows "\<exists>k s'. k \<le> 201 + length (task_list s) \<and> yields k s = Some s' \<and> current_task s' = x"
proof -
  have "x \<in> fst ` set (task_list s)" using assms(3) by (simp add: waiting_ready_def)
  have "50 * (4 - unat (t_dynamic_priority (task_at x s))) \<le> 200" by simp
  then have "50 * (4 - unat (t_dynamic_priority (task_at x s))) - unat (t_wait_ticks (task_at x s)) \<le> 200"
    by linarith
  with card_rivals [OF \<open>x \<in> fst ` set (task_list s)\<close>]
  have le: "Suc (patience x s) \<le> 201 + length (task_list s)"
    by (simp add: patience_def Let_def)
  have "waits_below (Suc (patience x s)) s"
    using assms(4) le unfolding waits_below_def by (meson add_left_mono le_less_trans)
  from starvation_bound [OF assms(1-3) this] obtain k s' where
    "k \<le> Suc (patience x s)" "yields k s = Some s'" "current_task s' = x" by blast
  with le show ?thesis by (intro exI [of _ k] exI [of _ s']) simp
qed

section \<open>Exiting and waiting\<close>

text \<open>Updates of a task that leave what scheduling, waiting and reaping look at alone.\<close>

definition core_same :: "(task \<Rightarrow> task) \<Rightarrow> bool" where
  "core_same f \<longleftrightarrow> (\<forall>t. t_pid (f t) = t_pid t \<and> t_state (f t) = t_state t \<and>
     t_exit_status (f t) = t_exit_status t \<and> t_waiting_on_pid (f t) = t_waiting_on_pid t \<and>
     t_is_zombie (f t) = t_is_zombie t \<and> (\<forall>c p. entry_ok c p (f t) = entry_ok c p t))"

text \<open>What an operation on the current task's descriptors leaves alone.\<close>

definition fd_frame :: "'a task_state_scheme \<Rightarrow> 'a task_state_scheme \<Rightarrow> bool" where
  "fd_frame s s' \<longleftrightarrow> (\<exists>f. core_same f \<and> task_list s' = map_task (current_task s) f (task_list s)) \<and>
     current_task s' = current_task s \<and> task_lock s' = task_lock s \<and> eflags s' = eflags s \<and>
     next_pid s' = next_pid s \<and> system_ticks s' = system_ticks s"

lemma map_task_id [simp]: "map_task p (\<lambda>t. t) ts = ts"
  by (induction ts) (auto simp: map_task_def)

lemma map_task_map_task [simp]: "map_task p g (map_task p f ts) = map_task p (g \<circ> f) ts"
  by (induction ts) (auto simp: map_task_def)

lemma fd_frame_refl [simp]: "fd_frame s s"
  unfolding fd_frame_def by (intro conjI exI [of _ "\<lambda>t. t"]) (simp_all add: core_same_def)

lemma fd_frame_trans: "fd_frame s s1 \<Longrightarrow> fd_frame s1 s2 \<Longrightarrow> fd_frame s s2"
proof -
  assume "fd_frame s s1" "fd_frame s1 s2"
  moreover from this obtain f g where "core_same f" "core_same g"
    "task_list s1 = map_task (current_task s) f (task_list s)"
    "task_list s2 = map_task (current_task s1) g (task_list s1)" unfolding fd_frame_def by blast
  moreover from this have "core_same (g \<circ> f)" by (simp add: core_same_def)
  ultimately show ?thesis unfolding fd_frame_def by (intro conjI exI [of _ "g \<circ> f"]) auto
qed

lemma close_fd_frame:
  assumes "close_fd i s = Some s'"
  shows "fd_frame s s'"
proof (cases "fd_in_use (t_fd_table (cur s) ! i)")
  case True
  let ?g = "\<lambda>t. t\<lparr>t_fd_table := (t_fd_table t)[i := (t_fd_table t ! i)\<lparr>fd_node := 0, fd_in_use := False\<rparr>]\<rparr>"
  from True assms obtain s1 where s1: "s1 = s \<or> vfs_close close_node (fd_node (t_fd_table (cur s) ! i)) s = Some s1"
    and s': "s' = upd_task (current_task s1) ?g s1"
    by (auto simp: close_fd_def Let_def split: if_splits bind_split_asm)
  have "pipe_state.more s1 = pipe_state.more s" using s1 vfs_close_frame by blast
  then have fr: "current_task s1 = current_task s" "task_list s1 = task_list s" "task_lock s1 = task_lock s"
    "eflags s1 = eflags s" "next_pid s1 = next_pid s" "system_ticks s1 = system_ticks s"
    by (cases s1; cases s; simp)+
  have "core_same ?g" by (simp add: core_same_def entry_ok_def)
  then show ?thesis unfolding s' fd_frame_def using fr by (intro conjI exI [of _ ?g]) simp_all
qed (use assms in \<open>simp add: close_fd_def\<close>)

lemma close_fds_frame: "fold_opt close_fd is s = Some s' \<Longrightarrow> fd_frame s s'"
  by (induction "is" arbitrary: s) (auto split: bind_split_asm intro: fd_frame_trans close_fd_frame)

text \<open>The tasks after the exiting task has been marked and its waiters woken.\<close>

definition exit_entry :: "u32 \<Rightarrow> u32 \<Rightarrow> u32 \<Rightarrow> bool \<Rightarrow> u32 \<Rightarrow> task \<Rightarrow> task" where
  "exit_entry c pid status waited p t =
     (if p = c then t\<lparr>t_exit_status := status, t_state := TASK_STATE_DEAD, t_is_zombie := \<not> waited\<rparr>
      else wake_waiter pid status t)"

lemma exit_mark_list:
  assumes "exit_mark status s = Some s'"
  shows "\<exists>f waited. core_same f \<and> waited = (\<exists>(p, t) \<in> set (task_list s). p \<noteq> current_task s \<and> is_waiter (t_pid (cur s)) t) \<and>
    task_list s' = map_task (current_task s) f
      (map (\<lambda>(p, t). (p, exit_entry (current_task s) (t_pid (cur s)) status waited p t)) (task_list s)) \<and>
    current_task s' = current_task s \<and> task_lock s' = task_lock s \<and> eflags s' = eflags s \<and>
    next_pid s' = next_pid s \<and> system_ticks s' = system_ticks s \<and> needs_cleanup s'"
proof -
  let ?c = "current_task s" and ?pid = "t_pid (cur s)"
  let ?mark = "\<lambda>t. t\<lparr>t_exit_status := status, t_state := TASK_STATE_DEAD, t_is_zombie := True\<rparr>"
  define s1 where "s1 = upd_cur ?mark s"
  define waited where "waited = (\<exists>(p, t) \<in> set (task_list s1). is_waiter ?pid t)"
  define s2 where "s2 = s1\<lparr>task_list := map (\<lambda>(p, t). (p, wake_waiter ?pid status t)) (task_list s1)\<rparr>"
  define s3 where "s3 = (if waited then upd_cur (\<lambda>t. t\<lparr>t_is_zombie := False\<rparr>) s2 else s2)"
  from assms obtain s4 where s4: "fold_opt close_fd [0..<16] s3 = Some s4" "s' = s4\<lparr>needs_cleanup := True\<rparr>"
    unfolding exit_mark_def Let_def s1_def [symmetric] waited_def [symmetric] s2_def [symmetric] s3_def [symmetric]
    by (auto split: bind_split_asm)
  have c: "current_task s1 = ?c" "current_task s2 = ?c" by (simp_all add: s1_def s2_def)
  have waited: "waited = (\<exists>(p, t) \<in> set (task_list s). p \<noteq> ?c \<and> is_waiter ?pid t)"
    by (force simp: waited_def s1_def map_task_def is_waiter_def task_states)
  have l3: "task_list s3 = map (\<lambda>(p, t). (p, exit_entry ?c ?pid status waited p t)) (task_list s)"
    by (auto simp: s3_def s2_def s1_def c map_task_def exit_entry_def wake_waiter_def task_states)
  have f3: "current_task s3 = ?c" "task_lock s3 = task_lock s" "eflags s3 = eflags s" "next_pid s3 = next_pid s"
    "system_ticks s3 = system_ticks s" by (simp_all add: s3_def s2_def s1_def)
  from close_fds_frame [OF s4(1)] obtain f where "core_same f" "task_list s4 = map_task ?c f (task_list s3)"
    and "current_task s4 = ?c" "task_lock s4 = task_lock s" "eflags s4 = eflags s" "next_pid s4 = next_pid s"
      "system_ticks s4 = system_ticks s" unfolding fd_frame_def f3 by blast
  then show ?thesis unfolding s4(2) using waited l3 by (intro exI [of _ f] exI [of _ waited]) simp
qed

lemma exit_entry_ok: "entry_ok c p t \<Longrightarrow> entry_ok c p (exit_entry c pid status w p t)"
  by (auto simp: exit_entry_def entry_ok_def wake_waiter_def task_states)

lemma preempt_dead: "t_state t = TASK_STATE_DEAD \<Longrightarrow> preempt t = t"
  by (simp add: preempt_def task_states)

lemma task_exit_effect:
  assumes "sched_inv s" "task_exit_with_status status s = Some s'"
  shows "sched_inv s' \<and> current_task s' \<noteq> current_task s \<and> needs_cleanup s' \<and>
    (let d = task_at (current_task s) s' in t_state d = TASK_STATE_DEAD \<and> t_exit_status d = status \<and>
       (t_is_zombie d \<longleftrightarrow> \<not> (\<exists>(p, t) \<in> set (task_list s). p \<noteq> current_task s \<and> is_waiter (t_pid (cur s)) t))) \<and>
    (\<forall>(p, t) \<in> set (task_list s). p \<noteq> current_task s \<and> is_waiter (t_pid (cur s)) t \<longrightarrow>
       t_state (task_at p s') = (if p = current_task s' then TASK_STATE_RUNNING else TASK_STATE_READY) \<and>
       t_exit_status (task_at p s') = status \<and> t_waiting_on_pid (task_at p s') = 0)"
proof -
  let ?c = "current_task s" and ?pid = "t_pid (cur s)"
  have lk: "task_lock s = 0" and lo: "list_ok ?c (task_list s)" and cin: "?c \<in> fst ` set (task_list s)"
    using assms(1) by (simp_all add: sched_inv_def)
  define s1 where "s1 = s\<lparr>task_lock := 1, eflags := disable_interrupts (eflags s)\<rparr>"
  have s1: "current_task s1 = ?c" "task_list s1 = task_list s" by (simp_all add: s1_def)
  have cur1: "task_at p s1 = task_at p s" for p by (simp add: s1_def task_at_def)
  from assms(2) sched_inv_nonzero [OF assms(1)] obtain s2 sw where
    s2: "exit_mark status s1 = Some s2" and
    y: "yield_core ((unlock_tasks (eflags s) s2)\<lparr>eflags := enable_interrupts (eflags (unlock_tasks (eflags s) s2))\<rparr>) = Some (True, s')"
    unfolding task_exit_with_status_def lock_tasks_free [OF lk] s1_def [symmetric]
    by (auto simp: Let_def s1 split: bind_split_asm if_splits)
  define s3 where "s3 = (unlock_tasks (eflags s) s2)\<lparr>eflags := enable_interrupts (eflags (unlock_tasks (eflags s) s2))\<rparr>"
  from exit_mark_list [OF s2, unfolded s1 cur1] obtain f waited where
    f: "core_same f" and w: "waited = (\<exists>(p, t) \<in> set (task_list s). p \<noteq> ?c \<and> is_waiter ?pid t)" and
    l2: "task_list s2 = map_task ?c f (map (\<lambda>(p, t). (p, exit_entry ?c ?pid status waited p t)) (task_list s))" and
    c2: "current_task s2 = ?c" "needs_cleanup s2" by blast
  have l3: "task_list s3 = map (\<lambda>(p, t). (p, let u = exit_entry ?c ?pid status waited p t in if p = ?c then f u else u)) (task_list s)"
    and c3: "current_task s3 = ?c" "task_lock s3 = 0" "needs_cleanup s3"
    using c2 by (auto simp: s3_def unlock_tasks_eq l2 map_task_def Let_def)
  have e: "entry_ok ?c p (let u = exit_entry ?c ?pid status waited p t in if p = ?c then f u else u)"
    if "entry_ok ?c p t" for p t
    using f exit_entry_ok [OF that, of ?pid status waited] by (auto simp: core_same_def Let_def)
  have "list_ok ?c (task_list s3)"
    unfolding l3 using f
    by (intro list_ok_map [OF lo] e) (auto simp: Let_def core_same_def exit_entry_def wake_waiter_def)
  moreover have fst3: "fst ` set (task_list s3) = fst ` set (task_list s)" unfolding l3 by force
  ultimately have inv3: "sched_inv s3" using c3 cin by (simp add: sched_inv_def)
  have at3: "task_at p s3 = (let u = exit_entry ?c ?pid status waited p (task_at p s) in if p = ?c then f u else u)"
    if p: "p \<in> fst ` set (task_list s)" for p
    using in_list_map_of [OF p] by (auto simp: task_at_def l3 map_of_map_snd)
  from inv3 show ?thesis
  proof (cases rule: yield_core_cases)
    case stay
    then show ?thesis using y by (simp add: s3_def)
  next
    case (switch r t)
    then have s': "s' = switched s3 r t" using y by (simp add: s3_def)
    have rin: "r \<in> fst ` set (task_list s3)" by (rule map_of_aged_in [OF switch(5)])
    have "sched_inv s'" unfolding s' by (rule switched_inv [OF inv3 switch(2) rin])
    moreover have cs': "current_task s' = r" "needs_cleanup s'" using c3 by (simp_all add: s' switched_def)
    moreover have "t_state (task_at ?c s3) = TASK_STATE_DEAD" "t_exit_status (task_at ?c s3) = status"
      "t_is_zombie (task_at ?c s3) = (\<not> waited)"
      using f by (simp_all add: at3 [OF cin] exit_entry_def core_same_def Let_def)
    then have "t_state (task_at ?c s') = TASK_STATE_DEAD" "t_exit_status (task_at ?c s') = status"
      "t_is_zombie (task_at ?c s') = (\<not> waited)"
      using cin fst3 by (simp_all add: s' task_at_switched [OF _ switch(2)] c3 preempt_dead)
    moreover have "t_state (task_at p s') = (if p = r then TASK_STATE_RUNNING else TASK_STATE_READY) \<and>
       t_exit_status (task_at p s') = status \<and> t_waiting_on_pid (task_at p s') = 0"
      if p: "(p, u) \<in> set (task_list s)" "p \<noteq> ?c" "is_waiter ?pid u" for p u
    proof -
      have "task_at p s = u" using lo by (intro task_at_mem [OF _ p(1)]) (simp add: list_ok_def)
      moreover have "p \<in> fst ` set (task_list s)" using p(1) by force
      ultimately have "task_at p s3 = u\<lparr>t_state := TASK_STATE_READY, t_waiting_on_pid := 0, t_exit_status := status\<rparr>"
        using p(2,3) by (simp add: at3 exit_entry_def wake_waiter_def is_waiter_def)
      then show ?thesis using \<open>p \<in> fst ` set (task_list s)\<close> fst3 p(2)
        by (simp add: s' task_at_switched [OF _ switch(2)] c3 Let_def run_next_def age_def)
    qed
    ultimately show ?thesis using switch(2) c3(1) w by (auto simp: Let_def)
  qed
qed


section \<open>Every operation keeps the invariant\<close>

definition tasks_inv :: "'a task_state_scheme \<Rightarrow> bool" where
  "tasks_inv s \<longleftrightarrow> current_task s \<in> fst ` set (task_list s) \<and> list_ok (current_task s) (task_list s)"

lemma sched_inv_tasks: "sched_inv s \<longleftrightarrow> task_lock s = 0 \<and> tasks_inv s"
  by (simp add: sched_inv_def tasks_inv_def)

lemma tasks_inv_fields [simp]:
  "tasks_inv (s\<lparr>task_lock := l\<rparr>) = tasks_inv s" "tasks_inv (s\<lparr>eflags := e\<rparr>) = tasks_inv s"
  "tasks_inv (s\<lparr>needs_cleanup := n\<rparr>) = tasks_inv s" "tasks_inv (s\<lparr>system_ticks := k\<rparr>) = tasks_inv s"
  by (simp_all add: tasks_inv_def)

lemma sched_inv_unlock [simp]: "sched_inv (unlock_tasks f s) = tasks_inv s"
  by (simp add: sched_inv_tasks unlock_tasks_eq)

lemma sched_inv_eflags [simp]:
  "sched_inv (s\<lparr>eflags := e\<rparr>) = sched_inv s" "sched_inv (s\<lparr>system_ticks := k\<rparr>) = sched_inv s"
  by (simp_all add: sched_inv_tasks)

text \<open>An update the invariant allows: it keeps the pid and the entry's well-formedness.\<close>

definition ok_update :: "(task \<Rightarrow> task) \<Rightarrow> bool" where
  "ok_update f \<longleftrightarrow> (\<forall>t. t_pid (f t) = t_pid t) \<and> (\<forall>c p t. entry_ok c p t \<longrightarrow> entry_ok c p (f t))"

lemma tasks_inv_upd [simp]: "ok_update f \<Longrightarrow> tasks_inv s \<Longrightarrow> tasks_inv (upd_task p f s)"
  unfolding tasks_inv_def ok_update_def by (auto intro: list_ok_map_task)

lemma sched_inv_upd [simp]: "ok_update f \<Longrightarrow> sched_inv s \<Longrightarrow> sched_inv (upd_task p f s)"
  by (simp add: sched_inv_tasks)

lemma tasks_inv_map:
  assumes "\<And>p t. t_pid (g p t) = t_pid t" "\<And>c p t. entry_ok c p t \<Longrightarrow> entry_ok c p (g p t)" "tasks_inv s"
  shows "tasks_inv (s\<lparr>task_list := map (\<lambda>(p, t). (p, g p t)) (task_list s)\<rparr>)"
proof -
  have "fst ` set (map (\<lambda>(p, t). (p, g p t)) (task_list s)) = fst ` set (task_list s)" by force
  then show ?thesis using assms unfolding tasks_inv_def by (auto intro: list_ok_map)
qed

lemma locked_inv:
  "lock_tasks s = Some (flags, s1) \<Longrightarrow> sched_inv s \<Longrightarrow> tasks_inv s1 \<and> current_task s1 = current_task s"
  by (auto simp: lock_tasks_def sched_inv_tasks split: bind_split_asm)

named_theorems ok_updates \<comment> \<open>the updates the operations make\<close>

lemma ok_update_states [ok_updates]:
  "ok_update (\<lambda>t. t\<lparr>t_state := TASK_STATE_BLOCKED, t_slice_remaining := 0\<rparr>)"
  "ok_update (\<lambda>t. t\<lparr>t_state := TASK_STATE_READY, t_wait_ticks := 0,
     t_slice_remaining := task_calculate_quantum (t_base_priority t)\<rparr>)"
  "ok_update (\<lambda>t. t\<lparr>t_state := TASK_STATE_READY, t_wake_tick := 0,
     t_slice_remaining := task_calculate_quantum (t_base_priority t)\<rparr>)"
  "ok_update (\<lambda>t. t\<lparr>t_state := TASK_STATE_SLEEPING, t_wake_tick := k, t_slice_remaining := 0\<rparr>)"
  "ok_update (\<lambda>t. t\<lparr>t_state := TASK_STATE_WAITING, t_waiting_on_pid := pid, t_wake_tick := 0\<rparr>)"
  "ok_update (\<lambda>t. t\<lparr>t_yield_requested := b\<rparr>)"
  "ok_update (\<lambda>t. t\<lparr>t_exit_status := st, t_waiting_on_pid := 0\<rparr>)"
  "ok_update (\<lambda>t. t\<lparr>t_is_zombie := z\<rparr>)"
  "ok_update (\<lambda>t. t\<lparr>t_cpu_time_ticks := t_cpu_time_ticks t + 1\<rparr>)"
  "ok_update (\<lambda>t. t\<lparr>t_slice_remaining := t_slice_remaining t - 1\<rparr>)"
  "ok_update (\<lambda>t. t\<lparr>t_pending_signals := t_pending_signals t OR m\<rparr>)"
  "ok_update (\<lambda>t. t\<lparr>t_pending_signals := t_pending_signals t AND m\<rparr>)"
  "ok_update (\<lambda>t. t\<lparr>t_signal_handlers := (t_signal_handlers t)[i := h]\<rparr>)"
  "ok_update preempt"
  "prio \<le> 4 \<Longrightarrow> ok_update (\<lambda>t. t\<lparr>t_base_priority := prio, t_dynamic_priority := prio,
     t_quantum := task_calculate_quantum prio\<rparr>)"
  by (simp_all add: ok_update_def entry_ok_def preempt_def task_states)

lemma task_check_signals_inv:
  assumes "task_check_signals s = Some s'" "sched_inv s"
  shows "sched_inv s'"
proof -
  have "check_signals_loop d sigs t = Some s' \<Longrightarrow> sched_inv t \<Longrightarrow> sched_inv s'" for d sigs and t :: "'a task_state_scheme"
  proof (induction d sigs t rule: check_signals_loop.induct)
    case (2 d sig sigs t)
    let ?t = "upd_cur (\<lambda>t. t\<lparr>t_pending_signals := t_pending_signals t AND NOT (bit_mask sig)\<rparr>) t"
    have i: "sched_inv ?t" using 2(5) by (simp add: ok_updates)
    show ?case
      using 2 i task_exit_effect [OF i, of "of_nat (128 + sig)" s']
      by (auto simp: Let_def split: if_splits)
  qed simp
  then show ?thesis using assms by (auto simp: task_check_signals_def Let_def split: if_splits)
qed

lemma task_yield_inv:
  assumes "task_yield s = Some (sw, s')" "sched_inv s"
  shows "sched_inv s'"
proof -
  obtain sw1 s1 where y: "yield_core s = Some (sw1, s1)" "sched_inv s1"
    using yield_core_inv [OF assms(2)] by blast
  then show ?thesis using assms(1) task_check_signals_inv [of s1 s'] by (auto simp: task_yield_def split: if_splits bind_split_asm)
qed

text \<open>One operation of the scheduler, by the current task or an interrupt.\<close>

inductive sched_step :: "'a task_state_scheme \<Rightarrow> 'a task_state_scheme \<Rightarrow> bool" where
  "task_yield s = Some (sw, s') \<Longrightarrow> sched_step s s'"
| "task_block s = Some (sw, s') \<Longrightarrow> sched_step s s'"
| "task_unblock pid s = Some s' \<Longrightarrow> sched_step s s'"
| "task_set_priority pid prio s = Some s' \<Longrightarrow> sched_step s s'"
| "task_sleep k s = Some (sw, s') \<Longrightarrow> sched_step s s'"
| "task_wake pid s = Some s' \<Longrightarrow> sched_step s s'"
| "task_request_yield s = Some s' \<Longrightarrow> sched_step s s'"
| "task_wait pid s = Some (sw, s') \<Longrightarrow> sched_step s s'"
| "task_exit_with_status st s = Some s' \<Longrightarrow> sched_step s s'"
| "task_send_signal pid sig s = Some (r, s') \<Longrightarrow> sched_step s s'"
| "task_set_signal_handler sig h s = (r2, s') \<Longrightarrow> sched_step s s'"
| "pit_handle_interrupt s = Some (sw, s') \<Longrightarrow> sched_step s s'"

lemma task_block_inv: "task_block s = Some (sw, s') \<Longrightarrow> sched_inv s \<Longrightarrow> sched_inv s'"
  by (auto simp: task_block_def ok_updates sched_inv_nonzero split: bind_split_asm
      dest!: locked_inv task_yield_inv)

lemma task_unblock_inv: "task_unblock pid s = Some s' \<Longrightarrow> sched_inv s \<Longrightarrow> sched_inv s'"
  by (auto simp: task_unblock_def ok_updates Let_def split: bind_split_asm dest!: locked_inv)

lemma task_set_priority_inv: "task_set_priority pid prio s = Some s' \<Longrightarrow> sched_inv s \<Longrightarrow> sched_inv s'"
  by (auto simp: task_set_priority_def ok_updates Let_def PRIORITY_MAX_def split: bind_split_asm dest!: locked_inv)

lemma task_sleep_inv: "task_sleep k s = Some (sw, s') \<Longrightarrow> sched_inv s \<Longrightarrow> sched_inv s'"
  by (auto simp: task_sleep_def ok_updates Let_def sched_inv_tasks [symmetric] split: bind_split_asm if_splits
      dest!: locked_inv) (auto simp: sched_inv_tasks ok_updates spinlock_release_def dest!: task_yield_inv)

lemma list_ok_wake_first: "list_ok c ts \<Longrightarrow> list_ok c (wake_first pid ts)"
proof -
  have "map fst (wake_first pid ts) = map fst ts" by (induction pid ts rule: wake_first.induct) auto
  moreover have "map (t_pid \<circ> snd) (wake_first pid ts) = map (t_pid \<circ> snd) ts"
    by (induction pid ts rule: wake_first.induct) auto
  moreover have "fst ` set (wake_first pid ts) = fst ` set ts" using calculation(1) by (metis set_map)
  moreover have "\<forall>(p, t) \<in> set ts. entry_ok c p t \<Longrightarrow> \<forall>(p, t) \<in> set (wake_first pid ts). entry_ok c p t"
    by (induction pid ts rule: wake_first.induct) (auto simp: entry_ok_def task_states)
  ultimately show "list_ok c ts \<Longrightarrow> list_ok c (wake_first pid ts)" unfolding list_ok_def by simp
qed

lemma task_wake_inv: "task_wake pid s = Some s' \<Longrightarrow> sched_inv s \<Longrightarrow> sched_inv s'"
proof -
  have "fst ` set (wake_first pid ts) = fst ` set ts" for ts
    by (induction pid ts rule: wake_first.induct) auto
  then show "task_wake pid s = Some s' \<Longrightarrow> sched_inv s \<Longrightarrow> sched_inv s'"
    by (auto simp: task_wake_def list_ok_wake_first tasks_inv_def split: bind_split_asm if_splits dest!: locked_inv)
qed

lemma task_request_yield_inv: "task_request_yield s = Some s' \<Longrightarrow> sched_inv s \<Longrightarrow> sched_inv s'"
  by (auto simp: task_request_yield_def ok_updates split: bind_split_asm if_splits dest!: locked_inv)

lemma task_wait_inv: "task_wait pid s = Some (sw, s') \<Longrightarrow> sched_inv s \<Longrightarrow> sched_inv s'"
  by (auto simp: task_wait_def ok_updates Let_def split: bind_split_asm if_splits dest!: locked_inv task_yield_inv)

lemma task_send_signal_inv: "task_send_signal pid sig s = Some (r, s') \<Longrightarrow> sched_inv s \<Longrightarrow> sched_inv s'"
  by (auto simp: task_send_signal_def ok_updates Let_def split: bind_split_asm if_splits
      dest!: locked_inv task_check_signals_inv)

lemma wake_expired_inv: "sched_inv s \<Longrightarrow> sched_inv (task_wake_expired_sleepers s)"
proof -
  assume inv: "sched_inv s"
  have "tasks_inv (s\<lparr>task_list := map (\<lambda>(p, t). (p, wake_if_expired (system_ticks s) t)) (task_list s)\<rparr>)"
    using inv by (intro tasks_inv_map) (auto simp: wake_if_expired_def entry_ok_def task_states sched_inv_tasks)
  then show "sched_inv (task_wake_expired_sleepers s)"
    using inv by (simp add: sched_inv_tasks task_wake_expired_sleepers_def)
qed

lemma task_schedule_tick_inv:
  assumes "task_schedule_tick s = Some (sw, s')" "sched_inv s"
  shows "sched_inv s'"
proof -
  define u where "u = task_wake_expired_sleepers s"
  define u1 where "u1 = upd_cur (\<lambda>t. t\<lparr>t_cpu_time_ticks := t_cpu_time_ticks t + 1\<rparr>) u"
  define u2 where "u2 = (if t_slice_remaining (cur u1) > 0
    then upd_cur (\<lambda>t. t\<lparr>t_slice_remaining := t_slice_remaining t - 1\<rparr>) u1 else u1)"
  have i: "sched_inv u" "sched_inv u1" "sched_inv u2"
    "sched_inv (upd_cur (\<lambda>t. t\<lparr>t_yield_requested := False\<rparr>) u1)" "sched_inv (upd_cur preempt u2)"
    using wake_expired_inv [OF assms(2)] by (simp_all add: u_def u1_def u2_def ok_updates)
  from assms(1) have "task_yield u = Some (sw, s') \<or> s' = u \<or> s' = u2 \<or>
    task_yield (upd_cur (\<lambda>t. t\<lparr>t_yield_requested := False\<rparr>) u1) = Some (sw, s') \<or>
    task_yield (upd_cur preempt u2) = Some (sw, s')"
    unfolding task_schedule_tick_def Let_def u_def [symmetric] u1_def [symmetric] u2_def [symmetric]
    by (simp split: if_split_asm)
  then show ?thesis using i task_yield_inv by blast
qed

lemma pit_handle_interrupt_inv:
  "pit_handle_interrupt s = Some (sw, s') \<Longrightarrow> sched_inv s \<Longrightarrow> sched_inv s'"
  by (auto simp: pit_handle_interrupt_def Let_def split: if_splits dest!: task_schedule_tick_inv)

lemma task_set_signal_handler_inv: "task_set_signal_handler sig h s = (r, s') \<Longrightarrow> sched_inv s \<Longrightarrow> sched_inv s'"
  by (auto simp: task_set_signal_handler_def ok_updates split: if_splits)

lemma sched_step_inv: "sched_step s s' \<Longrightarrow> sched_inv s \<Longrightarrow> sched_inv s'"
  by (induction rule: sched_step.induct)
    (blast intro: task_yield_inv task_block_inv task_unblock_inv task_set_priority_inv task_sleep_inv
      task_wake_inv task_request_yield_inv task_wait_inv task_send_signal_inv task_set_signal_handler_inv
      pit_handle_interrupt_inv task_exit_effect [THEN conjunct1])+


section \<open>The end of a time slice\<close>

text \<open>When the time slice of a kernel task ends and no other task is ready, the timer leaves
  the task that keeps the processor in the ready state with an empty slice: it is neither
  marked running again nor given a new slice.\<close>

theorem expired_slice_not_refilled:
  assumes "sched_inv s" "t_state (cur s) = TASK_STATE_RUNNING" "t_is_user (cur s) = 0"
    and "t_slice_remaining (cur s) = 1" "\<not> t_yield_requested (cur s)"
    and "\<forall>(p, t) \<in> set (task_list s). p \<noteq> current_task s \<longrightarrow>
      t_state t = TASK_STATE_BLOCKED \<or> t_state t = TASK_STATE_WAITING"
  shows "\<exists>s'. pit_handle_interrupt s = Some (False, s') \<and> current_task s' = current_task s \<and>
    t_state (cur s') = TASK_STATE_READY \<and> t_slice_remaining (cur s') = 0"
proof -
  let ?c = "current_task s"
  have cin: "?c \<in> fst ` set (task_list s)" and lo: "list_ok ?c (task_list s)" and cnz: "?c \<noteq> 0"
    using assms(1) sched_inv_nonzero by (auto simp: sched_inv_def)
  let ?s0 = "s\<lparr>system_ticks := system_ticks s + 1\<rparr>"
  have sleepers: "(\<lambda>(p, t). (p, wake_if_expired k t)) x = x" if "x \<in> set (task_list s)" for k x
    using that assms(2,6) task_at_mem [of s "fst x" "snd x"] lo
    by (cases x) (auto simp: wake_if_expired_def task_states list_ok_def)
  have "map (\<lambda>(p, t). (p, wake_if_expired (system_ticks s + 1) t)) (task_list s) = map (\<lambda>x. x) (task_list s)"
    using sleepers by (intro map_cong) auto
  then have w: "task_wake_expired_sleepers ?s0 = ?s0"
    by (cases s) (simp add: task_wake_expired_sleepers_def)
  let ?g = "\<lambda>t. t\<lparr>t_state := TASK_STATE_READY, t_slice_remaining := 0, t_cpu_time_ticks := t_cpu_time_ticks t + 1\<rparr>"
  define u where "u = upd_cur preempt (upd_cur (\<lambda>t. t\<lparr>t_slice_remaining := t_slice_remaining t - 1\<rparr>)
    (upd_cur (\<lambda>t. t\<lparr>t_cpu_time_ticks := t_cpu_time_ticks t + 1\<rparr>) ?s0))"
  have cur0: "task_at ?c ?s0 = cur s" by (simp add: task_at_def)
  have at: "task_at ?c (upd_task ?c f t) = f (task_at ?c t)" if "?c \<in> fst ` set (task_list t)" for f and t :: "'a task_state_scheme"
    using that by (simp add: task_at_upd)
  have uc: "current_task u = ?c" "t_state (task_at ?c u) = TASK_STATE_READY" "t_slice_remaining (task_at ?c u) = 0"
    "t_is_user (task_at ?c u) = 0"
    using assms(2-4) cin by (simp_all add: u_def at cur0 preempt_def)
  have inv: "sched_inv u" using assms(1) by (simp add: u_def ok_updates)
  have tick: "pit_handle_interrupt s = task_yield u"
    using assms(2-5) cin cnz
    by (simp add: pit_handle_interrupt_def task_schedule_tick_def w Let_def cur0 at u_def task_states)
  have ul: "fst ` set (task_list u) = fst ` set (task_list s)" by (simp add: u_def)
  have others: "t_state t \<noteq> TASK_STATE_READY" if "(p, t) \<in> set (task_list u)" "p \<noteq> ?c" for p t
    using that assms(6) by (auto simp: u_def map_task_def task_states split: if_splits)
  from inv show ?thesis
  proof (cases rule: yield_core_cases)
    case stay
    have cu: "?c \<in> fst ` set (task_list u)" using cin ul by simp
    have st: "task_at ?c (stayed u) = task_at ?c u" "current_task (stayed u) = ?c"
      using uc cu task_at_stayed [OF cu] by (simp_all add: refill_def task_states) (simp add: stayed_def)
    then have "pit_handle_interrupt s = Some (False, stayed u)"
      using uc stay(1) cnz by (simp add: tick task_yield_def)
    with st uc show ?thesis by auto
  next
    case (switch r t)
    have rin: "r \<in> fst ` set (task_list u)" by (rule map_of_aged_in [OF switch(5)])
    then have "t = age ?c r (task_at r u)"
      using switch(5) in_list_map_of [OF rin] uc(1) by (auto simp: aged_def map_of_map_snd task_at_def)
    then show ?thesis using switch(2,3) others [OF task_at_in [OF rin]] uc(1) by simp
  qed
qed

section \<open>Witnesses\<close>

definition sample_task :: "u32 \<Rightarrow> u8 \<Rightarrow> u8 \<Rightarrow> u32 \<Rightarrow> task" where
  "sample_task pid st prio waiting = zero_task\<lparr>t_pid := pid, t_state := st, t_base_priority := prio,
     t_dynamic_priority := prio, t_slice_remaining := 1, t_waiting_on_pid := waiting\<rparr>"

definition sample_sched :: task_state where
  "sample_sched = pipe_state.extend sample_pipe_state
     \<lparr>current_task = 0x1000, task_list = [(0x3000, sample_task 3 TASK_STATE_WAITING 2 1),
        (0x2000, sample_task 2 TASK_STATE_READY 0 0), (0x1000, sample_task 1 TASK_STATE_RUNNING 2 0)],
      next_pid = 4, task_lock = 0, needs_cleanup = False, system_ticks = 0, eflags = 0x200, tss_esp0 = 0,
      cpu_esp = 0, stack_words = (\<lambda>a. 0)\<rparr>"

lemma sample_sched_fields [simp]:
  "current_task sample_sched = 0x1000" "task_lock sample_sched = 0"
  "task_list sample_sched = [(0x3000, sample_task 3 TASK_STATE_WAITING 2 1),
     (0x2000, sample_task 2 TASK_STATE_READY 0 0), (0x1000, sample_task 1 TASK_STATE_RUNNING 2 0)]"
  by (simp_all add: sample_sched_def pipe_state.extend_def)

lemma sample_task_fields [simp]:
  "t_pid (sample_task pid st prio w) = pid" "t_state (sample_task pid st prio w) = st"
  "t_base_priority (sample_task pid st prio w) = prio" "t_dynamic_priority (sample_task pid st prio w) = prio"
  "t_wait_ticks (sample_task pid st prio w) = 0" "t_slice_remaining (sample_task pid st prio w) = 1"
  "t_is_user (sample_task pid st prio w) = 0" "t_yield_requested (sample_task pid st prio w) = False"
  "t_pending_signals (sample_task pid st prio w) = 0" "t_waiting_on_pid (sample_task pid st prio w) = w"
  "t_fd_table (sample_task pid st prio w) = replicate 16 zero_fd"
  by (simp_all add: sample_task_def zero_task_def)

lemma sample_sched_inv: "sched_inv sample_sched"
  by (simp add: sched_inv_def list_ok_def entry_ok_def task_states)

lemma sample_sched_cur [simp]: "task_at 0x1000 sample_sched = sample_task 1 TASK_STATE_RUNNING 2 0"
  "task_at 0x2000 sample_sched = sample_task 2 TASK_STATE_READY 0 0"
  "task_at 0x3000 sample_sched = sample_task 3 TASK_STATE_WAITING 2 1"
  by (simp_all add: task_at_def)


theorem task_no_starvation_witness:
  "\<exists>k s'. k \<le> 204 \<and> yields k sample_sched = Some s' \<and> current_task s' = 0x2000"
  using task_no_starvation [OF sample_sched_inv, of "0x2000"]
  by (simp add: quiet_def waiting_ready_def waits_below_def)

lemma sample_exit: "\<exists>s'. task_exit_with_status 7 sample_sched = Some s'"
proof -
  let ?s = "sample_sched\<lparr>task_lock := 1, eflags := disable_interrupts (eflags sample_sched)\<rparr>"
  have nofd: "close_fd i s = Some s" if "i < 16" "t_fd_table (cur s) = replicate 16 zero_fd" for i and s :: task_state
    using that by (simp add: close_fd_def zero_fd_def)
  have nofds: "fold_opt close_fd is s = Some s" if "set is \<subseteq> {..<16}" "t_fd_table (cur s) = replicate 16 zero_fd"
    for "is" and s :: task_state
    using that by (induction "is") (simp_all add: nofd)
  obtain s2 where s2: "exit_mark 7 ?s = Some s2"
    by (simp add: exit_mark_def Let_def nofds lessThan_atLeast0 task_at_def map_task_def upd_task_def
        wake_waiter_def task_states)
  let ?s3 = "(unlock_tasks (eflags sample_sched) s2)\<lparr>eflags := enable_interrupts (eflags (unlock_tasks (eflags sample_sched) s2))\<rparr>"
  from exit_mark_list [OF s2] obtain f waited where f: "core_same f" and
    l: "task_list s2 = map_task 0x1000 f (map (\<lambda>(p, t). (p, exit_entry 0x1000 1 7 waited p t)) (task_list sample_sched))"
    "current_task s2 = 0x1000" by (auto simp: task_at_def)
  have inv: "sched_inv ?s3"
    using f l by (simp add: sched_inv_def unlock_tasks_eq map_task_def list_ok_def exit_entry_def wake_waiter_def
        core_same_def) (simp add: entry_ok_def task_states)
  from inv have "\<exists>s'. yield_core ?s3 = Some (True, s')"
  proof (cases rule: yield_core_cases)
    case stay
    then show ?thesis
      using f l by (auto simp: unlock_tasks_eq map_task_def exit_entry_def wake_waiter_def runnable_def
          preferred_def aged_def core_same_def age_def task_states)
  qed auto
  then show ?thesis using s2 by (auto simp: task_exit_with_status_def lock_tasks_free Let_def)
qed



definition sample_alone :: task_state where
  "sample_alone = sample_sched\<lparr>task_list := [(0x1000, sample_task 1 TASK_STATE_RUNNING 2 0)]\<rparr>"

theorem expired_slice_not_refilled_witness:
  "\<exists>s'. pit_handle_interrupt sample_alone = Some (False, s') \<and> t_slice_remaining (task_at 0x1000 s') = 0"
  using expired_slice_not_refilled [of sample_alone]
  by (auto simp: sample_alone_def sched_inv_def list_ok_def entry_ok_def task_states task_at_def)

end
