(* ===== verification/Auth.thy ===== *)
theory Auth
  imports Task
begin

text \<open>
  \<open>security/auth/auth.c\<close>: capabilities, the permission check of a node and the root test.
\<close>

definition VFS_ACCESS_READ :: u8 where "VFS_ACCESS_READ = 1"
definition VFS_ACCESS_WRITE :: u8 where "VFS_ACCESS_WRITE = 2"
definition VFS_ACCESS_EXEC :: u8 where "VFS_ACCESS_EXEC = 4"

definition task_has_cap :: "u32 \<Rightarrow> u32 \<Rightarrow> 'a task_state_scheme \<Rightarrow> bool" where
  "task_has_cap task cap s =
     (if task = 0 then False
      else if t_uid (task_at task s) = 0 \<or> t_euid (task_at task s) = 0 then True
      else t_caps (task_at task s) AND cap \<noteq> 0)"

definition request_mask :: "u8 \<Rightarrow> u16" where
  "request_mask access =
     (let mask = 0;
          mask = (if access AND VFS_ACCESS_READ \<noteq> 0 then mask OR 4 else mask);
          mask = (if access AND VFS_ACCESS_WRITE \<noteq> 0 then mask OR 2 else mask)
      in if access AND VFS_ACCESS_EXEC \<noteq> 0 then mask OR 1 else mask)"

definition vfs_check_access :: "u32 \<Rightarrow> u32 \<Rightarrow> u8 \<Rightarrow> 'a task_state_scheme \<Rightarrow> bool" where
  "vfs_check_access node task access s =
     (if node = 0 \<or> task = 0 then False
      else let t = task_at task s; n = nodes s node
           in if t_uid t = 0 \<or> t_euid t = 0 then True
              else let shift = (if t_euid t = nd_uid n then 6 else if t_egid t = nd_gid n then 3 else 0 :: nat)
                   in (ucast (nd_mode n) :: u32) AND push_bit shift (ucast (request_mask access)) \<noteq> 0)"

definition task_is_root :: "'a task_state_scheme \<Rightarrow> bool" where
  "task_is_root s \<longleftrightarrow> current_task s \<noteq> 0 \<and> (t_uid (cur s) = 0 \<or> t_euid (cur s) = 0)"

section \<open>What is granted\<close>

text \<open>The lowest permission bit of the class of the task: owner, group or others.\<close>

definition class_shift :: "task \<Rightarrow> vfs_node \<Rightarrow> nat" where
  "class_shift t n = (if t_euid t = nd_uid n then 6 else if t_egid t = nd_gid n then 3 else 0)"

text \<open>The pairs of a bit of the request and the bit of the mode that allows it.\<close>

definition requested_bits :: "u8 \<Rightarrow> nat set" where
  "requested_bits access = {b. b = 2 \<and> bit access 0 \<or> b = 1 \<and> bit access 1 \<or> b = 0 \<and> bit access 2}"

lemma requested_bits_ex:
  "(\<exists>b \<in> requested_bits access. P b) \<longleftrightarrow> bit access 0 \<and> P 2 \<or> bit access 1 \<and> P 1 \<or> bit access 2 \<and> P 0"
  unfolding requested_bits_def by blast

lemma access_masks:
  "(access :: u8) AND VFS_ACCESS_READ \<noteq> 0 \<longleftrightarrow> bit access 0"
  "access AND VFS_ACCESS_WRITE \<noteq> 0 \<longleftrightarrow> bit access 1"
  "access AND VFS_ACCESS_EXEC \<noteq> 0 \<longleftrightarrow> bit access 2"
proof -
  have "VFS_ACCESS_READ = bit_mask 0" "VFS_ACCESS_WRITE = bit_mask 1" "VFS_ACCESS_EXEC = bit_mask 2"
    by (simp_all add: VFS_ACCESS_READ_def VFS_ACCESS_WRITE_def VFS_ACCESS_EXEC_def bit_mask_def)
  note eqs = this
  show "access AND VFS_ACCESS_READ \<noteq> 0 \<longleftrightarrow> bit access 0"
    "access AND VFS_ACCESS_WRITE \<noteq> 0 \<longleftrightarrow> bit access 1"
    "access AND VFS_ACCESS_EXEC \<noteq> 0 \<longleftrightarrow> bit access 2" unfolding eqs by simp_all
qed

lemma and_nonzero: "(a :: u32) AND b \<noteq> 0 \<longleftrightarrow> (\<exists>n. bit a n \<and> bit b n)"
proof
  assume "a AND b \<noteq> 0"
  then obtain n where "bit (a AND b) n" using word_zero_iff [of "a AND b"] by blast
  then show "\<exists>n. bit a n \<and> bit b n" by (auto simp: bit_and_iff)
next
  assume "\<exists>n. bit a n \<and> bit b n"
  then obtain n where n: "bit (a AND b) n" by (auto simp: bit_and_iff)
  show "a AND b \<noteq> 0"
  proof
    assume "a AND b = 0"
    with n show False by simp
  qed
qed

lemma mode_mask_bits:
  fixes m :: u16
  assumes "k \<le> 6"
  shows "(ucast m :: u32) AND push_bit k (ucast
      (((if r then 4 else 0) OR (if w then 2 else 0)) OR (if x then 1 else 0) :: u16)) \<noteq> 0 \<longleftrightarrow>
    r \<and> bit m (k + 2) \<or> w \<and> bit m (k + 1) \<or> x \<and> bit m k"
  (is "?a AND ?b \<noteq> 0 \<longleftrightarrow> ?rhs")
proof -
  have four: "(4 :: u16) = bit_mask 2" "(2 :: u16) = bit_mask 1" "(1 :: u16) = bit_mask 0"
    by (simp_all add: bit_mask_def)
  have b: "bit ?b n \<longleftrightarrow> r \<and> n = k + 2 \<or> w \<and> n = k + 1 \<or> x \<and> n = k" for n
    using assms unfolding four
    by (auto simp: bit_push_bit_iff bit_or_iff bit_ucast_iff split: if_splits)
  have a: "bit ?a n \<longleftrightarrow> bit m n" for n
    by (auto simp: bit_ucast_iff dest: bit_imp_le_length)
  have "?a AND ?b \<noteq> 0 \<longleftrightarrow> (\<exists>n. bit ?a n \<and> bit ?b n)" by (rule and_nonzero)
  also have "\<dots> \<longleftrightarrow> ?rhs" unfolding a b by auto
  finally show ?thesis .
qed

lemma request_mask_bits:
  "request_mask access = ((if bit access 0 then 4 else 0) OR (if bit access 1 then 2 else 0)) OR (if bit access 2 then 1 else 0)"
proof -
  have "request_mask access =
      (let m = if bit access 0 then 0 OR 4 else 0; m' = if bit access 1 then m OR 2 else m
       in if bit access 2 then m' OR 1 else m')"
    unfolding request_mask_def access_masks Let_def by (rule refl)
  then show ?thesis
    by (simp only: Let_def; cases "bit access 0"; cases "bit access 1"; cases "bit access 2";
        simp only: or.left_neutral or.right_neutral if_True if_False)
qed

text \<open>C22: For a task that is not root \<open>vfs_check_access\<close> grants a request as soon as one of the
  requested permissions is allowed to the task's class, not only when all of them are.\<close>

theorem vfs_check_access_any_bit:
  assumes "node \<noteq> 0" "task \<noteq> 0" "t_uid (task_at task s) \<noteq> 0" "t_euid (task_at task s) \<noteq> 0"
  shows "vfs_check_access node task access s \<longleftrightarrow>
    (\<exists>b \<in> requested_bits access.
       bit (nd_mode (nodes s node)) (class_shift (task_at task s) (nodes s node) + b))"
proof -
  let ?t = "task_at task s" and ?n = "nodes s node"
  have k: "class_shift ?t ?n \<le> 6" by (simp add: class_shift_def)
  have "vfs_check_access node task access s \<longleftrightarrow>
      (ucast (nd_mode ?n) :: u32) AND push_bit (class_shift ?t ?n) (ucast (request_mask access)) \<noteq> 0"
    unfolding vfs_check_access_def class_shift_def Let_def using assms by (simp only: simp_thms if_False)
  also have "\<dots> \<longleftrightarrow> bit access 0 \<and> bit (nd_mode ?n) (class_shift ?t ?n + 2) \<or>
      bit access 1 \<and> bit (nd_mode ?n) (class_shift ?t ?n + 1) \<or>
      bit access 2 \<and> bit (nd_mode ?n) (class_shift ?t ?n)"
    unfolding request_mask_bits by (rule mode_mask_bits [OF k])
  finally show ?thesis unfolding requested_bits_ex add_0_right .
qed

definition sample_auth :: task_state where
  "sample_auth = pipe_state.extend
     (sample_pipe_state\<lparr>nodes := (\<lambda>p. zero_node\<lparr>nd_mode := 0x124, nd_uid := 7\<rparr>)\<rparr>)
     \<lparr>current_task = 0x1000, task_list = [(0x1000, zero_task\<lparr>t_uid := 5, t_euid := 5, t_egid := 5\<rparr>)],
      next_pid = 4, task_lock = 0, needs_cleanup = False, system_ticks = 0, eflags = 0x200, tss_esp0 = 0,
      cpu_esp = 0, stack_words = (\<lambda>a. 0)\<rparr>"

theorem vfs_check_access_any_bit_witness:
  "vfs_check_access 9 0x1000 (VFS_ACCESS_READ OR VFS_ACCESS_WRITE) sample_auth"
proof -
  have mode: "nd_mode (nodes sample_auth 9) = 0x124" "nd_uid (nodes sample_auth 9) = 7" "nd_gid (nodes sample_auth 9) = 0"
    by (simp_all add: sample_auth_def pipe_state.extend_def zero_node_def)
  have t: "t_uid (task_at 0x1000 sample_auth) = 5" "t_euid (task_at 0x1000 sample_auth) = 5"
    "t_egid (task_at 0x1000 sample_auth) = 5"
    by (simp_all add: sample_auth_def pipe_state.extend_def task_at_def)
  have "bit (0x124 :: u16) (0 + 2)" by simp
  moreover have "2 \<in> requested_bits (VFS_ACCESS_READ OR VFS_ACCESS_WRITE)"
    by (simp add: requested_bits_def VFS_ACCESS_READ_def VFS_ACCESS_WRITE_def)
  ultimately show ?thesis
    using vfs_check_access_any_bit [of 9 "0x1000" sample_auth "VFS_ACCESS_READ OR VFS_ACCESS_WRITE"] mode t
    by (simp add: class_shift_def bexI [of _ 2])
qed

end
