(* ===== verification/Keyboard.thy ===== *)
theory Keyboard
  imports Task Fifo
begin

text \<open>
  \<open>drivers/keyboard/keyboard.c\<close> and the read function of \<open>keyboard_vfs.c\<close>. The scan code
  the controller delivers is the argument of the interrupt handler; the echo of \<open>^C\<close> is
  console output and left out. A read that has to wait blocks the task; what happens
  until it runs again is an argument, one function on the state for each wait, and a
  read that waits once more than there are functions has not returned (\<open>None\<close>).
\<close>

section \<open>State\<close>

record kbd_state = task_state +
  keyboard_buffer :: u32
  kb_data :: "u8 list"
  kb_head :: u16
  kb_tail :: u16
  kb_size :: u16
  modifier_state :: u8
  lock_state :: u8
  extended_scancode :: bool
  keyboard_state_lock :: u32
  keyboard_waiting_task :: u32

definition MODIFIER_SHIFT :: u8 where "MODIFIER_SHIFT = 1"
definition MODIFIER_CTRL :: u8 where "MODIFIER_CTRL = 2"
definition MODIFIER_ALT :: u8 where "MODIFIER_ALT = 4"
definition MODIFIER_CAPS_LOCK :: u8 where "MODIFIER_CAPS_LOCK = 8"
definition MODIFIER_NUM_LOCK :: u8 where "MODIFIER_NUM_LOCK = 16"
definition MODIFIER_SCROLL_LOCK :: u8 where "MODIFIER_SCROLL_LOCK = 32"
definition KEY_TAB :: u16 where "KEY_TAB = 9"

definition scancode_to_ascii_normal :: "u8 list" where
  "scancode_to_ascii_normal =
     [0, 0, 49, 50, 51, 52, 53, 54, 55, 56, 57, 48, 45, 61, 8, 9, 113, 119, 101, 114, 116, 121, 117, 105,
      111, 112, 91, 93, 10, 0, 97, 115, 100, 102, 103, 104, 106, 107, 108, 59, 39, 96, 0, 92, 122, 120, 99,
      118, 98, 110, 109, 44, 46, 47, 0, 42, 0, 32, 0, 0, 0, 0, 0, 0, 0, 0, 0, 0, 0, 0, 0, 0, 0, 0, 0, 0, 0,
      0, 0, 0, 0, 0]"

definition scancode_to_ascii_shift :: "u8 list" where
  "scancode_to_ascii_shift =
     [0, 0, 33, 64, 35, 36, 37, 94, 38, 42, 40, 41, 95, 43, 8, 9, 81, 87, 69, 82, 84, 89, 85, 73, 79, 80,
      123, 125, 10, 0, 65, 83, 68, 70, 71, 72, 74, 75, 76, 58, 34, 126, 0, 124, 90, 88, 67, 86, 66, 78, 77,
      60, 62, 63, 0, 42, 0, 32, 0, 0, 0, 0, 0, 0, 0, 0, 0, 0, 0, 0, 0, 0, 0, 0, 0, 0, 0, 0, 0, 0]"

definition extended_scancode_map :: "u8 \<Rightarrow> u16" where
  "extended_scancode_map mk =
     (if mk = 0x48 then 0xE000 else if mk = 0x50 then 0xE001 else if mk = 0x4B then 0xE002
      else if mk = 0x4D then 0xE003 else if mk = 0x47 then 0xE004 else if mk = 0x4F then 0xE005
      else if mk = 0x49 then 0xE006 else if mk = 0x51 then 0xE007 else if mk = 0x52 then 0xE008
      else if mk = 0x53 then 0x7F else 0)"

section \<open>The buffer\<close>

definition keyboard_is_buffer_empty :: "'a kbd_state_scheme \<Rightarrow> bool" where
  "keyboard_is_buffer_empty s \<longleftrightarrow> kb_head s = kb_tail s"

text \<open>\<open>(i + 1) % size\<close>, computed in \<open>int\<close> and stored in 16 bits.\<close>

definition kb_succ :: "u16 \<Rightarrow> 'a kbd_state_scheme \<Rightarrow> u16" where
  "kb_succ i s = of_nat ((unat i + 1) mod unat (kb_size s))"

definition keyboard_is_buffer_full :: "'a kbd_state_scheme \<Rightarrow> bool" where
  "keyboard_is_buffer_full s \<longleftrightarrow>
     keyboard_buffer s = 0 \<or> kb_size s = 0 \<or> (unat (kb_head s) + 1) mod unat (kb_size s) = unat (kb_tail s)"

definition keyboard_buffer_write :: "u8 \<Rightarrow> 'a kbd_state_scheme \<Rightarrow> bool \<times> 'a kbd_state_scheme" where
  "keyboard_buffer_write scancode s =
     (if keyboard_is_buffer_full s then (False, s)
      else (True, s\<lparr>kb_data := (kb_data s)[unat (kb_head s) := scancode], kb_head := kb_succ (kb_head s) s\<rparr>))"

definition keyboard_buffer_read :: "'a kbd_state_scheme \<Rightarrow> (u8 \<times> 'a kbd_state_scheme) option" where
  "keyboard_buffer_read s =
     (if keyboard_is_buffer_empty s then None
      else Some (kb_data s ! unat (kb_tail s), s\<lparr>kb_tail := kb_succ (kb_tail s) s\<rparr>))"

section \<open>Modifiers and the interrupt\<close>

definition update_modifier_state :: "u8 \<Rightarrow> bool \<Rightarrow> 'a kbd_state_scheme \<Rightarrow> 'a kbd_state_scheme" where
  "update_modifier_state scancode is_pressed s =
     (let set_mod = (\<lambda>m. s\<lparr>modifier_state :=
            (if is_pressed then modifier_state s OR m else modifier_state s AND NOT m)\<rparr>);
          toggle = (\<lambda>m. if is_pressed then s\<lparr>lock_state := lock_state s XOR m\<rparr> else s)
      in if scancode = 0x2A \<or> scancode = 0x36 then set_mod MODIFIER_SHIFT
         else if scancode = 0x1D then set_mod MODIFIER_CTRL
         else if scancode = 0x38 then set_mod MODIFIER_ALT
         else if scancode = 0x3A then toggle MODIFIER_CAPS_LOCK
         else if scancode = 0x45 then toggle MODIFIER_NUM_LOCK
         else if scancode = 0x46 then toggle MODIFIER_SCROLL_LOCK
         else s)"

definition is_break_code :: "u8 \<Rightarrow> bool" where
  "is_break_code scancode \<longleftrightarrow> scancode AND 0x80 \<noteq> 0"

definition get_make_code :: "u8 \<Rightarrow> u8" where
  "get_make_code scancode = scancode AND 0x7F"

definition keyboard_isr :: "u8 \<Rightarrow> 'a kbd_state_scheme \<Rightarrow> 'a kbd_state_scheme option" where
  "keyboard_isr scancode s =
     (if scancode = 0xE0 then Some (s\<lparr>extended_scancode := True\<rparr>)
      else let raw_make = get_make_code scancode; is_pressed = (\<not> is_break_code scancode);
               s1 = update_modifier_state raw_make is_pressed s
           in if modifier_state s1 AND MODIFIER_CTRL \<noteq> 0 \<and> raw_make = 0x2E \<and> is_pressed
              then do {
                (fg_pid, s2) \<leftarrow> task_get_foreground_pid s1;
                if fg_pid \<noteq> 0 then do { (r, s3) \<leftarrow> task_send_signal fg_pid (int SIGINT) s2; Some s3 } else Some s2
              }
              else
                let s2 = (if extended_scancode s1
                          then (snd (keyboard_buffer_write scancode (snd (keyboard_buffer_write 0xE0 s1))))
                                 \<lparr>extended_scancode := False\<rparr>
                          else snd (keyboard_buffer_write scancode s1))
                in if keyboard_waiting_task s2 \<noteq> 0
                   then do {
                     s3 \<leftarrow> task_unblock (keyboard_waiting_task s2) s2;
                     Some (s3\<lparr>keyboard_waiting_task := 0\<rparr>)
                   }
                   else Some s2)"

definition SIZEOF_KEY_BUFFER :: u32 where "SIZEOF_KEY_BUFFER = 12"

definition keyboard_initialize :: "'a kbd_state_scheme \<Rightarrow> 'a kbd_state_scheme option" where
  "keyboard_initialize s =
     do {
       (kb, s1) \<leftarrow> kmem_zalloc SIZEOF_KEY_BUFFER
         (s\<lparr>extended_scancode := False, modifier_state := 0, lock_state := 0\<rparr>);
       (d, s2) \<leftarrow> kmem_zalloc 256 s1;
       if kb = 0 \<or> d = 0 then None
       else Some (s2\<lparr>keyboard_buffer := kb, kb_size := 256, kb_data := replicate 256 0, kb_head := 0, kb_tail := 0\<rparr>)
     }"

definition keyboard_has_key :: "'a kbd_state_scheme \<Rightarrow> bool" where
  "keyboard_has_key s \<longleftrightarrow> \<not> keyboard_is_buffer_empty s"

definition keyboard_flush_buffer :: "'a kbd_state_scheme \<Rightarrow> 'a kbd_state_scheme option" where
  "keyboard_flush_buffer s =
     do {
       (flags, l, e) \<leftarrow> spinlock_acquire_irq_save (keyboard_state_lock s) (eflags s);
       let (l', e') = spinlock_release_irq_restore l flags e;
       Some (s\<lparr>kb_head := 0, kb_tail := 0, keyboard_state_lock := l', eflags := e'\<rparr>)
     }"

section \<open>Reading keys\<close>

definition keyboard_scancode_to_char :: "u8 \<Rightarrow> 'a kbd_state_scheme \<Rightarrow> u8" where
  "keyboard_scancode_to_char scancode s =
     (let make_code = scancode AND 0x7F
      in if is_break_code scancode then 0
         else let shift_active = (modifier_state s AND MODIFIER_SHIFT \<noteq> 0);
                  caps_active = (lock_state s AND MODIFIER_CAPS_LOCK \<noteq> 0);
                  shift_active = (if make_code \<ge> 0x10 \<and> make_code \<le> 0x2F \<and> caps_active
                                  then \<not> shift_active else shift_active)
              in if shift_active \<and> unat make_code < length scancode_to_ascii_shift
                 then scancode_to_ascii_shift ! unat make_code
                 else if unat make_code < length scancode_to_ascii_normal
                 then scancode_to_ascii_normal ! unat make_code
                 else 0)"

fun wait_scancode ::
  "('a kbd_state_scheme \<Rightarrow> 'a kbd_state_scheme) list \<Rightarrow> 'a kbd_state_scheme
   \<Rightarrow> (u8 \<times> ('a kbd_state_scheme \<Rightarrow> 'a kbd_state_scheme) list \<times> 'a kbd_state_scheme) option"
where
  "wait_scancode others s =
     (case keyboard_buffer_read s of
        Some (sc, s') \<Rightarrow> Some (sc, others, s')
      | None \<Rightarrow>
          (case others of
             [] \<Rightarrow> None
           | e # es \<Rightarrow>
               if current_task s \<noteq> 0
               then do {
                 (sw, s1) \<leftarrow> task_block (s\<lparr>keyboard_waiting_task := t_pid (cur s)\<rparr>);
                 wait_scancode es (e s1)
               }
               else wait_scancode es (e s)))"

fun wait_extended ::
  "('a kbd_state_scheme \<Rightarrow> 'a kbd_state_scheme) list \<Rightarrow> 'a kbd_state_scheme
   \<Rightarrow> (u8 \<times> ('a kbd_state_scheme \<Rightarrow> 'a kbd_state_scheme) list \<times> 'a kbd_state_scheme) option"
where
  "wait_extended others s =
     (case keyboard_buffer_read s of
        Some (sc, s') \<Rightarrow> Some (sc, others, s')
      | None \<Rightarrow>
          (case others of
             [] \<Rightarrow> None
           | e # es \<Rightarrow> do { (sw, s1) \<leftarrow> task_sleep 1 s; wait_extended es (e s1) }))"

declare wait_scancode.simps [simp del] wait_extended.simps [simp del]

definition keyboard_read_keycode ::
  "('a kbd_state_scheme \<Rightarrow> 'a kbd_state_scheme) list \<Rightarrow> 'a kbd_state_scheme
   \<Rightarrow> (u16 \<times> ('a kbd_state_scheme \<Rightarrow> 'a kbd_state_scheme) list \<times> 'a kbd_state_scheme) option"
where
  "keyboard_read_keycode others s =
     do {
       (scancode, es, s1) \<leftarrow> wait_scancode others s;
       if scancode = 0xE0
       then do {
         (ext_scancode, es', s2) \<leftarrow> wait_extended es s1;
         Some (if \<not> is_break_code ext_scancode then extended_scancode_map (get_make_code ext_scancode) else 0, es', s2)
       }
       else if is_break_code scancode
       then Some (0, es, update_modifier_state (get_make_code scancode) False s1)
       else
         let s2 = update_modifier_state scancode True s1
         in if scancode = 0x0F then Some (KEY_TAB, es, s2)
            else Some (scast (keyboard_scancode_to_char scancode s2), es, s2)
     }"

definition keyboard_read_char ::
  "('a kbd_state_scheme \<Rightarrow> 'a kbd_state_scheme) list \<Rightarrow> 'a kbd_state_scheme
   \<Rightarrow> (u8 \<times> ('a kbd_state_scheme \<Rightarrow> 'a kbd_state_scheme) list \<times> 'a kbd_state_scheme) option"
where
  "keyboard_read_char others s =
     do {
       (code, es, s1) \<leftarrow> keyboard_read_keycode others s;
       Some (if code AND 0xFF00 = 0 then ucast code else 0, es, s1)
     }"

definition keyboard_read_char_nonblocking :: "'a kbd_state_scheme \<Rightarrow> u8 \<times> 'a kbd_state_scheme" where
  "keyboard_read_char_nonblocking s =
     (case keyboard_buffer_read s of
        None \<Rightarrow> (0, s)
      | Some (scancode, s1) \<Rightarrow> if scancode = 0xE0 then (0, s1) else (keyboard_scancode_to_char scancode s1, s1))"

definition keyboard_get_modifiers :: "'a kbd_state_scheme \<Rightarrow> u8" where
  "keyboard_get_modifiers s = modifier_state s"

definition keyboard_is_modifier_active :: "u8 \<Rightarrow> 'a kbd_state_scheme \<Rightarrow> bool" where
  "keyboard_is_modifier_active modifier s \<longleftrightarrow> modifier_state s AND modifier \<noteq> 0"

definition keyboard_get_lock_state :: "'a kbd_state_scheme \<Rightarrow> u8" where
  "keyboard_get_lock_state s = lock_state s"

text \<open>\<open>keyboard_read_line\<close> with a buffer of \<open>sz\<close> bytes; \<open>line\<close> is what is in the buffer so far, and the
  result is the bytes before the terminator. The loop reads for ever while the line is
  edited, so it is a partial function.\<close>

partial_function (option) read_line_loop ::
  "nat \<Rightarrow> u8 list \<Rightarrow> ('a kbd_state_scheme \<Rightarrow> 'a kbd_state_scheme) list \<Rightarrow> 'a kbd_state_scheme
   \<Rightarrow> (u8 list \<times> ('a kbd_state_scheme \<Rightarrow> 'a kbd_state_scheme) list \<times> 'a kbd_state_scheme) option"
where
  "read_line_loop sz line others s =
     (if length line < sz - 1
      then do {
        (c, es, s1) \<leftarrow> keyboard_read_char others s;
        if c = 10 then Some (line @ [10], es, s1)
        else if c = 8 then read_line_loop sz (butlast line) es s1
        else if c \<noteq> 0 then read_line_loop sz (line @ [c]) es s1
        else read_line_loop sz line es s1
      }
      else Some (line, others, s))"

definition keyboard_read_line ::
  "nat \<Rightarrow> ('a kbd_state_scheme \<Rightarrow> 'a kbd_state_scheme) list \<Rightarrow> 'a kbd_state_scheme
   \<Rightarrow> (u8 list \<times> ('a kbd_state_scheme \<Rightarrow> 'a kbd_state_scheme) list \<times> 'a kbd_state_scheme) option"
where
  "keyboard_read_line sz others s = (if sz = 0 then Some ([], others, s) else read_line_loop sz [] others s)"

text \<open>\<open>keyboard_vfs_read\<close>; the bytes read so far are a list.\<close>

partial_function (option) vfs_read_loop ::
  "nat \<Rightarrow> u8 list \<Rightarrow> ('a kbd_state_scheme \<Rightarrow> 'a kbd_state_scheme) list \<Rightarrow> 'a kbd_state_scheme
   \<Rightarrow> (u8 list \<times> ('a kbd_state_scheme \<Rightarrow> 'a kbd_state_scheme) list \<times> 'a kbd_state_scheme) option"
where
  "vfs_read_loop sz out others s =
     (if length out < sz
      then do {
        (c, es, s1) \<leftarrow> keyboard_read_char others s;
        if c = 0 then Some (out, es, s1) else vfs_read_loop sz (out @ [c]) es s1
      }
      else Some (out, others, s))"

definition keyboard_vfs_read ::
  "u32 \<Rightarrow> ('a kbd_state_scheme \<Rightarrow> 'a kbd_state_scheme) list \<Rightarrow> 'a kbd_state_scheme
   \<Rightarrow> (u8 list \<times> ('a kbd_state_scheme \<Rightarrow> 'a kbd_state_scheme) list \<times> 'a kbd_state_scheme) option"
where
  "keyboard_vfs_read sz others s = vfs_read_loop (unat sz) [] others s"

section \<open>The buffer is a queue of 255 bytes\<close>

definition kb_ok :: "'a kbd_state_scheme \<Rightarrow> bool" where
  "kb_ok s \<longleftrightarrow> keyboard_buffer s \<noteq> 0 \<and> kb_size s = 256 \<and> length (kb_data s) = 256 \<and>
     unat (kb_head s) < 256 \<and> unat (kb_tail s) < 256"

definition kb_count :: "'a kbd_state_scheme \<Rightarrow> nat" where
  "kb_count s = (unat (kb_head s) + 256 - unat (kb_tail s)) mod 256"

definition kb_content :: "'a kbd_state_scheme \<Rightarrow> u8 list" where
  "kb_content s = ring (kb_data s) (unat (kb_tail s)) (kb_count s)"

definition kb_put :: "u8 \<Rightarrow> 'a kbd_state_scheme \<Rightarrow> 'a kbd_state_scheme option" where
  "kb_put x s = (case keyboard_buffer_write x s of (ok, s') \<Rightarrow> if ok then Some s' else None)"

lemma unat_kb_size: "kb_ok s \<Longrightarrow> unat (kb_size s) = 256"
  by (simp add: kb_ok_def)

lemma unat_kb_succ:
  assumes "kb_ok s"
  shows "unat (kb_succ i s) = (unat i + 1) mod 256"
proof -
  have "(unat i + 1) mod 256 < 2 ^ 16" by (rule less_trans [of _ 256]) simp_all
  then show ?thesis by (simp add: kb_succ_def unat_kb_size [OF assms] unat_of_nat take_bit_nat_eq_self)
qed

lemma ring_index:
  fixes h t :: nat
  assumes "h < 256" "t < 256"
  shows "(h + 1) mod 256 = (if h = 255 then 0 else h + 1)"
    and "(h + 256 - t) mod 256 = (if t \<le> h then h - t else h + 256 - t)"
proof -
  show "(h + 1) mod 256 = (if h = 255 then 0 else h + 1)" using assms by simp
  show "(h + 256 - t) mod 256 = (if t \<le> h then h - t else h + 256 - t)"
  proof (cases "t \<le> h")
    case True
    then have "h + 256 - t = (h - t) + 256" by simp
    then show ?thesis using True assms by (simp only: mod_add_self2) simp
  qed (use assms in simp)
qed

lemma ring_step:
  fixes h t :: nat
  assumes "h < 256" "t < 256"
  shows "(h + 1) mod 256 = t \<longleftrightarrow> (h + 256 - t) mod 256 = 255"
    and "(h + 1) mod 256 \<noteq> t \<Longrightarrow> ((h + 1) mod 256 + 256 - t) mod 256 = Suc ((h + 256 - t) mod 256)"
    and "h = t \<longleftrightarrow> (h + 256 - t) mod 256 = 0"
    and "h \<noteq> t \<Longrightarrow> Suc ((h + 256 - (t + 1) mod 256) mod 256) = (h + 256 - t) mod 256"
    and "(t + (h + 256 - t) mod 256) mod 256 = h"
proof -
  let ?h' = "(h + 1) mod 256" and ?t' = "(t + 1) mod 256"
  have lt: "?h' < 256" "?t' < 256" by simp_all
  note i = ring_index [OF assms] ring_index [OF assms(2,1)] ring_index(2) [OF lt(1) assms(2)]
    ring_index(2) [OF assms(1) lt(2)]
  show "?h' = t \<longleftrightarrow> (h + 256 - t) mod 256 = 255" unfolding i using assms by auto
  show "(?h' + 256 - t) mod 256 = Suc ((h + 256 - t) mod 256)" if "?h' \<noteq> t"
  proof (cases "h = 255")
    case False
    then have h': "?h' = h + 1" "h + 1 < 256" using i(1) assms by simp_all
    have "(h + 1 + 256 - t) mod 256 = (if t \<le> h + 1 then h + 1 - t else h + 1 + 256 - t)"
      by (rule ring_index(2) [OF h'(2) assms(2)])
    moreover have "h + 1 \<noteq> t" using that h'(1) by simp
    ultimately show ?thesis unfolding h'(1) i(2) using assms by (simp split: if_splits)
  next
    case True
    then have "(h + 256 - t) mod 256 = 255 - t" unfolding i(2) using assms by simp
    then show ?thesis using True that assms by simp
  qed
  show "h = t \<longleftrightarrow> (h + 256 - t) mod 256 = 0" unfolding i using assms by auto
  show "Suc ((h + 256 - ?t') mod 256) = (h + 256 - t) mod 256" if "h \<noteq> t"
  proof (cases "t = 255")
    case True
    then have "(h + 256 - 0) mod 256 = h" "(h + 256 - t) mod 256 = h + 1" unfolding i(2) using that assms by simp_all
    then show ?thesis using True by simp
  next
    case False
    then have t': "?t' = t + 1" "t + 1 < 256" using assms by simp_all
    have "(h + 256 - (t + 1)) mod 256 = (if t + 1 \<le> h then h - (t + 1) else h + 256 - (t + 1))"
      by (rule ring_index(2) [OF assms(1) t'(2)])
    then show ?thesis unfolding t'(1) i(2) using that assms by (simp split: if_splits)
  qed
  show "(t + (h + 256 - t) mod 256) mod 256 = h" unfolding i using assms by auto
qed

lemma kb_full:
  "kb_ok s \<Longrightarrow> keyboard_is_buffer_full s \<longleftrightarrow> kb_count s = 255"
  using ring_step(1) [of "unat (kb_head s)" "unat (kb_tail s)"]
  by (simp add: keyboard_is_buffer_full_def kb_count_def kb_ok_def)

lemma kb_empty:
  "kb_ok s \<Longrightarrow> keyboard_is_buffer_empty s \<longleftrightarrow> kb_count s = 0"
  using ring_step(3) [of "unat (kb_head s)" "unat (kb_tail s)"]
  by (simp add: keyboard_is_buffer_empty_def kb_count_def kb_ok_def word_unat_eq_iff)

lemma keyboard_buffer_write_room:
  assumes s: "kb_ok s" and "kb_count s < 255"
  obtains s' where "keyboard_buffer_write x s = (True, s')" "kb_ok s'" "kb_content s' = kb_content s @ [x]"
    "s' = s\<lparr>kb_data := kb_data s', kb_head := kb_head s'\<rparr>"
proof -
  let ?s' = "s\<lparr>kb_data := (kb_data s)[unat (kb_head s) := x], kb_head := kb_succ (kb_head s) s\<rparr>"
  have nf: "\<not> keyboard_is_buffer_full s" using assms kb_full by fastforce
  have len: "length (kb_data s) = 256" and ht: "unat (kb_head s) < 256" "unat (kb_tail s) < 256"
    using s by (simp_all add: kb_ok_def)
  have succ: "unat (kb_succ (kb_head s) s) = (unat (kb_head s) + 1) mod 256" by (rule unat_kb_succ [OF s])
  have ne: "(unat (kb_head s) + 1) mod 256 \<noteq> unat (kb_tail s)"
    using ring_step(1) [OF ht] assms(2) by (simp add: kb_count_def)
  have count: "kb_count ?s' = Suc (kb_count s)"
    using ring_step(2) [OF ht ne] succ by (simp add: kb_count_def)
  have room: "kb_count s < length (kb_data s)" using assms(2) len by simp
  have at: "unat (kb_head s) = (unat (kb_tail s) + kb_count s) mod length (kb_data s)"
    unfolding len kb_count_def by (rule ring_step(5) [OF ht, symmetric])
  have "kb_content ?s' = ring ((kb_data s)[unat (kb_head s) := x]) (unat (kb_tail s)) (Suc (kb_count s))"
    unfolding kb_content_def count by simp
  also have "\<dots> = kb_content s @ [x]" unfolding kb_content_def by (rule ring_push [OF room at])
  finally have "kb_content ?s' = kb_content s @ [x]" .
  moreover have "kb_ok ?s'" using s succ by (simp add: kb_ok_def)
  ultimately show ?thesis using that [of ?s'] nf by (simp add: keyboard_buffer_write_def)
qed

lemma keyboard_buffer_read_next:
  assumes s: "kb_ok s" and c: "kb_content s = x # xs"
  obtains s' where "keyboard_buffer_read s = Some (x, s')" "kb_ok s'" "kb_content s' = xs"
    "s' = s\<lparr>kb_tail := kb_tail s'\<rparr>"
proof -
  let ?s' = "s\<lparr>kb_tail := kb_succ (kb_tail s) s\<rparr>"
  have len: "length (kb_data s) = 256" and ht: "unat (kb_head s) < 256" "unat (kb_tail s) < 256"
    using s by (simp_all add: kb_ok_def)
  have "length (kb_content s) = kb_count s" by (simp add: kb_content_def)
  then have pos: "kb_count s \<noteq> 0" using c by auto
  then have ne: "\<not> keyboard_is_buffer_empty s" using kb_empty [OF s] by simp
  have ne': "unat (kb_head s) \<noteq> unat (kb_tail s)" using ring_step(3) [OF ht] pos by (simp add: kb_count_def)
  have succ: "unat (kb_succ (kb_tail s) s) = (unat (kb_tail s) + 1) mod 256" by (rule unat_kb_succ [OF s])
  have count: "kb_count s = Suc (kb_count ?s')"
    using ring_step(4) [OF ht ne'] succ by (simp add: kb_count_def)
  have next_tail: "Suc (unat (kb_tail s)) mod length (kb_data s) = unat (kb_tail ?s')" using succ by (simp add: len)
  have "kb_content s = ring (kb_data s) (unat (kb_tail s)) (Suc (kb_count ?s'))"
    unfolding kb_content_def count by (rule refl)
  also have "\<dots> = kb_data s ! (unat (kb_tail s) mod length (kb_data s)) # kb_content ?s'"
    unfolding ring_pop next_tail by (simp add: kb_content_def)
  finally have "kb_content s = kb_data s ! unat (kb_tail s) # kb_content ?s'" using ht(2) by (simp add: len)
  then have "x = kb_data s ! unat (kb_tail s)" "kb_content ?s' = xs" using c by simp_all
  moreover have "kb_ok ?s'" using s succ by (simp add: kb_ok_def)
  ultimately show ?thesis using that [of ?s'] ne by (simp add: keyboard_buffer_read_def)
qed

lemma keyboard_buffer_read_empty:
  "kb_ok s \<Longrightarrow> kb_content s = [] \<Longrightarrow> keyboard_buffer_read s = None"
proof -
  assume s: "kb_ok s" and e: "kb_content s = []"
  have "length (kb_content s) = kb_count s" by (simp add: kb_content_def)
  then have "kb_count s = 0" using e by simp
  then show ?thesis using kb_empty [OF s] by (simp add: keyboard_buffer_read_def)
qed

interpretation key_queue: byte_queue kb_ok kb_content 255 kb_put keyboard_buffer_read
proof (unfold_locales, goal_cases)
  case (1 s)
  have "kb_count s < 256" by (simp add: kb_count_def)
  then show ?case by (simp add: kb_content_def)
next
  case (2 s x)
  then have "kb_count s < 255" by (simp add: kb_content_def)
  with 2 show ?case by (auto simp: kb_put_def elim: keyboard_buffer_write_room [of s x])
next
  case (3 s x)
  then have "kb_count s = 255" by (simp add: kb_content_def)
  with 3 show ?case by (simp add: kb_put_def keyboard_buffer_write_def kb_full)
next
  case (4 s)
  then show ?case by (rule keyboard_buffer_read_empty)
next
  case (5 s x xs)
  then show ?case by (auto elim: keyboard_buffer_read_next)
qed


definition sample_kbd :: kbd_state where
  "sample_kbd = task_state.extend
     (pipe_state.extend sample_pipe_state
       \<lparr>current_task = 0, task_list = [], next_pid = 1, task_lock = 0, needs_cleanup = False,
        system_ticks = 0, eflags = 0x200, tss_esp0 = 0, cpu_esp = 0, stack_words = (\<lambda>a. 0)\<rparr>)
     \<lparr>keyboard_buffer = 0x300000, kb_data = replicate 256 0, kb_head = 255, kb_tail = 255, kb_size = 256,
      modifier_state = 0, lock_state = 0, extended_scancode = False, keyboard_state_lock = 0,
      keyboard_waiting_task = 0\<rparr>"

lemma sample_kbd_fields:
  "keyboard_buffer sample_kbd = 0x300000" "kb_data sample_kbd = replicate 256 0" "kb_head sample_kbd = 255"
  "kb_tail sample_kbd = 255" "kb_size sample_kbd = 256" "modifier_state sample_kbd = 0"
  "lock_state sample_kbd = 0" "\<not> extended_scancode sample_kbd" "keyboard_waiting_task sample_kbd = 0"
  by (simp_all add: sample_kbd_def task_state.extend_def)

lemma sample_kbd_ok: "kb_ok sample_kbd" "kb_content sample_kbd = []"
  by (simp_all add: kb_ok_def kb_content_def kb_count_def sample_kbd_fields)


section \<open>Lock keys\<close>

lemma plain_isr:
  assumes "scancode \<noteq> 0xE0" "get_make_code scancode \<noteq> 0x2E" "\<not> extended_scancode s" "keyboard_waiting_task s = 0"
  shows "keyboard_isr scancode s =
    Some (snd (keyboard_buffer_write scancode (update_modifier_state (get_make_code scancode) (\<not> is_break_code scancode) s)))"
proof -
  have "extended_scancode (update_modifier_state m p s) = extended_scancode s"
    "keyboard_waiting_task (update_modifier_state m p s) = keyboard_waiting_task s" for m p
    by (simp_all add: update_modifier_state_def Let_def)
  moreover have "keyboard_waiting_task (snd (keyboard_buffer_write c u)) = keyboard_waiting_task u"
    for c and u :: "'a kbd_state_scheme"
    by (simp add: keyboard_buffer_write_def)
  ultimately show ?thesis using assms by (simp add: keyboard_isr_def Let_def)
qed

lemma content_update [simp]:
  "kb_ok (s\<lparr>lock_state := l\<rparr>) = kb_ok s" "kb_content (s\<lparr>lock_state := l\<rparr>) = kb_content s"
  by (simp_all add: kb_ok_def kb_content_def kb_count_def)

text \<open>A press of caps lock that the keyboard interrupt handler takes and a reader then consumes
  leaves the lock state as it was: both of them toggle it.\<close>

theorem caps_lock_toggled_twice:
  assumes "kb_ok s" "kb_content s = []" "\<not> extended_scancode s" "keyboard_waiting_task s = 0"
  obtains s1 s2 where "keyboard_isr 0x3A s = Some s1" "lock_state s1 = lock_state s XOR MODIFIER_CAPS_LOCK"
    "keyboard_read_keycode [] s1 = Some (0, [], s2)" "lock_state s2 = lock_state s" "kb_content s2 = []"
proof -
  define u where "u = s\<lparr>lock_state := lock_state s XOR MODIFIER_CAPS_LOCK\<rparr>"
  have mods: "update_modifier_state 0x3A True v = v\<lparr>lock_state := lock_state v XOR MODIFIER_CAPS_LOCK\<rparr>"
    for v :: "'a kbd_state_scheme"
    by (simp add: update_modifier_state_def)
  have codes: "get_make_code 0x3A = 0x3A" "\<not> is_break_code 0x3A" by (simp_all add: get_make_code_def is_break_code_def)
  have u: "kb_ok u" "kb_content u = []" using assms by (simp_all add: u_def)
  then have "kb_count u < 255" by (auto simp: kb_content_def dest: arg_cong [of _ _ length])
  then obtain s1 where w: "keyboard_buffer_write 0x3A u = (True, s1)" "kb_ok s1" "kb_content s1 = [0x3A]"
    and s1: "s1 = u\<lparr>kb_data := kb_data s1, kb_head := kb_head s1\<rparr>"
    using keyboard_buffer_write_room [OF u(1), of "0x3A"] u(2) by (metis append_Nil)
  have isr: "keyboard_isr 0x3A s = Some s1"
    using plain_isr [of "0x3A" s] assms codes w(1) by (simp add: mods u_def)
  obtain s2 where r: "keyboard_buffer_read s1 = Some (0x3A, s2)" "kb_content s2 = []" and s2: "s2 = s1\<lparr>kb_tail := kb_tail s2\<rparr>"
    using keyboard_buffer_read_next [OF w(2,3)] by blast
  define s3 where "s3 = s2\<lparr>lock_state := lock_state s2 XOR MODIFIER_CAPS_LOCK\<rparr>"
  have "keyboard_scancode_to_char 0x3A s3 = 0"
    by (simp add: keyboard_scancode_to_char_def is_break_code_def Let_def scancode_to_ascii_shift_def
        scancode_to_ascii_normal_def)
  then have "keyboard_read_keycode [] s1 = Some (0, [], s3)"
    using r codes by (simp add: keyboard_read_keycode_def wait_scancode.simps mods s3_def)
  moreover have l1: "lock_state s1 = lock_state s XOR MODIFIER_CAPS_LOCK" by (subst s1) (simp add: u_def)
  moreover have "lock_state s2 = lock_state s1" by (subst s2) simp
  then have "lock_state s3 = lock_state s" by (simp add: s3_def l1 xor.assoc)
  moreover have "kb_content s3 = []" using r(2) by (simp add: s3_def)
  ultimately show ?thesis using that isr by blast
qed

theorem caps_lock_toggled_twice_witness:
  "\<exists>s2. keyboard_read_keycode [] (the (keyboard_isr 0x3A sample_kbd)) = Some (0, [], s2) \<and> lock_state s2 = 0"
  using caps_lock_toggled_twice [OF sample_kbd_ok sample_kbd_fields(8,9)]
  by (metis sample_kbd_fields(7) option.sel)

end
