(* ===== verification/Rtc.thy ===== *)
theory Rtc
  imports Meow_Prelude
begin

text \<open>
  \<open>drivers/cmos/rtc.c\<close>: the real-time clock. The chip is an argument: \<open>readings k\<close> is what the six
  time registers hold when they are read the \<open>k\<close>-th time, after the update flag is clear, and
  \<open>register_b\<close> the status register. \<open>None\<close> is a clock that never reads the same twice.
\<close>

record rtc_time =
  rtc_second :: u8
  rtc_minute :: u8
  rtc_hour :: u8
  rtc_day :: u8
  rtc_month :: u8
  rtc_year :: u16

text \<open>The loop that reads until two readings in a row agree.\<close>

partial_function (option) rtc_settle :: "(nat \<Rightarrow> rtc_time) \<Rightarrow> nat \<Rightarrow> rtc_time option" where
  "rtc_settle readings k =
     (let last_time = readings k; time = readings (Suc k)
      in if time \<noteq> last_time then rtc_settle readings (Suc k) else Some time)"

definition bcd :: "u8 \<Rightarrow> u8" where
  "bcd v = (v AND 0x0F) + (v div 16) * 10"

definition bcd_hour :: "u8 \<Rightarrow> u8" where
  "bcd_hour v = ((v AND 0x0F) + ((v AND 0x70) div 16) * 10) OR (v AND 0x80)"

definition rtc_decode :: "u8 \<Rightarrow> rtc_time \<Rightarrow> rtc_time" where
  "rtc_decode register_b t =
     (if register_b AND 4 = 0
      then t\<lparr>rtc_second := bcd (rtc_second t), rtc_minute := bcd (rtc_minute t), rtc_hour := bcd_hour (rtc_hour t),
        rtc_day := bcd (rtc_day t), rtc_month := bcd (rtc_month t),
        rtc_year := (rtc_year t AND 0x0F) + (rtc_year t div 16) * 10\<rparr>
      else t)"

definition rtc_get_time :: "(nat \<Rightarrow> rtc_time) \<Rightarrow> u8 \<Rightarrow> rtc_time option" where
  "rtc_get_time readings register_b =
     do {
       t \<leftarrow> rtc_settle readings 0;
       let t = rtc_decode register_b t;
       let t = (if register_b AND 2 = 0 \<and> rtc_hour t AND 0x80 \<noteq> 0
                then t\<lparr>rtc_hour := ((rtc_hour t AND 0x7F) + 12) mod 24\<rparr> else t);
       Some (t\<lparr>rtc_year := rtc_year t + 2000\<rparr>)
     }"

section \<open>The hour\<close>

text \<open>The register in the twelve-hour mode for hour \<open>h\<close>, in binary or decimal coding, and the hour of the
  day it stands for.\<close>

definition hour_register :: "bool \<Rightarrow> bool \<Rightarrow> nat \<Rightarrow> u8" where
  "hour_register binary pm h =
     (if binary then of_nat h else of_nat (16 * (h div 10) + h mod 10)) OR (if pm then 0x80 else 0)"

definition hour_of_day :: "bool \<Rightarrow> nat \<Rightarrow> nat" where
  "hour_of_day pm h = (h mod 12) + (if pm then 12 else 0)"

lemma rtc_settled: "readings = (\<lambda>k. t) \<Longrightarrow> rtc_settle readings 0 = Some t"
  by (subst rtc_settle.simps) simp

lemma twelve_hours: "1 \<le> h \<Longrightarrow> h \<le> 12 \<Longrightarrow> h \<in> {1, 2, 3, 4, 5, 6, 7, 8, 9, 10, 11, 12 :: nat}"
  by simp presburger

text \<open>The hour that \<open>rtc_get_time\<close> makes of a register, in the twelve-hour mode.\<close>

definition hour_read :: "bool \<Rightarrow> u8 \<Rightarrow> u8" where
  "hour_read binary v =
     (let v = (if binary then v else bcd_hour v) in if v AND 0x80 \<noteq> 0 then ((v AND 0x7F) + 12) mod 24 else v)"

lemma hour_read_eq: "hour_read binary (hour_register binary pm h) = of_nat (if pm then (h + 12) mod 24 else h)"
  if "1 \<le> h" "h \<le> 12"
  using twelve_hours [OF that]
  by (cases binary; cases pm) (auto simp: hour_read_def hour_register_def bcd_hour_def)

lemma rtc_get_time_hour:
  assumes "register_b AND 2 = 0"
  shows "map_option rtc_hour (rtc_get_time (\<lambda>k. t) register_b) = Some (hour_read (register_b AND 4 \<noteq> 0) (rtc_hour t))"
  using assms by (simp add: rtc_get_time_def rtc_settled rtc_decode_def hour_read_def Let_def)

text \<open>In the twelve-hour mode the hour read is right exactly when it is not twelve: noon is read as
  midnight and midnight as noon.\<close>

theorem rtc_twelve_wrong:
  assumes "register_b AND 2 = 0" "1 \<le> h" "h \<le> 12" "rtc_hour t = hour_register (register_b AND 4 \<noteq> 0) pm h"
  shows "map_option rtc_hour (rtc_get_time (\<lambda>k. t) register_b) = Some (of_nat (hour_of_day pm h)) \<longleftrightarrow> h \<noteq> 12"
proof -
  have "(of_nat (if pm then (h + 12) mod 24 else h) :: u8) = of_nat (hour_of_day pm h) \<longleftrightarrow> h \<noteq> 12"
    using twelve_hours [OF assms(2,3)] by (cases pm) (auto simp: hour_of_day_def)
  then show ?thesis
    by (simp only: rtc_get_time_hour [OF assms(1)] assms(4) hour_read_eq [OF assms(2,3)] option.inject)
qed

theorem rtc_twelve_wrong_witness:
  "map_option rtc_hour (rtc_get_time (\<lambda>k. \<lparr>rtc_second = 0, rtc_minute = 0, rtc_hour = 0x92, rtc_day = 1, rtc_month = 1, rtc_year = 0x26\<rparr>) 0)
    \<noteq> Some 12"
proof -
  have "hour_register False True 12 = 0x92" by (simp add: hour_register_def)
  then show ?thesis
    using rtc_twelve_wrong [of 0 12 "\<lparr>rtc_second = 0, rtc_minute = 0, rtc_hour = 0x92, rtc_day = 1, rtc_month = 1, rtc_year = 0x26\<rparr>" True]
    by (simp add: hour_of_day_def)
qed

end
