(* ===== verification/Logger.thy ===== *)
theory Logger
  imports Cstring Rtc Fifo
begin

text \<open>
  \<open>utils/logging/logger.c\<close>: the ring that keeps the last 16384 characters logged, and the text of a
  message. The output function that also gets every character is a name, and what it got a list.
  The timer and the clock are arguments. \<open>None\<close> is an access outside of a table or buffer, or an
  argument list that does not fit the format.
\<close>

section \<open>State\<close>

datatype log_output_func = No_output | Fn_vga_log_output | Fn_serial_log_output

record log_state =
  log_buffer :: "u8 list"
  log_head :: u32
  log_wrapped :: bool
  log_min_level :: u32
  log_output :: log_output_func
  log_color :: cstr
  log_emitted :: "(log_output_func \<times> u8) list"

definition RING_BUFFER_SIZE :: u32 where "RING_BUFFER_SIZE = 16384"

definition LOG_LEVEL_ERROR :: u32 where "LOG_LEVEL_ERROR = 1"
definition LOG_LEVEL_WARNING :: u32 where "LOG_LEVEL_WARNING = 2"
definition LOG_LEVEL_INFO :: u32 where "LOG_LEVEL_INFO = 3"
definition LOG_LEVEL_DEBUG :: u32 where "LOG_LEVEL_DEBUG = 4"
definition LOG_LEVEL_TRACE :: u32 where "LOG_LEVEL_TRACE = 5"

definition ERROR_LOOK :: cstr where "ERROR_LOOK = 27 # bytes ''[1;91m''"
definition INFO_LOOK :: cstr where "INFO_LOOK = 27 # bytes ''[32m''"
definition WARNING_LOOK :: cstr where "WARNING_LOOK = 27 # bytes ''[33m''"
definition DEBUG_LOOK :: cstr where "DEBUG_LOOK = 27 # bytes ''[36m''"
definition TRACE_LOOK :: cstr where "TRACE_LOOK = 27 # bytes ''[35m''"
definition RESET_LOOK :: cstr where "RESET_LOOK = 27 # bytes ''[0m''"

definition boot_log :: log_state where
  "boot_log = \<lparr>log_buffer = replicate 16384 0, log_head = 0, log_wrapped = False, log_min_level = LOG_LEVEL_INFO,
     log_output = No_output, log_color = RESET_LOOK, log_emitted = []\<rparr>"

section \<open>Writing\<close>

definition log_putchar :: "u8 \<Rightarrow> log_state \<Rightarrow> log_state" where
  "log_putchar c s =
     (let s1 = (if log_output s \<noteq> No_output then s\<lparr>log_emitted := log_emitted s @ [(log_output s, c)]\<rparr> else s);
          s2 = s1\<lparr>log_buffer := (log_buffer s1)[unat (log_head s1) := c], log_head := log_head s1 + 1\<rparr>
      in if log_head s2 \<ge> RING_BUFFER_SIZE then s2\<lparr>log_head := 0, log_wrapped := True\<rparr> else s2)"

fun write_string :: "cstr \<Rightarrow> log_state \<Rightarrow> log_state" where
  "write_string [] s = s"
| "write_string (c # cs) s = (if c \<noteq> 0 then write_string cs (log_putchar c s) else s)"

text \<open>\<open>write_hex\<close>: the digits of the nibbles from bit \<open>4 * n\<close> down, leading zeros left out.\<close>

fun write_nibbles :: "u32 \<Rightarrow> bool \<Rightarrow> nat \<Rightarrow> log_state \<Rightarrow> log_state" where
  "write_nibbles num started 0 s = s"
| "write_nibbles num started (Suc n) s =
     (let nibble = drop_bit (4 * n) num AND 0xF
      in if nibble \<noteq> 0 \<or> started \<or> n = 0
         then write_nibbles num True n (log_putchar (digits ! unat nibble) s)
         else write_nibbles num started n s)"

definition write_hex :: "u32 \<Rightarrow> log_state \<Rightarrow> log_state" where
  "write_hex num s =
     (let s1 = write_string (bytes ''0x'') s
      in if num = 0 then write_string (bytes ''0'') s1 else write_nibbles num False 8 s1)"

text \<open>\<open>write_uint\<close>: the digits are collected lowest first and written from the last on.\<close>

function uint_digits :: "u32 \<Rightarrow> u8 list \<Rightarrow> u8 list" where
  "uint_digits num buffer =
     (if num > 0 then uint_digits (num div 10) (buffer @ [48 + ucast (num mod 10)]) else buffer)"
  by pat_completeness auto
termination
  by (relation "measure (\<lambda>(num, buffer). unat num)") (auto simp: unat_div word_less_nat_alt)

definition write_uint :: "u32 \<Rightarrow> log_state \<Rightarrow> log_state" where
  "write_uint num s =
     (if num = 0 then log_putchar 48 s else fold log_putchar (rev (uint_digits num [])) s)"

section \<open>Settings\<close>

definition logger_initialize :: "u32 \<Rightarrow> log_state \<Rightarrow> log_state" where
  "logger_initialize min_level s = s\<lparr>log_min_level := min_level, log_color := RESET_LOOK\<rparr>"

definition logger_set_output :: "log_output_func \<Rightarrow> log_state \<Rightarrow> log_state" where
  "logger_set_output f s = s\<lparr>log_output := f\<rparr>"

definition logger_set_level :: "u32 \<Rightarrow> log_state \<Rightarrow> log_state" where
  "logger_set_level level s = s\<lparr>log_min_level := level\<rparr>"

section \<open>Reading the ring\<close>

fun read_ring :: "nat \<Rightarrow> u32 \<Rightarrow> log_state \<Rightarrow> u8 list" where
  "read_ring 0 read_ptr s = []"
| "read_ring (Suc n) read_ptr s =
     log_buffer s ! unat read_ptr # read_ring n ((read_ptr + 1) mod RING_BUFFER_SIZE) s"

text \<open>The bytes stored at the start of the user's buffer; their number is the result.\<close>

definition logger_read_log :: "u32 \<Rightarrow> log_state \<Rightarrow> u8 list" where
  "logger_read_log max_size s =
     (let stored = (if log_wrapped s then RING_BUFFER_SIZE else log_head s);
          total_size = (if max_size < stored then max_size else stored);
          read_ptr = (if log_wrapped s then log_head s else 0);
          read_ptr = (if max_size < stored
                      then if log_wrapped s then (log_head s + (RING_BUFFER_SIZE - max_size)) mod RING_BUFFER_SIZE
                           else log_head s - max_size
                      else read_ptr)
      in if total_size = 0 then [] else read_ring (unat total_size) read_ptr s)"

section \<open>Messages\<close>

definition level_str :: "cstr list" where
  "level_str = [bytes ''NONE'', bytes ''ERROR'', bytes ''WARN'', bytes ''INFO'', bytes ''DEBUG'', bytes ''TRACE'']"

definition level_color :: "u32 \<Rightarrow> cstr \<Rightarrow> cstr" where
  "level_color level color =
     (if level = LOG_LEVEL_TRACE then TRACE_LOOK
      else if level = LOG_LEVEL_DEBUG then DEBUG_LOOK
      else if level = LOG_LEVEL_INFO then INFO_LOOK
      else if level = LOG_LEVEL_WARNING then WARNING_LOOK
      else if level = LOG_LEVEL_ERROR then ERROR_LOOK else color)"

text \<open>A number of the time stamp, written with \<open>itoa\<close>, with a zero before it if it is below ten.\<close>

definition write_two :: "u8 \<Rightarrow> log_state \<Rightarrow> log_state option" where
  "write_two v s =
     do { b \<leftarrow> itoa (ucast v) 10; Some (write_string b (if v < 10 then write_string (bytes ''0'') s else s)) }"

definition write_time :: "rtc_time \<Rightarrow> log_state \<Rightarrow> log_state option" where
  "write_time rtc s =
     do {
       y \<leftarrow> itoa (ucast (rtc_year rtc)) 10;
       let s = write_string (bytes ''-'') (write_string y (write_string (bytes ''['') s));
       s \<leftarrow> write_two (rtc_month rtc) s;
       s \<leftarrow> write_two (rtc_day rtc) (write_string (bytes ''-'') s);
       s \<leftarrow> write_two (rtc_hour rtc) (write_string (bytes '' '') s);
       s \<leftarrow> write_two (rtc_minute rtc) (write_string (bytes '':'') s);
       s \<leftarrow> write_two (rtc_second rtc) (write_string (bytes '':'') s);
       Some (write_string (bytes ''] '') s)
     }"

text \<open>One conversion, and the loop over the format.\<close>

definition log_conv :: "u8 \<Rightarrow> printf_arg list \<Rightarrow> log_state \<Rightarrow> (printf_arg list \<times> log_state) option" where
  "log_conv p args s =
     (if p = 115
      then (case args of
              ArgStr str # as \<Rightarrow> Some (as, write_string (case str of Some t \<Rightarrow> t | None \<Rightarrow> null_text) s)
            | _ \<Rightarrow> None)
      else if p = 100
      then (case args of ArgInt i # as \<Rightarrow> do { b \<leftarrow> itoa i 10; Some (as, write_string b s) } | _ \<Rightarrow> None)
      else if p = 117
      then (case args of ArgInt u # as \<Rightarrow> Some (as, write_uint u s) | _ \<Rightarrow> None)
      else if p = 120 \<or> p = 88
      then (case args of ArgInt num # as \<Rightarrow> Some (as, write_hex num s) | _ \<Rightarrow> None)
      else if p = 99
      then (case args of ArgInt c # as \<Rightarrow> Some (as, log_putchar (ucast c) s) | _ \<Rightarrow> None)
      else if p = 37 then Some (args, log_putchar 37 s)
      else Some (args, log_putchar p (log_putchar 37 s)))"

fun log_format :: "cstr \<Rightarrow> printf_arg list \<Rightarrow> log_state \<Rightarrow> log_state option" where
  "log_format [] args s = Some s"
| "log_format (c # cs) args s =
     (if c = 0 then Some s
      else if c = 37 \<and> deref cs \<noteq> 0
      then (case cs of
              [] \<Rightarrow> Some s
            | p # ps \<Rightarrow> do { (args', s') \<leftarrow> log_conv p args s; log_format ps args' s' })
      else log_format cs args (log_putchar c s))"

definition log_message ::
  "u32 \<Rightarrow> rtc_time \<Rightarrow> u32 \<Rightarrow> cstr option \<Rightarrow> cstr \<Rightarrow> printf_arg list \<Rightarrow> log_state \<Rightarrow> log_state option"
where
  "log_message ticks rtc level module fmt args s =
     (if level > log_min_level s then Some s
      else if length level_str \<le> unat level then None
      else do {
        let s = s\<lparr>log_color := level_color level (log_color s)\<rparr>;
        let s = write_string (bytes ''['') (write_string (log_color s) s);
        let s = write_string RESET_LOOK (write_string (bytes ''] '') (write_string (level_str ! unat level) s));
        let s = (case module of None \<Rightarrow> s | Some m \<Rightarrow> write_string (bytes '': '') (write_string m s));
        s \<leftarrow> write_time rtc s;
        tick_buf \<leftarrow> itoa ticks 10;
        let s = write_string (bytes ''] '') (write_string tick_buf (write_string (bytes ''Tick: ['') s));
        s \<leftarrow> log_format fmt args s;
        Some (log_putchar 10 s)
      })"

definition log_error :: "u32 \<Rightarrow> rtc_time \<Rightarrow> cstr option \<Rightarrow> cstr \<Rightarrow> printf_arg list \<Rightarrow> log_state \<Rightarrow> log_state option" where
  "log_error ticks rtc = log_message ticks rtc LOG_LEVEL_ERROR"

definition log_warning :: "u32 \<Rightarrow> rtc_time \<Rightarrow> cstr option \<Rightarrow> cstr \<Rightarrow> printf_arg list \<Rightarrow> log_state \<Rightarrow> log_state option" where
  "log_warning ticks rtc = log_message ticks rtc LOG_LEVEL_WARNING"

definition log_info :: "u32 \<Rightarrow> rtc_time \<Rightarrow> cstr option \<Rightarrow> cstr \<Rightarrow> printf_arg list \<Rightarrow> log_state \<Rightarrow> log_state option" where
  "log_info ticks rtc = log_message ticks rtc LOG_LEVEL_INFO"

definition log_debug :: "u32 \<Rightarrow> rtc_time \<Rightarrow> cstr option \<Rightarrow> cstr \<Rightarrow> printf_arg list \<Rightarrow> log_state \<Rightarrow> log_state option" where
  "log_debug ticks rtc = log_message ticks rtc LOG_LEVEL_DEBUG"

definition log_trace :: "u32 \<Rightarrow> rtc_time \<Rightarrow> cstr option \<Rightarrow> cstr \<Rightarrow> printf_arg list \<Rightarrow> log_state \<Rightarrow> log_state option" where
  "log_trace ticks rtc = log_message ticks rtc LOG_LEVEL_TRACE"

text \<open>\<open>log_hexdump\<close>: the byte at index \<open>i\<close> and those after it.\<close>

fun hexdump_from :: "u32 \<Rightarrow> cstr option \<Rightarrow> nat \<Rightarrow> u8 list \<Rightarrow> log_state \<Rightarrow> log_state" where
  "hexdump_from level module i [] s = s"
| "hexdump_from level module i (b # bs) s =
     (let s1 = (if i mod 16 = 0
                then let s = (if i > 0 then write_string (bytes [CHR 0x0A]) s else s);
                         s = write_string (bytes ''] '') (write_string (level_str ! unat level) (write_string (bytes ''['') s));
                         s = (case module of None \<Rightarrow> s | Some m \<Rightarrow> write_string (bytes '': '') (write_string m s))
                     in write_string (bytes '': '') (write_hex (of_nat i) s)
                else s)
      in hexdump_from level module (i + 1) bs
           (log_putchar 32 (log_putchar (digits ! unat (b AND 0xF)) (log_putchar (digits ! unat (drop_bit 4 b AND 0xF)) s1))))"

definition log_hexdump :: "u32 \<Rightarrow> cstr option \<Rightarrow> u8 list \<Rightarrow> log_state \<Rightarrow> log_state option" where
  "log_hexdump level module data s =
     (if level > log_min_level s then Some s
      else if length level_str \<le> unat level \<and> data \<noteq> [] then None
      else Some (write_string (bytes [CHR 0x0A]) (hexdump_from level module 0 data s)))"

section \<open>The ring holds the end of the log\<close>

definition last_n :: "nat \<Rightarrow> 'b list \<Rightarrow> 'b list" where
  "last_n n xs = drop (length xs - n) xs"

lemma last_n_all [simp]: "length xs \<le> n \<Longrightarrow> last_n n xs = xs"
  by (simp add: last_n_def)

lemma last_n_append: "last_n n (last_n n xs @ ys) = last_n n (xs @ ys)"
proof (cases "length xs \<le> n")
  case False
  have "length (drop (length xs - n) xs @ ys) - n = length ys" using False by simp
  moreover have "length (xs @ ys) - n = (length xs - n) + length ys" using False by simp
  ultimately show ?thesis using False unfolding last_n_def
    by (simp only: drop_append length_drop drop_drop) (simp add: add.commute)
qed simp

lemma ring_last:
  assumes "m \<le> n" "n \<le> length d" "0 < length d"
  shows "last_n m (ring d h n) = ring d ((h + (n - m)) mod length d) m"
  using assms by (intro nth_equalityI) (simp_all add: last_n_def ring_nth mod_simps ac_simps)

definition log_ok :: "log_state \<Rightarrow> bool" where
  "log_ok s \<longleftrightarrow> length (log_buffer s) = 16384 \<and> log_head s < RING_BUFFER_SIZE"

definition log_content :: "log_state \<Rightarrow> u8 list" where
  "log_content s =
     (if log_wrapped s then ring (log_buffer s) (unat (log_head s)) 16384 else ring (log_buffer s) 0 (unat (log_head s)))"

lemma unat_RING [simp]: "unat RING_BUFFER_SIZE = 16384"
  by (simp add: RING_BUFFER_SIZE_def)

lemma log_putchar_fields:
  assumes "log_ok s"
  shows "log_buffer (log_putchar c s) = (log_buffer s)[unat (log_head s) := c]"
    "unat (log_head (log_putchar c s)) = Suc (unat (log_head s)) mod 16384"
    "log_wrapped (log_putchar c s) \<longleftrightarrow> log_wrapped s \<or> unat (log_head s) = 16383"
proof -
  have h: "unat (log_head s) < 16384" using assms by (simp add: log_ok_def word_less_nat_alt)
  then have u: "unat (log_head s + 1) = Suc (unat (log_head s))"
    using unat_add_no_wrap [of "log_head s" 1] by simp
  have "log_head s + 1 \<ge> RING_BUFFER_SIZE \<longleftrightarrow> unat (log_head s) = 16383"
    unfolding word_le_nat_alt u unat_RING using h by linarith
  then show "log_buffer (log_putchar c s) = (log_buffer s)[unat (log_head s) := c]"
    "unat (log_head (log_putchar c s)) = Suc (unat (log_head s)) mod 16384"
    "log_wrapped (log_putchar c s) \<longleftrightarrow> log_wrapped s \<or> unat (log_head s) = 16383"
    using h u by (auto simp: log_putchar_def Let_def)
qed

lemma log_putchar_ok: "log_ok s \<Longrightarrow> log_ok (log_putchar c s)"
  using log_putchar_fields(1,2) [of s c] by (simp add: log_ok_def word_less_nat_alt)

lemma log_putchar_content:
  assumes "log_ok s"
  shows "log_content (log_putchar c s) = last_n 16384 (log_content s @ [c])"
proof -
  let ?b = "log_buffer s" and ?h = "unat (log_head s)"
  have h: "?h < 16384" "length ?b = 16384" using assms by (simp_all add: log_ok_def word_less_nat_alt)
  note f = log_putchar_fields [OF assms, of c]
  show ?thesis
  proof (cases "log_wrapped s")
    case True
    have "ring ?b ?h 16384 = ?b ! ?h # ring ?b (Suc ?h mod 16384) 16383"
      using ring_pop [of ?b ?h 16383] h by simp
    moreover have "ring (?b[?h := c]) (Suc ?h mod 16384) 16384 = ring ?b (Suc ?h mod 16384) 16383 @ [c]"
      using ring_push [of 16383 ?b ?h "Suc ?h mod 16384" c] h by (simp add: mod_simps)
    ultimately show ?thesis using True f by (simp add: log_content_def last_n_def)
  next
    case False
    have p: "ring (?b[?h := c]) 0 (Suc ?h) = ring ?b 0 ?h @ [c]" using ring_push [of ?h ?b ?h 0 c] h by simp
    show ?thesis
    proof (cases "?h = 16383")
      case True
      then show ?thesis using False f p by (simp add: log_content_def)
    next
      case 2: False
      then show ?thesis using False f p h by (simp add: log_content_def)
    qed
  qed
qed

lemma log_chars:
  assumes "log_ok s"
  shows "log_ok (fold log_putchar cs s) \<and> log_content (fold log_putchar cs s) = last_n 16384 (log_content s @ cs)"
  using assms
proof (induction cs arbitrary: s)
  case Nil
  have "length (log_content s) \<le> 16384" using Nil by (simp add: log_content_def log_ok_def word_less_nat_alt)
  with Nil show ?case by simp
next
  case (Cons c cs)
  then show ?case using last_n_append [of 16384 "log_content s @ [c]" cs]
    by (simp add: log_putchar_ok log_putchar_content)
qed

lemma read_ring_eq:
  "length (log_buffer s) = 16384 \<Longrightarrow> p < RING_BUFFER_SIZE \<Longrightarrow> read_ring n p s = ring (log_buffer s) (unat p) n"
proof (induction n arbitrary: p)
  case (Suc n)
  have p: "unat p < 16384" using Suc.prems(2) by (simp add: word_less_nat_alt)
  then have "unat (p + 1) = Suc (unat p)" using unat_add_no_wrap [of p 1] by simp
  then have "unat ((p + 1) mod RING_BUFFER_SIZE) = Suc (unat p) mod 16384" by (simp add: unat_mod)
  moreover have "(p + 1) mod RING_BUFFER_SIZE < RING_BUFFER_SIZE"
    by (simp add: word_less_nat_alt unat_mod)
  ultimately show ?case using Suc p by (simp add: ring_pop)
qed simp

lemma logger_read_log_eq:
  assumes "log_ok s"
  shows "logger_read_log max_size s = last_n (unat max_size) (log_content s)"
proof -
  let ?h = "unat (log_head s)" and ?m = "unat max_size"
  have h: "?h < 16384" "length (log_buffer s) = 16384" "log_head s < RING_BUFFER_SIZE" "0 < RING_BUFFER_SIZE"
    using assms by (simp_all add: log_ok_def word_less_nat_alt)
  note read = read_ring_eq [OF h(2)]
  show ?thesis
  proof (cases "log_wrapped s")
    case True
    have less: "max_size < RING_BUFFER_SIZE \<longleftrightarrow> ?m < 16384" by (simp add: word_less_nat_alt)
    have start: "unat ((log_head s + (RING_BUFFER_SIZE - max_size)) mod RING_BUFFER_SIZE) = (?h + (16384 - ?m)) mod 16384"
      if "?m < 16384"
    proof -
      have "unat (RING_BUFFER_SIZE - max_size) = 16384 - ?m"
        using that unat_sub_le [of max_size RING_BUFFER_SIZE] by simp
      then show ?thesis using h(1) that
        by (simp add: unat_mod unat_add_no_wrap)
    qed
    have small: "(log_head s + (RING_BUFFER_SIZE - max_size)) mod RING_BUFFER_SIZE < RING_BUFFER_SIZE"
      by (simp add: word_less_nat_alt unat_mod)
    show ?thesis
    proof (cases "?m < 16384")
      case m: True
      have "last_n ?m (log_content s) = ring (log_buffer s) ((?h + (16384 - ?m)) mod 16384) ?m"
        using ring_last [of ?m 16384 "log_buffer s" ?h] True h m by (simp add: log_content_def)
      moreover have "logger_read_log max_size s = ring (log_buffer s) ((?h + (16384 - ?m)) mod 16384) ?m"
        using True m less read [OF small] start [OF m] by (simp add: logger_read_log_def Let_def word_unat_eq_iff)
      ultimately show ?thesis by simp
    next
      case m: False
      then show ?thesis using True less read [OF h(3)]
        by (simp add: logger_read_log_def log_content_def word_unat_eq_iff)
    qed
  next
    case False
    have less: "max_size < log_head s \<longleftrightarrow> ?m < ?h" by (simp add: word_less_nat_alt)
    show ?thesis
    proof (cases "?m < ?h")
      case m: True
      then have u: "unat (log_head s - max_size) = ?h - ?m" using unat_sub_le [of max_size "log_head s"] by simp
      then have small: "log_head s - max_size < RING_BUFFER_SIZE" using h(1) by (simp add: word_less_nat_alt)
      have "last_n ?m (log_content s) = ring (log_buffer s) (?h - ?m) ?m"
        using ring_last [of ?m ?h "log_buffer s" 0] False h m by (simp add: log_content_def)
      then show ?thesis using False m less read [OF small] u
        by (simp add: logger_read_log_def Let_def word_unat_eq_iff)
    next
      case m: False
      then show ?thesis using False less read [OF h(4)]
        by (simp add: logger_read_log_def log_content_def word_unat_eq_iff Let_def)
    qed
  qed
qed

text \<open>C28: Whatever was logged before, reading the log after more characters gives the last \<open>max_size\<close>
  characters of all that was logged, in order, as far as the ring of 16384 still holds them.\<close>

theorem logger_read_log_recent:
  assumes "log_ok s"
  shows "logger_read_log max_size (fold log_putchar cs s) =
    last_n (unat max_size) (last_n 16384 (log_content s @ cs))"
  using logger_read_log_eq log_chars [OF assms] by simp

lemma boot_log_ok: "log_ok boot_log" "log_content boot_log = []"
  by (simp_all add: boot_log_def log_ok_def log_content_def RING_BUFFER_SIZE_def)

theorem logger_read_log_recent_witness:
  "logger_read_log 5 (fold log_putchar (bytes ''[INFO] VFS: ready'') boot_log) = bytes ''ready''"
proof -
  have "last_n 5 (bytes ''[INFO] VFS: ready'') = bytes ''ready''" "length (bytes ''[INFO] VFS: ready'') \<le> 16384"
    by (simp_all add: bytes_def last_n_def)
  then show ?thesis
    using logger_read_log_recent [OF boot_log_ok(1), of 5 "bytes ''[INFO] VFS: ready''"] by (simp add: boot_log_ok(2))
qed

end
