(* ===== verification/Mouse.thy ===== *)
theory Mouse
  imports Spinlock
begin

text \<open>
  \<open>drivers/mouse/mouse.c\<close>: the packets of the PS/2 mouse and the position they move. The bytes of the
  controller's ports and the size of the screen are arguments; the pointer that is drawn and the log
  messages are left out. The positions are signed, read with \<open>sint\<close>.
\<close>

record mouse_dev =
  mouse_cycle :: u8
  mouse_packet :: "u8 list"
  mouse_x :: u32
  mouse_y :: u32
  mouse_btn_state :: u8
  mouse_lock :: u32
  mouse_eflags :: u32

text \<open>The movement of one axis: nine bits, the sign in the flags.\<close>

definition mouse_delta :: "bool \<Rightarrow> u8 \<Rightarrow> u32" where
  "mouse_delta negative b = (let d = ucast b in if negative then d OR 0xFFFFFF00 else d)"

definition clamp_axis :: "u32 \<Rightarrow> u32 \<Rightarrow> u32" where
  "clamp_axis v max_size =
     (let v = (if sint v < 0 then 0 else v) in if sint v \<ge> sint max_size then max_size - 1 else v)"

definition mouse_move :: "u32 \<Rightarrow> u32 \<Rightarrow> mouse_dev \<Rightarrow> mouse_dev option" where
  "mouse_move width height s =
     (let flags = mouse_packet s ! 0;
          delta_x = mouse_delta (flags AND 0x10 \<noteq> 0) (mouse_packet s ! 1);
          delta_y = mouse_delta (flags AND 0x20 \<noteq> 0) (mouse_packet s ! 2)
      in if flags AND 0xC0 \<noteq> 0 then Some s
         else do {
           (irq_flags, l, e) \<leftarrow> spinlock_acquire_irq_save (mouse_lock s) (mouse_eflags s);
           let max_width = (if width = 0 then 1024 else width);
           let max_height = (if height = 0 then 768 else height);
           let (l', e') = spinlock_release_irq_restore l irq_flags e;
           Some (s\<lparr>mouse_x := clamp_axis (mouse_x s + delta_x) max_width,
             mouse_y := clamp_axis (mouse_y s - delta_y) max_height,
             mouse_btn_state := flags AND 7, mouse_lock := l', mouse_eflags := e'\<rparr>)
         })"

text \<open>The handler; \<open>status\<close> and \<open>data\<close> are what the two ports read.\<close>

definition mouse_isr :: "u32 \<Rightarrow> u32 \<Rightarrow> u8 \<Rightarrow> u8 \<Rightarrow> mouse_dev \<Rightarrow> mouse_dev option" where
  "mouse_isr width height status data s =
     (if status AND 0x20 = 0 then Some s
      else if mouse_cycle s = 0
      then if data AND 8 = 0 then Some s
           else Some (s\<lparr>mouse_packet := (mouse_packet s)[0 := data], mouse_cycle := 1\<rparr>)
      else if mouse_cycle s = 1
      then Some (s\<lparr>mouse_packet := (mouse_packet s)[1 := data], mouse_cycle := 2\<rparr>)
      else if mouse_cycle s = 2
      then mouse_move width height (s\<lparr>mouse_packet := (mouse_packet s)[2 := data], mouse_cycle := 0\<rparr>)
      else Some s)"

definition mouse_get_state :: "mouse_dev \<Rightarrow> ((u32 \<times> u32 \<times> u8) \<times> mouse_dev) option" where
  "mouse_get_state s =
     do {
       (flags, l, e) \<leftarrow> spinlock_acquire_irq_save (mouse_lock s) (mouse_eflags s);
       let (l', e') = spinlock_release_irq_restore l flags e;
       Some ((mouse_x s, mouse_y s, mouse_btn_state s), s\<lparr>mouse_lock := l', mouse_eflags := e'\<rparr>)
     }"

text \<open>What \<open>mouse_initialize\<close> leaves, after the controller is set up.\<close>

definition mouse_initialize :: "u32 \<Rightarrow> u32 \<Rightarrow> mouse_dev \<Rightarrow> mouse_dev" where
  "mouse_initialize width height s =
     s\<lparr>mouse_x := (if width > 0 then width div 2 else 512), mouse_y := (if height > 0 then height div 2 else 384),
       mouse_cycle := 0, mouse_btn_state := 0\<rparr>"

section \<open>The position stays on the screen\<close>

definition screen_size :: "u32 \<Rightarrow> u32 \<Rightarrow> u32" where
  "screen_size fallback v = (if v = 0 then fallback else v)"

definition mouse_ok :: "u32 \<Rightarrow> u32 \<Rightarrow> mouse_dev \<Rightarrow> bool" where
  "mouse_ok width height s \<longleftrightarrow> mouse_cycle s \<le> 2 \<and> length (mouse_packet s) = 3 \<and>
     unat (mouse_x s) < unat (screen_size 1024 width) \<and> unat (mouse_y s) < unat (screen_size 768 height)"

lemma sint_of_int: "- (2 ^ 31) \<le> k \<Longrightarrow> k < 2 ^ 31 \<Longrightarrow> sint (of_int k :: u32) = k"
  by (simp add: signed_of_int signed_take_bit_int_eq_self)

lemma mouse_delta_range: "\<exists>k. mouse_delta negative b = of_int k \<and> - 256 \<le> k \<and> k \<le> 255"
proof -
  have b: "uint b < 256" using uint_lt2p [of b] by simp
  show ?thesis
  proof (cases negative)
    case True
    have m: "(0xFFFFFF00 :: u32) = NOT (mask 8)" by (simp add: mask_eq_exp_minus_1)
    have "ucast b AND (0xFFFFFF00 :: u32) = 0"
      unfolding m by (rule bit_word_eqI) (auto simp: bit_and_iff bit_not_iff bit_mask_iff bit_ucast_iff dest: bit_imp_le_length)
    then have "(ucast b OR 0xFFFFFF00 :: u32) = ucast b + 0xFFFFFF00" by (rule disjunctive_add_eq_or [symmetric])
    also have "\<dots> = of_int (uint b - 256)" by simp
    finally show ?thesis using True b by (intro exI [of _ "uint b - 256"]) (simp add: mouse_delta_def)
  next
    case False
    have "0 \<le> uint b" by simp
    then show ?thesis using b False by (intro exI [of _ "uint b"] conjI) (simp add: mouse_delta_def, linarith+)
  qed
qed

text \<open>Clamping a position that is at most 256 off the screen.\<close>

lemma clamp_axis_range:
  assumes "0 < unat m" "unat m \<le> 2 ^ 30" "- 256 \<le> k" "k \<le> 2 ^ 30 + 256"
  shows "unat (clamp_axis (of_int k) m) < unat m"
proof -
  have k: "sint (of_int k :: u32) = k" using assms(3,4) by (intro sint_of_int) simp_all
  have m: "sint m = int (unat m)" using assms(2) by (intro sint_small) simp
  consider "k < 0" | "0 \<le> k" "int (unat m) \<le> k" | "0 \<le> k" "k < int (unat m)" by linarith
  then show ?thesis
  proof cases
    case 1
    have "\<not> sint (0 :: u32) \<ge> sint m" using assms(1) by (simp only: m signed_0 flip: of_nat_0)
    then have "clamp_axis (of_int k) m = 0" using 1 by (simp only: clamp_axis_def k Let_def if_True if_False)
    then show ?thesis using assms(1) by simp
  next
    case 2
    have "\<not> k < 0" using 2(1) by linarith
    then have "clamp_axis (of_int k) m = m - 1" using 2(2) by (simp only: clamp_axis_def k m Let_def if_True if_False)
    then show ?thesis using assms(1) unat_sub_le [of 1 m] by simp
  next
    case 3
    then have "\<not> k < 0" "\<not> int (unat m) \<le> k" by simp_all
    then have "clamp_axis (of_int k) m = of_int k" by (simp only: clamp_axis_def k m Let_def if_False)
    moreover obtain n where n: "k = int n" using 3(1) by (rule nonneg_int_cases)
    moreover have lt: "n < unat m" using 3(2) unfolding n by (simp only: of_nat_less_iff)
    moreover have "unat (of_nat n :: u32) = n"
      using lt assms(2) by (intro unat_of_nat_small) simp
    ultimately show ?thesis by (simp only: of_int_of_nat_eq)
  qed
qed

lemma screen_size_eq:
  "(if width = 0 then 1024 else width) = screen_size 1024 width" "(if height = 0 then 768 else height) = screen_size 768 height"
  by (simp_all add: screen_size_def)

lemma screen_size_pos: "0 < unat fallback \<Longrightarrow> 0 < unat (screen_size fallback v)"
  by (simp add: screen_size_def unat_gt_0)

lemma clamp_moved:
  assumes "unat x < unat m" "unat m \<le> 2 ^ 30"
  shows "unat (clamp_axis (x + mouse_delta n b) m) < unat m" "unat (clamp_axis (x - mouse_delta n b) m) < unat m"
proof -
  obtain k where k: "mouse_delta n b = of_int k" "- 256 \<le> k" "k \<le> 255" using mouse_delta_range by blast
  have x: "x = of_int (int (unat x))" by simp
  have moved: "x + mouse_delta n b = of_int (int (unat x) + k)" "x - mouse_delta n b = of_int (int (unat x) - k)"
    using k(1) by simp_all
  have "int (unat m) \<le> int (2 ^ 30)" using assms(2) by (simp only: of_nat_le_iff)
  then have "int (unat m) \<le> 2 ^ 30" by simp
  moreover have "0 \<le> int (unat x)" by simp
  moreover have "int (unat x) < int (unat m)" using assms(1) by (simp only: of_nat_less_iff)
  ultimately have "- 256 \<le> int (unat x) + k" "int (unat x) + k \<le> 2 ^ 30 + 256"
    "- 256 \<le> int (unat x) - k" "int (unat x) - k \<le> 2 ^ 30 + 256" "0 < unat m"
    using k(2,3) assms(1) by linarith+
  with moved show "unat (clamp_axis (x + mouse_delta n b) m) < unat m" "unat (clamp_axis (x - mouse_delta n b) m) < unat m"
    using assms(2) k(2,3) clamp_axis_range [of m "int (unat x) + k"] clamp_axis_range [of m "int (unat x) - k"]
    by (simp_all only:)
qed

text \<open>On a screen of at most \<open>2 ^ 30\<close> pixels each way, every interrupt, whatever byte it brings, keeps the
  pointer on the screen and the packet state valid.\<close>

theorem mouse_stays_on_screen:
  assumes "mouse_ok width height s" "unat width \<le> 2 ^ 30" "unat height \<le> 2 ^ 30"
    "mouse_isr width height status data s = Some s'"
  shows "mouse_ok width height s'"
proof -
  have w: "unat (screen_size 1024 width) \<le> 2 ^ 30" "unat (screen_size 768 height) \<le> 2 ^ 30"
    using assms(2,3) by (simp_all add: screen_size_def)
  have cyc: "mouse_cycle s = 0 \<or> mouse_cycle s = 1 \<or> mouse_cycle s = 2"
    using assms(1) by (auto simp: mouse_ok_def word_le_nat_alt word_unat_eq_iff)
  have move: "mouse_ok width height u"
    if "mouse_move width height t = Some u" "mouse_ok width height t" for t u
    using that clamp_moved [OF _ w(1)] clamp_moved [OF _ w(2)]
    by (auto simp: mouse_move_def mouse_ok_def Let_def screen_size_eq split: if_splits bind_split_asm prod.splits)
  show ?thesis
    using assms(1,4) cyc move
    by (auto simp: mouse_isr_def split: if_splits) (auto simp: mouse_ok_def)
qed

definition sample_mouse :: mouse_dev where
  "sample_mouse = \<lparr>mouse_cycle = 2, mouse_packet = [0x18, 0xF0, 0], mouse_x = 5, mouse_y = 700, mouse_btn_state = 0,
     mouse_lock = 0, mouse_eflags = 0x200\<rparr>"

text \<open>A movement of 16 to the left and 5 up from column 5 stops at the edge.\<close>

theorem mouse_stays_on_screen_witness:
  "\<exists>s'. mouse_isr 0 0 0x20 5 sample_mouse = Some s' \<and> mouse_ok 0 0 s'"
proof -
  have ok: "mouse_ok 0 0 sample_mouse" by (simp add: mouse_ok_def sample_mouse_def screen_size_def)
  have "\<exists>s'. mouse_isr 0 0 0x20 5 sample_mouse = Some s'"
    by (simp add: mouse_isr_def sample_mouse_def mouse_move_def Let_def lock_defs)
  then obtain s' where s': "mouse_isr 0 0 0x20 5 sample_mouse = Some s'" by blast
  show ?thesis using mouse_stays_on_screen [OF ok _ _ s'] s' by simp
qed

end
