(* ===== verification/Pci.thy ===== *)
theory Pci
  imports Meow_Prelude
begin

text \<open>
  \<open>drivers/pci/pci.c\<close>: access to the configuration space and the scan that fills the device table.
  The space is a map from the address written to the address port to the word the data port then
  holds; writing the data port updates it. Log messages are left out.
\<close>

section \<open>Configuration space\<close>

type_synonym pci_space = "u32 \<Rightarrow> u32"

definition PCI_MAX_DEVICES :: nat where "PCI_MAX_DEVICES = 32"

definition pci_get_addr :: "u8 \<Rightarrow> u8 \<Rightarrow> u8 \<Rightarrow> u8 \<Rightarrow> u32" where
  "pci_get_addr bus slot func offset =
     push_bit 31 1 OR push_bit 16 (ucast bus) OR push_bit 11 (ucast slot) OR push_bit 8 (ucast func) OR ucast (offset AND 0xFC)"

definition pci_config_read_dword :: "u8 \<Rightarrow> u8 \<Rightarrow> u8 \<Rightarrow> u8 \<Rightarrow> pci_space \<Rightarrow> u32" where
  "pci_config_read_dword bus slot func offset cfg = cfg (pci_get_addr bus slot func offset)"

definition pci_config_read_word :: "u8 \<Rightarrow> u8 \<Rightarrow> u8 \<Rightarrow> u8 \<Rightarrow> pci_space \<Rightarrow> u16" where
  "pci_config_read_word bus slot func offset cfg =
     ucast (drop_bit (unat (offset AND 2) * 8) (cfg (pci_get_addr bus slot func offset)) AND 0xFFFF)"

definition pci_config_read_byte :: "u8 \<Rightarrow> u8 \<Rightarrow> u8 \<Rightarrow> u8 \<Rightarrow> pci_space \<Rightarrow> u8" where
  "pci_config_read_byte bus slot func offset cfg =
     ucast (drop_bit (unat (offset AND 3) * 8) (cfg (pci_get_addr bus slot func offset)) AND 0xFF)"

definition pci_config_write_dword :: "u8 \<Rightarrow> u8 \<Rightarrow> u8 \<Rightarrow> u8 \<Rightarrow> u32 \<Rightarrow> pci_space \<Rightarrow> pci_space" where
  "pci_config_write_dword bus slot func offset val cfg = cfg(pci_get_addr bus slot func offset := val)"

definition pci_config_write_word :: "u8 \<Rightarrow> u8 \<Rightarrow> u8 \<Rightarrow> u8 \<Rightarrow> u16 \<Rightarrow> pci_space \<Rightarrow> pci_space" where
  "pci_config_write_word bus slot func offset val cfg =
     (let current = pci_config_read_dword bus slot func offset cfg;
          shift = unat (offset AND 2) * 8;
          current = current AND NOT (push_bit shift 0xFFFF);
          current = current OR push_bit shift (ucast val)
      in pci_config_write_dword bus slot func offset current cfg)"

section \<open>The device table\<close>

record pci_device =
  pd_bus :: u8
  pd_slot :: u8
  pd_func :: u8
  pd_vendor_id :: u16
  pd_device_id :: u16
  pd_class_code :: u8
  pd_subclass :: u8
  pd_prog_if :: u8
  pd_revision_id :: u8
  pd_header_type :: u8
  pd_irq_line :: u8
  pd_irq_pin :: u8
  pd_bar :: "u32 list"

definition pci_scan_function :: "pci_space \<Rightarrow> u8 \<Rightarrow> u8 \<Rightarrow> u8 \<Rightarrow> pci_device list \<Rightarrow> pci_device list" where
  "pci_scan_function cfg bus slot func devices =
     (let vendor_id = pci_config_read_word bus slot func 0 cfg
      in if vendor_id = 0xFFFF \<or> vendor_id = 0 then devices
         else if length devices \<ge> PCI_MAX_DEVICES then devices
         else devices @ [\<lparr>pd_bus = bus, pd_slot = slot, pd_func = func, pd_vendor_id = vendor_id,
           pd_device_id = pci_config_read_word bus slot func 0x02 cfg,
           pd_class_code = pci_config_read_byte bus slot func 0x0B cfg,
           pd_subclass = pci_config_read_byte bus slot func 0x0A cfg,
           pd_prog_if = pci_config_read_byte bus slot func 0x09 cfg,
           pd_revision_id = pci_config_read_byte bus slot func 0x08 cfg,
           pd_header_type = pci_config_read_byte bus slot func 0x0E cfg AND 0x7F,
           pd_irq_line = pci_config_read_byte bus slot func 0x3C cfg,
           pd_irq_pin = pci_config_read_byte bus slot func 0x3D cfg,
           pd_bar = map (\<lambda>b. pci_config_read_dword bus slot func (0x10 + of_nat b * 4) cfg) [0..<6]\<rparr>])"

definition pci_scan_slot :: "pci_space \<Rightarrow> u8 \<Rightarrow> u8 \<Rightarrow> pci_device list \<Rightarrow> pci_device list" where
  "pci_scan_slot cfg bus slot devices =
     (let vendor_id = pci_config_read_word bus slot 0 0 cfg
      in if vendor_id = 0xFFFF \<or> vendor_id = 0 then devices
         else let devices = pci_scan_function cfg bus slot 0 devices;
                  header_type = pci_config_read_byte bus slot 0 0x0E cfg
              in if header_type AND 0x80 \<noteq> 0
                 then fold (\<lambda>func. pci_scan_function cfg bus slot (of_nat func)) [1..<8] devices
                 else devices)"

definition pci_scan_bus :: "pci_space \<Rightarrow> u8 \<Rightarrow> pci_device list \<Rightarrow> pci_device list" where
  "pci_scan_bus cfg bus devices = fold (\<lambda>slot. pci_scan_slot cfg bus (of_nat slot)) [0..<32] devices"

definition pci_initialize :: "pci_space \<Rightarrow> pci_device list" where
  "pci_initialize cfg =
     (let header_type = pci_config_read_byte 0 0 0 0x0E cfg
      in if header_type AND 0x80 = 0 then pci_scan_bus cfg 0 []
         else fold (\<lambda>func devices. if pci_config_read_word 0 0 (of_nat func) 0 cfg \<noteq> 0xFFFF
                                   then pci_scan_bus cfg (of_nat func) devices else devices) [0..<8] [])"

definition pci_get_devices :: "u32 \<Rightarrow> pci_device list \<Rightarrow> pci_device list" where
  "pci_get_devices max_count devices =
     (if max_count = 0 then []
      else let count = (if of_nat (length devices) < max_count then length devices else unat max_count)
           in take count devices)"

fun pci_get_device :: "u16 \<Rightarrow> u16 \<Rightarrow> pci_device list \<Rightarrow> pci_device option" where
  "pci_get_device vendor_id device_id [] = None"
| "pci_get_device vendor_id device_id (d # ds) =
     (if pd_vendor_id d = vendor_id \<and> pd_device_id d = device_id then Some d else pci_get_device vendor_id device_id ds)"

definition pci_enable_bus_mastering :: "pci_device \<Rightarrow> pci_space \<Rightarrow> pci_space" where
  "pci_enable_bus_mastering dev cfg =
     (let cmd = pci_config_read_word (pd_bus dev) (pd_slot dev) (pd_func dev) 0x04 cfg OR 4
      in pci_config_write_word (pd_bus dev) (pd_slot dev) (pd_func dev) 0x04 cmd cfg)"

section \<open>The table never overflows, and a word written is a word read\<close>

lemma length_scan_function: "length devices \<le> 32 \<Longrightarrow> length (pci_scan_function cfg bus slot func devices) \<le> 32"
  by (simp add: pci_scan_function_def Let_def PCI_MAX_DEVICES_def)

lemma length_scan_slot: "length devices \<le> 32 \<Longrightarrow> length (pci_scan_slot cfg bus slot devices) \<le> 32"
  unfolding pci_scan_slot_def Let_def
  by (simp add: length_scan_function fold_preserves [where P = "\<lambda>d. length d \<le> 32"])

lemma length_scan_bus: "length devices \<le> 32 \<Longrightarrow> length (pci_scan_bus cfg bus devices) \<le> 32"
  unfolding pci_scan_bus_def by (rule fold_preserves [where P = "\<lambda>d. length d \<le> 32"]) (simp_all add: length_scan_slot)

lemma length_pci_initialize: "length (pci_initialize cfg) \<le> 32"
  unfolding pci_initialize_def Let_def
  by (auto intro!: fold_preserves [where P = "\<lambda>d. length d \<le> 32"] length_scan_bus)

lemma word_of_dword:
  "k \<in> {0, 16} \<Longrightarrow> ucast (drop_bit k (w AND NOT (push_bit k 0xFFFF) OR push_bit k (ucast v)) AND 0xFFFF) = v"
  for w :: u32 and v :: u16
proof -
  have m: "(0xFFFF :: u32) = mask 16" by (simp add: mask_eq_exp_minus_1)
  assume "k \<in> {0, 16}"
  then show ?thesis unfolding m
    by (intro bit_word_eqI) (auto simp: bit_simps)
qed

text \<open>A word that is written reads back.\<close>

lemma pci_write_read_word:
  "pci_config_read_word bus slot func offset (pci_config_write_word bus slot func offset val cfg) = val"
proof -
  have "offset AND 2 = 0 \<or> offset AND 2 = (2 :: u8)"
  proof -
    have two: "(2 :: u8) = bit_mask 1" by (simp add: bit_mask_def)
    show ?thesis
    proof (cases "bit offset 1")
      case True
      then have "offset AND 2 = 2" unfolding two by (intro bit_word_eqI) (auto simp: bit_and_iff)
      then show ?thesis ..
    next
      case False
      then show ?thesis unfolding two by simp
    qed
  qed
  then have "unat (offset AND 2) * 8 \<in> {0, 16}" by auto
  from word_of_dword [OF this] show ?thesis
    by (simp add: pci_config_read_word_def pci_config_write_word_def pci_config_write_dword_def pci_config_read_dword_def Let_def)
qed

end
