(* ===== verification/Vga.thy ===== *)
theory Vga
  imports Cstring Spinlock
begin

text \<open>
  \<open>drivers/vga_display/vga.c\<close>: the text screen of 25 rows and 80 columns. The video memory is a list
  of cells, the cursor register a word. \<open>None\<close> is a spin on a held lock or a write outside of the
  screen.
\<close>

record vga_state =
  terminal_buffer :: "u16 list"
  terminal_row :: u32
  terminal_column :: u32
  terminal_color :: u8
  vga_cursor :: u16
  vga_lock :: u32
  vga_eflags :: u32

definition VGA_WIDTH :: u32 where "VGA_WIDTH = 80"
definition VGA_HEIGHT :: u32 where "VGA_HEIGHT = 25"

definition vga_entry_color :: "u8 \<Rightarrow> u8 \<Rightarrow> u8" where
  "vga_entry_color fg bg = fg OR push_bit 4 bg"

definition vga_entry :: "u8 \<Rightarrow> u8 \<Rightarrow> u16" where
  "vga_entry uc color = ucast uc OR push_bit 8 (ucast color)"

definition update_cursor :: "vga_state \<Rightarrow> vga_state" where
  "update_cursor s = s\<lparr>vga_cursor := ucast (terminal_row s * VGA_WIDTH + terminal_column s)\<rparr>"

text \<open>The body of an operation between taking the lock and giving it back.\<close>

definition vga_locked :: "(vga_state \<Rightarrow> vga_state option) \<Rightarrow> vga_state \<Rightarrow> vga_state option" where
  "vga_locked body s =
     do {
       (flags, l, e) \<leftarrow> spinlock_acquire_irq_save (vga_lock s) (vga_eflags s);
       t \<leftarrow> body (s\<lparr>vga_lock := l, vga_eflags := e\<rparr>);
       let (l', e') = spinlock_release_irq_restore (vga_lock t) flags (vga_eflags t);
       Some (t\<lparr>vga_lock := l', vga_eflags := e'\<rparr>)
     }"

definition blank_screen :: "vga_state \<Rightarrow> vga_state" where
  "blank_screen s = s\<lparr>terminal_buffer := replicate 2000 (vga_entry 32 (terminal_color s))\<rparr>"

definition terminal_initialize :: "vga_state \<Rightarrow> vga_state option" where
  "terminal_initialize s =
     vga_locked (\<lambda>s. Some (update_cursor (blank_screen
       (s\<lparr>terminal_row := 0, terminal_column := 0, terminal_color := vga_entry_color 7 0\<rparr>)))) s"

definition terminal_clear :: "vga_state \<Rightarrow> vga_state option" where
  "terminal_clear s =
     vga_locked (\<lambda>s. Some (update_cursor (blank_screen (s\<lparr>terminal_row := 0, terminal_column := 0\<rparr>)))) s"

definition terminal_scroll_locked :: "vga_state \<Rightarrow> vga_state" where
  "terminal_scroll_locked s =
     s\<lparr>terminal_buffer := drop 80 (terminal_buffer s) @ replicate 80 (vga_entry 32 (terminal_color s))\<rparr>"

text \<open>\<open>terminal_column = 0; terminal_row++\<close> and the scroll that may follow.\<close>

definition next_line :: "vga_state \<Rightarrow> vga_state" where
  "next_line s =
     (let s1 = s\<lparr>terminal_column := 0, terminal_row := terminal_row s + 1\<rparr>
      in if terminal_row s1 \<ge> VGA_HEIGHT then (terminal_scroll_locked s1)\<lparr>terminal_row := VGA_HEIGHT - 1\<rparr> else s1)"

definition screen_index :: "vga_state \<Rightarrow> nat" where
  "screen_index s = unat (terminal_row s * VGA_WIDTH + terminal_column s)"

text \<open>One character; \<open>terminal_print\<close> repeats the body of \<open>terminal_putchar\<close> without the cursor.\<close>

definition put_char_locked :: "u8 \<Rightarrow> vga_state \<Rightarrow> vga_state option" where
  "put_char_locked c s =
     (if c = 13 then Some (s\<lparr>terminal_column := 0\<rparr>)
      else if c = 10 then Some (next_line s)
      else if c = 9
      then let s1 = s\<lparr>terminal_column := (terminal_column s + 8) AND NOT 7\<rparr>
           in Some (if terminal_column s1 \<ge> VGA_WIDTH then next_line s1 else s1)
      else let s1 = (if terminal_column s = VGA_WIDTH - 1 then next_line s else s)
           in do {
             b \<leftarrow> put (terminal_buffer s1) (screen_index s1) (vga_entry c (terminal_color s1));
             let s2 = s1\<lparr>terminal_buffer := b, terminal_column := terminal_column s1 + 1\<rparr>;
             Some (if terminal_column s2 = VGA_WIDTH then next_line s2 else s2)
           })"

definition terminal_putchar :: "u8 \<Rightarrow> vga_state \<Rightarrow> vga_state option" where
  "terminal_putchar c s = vga_locked (\<lambda>s. map_option update_cursor (put_char_locked c s)) s"

definition terminal_print :: "cstr option \<Rightarrow> vga_state \<Rightarrow> vga_state option" where
  "terminal_print data s =
     (case data of
        None \<Rightarrow> Some s
      | Some d \<Rightarrow> vga_locked (\<lambda>s. map_option update_cursor (fold_opt put_char_locked (content d) s)) s)"

definition terminal_println :: "cstr option \<Rightarrow> vga_state \<Rightarrow> vga_state option" where
  "terminal_println data s = Option.bind (terminal_print data s) (terminal_putchar 10)"

definition backspace_locked :: "vga_state \<Rightarrow> vga_state option" where
  "backspace_locked s =
     (if terminal_column s = 0 \<and> terminal_row s = 0 then Some s
      else let s1 = (if terminal_column s > 0 then s\<lparr>terminal_column := terminal_column s - 1\<rparr>
                     else s\<lparr>terminal_row := terminal_row s - 1, terminal_column := VGA_WIDTH - 1\<rparr>)
           in do {
             b \<leftarrow> put (terminal_buffer s1) (screen_index s1) (vga_entry 32 (terminal_color s1));
             Some (update_cursor (s1\<lparr>terminal_buffer := b\<rparr>))
           })"

definition terminal_backspace :: "vga_state \<Rightarrow> vga_state option" where
  "terminal_backspace s = vga_locked backspace_locked s"

section \<open>The cursor stays on the screen\<close>

definition vga_ok :: "vga_state \<Rightarrow> bool" where
  "vga_ok s \<longleftrightarrow> length (terminal_buffer s) = 2000 \<and> terminal_row s < VGA_HEIGHT \<and> terminal_column s < VGA_WIDTH"

lemma vga_ok_nat:
  "vga_ok s \<longleftrightarrow> length (terminal_buffer s) = 2000 \<and> unat (terminal_row s) < 25 \<and> unat (terminal_column s) < 80"
  by (simp add: vga_ok_def VGA_HEIGHT_def VGA_WIDTH_def word_less_nat_alt)

lemma screen_index_bound:
  assumes "unat (terminal_row s) < 25" "unat (terminal_column s) < 80"
  shows "screen_index s = unat (terminal_row s) * 80 + unat (terminal_column s)" "screen_index s < 2000"
proof -
  have e: "terminal_row s * VGA_WIDTH + terminal_column s = of_nat (unat (terminal_row s) * 80 + unat (terminal_column s))"
    by (simp add: VGA_WIDTH_def)
  have lt: "unat (terminal_row s) * 80 + unat (terminal_column s) < 2000" using assms by linarith
  then show "screen_index s = unat (terminal_row s) * 80 + unat (terminal_column s)"
    unfolding screen_index_def e by (intro unat_of_nat_small) simp
  then show "screen_index s < 2000" using lt by simp
qed

lemma next_line_ok:
  "length (terminal_buffer s) = 2000 \<Longrightarrow> unat (terminal_row s) < 25 \<Longrightarrow>
     vga_ok (next_line s) \<and> terminal_column (next_line s) = 0"
  using unat_add_no_wrap [of "terminal_row s" 1]
  by (auto simp: next_line_def Let_def vga_ok_nat terminal_scroll_locked_def VGA_HEIGHT_def word_le_nat_alt)

lemma put_char_locked_ok:
  assumes "vga_ok s"
  shows "\<exists>t. put_char_locked c s = Some t \<and> vga_ok t"
proof -
  have s: "length (terminal_buffer s) = 2000" "unat (terminal_row s) < 25" "unat (terminal_column s) < 80"
    using assms by (simp_all add: vga_ok_nat)
  define s1 where "s1 = (if terminal_column s = VGA_WIDTH - 1 then next_line s else s)"
  have s1: "vga_ok s1" "unat (terminal_column s1) < 79"
    using next_line_ok [OF s(1,2)] s assms by (auto simp: s1_def VGA_WIDTH_def word_unat_eq_iff)
  then have idx: "screen_index s1 < length (terminal_buffer s1)"
    using screen_index_bound(2) [of s1] by (simp add: vga_ok_nat)
  have col: "unat (terminal_column s1 + 1) = Suc (unat (terminal_column s1))"
    using unat_add_no_wrap [of "terminal_column s1" 1] s1(2) by simp
  let ?s2 = "s1\<lparr>terminal_buffer := (terminal_buffer s1)[screen_index s1 := vga_entry c (terminal_color s1)],
      terminal_column := terminal_column s1 + 1\<rparr>"
  have s2: "vga_ok ?s2" "terminal_column ?s2 \<noteq> VGA_WIDTH"
    using s1 col by (auto simp: vga_ok_nat VGA_WIDTH_def word_unat_eq_iff)
  have tab: "vga_ok (if terminal_column t \<ge> VGA_WIDTH then next_line t else t)"
    if "length (terminal_buffer t) = 2000" "unat (terminal_row t) < 25" for t
    using that next_line_ok [OF that] by (auto simp: vga_ok_nat VGA_WIDTH_def word_le_nat_alt)
  consider "c = 13" | "c \<noteq> 13" "c = 10" | "c \<noteq> 13" "c \<noteq> 10" "c = 9" | "c \<noteq> 13" "c \<noteq> 10" "c \<noteq> 9" by blast
  then show ?thesis
  proof cases
    case 1
    then show ?thesis using s by (simp add: put_char_locked_def vga_ok_nat)
  next
    case 2
    then show ?thesis using next_line_ok [OF s(1,2)] by (simp add: put_char_locked_def)
  next
    case 3
    define s2 where "s2 = s\<lparr>terminal_column := (terminal_column s + 8) AND NOT 7\<rparr>"
    have "put_char_locked c s = Some (if terminal_column s2 \<ge> VGA_WIDTH then next_line s2 else s2)"
      unfolding put_char_locked_def Let_def s2_def if_not_P [OF 3(1)] if_not_P [OF 3(2)] if_P [OF 3(3)] ..
    moreover have "length (terminal_buffer s2) = 2000" "unat (terminal_row s2) < 25" using s by (simp_all add: s2_def)
    ultimately show ?thesis using tab [of s2] by blast
  next
    case 4
    have "put_char_locked c s = Some ?s2"
      using 4 idx s2(2) by (simp add: put_char_locked_def Let_def put_def flip: s1_def)
    then show ?thesis using s2(1) by blast
  qed
qed

lemma vga_locked_ok:
  assumes "vga_lock s = 0" "\<And>t. vga_ok t \<Longrightarrow> \<exists>u. body t = Some u \<and> vga_ok u" "vga_ok s"
  shows "\<exists>t. vga_locked body s = Some t \<and> vga_ok t \<and> vga_lock t = 0"
proof -
  let ?s = "s\<lparr>vga_lock := 1, vga_eflags := disable_interrupts (vga_eflags s)\<rparr>"
  have "vga_ok ?s" using assms(3) by (simp add: vga_ok_def)
  then obtain u where "body ?s = Some u" "vga_ok u" using assms(2) by blast
  then show ?thesis using assms(1)
    by (simp add: vga_locked_def lock_defs spinlock_release_irq_restore_def) (simp add: vga_ok_def)
qed

lemma vga_ok_update_cursor [simp]: "vga_ok (update_cursor s) = vga_ok s"
  by (simp add: vga_ok_def update_cursor_def)

lemma put_chars_ok: "vga_ok s \<Longrightarrow> \<exists>t. fold_opt put_char_locked cs s = Some t \<and> vga_ok t"
proof (induction cs arbitrary: s)
  case (Cons c cs)
  then show ?case using put_char_locked_ok [of s c] by fastforce
qed simp

lemma backspace_ok:
  assumes "vga_ok t"
  shows "\<exists>u. backspace_locked t = Some u \<and> vga_ok u"
proof (cases "terminal_column t = 0 \<and> terminal_row t = 0")
  case False
  define s1 where "s1 = (if terminal_column t > 0 then t\<lparr>terminal_column := terminal_column t - 1\<rparr>
                    else t\<lparr>terminal_row := terminal_row t - 1, terminal_column := VGA_WIDTH - 1\<rparr>)"
  have "vga_ok s1"
  proof (cases "terminal_column t > 0")
    case True
    then have "unat (terminal_column t - 1) = unat (terminal_column t) - 1"
      using unat_sub_le [of 1 "terminal_column t"] by (simp add: word_less_nat_alt)
    then have "unat (terminal_column t - 1) < 80" using assms by (simp add: vga_ok_nat less_imp_diff_less)
    then show ?thesis using True assms by (simp add: s1_def vga_ok_nat)
  next
    case col: False
    then have "terminal_row t \<noteq> 0" using False by (simp add: word_gt_0)
    then have "unat (terminal_row t - 1) = unat (terminal_row t) - 1"
      using unat_sub_le [of 1 "terminal_row t"] by (simp add: Suc_le_eq unat_gt_0)
    then have "unat (terminal_row t - 1) < 25" using assms by (simp add: vga_ok_nat less_imp_diff_less)
    then show ?thesis using col assms by (simp add: s1_def vga_ok_nat VGA_WIDTH_def)
  qed
  then have lt: "screen_index s1 < length (terminal_buffer s1)"
    using screen_index_bound(2) [of s1] by (simp add: vga_ok_nat)
  let ?t = "update_cursor (s1\<lparr>terminal_buffer := (terminal_buffer s1)[screen_index s1 := vga_entry 32 (terminal_color s1)]\<rparr>)"
  have "backspace_locked t = Some ?t"
    unfolding backspace_locked_def Let_def if_not_P [OF False] s1_def [symmetric] put_def if_P [OF lt] by simp
  moreover have "vga_ok ?t" using \<open>vga_ok s1\<close> by (simp add: vga_ok_nat update_cursor_def)
  ultimately show ?thesis by blast
qed (use assms in \<open>simp add: backspace_locked_def\<close>)

text \<open>From a valid screen with a free lock, printing any string returns, leaves the lock free and the
  cursor on the screen, and never writes outside of the video memory; so does a backspace.\<close>

theorem terminal_print_ok:
  assumes "vga_ok s" "vga_lock s = 0"
  shows "(\<exists>t. terminal_print data s = Some t \<and> vga_ok t \<and> vga_lock t = 0) \<and>
    (\<exists>t. terminal_putchar c s = Some t \<and> vga_ok t \<and> vga_lock t = 0) \<and>
    (\<exists>t. terminal_backspace s = Some t \<and> vga_ok t \<and> vga_lock t = 0)"
proof (intro conjI)
  show "\<exists>t. terminal_print data s = Some t \<and> vga_ok t \<and> vga_lock t = 0"
  proof (cases data)
    case (Some d)
    show ?thesis unfolding terminal_print_def Some option.case
      by (rule vga_locked_ok [OF assms(2) _ assms(1)]) (use put_chars_ok in fastforce)
  qed (use assms in \<open>simp add: terminal_print_def\<close>)
  show "\<exists>t. terminal_putchar c s = Some t \<and> vga_ok t \<and> vga_lock t = 0"
    unfolding terminal_putchar_def
    by (rule vga_locked_ok [OF assms(2) _ assms(1)]) (use put_char_locked_ok in fastforce)
  show "\<exists>t. terminal_backspace s = Some t \<and> vga_ok t \<and> vga_lock t = 0"
    unfolding terminal_backspace_def by (rule vga_locked_ok [OF assms(2) backspace_ok assms(1)])
qed

end
