(* ===== verification/Disk.thy ===== *)
theory Disk
  imports Keyboard
begin

text \<open>
  The disk below the file system: the sector transfers of \<open>drivers/disk/ata.c\<close>, the byte
  interface of \<open>drivers/disk/block_dev.c\<close> over them and the sector interface of
  \<open>kernel_services.c\<close> over that. The drive is a function from sector numbers to their
  512 bytes; it answers every poll before the time-out, and a transfer is one
  step (the lock around it is taken and released inside).
\<close>

record disk_state = kbd_state +
  sectors :: "u32 \<Rightarrow> u8 list"
  drive_size :: u32

definition SECTOR_SIZE :: u32 where "SECTOR_SIZE = 512"

text \<open>The sector the four address ports select: the low 28 bits of the number.\<close>

definition ata_address :: "u32 \<Rightarrow> u32" where
  "ata_address lba =
     push_bit 24 (drop_bit 24 lba AND 0x0F) OR push_bit 16 (drop_bit 16 lba AND 0xFF)
     OR push_bit 8 (drop_bit 8 lba AND 0xFF) OR (lba AND 0xFF)"

definition ata_read_sector :: "u32 \<Rightarrow> 'a disk_state_scheme \<Rightarrow> u8 list" where
  "ata_read_sector lba s = sectors s (ata_address lba)"

definition ata_write_sector :: "u32 \<Rightarrow> u8 list \<Rightarrow> 'a disk_state_scheme \<Rightarrow> 'a disk_state_scheme" where
  "ata_write_sector lba buff s = s\<lparr>sectors := (sectors s)(ata_address lba := buff)\<rparr>"

definition ata_get_total_sectors :: "'a disk_state_scheme \<Rightarrow> u32" where
  "ata_get_total_sectors s = drive_size s"

section \<open>Bytes\<close>

text \<open>How much one turn of the loops transfers.\<close>

definition turn_bytes :: "u32 \<Rightarrow> u32 \<Rightarrow> u32 \<Rightarrow> u32" where
  "turn_bytes offset sz n =
     (let m = SECTOR_SIZE - (offset + n) mod SECTOR_SIZE in if m > sz - n then sz - n else m)"

lemma turn_bytes_bounds:
  assumes "n < sz"
  shows "0 < unat (turn_bytes offset sz n)" "unat (turn_bytes offset sz n) \<le> unat sz - unat n"
    "unat (turn_bytes offset sz n) \<le> 512 - unat ((offset + n) mod SECTOR_SIZE)"
    "unat (n + turn_bytes offset sz n) = unat n + unat (turn_bytes offset sz n)"
proof -
  have lt: "unat ((offset + n) mod SECTOR_SIZE) < 512" by (simp add: SECTOR_SIZE_def unat_mod)
  have d: "unat (sz - n) = unat sz - unat n" using assms by (simp add: word_nat)
  have m: "unat (SECTOR_SIZE - (offset + n) mod SECTOR_SIZE) = 512 - unat ((offset + n) mod SECTOR_SIZE)"
    using lt by (simp add: unat_sub_le SECTOR_SIZE_def)
  show g: "0 < unat (turn_bytes offset sz n)" and le: "unat (turn_bytes offset sz n) \<le> unat sz - unat n"
    and "unat (turn_bytes offset sz n) \<le> 512 - unat ((offset + n) mod SECTOR_SIZE)"
    using assms lt by (auto simp: turn_bytes_def Let_def d m word_less_nat_alt)
  show "unat (n + turn_bytes offset sz n) = unat n + unat (turn_bytes offset sz n)"
    using le assms unat_lt_2p32 [of sz] by (intro unat_add_no_wrap) (simp add: word_less_nat_alt)
qed

lemma turn_progress:
  "n < sz \<Longrightarrow> unat sz - unat (n + turn_bytes offset sz n) < unat sz - unat n"
proof -
  assume less: "n < sz"
  from less have "unat n < unat sz" by (simp add: word_less_nat_alt)
  with turn_bytes_bounds(1,4) [OF less, of offset] show ?thesis by linarith
qed

function ata_read_loop :: "u32 \<Rightarrow> u32 \<Rightarrow> u32 \<Rightarrow> u8 list \<Rightarrow> 'a disk_state_scheme \<Rightarrow> u8 list" where
  "ata_read_loop offset sz bytes_read out s =
     (if bytes_read < sz
      then let current_offset = offset + bytes_read;
               n = turn_bytes offset sz bytes_read
           in ata_read_loop offset sz (bytes_read + n)
                (out @ take (unat n) (drop (unat (current_offset mod SECTOR_SIZE))
                   (ata_read_sector (current_offset div SECTOR_SIZE) s))) s
      else out)"
  by pat_completeness auto
termination
  by (relation "measure (\<lambda>(offset, sz, n, out, s). unat sz - unat n)")
    (auto simp: turn_progress)

function ata_write_loop :: "u32 \<Rightarrow> u32 \<Rightarrow> u32 \<Rightarrow> u8 list \<Rightarrow> 'a disk_state_scheme \<Rightarrow> 'a disk_state_scheme" where
  "ata_write_loop offset sz bytes_written buff s =
     (if bytes_written < sz
      then let current_offset = offset + bytes_written;
               n = turn_bytes offset sz bytes_written;
               lba = current_offset div SECTOR_SIZE;
               at = unat (current_offset mod SECTOR_SIZE);
               data = take (unat n) (drop (unat bytes_written) buff);
               old = ata_read_sector lba s;
               sector = (if n < SECTOR_SIZE then take at old @ data @ drop (at + unat n) old else data)
           in ata_write_loop offset sz (bytes_written + n) buff (ata_write_sector lba sector s)
      else s)"
  by pat_completeness auto
termination
  by (relation "measure (\<lambda>(offset, sz, n, out, s). unat sz - unat n)")
    (auto simp: turn_progress)

declare ata_read_loop.simps [simp del] ata_write_loop.simps [simp del]

text \<open>The bytes \<open>ata_vfs_read\<close> stores in the buffer, and the result and the state after \<open>ata_vfs_write\<close>.\<close>

definition ata_vfs_read :: "bool \<Rightarrow> u32 \<Rightarrow> u32 \<Rightarrow> 'a disk_state_scheme \<Rightarrow> u8 list" where
  "ata_vfs_read buffer_null offset sz s = (if buffer_null \<or> sz = 0 then [] else ata_read_loop offset sz 0 [] s)"

definition ata_vfs_write ::
  "u32 \<Rightarrow> u32 \<Rightarrow> u8 list option \<Rightarrow> 'a disk_state_scheme \<Rightarrow> u32 \<times> 'a disk_state_scheme"
where
  "ata_vfs_write offset sz buff s =
     (case buff of
        None \<Rightarrow> (0, s)
      | Some b \<Rightarrow> if sz = 0 then (0, s) else (sz, ata_write_loop offset sz 0 b s))"

definition block_device_initialize :: "'a disk_state_scheme \<Rightarrow> 'a disk_state_scheme option" where
  "block_device_initialize s =
     do {
       (p, s1) \<leftarrow> kmem_zalloc SIZEOF_NODE s;
       if p = 0 then None
       else devfs_register_node p (set_node p
         (zero_node\<lparr>nd_name := bytes ''hda'' @ replicate 253 0, nd_type := VFS_DEVICE,
           nd_length := ata_get_total_sectors s1 * SECTOR_SIZE, nd_log_use := False,
           nd_read := Fn_ata_read, nd_write := Fn_ata_write, nd_uid := 0, nd_gid := 0, nd_mode := 0x180,
           nd_persistent := True, nd_ref_count := 1\<rparr>) s1)
     }"

section \<open>Sectors\<close>

text \<open>\<open>kdisk_read_sector\<close> and \<open>kdisk_write_sector\<close>: a call of \<open>vfs_read\<close> or \<open>vfs_write\<close> on the node \<open>hda\<close>,
  whose functions are the two above.\<close>

definition kdisk_read_sector :: "u32 \<Rightarrow> 'a disk_state_scheme \<Rightarrow> u8 list" where
  "kdisk_read_sector lba s = ata_vfs_read False (lba * 512) 512 s"

definition kdisk_write_sector :: "u32 \<Rightarrow> u8 list option \<Rightarrow> 'a disk_state_scheme \<Rightarrow> 'a disk_state_scheme" where
  "kdisk_write_sector lba buff s = snd (ata_vfs_write (lba * 512) 512 buff s)"

section \<open>The disk as an array of bytes\<close>

definition disk_ok :: "'a disk_state_scheme \<Rightarrow> bool" where
  "disk_ok s \<longleftrightarrow> (\<forall>lba. length (sectors s lba) = 512)"

definition disk_byte :: "'a disk_state_scheme \<Rightarrow> nat \<Rightarrow> u8" where
  "disk_byte s a = sectors s (of_nat (a div 512)) ! (a mod 512)"

lemma ata_address_mask: "ata_address lba = lba AND 0x0FFFFFFF"
proof -
  have m: "(0x0F :: u32) = mask 4" "(0xFF :: u32) = mask 8" "(0x0FFFFFFF :: u32) = mask 28"
    by (simp_all add: mask_eq_exp_minus_1)
  show ?thesis unfolding ata_address_def m
  proof (rule bit_word_eqI)
    fix n :: nat
    consider "n < 8" | "8 \<le> n" "n < 16" | "16 \<le> n" "n < 24" | "24 \<le> n" by linarith
    then show "bit (push_bit 24 (drop_bit 24 lba AND mask 4) OR push_bit 16 (drop_bit 16 lba AND mask 8)
        OR push_bit 8 (drop_bit 8 lba AND mask 8) OR (lba AND mask 8)) n \<longleftrightarrow> bit (lba AND mask 28) n"
      by cases (auto simp: bit_simps dest: bit_imp_le_length)
  qed
qed

lemma ata_address_small: "unat lba < 2 ^ 28 \<Longrightarrow> ata_address lba = lba"
proof -
  assume "unat lba < 2 ^ 28"
  then have "take_bit 28 lba = lba"
    by (simp only: word_unat_eq_iff unsigned_take_bit_eq take_bit_nat_eq_self)
  moreover have "(0x0FFFFFFF :: u32) = mask 28" by (simp add: mask_eq_exp_minus_1)
  ultimately show ?thesis by (simp only: ata_address_mask take_bit_eq_mask)
qed

lemma address_sector:
  fixes c :: u32
  shows "ata_address (c div SECTOR_SIZE) = of_nat (unat c div 512)" "unat (c mod SECTOR_SIZE) = unat c mod 512"
proof -
  have u: "unat (c div SECTOR_SIZE) = unat c div 512" by (simp add: SECTOR_SIZE_def unat_div)
  then have "unat (c div SECTOR_SIZE) < 2 ^ 28" using unat_lt_2p32 [of c] by simp
  moreover have "c div SECTOR_SIZE = of_nat (unat c div 512)" by (simp add: word_unat_eq_iff u [symmetric])
  ultimately show "ata_address (c div SECTOR_SIZE) = of_nat (unat c div 512)" by (simp add: ata_address_small)
  show "unat (c mod SECTOR_SIZE) = unat c mod 512" by (simp add: SECTOR_SIZE_def unat_mod)
qed

lemma sector_bytes:
  assumes "disk_ok s" "k \<le> 512 - a mod 512"
  shows "take k (drop (a mod 512) (sectors s (of_nat (a div 512)))) = map (disk_byte s) [a..<a + k]"
proof (rule nth_equalityI)
  have len: "length (sectors s (of_nat (a div 512))) = 512" using assms by (simp add: disk_ok_def)
  then show "length (take k (drop (a mod 512) (sectors s (of_nat (a div 512))))) = length (map (disk_byte s) [a..<a + k])"
    using assms(2) by simp
  fix i assume "i < length (take k (drop (a mod 512) (sectors s (of_nat (a div 512)))))"
  then have i: "i < k" "a mod 512 + i < 512" using len assms(2) by simp_all
  have "a + i = (a mod 512 + i) + 512 * (a div 512)" by simp
  then have "(a + i) div 512 = a div 512" "(a + i) mod 512 = a mod 512 + i"
    using i(2) by (simp_all only: div_mult_self2 mod_mult_self2) simp_all
  then show "take k (drop (a mod 512) (sectors s (of_nat (a div 512)))) ! i = map (disk_byte s) [a..<a + k] ! i"
    using i len by (simp add: disk_byte_def)
qed

lemma ata_read_loop_bytes:
  assumes "disk_ok s" "unat offset + unat sz \<le> 2 ^ 32" "n \<le> sz"
  shows "ata_read_loop offset sz n out s = out @ map (disk_byte s) [unat offset + unat n..<unat offset + unat sz]"
  using assms(3)
proof (induction "unat sz - unat n" arbitrary: n out rule: less_induct)
  case less
  show ?case
  proof (cases "n < sz")
    case True
    let ?k = "turn_bytes offset sz n" and ?c = "offset + n"
    note b = turn_bytes_bounds [OF True, of offset]
    have c: "unat ?c = unat offset + unat n"
      using True assms(2) by (intro unat_add_no_wrap) (simp add: word_less_nat_alt)
    have k: "unat ?k \<le> 512 - unat ?c mod 512" using b(3) by (simp add: address_sector)
    have "ata_read_loop offset sz n out s =
        ata_read_loop offset sz (n + ?k) (out @ map (disk_byte s) [unat ?c..<unat ?c + unat ?k]) s"
      by (subst ata_read_loop.simps)
        (simp add: True Let_def ata_read_sector_def address_sector sector_bytes [OF assms(1) k])
    also have "\<dots> = (out @ map (disk_byte s) [unat ?c..<unat ?c + unat ?k]) @
        map (disk_byte s) [unat offset + unat (n + ?k)..<unat offset + unat sz]"
      by (rule less(1)) (use turn_progress [OF True, of offset] b(2,4) less(2) in \<open>simp_all add: word_le_nat_alt\<close>)
    also have "\<dots> = out @ map (disk_byte s) ([unat ?c..<unat ?c + unat ?k] @ [unat ?c + unat ?k..<unat offset + unat sz])"
      using b(4) c by (simp add: add.assoc)
    also have "[unat ?c..<unat ?c + unat ?k] @ [unat ?c + unat ?k..<unat offset + unat sz] =
        [unat offset + unat n..<unat offset + unat sz]"
    proof -
      have "unat ?c + unat ?k + (unat sz - unat n - unat ?k) = unat offset + unat sz" using b(2) c True
        by (simp add: word_less_nat_alt)
      with upt_add_eq_append [of "unat ?c" "unat ?c + unat ?k" "unat sz - unat n - unat ?k"]
      show ?thesis by (simp only: c le_add1)
    qed
    finally show ?thesis .
  next
    case False
    then show ?thesis using less(2) by (subst ata_read_loop.simps) simp
  qed
qed

text \<open>A turn of the write loop replaces \<open>k\<close> bytes from byte \<open>c\<close> on, all in one sector.\<close>

definition put_bytes :: "nat \<Rightarrow> u8 list \<Rightarrow> 'a disk_state_scheme \<Rightarrow> 'a disk_state_scheme" where
  "put_bytes c data s =
     (let old = sectors s (of_nat (c div 512)); at = c mod 512
      in s\<lparr>sectors := (sectors s)
           (of_nat (c div 512) := take at old @ data @ drop (at + length data) old)\<rparr>)"

lemma put_bytes_disk:
  assumes "disk_ok s" "length data \<le> 512 - c mod 512" "c < 2 ^ 32"
  shows "disk_ok (put_bytes c data s)"
    and "a < 2 ^ 32 \<Longrightarrow> disk_byte (put_bytes c data s) a =
      (if c \<le> a \<and> a < c + length data then data ! (a - c) else disk_byte s a)"
proof -
  let ?old = "sectors s (of_nat (c div 512))" and ?at = "c mod 512"
  have old: "length ?old = 512" using assms(1) by (simp add: disk_ok_def)
  have lt: "?at < 512" by simp
  then show "disk_ok (put_bytes c data s)"
    using assms(1,2) old by (simp add: put_bytes_def disk_ok_def Let_def)
  assume a: "a < 2 ^ 32"
  have sec: "(of_nat (a div 512) :: u32) = of_nat (c div 512) \<longleftrightarrow> a div 512 = c div 512"
  proof -
    have "a div 512 < 2 ^ 32" "c div 512 < 2 ^ 32" using a assms(3) by simp_all
    then have "unat (of_nat (a div 512) :: u32) = a div 512" "unat (of_nat (c div 512) :: u32) = c div 512"
      by (simp_all add: unat_of_nat_small)
    then show ?thesis by (metis (no_types))
  qed
  show "disk_byte (put_bytes c data s) a =
      (if c \<le> a \<and> a < c + length data then data ! (a - c) else disk_byte s a)"
  proof (cases "a div 512 = c div 512")
    case True
    have a': "a = 512 * (c div 512) + a mod 512" by (simp add: True [symmetric])
    have c': "c = 512 * (c div 512) + ?at" by simp
    have range: "c \<le> a \<and> a < c + length data \<longleftrightarrow> ?at \<le> a mod 512 \<and> a mod 512 < ?at + length data"
      using a' c' by linarith
    have diff: "a - c = a mod 512 - ?at" using a' c' by linarith
    have new: "disk_byte (put_bytes c data s) a =
        (take ?at ?old @ data @ drop (?at + length data) ?old) ! (a mod 512)"
      by (simp add: disk_byte_def put_bytes_def Let_def sec True)
    have "disk_byte s a = ?old ! (a mod 512)" by (simp add: disk_byte_def True)
    then show ?thesis unfolding new range diff using old assms(2) lt
      by (auto simp: nth_append not_less)
  next
    case False
    have "\<not> (c \<le> a \<and> a < c + length data)"
    proof
      assume "c \<le> a \<and> a < c + length data"
      moreover have "c + length data \<le> 512 * (c div 512) + 512"
      proof -
        have "c = 512 * (c div 512) + ?at" by simp
        with assms(2) lt show ?thesis by linarith
      qed
      moreover have "512 * (c div 512) \<le> c" by (rule times_div_less_eq_dividend)
      ultimately have lo: "512 * (c div 512) \<le> a" and hi: "a < 512 * Suc (c div 512)"
        by (simp_all only: mult_Suc_right) linarith+
      then have "a div 512 = c div 512" by (intro div_nat_eqI)
      with False show False ..
    qed
    then show ?thesis using False by (simp only: disk_byte_def put_bytes_def Let_def sec) (simp add: sec)
  qed
qed

lemma ata_write_turn:
  assumes "disk_ok s" "n < sz" "unat offset + unat sz \<le> 2 ^ 32" "unat sz \<le> length b"
  shows "ata_write_loop offset sz n b s =
    ata_write_loop offset sz (n + turn_bytes offset sz n) b
      (put_bytes (unat offset + unat n) (take (unat (turn_bytes offset sz n)) (drop (unat n) b)) s)"
proof -
  let ?k = "turn_bytes offset sz n" and ?c = "offset + n"
  let ?data = "take (unat ?k) (drop (unat n) b)" and ?old = "sectors s (of_nat (unat ?c div 512))"
  note t = turn_bytes_bounds [OF assms(2), of offset]
  have c: "unat ?c = unat offset + unat n"
    using assms(2,3) by (intro unat_add_no_wrap) (simp add: word_less_nat_alt)
  have k: "unat ?k \<le> 512 - unat ?c mod 512" using t(3) by (simp add: address_sector)
  have len: "length ?data = unat ?k" using t(2) assms(2,4) by (simp add: word_less_nat_alt)
  have old: "length ?old = 512" using assms(1) by (simp add: disk_ok_def)
  have full: "?data = take (unat ?c mod 512) ?old @ ?data @ drop (unat ?c mod 512 + unat ?k) ?old"
    if "\<not> ?k < SECTOR_SIZE"
  proof -
    have "512 \<le> unat ?k" using that by (simp add: SECTOR_SIZE_def word_less_nat_alt)
    then have "unat ?c mod 512 = 0" using k by linarith
    then show ?thesis using \<open>512 \<le> unat ?k\<close> old by simp
  qed
  have sec: "(if ?k < SECTOR_SIZE then take (unat ?c mod 512) ?old @ ?data @ drop (unat ?c mod 512 + unat ?k) ?old else ?data) =
      take (unat ?c mod 512) ?old @ ?data @ drop (unat ?c mod 512 + unat ?k) ?old"
  proof (cases "?k < SECTOR_SIZE")
    case False
    then show ?thesis by (simp only: if_False) (rule full)
  qed simp
  have "ata_write_loop offset sz n b s = ata_write_loop offset sz (n + ?k) b (put_bytes (unat ?c) ?data s)"
    by (subst ata_write_loop.simps)
      (simp only: assms(2) if_True Let_def ata_read_sector_def ata_write_sector_def address_sector
        put_bytes_def len sec)
  then show ?thesis by (simp only: c)
qed

lemma ata_write_loop_bytes:
  assumes "disk_ok s" "n \<le> sz" "unat offset + unat sz \<le> 2 ^ 32" "unat sz \<le> length b"
  shows "disk_ok (ata_write_loop offset sz n b s) \<and>
    (\<forall>a < 2 ^ 32. disk_byte (ata_write_loop offset sz n b s) a =
      (if unat offset + unat n \<le> a \<and> a < unat offset + unat sz then b ! (a - unat offset) else disk_byte s a))"
  using assms(1,2)
proof (induction "unat sz - unat n" arbitrary: n s rule: less_induct)
  case less
  show ?case
  proof (cases "n < sz")
    case True
    let ?k = "turn_bytes offset sz n" and ?c = "unat offset + unat n"
    let ?data = "take (unat ?k) (drop (unat n) b)"
    define s1 where "s1 = put_bytes ?c ?data s"
    note t = turn_bytes_bounds [OF True, of offset]
    have c: "unat (offset + n) = ?c"
      using True assms(3) by (intro unat_add_no_wrap) (simp add: word_less_nat_alt)
    have "?c < 2 ^ 32" using c unat_lt_2p32 [of "offset + n"] by simp
    moreover have len: "length ?data = unat ?k" using t(2) True assms(4) by (simp add: word_less_nat_alt)
    moreover have "unat ?k \<le> 512 - ?c mod 512" using t(3) by (simp add: address_sector c)
    ultimately have s1: "disk_ok s1" and b1: "\<And>a. a < 2 ^ 32 \<Longrightarrow> disk_byte s1 a =
        (if ?c \<le> a \<and> a < ?c + unat ?k then ?data ! (a - ?c) else disk_byte s a)"
      using put_bytes_disk [OF less(2), of ?data ?c] by (simp_all add: s1_def)
    have step: "ata_write_loop offset sz n b s = ata_write_loop offset sz (n + ?k) b s1"
      unfolding s1_def by (rule ata_write_turn [OF less(2) True assms(3,4)])
    have "n + ?k \<le> sz" using t(2,4) True by (simp add: word_le_nat_alt word_less_nat_alt)
    note IH = less(1) [OF turn_progress [OF True, of offset] s1 this]
    have idx: "?data ! (a - ?c) = b ! (a - unat offset)" if "?c \<le> a" "a < ?c + unat ?k" for a
      using that len by (simp add: word_less_nat_alt)
    have bound: "unat n + unat ?k \<le> unat sz" using t(2) True by (simp add: word_less_nat_alt)
    show ?thesis unfolding step using IH bound by (auto simp: t(4) b1 idx)
  next
    case False
    then have "n = sz" using less(3) by simp
    then have "ata_write_loop offset sz n b s = s" by (subst ata_write_loop.simps) simp
    then show ?thesis using less(2) \<open>n = sz\<close> by auto
  qed
qed

text \<open>C24: Through the byte interface the disk is an array of bytes: as long as the range ends below
  4 GiB, a write replaces exactly the bytes of its range, and reading the range
  gives what was written.\<close>

theorem ata_vfs_write_read:
  assumes "disk_ok s" "unat offset + unat sz \<le> 2 ^ 32" "unat sz \<le> length b"
    "ata_vfs_write offset sz (Some b) s = (n, s')"
  shows "n = sz \<and> disk_ok s' \<and> ata_vfs_read False offset sz s' = take (unat sz) b \<and>
    (\<forall>a < 2 ^ 32. \<not> (unat offset \<le> a \<and> a < unat offset + unat sz) \<longrightarrow> disk_byte s' a = disk_byte s a)"
proof (cases "sz = 0")
  case False
  then have s': "s' = ata_write_loop offset sz 0 b s" and n: "n = sz"
    using assms(4) by (auto simp: ata_vfs_write_def)
  have w: "disk_ok s'" "\<And>a. a < 2 ^ 32 \<Longrightarrow> disk_byte s' a =
      (if unat offset \<le> a \<and> a < unat offset + unat sz then b ! (a - unat offset) else disk_byte s a)"
    using ata_write_loop_bytes [OF assms(1) _ assms(2,3), of 0] by (auto simp: s')
  have "ata_vfs_read False offset sz s' = map (disk_byte s') [unat offset..<unat offset + unat sz]"
    using ata_read_loop_bytes [OF w(1) assms(2), of 0] False by (simp add: ata_vfs_read_def)
  also have "\<dots> = take (unat sz) b"
    using assms(2,3) by (intro nth_equalityI) (simp_all add: w(2))
  finally show ?thesis using w n by auto
qed (use assms in \<open>simp add: ata_vfs_write_def ata_vfs_read_def\<close>)

text \<open>The sector the byte address of sector \<open>lba\<close> is in: the product wraps at 4 GiB.\<close>

definition wrapped_sector :: "u32 \<Rightarrow> u32" where
  "wrapped_sector lba = of_nat (unat lba mod 2 ^ 23)"

lemma wrapped_sector_small: "unat lba < 2 ^ 23 \<Longrightarrow> wrapped_sector lba = lba"
  by (simp add: wrapped_sector_def)

lemma unat_sector_byte: "unat (lba * 512 :: u32) = 512 * (unat lba mod 2 ^ 23)"
proof -
  have "unat (lba * 512 :: u32) = unat lba * 512 mod (2 ^ 23 * 512)"
    by (simp add: unat_word_ariths)
  also have "\<dots> = (unat lba mod 2 ^ 23) * 512" by (rule mod_mult_mult2)
  finally show ?thesis by simp
qed

lemma sector_turn:
  "turn_bytes (lba * 512) 512 0 = 512" "unat (lba * 512 :: u32) div 512 = unat lba mod 2 ^ 23"
  "unat (lba * 512 :: u32) mod 512 = 0"
proof -
  show d: "unat (lba * 512 :: u32) div 512 = unat lba mod 2 ^ 23" "unat (lba * 512 :: u32) mod 512 = 0"
    unfolding unat_sector_byte by simp_all
  have "(lba * 512) mod SECTOR_SIZE = 0"
    using address_sector(2) [of "lba * 512"] d(2) by (metis unat_eq_zero)
  then show "turn_bytes (lba * 512) 512 0 = 512" by (simp add: turn_bytes_def SECTOR_SIZE_def)
qed

lemma kdisk_read_sector_eq:
  assumes "disk_ok s"
  shows "kdisk_read_sector lba s = sectors s (wrapped_sector lba)"
proof -
  have a: "ata_address (lba * 512 div SECTOR_SIZE) = wrapped_sector lba" "unat (lba * 512 mod SECTOR_SIZE) = 0"
    using address_sector [of "lba * 512"] sector_turn(2,3) [of lba] by (simp_all add: wrapped_sector_def)
  have len: "length (sectors s (wrapped_sector lba)) = 512" using assms by (simp add: disk_ok_def)
  have "ata_read_loop (lba * 512) 512 0 [] s =
      ata_read_loop (lba * 512) 512 (0 + 512) ([] @ take (unat (512 :: u32)) (drop 0 (sectors s (wrapped_sector lba)))) s"
    by (subst ata_read_loop.simps) (simp add: Let_def sector_turn(1) ata_read_sector_def a)
  also have "\<dots> = sectors s (wrapped_sector lba)" by (subst ata_read_loop.simps) (simp add: len)
  finally show ?thesis by (simp add: kdisk_read_sector_def ata_vfs_read_def)
qed

lemma kdisk_write_sector_eq:
  assumes "length b = 512"
  shows "kdisk_write_sector lba (Some b) s = s\<lparr>sectors := (sectors s)(wrapped_sector lba := b)\<rparr>"
proof -
  have a: "ata_address (lba * 512 div SECTOR_SIZE) = wrapped_sector lba" "unat (lba * 512 mod SECTOR_SIZE) = 0"
    using address_sector [of "lba * 512"] sector_turn(2,3) [of lba] by (simp_all add: wrapped_sector_def)
  have whole: "\<not> 512 < SECTOR_SIZE" by (simp add: SECTOR_SIZE_def)
  have "ata_write_loop (lba * 512) 512 0 b s =
      ata_write_loop (lba * 512) 512 (0 + 512) b (s\<lparr>sectors := (sectors s)(wrapped_sector lba := take (unat (512 :: u32)) b)\<rparr>)"
    by (subst ata_write_loop.simps)
      (simp add: Let_def sector_turn(1) ata_write_sector_def a whole)
  also have "\<dots> = s\<lparr>sectors := (sectors s)(wrapped_sector lba := b)\<rparr>"
    by (subst ata_write_loop.simps) (simp add: assms)
  finally show ?thesis by (simp add: kdisk_write_sector_def ata_vfs_write_def)
qed

lemma kdisk_write_sector_null [simp]: "kdisk_write_sector lba None s = s"
  by (simp add: kdisk_write_sector_def ata_vfs_write_def)

lemma ata_write_loop_only: "\<exists>f. ata_write_loop offset sz n b s = s\<lparr>sectors := f\<rparr>"
proof (induction offset sz n b s rule: ata_write_loop.induct)
  case (1 offset sz n b s)
  show ?case
  proof (cases "n < sz")
    case True
    define m where "m = turn_bytes offset sz n"
    obtain lba sector where e: "ata_write_loop offset sz n b s = ata_write_loop offset sz (n + m) b (ata_write_sector lba sector s)"
      and IH: "\<exists>f. ata_write_loop offset sz (n + m) b (ata_write_sector lba sector s) = (ata_write_sector lba sector s)\<lparr>sectors := f\<rparr>"
      using 1 [OF True refl refl refl refl refl refl refl] True
      unfolding m_def by (subst (asm) (1) ata_write_loop.simps) (metis ata_write_loop.simps)
    then show ?thesis by (auto simp: ata_write_sector_def)
  next
    case False
    then have "ata_write_loop offset sz n b s = s\<lparr>sectors := sectors s\<rparr>" by (subst ata_write_loop.simps) simp
    then show ?thesis by blast
  qed
qed

lemma kdisk_write_sector_only: "\<exists>f. kdisk_write_sector lba b s = s\<lparr>sectors := f\<rparr>"
proof (cases b)
  case None
  then have "kdisk_write_sector lba b s = s\<lparr>sectors := sectors s\<rparr>" by simp
  then show ?thesis by blast
next
  case (Some buf)
  then show ?thesis using ata_write_loop_only by (simp add: kdisk_write_sector_def ata_vfs_write_def)
qed

lemma disk_ok_write:
  "disk_ok s \<Longrightarrow> length b = 512 \<Longrightarrow> disk_ok (kdisk_write_sector lba (Some b) s)"
  by (simp add: kdisk_write_sector_eq disk_ok_def)

text \<open>Two sectors 4 GiB apart are one.\<close>

lemma kdisk_wraps:
  assumes "disk_ok s" "length b = 512"
  shows "kdisk_read_sector lba (kdisk_write_sector (lba + 2 ^ 23) (Some b) s) = b"
proof -
  have "unat (lba + 2 ^ 23 :: u32) mod 2 ^ 23 = unat lba mod 2 ^ 23"
  proof -
    have "unat (lba + 2 ^ 23 :: u32) = (unat lba + 2 ^ 23) mod (2 ^ 9 * 2 ^ 23)" by (simp add: unat_word_ariths)
    then show ?thesis by (simp only: mod_mult_self2_is_0 mod_mod_cancel dvd_triv_right mod_add_self2)
  qed
  then have "wrapped_sector (lba + 2 ^ 23) = wrapped_sector lba" by (simp add: wrapped_sector_def)
  then show ?thesis using assms
    by (simp add: kdisk_read_sector_eq [OF disk_ok_write [OF assms]]) (simp add: kdisk_write_sector_eq)
qed

section \<open>A disk\<close>

definition blank_disk :: disk_state where
  "blank_disk = kbd_state.extend sample_kbd
     \<lparr>sectors = (\<lambda>lba. replicate 512 0), drive_size = 0x20000\<rparr>"

lemma blank_disk_ok: "disk_ok blank_disk"
  by (simp add: disk_ok_def blank_disk_def kbd_state.extend_def)

theorem ata_vfs_write_read_witness:
  "ata_vfs_read False 510 4 (snd (ata_vfs_write 510 4 (Some [1, 2, 3, 4]) blank_disk)) = [1, 2, 3, 4]"
proof -
  obtain n s' where w: "ata_vfs_write 510 4 (Some [1, 2, 3, 4]) blank_disk = (n, s')" by (metis surj_pair)
  show ?thesis using ata_vfs_write_read [OF blank_disk_ok _ _ w] by (simp add: w)
qed

end
