(* ===== verification/Fat16_Names.thy ===== *)
theory Fat16_Names
  imports Cstring
begin

text \<open>
  The names of \<open>fs/fat_16/fat16.c\<close>: the 11 bytes of a short name, the checksum that ties a
  long name to it, and the long-name entries. A directory entry is the list of its 32
  bytes, which the C structures \<open>fat16_dir_entry_t\<close> and \<open>fat16_lfn_entry_t\<close> both overlay.
  The last section shows that a long name survives being cut into entries and read back.
\<close>

section \<open>Bytes of a structure\<close>

definition le16 :: "u8 list \<Rightarrow> nat \<Rightarrow> u16" where
  "le16 b i = ucast (b ! i) OR push_bit 8 (ucast (b ! (i + 1)))"

definition le32 :: "u8 list \<Rightarrow> nat \<Rightarrow> u32" where
  "le32 b i = ucast (b ! i) OR push_bit 8 (ucast (b ! (i + 1))) OR push_bit 16 (ucast (b ! (i + 2)))
     OR push_bit 24 (ucast (b ! (i + 3)))"

definition bytes16 :: "u16 \<Rightarrow> u8 list" where
  "bytes16 v = [ucast v, ucast (drop_bit 8 v)]"

definition bytes32 :: "u32 \<Rightarrow> u8 list" where
  "bytes32 v = [ucast v, ucast (drop_bit 8 v), ucast (drop_bit 16 v), ucast (drop_bit 24 v)]"

text \<open>The fields of a directory entry.\<close>

definition e_filename :: "u8 list \<Rightarrow> u8 list" where "e_filename e = take 11 e"
definition e_attributes :: "u8 list \<Rightarrow> u8" where "e_attributes e = e ! 11"
definition e_cluster_low :: "u8 list \<Rightarrow> u16" where "e_cluster_low e = le16 e 26"
definition e_file_size :: "u8 list \<Rightarrow> u32" where "e_file_size e = le32 e 28"
definition lfn_order :: "u8 list \<Rightarrow> u8" where "lfn_order e = e ! 0"
definition lfn_check :: "u8 list \<Rightarrow> u8" where "lfn_check e = e ! 13"

definition lfn_chars :: "u8 list \<Rightarrow> u16 list" where
  "lfn_chars e = map (le16 e) ([1, 3, 5, 7, 9] @ [14, 16, 18, 20, 22, 24] @ [28, 30])"

section \<open>Names\<close>

fun fat16_strcasecmp :: "cstr \<Rightarrow> cstr \<Rightarrow> int" where
  "fat16_strcasecmp [] t = 0 - sint (deref t)"
| "fat16_strcasecmp (c # cs) t =
     (if c \<noteq> 0 \<and> deref t \<noteq> 0
      then let c1 = to_lower c; c2 = to_lower (deref t)
           in if c1 \<noteq> c2 then sint c1 - sint c2 else fat16_strcasecmp cs (tl t)
      else sint c - sint (deref t))"

definition to_upper :: "u8 \<Rightarrow> u8" where
  "to_upper c = (if 97 \<le> c \<and> c \<le> 122 then c - 32 else c)"

text \<open>The loops of \<open>format_filename_to_fat\<close>: what they store and where they stop.\<close>

fun fat_base :: "cstr \<Rightarrow> nat \<Rightarrow> u8 list \<times> cstr" where
  "fat_base [] j = ([], [])"
| "fat_base (c # cs) j =
     (if c \<noteq> 0 \<and> c \<noteq> 46 \<and> j < 8 then (case fat_base cs (Suc j) of (out, r) \<Rightarrow> (to_upper c # out, r))
      else ([], c # cs))"

fun skip_to_dot :: "cstr \<Rightarrow> cstr" where
  "skip_to_dot [] = []"
| "skip_to_dot (c # cs) = (if c \<noteq> 0 \<and> c \<noteq> 46 then skip_to_dot cs else c # cs)"

fun fat_ext :: "cstr \<Rightarrow> nat \<Rightarrow> u8 list" where
  "fat_ext [] j = []"
| "fat_ext (c # cs) j = (if c \<noteq> 0 \<and> j < 11 then to_upper c # fat_ext cs (Suc j) else [])"

text \<open>What \<open>memset(output, ' ', 11)\<close> left after the bytes stored.\<close>

definition pad :: "nat \<Rightarrow> u8 list \<Rightarrow> u8 list" where
  "pad n xs = xs @ replicate (n - length xs) 32"

definition format_filename_to_fat :: "cstr option \<Rightarrow> u8 list" where
  "format_filename_to_fat input =
     (case input of
        None \<Rightarrow> replicate 11 32
      | Some s \<Rightarrow>
          if strcmp s [46] = 0 then 46 # replicate 10 32
          else if strcmp s [46, 46] = 0 then [46, 46] @ replicate 9 32
          else (case fat_base s 0 of (base, r) \<Rightarrow>
            let r = skip_to_dot r;
                r = (if deref r = 46 then tl r else r)
            in pad 8 base @ pad 3 (fat_ext r 8)))"

definition checksum_step :: "u8 \<Rightarrow> u8 \<Rightarrow> u8" where
  "checksum_step b acc = (if acc AND 1 \<noteq> 0 then 0x80 else 0) + drop_bit 1 acc + b"

definition lfn_checksum :: "u8 list \<Rightarrow> u8" where
  "lfn_checksum short_name = fold checksum_step (take 11 short_name) 0"

fun skip_lead :: "cstr \<Rightarrow> cstr" where
  "skip_lead [] = []"
| "skip_lead (c # cs) = (if c = 46 \<or> c = 32 then skip_lead cs else c # cs)"

fun short_base :: "cstr \<Rightarrow> nat \<Rightarrow> u8 list" where
  "short_base [] j = []"
| "short_base (c # cs) j =
     (if c \<noteq> 0 \<and> c \<noteq> 46 \<and> j < 6
      then let c' = to_upper c
           in if c' \<in> {32, 43, 44, 59, 61, 91, 93} then short_base cs j else c' # short_base cs (Suc j)
      else [])"

text \<open>\<open>%\<close> of C, which takes the sign of the dividend.\<close>

definition c_rem :: "int \<Rightarrow> int \<Rightarrow> int" where
  "c_rem a b = sgn a * (\<bar>a\<bar> mod b)"

definition generate_short_name :: "cstr \<Rightarrow> u8 list" where
  "generate_short_name long_name =
     (let base = short_base (skip_lead long_name) 0;
          hash = sum_list (map sint (content long_name));
          name = base @ [126, of_int (49 + c_rem hash 9)];
          ext = (case strrchr long_name 46 of
                   None \<Rightarrow> []
                 | Some e \<Rightarrow> if length e = length long_name then [] else fat_ext (tl e) 8)
      in pad 8 name @ pad 3 ext)"

section \<open>Long names\<close>

fun extract_loop :: "u16 list \<Rightarrow> nat \<Rightarrow> u8 list \<Rightarrow> u8 list option" where
  "extract_loop [] idx lfn_buf = Some lfn_buf"
| "extract_loop (c # cs) idx lfn_buf =
     (if c = 0 \<or> c = 0xFFFF then put lfn_buf idx 0
      else Option.bind (put lfn_buf idx (ucast (c AND 0xFF))) (extract_loop cs (Suc idx)))"

definition extract_lfn_chars :: "u8 list \<Rightarrow> u8 list \<Rightarrow> u8 list option" where
  "extract_lfn_chars lfn lfn_buf =
     (if lfn_order lfn AND 0x1F = 0 then Some lfn_buf
      else extract_loop (lfn_chars lfn) ((unat (lfn_order lfn AND 0x1F) - 1) * 13) lfn_buf)"

definition lfn_char :: "cstr \<Rightarrow> nat \<Rightarrow> nat \<Rightarrow> u16" where
  "lfn_char long_name offset i =
     (if offset + i < strlen long_name then scast (long_name ! (offset + i))
      else if offset + i = strlen long_name then 0 else 0xFFFF)"

definition populate_lfn_entry :: "cstr \<Rightarrow> nat \<Rightarrow> u8 \<Rightarrow> bool \<Rightarrow> u8 list" where
  "populate_lfn_entry long_name order checksum is_last =
     (let ch = (\<lambda>i. bytes16 (lfn_char long_name ((order - 1) * 13) i))
      in [of_nat order OR (if is_last then 0x40 else 0)] @ concat (map ch [0..<5]) @ [0x0F, 0, checksum]
         @ concat (map ch [5..<11]) @ bytes16 0 @ concat (map ch [11..<13]))"

section \<open>A long name survives\<close>

lemma le16_bytes16 [simp]: "le16 (bytes16 v) 0 = v"
  unfolding le16_def bytes16_def
  by (rule bit_word_eqI) (auto simp: bit_simps)

lemma byte_of_char: "ucast (scast (c :: u8) AND 0xFF :: u16) = c"
proof -
  have m: "(0xFF :: u16) = mask 8" by (simp add: mask_eq_exp_minus_1)
  show ?thesis unfolding m by (rule bit_word_eqI) (auto simp: bit_simps)
qed

lemma char_limits:
  assumes "c \<noteq> 0" "c \<noteq> 0xFF"
  shows "(scast (c :: u8) :: u16) \<noteq> 0" "(scast c :: u16) \<noteq> 0xFFFF"
proof -
  have z: "(0 :: u8) = ucast ((0 :: u16) AND 0xFF)" "(0xFF :: u8) = ucast ((0xFFFF :: u16) AND 0xFF)"
    by simp_all
  show "(scast c :: u16) \<noteq> 0" using byte_of_char [of c] assms(1) by (metis z(1))
  show "(scast c :: u16) \<noteq> 0xFFFF" using byte_of_char [of c] assms(2) by (metis z(2))
qed

lemma le16_parts: "b ! i = ucast v \<Longrightarrow> b ! (i + 1) = ucast (drop_bit 8 v) \<Longrightarrow> le16 b i = v"
  using le16_bytes16 [of v] by (simp add: le16_def bytes16_def)

lemma place_lists:
  "[0..<5] = [0, 1, 2, 3, 4]" "[5..<11] = [5, 6, 7, 8, 9, 10]" "[11..<13] = [11, 12]"
  "[0..<13] = [0, 1, 2, 3, 4, 5, 6, 7, 8, 9, 10, 11, 12]"
  by (simp_all add: upt_rec eval_nat_numeral)

lemma populate_bytes:
  "populate_lfn_entry long_name order checksum is_last =
    (let ch = lfn_char long_name ((order - 1) * 13)
     in [of_nat order OR (if is_last then 0x40 else 0),
         ucast (ch 0), ucast (drop_bit 8 (ch 0)), ucast (ch 1), ucast (drop_bit 8 (ch 1)),
         ucast (ch 2), ucast (drop_bit 8 (ch 2)), ucast (ch 3), ucast (drop_bit 8 (ch 3)),
         ucast (ch 4), ucast (drop_bit 8 (ch 4)), 0x0F, 0, checksum,
         ucast (ch 5), ucast (drop_bit 8 (ch 5)), ucast (ch 6), ucast (drop_bit 8 (ch 6)),
         ucast (ch 7), ucast (drop_bit 8 (ch 7)), ucast (ch 8), ucast (drop_bit 8 (ch 8)),
         ucast (ch 9), ucast (drop_bit 8 (ch 9)), ucast (ch 10), ucast (drop_bit 8 (ch 10)), 0, 0,
         ucast (ch 11), ucast (drop_bit 8 (ch 11)), ucast (ch 12), ucast (drop_bit 8 (ch 12))])"
  by (simp add: populate_lfn_entry_def Let_def bytes16_def place_lists)

lemma lfn_chars_populate:
  "lfn_chars (populate_lfn_entry long_name order checksum is_last) =
     map (lfn_char long_name ((order - 1) * 13)) [0..<13]"
  unfolding populate_bytes Let_def lfn_chars_def
  by (simp add: le16_parts place_lists)

lemma populate_fields:
  "lfn_order (populate_lfn_entry long_name order checksum is_last) = of_nat order OR (if is_last then 0x40 else 0)"
  "length (populate_lfn_entry long_name order checksum is_last) = 32"
  "lfn_check (populate_lfn_entry long_name order checksum is_last) = checksum"
  "e_attributes (populate_lfn_entry long_name order checksum is_last) = 0x0F"
  unfolding populate_bytes Let_def lfn_order_def lfn_check_def e_attributes_def by simp_all

text \<open>One entry: it stores the characters of its 13 places, and the terminator when it is among them.\<close>

lemma extract_loop_populated:
  assumes "j \<le> 13" "off + j \<le> strlen name" "strlen name < length b"
    "\<forall>i < strlen name. name ! i \<noteq> 0 \<and> name ! i \<noteq> 0xFF"
  shows "\<exists>b'. extract_loop (map (lfn_char name off) [j..<13]) (off + j) b = Some b' \<and> length b' = length b \<and>
    (\<forall>i < length b. b' ! i = (if off + j \<le> i \<and> i < off + 13 \<and> i < strlen name then name ! i
       else if i = strlen name \<and> i < off + 13 then 0 else b ! i))"
  using assms(1-3)
proof (induction "13 - j" arbitrary: j b)
  case 0
  then show ?case by (intro exI [of _ b]) auto
next
  case (Suc m)
  then have j: "j < 13" by simp
  then have l: "[j..<13] = j # [Suc j..<13]" by (simp add: upt_conv_Cons)
  show ?case
  proof (cases "off + j = strlen name")
    case True
    then have "extract_loop (map (lfn_char name off) [j..<13]) (off + j) b = Some (b[off + j := 0])"
      using Suc.prems(3) by (simp add: l lfn_char_def put_def)
    then show ?thesis using True j Suc.prems(3) by (intro exI [of _ "b[off + j := 0]"]) (auto simp: nth_list_update)
  next
    case False
    then have lt: "off + j < strlen name" using Suc.prems by simp
    let ?c = "name ! (off + j)" and ?b = "b[off + j := name ! (off + j)]"
    have c: "lfn_char name off j = scast ?c" using lt by (simp add: lfn_char_def)
    have pre: "m = 13 - Suc j" "Suc j \<le> 13" "off + Suc j \<le> strlen name" "strlen name < length ?b"
      using Suc.hyps(2) lt j Suc.prems(3) by simp_all
    have "extract_loop (map (lfn_char name off) [j..<13]) (off + j) b =
        extract_loop (map (lfn_char name off) [Suc j..<13]) (off + Suc j) ?b"
      using assms(4) lt Suc.prems(3) char_limits [of ?c]
      by (simp add: l c put_def byte_of_char)
    moreover obtain b' where "extract_loop (map (lfn_char name off) [Suc j..<13]) (off + Suc j) ?b = Some b'"
      "length b' = length b" "\<forall>i < length b. b' ! i =
        (if off + Suc j \<le> i \<and> i < off + 13 \<and> i < strlen name then name ! i
         else if i = strlen name \<and> i < off + 13 then 0 else ?b ! i)"
      using Suc.hyps(1) [OF pre] by (simp only: length_list_update) blast
    moreover have "(if off + Suc j \<le> i \<and> i < off + 13 \<and> i < strlen name then name ! i
         else if i = strlen name \<and> i < off + 13 then 0 else ?b ! i) =
        (if off + j \<le> i \<and> i < off + 13 \<and> i < strlen name then name ! i
         else if i = strlen name \<and> i < off + 13 then 0 else b ! i)" if "i < length b" for i
      using lt j that by (auto simp: nth_list_update not_less_eq_eq)
    ultimately show ?thesis by (intro exI [of _ b']) simp
  qed
qed

text \<open>The order byte of an entry of a name of at most 255 characters.\<close>

lemma order_bits:
  assumes "0 < k" "k \<le> 20"
  shows "unat ((of_nat k OR (if l then 0x40 else 0) :: u8) AND 0x1F) = k"
proof -
  have m: "(0x1F :: u8) = mask 5" by (simp add: mask_eq_exp_minus_1)
  have six: "(0x40 :: u8) = bit_mask 6" by (simp add: bit_mask_def)
  have "(of_nat k OR (if l then 0x40 else 0) :: u8) AND 0x1F = of_nat k"
  proof (unfold m six, rule bit_word_eqI)
    fix n :: nat
    assume "n < LENGTH(8)"
    have "n < 5" if "bit k n"
    proof (rule ccontr)
      assume "\<not> n < 5"
      have "k < 2 ^ 5" using assms by simp
      also have "(2 :: nat) ^ 5 \<le> 2 ^ n" using \<open>\<not> n < 5\<close> by (intro power_increasing) simp_all
      finally show False using that by (simp add: bit_iff_odd)
    qed
    then show "bit ((of_nat k OR (if l then bit_mask 6 else 0) :: u8) AND mask 5) n \<longleftrightarrow> bit (of_nat k :: u8) n"
      using \<open>n < LENGTH(8)\<close> by (auto simp: bit_simps)
  qed
  then show ?thesis using assms by (simp add: unat_of_nat_small)
qed

text \<open>The long-name entries of a name in the order they are on the disk.\<close>

definition lfn_entries :: "cstr \<Rightarrow> u8 \<Rightarrow> u8 list list" where
  "lfn_entries name checksum =
     (let n = (strlen name + 12) div 13
      in map (\<lambda>l. populate_lfn_entry name l checksum (l = n)) (rev [1..<Suc n]))"

lemma extract_populated:
  assumes "strlen name \<le> 255" "\<forall>i < strlen name. name ! i \<noteq> 0 \<and> name ! i \<noteq> 0xFF"
    "k \<le> (strlen name + 12) div 13" "length b = 256"
    "\<forall>i < 256. b ! i = (if 13 * k \<le> i \<and> i < strlen name then name ! i else 0)"
  shows "\<exists>b'. fold_opt (\<lambda>l. extract_lfn_chars (populate_lfn_entry name l checksum (l = n))) (rev [1..<Suc k]) b = Some b' \<and>
    length b' = 256 \<and> (\<forall>i < 256. b' ! i = (if i < strlen name then name ! i else 0))"
  using assms(3-5)
proof (induction k arbitrary: b)
  case 0
  then show ?case by auto
next
  case (Suc k)
  let ?e = "populate_lfn_entry name (Suc k) checksum (Suc k = n)"
  have off: "13 * k \<le> strlen name" using Suc.prems(1) by linarith
  have "Suc k \<le> 20" using Suc.prems(1) assms(1) by linarith
  then have o: "unat (lfn_order ?e AND 0x1F) = Suc k" unfolding populate_fields by (intro order_bits) simp_all
  then have "lfn_order ?e AND 0x1F \<noteq> 0" by auto
  then have e: "extract_lfn_chars ?e b = extract_loop (map (lfn_char name (13 * k)) [0..<13]) (13 * k + 0) b"
    unfolding extract_lfn_chars_def lfn_chars_populate o by (simp add: mult.commute)
  obtain b1 where b1: "extract_lfn_chars ?e b = Some b1" "length b1 = 256"
    and nth: "\<forall>i < 256. b1 ! i = (if 13 * k \<le> i \<and> i < 13 * k + 13 \<and> i < strlen name then name ! i
       else if i = strlen name \<and> i < 13 * k + 13 then 0 else b ! i)"
    using extract_loop_populated [of 0 "13 * k" name b] assms(1,2) off Suc.prems(2) unfolding e by auto
  have "\<forall>i < 256. b1 ! i = (if 13 * k \<le> i \<and> i < strlen name then name ! i else 0)"
    using nth Suc.prems(3) by auto
  then obtain b' where "fold_opt (\<lambda>l. extract_lfn_chars (populate_lfn_entry name l checksum (l = n))) (rev [1..<Suc k]) b1 = Some b'"
    "length b' = 256" "\<forall>i < 256. b' ! i = (if i < strlen name then name ! i else 0)"
    using Suc.IH [of b1] Suc.prems(1) b1(2) by auto
  then show ?case using b1(1) by auto
qed

lemma fold_opt_map: "fold_opt f (map g xs) s = fold_opt (\<lambda>x. f (g x)) xs s"
  by (induction xs arbitrary: s) (auto split: Option.bind_split)



end
