(* ===== verification/Fat16.thy ===== *)
theory Fat16
  imports Disk Fat16_Names Path
begin

text \<open>
  \<open>fs/fat_16/fat16.c\<close>: the FAT16 file system. The state is \<open>fs_state\<close> beside the disk; a
  directory entry is a list of 32 bytes cut out of its sector. The result \<open>None\<close> is a write
  outside an array, a division by zero, a loop over a cyclic chain, or \<open>kpanic\<close>, which
  does not return. Log messages are left out.
\<close>

section \<open>State\<close>

record fat_state = disk_state +
  is_mounted :: bool
  root_dir_lba :: u32
  root_dir_sectors :: u32
  data_region_lba :: u32
  sectors_per_fat :: u16
  sectors_per_cluster :: u16
  reserved_sectors :: u16
  current_dir_cluster :: u16
  current_path :: "u8 list" \<comment> \<open>the bytes before the terminator, at most 255\<close>

section \<open>The file allocation table\<close>

definition get_fat_entry :: "u16 \<Rightarrow> 'a fat_state_scheme \<Rightarrow> u16" where
  "get_fat_entry cluster s =
     (let lba = ucast (reserved_sectors s) + of_nat (unat cluster * 2 div 512);
          offset = unat cluster * 2 mod 512
      in le16 (kdisk_read_sector lba s) offset)"

definition set16 :: "u8 list \<Rightarrow> nat \<Rightarrow> u16 \<Rightarrow> u8 list" where
  "set16 b i v = b[i := ucast v, i + 1 := ucast (drop_bit 8 v)]"

definition set_fat_entry :: "u16 \<Rightarrow> u16 \<Rightarrow> 'a fat_state_scheme \<Rightarrow> 'a fat_state_scheme" where
  "set_fat_entry cluster v s =
     (let lba_off = of_nat (unat cluster * 2 div 512);
          offset = unat cluster * 2 mod 512;
          buf = kdisk_read_sector (ucast (reserved_sectors s) + lba_off) s;
          buf = set16 buf offset v;
          s1 = kdisk_write_sector (ucast (reserved_sectors s) + lba_off) (Some buf) s
      in kdisk_write_sector (ucast (reserved_sectors s) + ucast (sectors_per_fat s) + lba_off) (Some buf) s1)"

text \<open>The search for a zero in one sector of the table, and over its sectors; \<open>n\<close> sectors are left.\<close>

function find_zero :: "nat \<Rightarrow> nat \<Rightarrow> u8 list \<Rightarrow> nat option" where
  "find_zero sec i buf =
     (if i < 256
      then if sec = 0 \<and> i < 2 then find_zero sec (i + 1) buf
           else if le16 buf (2 * i) = 0 then Some i
           else find_zero sec (i + 1) buf
      else None)"
  by pat_completeness auto
termination by (relation "measure (\<lambda>(sec, i, buf). 256 - i)") auto

declare find_zero.simps [simp del]

fun find_free_from :: "nat \<Rightarrow> nat \<Rightarrow> 'a fat_state_scheme \<Rightarrow> u16" where
  "find_free_from sec 0 s = 0xFFFF"
| "find_free_from sec (Suc n) s =
     (case find_zero sec 0 (kdisk_read_sector (ucast (reserved_sectors s) + of_nat sec) s) of
        Some i \<Rightarrow> of_nat (sec * 256 + i)
      | None \<Rightarrow> find_free_from (Suc sec) n s)"

definition find_free_cluster :: "'a fat_state_scheme \<Rightarrow> u16" where
  "find_free_cluster s = find_free_from 0 (unat (sectors_per_fat s)) s"

definition in_chain :: "u16 \<Rightarrow> bool" where
  "in_chain cluster \<longleftrightarrow> 2 \<le> cluster \<and> cluster < 0xFFF8"

definition cluster_lba :: "u16 \<Rightarrow> 'a fat_state_scheme \<Rightarrow> u32" where
  "cluster_lba cluster s = data_region_lba s + (ucast cluster - 2) * ucast (sectors_per_cluster s)"

text \<open>The loop that releases a chain.\<close>

partial_function (option) free_chain :: "u16 \<Rightarrow> 'a fat_state_scheme \<Rightarrow> 'a fat_state_scheme option" where
  "free_chain cl s =
     (if in_chain cl then free_chain (get_fat_entry cl s) (set_fat_entry cl 0 s) else Some s)"

section \<open>Directories\<close>

definition entry_at :: "u8 list \<Rightarrow> nat \<Rightarrow> u8 list" where
  "entry_at buf i = take 32 (drop (32 * i) buf)"

definition put_entry :: "u8 list \<Rightarrow> nat \<Rightarrow> u8 list \<Rightarrow> u8 list" where
  "put_entry buf i e = take (32 * i) buf @ e @ drop (32 * i + 32) buf"

text \<open>What a step of a scan over entries leaves: the scan ends, hits, or goes on with the
  long name collected so far and the checksum that came with it.\<close>

datatype 'r scan = Halt | Hit 'r | More "u8 list" u8

text \<open>The head of the loop body: the short entry to look at with the long name that belongs to it.\<close>

datatype entry_kind = End_of_dir | Skip "u8 list" u8 | Short "u8 list" "u8 list" u8

definition no_name :: "u8 list" where
  "no_name = replicate 256 0"

definition classify :: "u8 list \<Rightarrow> u8 list \<Rightarrow> u8 \<Rightarrow> entry_kind option" where
  "classify e lfn_buf chk =
     (if e ! 0 = 0 then Some End_of_dir
      else if e ! 0 = 0xE5 then Some (Skip no_name chk)
      else if e_attributes e = 0x0F
      then do { b \<leftarrow> extract_lfn_chars e lfn_buf; Some (Skip b (lfn_check e)) }
      else Some (Short e (if lfn_buf ! 0 \<noteq> 0 \<and> chk \<noteq> lfn_checksum (e_filename e) then no_name else lfn_buf) chk))"

definition name_matches :: "u8 list \<Rightarrow> u8 list \<Rightarrow> cstr \<Rightarrow> bool" where
  "name_matches e lfn_buf target =
     (if lfn_buf ! 0 \<noteq> 0 then fat16_strcasecmp lfn_buf target = 0
      else memcmp (e_filename e) (format_filename_to_fat (Some target)) 11 = 0)"

text \<open>The loop over the entries of one sector, from entry \<open>i\<close> on.\<close>

function find_in_sector :: "cstr \<Rightarrow> u8 list \<Rightarrow> nat \<Rightarrow> u8 list \<Rightarrow> u8 \<Rightarrow> u8 list scan option" where
  "find_in_sector target buf i lfn_buf chk =
     (if i < 16
      then (case classify (entry_at buf i) lfn_buf chk of
              None \<Rightarrow> None
            | Some End_of_dir \<Rightarrow> Some Halt
            | Some (Skip b c) \<Rightarrow> find_in_sector target buf (i + 1) b c
            | Some (Short e b c) \<Rightarrow>
                if name_matches e b target then Some (Hit e)
                else find_in_sector target buf (i + 1) no_name c)
      else Some (More lfn_buf chk))"
  by pat_completeness auto
termination by (relation "measure (\<lambda>(target, buf, i, b, c). 16 - i)") auto

declare find_in_sector.simps [simp del]

fun find_in_sectors ::
  "cstr \<Rightarrow> u32 list \<Rightarrow> u8 list \<Rightarrow> u8 \<Rightarrow> 'a fat_state_scheme \<Rightarrow> u8 list scan option"
where
  "find_in_sectors target [] lfn_buf chk s = Some (More lfn_buf chk)"
| "find_in_sectors target (lba # lbas) lfn_buf chk s =
     (case find_in_sector target (kdisk_read_sector lba s) 0 lfn_buf chk of
        Some (More b c) \<Rightarrow> find_in_sectors target lbas b c s
      | r \<Rightarrow> r)"

definition lbas_from :: "u32 \<Rightarrow> nat \<Rightarrow> u32 list" where
  "lbas_from lba n = map (\<lambda>k. lba + of_nat k) [0..<n]"

partial_function (option) find_in_chain ::
  "cstr \<Rightarrow> u16 \<Rightarrow> u8 list \<Rightarrow> u8 \<Rightarrow> 'a fat_state_scheme \<Rightarrow> u8 list scan option"
where
  "find_in_chain target cluster lfn_buf chk s =
     (if in_chain cluster
      then (case find_in_sectors target (lbas_from (cluster_lba cluster s) (unat (sectors_per_cluster s))) lfn_buf chk s of
              Some (More b c) \<Rightarrow> find_in_chain target (get_fat_entry cluster s) b c s
            | r \<Rightarrow> r)
      else Some (More lfn_buf chk))"

text \<open>\<open>None\<close> when the search does not return; otherwise the entry, if there is one.\<close>

definition find_entry_in_current_dir :: "cstr \<Rightarrow> 'a fat_state_scheme \<Rightarrow> u8 list option option" where
  "find_entry_in_current_dir target s =
     do {
       r \<leftarrow> (if current_dir_cluster s = 0
            then find_in_sectors target (lbas_from (root_dir_lba s) (unat (root_dir_sectors s))) no_name 0 s
            else find_in_chain target (current_dir_cluster s) no_name 0 s);
       Some (case r of Hit e \<Rightarrow> Some e | _ \<Rightarrow> None)
     }"

text \<open>The start and length of the part of the current directory that entries are added to and removed from.\<close>

definition dir_start :: "'a fat_state_scheme \<Rightarrow> u32" where
  "dir_start s = (if current_dir_cluster s = 0 then root_dir_lba s else cluster_lba (current_dir_cluster s) s)"

definition dir_sectors :: "'a fat_state_scheme \<Rightarrow> nat" where
  "dir_sectors s = (if current_dir_cluster s = 0 then unat (root_dir_sectors s) else unat (sectors_per_cluster s))"

text \<open>The loops of \<open>mark_entries_deleted\<close>: the entries of one sector, and the sectors.\<close>

function mark_in_sector :: "bool \<Rightarrow> nat \<Rightarrow> nat \<Rightarrow> u8 list \<Rightarrow> u8 list \<times> bool" where
  "mark_in_sector final end_i i buf =
     (if i < 16
      then let buf' = buf[32 * i := 0xE5]
           in if final \<and> i = end_i then (buf', True) else mark_in_sector final end_i (i + 1) buf'
      else (buf, False))"
  by pat_completeness auto
termination by (relation "measure (\<lambda>(final, e, i, buf). 16 - i)") auto

declare mark_in_sector.simps [simp del]

function mark_entries_deleted ::
  "u32 \<Rightarrow> nat \<Rightarrow> nat \<Rightarrow> nat \<Rightarrow> nat \<Rightarrow> 'a fat_state_scheme \<Rightarrow> 'a fat_state_scheme"
where
  "mark_entries_deleted base_lba sec i end_s end_i s =
     (if sec \<le> end_s
      then let (buf, stop) = mark_in_sector (sec = end_s) end_i i (kdisk_read_sector (base_lba + of_nat sec) s);
               s1 = kdisk_write_sector (base_lba + of_nat sec) (Some buf) s
           in if stop then s1 else mark_entries_deleted base_lba (Suc sec) 0 end_s end_i s1
      else s)"
  by pat_completeness auto
termination by (relation "measure (\<lambda>(base, sec, i, end_s, end_i, s). Suc end_s - sec)") auto

declare mark_entries_deleted.simps [simp del]

text \<open>Whether \<open>add_dir_entry\<close> needs long-name entries.\<close>

definition need_lfn :: "cstr \<Rightarrow> bool" where
  "need_lfn base_name \<longleftrightarrow> strlen base_name > 12 \<or>
     (\<exists>i \<in> {0..<strlen base_name}.
        97 \<le> base_name ! i \<and> base_name ! i \<le> 122 \<or> base_name ! i = 32 \<and> i \<noteq> strlen base_name - 1)"

definition is_free_entry :: "u8 list \<Rightarrow> bool" where
  "is_free_entry e \<longleftrightarrow> e ! 0 = 0 \<or> e ! 0 = 0xE5"

text \<open>The search for \<open>required\<close> free entries in a row: the sector and index of the first, and how
  many are found. The result is where the run starts, or how the next sector is entered.\<close>

function free_in_sector ::
  "nat \<Rightarrow> nat \<Rightarrow> nat \<Rightarrow> nat \<Rightarrow> nat \<times> nat \<Rightarrow> u8 list \<Rightarrow> (nat \<times> nat) + (nat \<times> (nat \<times> nat))"
where
  "free_in_sector required sec i free_count start buf =
     (if i < 16
      then if is_free_entry (entry_at buf i)
           then let start' = (if free_count = 0 then (sec, i) else start)
                in if Suc free_count = required then Inl start'
                   else free_in_sector required sec (i + 1) (Suc free_count) start' buf
           else free_in_sector required sec (i + 1) 0 start buf
      else Inr (free_count, start))"
  by pat_completeness auto
termination by (relation "measure (\<lambda>(required, sec, i, fc, start, buf). 16 - i)") auto

declare free_in_sector.simps [simp del]

fun free_run ::
  "nat \<Rightarrow> nat \<Rightarrow> nat \<Rightarrow> nat \<times> nat \<Rightarrow> u32 \<Rightarrow> nat \<Rightarrow> 'a fat_state_scheme \<Rightarrow> (nat \<times> nat) option"
where
  "free_run required sec free_count start slba 0 s = None"
| "free_run required sec free_count start slba (Suc n) s =
     (case free_in_sector required sec 0 free_count start (kdisk_read_sector (slba + of_nat sec) s) of
        Inl r \<Rightarrow> Some r
      | Inr (fc, st) \<Rightarrow> free_run required (Suc sec) fc st slba n s)"

text \<open>The loop that writes the long-name entries, last part first: the sector and index it has
  reached, the buffer of that sector and the disk.\<close>

fun write_lfns ::
  "cstr \<Rightarrow> u8 \<Rightarrow> nat \<Rightarrow> nat \<Rightarrow> u32 \<Rightarrow> nat \<Rightarrow> nat \<Rightarrow> u8 list \<Rightarrow> 'a fat_state_scheme
   \<Rightarrow> nat \<times> nat \<times> u8 list \<times> 'a fat_state_scheme"
where
  "write_lfns name chk count 0 slba sec i buf s = (sec, i, buf, s)"
| "write_lfns name chk count (Suc l) slba sec i buf s =
     (let buf1 = put_entry buf i (populate_lfn_entry name (Suc l) chk (Suc l = count))
      in if Suc i = 16
         then let s1 = kdisk_write_sector (slba + of_nat sec) (Some buf1) s
              in write_lfns name chk count l slba (Suc sec) 0 (kdisk_read_sector (slba + of_nat (Suc sec)) s1) s1
         else write_lfns name chk count l slba sec (Suc i) buf1 s)"

definition short_entry :: "u8 list \<Rightarrow> u8 \<Rightarrow> u16 \<Rightarrow> u32 \<Rightarrow> u8 list" where
  "short_entry short_name attributes cluster sz =
     take 11 short_name @ [attributes] @ replicate 14 0 @ bytes16 cluster @ bytes32 sz"

definition add_dir_entry ::
  "cstr \<Rightarrow> u8 \<Rightarrow> u16 \<Rightarrow> u32 \<Rightarrow> 'a fat_state_scheme \<Rightarrow> int \<times> 'a fat_state_scheme"
where
  "add_dir_entry base_name attributes cluster sz s =
     (let short_name = (if need_lfn base_name then generate_short_name base_name
                        else format_filename_to_fat (Some base_name));
          lfn_count = (if need_lfn base_name then (strlen base_name + 12) div 13 else 0);
          chksum = lfn_checksum short_name;
          slba = dir_start s
      in case free_run (lfn_count + 1) 0 0 (0, 0) slba (dir_sectors s) s of
           None \<Rightarrow> (- 1, s)
         | Some (start_s, start_i) \<Rightarrow>
             (let (ws, wi, buf, s1) = write_lfns base_name chksum lfn_count lfn_count slba start_s start_i
                    (kdisk_read_sector (slba + of_nat start_s) s) s
              in (0, kdisk_write_sector (slba + of_nat ws)
                    (Some (put_entry buf wi (short_entry short_name attributes cluster sz))) s1)))"

text \<open>\<open>is_dir_empty\<close> looks at the first sector of the directory only.\<close>

definition is_dot_entry :: "u8 list \<Rightarrow> bool" where
  "is_dot_entry e \<longleftrightarrow> e ! 0 = 46 \<and> (e ! 1 = 32 \<or> e ! 1 = 46)"

function empty_from :: "nat \<Rightarrow> u8 list \<Rightarrow> bool" where
  "empty_from i buf =
     (if i < 16
      then let e = entry_at buf i
           in if e ! 0 = 0 then True
              else if e ! 0 = 0xE5 \<or> e_attributes e = 0x0F then empty_from (i + 1) buf
              else if is_dot_entry e then empty_from (i + 1) buf
              else False
      else True)"
  by pat_completeness auto
termination by (relation "measure (\<lambda>(i, buf). 16 - i)") auto

declare empty_from.simps [simp del]

definition is_dir_empty :: "u16 \<Rightarrow> 'a fat_state_scheme \<Rightarrow> bool" where
  "is_dir_empty cluster s = empty_from 0 (kdisk_read_sector (cluster_lba cluster s) s)"

section \<open>The table as a map\<close>

text \<open>Entry \<open>k\<close> of the two copies of the table.\<close>

definition fat_sector :: "nat \<Rightarrow> nat \<Rightarrow> 'a fat_state_scheme \<Rightarrow> u32" where
  "fat_sector copy q s = of_nat (unat (reserved_sectors s) + copy * unat (sectors_per_fat s) + q)"

definition fat_copy :: "nat \<Rightarrow> 'a fat_state_scheme \<Rightarrow> nat \<Rightarrow> u16" where
  "fat_copy copy s k = le16 (sectors s (fat_sector copy (k div 256) s)) (2 * (k mod 256))"

definition fat_size :: "'a fat_state_scheme \<Rightarrow> nat" where
  "fat_size s = 256 * unat (sectors_per_fat s)"

definition mirrored :: "'a fat_state_scheme \<Rightarrow> bool" where
  "mirrored s \<longleftrightarrow> (\<forall>q < unat (sectors_per_fat s). sectors s (fat_sector 1 q s) = sectors s (fat_sector 0 q s))"

lemma u16_less: "unat (x :: u16) < 65536"
  using unsigned_less [of x, where 'a = nat] by simp

lemma unat_fat_sector:
  assumes "copy \<le> 1" "q < 65536"
  shows "unat (fat_sector copy q s) = unat (reserved_sectors s) + copy * unat (sectors_per_fat s) + q"
    "wrapped_sector (fat_sector copy q s) = fat_sector copy q s"
proof -
  have "copy = 0 \<or> copy = 1" using assms(1) by linarith
  then have "copy * unat (sectors_per_fat s) \<le> unat (sectors_per_fat s)" by auto
  then have lt: "unat (reserved_sectors s) + copy * unat (sectors_per_fat s) + q < 8388608"
    using u16_less [of "reserved_sectors s"] u16_less [of "sectors_per_fat s"] assms(2) by linarith
  then show "unat (fat_sector copy q s) = unat (reserved_sectors s) + copy * unat (sectors_per_fat s) + q"
    unfolding fat_sector_def by (intro unat_of_nat_small) simp
  then show "wrapped_sector (fat_sector copy q s) = fat_sector copy q s"
    using lt by (intro wrapped_sector_small) simp
qed

lemma half_sector: "k * 2 div 512 = k div 256" "k * 2 mod 512 = 2 * (k mod 256)" for k :: nat
proof -
  have "k * 2 div (256 * 2) = k div 256" by (rule div_mult_mult2) simp
  then show "k * 2 div 512 = k div 256" by simp
  have "k * 2 mod (256 * 2) = (k mod 256) * 2" by (rule mod_mult_mult2)
  then show "k * 2 mod 512 = 2 * (k mod 256)" by simp
qed

lemma fat_lba:
  "(ucast (reserved_sectors s) + of_nat (unat c * 2 div 512) :: u32) = fat_sector 0 (unat c div 256) s"
  "(ucast (reserved_sectors s) + ucast (sectors_per_fat s) + of_nat (unat c * 2 div 512) :: u32) = fat_sector 1 (unat c div 256) s"
  for c :: u16
  unfolding half_sector fat_sector_def by simp_all

lemma u16_div: "unat c div 256 < 65536" for c :: u16
  using u16_less [of c] by simp

lemma get_fat_entry_eq: "disk_ok s \<Longrightarrow> get_fat_entry c s = fat_copy 0 s (unat c)"
  unfolding get_fat_entry_def Let_def fat_lba fat_copy_def
  by (simp only: kdisk_read_sector_eq unat_fat_sector [OF zero_le_one u16_div] half_sector)

lemma length_set16 [simp]: "length (set16 b i v) = length b"
  by (simp add: set16_def)

lemma le16_set16:
  assumes "2 * i + 1 < length b"
  shows "le16 (set16 b (2 * i) v) (2 * j) = (if j = i then v else le16 b (2 * j))"
proof (cases "j = i")
  case True
  then show ?thesis using assms le16_bytes16 [of v] by (simp add: le16_def set16_def bytes16_def)
next
  case False
  then have "2 * j \<noteq> 2 * i" "2 * j \<noteq> 2 * i + 1" "2 * j + 1 \<noteq> 2 * i" "2 * j + 1 \<noteq> 2 * i + 1" by presburger+
  then show ?thesis using False by (simp add: le16_def set16_def)
qed

lemma set_fat_entry_eq:
  assumes "disk_ok s"
  shows "set_fat_entry c v s =
    (let b = set16 (sectors s (fat_sector 0 (unat c div 256) s)) (2 * (unat c mod 256)) v
     in s\<lparr>sectors := (sectors s)(fat_sector 0 (unat c div 256) s := b, fat_sector 1 (unat c div 256) s := b)\<rparr>)"
proof -
  have len: "length (sectors s x) = 512" for x using assms by (simp add: disk_ok_def)
  show ?thesis
    unfolding set_fat_entry_def Let_def fat_lba half_sector(2)
    by (simp add: kdisk_read_sector_eq [OF assms] unat_fat_sector u16_div kdisk_write_sector_eq len)
qed

lemma kdisk_write_sector_fields [simp]:
  "sectors_per_fat (kdisk_write_sector lba b s) = sectors_per_fat s" "reserved_sectors (kdisk_write_sector lba b s) = reserved_sectors s"
  "sectors_per_cluster (kdisk_write_sector lba b s) = sectors_per_cluster s" "data_region_lba (kdisk_write_sector lba b s) = data_region_lba s"
  "root_dir_lba (kdisk_write_sector lba b s) = root_dir_lba s" "root_dir_sectors (kdisk_write_sector lba b s) = root_dir_sectors s"
  "current_dir_cluster (kdisk_write_sector lba b s) = current_dir_cluster s" "current_path (kdisk_write_sector lba b s) = current_path s"
  "is_mounted (kdisk_write_sector lba b s) = is_mounted s"
  using kdisk_write_sector_only [of lba b s] by auto

lemma set_fat_entry_fields [simp]:
  "sectors_per_fat (set_fat_entry c v s) = sectors_per_fat s" "reserved_sectors (set_fat_entry c v s) = reserved_sectors s"
  "sectors_per_cluster (set_fat_entry c v s) = sectors_per_cluster s" "data_region_lba (set_fat_entry c v s) = data_region_lba s"
  "root_dir_lba (set_fat_entry c v s) = root_dir_lba s" "root_dir_sectors (set_fat_entry c v s) = root_dir_sectors s"
  "current_dir_cluster (set_fat_entry c v s) = current_dir_cluster s" "current_path (set_fat_entry c v s) = current_path s"
  "is_mounted (set_fat_entry c v s) = is_mounted s"
  by (simp_all add: set_fat_entry_def Let_def)

lemma disk_ok_set_fat_entry: "disk_ok s \<Longrightarrow> disk_ok (set_fat_entry c v s)"
  by (simp add: set_fat_entry_eq Let_def) (simp add: disk_ok_def)

lemma fat_sector_cong [simp]:
  "fat_sector copy q (set_fat_entry c v s) = fat_sector copy q s"
  "fat_size (set_fat_entry c v s) = fat_size s"
  by (simp_all add: fat_sector_def fat_size_def)

lemma fat_sector_inj:
  assumes "copy \<le> 1" "copy' \<le> 1" "q < unat (sectors_per_fat s)" "q' < unat (sectors_per_fat s)"
  shows "fat_sector copy q s = fat_sector copy' q' s \<longleftrightarrow> copy = copy' \<and> q = q'"
proof -
  have "q < 65536" "q' < 65536" using assms(3,4) u16_less [of "sectors_per_fat s"] by linarith+
  note u = unat_fat_sector(1) [OF assms(1) this(1), of s] unat_fat_sector(1) [OF assms(2) this(2), of s]
  have "copy = 0 \<or> copy = 1" "copy' = 0 \<or> copy' = 1" using assms(1,2) by linarith+
  then show ?thesis unfolding word_unat_eq_iff u using assms(3,4) by auto
qed

lemma sectors_set_fat_entry:
  "disk_ok s \<Longrightarrow> sectors (set_fat_entry c v s) x =
    (if x = fat_sector 0 (unat c div 256) s \<or> x = fat_sector 1 (unat c div 256) s
     then set16 (sectors s (fat_sector 0 (unat c div 256) s)) (2 * (unat c mod 256)) v else sectors s x)"
  by (auto simp: set_fat_entry_eq Let_def)

lemma table_sector: "k < fat_size s \<Longrightarrow> k div 256 < unat (sectors_per_fat s)"
  by (simp add: fat_size_def less_mult_imp_div_less mult.commute)

lemma get_set_fat_entry:
  assumes "disk_ok s" "unat c < fat_size s" "unat c' < fat_size s"
  shows "get_fat_entry c' (set_fat_entry c v s) = (if c' = c then v else get_fat_entry c' s)"
proof -
  let ?q = "unat c div 256" and ?q' = "unat c' div 256"
  note sec = sectors_set_fat_entry [OF assms(1), of c v]
  have q: "?q < unat (sectors_per_fat s)" "?q' < unat (sectors_per_fat s)" using assms table_sector by blast+
  have same: "fat_sector 0 ?q' s = fat_sector 0 ?q s \<longleftrightarrow> ?q' = ?q" "fat_sector 0 ?q' s \<noteq> fat_sector 1 ?q s"
    using fat_sector_inj [of 0 0 ?q' s ?q] fat_sector_inj [of 0 1 ?q' s ?q] q by auto
  have eq: "c' = c \<longleftrightarrow> ?q' = ?q \<and> unat c' mod 256 = unat c mod 256"
    by (metis word_unat_eq_iff div_mult_mod_eq)
  have g: "get_fat_entry c' (set_fat_entry c v s) = fat_copy 0 (set_fat_entry c v s) (unat c')"
    "get_fat_entry c' s = fat_copy 0 s (unat c')"
    using assms(1) by (simp_all add: get_fat_entry_eq disk_ok_set_fat_entry)
  show ?thesis
  proof (cases "?q' = ?q")
    case True
    have "length (sectors s (fat_sector 0 ?q s)) = 512" using assms(1) by (simp add: disk_ok_def)
    then have "2 * (unat c mod 256) + 1 < length (sectors s (fat_sector 0 ?q s))"
      using mod_less_divisor [of 256 "unat c"] by linarith
    from le16_set16 [OF this, of v "unat c' mod 256"] show ?thesis
      unfolding g eq by (simp add: fat_copy_def sec same True)
  next
    case False
    have "sectors (set_fat_entry c v s) (fat_sector 0 ?q' s) = sectors s (fat_sector 0 ?q' s)"
      unfolding sec using False same by (simp only: if_False simp_thms)
    then show ?thesis unfolding g eq using False by (simp add: fat_copy_def)
  qed
qed

lemma mirrored_set_fat_entry:
  assumes "disk_ok s" "mirrored s" "unat c < fat_size s"
  shows "mirrored (set_fat_entry c v s)"
  using assms table_sector [OF assms(3)] by (auto simp: mirrored_def sectors_set_fat_entry fat_sector_inj)

text \<open>The sectors of the two copies.\<close>

definition table_sectors :: "'a fat_state_scheme \<Rightarrow> u32 set" where
  "table_sectors s = {fat_sector copy q s | copy q. copy \<le> 1 \<and> q < unat (sectors_per_fat s)}"

lemma sectors_set_fat_entry_other:
  assumes "disk_ok s" "unat c < fat_size s" "x \<notin> table_sectors s"
  shows "sectors (set_fat_entry c v s) x = sectors s x"
  using assms table_sector [OF assms(2)]
  by (auto simp: sectors_set_fat_entry table_sectors_def)

text \<open>C26: Within the table, setting an entry is an update of the map from clusters to entries: the
  entry reads back, every other entry and every sector outside of the two copies
  stays, and the copies stay equal.\<close>

theorem set_fat_entry_update:
  assumes "disk_ok s" "mirrored s" "unat c < fat_size s"
  shows "(\<forall>c'. unat c' < fat_size s \<longrightarrow> get_fat_entry c' (set_fat_entry c v s) = (if c' = c then v else get_fat_entry c' s)) \<and>
    mirrored (set_fat_entry c v s) \<and>
    (\<forall>x. x \<notin> table_sectors s \<longrightarrow> sectors (set_fat_entry c v s) x = sectors s x)"
  using assms by (simp add: get_set_fat_entry mirrored_set_fat_entry sectors_set_fat_entry_other)

text \<open>A small volume: one sector of table, one sector of root directory, clusters of one sector.\<close>

definition sample_fat :: fat_state where
  "sample_fat = disk_state.extend blank_disk
     \<lparr>is_mounted = True, root_dir_lba = 3, root_dir_sectors = 1, data_region_lba = 4, sectors_per_fat = 1,
      sectors_per_cluster = 1, reserved_sectors = 1, current_dir_cluster = 0, current_path = [47]\<rparr>"

lemma sample_fat_fields [simp]:
  "is_mounted sample_fat" "root_dir_lba sample_fat = 3" "root_dir_sectors sample_fat = 1" "data_region_lba sample_fat = 4"
  "sectors_per_fat sample_fat = 1" "sectors_per_cluster sample_fat = 1" "reserved_sectors sample_fat = 1"
  "current_dir_cluster sample_fat = 0" "current_path sample_fat = [47]" "sectors sample_fat = (\<lambda>lba. replicate 512 0)"
  by (simp_all add: sample_fat_def disk_state.extend_def blank_disk_def kbd_state.extend_def)

lemma sample_fat_ok: "disk_ok sample_fat" "mirrored sample_fat" "fat_size sample_fat = 256"
  by (simp_all add: disk_ok_def mirrored_def fat_size_def)

theorem set_fat_entry_update_witness:
  "get_fat_entry 7 (set_fat_entry 7 9 sample_fat) = 9 \<and> mirrored (set_fat_entry 7 9 sample_fat)"
  using set_fat_entry_update [OF sample_fat_ok(1,2), of 7 9] by (simp add: sample_fat_ok(3))

section \<open>The search for a free cluster\<close>

lemma find_zero_cases:
  "case find_zero sec i buf of
     None \<Rightarrow> \<forall>j. i \<le> j \<and> j < 256 \<and> \<not> (sec = 0 \<and> j < 2) \<longrightarrow> le16 buf (2 * j) \<noteq> 0
   | Some k \<Rightarrow> i \<le> k \<and> k < 256 \<and> \<not> (sec = 0 \<and> k < 2) \<and> le16 buf (2 * k) = 0 \<and>
       (\<forall>j. i \<le> j \<and> j < k \<and> \<not> (sec = 0 \<and> j < 2) \<longrightarrow> le16 buf (2 * j) \<noteq> 0)"
proof (induction sec i buf rule: find_zero.induct)
  case (1 sec i buf)
  have next_i: "i \<le> j \<longleftrightarrow> j = i \<or> i + 1 \<le> j" for j by linarith
  consider "\<not> i < 256" | "i < 256" "sec = 0 \<and> i < 2" | "i < 256" "\<not> (sec = 0 \<and> i < 2)" "le16 buf (2 * i) = 0"
    | "i < 256" "\<not> (sec = 0 \<and> i < 2)" "le16 buf (2 * i) \<noteq> 0" by blast
  then show ?case
  proof cases
    case 1
    then have "find_zero sec i buf = None" by (subst find_zero.simps) simp
    then show ?thesis using 1 by auto
  next
    case 2
    then have e: "find_zero sec i buf = find_zero sec (i + 1) buf" by (subst find_zero.simps) simp
    show ?thesis unfolding e using "1.IH"(1) [OF 2] 2(2)
      by (auto simp: next_i split: option.splits)
  next
    case 3
    then have e: "find_zero sec i buf = Some i" by (subst find_zero.simps) (simp only: if_True if_False simp_thms)
    then show ?thesis using 3 by auto
  next
    case 4
    then have e: "find_zero sec i buf = find_zero sec (i + 1) buf" by (subst find_zero.simps) simp
    show ?thesis unfolding e using "1.IH"(2) [OF 4] 4
      by (auto simp: next_i split: option.splits)
  qed
qed

definition free_clusters :: "'a fat_state_scheme \<Rightarrow> nat set" where
  "free_clusters s = {k. 2 \<le> k \<and> k < fat_size s \<and> fat_copy 0 s k = 0}"

lemma find_free_from_spec:
  assumes "disk_ok s" "sec + n = unat (sectors_per_fat s)"
  shows "(\<exists>k \<in> free_clusters s. find_free_from sec n s = of_nat k \<and> (\<forall>j \<in> free_clusters s. 256 * sec \<le> j \<longrightarrow> k \<le> j)) \<or>
    (find_free_from sec n s = 0xFFFF \<and> (\<forall>j \<in> free_clusters s. j < 256 * sec))"
  using assms(2)
proof (induction n arbitrary: sec)
  case 0
  then show ?case by (auto simp: free_clusters_def fat_size_def)
next
  case (Suc n)
  let ?b = "sectors s (fat_sector 0 sec s)"
  have "sec < 65536" using Suc.prems u16_less [of "sectors_per_fat s"] by linarith
  then have buf: "kdisk_read_sector (ucast (reserved_sectors s) + of_nat sec) s = ?b"
    using unat_fat_sector(2) [of 0 sec s] by (simp add: kdisk_read_sector_eq [OF assms(1)] fat_sector_def)
  have copy: "fat_copy 0 s j = le16 ?b (2 * (j mod 256))" if "j div 256 = sec" for j
    using that by (simp add: fat_copy_def)
  have at: "j div 256 = sec \<longleftrightarrow> 256 * sec \<le> j \<and> j < 256 * Suc sec" for j :: nat by auto
  show ?case
  proof (cases "find_zero sec 0 ?b")
    case None
    have "j \<notin> free_clusters s" if "j div 256 = sec" for j
    proof
      assume "j \<in> free_clusters s"
      then have j: "2 \<le> j" "le16 ?b (2 * (j mod 256)) = 0" using copy [OF that] by (simp_all add: free_clusters_def)
      have "\<not> (sec = 0 \<and> j mod 256 < 2)" using j(1) that by (auto simp: div_eq_0_iff)
      then show False using find_zero_cases [where sec = sec and i = 0 and buf = ?b] j(2) by (simp add: None)
    qed
    then have "j \<in> free_clusters s \<Longrightarrow> 256 * sec \<le> j \<longleftrightarrow> 256 * Suc sec \<le> j" for j
      using at [of j] by (metis Suc_leD add_leD2 le_trans mult_Suc_right not_less)
    then show ?thesis using Suc.IH [of "Suc sec"] Suc.prems None by (auto simp: buf) (metis not_le)+
  next
    case (Some i)
    then have i: "i < 256" "\<not> (sec = 0 \<and> i < 2)" "le16 ?b (2 * i) = 0"
      "\<forall>j < i. \<not> (sec = 0 \<and> j < 2) \<longrightarrow> le16 ?b (2 * j) \<noteq> 0"
      using find_zero_cases [where sec = sec and i = 0 and buf = ?b] by auto
    let ?k = "sec * 256 + i"
    have k: "?k div 256 = sec" "?k mod 256 = i" using i(1) by simp_all
    have "sec * 256 + 256 \<le> fat_size s" using Suc.prems by (simp add: fat_size_def)
    then have "?k \<in> free_clusters s" using i copy [OF k(1)] k(2) by (simp add: free_clusters_def) linarith
    moreover have "?k \<le> j" if "j \<in> free_clusters s" "256 * sec \<le> j" for j
    proof (rule ccontr)
      assume "\<not> ?k \<le> j"
      then have jd: "j div 256 = sec" using that(2) i(1) by (simp add: at)
      then have "j = 256 * sec + j mod 256" by (metis mult_div_mod_eq)
      with \<open>\<not> ?k \<le> j\<close> have "j mod 256 < i" by linarith
      note j = jd this
      then have "\<not> (sec = 0 \<and> j mod 256 < 2)" using that(1) by (auto simp: free_clusters_def div_eq_0_iff)
      then show False using i(4) j that(1) copy [OF j(1)] by (auto simp: free_clusters_def)
    qed
    moreover have "find_free_from sec (Suc n) s = of_nat ?k" using Some by (simp add: buf)
    ultimately show ?thesis by blast
  qed
qed

lemma find_free_cluster_spec:
  assumes "disk_ok s"
  shows "if free_clusters s = {} then find_free_cluster s = 0xFFFF
    else find_free_cluster s = of_nat (LEAST k. k \<in> free_clusters s)"
proof (cases "free_clusters s = {}")
  case True
  then show ?thesis using find_free_from_spec [OF assms, of 0] by (simp add: find_free_cluster_def)
next
  case False
  then obtain k where k: "k \<in> free_clusters s" "find_free_cluster s = of_nat k" "\<forall>j \<in> free_clusters s. k \<le> j"
    using find_free_from_spec [OF assms, of 0] by (auto simp: find_free_cluster_def)
  then have "(LEAST k. k \<in> free_clusters s) = k" by (intro Least_equality) auto
  then show ?thesis using False k(2) by simp
qed

end
