(* ===== verification/Fat16_Ops.thy ===== *)
theory Fat16_Ops
  imports Fat16
begin

text \<open>
  The operations \<open>fat16.h\<close> exports and the driver of \<open>fat16_vfs.c\<close>: working directory, reading,
  writing, removing, creating and copying, mounting and formatting. Every operation on a
  path changes into its directory, works on the last component and changes back.
\<close>

section \<open>The working directory\<close>

text \<open>The path with its last component cut off.\<close>

definition path_up :: "u8 list \<Rightarrow> u8 list" where
  "path_up p =
     (if length p > 1
      then (case strrchr p 47 of
              None \<Rightarrow> p
            | Some last_slash \<Rightarrow>
                if length last_slash = length p then take 1 p else take (length p - length last_slash) p)
      else p)"

text \<open>One component; the inner option is \<open>None\<close> when \<open>fat16_chdir\<close> gives up.\<close>

definition chdir_step :: "cstr \<Rightarrow> 'a fat_state_scheme \<Rightarrow> 'a fat_state_scheme option option" where
  "chdir_step token s =
     (if strcmp token [46] = 0 then Some (Some s)
      else if strcmp token [46, 46] = 0
      then if current_dir_cluster s \<noteq> 0
           then do {
             r \<leftarrow> find_entry_in_current_dir [46, 46] s;
             Some (map_option (\<lambda>e. s\<lparr>current_dir_cluster := e_cluster_low e, current_path := path_up (current_path s)\<rparr>) r)
           }
           else Some (Some s)
      else do {
        r \<leftarrow> find_entry_in_current_dir token s;
        Some (case r of
                None \<Rightarrow> None
              | Some e \<Rightarrow>
                  if e_attributes e AND 0x10 \<noteq> 0
                  then let cur_len = length (current_path s)
                       in if cur_len + strlen token + 2 < 256
                          then Some (s\<lparr>current_dir_cluster := e_cluster_low e,
                            current_path := current_path s @ (if cur_len > 1 then [47] else []) @ content token\<rparr>)
                          else None
                  else None)
      })"

function chdir_loop ::
  "u8 list option \<Rightarrow> cstr option \<Rightarrow> 'a fat_state_scheme \<Rightarrow> 'a fat_state_scheme option option"
where
  "chdir_loop token last_str s =
     (case token of
        None \<Rightarrow> Some (Some s)
      | Some t \<Rightarrow>
          (case chdir_step t s of
             Some (Some s') \<Rightarrow>
               (case strtok None [47] last_str of (token', last_str') \<Rightarrow> chdir_loop token' last_str' s')
           | r \<Rightarrow> r))"
  by pat_completeness auto
termination
  by (relation "measure (\<lambda>(token, last_str, s). token_measure (token, last_str, []))")
    (auto intro: token_measure_less)

declare chdir_loop.simps [simp del]

definition fat16_chdir :: "cstr \<Rightarrow> 'a fat_state_scheme \<Rightarrow> (int \<times> 'a fat_state_scheme) option" where
  "fat16_chdir path s =
     (if \<not> is_mounted s then Some (- 1, s)
      else if 256 \<le> strlen path then None
      else let s1 = (if deref path = 47 then s\<lparr>current_dir_cluster := 0, current_path := [47]\<rparr> else s);
               (token, last_str) = strtok (Some (content path)) [47] None
           in case chdir_loop token last_str s1 of
                None \<Rightarrow> None
              | Some None \<Rightarrow> Some (- 1, s1\<lparr>current_dir_cluster := current_dir_cluster s, current_path := current_path s\<rparr>)
              | Some (Some s2) \<Rightarrow> Some (0, s2))"

text \<open>The common head and end of the operations: change into the directory of the path, if it has one,
  and back. The result of the first \<open>fat16_chdir\<close> is not looked at.\<close>

definition enter_dir :: "cstr \<Rightarrow> 'a fat_state_scheme \<Rightarrow> (bool \<times> cstr \<times> 'a fat_state_scheme) option" where
  "enter_dir filename s =
     (case strrchr filename 47 of
        None \<Rightarrow> Some (False, filename, s)
      | Some slash \<Rightarrow>
          if 256 \<le> strlen filename then None
          else let dir = take (length filename - length slash) filename
               in do {
                 (r, s1) \<leftarrow> fat16_chdir (if dir = [] then [47] else dir) s;
                 Some (True, tl slash, s1)
               })"

definition leave_dir :: "bool \<Rightarrow> u8 list \<Rightarrow> 'a fat_state_scheme \<Rightarrow> 'a fat_state_scheme option" where
  "leave_dir has_path old_cwd s =
     (if has_path then do { (r, s1) \<leftarrow> fat16_chdir old_cwd s; Some s1 } else Some s)"

section \<open>Reading\<close>

definition fat16_get_file_size :: "cstr \<Rightarrow> 'a fat_state_scheme \<Rightarrow> (u32 \<times> 'a fat_state_scheme) option" where
  "fat16_get_file_size filename s =
     (if \<not> is_mounted s then Some (0, s)
      else do {
        (has_path, base_name, s1) \<leftarrow> enter_dir filename s;
        r \<leftarrow> find_entry_in_current_dir base_name s1;
        s2 \<leftarrow> leave_dir has_path (current_path s) s1;
        Some (case r of None \<Rightarrow> 0 | Some e \<Rightarrow> e_file_size e, s2)
      })"

text \<open>The sectors of one cluster: the offset still to skip, and the bytes read so far.\<close>

fun read_sectors :: "u32 list \<Rightarrow> nat \<Rightarrow> nat \<Rightarrow> u8 list \<Rightarrow> 'a fat_state_scheme \<Rightarrow> nat \<times> u8 list" where
  "read_sectors [] current_offset to_read out s = (current_offset, out)"
| "read_sectors (lba # lbas) current_offset to_read out s =
     (if length out < to_read
      then if current_offset \<ge> 512 then read_sectors lbas (current_offset - 512) to_read out s
           else let n = min (512 - current_offset) (to_read - length out)
                in read_sectors lbas 0 to_read (out @ take n (drop current_offset (kdisk_read_sector lba s))) s
      else (current_offset, out))"

partial_function (option) read_chain ::
  "u16 \<Rightarrow> nat \<Rightarrow> nat \<Rightarrow> u8 list \<Rightarrow> 'a fat_state_scheme \<Rightarrow> u8 list option"
where
  "read_chain cluster current_offset to_read out s =
     (if in_chain cluster \<and> length out < to_read
      then (case read_sectors (lbas_from (cluster_lba cluster s) (unat (sectors_per_cluster s))) current_offset to_read out s of
              (off, out') \<Rightarrow> read_chain (get_fat_entry cluster s) off to_read out' s)
      else Some out)"

fun skip_clusters :: "nat \<Rightarrow> u16 \<Rightarrow> 'a fat_state_scheme \<Rightarrow> u16 option" where
  "skip_clusters 0 cluster s = Some cluster"
| "skip_clusters (Suc n) cluster s =
     (if \<not> in_chain cluster then None else skip_clusters n (get_fat_entry cluster s) s)"

definition bytes_per_cluster :: "'a fat_state_scheme \<Rightarrow> u32" where
  "bytes_per_cluster s = ucast (sectors_per_cluster s) * 512"

text \<open>The part between the lookup and the return: the bytes read.\<close>

definition read_entry :: "u8 list \<Rightarrow> u32 \<Rightarrow> u32 \<Rightarrow> 'a fat_state_scheme \<Rightarrow> u8 list option" where
  "read_entry e offset sz s =
     (if offset \<ge> e_file_size e then Some []
      else let bytes_to_read = (if offset + sz > e_file_size e then e_file_size e - offset else sz);
               cluster_size = bytes_per_cluster s
           in if cluster_size = 0 then None
              else case skip_clusters (unat (offset div cluster_size)) (e_cluster_low e) s of
                     None \<Rightarrow> Some []
                   | Some cluster \<Rightarrow> read_chain cluster (unat (offset mod cluster_size)) (unat bytes_to_read) [] s)"

definition fat16_read_file ::
  "cstr \<Rightarrow> u32 \<Rightarrow> u32 \<Rightarrow> 'a fat_state_scheme \<Rightarrow> (u8 list \<times> 'a fat_state_scheme) option"
where
  "fat16_read_file filename offset sz s =
     do {
       (has_path, base_name, s1) \<leftarrow> enter_dir filename s;
       r \<leftarrow> find_entry_in_current_dir base_name s1;
       out \<leftarrow> (case r of None \<Rightarrow> Some [] | Some e \<Rightarrow> read_entry e offset sz s1);
       s2 \<leftarrow> leave_dir has_path (current_path s) s1;
       Some (out, s2)
     }"

text \<open>\<open>fat16_list\<close>: the entries and names the visitor is called with, in order.\<close>

definition fallback_name :: "u8 list \<Rightarrow> u8 list" where
  "fallback_name e =
     takeWhile (\<lambda>c. c \<noteq> 32) (take 8 e) @
     (if e ! 8 \<noteq> 32 then 46 # takeWhile (\<lambda>c. c \<noteq> 32) (take 3 (drop 8 e)) else [])"

type_synonym listing = "(u8 list \<times> cstr) list"

function list_in_sector ::
  "u8 list \<Rightarrow> nat \<Rightarrow> u8 list \<Rightarrow> u8 \<Rightarrow> listing \<Rightarrow> (listing \<times> (u8 list \<times> u8) option) option"
where
  "list_in_sector buf i lfn_buf chk out =
     (if i < 16
      then (case classify (entry_at buf i) lfn_buf chk of
              None \<Rightarrow> None
            | Some End_of_dir \<Rightarrow> Some (out, None)
            | Some (Skip b c) \<Rightarrow> list_in_sector buf (i + 1) b c out
            | Some (Short e b c) \<Rightarrow>
                list_in_sector buf (i + 1) no_name c (out @ [(e, if b ! 0 \<noteq> 0 then b else fallback_name e)]))
      else Some (out, Some (lfn_buf, chk)))"
  by pat_completeness auto
termination by (relation "measure (\<lambda>(buf, i, b, c, out). 16 - i)") auto

declare list_in_sector.simps [simp del]

fun list_in_sectors ::
  "u32 list \<Rightarrow> u8 list \<Rightarrow> u8 \<Rightarrow> listing \<Rightarrow> 'a fat_state_scheme \<Rightarrow> (listing \<times> (u8 list \<times> u8) option) option"
where
  "list_in_sectors [] lfn_buf chk out s = Some (out, Some (lfn_buf, chk))"
| "list_in_sectors (lba # lbas) lfn_buf chk out s =
     (case list_in_sector (kdisk_read_sector lba s) 0 lfn_buf chk out of
        Some (out', Some (b, c)) \<Rightarrow> list_in_sectors lbas b c out' s
      | r \<Rightarrow> r)"

partial_function (option) list_in_chain ::
  "u16 \<Rightarrow> u8 list \<Rightarrow> u8 \<Rightarrow> listing \<Rightarrow> 'a fat_state_scheme \<Rightarrow> listing option"
where
  "list_in_chain cluster lfn_buf chk out s =
     (if in_chain cluster
      then (case list_in_sectors (lbas_from (cluster_lba cluster s) (unat (sectors_per_cluster s))) lfn_buf chk out s of
              None \<Rightarrow> None
            | Some (out', None) \<Rightarrow> Some out'
            | Some (out', Some (b, c)) \<Rightarrow> list_in_chain (get_fat_entry cluster s) b c out' s)
      else Some out)"

definition fat16_list :: "'a fat_state_scheme \<Rightarrow> listing option" where
  "fat16_list s =
     (if current_dir_cluster s = 0
      then map_option fst (list_in_sectors (lbas_from (root_dir_lba s) (unat (root_dir_sectors s))) no_name 0 [] s)
      else list_in_chain (current_dir_cluster s) no_name 0 [] s)"

section \<open>Writing\<close>

text \<open>The sectors of cluster number \<open>i\<close> of the data; sectors that start behind the data are not
  written, and the last one is written from whatever follows the data in memory.\<close>

fun write_sectors ::
  "u8 list \<Rightarrow> u32 \<Rightarrow> u32 \<Rightarrow> nat \<Rightarrow> nat \<Rightarrow> nat \<Rightarrow> 'a fat_state_scheme \<Rightarrow> 'a fat_state_scheme option"
where
  "write_sectors data sz lba i k 0 s = Some s"
| "write_sectors data sz lba i k (Suc n) s =
     (let offset = of_nat i * bytes_per_cluster s + of_nat (k * 512)
      in if offset < sz
         then if unat offset + 512 \<le> length data
              then write_sectors data sz lba i (Suc k) n
                     (kdisk_write_sector (lba + of_nat k) (Some (take 512 (drop (unat offset) data))) s)
              else None
         else write_sectors data sz lba i (Suc k) n (kdisk_write_sector (lba + of_nat k) None s))"

fun write_clusters ::
  "u8 list \<Rightarrow> u32 \<Rightarrow> nat \<Rightarrow> nat \<Rightarrow> u16 \<Rightarrow> 'a fat_state_scheme \<Rightarrow> 'a fat_state_scheme option"
where
  "write_clusters data sz i 0 current s = Some s"
| "write_clusters data sz i (Suc n) current s =
     do {
       s1 \<leftarrow> write_sectors data sz (cluster_lba current s) i 0 (unat (sectors_per_cluster s)) s;
       if n \<noteq> 0
       then let nxt = find_free_cluster s1;
                s2 = set_fat_entry current nxt s1;
                s3 = set_fat_entry nxt 0xFFFF s2
            in write_clusters data sz (Suc i) n nxt s3
       else Some s1
     }"

text \<open>Between the two changes of directory.\<close>

definition write_in_dir :: "cstr \<Rightarrow> u8 list \<Rightarrow> u32 \<Rightarrow> 'a fat_state_scheme \<Rightarrow> 'a fat_state_scheme option" where
  "write_in_dir base_name data sz s =
     (let first_cluster = find_free_cluster s; bpc = bytes_per_cluster s
      in if first_cluster = 0xFFFF \<or> (sz > 0 \<and> bpc = 0) then None
         else let clusters_needed = (if sz > 0 then (sz + bpc - 1) div bpc else 0)
              in do {
                s1 \<leftarrow> write_clusters data sz 0 (unat clusters_needed) first_cluster (set_fat_entry first_cluster 0xFFFF s);
                Some (snd (add_dir_entry base_name 0x20 first_cluster sz s1))
              })"

definition fat16_write_file ::
  "cstr \<Rightarrow> u8 list \<Rightarrow> u32 \<Rightarrow> 'a fat_state_scheme \<Rightarrow> 'a fat_state_scheme option"
where
  "fat16_write_file filename data sz s =
     do {
       (has_path, base_name, s1) \<leftarrow> enter_dir filename s;
       s2 \<leftarrow> write_in_dir base_name data sz s1;
       leave_dir has_path (current_path s) s2
     }"

section \<open>Removing\<close>

text \<open>The scan of \<open>fat16_delete_file\<close> (for a file) and \<open>fat16_delete_dir\<close> (for a directory): it also
  remembers where the long-name entries before the entry start.\<close>

datatype removal =
    R_halt
  | R_hit "(nat \<times> nat) option" nat nat "u8 list"
  | R_more "u8 list" u8 "(nat \<times> nat) option"

definition removable :: "bool \<Rightarrow> u8 list \<Rightarrow> u8 list \<Rightarrow> cstr \<Rightarrow> bool" where
  "removable dir e lfn_buf name \<longleftrightarrow> name_matches e lfn_buf name \<and> (e_attributes e AND 0x10 \<noteq> 0) = dir"

function remove_in_sector ::
  "bool \<Rightarrow> cstr \<Rightarrow> nat \<Rightarrow> u8 list \<Rightarrow> nat \<Rightarrow> u8 list \<Rightarrow> u8 \<Rightarrow> (nat \<times> nat) option \<Rightarrow> removal option"
where
  "remove_in_sector dir name sec buf i lfn_buf chk start =
     (if i < 16
      then (case classify (entry_at buf i) lfn_buf chk of
              None \<Rightarrow> None
            | Some End_of_dir \<Rightarrow> Some R_halt
            | Some (Skip b c) \<Rightarrow>
                remove_in_sector dir name sec buf (i + 1) b c
                  (if entry_at buf i ! 0 = 0xE5 then None
                   else if start = None then Some (sec, i) else start)
            | Some (Short e b c) \<Rightarrow>
                (let start' = (if lfn_buf ! 0 \<noteq> 0 \<and> chk \<noteq> lfn_checksum (e_filename e) then None else start)
                 in if removable dir e b name then Some (R_hit start' sec i e)
                    else remove_in_sector dir name sec buf (i + 1) no_name c None))
      else Some (R_more lfn_buf chk start))"
  by pat_completeness auto
termination by (relation "measure (\<lambda>(dir, name, sec, buf, i, b, c, start). 16 - i)") auto

declare remove_in_sector.simps [simp del]

fun remove_in_sectors ::
  "bool \<Rightarrow> cstr \<Rightarrow> u32 \<Rightarrow> nat \<Rightarrow> nat \<Rightarrow> u8 list \<Rightarrow> u8 \<Rightarrow> (nat \<times> nat) option \<Rightarrow> 'a fat_state_scheme \<Rightarrow> removal option"
where
  "remove_in_sectors dir name slba sec 0 lfn_buf chk start s = Some (R_more lfn_buf chk start)"
| "remove_in_sectors dir name slba sec (Suc n) lfn_buf chk start s =
     (case remove_in_sector dir name sec (kdisk_read_sector (slba + of_nat sec) s) 0 lfn_buf chk start of
        Some (R_more b c st) \<Rightarrow> remove_in_sectors dir name slba (Suc sec) n b c st s
      | r \<Rightarrow> r)"

definition remove_in_dir :: "bool \<Rightarrow> cstr \<Rightarrow> 'a fat_state_scheme \<Rightarrow> 'a fat_state_scheme option" where
  "remove_in_dir dir name s =
     (case remove_in_sectors dir name (dir_start s) 0 (dir_sectors s) no_name 0 None s of
        None \<Rightarrow> None
      | Some (R_hit start sec i e) \<Rightarrow>
          if dir \<and> \<not> is_dir_empty (e_cluster_low e) s then Some s
          else free_chain (e_cluster_low e)
                 (case start of
                    Some (ss, si) \<Rightarrow> mark_entries_deleted (dir_start s) ss si sec i s
                  | None \<Rightarrow> mark_entries_deleted (dir_start s) sec i sec i s)
      | Some _ \<Rightarrow> Some s)"

definition fat16_delete_file :: "cstr option \<Rightarrow> 'a fat_state_scheme \<Rightarrow> 'a fat_state_scheme option" where
  "fat16_delete_file filename s =
     (case filename of
        None \<Rightarrow> Some s
      | Some f \<Rightarrow>
          if deref f = 0 then Some s
          else do {
            (has_path, base_name, s1) \<leftarrow> enter_dir f s;
            s2 \<leftarrow> remove_in_dir False base_name s1;
            leave_dir has_path (current_path s) s2
          })"

definition fat16_delete_dir :: "cstr option \<Rightarrow> 'a fat_state_scheme \<Rightarrow> 'a fat_state_scheme option" where
  "fat16_delete_dir dirname s =
     (case dirname of
        None \<Rightarrow> Some s
      | Some f \<Rightarrow>
          if deref f = 0 then Some s
          else do {
            (has_path, base_name, s1) \<leftarrow> enter_dir f s;
            s2 \<leftarrow> remove_in_dir True base_name s1;
            leave_dir has_path (current_path s) s2
          })"

section \<open>Creating and copying\<close>

text \<open>The first sector of a new directory; the other sectors of its cluster keep what they hold.\<close>

definition new_dir_sector :: "u16 \<Rightarrow> u16 \<Rightarrow> u8 list" where
  "new_dir_sector dir_cluster parent =
     put_entry (put_entry (replicate 512 0) 0 (short_entry (46 # replicate 10 32) 0x10 dir_cluster 0))
       1 (short_entry ([46, 46] @ replicate 9 32) 0x10 parent 0)"

definition absolute_path :: "cstr \<Rightarrow> 'a fat_state_scheme \<Rightarrow> u8 list option" where
  "absolute_path dirname s =
     (if deref dirname = 47 then (if 256 \<le> strlen dirname then None else Some (content dirname))
      else if strcmp (current_path s) [47] = 0
      then map_option (\<lambda>r. content (fst r)) (snprintf 256 [47, 37, 115] [ArgStr (Some dirname)])
      else map_option (\<lambda>r. content (fst r))
             (snprintf 256 [37, 115, 47, 37, 115] [ArgStr (Some (current_path s)), ArgStr (Some dirname)]))"

text \<open>The parent path and the last component, which has to fit in 64 bytes.\<close>

definition split_parent :: "u8 list \<Rightarrow> (u8 list \<times> u8 list) option" where
  "split_parent p =
     (let (parent, base) =
            (case strrchr p 47 of
               None \<Rightarrow> ([47], p)
             | Some last_slash \<Rightarrow>
                 if length last_slash = length p then ([47], tl p)
                 else (take (length p - length last_slash) p, tl last_slash))
      in if 64 \<le> strlen base then None else Some (parent, base))"

definition fat16_create_dir :: "cstr option \<Rightarrow> 'a fat_state_scheme \<Rightarrow> (int \<times> 'a fat_state_scheme) option" where
  "fat16_create_dir dirname s =
     (case dirname of
        None \<Rightarrow> Some (- 1, s)
      | Some name \<Rightarrow>
          if \<not> is_mounted s \<or> deref name = 0 then Some (- 1, s)
          else do {
            let back = (\<lambda>r t. do { (x, t') \<leftarrow> fat16_chdir (current_path s) t; Some (r :: int, t') });
            p \<leftarrow> absolute_path name s;
            (parent, base_name) \<leftarrow> split_parent p;
            if deref base_name = 0 then back (- 1) s
            else do {
              (r, s1) \<leftarrow> fat16_chdir parent s;
              if r \<noteq> 0 then back (- 1) s1
              else do {
                e \<leftarrow> find_entry_in_current_dir base_name s1;
                if e \<noteq> None then back (- 1) s1
                else let dir_cluster = find_free_cluster s1
                     in if dir_cluster = 0xFFFF then back (- 1) s1
                        else let s2 = set_fat_entry dir_cluster 0xFFFF s1;
                                 s3 = kdisk_write_sector (cluster_lba dir_cluster s2)
                                        (Some (new_dir_sector dir_cluster (current_dir_cluster s2))) s2;
                                 (added, s4) = add_dir_entry base_name 0x10 dir_cluster 0 s3
                             in back (if added = - 1 then - 1 else 0) s4
              }
            }
          })"

text \<open>\<open>behind\<close> is what lies in memory behind the buffer that \<open>fat16_copy_file\<close> allocates: the last
  sector is written from there.\<close>

definition fat16_copy_file ::
  "u8 list \<Rightarrow> cstr \<Rightarrow> cstr \<Rightarrow> 'a fat_state_scheme \<Rightarrow> (int \<times> 'a fat_state_scheme) option"
where
  "fat16_copy_file behind src dst s =
     (if 256 \<le> strlen src \<or> 256 \<le> strlen dst then None
      else case (strrchr src 47, strrchr dst 47) of
        (Some src_slash, Some dst_slash) \<Rightarrow>
          do {
            let back = (\<lambda>r t. do { (x, t') \<leftarrow> fat16_chdir (current_path s) t; Some (r :: int, t') });
            let src_dir = take (length src - length src_slash) src;
            let dst_dir = take (length dst - length dst_slash) dst;
            (r, s1) \<leftarrow> fat16_chdir (if src_dir = [] then [47] else src_dir) s;
            if r \<noteq> 0 then back (- 1) s1
            else do {
              (sz, s2) \<leftarrow> fat16_get_file_size (tl src_slash) s1;
              if sz = 0 then back (- 1) s2
              else do {
                (buf, s3) \<leftarrow> kmem_alloc sz s2;
                if buf = 0 then back (- 1) s3
                else do {
                  (data, s4) \<leftarrow> fat16_read_file (tl src_slash) 0 sz s3;
                  if length data \<noteq> unat sz then back (- 1) (kmem_free buf s4)
                  else do {
                    (r', s5) \<leftarrow> fat16_chdir (if dst_dir = [] then [47] else dst_dir) s4;
                    if r' \<noteq> 0 then back (- 1) (kmem_free buf s5)
                    else do {
                      s6 \<leftarrow> fat16_write_file (tl dst_slash) (data @ behind) sz s5;
                      back 0 (kmem_free buf s6)
                    }
                  }
                }
              }
            }
          }
      | _ \<Rightarrow> Some (- 1, s))"

section \<open>Formatting and mounting\<close>

text \<open>The flags of the clusters to keep. A cluster number outside of the array of flags or of the
  old table is a write or read outside of it; the recursion over subdirectories
  and the walk along a chain of a directory are bounded by fuel.\<close>

partial_function (option) protect_fat_chain :: "u16 \<Rightarrow> u16 list \<Rightarrow> u8 list \<Rightarrow> u8 list option" where
  "protect_fat_chain c old_fat flags =
     (if in_chain c
      then if length flags \<le> unat c \<or> length old_fat \<le> unat c then None
           else if flags ! unat c \<noteq> 0 then Some flags
           else protect_fat_chain (old_fat ! unat c) old_fat (flags[unat c := 1])
      else Some flags)"

text \<open>The loop over the entries of a directory, with the recursive call as an argument; the result
  tells whether the terminating entry was met.\<close>

fun protect_entries ::
  "(u16 \<Rightarrow> u8 list \<Rightarrow> u8 list option) \<Rightarrow> u16 list \<Rightarrow> u8 list list \<Rightarrow> u8 list \<Rightarrow> (u8 list \<times> bool) option"
where
  "protect_entries sub old_fat [] flags = Some (flags, False)"
| "protect_entries sub old_fat (e # es) flags =
     (if e ! 0 = 0 then Some (flags, True)
      else if e ! 0 = 0xE5 \<or> e_attributes e = 0x0F \<or> is_dot_entry e then protect_entries sub old_fat es flags
      else do {
        flags' \<leftarrow> (if e_attributes e AND 0x10 \<noteq> 0 then sub (e_cluster_low e) flags
                  else protect_fat_chain (e_cluster_low e) old_fat flags);
        protect_entries sub old_fat es flags'
      })"

definition cluster_entries :: "u16 \<Rightarrow> 'a fat_state_scheme \<Rightarrow> u8 list list" where
  "cluster_entries c s =
     concat (map (\<lambda>lba. map (entry_at (kdisk_read_sector lba s)) [0..<16])
       (lbas_from (cluster_lba c s) (unat (sectors_per_cluster s))))"

fun protect_directory_tree ::
  "nat \<Rightarrow> u16 \<Rightarrow> u16 list \<Rightarrow> 'a fat_state_scheme \<Rightarrow> u8 list \<Rightarrow> u8 list option"
where
  "protect_directory_tree 0 c old_fat s flags = None"
| "protect_directory_tree (Suc fuel) c old_fat s flags =
     (if in_chain c
      then if length flags \<le> unat c \<or> length old_fat \<le> unat c then None
           else do {
             (flags', stop) \<leftarrow> protect_entries (\<lambda>c' f. protect_directory_tree fuel c' old_fat s f) old_fat
                 (cluster_entries c s) (flags[unat c := 1]);
             if stop then Some flags' else protect_directory_tree fuel (old_fat ! unat c) old_fat s flags'
           }
      else Some flags)"

text \<open>The boot sector: the parameter block over what the sector held, and the signature.\<close>

definition boot_sector :: "u32 \<Rightarrow> u8 list \<Rightarrow> u8 list" where
  "boot_sector total_sectors old =
     (let total_clusters = total_sectors div 32;
          spf = (ucast (total_clusters * 2 div 512 + 1) :: u16)
      in [0xEB, 0x3C, 0x90] @ bytes ''MEOWMEOW'' @ bytes16 512 @ [32] @ bytes16 256 @ [2] @ bytes16 512
         @ (if total_sectors < 65536 then bytes16 (ucast total_sectors) else bytes16 0)
         @ [0xF8] @ bytes16 spf @ bytes16 63 @ bytes16 255 @ bytes32 0
         @ (if total_sectors < 65536 then bytes32 0 else bytes32 total_sectors)
         @ [0x80, 0, 0x29] @ bytes32 0x12345678 @ bytes ''MEOWMEOW   '' @ bytes ''FAT16   ''
         @ take 448 (drop 62 old) @ [0x55, 0xAA])"

text \<open>One sector of the new table: the entries of protected clusters are kept.\<close>

definition new_fat_entry :: "(u8 list \<times> u16 list) option \<Rightarrow> nat \<Rightarrow> u16 option" where
  "new_fat_entry keep cluster =
     (if cluster = 0 then Some 0xFFF8
      else if cluster = 1 then Some 0xFFFF
      else case keep of
             None \<Rightarrow> Some 0
           | Some (flags, old_fat) \<Rightarrow>
               if length flags \<le> cluster then None
               else if flags ! cluster \<noteq> 0
               then (if length old_fat \<le> cluster then None else Some (old_fat ! cluster))
               else Some 0)"

fun fat_entries :: "(u8 list \<times> u16 list) option \<Rightarrow> nat \<Rightarrow> nat \<Rightarrow> u8 list option" where
  "fat_entries keep cluster 0 = Some []"
| "fat_entries keep cluster (Suc n) =
     do { v \<leftarrow> new_fat_entry keep cluster; r \<leftarrow> fat_entries keep (Suc cluster) n; Some (bytes16 v @ r) }"

text \<open>The loops that write both tables and the root directory; \<open>callback\<close> is told about the progress.\<close>

fun write_fats ::
  "(u32 \<Rightarrow> u32 \<Rightarrow> 'a fat_state_scheme \<Rightarrow> 'a fat_state_scheme) \<Rightarrow> u32 \<Rightarrow> (u8 list \<times> u16 list) option \<Rightarrow> u16
   \<Rightarrow> nat \<Rightarrow> nat \<Rightarrow> 'a fat_state_scheme \<Rightarrow> 'a fat_state_scheme option"
where
  "write_fats callback total_work keep spf sec 0 s = Some s"
| "write_fats callback total_work keep spf sec (Suc n) s =
     do {
       buf \<leftarrow> fat_entries keep (sec * 256) 256;
       let s1 = kdisk_write_sector (256 + of_nat sec) (Some buf) s;
       let s2 = kdisk_write_sector (256 + ucast spf + of_nat sec) (Some buf) s1;
       write_fats callback total_work keep spf (Suc sec) n (callback (of_nat (2 * Suc sec)) total_work s2)
     }"

fun clear_root ::
  "(u32 \<Rightarrow> u32 \<Rightarrow> 'a fat_state_scheme \<Rightarrow> 'a fat_state_scheme) \<Rightarrow> u32 \<Rightarrow> u32 \<Rightarrow> u32 \<Rightarrow> nat \<Rightarrow> nat
   \<Rightarrow> 'a fat_state_scheme \<Rightarrow> 'a fat_state_scheme"
where
  "clear_root callback total_work progress root_lba i 0 s = s"
| "clear_root callback total_work progress root_lba i (Suc n) s =
     clear_root callback total_work (progress + 1) root_lba (Suc i) n
       (callback (progress + 1) total_work (kdisk_write_sector (root_lba + of_nat i) (Some (replicate 512 0)) s))"

text \<open>What is to be kept: the cluster of \<open>/system\<close> if it is a directory, with the flags and the old
  table, and the heap blocks that hold these two.\<close>

definition find_system :: "'a fat_state_scheme \<Rightarrow> u16 option option" where
  "find_system s =
     do {
       r \<leftarrow> find_entry_in_current_dir (bytes ''system'') (s\<lparr>current_dir_cluster := 0, current_path := [47]\<rparr>);
       Some (case r of
               None \<Rightarrow> None
             | Some e \<Rightarrow> if e_attributes e AND 0x10 \<noteq> 0 then Some (e_cluster_low e) else None)
     }"

definition read_old_fat :: "'a fat_state_scheme \<Rightarrow> u16 list" where
  "read_old_fat s =
     concat (map (\<lambda>i. map (\<lambda>k. le16 (kdisk_read_sector (ucast (reserved_sectors s) + of_nat i) s) (2 * k)) [0..<256])
       [0..<unat (sectors_per_fat s)])"

definition keep_system ::
  "nat \<Rightarrow> bool \<Rightarrow> u32 \<Rightarrow> 'a fat_state_scheme
   \<Rightarrow> ((u16 \<times> u8 list \<times> u16 list \<times> u32 \<times> u32) option \<times> 'a fat_state_scheme) option"
where
  "keep_system fuel preserve_system total_sectors s =
     (if preserve_system \<and> is_mounted s
      then do {
        found \<leftarrow> find_system s;
        case found of
          None \<Rightarrow> Some (None, s)
        | Some start \<Rightarrow>
            if sectors_per_cluster s = 0 then None
            else do {
              let total_clusters = total_sectors div ucast (sectors_per_cluster s) + 2;
              (p, s1) \<leftarrow> kmem_zalloc (ucast (sectors_per_fat s) * 512) s;
              (q, s2) \<leftarrow> kmem_zalloc total_clusters s1;
              if p = 0 \<or> q = 0 then None
              else do {
                let old_fat = read_old_fat s2;
                flags \<leftarrow> protect_directory_tree fuel start old_fat s2 (replicate (unat total_clusters) 0);
                Some (Some (start, flags, old_fat, p, q), s2)
              }
            }
      }
      else Some (None, s))"

definition fat16_format_drive ::
  "nat \<Rightarrow> u32 \<Rightarrow> (u32 \<Rightarrow> u32 \<Rightarrow> 'a fat_state_scheme \<Rightarrow> 'a fat_state_scheme) \<Rightarrow> bool
   \<Rightarrow> 'a fat_state_scheme \<Rightarrow> 'a fat_state_scheme option"
where
  "fat16_format_drive fuel max_sectors callback preserve_system s =
     do {
       let total_disk_sectors = ata_get_total_sectors s;
       let total_sectors = (if max_sectors = 0 \<or> max_sectors > total_disk_sectors then total_disk_sectors else max_sectors);
       let boot_buf = kdisk_read_sector 0 s;
       (keep, s1) \<leftarrow> keep_system fuel preserve_system total_sectors s;
       let spf = (ucast (total_sectors div 32 * 2 div 512 + 1) :: u16);
       let s2 = kdisk_write_sector 0 (Some (boot_sector total_sectors boot_buf)) s1;
       let total_work = ucast spf * 2 + 32;
       s3 \<leftarrow> write_fats callback total_work (map_option (\<lambda>(start, flags, old_fat, p, q). (flags, old_fat)) keep)
           spf 0 (unat spf) s2;
       let s4 = clear_root callback total_work (2 * ucast spf) (256 + 2 * ucast spf) 0 32 s3;
       case keep of
         None \<Rightarrow> Some s4
       | Some (start, flags, old_fat, p, q) \<Rightarrow>
           let s5 = (if 2 \<le> start then snd (add_dir_entry (bytes ''system'') 0x10 start 0 s4) else s4)
           in Some (kmem_free q (kmem_free p s5))
     }"

definition fat16_initialize :: "nat \<Rightarrow> 'a fat_state_scheme \<Rightarrow> 'a fat_state_scheme option" where
  "fat16_initialize fuel s =
     do {
       let buf = kdisk_read_sector 0 s;
       s1 \<leftarrow> (if le16 buf 11 \<noteq> 512 \<or> buf ! 16 \<noteq> 2
             then fat16_format_drive fuel 0 (\<lambda>c t s. s) False s else Some s);
       let bpb = kdisk_read_sector 0 s1;
       let spf = le16 bpb 22;
       let root = ucast (le16 bpb 14) + ucast (bpb ! 16) * ucast spf;
       let root_sectors = (ucast (le16 bpb 17) * 32) div 512;
       Some (s1\<lparr>reserved_sectors := le16 bpb 14, sectors_per_fat := spf, sectors_per_cluster := ucast (bpb ! 13),
         root_dir_lba := root, root_dir_sectors := root_sectors, data_region_lba := root + root_sectors,
         current_dir_cluster := 0, is_mounted := True, current_path := [47]\<rparr>)
     }"

section \<open>The driver\<close>

definition fat16_vfs_read :: "u32 \<Rightarrow> u32 \<Rightarrow> u32 \<Rightarrow> 'a fat_state_scheme \<Rightarrow> (u8 list \<times> 'a fat_state_scheme) option" where
  "fat16_vfs_read node offset sz s = fat16_read_file (nd_name (nodes s node)) offset sz s"

text \<open>\<open>memcpy(temp_buffer + offset, buffer, size)\<close> outside of the buffer, which an \<open>offset + size\<close> that
  wraps asks for, is \<open>None\<close>; \<open>behind\<close> is as above.\<close>

definition fat16_vfs_write ::
  "u8 list \<Rightarrow> u32 \<Rightarrow> u32 \<Rightarrow> u32 \<Rightarrow> u8 list \<Rightarrow> 'a fat_state_scheme \<Rightarrow> (u32 \<times> 'a fat_state_scheme) option"
where
  "fat16_vfs_write behind node offset sz buff s =
     do {
       let old = nd_length (nodes s node);
       let new_size = (if offset + sz > old then offset + sz else old);
       (p, s1) \<leftarrow> kmem_zalloc new_size s;
       if p = 0 then Some (0, s1)
       else do {
         let name = nd_name (nodes s node);
         (prefix, s2) \<leftarrow> (if old > 0 then fat16_read_file name 0 old s1 else Some ([], s1));
         let temp = prefix @ replicate (unat new_size - length prefix) 0;
         temp' \<leftarrow> memcpy temp (unat offset) buff (unat sz);
         s3 \<leftarrow> (if old > 0 then fat16_delete_file (Some name) s2 else Some s2);
         s4 \<leftarrow> fat16_write_file name (temp' @ behind) new_size s3;
         Some (sz, kmem_free p (set_node node (nodes s4 node\<lparr>nd_length := new_size\<rparr>) s4))
       }
     }"

definition fat16_vfs_open :: "cstr option \<Rightarrow> 'a fat_state_scheme \<Rightarrow> (u32 \<times> 'a fat_state_scheme) option" where
  "fat16_vfs_open filename s =
     (case filename of
        None \<Rightarrow> Some (0, s)
      | Some f \<Rightarrow>
          if 256 \<le> strlen f then None
          else do {
            let (has_path, directory, base_name) =
              (case strrchr f 47 of
                 None \<Rightarrow> (False, [47], f)
               | Some slash \<Rightarrow>
                   let dir = take (length f - length slash) f
                   in (True, if dir = [] then [47] else dir, tl slash));
            (r, s1) \<leftarrow> (if has_path then fat16_chdir directory s else Some (0, s));
            if r \<noteq> 0 then Some (0, s1)
            else do {
              (file_size, s2) \<leftarrow> fat16_get_file_size base_name s1;
              (node, s3) \<leftarrow> (if file_size > 0
                then do {
                  (p, t) \<leftarrow> kmem_zalloc SIZEOF_NODE s2;
                  if p = 0 then Some (0, t)
                  else do {
                    nm \<leftarrow> strcpy (replicate 256 0) f;
                    Some (p, set_node p (zero_node\<lparr>nd_name := nm, nd_type := VFS_FILE, nd_length := file_size,
                      nd_read := Fn_fat16_read, nd_write := Fn_fat16_write, nd_mode := 0x1ED, nd_ref_count := 1\<rparr>) t)
                  }
                }
                else Some (0, s2));
              (r', s4) \<leftarrow> fat16_chdir (current_path s) s3;
              Some (node, s4)
            }
          })"

definition fat16_vfs_driver_initialize :: "'a fat_state_scheme \<Rightarrow> (int \<times> 'a fat_state_scheme) option" where
  "fat16_vfs_driver_initialize s =
     vfs_mount [47] (bytes ''fat16'') (vfs_register_driver \<lparr>drv_name = bytes ''fat16'', drv_open = Fn_fat16_open\<rparr> s)"

end
