(* ===== verification/Fat16_Data.thy ===== *)
theory Fat16_Data
  imports Fat16_Ops
begin

text \<open>
  What the table and the data region of the FAT16 file system hold after a file is
  written: the data reads back along the chain, no allocated cluster is touched, and
  what happens when the disk runs full. A volume is one whose tables, directory and data
  region do not overlap and lie below 4 GiB.
\<close>

section \<open>A volume\<close>

definition volume :: "'a fat_state_scheme \<Rightarrow> bool" where
  "volume s \<longleftrightarrow> disk_ok s \<and> unat (sectors_per_fat s) \<le> 255 \<and> 0 < unat (sectors_per_cluster s) \<and>
     unat (reserved_sectors s) + 2 * unat (sectors_per_fat s) \<le> unat (data_region_lba s) \<and>
     unat (data_region_lba s) + fat_size s * unat (sectors_per_cluster s) \<le> 2 ^ 23"

definition valid_cluster :: "u16 \<Rightarrow> 'a fat_state_scheme \<Rightarrow> bool" where
  "valid_cluster c s \<longleftrightarrow> 2 \<le> unat c \<and> unat c < fat_size s"

text \<open>Sector \<open>k\<close> of cluster \<open>c\<close>.\<close>

definition data_sector :: "u16 \<Rightarrow> nat \<Rightarrow> 'a fat_state_scheme \<Rightarrow> u32" where
  "data_sector c k s = cluster_lba c s + of_nat k"

lemma in_chain_valid: "volume s \<Longrightarrow> valid_cluster c s \<Longrightarrow> in_chain c"
  by (auto simp: volume_def valid_cluster_def in_chain_def fat_size_def word_le_nat_alt word_less_nat_alt)

lemma unat_data_sector:
  assumes "volume s" "valid_cluster c s" "k < unat (sectors_per_cluster s)"
  shows "unat (data_sector c k s) = unat (data_region_lba s) + (unat c - 2) * unat (sectors_per_cluster s) + k"
    "wrapped_sector (data_sector c k s) = data_sector c k s" "data_sector c k s \<notin> table_sectors s"
proof -
  let ?S = "unat (sectors_per_cluster s)" and ?D = "unat (data_region_lba s)"
  let ?n = "?D + (unat c - 2) * ?S + k"
  have "(unat c - 2) * ?S + k < (unat c - 2 + 1) * ?S" using assms(3) by simp
  also have "\<dots> \<le> fat_size s * ?S" using assms(2) by (intro mult_right_mono) (auto simp: valid_cluster_def)
  finally have lt: "?n < 2 ^ 23" using assms(1) by (simp add: volume_def)
  have "data_sector c k s = of_nat ?n"
  proof -
    have "(ucast c - 2 :: u32) = of_nat (unat c - 2)" using assms(2) by (simp add: valid_cluster_def of_nat_diff)
    then show ?thesis by (simp add: data_sector_def cluster_lba_def)
  qed
  moreover have "unat (of_nat ?n :: u32) = ?n" using lt by (intro unat_of_nat_small) simp
  ultimately show u: "unat (data_sector c k s) = ?n" by (simp only:)
  then show "wrapped_sector (data_sector c k s) = data_sector c k s"
    using lt by (intro wrapped_sector_small) simp
  show "data_sector c k s \<notin> table_sectors s"
  proof
    assume "data_sector c k s \<in> table_sectors s"
    then obtain copy q where cq: "data_sector c k s = fat_sector copy q s" "copy \<le> 1" "q < unat (sectors_per_fat s)"
      by (auto simp: table_sectors_def)
    have "copy = 0 \<or> copy = 1" "q < 65536" using cq u16_less [of "sectors_per_fat s"] by linarith+
    then have "unat (data_sector c k s) < unat (reserved_sectors s) + 2 * unat (sectors_per_fat s)"
      using cq unat_fat_sector(1) [of copy q s] by auto
    then show False using u assms(1) by (simp add: volume_def)
  qed
qed

lemma data_sector_inj:
  assumes "volume s" "valid_cluster c s" "valid_cluster c' s" "k < unat (sectors_per_cluster s)"
    "k' < unat (sectors_per_cluster s)"
  shows "data_sector c k s = data_sector c' k' s \<longleftrightarrow> c = c' \<and> k = k'"
proof
  let ?S = "unat (sectors_per_cluster s)"
  assume "data_sector c k s = data_sector c' k' s"
  then have "(unat c - 2) * ?S + k = (unat c' - 2) * ?S + k'"
    using unat_data_sector(1) [OF assms(1,2,4)] unat_data_sector(1) [OF assms(1,3,5)] by simp
  from arg_cong [OF this, of "\<lambda>x. x div ?S"] arg_cong [OF this, of "\<lambda>x. x mod ?S"]
  have "unat c - 2 = unat c' - 2" "k = k'" using assms(4,5) by simp_all
  then show "c = c' \<and> k = k'" using assms(2,3) by (auto simp: valid_cluster_def word_unat_eq_iff)
qed simp

lemma lbas_data: "lbas_from (cluster_lba c s) n = map (\<lambda>k. data_sector c k s) [0..<n]"
  by (simp add: lbas_from_def data_sector_def)

text \<open>States that differ in sectors only.\<close>

definition same_fs :: "'a fat_state_scheme \<Rightarrow> 'a fat_state_scheme \<Rightarrow> bool" where
  "same_fs s t \<longleftrightarrow> sectors_per_fat t = sectors_per_fat s \<and> reserved_sectors t = reserved_sectors s \<and>
     sectors_per_cluster t = sectors_per_cluster s \<and> data_region_lba t = data_region_lba s \<and>
     root_dir_lba t = root_dir_lba s \<and> root_dir_sectors t = root_dir_sectors s \<and>
     current_dir_cluster t = current_dir_cluster s \<and> current_path t = current_path s \<and> is_mounted t = is_mounted s"

lemma same_fs_refl [simp]: "same_fs s s"
  by (simp add: same_fs_def)

lemma same_fs_trans: "same_fs s t \<Longrightarrow> same_fs t u \<Longrightarrow> same_fs s u"
  by (simp add: same_fs_def)

lemma same_fs_set [simp]: "same_fs s (set_fat_entry c v s)"
  by (simp add: same_fs_def)

lemma same_fs_cong:
  assumes "same_fs s t"
  shows "fat_size t = fat_size s" "table_sectors t = table_sectors s" "data_sector c k t = data_sector c k s"
    "valid_cluster c t = valid_cluster c s" "cluster_lba c t = cluster_lba c s" "fat_sector copy q t = fat_sector copy q s"
    "bytes_per_cluster t = bytes_per_cluster s"
  using assms by (simp_all add: same_fs_def fat_size_def table_sectors_def fat_sector_def data_sector_def
      cluster_lba_def valid_cluster_def bytes_per_cluster_def)

lemma volume_cong: "same_fs s t \<Longrightarrow> disk_ok t \<Longrightarrow> volume s \<Longrightarrow> volume t"
  by (simp add: volume_def same_fs_def fat_size_def)

lemma fat_copy_cong:
  assumes "same_fs s t" "k < fat_size s" "\<And>x. x \<in> table_sectors s \<Longrightarrow> sectors t x = sectors s x"
  shows "fat_copy 0 t k = fat_copy 0 s k"
proof -
  have "fat_sector 0 (k div 256) s \<in> table_sectors s"
    using table_sector [OF assms(2)] by (auto simp: table_sectors_def)
  then show ?thesis using assms(1,3) by (simp add: fat_copy_def same_fs_cong)
qed

section \<open>One cluster\<close>

text \<open>The bytes of the data that sector \<open>k\<close> of the \<open>i\<close>-th cluster takes, from byte \<open>at\<close> on.\<close>

definition slice :: "u8 list \<Rightarrow> nat \<Rightarrow> u8 list" where
  "slice data at = take 512 (drop at data)"

text \<open>The data list reaches to the end of the last sector that starts below \<open>sz\<close>.\<close>

definition covers :: "u8 list \<Rightarrow> u32 \<Rightarrow> bool" where
  "covers data sz \<longleftrightarrow> 512 * ((unat sz + 511) div 512) \<le> length data"

lemma coversD:
  assumes "covers data sz" "512 * m < unat sz"
  shows "512 * m + 512 \<le> length data"
proof -
  have "m + 1 \<le> (unat sz + 511) div 512" using assms(2) by (simp add: less_eq_div_iff_mult_less_eq)
  then have "512 * (m + 1) \<le> 512 * ((unat sz + 511) div 512)" by (rule mult_le_mono2)
  then show ?thesis using assms(1) unfolding covers_def by (simp only: distrib_left mult_1_right)
qed

lemma disk_ok_update:
  "disk_ok s \<Longrightarrow> length b = 512 \<Longrightarrow> disk_ok (s\<lparr>sectors := (sectors s)(x := b)\<rparr>)"
  by (simp add: disk_ok_def)

lemma write_sectors_effect:
  assumes "volume s" "valid_cluster c s" "k + n \<le> unat (sectors_per_cluster s)" "covers data sz"
    "(i * unat (sectors_per_cluster s) + k + n) * 512 \<le> 2 ^ 32"
  shows "\<exists>t. write_sectors data sz (cluster_lba c s) i k n s = Some t \<and> same_fs s t \<and> disk_ok t \<and>
    (\<forall>j. k \<le> j \<and> j < k + n \<longrightarrow> sectors t (data_sector c j s) =
       (let at = (i * unat (sectors_per_cluster s) + j) * 512
        in if at < unat sz then slice data at else sectors s (data_sector c j s))) \<and>
    (\<forall>x. (\<forall>j. k \<le> j \<and> j < k + n \<longrightarrow> x \<noteq> data_sector c j s) \<longrightarrow> sectors t x = sectors s x)"
  using assms
proof (induction n arbitrary: k s)
  case 0
  then show ?case by (auto simp: volume_def)
next
  case (Suc n)
  let ?S = "unat (sectors_per_cluster s)"
  let ?at = "(i * ?S + k) * 512"
  let ?o = "of_nat i * bytes_per_cluster s + of_nat (k * 512) :: u32"
  have k: "k < ?S" using Suc.prems(3) by simp
  have le: "?at < 2 ^ 32" using Suc.prems(5) by (simp add: algebra_simps)
  have "?o = of_nat ?at" by (simp add: bytes_per_cluster_def algebra_simps)
  moreover have "unat (of_nat ?at :: u32) = ?at" using le by (intro unat_of_nat_small) simp
  ultimately have o: "unat ?o = ?at" by (simp only:)
  have at: "cluster_lba c s + of_nat k = data_sector c k s" by (simp add: data_sector_def)
  define s1 where "s1 = kdisk_write_sector (cluster_lba c s + of_nat k)
    (if ?at < unat sz then Some (slice data ?at) else None) s"
  have room: "?at + 512 \<le> length data" if "?at < unat sz"
    using coversD [OF Suc.prems(4), of "i * ?S + k"] that by (simp add: mult.commute)
  then have len: "length (slice data ?at) = 512" if "?at < unat sz"
    using that unfolding slice_def length_take length_drop by (intro min_absorb2) (simp add: le_diff_conv2)
  have step: "write_sectors data sz (cluster_lba c s) i k (Suc n) s = write_sectors data sz (cluster_lba c s) i (Suc k) n s1"
  proof (cases "?at < unat sz")
    case True
    then have "?o < sz" by (simp only: word_less_nat_alt o)
    then show ?thesis using True room
      by (simp only: write_sectors.simps Let_def if_True o s1_def slice_def)
  next
    case False
    have "s1 = kdisk_write_sector (cluster_lba c s + of_nat k) None s" unfolding s1_def if_not_P [OF False] ..
    moreover have "\<not> ?o < sz" unfolding word_less_nat_alt o by (rule False)
    ultimately show ?thesis unfolding write_sectors.simps Let_def by (simp only: if_False)
  qed
  have s1: "s1 = s\<lparr>sectors := (sectors s)(data_sector c k s :=
      (if ?at < unat sz then slice data ?at else sectors s (data_sector c k s)))\<rparr>"
  proof (cases "?at < unat sz")
    case True
    show ?thesis unfolding s1_def at if_P [OF True]
      by (simp only: kdisk_write_sector_eq [OF len [OF True]] unat_data_sector(2) [OF Suc.prems(1,2) k])
  next
    case False
    have "s1 = s" unfolding s1_def if_not_P [OF False] by (rule kdisk_write_sector_null)
    then show ?thesis unfolding if_not_P [OF False] by simp
  qed
  have same: "same_fs s s1" by (simp add: s1 same_fs_def)
  have "length (if ?at < unat sz then slice data ?at else sectors s (data_sector c k s)) = 512"
    using len Suc.prems(1) by (cases "?at < unat sz") (simp_all only: if_True if_False volume_def disk_ok_def)
  then have ok: "disk_ok s1" using Suc.prems(1) unfolding s1 volume_def by (intro disk_ok_update) blast
  have "volume s1" "valid_cluster c s1" using volume_cong [OF same ok] Suc.prems same by (simp_all add: same_fs_cong)
  moreover have S1: "unat (sectors_per_cluster s1) = ?S" using same by (simp add: same_fs_def)
  ultimately obtain t where t: "write_sectors data sz (cluster_lba c s) i (Suc k) n s1 = Some t" "same_fs s1 t" "disk_ok t"
    "\<And>j. Suc k \<le> j \<Longrightarrow> j < Suc k + n \<Longrightarrow> sectors t (data_sector c j s) =
       (let at = (i * ?S + j) * 512 in if at < unat sz then slice data at else sectors s1 (data_sector c j s))"
    "\<And>x. (\<And>j. Suc k \<le> j \<Longrightarrow> j < Suc k + n \<Longrightarrow> x \<noteq> data_sector c j s) \<Longrightarrow> sectors t x = sectors s1 x"
    using Suc.IH [of s1 "Suc k"] Suc.prems(3-5) same_fs_cong [OF same] by (auto simp: add.assoc Let_def)
  have inj: "data_sector c j s = data_sector c k s \<longleftrightarrow> j = k" if "j < k + Suc n" for j
    using data_sector_inj [OF Suc.prems(1,2,2) _ k, of j] that Suc.prems(3) by simp
  have "sectors t (data_sector c j s) =
       (let at = (i * ?S + j) * 512 in if at < unat sz then slice data at else sectors s (data_sector c j s))"
    if j: "k \<le> j" "j < k + Suc n" for j
  proof (cases "j = k")
    case True
    have "sectors t (data_sector c k s) = sectors s1 (data_sector c k s)"
    proof (rule t(5))
      fix j assume "Suc k \<le> j" "j < Suc k + n"
      with inj [of j] show "data_sector c k s \<noteq> data_sector c j s" by auto
    qed
    then show ?thesis by (simp add: True s1)
  next
    case False
    then show ?thesis using t(4) [of j] inj [OF j(2)] j by (simp add: s1 Let_def)
  qed
  moreover have "sectors t x = sectors s x" if x: "\<forall>j. k \<le> j \<and> j < k + Suc n \<longrightarrow> x \<noteq> data_sector c j s" for x
    using t(5) [of x] x by (auto simp: s1)
  ultimately show ?case using t(1-3) same_fs_trans [OF same t(2)] unfolding step
    by (intro exI [of _ t] conjI allI impI) simp_all
qed

text \<open>Reading the sectors of a cluster that holds the data from byte \<open>at\<close> on.\<close>

lemma read_sectors_slices:
  assumes "unat sz \<le> length data" "length out = min (unat sz) ((b + k) * 512)"
    "\<And>j. k \<le> j \<Longrightarrow> j < k + n \<Longrightarrow> (b + j) * 512 < unat sz \<Longrightarrow>
       kdisk_read_sector (f j) s = slice data ((b + j) * 512)"
  shows "read_sectors (map f [k..<k + n]) 0 (unat sz) out s =
    (0, out @ take (min (n * 512) (unat sz - length out)) (drop (length out) data))"
  using assms(2,3)
proof (induction n arbitrary: k out)
  case 0
  then show ?case by simp
next
  case (Suc n)
  let ?L = "length out"
  have l: "map f [k..<k + Suc n] = f k # map f [Suc k..<Suc k + n]" by (simp add: upt_conv_Cons del: upt_Suc)
  show ?case
  proof (cases "?L < unat sz")
    case True
    then have L: "?L = (b + k) * 512" using Suc.prems(1) by (simp add: min_def split: if_splits)
    let ?m = "min 512 (unat sz - ?L)"
    let ?out = "out @ take ?m (drop ?L data)"
    have sector: "kdisk_read_sector (f k) s = slice data ?L" using Suc.prems(2) [of k] True L by simp
    have "take ?m (drop 0 (kdisk_read_sector (f k) s)) = take ?m (drop ?L data)"
      by (simp add: sector slice_def)
    then have step: "read_sectors (map f [k..<k + Suc n]) 0 (unat sz) out s =
        read_sectors (map f [Suc k..<Suc k + n]) 0 (unat sz) ?out s"
      using True unfolding l by simp
    have len: "length ?out = ?L + ?m" using True assms(1) by simp
    have "length ?out = min (unat sz) ((b + Suc k) * 512)" unfolding len using True L
      by (simp only: add_Suc_right mult_Suc distrib_right)
    from Suc.IH [OF this] Suc.prems(2)
    have "read_sectors (map f [Suc k..<Suc k + n]) 0 (unat sz) ?out s =
        (0, ?out @ take (min (n * 512) (unat sz - (?L + ?m))) (drop (?L + ?m) data))"
      by (simp only: len)
    moreover have sum: "?m + min (n * 512) (unat sz - (?L + ?m)) = min (Suc n * 512) (unat sz - ?L)"
      unfolding mult_Suc by linarith
    have "take (min (Suc n * 512) (unat sz - ?L)) (drop ?L data) =
        take ?m (drop ?L data) @ take (min (n * 512) (unat sz - (?L + ?m))) (drop ?m (drop ?L data))"
      unfolding sum [symmetric] by (rule take_add)
    then have "take (min (Suc n * 512) (unat sz - ?L)) (drop ?L data) =
        take ?m (drop ?L data) @ take (min (n * 512) (unat sz - (?L + ?m))) (drop (?L + ?m) data)"
      by (simp only: drop_drop add.commute [of ?m ?L])
    ultimately show ?thesis unfolding step by simp
  next
    case False
    then show ?thesis unfolding l by simp
  qed
qed

section \<open>A file\<close>

text \<open>What writing leaves alone: the sectors below the data region outside the tables, and the table
  entries and sectors of the clusters that are in use.\<close>

definition kept :: "u16 set \<Rightarrow> 'a fat_state_scheme \<Rightarrow> 'a fat_state_scheme \<Rightarrow> bool" where
  "kept except s t \<longleftrightarrow>
     (\<forall>x. x \<notin> table_sectors s \<and> unat x < unat (data_region_lba s) \<longrightarrow> sectors t x = sectors s x) \<and>
     (\<forall>c. valid_cluster c s \<and> get_fat_entry c s \<noteq> 0 \<and> c \<notin> except \<longrightarrow>
        get_fat_entry c t = get_fat_entry c s \<and>
        (\<forall>k < unat (sectors_per_cluster s). sectors t (data_sector c k s) = sectors s (data_sector c k s)))"

lemma kept_trans:
  "same_fs s t \<Longrightarrow> kept a s t \<Longrightarrow> kept b t u \<Longrightarrow> (\<And>c. c \<in> b \<Longrightarrow> c \<in> a \<or> get_fat_entry c s = 0) \<Longrightarrow> kept a s u"
  unfolding kept_def by (simp only: same_fs_cong) (metis same_fs_def)

lemma free_cluster_next:
  assumes "volume s" "free_clusters s \<noteq> {}"
  shows "valid_cluster (find_free_cluster s) s" "get_fat_entry (find_free_cluster s) s = 0"
    "unat (find_free_cluster s) \<in> free_clusters s" "find_free_cluster s \<noteq> 0xFFFF"
proof -
  let ?k = "LEAST k. k \<in> free_clusters s"
  have k: "?k \<in> free_clusters s" using assms(2) by (metis LeastI ex_in_conv)
  have "fat_size s \<le> 65280" using assms(1) by (simp add: volume_def fat_size_def)
  then have lt: "?k < 65535" using k by (simp add: free_clusters_def)
  have ok: "disk_ok s" using assms(1) by (simp add: volume_def)
  have f: "find_free_cluster s = of_nat ?k" using find_free_cluster_spec [OF ok] assms(2) by simp
  then have u: "unat (find_free_cluster s) = ?k" using lt by (simp add: unat_of_nat_small)
  then show "unat (find_free_cluster s) \<in> free_clusters s" using k by simp
  then show "valid_cluster (find_free_cluster s) s" "get_fat_entry (find_free_cluster s) s = 0"
    by (simp_all add: free_clusters_def valid_cluster_def get_fat_entry_eq [OF ok])
  show "find_free_cluster s \<noteq> 0xFFFF"
  proof
    assume "find_free_cluster s = 0xFFFF"
    then have "?k = 65535" using u by simp
    then show False using lt by simp
  qed
qed

lemma free_clusters_set:
  assumes "volume s" "valid_cluster c s" "v \<noteq> 0"
  shows "free_clusters (set_fat_entry c v s) = free_clusters s - {unat c}"
proof -
  have ok: "disk_ok s" "unat c < fat_size s" using assms by (simp_all add: volume_def valid_cluster_def)
  have small: "fat_size s \<le> 65280" using assms(1) by (simp add: volume_def fat_size_def)
  have "fat_copy 0 (set_fat_entry c v s) k = (if k = unat c then v else fat_copy 0 s k)" if "k < fat_size s" for k
  proof -
    have u: "unat (of_nat k :: u16) = k" using that small by (simp add: unat_of_nat_small)
    have "get_fat_entry (of_nat k) (set_fat_entry c v s) = (if of_nat k = c then v else get_fat_entry (of_nat k) s)"
      using ok that by (intro get_set_fat_entry) (simp_all add: u)
    then show ?thesis using ok by (auto simp: get_fat_entry_eq disk_ok_set_fat_entry u word_unat_eq_iff)
  qed
  then show ?thesis using assms(3) by (auto simp: free_clusters_def split: if_splits)
qed

lemma finite_free_clusters [simp]: "finite (free_clusters s)"
  by (simp add: free_clusters_def)

lemma kept_set_fat_entry:
  assumes "volume s" "valid_cluster c s"
  shows "kept {c} s (set_fat_entry c v s)"
proof -
  have ok: "disk_ok s" "unat c < fat_size s" using assms by (simp_all add: volume_def valid_cluster_def)
  show ?thesis unfolding kept_def
    using unat_data_sector(3) [OF assms(1)] ok get_set_fat_entry [OF ok]
    by (auto simp: sectors_set_fat_entry_other valid_cluster_def)
qed

lemma write_cluster_effect:
  assumes "volume s" "valid_cluster c s" "covers data sz" "(i + 1) * (unat (sectors_per_cluster s) * 512) \<le> 2 ^ 32"
  shows "\<exists>t. write_sectors data sz (cluster_lba c s) i 0 (unat (sectors_per_cluster s)) s = Some t \<and>
    same_fs s t \<and> disk_ok t \<and> kept {c} s t \<and> (\<forall>c'. valid_cluster c' s \<longrightarrow> get_fat_entry c' t = get_fat_entry c' s) \<and>
    free_clusters t = free_clusters s \<and>
    (\<forall>k. k < unat (sectors_per_cluster s) \<and> (i * unat (sectors_per_cluster s) + k) * 512 < unat sz \<longrightarrow>
       sectors t (data_sector c k s) = slice data ((i * unat (sectors_per_cluster s) + k) * 512))"
proof -
  let ?S = "unat (sectors_per_cluster s)"
  have "(i * ?S + 0 + ?S) * 512 \<le> 2 ^ 32" using assms(4) by (simp add: algebra_simps)
  then obtain t where t: "write_sectors data sz (cluster_lba c s) i 0 ?S s = Some t" "same_fs s t" "disk_ok t"
    "\<And>j. j < ?S \<Longrightarrow> sectors t (data_sector c j s) =
       (let at = (i * ?S + j) * 512 in if at < unat sz then slice data at else sectors s (data_sector c j s))"
    "\<And>x. (\<And>j. j < ?S \<Longrightarrow> x \<noteq> data_sector c j s) \<Longrightarrow> sectors t x = sectors s x"
    using write_sectors_effect [OF assms(1,2) _ assms(3), of 0 ?S i] by auto
  have table: "sectors t x = sectors s x" if "x \<in> table_sectors s" for x
    using unat_data_sector(3) [OF assms(1,2)] that by (intro t(5)) blast
  have copy: "fat_copy 0 t k = fat_copy 0 s k" if "k < fat_size s" for k
    by (rule fat_copy_cong [OF t(2) that table])
  have ok: "disk_ok s" using assms(1) by (simp add: volume_def)
  have entry: "get_fat_entry c' t = get_fat_entry c' s" if "valid_cluster c' s" for c'
    using copy that by (simp add: get_fat_entry_eq ok t(3) valid_cluster_def)
  have "free_clusters t = free_clusters s"
    using copy by (auto simp: free_clusters_def same_fs_cong [OF t(2)])
  moreover have "kept {c} s t" unfolding kept_def
  proof (intro conjI allI impI)
    fix x assume x: "x \<notin> table_sectors s \<and> unat x < unat (data_region_lba s)"
    show "sectors t x = sectors s x"
      using unat_data_sector(1) [OF assms(1,2)] x by (intro t(5)) auto
  next
    fix c' assume c': "valid_cluster c' s \<and> get_fat_entry c' s \<noteq> 0 \<and> c' \<notin> {c}"
    show "get_fat_entry c' t = get_fat_entry c' s" using c' entry by blast
    fix k assume "k < ?S"
    then show "sectors t (data_sector c' k s) = sectors s (data_sector c' k s)"
      using data_sector_inj [OF assms(1) _ assms(2)] c' by (intro t(5)) blast
  qed
  ultimately show ?thesis using t(1-4) entry by (intro exI [of _ t]) (simp add: Let_def)
qed

text \<open>One turn of the reading loop over a cluster that holds its part of the data.\<close>

lemma read_chain_turn:
  assumes "volume t" "valid_cluster c t" "unat sz \<le> length data"
    "length out = i * (unat (sectors_per_cluster t) * 512)" "i * (unat (sectors_per_cluster t) * 512) < unat sz"
    "\<And>k. k < unat (sectors_per_cluster t) \<Longrightarrow> (i * unat (sectors_per_cluster t) + k) * 512 < unat sz \<Longrightarrow>
       sectors t (data_sector c k t) = slice data ((i * unat (sectors_per_cluster t) + k) * 512)"
  shows "read_chain c 0 (unat sz) out t = read_chain (get_fat_entry c t) 0 (unat sz)
    (out @ take (min (unat (sectors_per_cluster t) * 512) (unat sz - length out)) (drop (length out) data)) t"
proof -
  let ?S = "unat (sectors_per_cluster t)"
  have ok: "disk_ok t" using assms(1) by (simp add: volume_def)
  have "kdisk_read_sector (data_sector c k t) t = slice data ((i * ?S + k) * 512)"
    if "k < ?S" "(i * ?S + k) * 512 < unat sz" for k
    using assms(6) [OF that] unat_data_sector(2) [OF assms(1,2) that(1)] by (simp add: kdisk_read_sector_eq [OF ok])
  moreover have "length out = min (unat sz) ((i * ?S + 0) * 512)" using assms(4,5) by (simp add: mult.assoc)
  ultimately have "read_sectors (map (\<lambda>k. data_sector c k t) [0..<0 + ?S]) 0 (unat sz) out t =
      (0, out @ take (min (?S * 512) (unat sz - length out)) (drop (length out) data))"
    by (intro read_sectors_slices [OF assms(3), where b = "i * ?S"]) auto
  then show ?thesis using in_chain_valid [OF assms(1,2)] assms(4,5)
    by (subst read_chain.simps) (simp add: lbas_data)
qed

lemma coversD_length: "covers data sz \<Longrightarrow> unat sz \<le> length data"
  unfolding covers_def by linarith

lemma keptD:
  assumes "kept e s t" "valid_cluster c s" "get_fat_entry c s \<noteq> 0" "c \<notin> e"
  shows "get_fat_entry c t = get_fat_entry c s"
    "k < unat (sectors_per_cluster s) \<Longrightarrow> sectors t (data_sector c k s) = sectors s (data_sector c k s)"
  using assms unfolding kept_def by blast+

text \<open>The last cluster of a chain linked to a free one.\<close>

lemma link_cluster:
  fixes s :: "'a fat_state_scheme"
  assumes "volume s" "valid_cluster c s" "get_fat_entry c s = 0xFFFF" "free_clusters s \<noteq> {}"
  defines "nxt \<equiv> find_free_cluster s"
  defines "t \<equiv> set_fat_entry nxt 0xFFFF (set_fat_entry c nxt s)"
  shows "nxt \<noteq> c" "same_fs s t" "disk_ok t" "valid_cluster nxt t" "get_fat_entry c t = nxt"
    "get_fat_entry nxt t = 0xFFFF" "kept {c} s t" "card (free_clusters t) = card (free_clusters s) - 1"
    "get_fat_entry nxt s = 0" "nxt \<noteq> 0"
    "k < unat (sectors_per_cluster s) \<Longrightarrow> sectors t (data_sector c k s) = sectors s (data_sector c k s)"
proof -
  define m where "m = set_fat_entry c nxt s"
  have tm: "t = set_fat_entry nxt 0xFFFF m" by (simp only: t_def m_def)
  have ok: "disk_ok s" using assms(1) by (simp add: volume_def)
  note nxt = free_cluster_next [OF assms(1,4), folded nxt_def]
  have lt: "unat c < fat_size s" "unat nxt < fat_size s" using assms(2) nxt(1) by (simp_all add: valid_cluster_def)
  show ne: "nxt \<noteq> c" "nxt \<noteq> 0" using nxt(1,2) assms(3) by (auto simp: valid_cluster_def)
  have same_m: "same_fs s m" by (simp add: m_def)
  have okm: "disk_ok m" using ok by (simp add: m_def disk_ok_set_fat_entry)
  have vm: "volume m" by (rule volume_cong [OF same_m okm assms(1)])
  show same: "same_fs s t" by (rule same_fs_trans [OF same_m]) (simp add: tm)
  show okt: "disk_ok t" using okm by (simp add: tm disk_ok_set_fat_entry)
  have vnm: "valid_cluster nxt m" using nxt(1) by (simp only: same_fs_cong [OF same_m])
  show "valid_cluster nxt t" using nxt(1) by (simp only: same_fs_cong [OF same])
  have ltm: "unat nxt < fat_size m" using lt(2) by (simp only: same_fs_cong [OF same_m])
  have em: "get_fat_entry x t = (if x = nxt then 0xFFFF else get_fat_entry x m)" if "unat x < fat_size m" for x
    unfolding tm by (rule get_set_fat_entry [OF okm ltm that])
  show "get_fat_entry nxt t = 0xFFFF" using em [OF ltm] by simp
  have "get_fat_entry c m = nxt" unfolding m_def using get_set_fat_entry [OF ok lt(1) lt(1)] by simp
  then show "get_fat_entry c t = nxt" using em [of c] lt(1) ne by (simp add: same_fs_cong [OF same_m])
  show "get_fat_entry nxt s = 0" by (rule nxt(2))
  have "kept {c} s m" unfolding m_def by (rule kept_set_fat_entry [OF assms(1,2)])
  moreover have "kept {nxt} m t" unfolding tm by (rule kept_set_fat_entry [OF vm vnm])
  ultimately show "kept {c} s t" by (rule kept_trans [OF same_m]) (simp add: nxt(2))
  have "free_clusters t = free_clusters s - {unat c} - {unat nxt}"
    using free_clusters_set [OF assms(1,2) ne(2)] free_clusters_set [OF vm vnm, of "0xFFFF"]
    by (simp add: tm m_def)
  moreover have "unat c \<notin> free_clusters s" using assms(3) get_fat_entry_eq [OF ok] by (simp add: free_clusters_def)
  ultimately show "card (free_clusters t) = card (free_clusters s) - 1" using nxt(3) by simp
  show "sectors t (data_sector c k s) = sectors s (data_sector c k s)" if "k < unat (sectors_per_cluster s)"
  proof -
    note out = unat_data_sector(3) [OF assms(1,2) that]
    have "sectors t (data_sector c k s) = sectors m (data_sector c k s)"
      unfolding tm using out by (intro sectors_set_fat_entry_other [OF okm ltm]) (simp only: same_fs_cong [OF same_m] not_False_eq_True)
    also have "\<dots> = sectors s (data_sector c k s)"
      unfolding m_def by (intro sectors_set_fat_entry_other [OF ok lt(1)] out)
    finally show ?thesis .
  qed
qed

text \<open>A file written cluster by cluster reads back, and nothing in use changes.\<close>

lemma write_clusters_read:
  assumes "volume s" "valid_cluster c s" "get_fat_entry c s = 0xFFFF" "covers data sz" "0 < n"
    "(i + n - 1) * (unat (sectors_per_cluster s) * 512) < unat sz"
    "unat sz \<le> (i + n) * (unat (sectors_per_cluster s) * 512)"
    "(i + n) * (unat (sectors_per_cluster s) * 512) \<le> 2 ^ 32"
    "n \<le> Suc (card (free_clusters s))" "length out = i * (unat (sectors_per_cluster s) * 512)"
  shows "\<exists>t. write_clusters data sz i n c s = Some t \<and> same_fs s t \<and> disk_ok t \<and> kept {c} s t \<and>
    read_chain c 0 (unat sz) out t = Some (out @ take (unat sz - length out) (drop (length out) data))"
  using assms
proof (induction n arbitrary: i c s out)
  case (Suc n)
  let ?B = "unat (sectors_per_cluster s) * 512"
  have len: "unat sz \<le> length data" by (rule coversD_length [OF Suc.prems(4)])
  have i: "i * ?B < unat sz" using Suc.prems(6) by (simp add: algebra_simps)
  have "(i + 1) * ?B \<le> (i + Suc n) * ?B" by (intro mult_le_mono1) simp
  then have fits: "(i + 1) * ?B \<le> 2 ^ 32" using Suc.prems(8) by linarith
  obtain s1 where s1: "write_sectors data sz (cluster_lba c s) i 0 (unat (sectors_per_cluster s)) s = Some s1"
    "same_fs s s1" "disk_ok s1" "kept {c} s s1" "\<forall>c'. valid_cluster c' s \<longrightarrow> get_fat_entry c' s1 = get_fat_entry c' s"
    "free_clusters s1 = free_clusters s"
    "\<forall>k. k < unat (sectors_per_cluster s) \<and> (i * unat (sectors_per_cluster s) + k) * 512 < unat sz \<longrightarrow>
       sectors s1 (data_sector c k s) = slice data ((i * unat (sectors_per_cluster s) + k) * 512)"
    using write_cluster_effect [OF Suc.prems(1,2,4) fits] by blast
  note cong1 = same_fs_cong [OF s1(2)]
  have S1: "sectors_per_cluster s1 = sectors_per_cluster s" using s1(2) by (simp add: same_fs_def)
  have v1: "volume s1" by (rule volume_cong [OF s1(2,3) Suc.prems(1)])
  have c1: "valid_cluster c s1" "get_fat_entry c s1 = 0xFFFF" using Suc.prems(2,3) s1(5) by (simp_all add: cong1)
  show ?case
  proof (cases "n = 0")
    case True
    have "write_clusters data sz i (Suc n) c s = Some s1" using s1(1) True by simp
    moreover have "read_chain c 0 (unat sz) out s1 = read_chain 0xFFFF 0 (unat sz)
        (out @ take (min ?B (unat sz - length out)) (drop (length out) data)) s1"
      using read_chain_turn [OF v1 c1(1) len, of out i] Suc.prems(10) i s1(7) by (simp add: S1 cong1 c1(2))
    moreover have "min ?B (unat sz - length out) = unat sz - length out"
      using Suc.prems(7,10) True by (simp add: algebra_simps)
    moreover have "read_chain 0xFFFF 0 m o' s1 = Some o'" for m o'
      by (subst read_chain.simps) (simp add: in_chain_def)
    ultimately show ?thesis using s1(2-4) by (intro exI [of _ s1] conjI) simp_all
  next
    case False
    define nxt where "nxt = find_free_cluster s1"
    have "0 < card (free_clusters s1)" using Suc.prems(9) False by (simp add: s1(6))
    then have "free_clusters s1 \<noteq> {}" by auto
    note link = link_cluster [OF v1 c1 this]
    let ?nxt = "find_free_cluster s1"
    define s3 where "s3 = set_fat_entry ?nxt 0xFFFF (set_fat_entry c ?nxt s1)"
    note link = link [folded s3_def]
    note cong3 = same_fs_cong [OF link(2)]
    have v3: "volume s3" by (rule volume_cong [OF link(2,3) v1])
    have S3: "sectors_per_cluster s3 = sectors_per_cluster s" using link(2) S1 by (simp add: same_fs_def)
    define out1 where "out1 = out @ take (min ?B (unat sz - length out)) (drop (length out) data)"
    have full: "length out + ?B < unat sz"
    proof -
      have "(i + 1) * ?B \<le> (i + Suc n - 1) * ?B" using False by (intro mult_le_mono1) simp
      moreover have "(i + 1) * ?B = length out + ?B" using Suc.prems(10) by (simp only: distrib_right mult_1)
      ultimately show ?thesis using Suc.prems(6) by linarith
    qed
    then have len1: "length out1 = Suc i * ?B" using len Suc.prems(10) by (simp add: out1_def)
    have "\<exists>t. write_clusters data sz (Suc i) n ?nxt s3 = Some t \<and> same_fs s3 t \<and> disk_ok t \<and> kept {?nxt} s3 t \<and>
        read_chain ?nxt 0 (unat sz) out1 t = Some (out1 @ take (unat sz - length out1) (drop (length out1) data))"
    proof (rule Suc.IH [OF v3 link(4,6) Suc.prems(4)])
      have j: "Suc i + n = i + Suc n" by simp
      show "0 < n" using False by simp
      show "(Suc i + n - 1) * (unat (sectors_per_cluster s3) * 512) < unat sz"
        unfolding S3 j by (rule Suc.prems(6))
      show "unat sz \<le> (Suc i + n) * (unat (sectors_per_cluster s3) * 512)"
        unfolding S3 j by (rule Suc.prems(7))
      show "(Suc i + n) * (unat (sectors_per_cluster s3) * 512) \<le> 2 ^ 32"
        unfolding S3 j by (rule Suc.prems(8))
      show "n \<le> Suc (card (free_clusters s3))" using Suc.prems(9) link(8) s1(6) by simp
      show "length out1 = Suc i * (unat (sectors_per_cluster s3) * 512)" unfolding S3 by (rule len1)
    qed
    then obtain t where t: "write_clusters data sz (Suc i) n ?nxt s3 = Some t" "same_fs s3 t" "disk_ok t" "kept {?nxt} s3 t"
      "read_chain ?nxt 0 (unat sz) out1 t = Some (out1 @ take (unat sz - length out1) (drop (length out1) data))" by blast
    have step: "write_clusters data sz i (Suc n) c s = Some t"
      using s1(1) False t(1) by (simp add: Let_def s3_def)
    have same_t: "same_fs s t" by (rule same_fs_trans [OF s1(2) same_fs_trans [OF link(2) t(2)]])
    have "kept {c} s1 t" by (rule kept_trans [OF link(2,7) t(4)]) (simp add: link(9))
    then have kept: "kept {c} s t" by (rule kept_trans [OF s1(2,4)]) simp
    have vt: "volume t" by (rule volume_cong [OF same_t t(3) Suc.prems(1)])
    have "valid_cluster c t" using Suc.prems(2) by (simp only: same_fs_cong [OF same_t])
    moreover have "sectors_per_cluster t = sectors_per_cluster s" using same_t by (simp add: same_fs_def)
    ultimately have ct: "valid_cluster c t" "sectors_per_cluster t = sectors_per_cluster s" .
    have c3: "valid_cluster c s3" using c1(1) by (simp only: cong3)
    have "get_fat_entry c s3 \<noteq> 0" "c \<notin> {?nxt}" using link(1,5,10) by simp_all
    note after = keptD [OF t(4) c3 this]
    have et: "get_fat_entry c t = ?nxt" using after(1) link(5) by simp
    have secs: "sectors t (data_sector c k t) = slice data ((i * unat (sectors_per_cluster s) + k) * 512)"
      if k: "k < unat (sectors_per_cluster s)" "(i * unat (sectors_per_cluster s) + k) * 512 < unat sz" for k
    proof -
      have "data_sector c k t = data_sector c k s" by (rule same_fs_cong(3) [OF same_t])
      moreover have "sectors t (data_sector c k s3) = sectors s3 (data_sector c k s3)"
        using after(2) k(1) by (simp only: S3)
      moreover have "sectors s3 (data_sector c k s1) = sectors s1 (data_sector c k s1)"
        using link(11) k(1) by (simp only: S1)
      moreover have "sectors s1 (data_sector c k s) = slice data ((i * unat (sectors_per_cluster s) + k) * 512)"
        using s1(7) k by blast
      ultimately show ?thesis by (simp only: cong3 cong1)
    qed
    have "read_chain c 0 (unat sz) out t = read_chain ?nxt 0 (unat sz) out1 t"
      using read_chain_turn [OF vt ct(1) len, of out i, unfolded ct(2), OF Suc.prems(10) i secs] unfolding et out1_def .
    also have "\<dots> = Some (out @ take (unat sz - length out) (drop (length out) data))"
    proof -
      have m: "min ?B (unat sz - length out) = ?B" using full by linarith
      have l1: "length out1 = length out + ?B" using len1 Suc.prems(10) by simp
      have "out1 @ take (unat sz - length out1) (drop (length out1) data) =
          out @ take ?B (drop (length out) data) @ take (unat sz - (length out + ?B)) (drop ?B (drop (length out) data))"
        unfolding l1 unfolding out1_def m drop_drop append_assoc add.commute [of ?B "length out"] ..
      also have "\<dots> = out @ take (?B + (unat sz - (length out + ?B))) (drop (length out) data)"
        by (simp only: take_add)
      also have "?B + (unat sz - (length out + ?B)) = unat sz - length out" using full by linarith
      finally show ?thesis by (simp only: t(5))
    qed
    finally show ?thesis using step same_t t(3) kept by blast
  qed
qed simp

text \<open>How many clusters \<open>write_in_dir\<close> writes for a size that does not wrap.\<close>

definition clusters_needed :: "u32 \<Rightarrow> 'a fat_state_scheme \<Rightarrow> nat" where
  "clusters_needed sz s = unat ((sz + bytes_per_cluster s - 1) div bytes_per_cluster s)"

lemma unat_bytes_per_cluster: "unat (bytes_per_cluster s) = unat (sectors_per_cluster s) * 512"
proof -
  have "unat (of_nat (unat (sectors_per_cluster s) * 512) :: u32) = unat (sectors_per_cluster s) * 512"
    using u16_less [of "sectors_per_cluster s"] by (intro unat_of_nat_small) simp
  moreover have "bytes_per_cluster s = of_nat (unat (sectors_per_cluster s) * 512)" by (simp add: bytes_per_cluster_def)
  ultimately show ?thesis by (simp only:)
qed

lemma clusters_needed:
  assumes "0 < sz" "0 < unat (sectors_per_cluster s)" "unat sz + unat (bytes_per_cluster s) \<le> 2 ^ 32"
  defines "B \<equiv> unat (sectors_per_cluster s) * 512" and "n \<equiv> clusters_needed sz s"
  shows "0 < n" "(n - 1) * B < unat sz" "unat sz \<le> n * B" "n * B \<le> 2 ^ 32"
proof -
  have b: "unat (bytes_per_cluster s) = B" "0 < B" using assms(2) by (simp_all add: unat_bytes_per_cluster B_def)
  have sz: "0 < unat sz" using assms(1) by (simp add: word_less_nat_alt)
  have "sz + bytes_per_cluster s - 1 = of_nat (unat sz + B - 1)"
    using b sz by (simp add: of_nat_diff flip: b(1))
  moreover have "unat (of_nat (unat sz + B - 1) :: u32) = unat sz + B - 1"
    using assms(3) sz b by (intro unat_of_nat_small) simp
  ultimately have "unat (sz + bytes_per_cluster s - 1) = unat sz + B - 1" by (simp only:)
  then have n: "n = (unat sz + B - 1) div B" unfolding n_def clusters_needed_def unat_div b(1) by (simp only:)
  show pos: "0 < n" unfolding n using b(2) sz by (simp add: div_greater_zero_iff)
  have "n * B \<le> unat sz + B - 1" "unat sz + B - 1 < n * B + B"
    unfolding n using div_times_less_eq_dividend [of "unat sz + B - 1" B] dividend_less_div_times [OF b(2), of "unat sz + B - 1"]
    by simp_all
  moreover have "(n - 1) * B + B = n * B" using pos by (cases n) simp_all
  ultimately show "(n - 1) * B < unat sz" "unat sz \<le> n * B" "n * B \<le> 2 ^ 32" using sz b assms(3) by linarith+
qed

lemma write_first_cluster:
  assumes "volume s" "free_clusters s \<noteq> {}"
  defines "c \<equiv> find_free_cluster s"
  defines "t \<equiv> set_fat_entry c 0xFFFF s"
  shows "volume t" "same_fs s t" "valid_cluster c t" "get_fat_entry c t = 0xFFFF" "kept {c} s t"
    "get_fat_entry c s = 0" "card (free_clusters t) = card (free_clusters s) - 1"
proof -
  note c = free_cluster_next [OF assms(1,2), folded c_def]
  have ok: "disk_ok s" and lt: "unat c < fat_size s" using assms(1) c(1) by (simp_all add: volume_def valid_cluster_def)
  show same: "same_fs s t" by (simp add: t_def)
  show "volume t" using ok by (intro volume_cong [OF same _ assms(1)]) (simp add: t_def disk_ok_set_fat_entry)
  show "valid_cluster c t" using c(1) by (simp only: same_fs_cong [OF same])
  show "get_fat_entry c t = 0xFFFF" unfolding t_def using get_set_fat_entry [OF ok lt lt] by simp
  show "kept {c} s t" unfolding t_def by (rule kept_set_fat_entry [OF assms(1) c(1)])
  show "get_fat_entry c s = 0" by (rule c(2))
  show "card (free_clusters t) = card (free_clusters s) - 1"
    using free_clusters_set [OF assms(1) c(1), of "0xFFFF"] c(3) by (simp add: t_def)
qed

text \<open>C27: On a volume with enough free clusters, the loop of \<open>fat16_write_file\<close> over the clusters of the data
  returns; a directory entry that names the first cluster and the size reads back exactly the data;
  and the clusters that were in use before keep their table entries and contents, as does all
  outside of the tables and the data region.\<close>

theorem fat16_write_then_read:
  assumes "volume s" "covers data sz" "0 < sz" "unat sz + unat (bytes_per_cluster s) \<le> 2 ^ 32"
    "clusters_needed sz s \<le> card (free_clusters s)" "e_cluster_low e = find_free_cluster s" "e_file_size e = sz"
  shows "\<exists>t. write_clusters data sz 0 (clusters_needed sz s) (find_free_cluster s)
        (set_fat_entry (find_free_cluster s) 0xFFFF s) = Some t \<and>
      read_entry e 0 sz t = Some (take (unat sz) data) \<and> kept {} s t \<and> disk_ok t"
proof -
  let ?c = "find_free_cluster s" and ?n = "clusters_needed sz s"
  have S: "0 < unat (sectors_per_cluster s)" using assms(1) by (simp add: volume_def)
  note n = clusters_needed [OF assms(3) S assms(4)]
  have "free_clusters s \<noteq> {}" using n(1) assms(5) by auto
  note first = write_first_cluster [OF assms(1) this]
  define s1 where "s1 = set_fat_entry ?c 0xFFFF s"
  note first = first [folded s1_def]
  have S1: "sectors_per_cluster s1 = sectors_per_cluster s" using first(2) by (simp add: same_fs_def)
  obtain t where t: "write_clusters data sz 0 ?n ?c s1 = Some t" "same_fs s1 t" "disk_ok t" "kept {?c} s1 t"
      "read_chain ?c 0 (unat sz) [] t = Some (take (unat sz) data)"
    using write_clusters_read [OF first(1,3,4) assms(2) n(1), of 0 "[]"] n first(7) assms(5) by (auto simp: S1)
  have same: "same_fs s t" by (rule same_fs_trans [OF first(2) t(2)])
  have bpc: "bytes_per_cluster t \<noteq> 0"
    using S unat_bytes_per_cluster [of t] same by (auto simp: same_fs_def)
  have "read_entry e 0 sz t = Some (take (unat sz) data)"
    using t(5) assms(3,6,7) bpc by (simp add: read_entry_def Let_def)
  moreover have "kept {} s t"
    using kept_trans [OF first(2,5) t(4)] first(6) by (auto simp: kept_def)
  ultimately show ?thesis using t(1,3) by (intro exI [of _ t]) (simp add: s1_def)
qed

lemma sample_fat_volume: "volume sample_fat" "free_clusters sample_fat = {2..<256}" "bytes_per_cluster sample_fat = 512"
    "find_free_cluster sample_fat = 2"
proof -
  show "volume sample_fat" by (simp add: volume_def sample_fat_ok)
  have "le16 (replicate 512 (0 :: u8)) (2 * (k mod 256)) = 0" for k :: nat
  proof -
    have "k mod 256 < 256" by simp
    then have "2 * (k mod 256) + 1 < 512" by linarith
    then show ?thesis by (simp add: le16_def del: mod_less_divisor)
  qed
  then show free: "free_clusters sample_fat = {2..<256}"
    by (auto simp: free_clusters_def sample_fat_ok fat_copy_def)
  show "bytes_per_cluster sample_fat = 512" by (simp add: bytes_per_cluster_def)
  have "(LEAST k. k \<in> free_clusters sample_fat) = 2" unfolding free by (intro Least_equality) auto
  then show "find_free_cluster sample_fat = 2" using find_free_cluster_spec [OF sample_fat_ok(1)] by (simp add: free)
qed

text \<open>A file of 600 bytes takes two clusters.\<close>

theorem fat16_write_then_read_witness:
  "\<exists>t. write_clusters (replicate 1024 7) 600 0 2 2 (set_fat_entry 2 0xFFFF sample_fat) = Some t \<and>
      read_entry (short_entry (replicate 11 65) 0x20 2 600) 0 600 t = Some (replicate 600 7) \<and>
      kept {} sample_fat t \<and> disk_ok t"
proof -
  let ?e = "short_entry (replicate 11 65) 0x20 2 600"
  have e: "e_cluster_low ?e = 2" "e_file_size ?e = 600" by code_simp+
  have n: "clusters_needed 600 sample_fat = 2" by (simp add: clusters_needed_def sample_fat_volume)
  have c: "covers (replicate 1024 7) 600" by (simp add: covers_def)
  show ?thesis
    using fat16_write_then_read [OF sample_fat_volume(1) c, where e = ?e] by (simp add: n e sample_fat_volume)
qed

end
