(* ===== verification/Procfs.thy ===== *)
theory Procfs
  imports Fat16_Ops
begin

text \<open>
  \<open>fs/procfs/procfs.c\<close>: files whose text is made when they are opened. The text is an object of the
  kernel heap; the state keeps it by the address of its buffer. \<open>None\<close> is a write outside of the
  buffer or through \<open>NULL\<close>.
\<close>

record procfs_state = fat_state +
  proc_text :: "u32 \<Rightarrow> u8 list"

definition set_text :: "u32 \<Rightarrow> u8 list \<Rightarrow> 'a procfs_state_scheme \<Rightarrow> 'a procfs_state_scheme" where
  "set_text p b s = s\<lparr>proc_text := (proc_text s)(p := b)\<rparr>"

text \<open>The result of \<open>procfs_read\<close> and the buffer of the caller.\<close>

definition procfs_read ::
  "u32 \<Rightarrow> u32 \<Rightarrow> u32 \<Rightarrow> u8 list \<Rightarrow> 'a procfs_state_scheme \<Rightarrow> (u32 \<times> u8 list) option"
where
  "procfs_read node offset sz buf s =
     (let n = nodes s node
      in if offset \<ge> nd_length n then Some (0, buf)
         else let available = nd_length n - offset;
                  to_copy = (if sz < available then sz else available)
              in do {
                b \<leftarrow> memcpy buf 0 (drop (unat offset) (proc_text s (nd_ptr n))) (unat to_copy);
                Some (to_copy, b)
              })"

section \<open>Appending to the text\<close>

text \<open>The loop that pads with spaces: \<open>n\<close> are still wanted.\<close>

fun pad_spaces :: "nat \<Rightarrow> nat \<Rightarrow> nat \<Rightarrow> u8 list \<Rightarrow> (u8 list \<times> nat) option" where
  "pad_spaces max_size 0 pos buf = Some (buf, pos)"
| "pad_spaces max_size (Suc n) pos buf =
     (if pos < max_size - 1 then do { b \<leftarrow> put buf pos 32; pad_spaces max_size n (pos + 1) b } else Some (buf, pos))"

definition append_str_padded :: "nat \<Rightarrow> cstr \<Rightarrow> nat \<Rightarrow> u8 list \<times> nat \<Rightarrow> (u8 list \<times> nat) option" where
  "append_str_padded max_size str width bp =
     (case bp of (buf, pos) \<Rightarrow>
       if pos < max_size - 1
       then do { b \<leftarrow> strcpy_at buf pos str; pad_spaces max_size (width - strlen str) (pos + strlen str) b }
       else Some (buf, pos))"

definition append_num_padded :: "nat \<Rightarrow> u32 \<Rightarrow> nat \<Rightarrow> u8 list \<times> nat \<Rightarrow> (u8 list \<times> nat) option" where
  "append_num_padded max_size num width bp =
     do { tmp \<leftarrow> itoa num 10; append_str_padded max_size tmp width bp }"

definition append_unum_padded :: "nat \<Rightarrow> u32 \<Rightarrow> nat \<Rightarrow> u8 list \<times> nat \<Rightarrow> (u8 list \<times> nat) option" where
  "append_unum_padded max_size num width bp =
     do { tmp \<leftarrow> utoa num 10; append_str_padded max_size tmp width bp }"

definition append_str :: "nat \<Rightarrow> cstr \<Rightarrow> u8 list \<times> nat \<Rightarrow> (u8 list \<times> nat) option" where
  "append_str max_size str bp =
     (case bp of (buf, pos) \<Rightarrow>
       if pos + strlen str < max_size - 1 then do { b \<leftarrow> strcpy_at buf pos str; Some (b, pos + strlen str) }
       else Some (buf, pos))"

section \<open>The files\<close>

definition newline :: cstr where "newline = [10]"

definition meminfo_text :: "u32 \<times> u32 \<times> u32 \<Rightarrow> (u8 list \<times> nat) option" where
  "meminfo_text info =
     (case info of (total_bytes, used_bytes, free_bytes) \<Rightarrow>
       do {
         bp \<leftarrow> append_str 512 (bytes ''total(KB)   used(KB)    free(KB)'' @ newline) (replicate 512 0, 0);
         bp \<leftarrow> append_num_padded 512 (total_bytes div 1024) 12 bp;
         bp \<leftarrow> append_num_padded 512 (used_bytes div 1024) 12 bp;
         bp \<leftarrow> append_num_padded 512 (free_bytes div 1024) 12 bp;
         append_str 512 newline bp
       })"

definition uptime_text :: "u32 \<Rightarrow> (u8 list \<times> nat) option" where
  "uptime_text ticks =
     do { bp \<leftarrow> append_unum_padded 64 ticks 0 (replicate 64 0, 0); append_str 64 newline bp }"

definition state_names :: "cstr list" where
  "state_names = [bytes ''READY'', bytes ''RUN'', bytes ''WAIT'', bytes ''BLOCK'', bytes ''SLEEP'', bytes ''DEAD'']"

definition task_line :: "process_info \<Rightarrow> u8 list \<times> nat \<Rightarrow> (u8 list \<times> nat) option" where
  "task_line p bp =
     do {
       bp \<leftarrow> append_num_padded 4096 (pi_pid p) 6 bp;
       bp \<leftarrow> append_num_padded 4096 (pi_parent_pid p) 6 bp;
       bp \<leftarrow> append_num_padded 4096 (ucast (pi_base_priority p)) 6 bp;
       bp \<leftarrow> append_num_padded 4096 (ucast (pi_dynamic_priority p)) 6 bp;
       bp \<leftarrow> append_str_padded 4096 (if pi_state p \<le> 5 then state_names ! unat (pi_state p) else bytes ''UNKNW'') 8 bp;
       bp \<leftarrow> append_num_padded 4096 (pi_cpu_ticks p) 11 bp;
       bp \<leftarrow> append_str 4096 (pi_name p) bp;
       append_str 4096 newline bp
     }"

definition rule_line :: cstr where
  "rule_line = replicate 50 45 @ newline"

definition tasks_text :: "process_info list \<Rightarrow> (u8 list \<times> nat) option" where
  "tasks_text procs =
     do {
       bp \<leftarrow> append_str 4096 (bytes ''PID   PPID  PRIO  DYN   STATE   TICKS      COMMAND'' @ newline) (replicate 4096 0, 0);
       bp \<leftarrow> append_str 4096 rule_line bp;
       bp \<leftarrow> fold_opt task_line procs bp;
       bp \<leftarrow> append_str 4096 rule_line bp;
       bp \<leftarrow> append_str 4096 (bytes ''Total tasks: '') bp;
       bp \<leftarrow> append_num_padded 4096 (of_nat (length procs)) 0 bp;
       append_str 4096 newline bp
     }"

text \<open>The buffer of a text, its bytes and the fields of the node; a \<open>NULL\<close> buffer is written to.\<close>

definition finish_text ::
  "u32 \<Rightarrow> u32 \<Rightarrow> (u8 list \<times> nat) option \<Rightarrow> 'a procfs_state_scheme \<Rightarrow> (u32 \<times> 'a procfs_state_scheme) option"
where
  "finish_text node p bp s =
     (if p = 0 then None
      else do {
        (b, pos) \<leftarrow> bp;
        Some (node, set_node node (nodes s node\<lparr>nd_ptr := p, nd_length := of_nat pos\<rparr>) (set_text p b s))
      })"

definition SIZEOF_PROCESS_INFO :: u32 where "SIZEOF_PROCESS_INFO = 52"

definition procfs_open :: "cstr \<Rightarrow> 'a procfs_state_scheme \<Rightarrow> (u32 \<times> 'a procfs_state_scheme) option" where
  "procfs_open path s =
     do {
       let name = (if strncmp path (bytes ''/proc/'') 6 = 0 then drop 6 path else path);
       (node, s1) \<leftarrow> kmem_zalloc SIZEOF_NODE s;
       if node = 0 then Some (0, s1)
       else do {
         nm \<leftarrow> strcpy (replicate 256 0) name;
         let s2 = set_node node (zero_node\<lparr>nd_type := VFS_FILE, nd_read := Fn_procfs_read, nd_close := Fn_procfs_close,
           nd_persistent := False, nd_ref_count := 1, nd_name := nm\<rparr>) s1;
         if strcmp name (bytes ''meminfo'') = 0
         then do {
           let info = pmm_get_memory_info (kheap s2);
           (p, s3) \<leftarrow> kmem_zalloc 512 s2;
           finish_text node p (meminfo_text info) s3
         }
         else if strcmp name (bytes ''uptime'') = 0
         then do {
           (p, s3) \<leftarrow> kmem_zalloc 64 s2;
           finish_text node p (uptime_text (system_ticks s3)) s3
         }
         else if strcmp name (bytes ''tasks'') = 0
         then do {
           (q, s3) \<leftarrow> kmem_zalloc (SIZEOF_PROCESS_INFO * 32) s2;
           (procs, s4) \<leftarrow> (if q = 0 then None else task_get_process_info 32 s3);
           (p, s5) \<leftarrow> kmem_zalloc 4096 s4;
           do {
             bp \<leftarrow> tasks_text procs;
             finish_text node p (Some bp) (kmem_free q s5)
           }
         }
         else Some (0, kmem_free node s2)
       }
     }"

definition procfs_initialize :: "'a procfs_state_scheme \<Rightarrow> (int \<times> 'a procfs_state_scheme) option" where
  "procfs_initialize s =
     vfs_mount (bytes ''/proc'') (bytes ''procfs'') (vfs_register_driver \<lparr>drv_name = bytes ''procfs'', drv_open = Fn_procfs_open\<rparr> s)"

section \<open>No text overflows its buffer\<close>

text \<open>What the appending functions do with room to spare: they succeed, keep the capacity and move on by
  the width or the length of the text, whichever is longer.\<close>

definition text_at :: "nat \<Rightarrow> nat \<Rightarrow> u8 list \<times> nat \<Rightarrow> bool" where
  "text_at cap n bp \<longleftrightarrow> length (fst bp) = cap \<and> snd bp \<le> n"

lemma put_Some: "i < length b \<Longrightarrow> put b i v = Some (b[i := v])"
  by (simp add: put_def)

lemma strcpy_at_Some: "i + strlen str < length buf \<Longrightarrow> \<exists>b. strcpy_at buf i str = Some b \<and> length b = length buf"
proof (induction str arbitrary: i buf)
  case Nil
  then show ?case by (simp add: put_Some)
next
  case (Cons c cs)
  then show ?case using Cons.IH [of "Suc i" "buf[i := c]"] by (cases "c = 0") (simp_all add: put_Some)
qed

lemma pad_spaces_Some:
  "length buf = cap \<Longrightarrow> \<exists>b q. pad_spaces cap n pos buf = Some (b, q) \<and> length b = cap \<and> q \<le> pos + n"
proof (induction n arbitrary: pos buf)
  case (Suc n)
  show ?case
  proof (cases "pos < cap - 1")
    case True
    then show ?thesis using Suc.IH [of "buf[pos := 32]" "pos + 1"] Suc.prems
      by (fastforce simp: put_Some)
  qed (use Suc.prems in simp)
qed simp

lemma append_str_padded_at:
  assumes "text_at cap n bp" "n + strlen str < cap"
  shows "\<exists>bp'. append_str_padded cap str width bp = Some bp' \<and> text_at cap (n + max width (strlen str)) bp'"
proof -
  obtain buf pos where bp: "bp = (buf, pos)" by (cases bp)
  have l: "length buf = cap" "pos \<le> n" using assms(1) by (simp_all add: text_at_def bp)
  show ?thesis
  proof (cases "pos < cap - 1")
    case True
    obtain b where b: "strcpy_at buf pos str = Some b" "length b = cap"
      using strcpy_at_Some [of pos str buf] l assms(2) by auto
    from pad_spaces_Some [OF b(2), of "width - strlen str" "pos + strlen str"]
    show ?thesis using True b l by (fastforce simp: append_str_padded_def bp text_at_def)
  next
    case False
    then show ?thesis using l by (simp add: append_str_padded_def bp text_at_def)
  qed
qed

lemma append_str_at:
  assumes "text_at cap n bp" "n + strlen str < cap"
  shows "\<exists>bp'. append_str cap str bp = Some bp' \<and> text_at cap (n + strlen str) bp'"
proof -
  obtain buf pos where bp: "bp = (buf, pos)" by (cases bp)
  have l: "length buf = cap" "pos \<le> n" using assms(1) by (simp_all add: text_at_def bp)
  then show ?thesis using strcpy_at_Some [of pos str buf] assms(2)
    by (auto simp: append_str_def bp text_at_def)
qed

lemma dec_digits_length: "n < 10 ^ k \<Longrightarrow> length (dec_digits n) \<le> k"
proof (induction k arbitrary: n)
  case 0
  then show ?case by (simp add: dec_digits.simps)
next
  case (Suc k)
  then have "n div 10 < 10 ^ k" by (simp add: less_mult_imp_div_less mult.commute)
  with Suc.IH show ?case by (subst dec_digits.simps) simp
qed

lemma strlen_le: "strlen s \<le> length s"
  by (induction s) auto

lemma itoa_short: "\<exists>str. itoa n 10 = Some str \<and> strlen str \<le> 11"
proof -
  have ten: "length (dec_digits (unat m)) \<le> 10" for m :: u32
    using unat_lt_2p32 [of m] by (intro dec_digits_length) simp
  have itoa: "itoa n 10 = Some (if n = 0 then [48] else if sint n < 0 then 45 # rev (dec_digits (unat (- n)))
      else rev (dec_digits (unat n)))"
    by (simp add: itoa_def digit_loop_dec reverse_loop_rev Let_def del: reverse_loop.simps One_nat_def)
  define str where "str = (if n = 0 then [48] else if sint n < 0 then 45 # rev (dec_digits (unat (- n)))
      else rev (dec_digits (unat n)))"
  have "length str \<le> 11" using ten [of n] ten [of "- n"] by (simp only: str_def split: if_splits) simp
  then have "strlen str \<le> 11" using strlen_le [of str] by linarith
  then show ?thesis using itoa unfolding str_def by blast
qed

lemma append_num_padded_at:
  assumes "text_at cap n bp" "width \<le> 11" "n + 11 \<le> m" "m < cap"
  shows "\<exists>bp'. append_num_padded cap v width bp = Some bp' \<and> text_at cap m bp'"
proof -
  obtain str where str: "itoa v 10 = Some str" "strlen str \<le> 11" using itoa_short by blast
  have "n + strlen str < cap" using str(2) assms(3,4) by linarith
  then obtain bp' where bp': "append_str_padded cap str width bp = Some bp'" "text_at cap (n + max width (strlen str)) bp'"
    using append_str_padded_at [OF assms(1), of str width] by blast
  have "n + max width (strlen str) \<le> m" using str(2) assms(2,3) by simp
  then have "text_at cap m bp'" using bp'(2) unfolding text_at_def by linarith
  then show ?thesis using bp'(1) str(1) by (simp add: append_num_padded_def)
qed

lemma state_names_length: "k \<le> 5 \<Longrightarrow> strlen (state_names ! k) \<le> 5"
proof -
  assume "k \<le> 5"
  then have "k \<in> {0, 1, 2, 3, 4, 5}" by auto
  then show ?thesis by (auto simp: state_names_def bytes_def)
qed

lemma task_line_at:
  assumes "text_at 4096 n bp" "strlen (pi_name p) \<le> 31" "n + 95 < 4096"
  shows "\<exists>bp'. task_line p bp = Some bp' \<and> text_at 4096 (n + 95) bp'"
proof -
  let ?state = "if pi_state p \<le> 5 then state_names ! unat (pi_state p) else bytes ''UNKNW''"
  have st: "strlen ?state \<le> 5"
    using state_names_length [of "unat (pi_state p)"] by (auto simp: word_le_nat_alt bytes_def)
  have nl: "strlen newline = 1" by (simp add: newline_def)
  obtain b1 where b1: "append_num_padded 4096 (pi_pid p) 6 bp = Some b1" "text_at 4096 (n + 11) b1"
    using append_num_padded_at [OF assms(1), of 6 "n + 11" "pi_pid p"] assms(3) by auto
  obtain b2 where b2: "append_num_padded 4096 (pi_parent_pid p) 6 b1 = Some b2" "text_at 4096 (n + 22) b2"
    using append_num_padded_at [OF b1(2), of 6 "n + 22" "pi_parent_pid p"] assms(3) by auto
  obtain b3 where b3: "append_num_padded 4096 (ucast (pi_base_priority p)) 6 b2 = Some b3" "text_at 4096 (n + 33) b3"
    using append_num_padded_at [OF b2(2), of 6 "n + 33" "ucast (pi_base_priority p)"] assms(3) by auto
  obtain b4 where b4: "append_num_padded 4096 (ucast (pi_dynamic_priority p)) 6 b3 = Some b4" "text_at 4096 (n + 44) b4"
    using append_num_padded_at [OF b3(2), of 6 "n + 44" "ucast (pi_dynamic_priority p)"] assms(3) by auto
  obtain b5 where b5: "append_str_padded 4096 ?state 8 b4 = Some b5" "text_at 4096 (n + 52) b5"
    using append_str_padded_at [OF b4(2), of ?state 8] assms(3) st by (auto simp: max_def add.commute)
  obtain b6 where b6: "append_num_padded 4096 (pi_cpu_ticks p) 11 b5 = Some b6" "text_at 4096 (n + 63) b6"
    using append_num_padded_at [OF b5(2), of 11 "n + 63" "pi_cpu_ticks p"] assms(3) by auto
  obtain b7 where b7: "append_str 4096 (pi_name p) b6 = Some b7" "text_at 4096 (n + 63 + strlen (pi_name p)) b7"
    using append_str_at [OF b6(2), of "pi_name p"] assms(2,3) by auto
  then have b7': "text_at 4096 (n + 94) b7" using assms(2) by (simp add: text_at_def)
  obtain b8 where b8: "append_str 4096 newline b7 = Some b8" "text_at 4096 (n + 95) b8"
    using append_str_at [OF b7', of newline] assms(3) nl by (auto simp: add.commute)
  show ?thesis using b1(1) b2(1) b3(1) b4(1) b5(1) b6(1) b7(1) b8 by (simp add: task_line_def)
qed

lemma task_lines_at:
  "text_at 4096 n bp \<Longrightarrow> \<forall>p \<in> set ps. strlen (pi_name p) \<le> 31 \<Longrightarrow> n + 95 * length ps < 4096 \<Longrightarrow>
     \<exists>bp'. fold_opt task_line ps bp = Some bp' \<and> text_at 4096 (n + 95 * length ps) bp'"
proof (induction ps arbitrary: n bp)
  case (Cons p ps)
  obtain b1 where b1: "task_line p bp = Some b1" "text_at 4096 (n + 95) b1"
    using task_line_at [OF Cons.prems(1), of p] Cons.prems(2,3) by auto
  then show ?case using Cons.IH [OF b1(2)] Cons.prems(2,3) by (auto simp: add.assoc)
qed auto

text \<open>The listing of at most 32 tasks fits its buffer of 4096 bytes.\<close>

lemma tasks_text_fits:
  assumes "length procs \<le> 32" "\<forall>p \<in> set procs. strlen (pi_name p) \<le> 31"
  shows "\<exists>b pos. tasks_text procs = Some (b, pos) \<and> length b = 4096 \<and> pos < 4096"
proof -
  let ?h = "bytes ''PID   PPID  PRIO  DYN   STATE   TICKS      COMMAND'' @ newline"
  have len: "strlen ?h = 51" "strlen rule_line = 51" "strlen newline = 1" "strlen (bytes ''Total tasks: '') = 13"
  proof -
    show "strlen ?h = 51" "strlen newline = 1" "strlen (bytes ''Total tasks: '') = 13"
      by (simp_all add: bytes_def newline_def)
    show "strlen rule_line = 51" by (simp add: strlen_content rule_line_def newline_def content_append)
  qed
  have b0: "text_at 4096 0 (replicate 4096 0, 0)" by (simp add: text_at_def)
  obtain b1 where b1: "append_str 4096 ?h (replicate 4096 0, 0) = Some b1" "text_at 4096 51 b1"
    using append_str_at [OF b0, of ?h] len by auto
  obtain b2 where b2: "append_str 4096 rule_line b1 = Some b2" "text_at 4096 102 b2"
    using append_str_at [OF b1(2), of rule_line] len by auto
  obtain b3 where b3: "fold_opt task_line procs b2 = Some b3" "text_at 4096 (102 + 95 * length procs) b3"
    using task_lines_at [OF b2(2) assms(2)] assms(1) by auto
  have b3': "text_at 4096 3142 b3" using b3(2) assms(1) by (simp add: text_at_def)
  obtain b4 where b4: "append_str 4096 rule_line b3 = Some b4" "text_at 4096 3193 b4"
    using append_str_at [OF b3', of rule_line] len by auto
  obtain b5 where b5: "append_str 4096 (bytes ''Total tasks: '') b4 = Some b5" "text_at 4096 3206 b5"
    using append_str_at [OF b4(2), of "bytes ''Total tasks: ''"] len by auto
  obtain b6 where b6: "append_num_padded 4096 (of_nat (length procs)) 0 b5 = Some b6" "text_at 4096 3217 b6"
    using append_num_padded_at [OF b5(2), of 0 3217 "of_nat (length procs)"] by auto
  obtain b7 where b7: "append_str 4096 newline b6 = Some b7" "text_at 4096 3218 b7"
    using append_str_at [OF b6(2), of newline] len by auto
  have "tasks_text procs = Some b7"
    unfolding tasks_text_def using b1(1) b2(1) b3(1) b4(1) b5(1) b6(1) b7(1) by simp
  then show ?thesis using b7(2) by (cases b7) (simp add: text_at_def)
qed

end
