(* ===== verification/Net.thy ===== *)
theory Net
  imports Procfs
begin

text \<open>
  \<open>net/net.c\<close>: Ethernet, ARP, IPv4, ICMP, UDP and the DNS client. A packet is the list of its bytes; an
  access behind its end is \<open>None\<close>, and so is a wait that outlasts the functions that say what the other
  tasks do while the caller has yielded (one for each yield, as with the pipes). The frames given to
  the network card are collected in \<open>sent_frames\<close>. Log messages are left out.
\<close>

section \<open>Bytes and checksums\<close>

definition htons :: "u16 \<Rightarrow> u16" where
  "htons v = push_bit 8 (v AND 0xFF) OR drop_bit 8 (v AND 0xFF00)"

definition htonl :: "u32 \<Rightarrow> u32" where
  "htonl v = push_bit 24 (v AND 0xFF) OR push_bit 8 (v AND 0xFF00) OR (drop_bit 8 v AND 0xFF00) OR (drop_bit 24 v AND 0xFF)"

definition ntohs :: "u16 \<Rightarrow> u16" where "ntohs v = htons v"

definition ntohl :: "u32 \<Rightarrow> u32" where "ntohl v = htonl v"

text \<open>The bytes of a packet from \<open>at\<close> on, \<open>n\<close> of them, and the fields read from a packet.\<close>

definition part :: "u8 list \<Rightarrow> nat \<Rightarrow> nat \<Rightarrow> u8 list option" where
  "part data at n = (if at + n \<le> length data then Some (take n (drop at data)) else None)"

definition get8 :: "u8 list \<Rightarrow> nat \<Rightarrow> u8 option" where
  "get8 data at = (if at < length data then Some (data ! at) else None)"

definition get16 :: "u8 list \<Rightarrow> nat \<Rightarrow> u16 option" where
  "get16 data at = (if at + 2 \<le> length data then Some (le16 data at) else None)"

definition get32 :: "u8 list \<Rightarrow> nat \<Rightarrow> u32 option" where
  "get32 data at = (if at + 4 \<le> length data then Some (le32 data at) else None)"

definition patch :: "u8 list \<Rightarrow> nat \<Rightarrow> u8 list \<Rightarrow> u8 list option" where
  "patch data at b =
     (if at + length b \<le> length data then Some (take at data @ b @ drop (at + length b) data) else None)"

fun sum_words :: "u8 list \<Rightarrow> u32 \<Rightarrow> u32" where
  "sum_words [] total_sum = total_sum"
| "sum_words [a] total_sum = total_sum + ucast a"
| "sum_words (a # b # r) total_sum = sum_words r (total_sum + (ucast a + 256 * ucast b))"

lemma half_nat: "unat (v AND 0xFFFF) = unat v mod 65536" "unat (drop_bit 16 v) = unat v div 65536" for v :: u32
proof -
  have m: "(0xFFFF :: u32) = mask 16" by (simp add: mask_eq_exp_minus_1)
  show "unat (v AND 0xFFFF) = unat v mod 65536" unfolding m by (simp add: take_bit_eq_mod unat_mod flip: take_bit_eq_mask)
  show "unat (drop_bit 16 v) = unat v div 65536" by (simp add: drop_bit_eq_div unat_div)
qed

lemma fold_less: "drop_bit 16 v \<noteq> 0 \<Longrightarrow> unat ((v AND 0xFFFF) + drop_bit 16 v) < unat (v :: u32)"
proof -
  assume nz: "drop_bit 16 v \<noteq> 0"
  have pos: "0 < unat v div 65536" using nz by (simp flip: half_nat add: unat_gt_0)
  have "unat v mod 65536 + unat v div 65536 < unat v"
    using pos mult_div_mod_eq [of 65536 "unat v"] by linarith
  then show ?thesis using unat_add_no_wrap [of "v AND 0xFFFF" "drop_bit 16 v"] half_nat [of v] unat_lt_2p32 [of v] by simp
qed

function fold_carry :: "u32 \<Rightarrow> u32" where
  "fold_carry v = (if drop_bit 16 v \<noteq> 0 then fold_carry ((v AND 0xFFFF) + drop_bit 16 v) else v)"
  by pat_completeness auto
termination by (relation "measure unat") (auto simp: fold_less)

declare fold_carry.simps [simp del]

definition net_checksum :: "u8 list \<Rightarrow> u16" where
  "net_checksum data = ucast (NOT (fold_carry (sum_words data 0)))"

section \<open>State\<close>

record arp_entry =
  ae_ip :: u32
  ae_mac :: "u8 list"
  ae_valid :: bool

record net_state = procfs_state +
  my_mac :: "u8 list"
  arp_cache :: "arp_entry list"
  arp_received_flag :: bool
  icmp_received_flag :: bool
  dns_resolved_flag :: bool
  dns_resolved_ip :: u32
  dns_query_id :: u16
  sent_frames :: "u8 list list"

definition IP :: "u32 \<Rightarrow> u32 \<Rightarrow> u32 \<Rightarrow> u32 \<Rightarrow> u32" where
  "IP a b c d = a OR push_bit 8 b OR push_bit 16 c OR push_bit 24 d"

definition my_ip :: u32 where "my_ip = IP 10 0 2 15"
definition my_netmask :: u32 where "my_netmask = IP 255 255 255 0"
definition my_gateway :: u32 where "my_gateway = IP 10 0 2 2"
definition my_dns_server :: u32 where "my_dns_server = IP 10 0 2 3"
definition dns_client_port :: u16 where "dns_client_port = 53123"

definition empty_arp :: arp_entry where
  "empty_arp = \<lparr>ae_ip = 0, ae_mac = replicate 6 0, ae_valid = False\<rparr>"

definition net_initialize :: "'a net_state_scheme \<Rightarrow> 'a net_state_scheme" where
  "net_initialize s = s\<lparr>arp_cache := replicate 16 empty_arp\<rparr>"

definition net_set_mac :: "u8 list \<Rightarrow> 'a net_state_scheme \<Rightarrow> 'a net_state_scheme" where
  "net_set_mac mac s = s\<lparr>my_mac := take 6 mac\<rparr>"

section \<open>The ARP cache\<close>

text \<open>The entry is put where the address is already, or into the first slot that is not valid, whichever
  comes first; a full cache stays as it is.\<close>

fun arp_insert :: "u32 \<Rightarrow> u8 list \<Rightarrow> arp_entry list \<Rightarrow> arp_entry list" where
  "arp_insert ip mac [] = []"
| "arp_insert ip mac (e # es) =
     (if \<not> ae_valid e \<or> ae_ip e = ip then e\<lparr>ae_ip := ip, ae_mac := mac, ae_valid := True\<rparr> # es
      else e # arp_insert ip mac es)"

definition arp_cache_update :: "u32 \<Rightarrow> u8 list \<Rightarrow> 'a net_state_scheme \<Rightarrow> 'a net_state_scheme" where
  "arp_cache_update ip mac s = s\<lparr>arp_cache := arp_insert ip mac (arp_cache s)\<rparr>"

fun arp_find :: "u32 \<Rightarrow> arp_entry list \<Rightarrow> u8 list option" where
  "arp_find ip [] = None"
| "arp_find ip (e # es) = (if ae_valid e \<and> ae_ip e = ip then Some (ae_mac e) else arp_find ip es)"

definition arp_lookup :: "u32 \<Rightarrow> 'a net_state_scheme \<Rightarrow> u8 list option" where
  "arp_lookup ip s = arp_find ip (arp_cache s)"

section \<open>Sending\<close>

definition net_send_packet ::
  "u8 list \<Rightarrow> u16 \<Rightarrow> u8 list \<Rightarrow> 'a net_state_scheme \<Rightarrow> 'a net_state_scheme option"
where
  "net_send_packet dest_mac ethertype body s =
     do {
       (frame, s1) \<leftarrow> kmem_zalloc (14 + of_nat (length body)) s;
       if frame = 0 then Some s1
       else Some (kmem_free frame (s1\<lparr>sent_frames := sent_frames s1 @
         [dest_mac @ my_mac s1 @ bytes16 (htons ethertype) @ body]\<rparr>))
     }"

definition arp_packet :: "u16 \<Rightarrow> u8 list \<Rightarrow> u32 \<Rightarrow> u8 list \<Rightarrow> u32 \<Rightarrow> u8 list" where
  "arp_packet opcode sender_mac sender_ip target_mac target_ip =
     bytes16 (htons 1) @ bytes16 (htons 0x0800) @ [6, 4] @ bytes16 (htons opcode)
     @ sender_mac @ bytes32 sender_ip @ target_mac @ bytes32 target_ip"

definition arp_send_request :: "u32 \<Rightarrow> 'a net_state_scheme \<Rightarrow> 'a net_state_scheme option" where
  "arp_send_request target_ip s =
     net_send_packet (replicate 6 0xFF) 0x0806 (arp_packet 1 (my_mac s) my_ip (replicate 6 0) target_ip) s"

definition ip_header :: "u16 \<Rightarrow> u16 \<Rightarrow> u8 \<Rightarrow> u32 \<Rightarrow> u16 \<Rightarrow> u8 list" where
  "ip_header total_length ident protocol dest_ip checksum =
     [0x45, 0] @ bytes16 (htons total_length) @ bytes16 (htons ident) @ bytes16 0 @ [64, protocol]
     @ bytes16 checksum @ bytes32 my_ip @ bytes32 dest_ip"

definition ip_packet :: "u16 \<Rightarrow> u8 \<Rightarrow> u32 \<Rightarrow> u8 list \<Rightarrow> u8 list" where
  "ip_packet ident protocol dest_ip body =
     (let h = ip_header (of_nat (20 + length body)) ident protocol dest_ip
      in h (net_checksum (h 0)) @ body)"

definition udp_header :: "u16 \<Rightarrow> u16 \<Rightarrow> u16 \<Rightarrow> u8 list" where
  "udp_header src_port dest_port udp_len =
     bytes16 (htons src_port) @ bytes16 (htons dest_port) @ bytes16 (htons udp_len) @ bytes16 0"

definition icmp_echo :: "u16 \<Rightarrow> u16 \<Rightarrow> u8 list" where
  "icmp_echo ident seq =
     (let h = (\<lambda>checksum. [8, 0] @ bytes16 checksum @ bytes16 (htons ident) @ bytes16 (htons seq)) in h (net_checksum (h 0)))"

text \<open>\<open>while (!flag && get_ticks() < timeout) task_yield()\<close>; the functions not used are handed back.\<close>

fun wait_until ::
  "('a net_state_scheme \<Rightarrow> bool) \<Rightarrow> u32 \<Rightarrow> ('a net_state_scheme \<Rightarrow> 'a net_state_scheme) list \<Rightarrow> 'a net_state_scheme
   \<Rightarrow> (('a net_state_scheme \<Rightarrow> 'a net_state_scheme) list \<times> 'a net_state_scheme) option"
where
  "wait_until flag timeout [] s =
     (if \<not> flag s \<and> system_ticks s < timeout then None else Some ([], s))"
| "wait_until flag timeout (e # es) s =
     (if \<not> flag s \<and> system_ticks s < timeout then wait_until flag timeout es (e s) else Some (e # es, s))"

text \<open>The hardware address of the next hop, which is asked for if the cache does not have it.\<close>

definition next_hop :: "u32 \<Rightarrow> u32" where
  "next_hop target_ip = (if target_ip AND my_netmask \<noteq> my_ip AND my_netmask then my_gateway else target_ip)"

definition resolve_mac ::
  "('a net_state_scheme \<Rightarrow> 'a net_state_scheme) list \<Rightarrow> u32 \<Rightarrow> 'a net_state_scheme
   \<Rightarrow> (u8 list option \<times> ('a net_state_scheme \<Rightarrow> 'a net_state_scheme) list \<times> 'a net_state_scheme) option"
where
  "resolve_mac others ip s =
     (case arp_lookup ip s of
        Some mac \<Rightarrow> Some (Some mac, others, s)
      | None \<Rightarrow> do {
          s1 \<leftarrow> arp_send_request ip (s\<lparr>arp_received_flag := False\<rparr>);
          (es, s2) \<leftarrow> wait_until arp_received_flag (system_ticks s1 + 1000) others s1;
          Some (arp_lookup ip s2, es, s2)
        })"

definition net_send_udp_packet ::
  "('a net_state_scheme \<Rightarrow> 'a net_state_scheme) list \<Rightarrow> u32 \<Rightarrow> u16 \<Rightarrow> u16 \<Rightarrow> u8 list \<Rightarrow> 'a net_state_scheme
   \<Rightarrow> (('a net_state_scheme \<Rightarrow> 'a net_state_scheme) list \<times> 'a net_state_scheme) option"
where
  "net_send_udp_packet others target_ip src_port dest_port body s =
     do {
       let udp_len = 8 + length body;
       (packet, s1) \<leftarrow> kmem_zalloc (of_nat (20 + udp_len)) s;
       if packet = 0 then Some (others, s1)
       else do {
         let segment = udp_header src_port dest_port (of_nat udp_len) @ body;
         (mac, es, s2) \<leftarrow> resolve_mac others (next_hop target_ip) s1;
         case mac of
           None \<Rightarrow> Some (es, kmem_free packet s2)
         | Some m \<Rightarrow> do {
             s3 \<leftarrow> net_send_packet m 0x0800 (ip_packet 0x4321 17 target_ip segment) s2;
             Some (es, kmem_free packet s3)
           }
       }
     }"

definition icmp_send_echo_request :: "u32 \<Rightarrow> u8 list \<Rightarrow> u16 \<Rightarrow> u16 \<Rightarrow> 'a net_state_scheme \<Rightarrow> 'a net_state_scheme option" where
  "icmp_send_echo_request target_ip target_mac ident seq s =
     do {
       (packet, s1) \<leftarrow> kmem_zalloc 28 s;
       if packet = 0 then Some s1
       else do {
         s2 \<leftarrow> net_send_packet target_mac 0x0800 (ip_packet 0x1234 1 target_ip (icmp_echo ident seq)) s1;
         Some (kmem_free packet s2)
       }
     }"

section \<open>The DNS answer\<close>

text \<open>The loop that skips a name; \<open>data\<close> is the memory from the start of the message on, \<open>len\<close> the length the
  message claims. Positions stay far below \<open>2 ^ 32\<close>, so they are natural numbers.\<close>

function skip_name :: "u8 list \<Rightarrow> nat \<Rightarrow> nat \<Rightarrow> nat option" where
  "skip_name data len pos =
     (if pos < len
      then if pos < length data
           then if data ! pos \<noteq> 0 then skip_name data len (pos + unat (data ! pos) + 1) else Some pos
           else None
      else Some pos)"
  by pat_completeness auto
termination by (relation "measure (\<lambda>(data, len, pos). len - pos)") auto

declare skip_name.simps [simp del]

fun skip_questions :: "u8 list \<Rightarrow> nat \<Rightarrow> nat \<Rightarrow> nat \<Rightarrow> nat option" where
  "skip_questions data len 0 pos = Some pos"
| "skip_questions data len (Suc n) pos =
     do { p \<leftarrow> skip_name data len pos; skip_questions data len n (p + 1 + 4) }"

fun find_answer :: "u8 list \<Rightarrow> nat \<Rightarrow> nat \<Rightarrow> nat \<Rightarrow> u32 option option" where
  "find_answer data len 0 pos = Some None"
| "find_answer data len (Suc n) pos =
     (if pos < len
      then do {
        b \<leftarrow> get8 data pos;
        p \<leftarrow> (if b AND 0xC0 = 0xC0 then Some (pos + 2) else map_option Suc (skip_name data len pos));
        if p + 10 > len then Some None
        else do {
          rtype \<leftarrow> map_option htons (get16 data p);
          rclass \<leftarrow> map_option htons (get16 data (p + 2));
          rdlength \<leftarrow> map_option htons (get16 data (p + 8));
          let q = p + 10;
          if rtype = 1 \<and> rclass = 1 \<and> rdlength = 4 \<and> q + 4 \<le> len then map_option Some (get32 data q)
          else find_answer data len n (q + unat rdlength)
        }
      }
      else Some None)"

definition dns_handle_packet :: "u8 list \<Rightarrow> nat \<Rightarrow> 'a net_state_scheme \<Rightarrow> 'a net_state_scheme option" where
  "dns_handle_packet data len s =
     (if len < 12 then Some s
      else do {
        ident \<leftarrow> get16 data 0;
        if ntohs ident \<noteq> dns_query_id s then Some s
        else do {
          ancount \<leftarrow> map_option ntohs (get16 data 6);
          if ancount = 0 then Some s
          else do {
            qdcount \<leftarrow> map_option ntohs (get16 data 4);
            pos \<leftarrow> skip_questions data len (unat qdcount) 12;
            r \<leftarrow> find_answer data len (unat ancount) pos;
            Some (case r of None \<Rightarrow> s | Some ip \<Rightarrow> s\<lparr>dns_resolved_ip := ip, dns_resolved_flag := True\<rparr>)
          }
        }
      })"

section \<open>Receiving\<close>

definition handle_arp :: "u8 list \<Rightarrow> 'a net_state_scheme \<Rightarrow> 'a net_state_scheme option" where
  "handle_arp data s =
     do {
       opcode \<leftarrow> map_option ntohs (get16 data 20);
       if opcode = 1
       then do {
         target_ip \<leftarrow> get32 data 38;
         if target_ip = my_ip
         then do {
           head6 \<leftarrow> part data 14 6;
           sender_mac \<leftarrow> part data 22 6;
           sender_ip \<leftarrow> get32 data 28;
           net_send_packet sender_mac 0x0806
             (head6 @ bytes16 (htons 2) @ my_mac s @ bytes32 my_ip @ sender_mac @ bytes32 sender_ip) s
         }
         else Some s
       }
       else if opcode = 2
       then do {
         sender_ip \<leftarrow> get32 data 28;
         sender_mac \<leftarrow> part data 22 6;
         Some ((arp_cache_update sender_ip sender_mac s)\<lparr>arp_received_flag := True\<rparr>)
       }
       else Some s
     }"

text \<open>The reply to an echo request: the packet with both addresses exchanged and both checksums made anew. A total
  length below the header length gives a length near \<open>2 ^ 32\<close>.\<close>

definition echo_reply :: "u8 list \<Rightarrow> nat \<Rightarrow> 'a net_state_scheme \<Rightarrow> 'a net_state_scheme option" where
  "echo_reply data ihl s =
     do {
       let icmp = 14 + ihl;
       total_length \<leftarrow> map_option (unat \<circ> ntohs) (get16 data 16);
       d1 \<leftarrow> patch data icmp [0];
       d2 \<leftarrow> patch d1 (icmp + 2) [0, 0];
       body \<leftarrow> (if total_length < ihl then None else part d2 icmp (total_length - ihl));
       d3 \<leftarrow> patch d2 (icmp + 2) (bytes16 (net_checksum body));
       src_ip \<leftarrow> get32 d3 26;
       d4 \<leftarrow> patch d3 26 (bytes32 my_ip);
       d5 \<leftarrow> patch d4 30 (bytes32 src_ip);
       d6 \<leftarrow> patch d5 24 [0, 0];
       hdr \<leftarrow> part d6 14 ihl;
       d7 \<leftarrow> patch d6 24 (bytes16 (net_checksum hdr));
       src_mac \<leftarrow> part d7 6 6;
       reply \<leftarrow> part d7 14 total_length;
       net_send_packet src_mac 0x0800 reply s
     }"

definition handle_ip :: "u8 list \<Rightarrow> 'a net_state_scheme \<Rightarrow> 'a net_state_scheme option" where
  "handle_ip data s =
     do {
       dest_ip \<leftarrow> get32 data 30;
       if dest_ip \<noteq> my_ip then Some s
       else do {
         protocol \<leftarrow> get8 data 23;
         ihl \<leftarrow> map_option (\<lambda>b. unat (b AND 0xF) * 4) (get8 data 14);
         if protocol = 1
         then do {
           type_byte \<leftarrow> get8 data (14 + ihl);
           if type_byte = 8 then echo_reply data ihl s
           else if type_byte = 0 then Some (s\<lparr>icmp_received_flag := True\<rparr>)
           else Some s
         }
         else if protocol = 17
         then do {
           dest_port \<leftarrow> map_option ntohs (get16 data (14 + ihl + 2));
           udp_len \<leftarrow> map_option ntohs (get16 data (14 + ihl + 4));
           if 8 \<le> udp_len \<and> dest_port = dns_client_port
           then dns_handle_packet (drop (14 + ihl + 8) data) (unat udp_len - 8) s
           else Some s
         }
         else Some s
       }
     }"

definition net_handle_packet :: "u8 list \<Rightarrow> 'a net_state_scheme \<Rightarrow> 'a net_state_scheme option" where
  "net_handle_packet data s =
     (if length data < 14 then Some s
      else do {
        ethtype \<leftarrow> map_option ntohs (get16 data 12);
        if ethtype = 0x0806 then handle_arp data s
        else if ethtype = 0x0800 then handle_ip data s
        else Some s
      })"

section \<open>Asking\<close>

lemma strchr_length: "strchr c x = Some d \<Longrightarrow> length d \<le> length c"
  by (induction c) (auto split: if_splits)

lemma strchr_tl: "Some d = strchr host x \<Longrightarrow> deref host \<noteq> 0 \<Longrightarrow> length d - Suc 0 < length host"
  using strchr_length [of host x d] by (cases host) (auto simp: deref_def)

text \<open>The labels of a host name, each after its length.\<close>

function dns_labels :: "cstr \<Rightarrow> u8 list \<Rightarrow> u8 list option" where
  "dns_labels host out =
     (if deref host = 0 then Some out
      else let next_dot = strchr host 46;
               len = (case next_dot of Some d \<Rightarrow> length host - length d | None \<Rightarrow> strlen host)
           in if len > 63 \<or> len = 0 then None
              else let out' = out @ [of_nat len] @ take len host
                   in case next_dot of None \<Rightarrow> Some out' | Some d \<Rightarrow> dns_labels (tl d) out')"
  by pat_completeness auto
termination
  by (relation "measure (\<lambda>(host, out). length host)") (auto dest: strchr_tl)

definition dns_format_qname :: "cstr \<Rightarrow> u8 list option" where
  "dns_format_qname hostname = map_option (\<lambda>q. q @ [0]) (dns_labels hostname [])"

definition dns_query :: "u16 \<Rightarrow> u8 list \<Rightarrow> u8 list" where
  "dns_query ident qname =
     bytes16 (htons ident) @ bytes16 (htons 0x0100) @ bytes16 (htons 1) @ bytes16 0 @ bytes16 0 @ bytes16 0 @ qname @ [0, 1, 0, 1]"

text \<open>\<open>query_buf\<close> has 512 bytes; a longer query is written past its end.\<close>

definition net_dns_resolve ::
  "('a net_state_scheme \<Rightarrow> 'a net_state_scheme) list \<Rightarrow> cstr \<Rightarrow> 'a net_state_scheme
   \<Rightarrow> (int \<times> u32 option \<times> ('a net_state_scheme \<Rightarrow> 'a net_state_scheme) list \<times> 'a net_state_scheme) option"
where
  "net_dns_resolve others hostname s =
     (case dns_format_qname hostname of
        None \<Rightarrow> Some (- 1, None, others, s)
      | Some qname \<Rightarrow>
          if 12 + length qname + 4 > 512 then None
          else do {
            (es, s1) \<leftarrow> net_send_udp_packet others my_dns_server dns_client_port 53
              (dns_query (dns_query_id s) qname) (s\<lparr>dns_resolved_flag := False, dns_resolved_ip := 0\<rparr>);
            (es', s2) \<leftarrow> wait_until dns_resolved_flag (system_ticks s1 + 2500) es s1;
            let s3 = s2\<lparr>dns_query_id := dns_query_id s2 + 1\<rparr>;
            Some (if dns_resolved_flag s2 then (0, Some (dns_resolved_ip s2), es', s3) else (- 1, None, es', s3))
          })"

definition net_ping ::
  "('a net_state_scheme \<Rightarrow> 'a net_state_scheme) list \<Rightarrow> u32 \<Rightarrow> 'a net_state_scheme
   \<Rightarrow> (int \<times> u32 option \<times> ('a net_state_scheme \<Rightarrow> 'a net_state_scheme) list \<times> 'a net_state_scheme) option"
where
  "net_ping others target_ip s =
     do {
       (mac, es, s1) \<leftarrow> resolve_mac others (next_hop target_ip) s;
       case mac of
         None \<Rightarrow> Some (- 1, None, es, s1)
       | Some m \<Rightarrow> do {
           let start = system_ticks s1;
           s2 \<leftarrow> icmp_send_echo_request target_ip m 0x1234 1 (s1\<lparr>icmp_received_flag := False\<rparr>);
           (es', s3) \<leftarrow> wait_until icmp_received_flag (system_ticks s2 + 2000) es s2;
           Some (if icmp_received_flag s3 then (0, Some (system_ticks s3 - start), es', s3) else (- 2, None, es', s3))
         }
     }"

section \<open>A packet with its checksum checks\<close>

fun word_sum :: "u8 list \<Rightarrow> nat" where
  "word_sum [] = 0"
| "word_sum [a] = unat a"
| "word_sum (a # b # r) = unat a + 256 * unat b + word_sum r"

lemma u8_less: "unat (a :: u8) < 256"
  using unsigned_less [of a, where 'a = nat] by simp

lemma unat_ucast_narrow: "unat (ucast x :: u8) = unat x mod 256" for x :: u16
  by (simp add: unsigned_ucast_eq take_bit_eq_mod)

lemma unat_ucast_half: "unat (ucast x :: u16) = unat x mod 65536" for x :: u32
  by (simp add: unsigned_ucast_eq take_bit_eq_mod)

lemma word_sum_bound: "word_sum d \<le> 65535 * ((length d + 1) div 2)"
proof (induction d rule: word_sum.induct)
  case (2 a)
  show ?case using u8_less [of a] by simp
next
  case (3 a b r)
  show ?case using 3 u8_less [of a] u8_less [of b] by simp
qed simp

lemma unat_word_pair: "unat (ucast a + 256 * ucast b :: u32) = unat a + 256 * unat b" for a b :: u8
proof -
  have "ucast a + 256 * ucast b = (of_nat (unat a + 256 * unat b) :: u32)" by simp
  moreover have "unat (of_nat (unat a + 256 * unat b) :: u32) = unat a + 256 * unat b"
    using u8_less [of a] u8_less [of b] by (intro unat_of_nat_small) simp
  ultimately show ?thesis by (simp only:)
qed

lemma sum_words_nat: "unat acc + word_sum d < 2 ^ 32 \<Longrightarrow> unat (sum_words d acc) = unat acc + word_sum d"
proof (induction d acc rule: sum_words.induct)
  case (2 a acc)
  show ?case using 2 unat_ucast_wide [of a] unat_add_no_wrap [of acc "ucast a"] by simp
next
  case (3 a b r acc)
  have "unat (acc + (ucast a + 256 * ucast b)) = unat acc + (unat a + 256 * unat b)"
    using 3(2) unat_add_no_wrap [of acc "ucast a + 256 * ucast b"] unat_word_pair [of a b] by simp
  then show ?case using 3 by simp
qed simp

lemma word_sum_append: "even (length p) \<Longrightarrow> word_sum (p @ q) = word_sum p + word_sum q"
  by (induction p rule: word_sum.induct) auto

lemma fold_carry_zero: "fold_carry 0 = 0"
  by (subst fold_carry.simps) simp

lemma fold_carry_nat:
  "unat (fold_carry v) < 65536 \<and> unat (fold_carry v) mod 65535 = unat v mod 65535 \<and> (v \<noteq> 0 \<longrightarrow> fold_carry v \<noteq> 0)"
proof (induction v rule: fold_carry.induct)
  case (1 v)
  show ?case
  proof (cases "drop_bit 16 v = 0")
    case True
    then have "unat v div 65536 = 0" using half_nat(2) [of v] by simp
    then have "unat v < 65536" by (simp add: div_eq_0_iff)
    moreover have "fold_carry v = v" using True by (subst fold_carry.simps) simp
    ultimately show ?thesis by simp
  next
    case False
    let ?w = "(v AND 0xFFFF) + drop_bit 16 v"
    have w: "unat ?w = unat v mod 65536 + unat v div 65536"
      using unat_add_no_wrap [of "v AND 0xFFFF" "drop_bit 16 v"] half_nat [of v] unat_lt_2p32 [of v] by simp
    have "unat v = 65535 * (unat v div 65536) + unat ?w"
      using mult_div_mod_eq [of 65536 "unat v"] w by linarith
    then have m: "unat ?w mod 65535 = unat v mod 65535" by (metis mod_mult_self4)
    have "0 < unat v div 65536" using False half_nat(2) [of v] by (metis unat_gt_0)
    then have "?w \<noteq> 0" using w by (metis add_is_0 less_irrefl unat_0)
    moreover have "fold_carry v = fold_carry ?w" using False by (subst fold_carry.simps) simp
    ultimately show ?thesis using 1 False m by simp
  qed
qed

lemma fold_carry_full: "unat v mod 65535 = 0 \<Longrightarrow> unat v \<noteq> 0 \<Longrightarrow> unat (fold_carry v) = 65535"
proof -
  assume v: "unat v mod 65535 = 0" "unat v \<noteq> 0"
  have "v \<noteq> 0" using v(2) by auto
  then have "unat (fold_carry v) \<noteq> 0" using fold_carry_nat [of v] by (simp add: unat_eq_zero)
  moreover have "unat (fold_carry v) < 65536" "unat (fold_carry v) mod 65535 = 0"
    using fold_carry_nat [of v] v(1) by simp_all
  moreover have "n = m" if "n < m + 1" "n mod m = 0" "n \<noteq> 0" for n m :: nat
    using that by (cases "n < m") simp_all
  ultimately show ?thesis by simp
qed

lemma net_checksum_nat: "unat (net_checksum d) = 65535 - unat (fold_carry (sum_words d 0))"
proof -
  let ?f = "fold_carry (sum_words d 0)"
  have f: "unat ?f < 65536" using fold_carry_nat by blast
  have "(ucast (NOT ?f) :: u16) = NOT (ucast ?f)" by (rule bit_word_eqI) (simp add: bit_simps)
  also have "\<dots> = - 1 - ucast ?f" by (simp add: not_eq_complement)
  finally have "net_checksum d = - 1 - ucast ?f" by (simp add: net_checksum_def)
  moreover have "unat (ucast ?f :: u16) = unat ?f" using f by (simp add: unat_ucast_half)
  moreover have "unat (- 1 :: u16) = 65535" by (simp add: unsigned_minus_1_eq_mask mask_eq_exp_minus_1)
  ultimately show ?thesis
    using unat_sub_le [of "ucast ?f :: u16" "- 1"] f by simp
qed

text \<open>C29: Storing the checksum of a packet of at most 65535 bytes in the checksum field it was computed without, at an
  even offset, makes a packet whose checksum is 0.\<close>

theorem net_checksum_verifies:
  assumes "even (length pre)" "length pre + 2 + length post \<le> 65535"
  shows "net_checksum (pre @ bytes16 (net_checksum (pre @ [0, 0] @ post)) @ post) = 0"
proof -
  let ?c = "net_checksum (pre @ [0, 0] @ post)" and ?W = "word_sum pre + word_sum post"
  let ?d = "pre @ bytes16 ?c @ post"
  have bound: "word_sum x < 2 ^ 32" if "length x = length pre + 2 + length post" for x
  proof -
    have "(length x + 1) div 2 \<le> 32768" using that assms(2) by simp
    then show ?thesis using word_sum_bound [of x] by simp
  qed
  have W: "word_sum (pre @ [0, 0] @ post) = ?W" using word_sum_append [OF assms(1), of "[0, 0] @ post"] by simp
  then have sW: "unat (sum_words (pre @ [0, 0] @ post) 0) = ?W"
    using sum_words_nat [of 0 "pre @ [0, 0] @ post"] bound [of "pre @ [0, 0] @ post"] by simp
  define f where "f = unat (fold_carry (sum_words (pre @ [0, 0] @ post) 0))"
  have f: "f < 65536" "f mod 65535 = ?W mod 65535"
    using fold_carry_nat [of "sum_words (pre @ [0, 0] @ post) 0"] sW by (simp_all add: f_def)
  have c: "unat ?c = 65535 - f" by (simp add: net_checksum_nat f_def)
  have pair: "unat (ucast ?c :: u8) + 256 * unat (ucast (drop_bit 8 ?c) :: u8) = unat ?c"
  proof -
    have "unat ?c < 65536" using unsigned_less [of ?c, where 'a = nat] by simp
    then have "unat (ucast (drop_bit 8 ?c) :: u8) = unat ?c div 256"
      by (simp add: unat_ucast_narrow drop_bit_eq_div unat_div less_mult_imp_div_less)
    moreover have "unat (ucast ?c :: u8) = unat ?c mod 256" by (rule unat_ucast_narrow)
    ultimately show ?thesis by simp
  qed
  have "word_sum ?d = ?W + unat ?c"
    using word_sum_append [OF assms(1), of "bytes16 ?c @ post"] pair by (simp add: bytes16_def)
  then have s: "unat (sum_words ?d 0) = ?W + (65535 - f)"
    using sum_words_nat [of 0 ?d] bound [of ?d] c by (simp add: bytes16_def)
  have "f = 0" if "?W = 0"
  proof -
    have "sum_words (pre @ [0, 0] @ post) 0 = 0" using sW that by (metis unat_eq_0)
    then show ?thesis by (simp add: f_def fold_carry_zero)
  qed
  then have pos: "?W + (65535 - f) \<noteq> 0" by linarith
  have z: "(?W + (65535 - f)) mod 65535 = 0"
    using f mod_add_left_eq [of ?W 65535 "65535 - f"] mod_add_left_eq [of f 65535 "65535 - f"] by simp
  have "unat (fold_carry (sum_words ?d 0)) = 65535"
    by (rule fold_carry_full) (simp_all only: s z pos not_False_eq_True)
  then show ?thesis using net_checksum_nat [of ?d] by (simp only: unat_eq_0 diff_self_eq_0)
qed

theorem net_checksum_verifies_witness:
  "net_checksum ([0x45, 0, 0, 28, 0x12, 0x34, 0, 0, 64, 1] @ bytes16 (net_checksum ([0x45, 0, 0, 28, 0x12, 0x34, 0, 0, 64, 1] @ [0, 0] @
     [10, 0, 2, 15, 10, 0, 2, 2])) @ [10, 0, 2, 15, 10, 0, 2, 2]) = 0"
  by (rule net_checksum_verifies) simp_all

section \<open>The cache answers with the last address heard\<close>

lemma arp_find_insert:
  "arp_find ip' (arp_insert ip mac es) =
     (if ip' = ip \<and> (\<exists>e \<in> set es. \<not> ae_valid e \<or> ae_ip e = ip) then Some mac else arp_find ip' es)"
  if "\<forall>i j. i < j \<and> j < length es \<and> ae_valid (es ! j) \<longrightarrow> ae_valid (es ! i)"
  using that
proof (induction es)
  case (Cons e es)
  have "\<forall>i j. i < j \<and> j < length es \<and> ae_valid (es ! j) \<longrightarrow> ae_valid (es ! i)"
    using Cons.prems by (metis Suc_less_eq length_Cons nth_Cons_Suc)
  note IH = Cons.IH [OF this]
  show ?case
  proof (cases "ae_valid e")
    case True
    then show ?thesis using IH by auto
  next
    case False
    have "\<not> ae_valid x" if "x \<in> set es" for x
      using that Cons.prems False by (metis Suc_less_eq in_set_conv_nth length_Cons nth_Cons_0 nth_Cons_Suc zero_less_Suc)
    then have "arp_find ip' es = None" for ip' by (induction es) auto
    then show ?thesis using False by auto
  qed
qed simp

end
