(* ===== verification/Usermem.thy ===== *)
theory Usermem
  imports Net Logger Mouse Pci
begin

text \<open>
  User memory as \<open>syscall/syscall.c\<close> sees it: the state of the whole kernel, the bytes behind a virtual
  address, the validation of the pointers and strings of a program, and paths. A byte is found through
  the page tables of \<open>cr3\<close>; an access to a page that is not present, or a store to a page that is not
  writable, is a page fault in the kernel, \<open>None\<close>. A bad pointer sends \<open>SIGSEGV\<close> to the caller, which by
  default does not survive it: then the processor is another task's and the call does not return.
\<close>

section \<open>The state of the kernel\<close>

text \<open>\<open>console_out\<close> are the characters given to the console, the other fields the log, the mouse and the
  table of the PCI devices.\<close>

record sys_state = net_state +
  console_out :: "u8 list"
  klog :: log_state
  mouse :: mouse_dev
  pci_devices :: "pci_device list"

definition USER_ADDR_MIN :: u32 where "USER_ADDR_MIN = 0x100000"
definition KERNEL_USER_BOUNDARY :: u32 where "KERNEL_USER_BOUNDARY = 0xC0000000"

section \<open>Bytes behind virtual addresses\<close>

definition page_entry :: "u32 \<Rightarrow> u32 \<Rightarrow> 'a vmm_state_scheme \<Rightarrow> u32" where
  "page_entry pd v h = mem h (slot (frame_of (mem h (slot pd (pd_index v)))) (pt_index v))"

definition page_present :: "u32 \<Rightarrow> u32 \<Rightarrow> 'a vmm_state_scheme \<Rightarrow> bool" where
  "page_present pd v h \<longleftrightarrow> mem h (slot pd (pd_index v)) AND PAGE_PRESENT \<noteq> 0 \<and> page_entry pd v h AND PAGE_PRESENT \<noteq> 0"

definition page_writable :: "u32 \<Rightarrow> u32 \<Rightarrow> 'a vmm_state_scheme \<Rightarrow> bool" where
  "page_writable pd v h \<longleftrightarrow> page_present pd v h \<and>
     mem h (slot pd (pd_index v)) AND PAGE_WRITE \<noteq> 0 \<and> page_entry pd v h AND PAGE_WRITE \<noteq> 0"

definition page_user :: "u32 \<Rightarrow> u32 \<Rightarrow> 'a vmm_state_scheme \<Rightarrow> bool" where
  "page_user pd v h \<longleftrightarrow> page_present pd v h \<and>
     mem h (slot pd (pd_index v)) AND PAGE_USER \<noteq> 0 \<and> page_entry pd v h AND PAGE_USER \<noteq> 0"

definition phys_of :: "u32 \<Rightarrow> 'a vmm_state_scheme \<Rightarrow> u32" where
  "phys_of v h = frame_of (page_entry (cr3 h) v h) OR (v AND 0xFFF)"

text \<open>A byte of the word-addressed memory.\<close>

definition byte_shift :: "u32 \<Rightarrow> nat" where
  "byte_shift a = 8 * unat (a AND 3)"

definition byte_at :: "u32 \<Rightarrow> 'a vmm_state_scheme \<Rightarrow> u8" where
  "byte_at a h = ucast (drop_bit (byte_shift a) (mem h (a AND NOT 3)))"

definition set_byte :: "u32 \<Rightarrow> u8 \<Rightarrow> 'a vmm_state_scheme \<Rightarrow> 'a vmm_state_scheme" where
  "set_byte a b h =
     set_word (a AND NOT 3)
       ((mem h (a AND NOT 3) AND NOT (push_bit (byte_shift a) 0xFF)) OR push_bit (byte_shift a) (ucast b)) h"

definition user_get :: "u32 \<Rightarrow> 'a vmm_state_scheme \<Rightarrow> u8 option" where
  "user_get v h = (if page_present (cr3 h) v h then Some (byte_at (phys_of v h) h) else None)"

definition user_put :: "u32 \<Rightarrow> u8 \<Rightarrow> 'a vmm_state_scheme \<Rightarrow> 'a vmm_state_scheme option" where
  "user_put v b h = (if page_writable (cr3 h) v h then Some (set_byte (phys_of v h) b h) else None)"

fun user_load :: "u32 \<Rightarrow> nat \<Rightarrow> 'a vmm_state_scheme \<Rightarrow> u8 list option" where
  "user_load v 0 h = Some []"
| "user_load v (Suc n) h = do { b \<leftarrow> user_get v h; r \<leftarrow> user_load (v + 1) n h; Some (b # r) }"

fun user_store :: "u32 \<Rightarrow> u8 list \<Rightarrow> 'a vmm_state_scheme \<Rightarrow> 'a vmm_state_scheme option" where
  "user_store v [] h = Some h"
| "user_store v (b # bs) h = do { h1 \<leftarrow> user_put v b h; user_store (v + 1) bs h1 }"

fun user_string :: "u32 \<Rightarrow> nat \<Rightarrow> 'a vmm_state_scheme \<Rightarrow> cstr option" where
  "user_string v 0 h = None"
| "user_string v (Suc n) h =
     do { c \<leftarrow> user_get v h; if c = 0 then Some [] else map_option (Cons c) (user_string (v + 1) n h) }"

definition put_user :: "u32 \<Rightarrow> u8 list \<Rightarrow> 'a vfs_state_scheme \<Rightarrow> 'a vfs_state_scheme option" where
  "put_user v b s = do { h \<leftarrow> user_store v b (kheap s); Some (s\<lparr>kheap := h\<rparr>) }"

section \<open>Validation\<close>

datatype check = Valid | Invalid | Gone

definition security_violation :: "'a task_state_scheme \<Rightarrow> (check \<times> 'a task_state_scheme) option" where
  "security_violation s =
     do {
       (r, s') \<leftarrow> task_send_signal (t_pid (cur s)) (int SIGSEGV) s;
       Some (if current_task s' = current_task s then Invalid else Gone, s')
     }"

fun check_pages :: "u32 \<Rightarrow> nat \<Rightarrow> u32 \<Rightarrow> 'a vmm_state_scheme \<Rightarrow> bool" where
  "check_pages pd 0 page h = True"
| "check_pages pd (Suc n) page h = (page_present pd page h \<and> check_pages pd n (page + 4096) h)"

text \<open>The number of turns of the loop over the pages.\<close>

definition page_turns :: "u32 \<Rightarrow> u32 \<Rightarrow> nat" where
  "page_turns start_page end_page = unat ((end_page - start_page) div 4096) + 1"

definition is_valid_user_ptr :: "u32 \<Rightarrow> u32 \<Rightarrow> 'a task_state_scheme \<Rightarrow> (check \<times> 'a task_state_scheme) option" where
  "is_valid_user_ptr ptr len s =
     (if ptr = 0 then Some (Invalid, s)
      else if ptr < USER_ADDR_MIN \<or> ptr \<ge> KERNEL_USER_BOUNDARY then Some (Invalid, s)
      else if len = 0 then Some (Valid, s)
      else let end_addr = ptr + len - 1
           in if end_addr < ptr \<or> end_addr \<ge> KERNEL_USER_BOUNDARY then Some (Invalid, s)
              else if current_task s = 0 then Some (Invalid, s)
              else let start_page = frame_of ptr; end_page = frame_of end_addr
                   in if check_pages (t_page_directory (cur s)) (page_turns start_page end_page) start_page (kheap s)
                      then Some (Valid, s) else security_violation s)"

text \<open>How the loop over the characters of a string ends.\<close>

datatype cstr_end = Terminated | Out_of_range | Not_mapped

fun check_cstr :: "u32 \<Rightarrow> nat \<Rightarrow> u32 \<Rightarrow> 'a vmm_state_scheme \<Rightarrow> cstr_end option" where
  "check_cstr pd 0 v h = Some Out_of_range"
| "check_cstr pd (Suc n) v h =
     (if v < USER_ADDR_MIN \<or> v \<ge> KERNEL_USER_BOUNDARY then Some Out_of_range
      else if \<not> page_present pd v h then Some Not_mapped
      else do { c \<leftarrow> user_get v h; if c = 0 then Some Terminated else check_cstr pd n (v + 1) h })"

definition is_valid_user_cstr :: "u32 \<Rightarrow> nat \<Rightarrow> 'a task_state_scheme \<Rightarrow> (check \<times> 'a task_state_scheme) option" where
  "is_valid_user_cstr ptr max_len s =
     (if ptr = 0 \<or> current_task s = 0 then Some (Invalid, s)
      else do {
        e \<leftarrow> check_cstr (t_page_directory (cur s)) max_len ptr (kheap s);
        case e of
          Terminated \<Rightarrow> Some (Valid, s)
        | Out_of_range \<Rightarrow> Some (Invalid, s)
        | Not_mapped \<Rightarrow> security_violation s
      })"

text \<open>The resolved path, if the user's path is valid and can be resolved.\<close>

definition normalize_user_path :: "u32 \<Rightarrow> nat \<Rightarrow> 'a fat_state_scheme \<Rightarrow> (check \<times> cstr \<times> 'a fat_state_scheme) option" where
  "normalize_user_path user_path out_size s =
     do {
       (c, s1) \<leftarrow> is_valid_user_cstr user_path 256 s;
       if c \<noteq> Valid then Some (c, [], s1)
       else do {
         p \<leftarrow> user_string user_path 256 (kheap s1);
         Some (case resolve_path (Some (current_path s1)) (Some p) False out_size of
                 None \<Rightarrow> (Invalid, [], s1)
               | Some out \<Rightarrow> (Valid, out, s1))
       }
     }"

section \<open>What a valid pointer is\<close>

lemma page_present_lookup: "page_present pd v h \<longleftrightarrow> vmm_lookup pd v h \<noteq> None"
  by (simp add: page_present_def page_entry_def vmm_lookup_def entry_def Let_def)

lemma frame_of_indices [simp]: "pd_index (frame_of v) = pd_index v" "pt_index (frame_of v) = pt_index v"
  by (simp_all add: word_unat_eq_iff unat_pd_index unat_pt_index unat_frame_of div_mult2_eq [of _ 4096 1024, simplified])

lemma same_page_present: "frame_of v = frame_of w \<Longrightarrow> page_present pd v h = page_present pd w h"
  unfolding page_present_def page_entry_def by (metis frame_of_indices)

lemma check_pages_iff: "check_pages pd n page h \<longleftrightarrow> (\<forall>k < n. page_present pd (page + 4096 * of_nat k) h)"
proof (induction n arbitrary: page)
  case (Suc n)
  have "(\<forall>k < Suc n. page_present pd (page + 4096 * of_nat k) h) \<longleftrightarrow>
      page_present pd page h \<and> (\<forall>k < n. page_present pd (page + 4096 * of_nat (Suc k)) h)"
    by (simp only: All_less_Suc2) simp
  then show ?case by (simp add: Suc.IH algebra_simps)
qed simp

lemma frame_step: "k \<le> unat v div 4096 - unat p div 4096 \<Longrightarrow> unat p \<le> unat v \<Longrightarrow>
    unat (frame_of p + 4096 * of_nat k) = (unat p div 4096 + k) * 4096"
  for p v :: u32
proof -
  assume k: "k \<le> unat v div 4096 - unat p div 4096" "unat p \<le> unat v"
  have le: "unat p div 4096 \<le> unat v div 4096" using k(2) by (rule div_le_mono)
  have "(unat p div 4096 + k) * 4096 \<le> unat v div 4096 * 4096" using k(1) le by simp
  also have "\<dots> < 2 ^ 32" using unat_lt_2p32 [of v] div_times_less_eq_dividend [of "unat v" 4096] by simp
  finally have b: "(unat p div 4096 + k) * 4096 < 2 ^ 32" .
  have "frame_of p = of_nat (unat p div 4096 * 4096)" by (simp flip: unat_frame_of)
  then have "frame_of p + 4096 * of_nat k = of_nat ((unat p div 4096 + k) * 4096)" by (simp add: algebra_simps)
  moreover have "unat (of_nat ((unat p div 4096 + k) * 4096) :: u32) = (unat p div 4096 + k) * 4096"
    using b by (intro unat_of_nat_small) simp
  ultimately show ?thesis by (simp only:)
qed

lemma page_turns_eq: "unat p \<le> unat e \<Longrightarrow> page_turns (frame_of p) (frame_of e) = unat e div 4096 - unat p div 4096 + 1"
proof -
  assume "unat p \<le> unat e"
  then have d: "unat p div 4096 \<le> unat e div 4096" by (rule div_le_mono)
  then have "unat (frame_of e - frame_of p) = unat e div 4096 * 4096 - unat p div 4096 * 4096"
    using unat_sub_le [of "frame_of p" "frame_of e"] by (simp add: unat_frame_of)
  also have "\<dots> = (unat e div 4096 - unat p div 4096) * 4096" by (simp add: diff_mult_distrib)
  finally show ?thesis by (simp add: page_turns_def unat_div)
qed

lemma check_pages_range:
  assumes "unat p \<le> unat e"
  shows "check_pages pd (page_turns (frame_of p) (frame_of e)) (frame_of p) h \<longleftrightarrow>
    (\<forall>v. unat p \<le> unat v \<and> unat v \<le> unat e \<longrightarrow> page_present pd v h)"
    (is "?L \<longleftrightarrow> ?R")
proof
  assume L: ?L
  show ?R
  proof (intro allI impI)
    fix v :: u32 assume v: "unat p \<le> unat v \<and> unat v \<le> unat e"
    let ?k = "unat v div 4096 - unat p div 4096"
    have d: "unat p div 4096 \<le> unat v div 4096" "unat v div 4096 \<le> unat e div 4096"
      using v by (simp_all add: div_le_mono)
    have "page_present pd (frame_of p + 4096 * of_nat ?k) h"
    proof -
      have "?k < unat e div 4096 - unat p div 4096 + 1" using d by linarith
      with L show ?thesis unfolding check_pages_iff page_turns_eq [OF assms] by blast
    qed
    moreover have "frame_of p + 4096 * of_nat ?k = frame_of v"
      using frame_step [of ?k v p] v d by (simp add: word_unat_eq_iff unat_frame_of)
    ultimately show "page_present pd v h" using same_page_present [of "frame_of v" v pd h] by simp
  qed
next
  assume R: ?R
  show ?L
    unfolding check_pages_iff page_turns_eq [OF assms]
  proof (intro allI impI)
    fix k assume k: "k < unat e div 4096 - unat p div 4096 + 1"
    let ?g = "frame_of p + 4096 * of_nat k" and ?v = "if k = 0 then p else frame_of p + 4096 * of_nat k"
    have g: "unat ?g = (unat p div 4096 + k) * 4096" using frame_step [of k e p] k assms by simp
    have le: "unat p div 4096 + k \<le> unat e div 4096" using k div_le_mono [OF assms, of 4096] by simp
    have "unat ?g \<le> unat e div 4096 * 4096" unfolding g using le by (rule mult_le_mono1)
    then have ge: "unat ?g \<le> unat e" using div_times_less_eq_dividend [of "unat e" 4096] by simp
    have "k \<noteq> 0 \<Longrightarrow> unat p \<le> unat ?g"
      unfolding g using div_mult_mod_eq [of "unat p" 4096] mod_less_divisor [of 4096 "unat p"] by (cases k) auto
    then have "page_present pd ?v h" using R ge assms by auto
    moreover have "frame_of ?v = frame_of ?g" by (auto simp: word_unat_eq_iff unat_frame_of g)
    ultimately show "page_present pd ?g h" using same_page_present by blast
  qed
qed

lemma security_violation_not_valid: "security_violation s = Some (c, s') \<Longrightarrow> c \<noteq> Valid"
  by (auto simp: security_violation_def split: bind_split_asm if_splits prod.splits)

lemma end_addr_range:
  assumes "len \<noteq> 0"
  shows "\<not> (ptr + len - 1 < ptr \<or> ptr + len - 1 \<ge> KERNEL_USER_BOUNDARY) \<longleftrightarrow> unat ptr + unat len \<le> 0xC0000000"
    "unat ptr + unat len \<le> 0xC0000000 \<Longrightarrow> unat (ptr + len - 1) = unat ptr + unat len - 1"
proof -
  have len: "0 < unat len" using assms by (simp add: unat_gt_0)
  have small: "unat (ptr + len - 1) = unat ptr + unat len - 1" if "unat ptr + unat len \<le> 2 ^ 32"
  proof -
    have "ptr + len - 1 = of_nat (unat ptr + unat len - 1)" using len by (simp add: of_nat_diff)
    moreover have "unat (of_nat (unat ptr + unat len - 1) :: u32) = unat ptr + unat len - 1"
      using that len by (intro unat_of_nat_small) simp
    ultimately show ?thesis by (simp only:)
  qed
  have big: "unat (ptr + len - 1) = unat ptr + unat len - 1 - 2 ^ 32" if "2 ^ 32 < unat ptr + unat len"
  proof -
    have "ptr + len - 1 = of_nat (unat ptr + unat len - 1)" using len by (simp add: of_nat_diff)
    then have "unat (ptr + len - 1) = (unat ptr + unat len - 1) mod 2 ^ 32" by (simp only: unsigned_of_nat take_bit_eq_mod) simp
    also have "\<dots> = unat ptr + unat len - 1 - 2 ^ 32"
      using that unat_lt_2p32 [of ptr] unat_lt_2p32 [of len] by (simp add: mod_if)
    finally show ?thesis .
  qed
  show "unat (ptr + len - 1) = unat ptr + unat len - 1" if "unat ptr + unat len \<le> 0xC0000000"
    using that small by simp
  show "\<not> (ptr + len - 1 < ptr \<or> ptr + len - 1 \<ge> KERNEL_USER_BOUNDARY) \<longleftrightarrow> unat ptr + unat len \<le> 0xC0000000"
    unfolding word_less_nat_alt word_le_nat_alt KERNEL_USER_BOUNDARY_def
    using small big len unat_lt_2p32 [of len] by (cases "unat ptr + unat len \<le> 2 ^ 32") auto
qed

lemma user_ptr_valid:
  assumes "current_task s \<noteq> 0" "len \<noteq> 0"
  shows "is_valid_user_ptr ptr len s = Some (Valid, s') \<longleftrightarrow>
    s' = s \<and> 0x100000 \<le> unat ptr \<and> unat ptr + unat len \<le> 0xC0000000 \<and>
    (\<forall>v. unat ptr \<le> unat v \<and> unat v < unat ptr + unat len \<longrightarrow>
       vmm_lookup (t_page_directory (cur s)) v (kheap s) \<noteq> None)"
proof (cases "0x100000 \<le> unat ptr \<and> unat ptr + unat len \<le> 0xC0000000")
  case True
  have len: "0 < unat len" using assms(2) by (simp add: unat_gt_0)
  have p: "ptr \<noteq> 0" "\<not> (ptr < USER_ADDR_MIN \<or> ptr \<ge> KERNEL_USER_BOUNDARY)"
    using True len by (auto simp: USER_ADDR_MIN_def KERNEL_USER_BOUNDARY_def word_less_nat_alt word_le_nat_alt)
  note e = end_addr_range [OF assms(2), of ptr]
  have le: "unat ptr \<le> unat (ptr + len - 1)" using e(2) True len by simp
  have R: "(unat v \<le> unat (ptr + len - 1)) = (unat v < unat ptr + unat len)" for v :: u32
    using e(2) True len by auto
  have "is_valid_user_ptr ptr len s =
      (if \<forall>v. unat ptr \<le> unat v \<and> unat v < unat ptr + unat len \<longrightarrow> page_present (t_page_directory (cur s)) v (kheap s)
       then Some (Valid, s) else security_violation s)"
    using p e(1) True assms unfolding is_valid_user_ptr_def Let_def check_pages_range [OF le] R by simp
  then show ?thesis using True security_violation_not_valid [of s Valid s'] by (auto simp: page_present_lookup)
next
  case False
  have "ptr = 0 \<or> ptr < USER_ADDR_MIN \<or> ptr \<ge> KERNEL_USER_BOUNDARY \<or> \<not> unat ptr + unat len \<le> 0xC0000000"
    using False by (auto simp: USER_ADDR_MIN_def word_less_nat_alt)
  then have "\<exists>s''. is_valid_user_ptr ptr len s = Some (Invalid, s'')"
    using end_addr_range(1) [OF assms(2), of ptr] assms(2) by (auto simp: is_valid_user_ptr_def Let_def)
  then show ?thesis using False by auto
qed

text \<open>C32: a pointer passes the validation exactly when its bytes lie between 1 MiB and 3 GiB and every one of them
  has a present page in the directory of the caller; whether the page belongs to the program is not asked.\<close>

theorem user_ptr_valid_iff:
  assumes "current_task s \<noteq> 0" "len \<noteq> 0"
  shows "is_valid_user_ptr ptr len s = Some (Valid, s') \<longleftrightarrow>
    s' = s \<and> 0x100000 \<le> unat ptr \<and> unat ptr + unat len \<le> 0xC0000000 \<and>
    (\<forall>v. unat ptr \<le> unat v \<and> unat v < unat ptr + unat len \<longrightarrow>
       vmm_lookup (t_page_directory (cur s)) v (kheap s) \<noteq> None)"
  by (rule user_ptr_valid [OF assms])

section \<open>A kernel with one program\<close>

text \<open>The program has the directory at \<open>0x2000\<close>; of it, only the page at \<open>0x600000\<close> is mapped, for the kernel alone, as
  the identity map of \<open>vmm_initialize\<close> leaves it.\<close>

definition sample_sys :: sys_state where
  "sample_sys = net_state.extend
     (procfs_state.extend (fat_state.extend sample_fat \<lparr>proc_text = (\<lambda>p. [])\<rparr>)
       \<lparr>my_mac = replicate 6 2, arp_cache = [], arp_received_flag = False, icmp_received_flag = False,
        dns_resolved_flag = False, dns_resolved_ip = 0, dns_query_id = 0x4D4F, sent_frames = []\<rparr>)
     \<lparr>console_out = [], klog = boot_log, mouse = sample_mouse, pci_devices = []\<rparr>
   \<lparr>current_task := 0x1000,
    task_list := [(0x1000, zero_task\<lparr>t_pid := 3, t_uid := 5, t_euid := 5, t_is_user := 1, t_page_directory := 0x2000\<rparr>)],
    kheap := (kheap sample_fat)\<lparr>cr3 := 0x2000, mem := (\<lambda>a. 0)(0x2004 := 0x3003, 0x3800 := 0x600003)\<rparr>\<rparr>"

lemma sample_sys_fields [simp]:
  "current_task sample_sys = 0x1000" "cr3 (kheap sample_sys) = 0x2000" "current_path sample_sys = [47]"
  "mem (kheap sample_sys) = (\<lambda>a. 0)(0x2004 := 0x3003, 0x3800 := 0x600003)"
  "task_at 0x1000 sample_sys = zero_task\<lparr>t_pid := 3, t_uid := 5, t_euid := 5, t_is_user := 1, t_page_directory := 0x2000\<rparr>"
  "t_page_directory (zero_task\<lparr>t_pid := 3, t_uid := 5, t_euid := 5, t_is_user := 1, t_page_directory := 0x2000\<rparr>) = 0x2000"
  by (simp_all add: sample_sys_def net_state.extend_def procfs_state.extend_def fat_state.extend_def task_at_def)

lemma sample_sys_page:
  assumes "unat v div 4096 = 0x600"
  shows "page_writable 0x2000 v (kheap sample_sys)" "\<not> page_user 0x2000 v (kheap sample_sys)"
    "vmm_lookup 0x2000 v (kheap sample_sys) = Some 0x600003"
proof -
  have "unat v div 4194304 = 1" using assms div_mult2_eq [of "unat v" 4096 1024] by simp
  then have i: "pd_index v = 1" "pt_index v = 0x200"
    using assms by (simp_all add: word_unat_eq_iff unat_pd_index unat_pt_index)
  show "page_writable 0x2000 v (kheap sample_sys)" "\<not> page_user 0x2000 v (kheap sample_sys)"
    by (simp_all add: page_writable_def page_user_def page_present_def page_entry_def i slot_def frame_of_def
        PAGE_PRESENT_def PAGE_WRITE_def PAGE_USER_def)
  show "vmm_lookup 0x2000 v (kheap sample_sys) = Some 0x600003"
    by (simp add: vmm_lookup_def entry_def i slot_def frame_of_def PAGE_PRESENT_def Let_def)
qed

theorem user_ptr_valid_iff_witness:
  "is_valid_user_ptr 0x600010 16 sample_sys = Some (Valid, sample_sys)"
proof -
  have "vmm_lookup 0x2000 v (kheap sample_sys) \<noteq> None"
    if "unat (0x600010 :: u32) \<le> unat v \<and> unat v < unat (0x600010 :: u32) + unat (16 :: u32)" for v
  proof -
    have "unat v div 4096 = 0x600" using that by (intro div_nat_eqI) simp_all
    then show ?thesis using sample_sys_page(3) by simp
  qed
  then show ?thesis using user_ptr_valid_iff [of sample_sys 16 "0x600010" sample_sys] by simp
qed

text \<open>What passes the validation can be read without a page fault, when the directory of the caller is loaded.\<close>

lemma user_load_present:
  "unat p + n \<le> 2 ^ 32 \<Longrightarrow> \<forall>v. unat p \<le> unat v \<and> unat v < unat p + n \<longrightarrow> page_present (cr3 h) v h \<Longrightarrow>
    \<exists>b. user_load p n h = Some b \<and> length b = n"
proof (induction n arbitrary: p)
  case (Suc n)
  have p: "page_present (cr3 h) p h" using Suc.prems(2) by simp
  show ?case
  proof (cases n)
    case 0
    then show ?thesis using p by (simp add: user_get_def)
  next
    case (Suc m)
    have s: "unat (p + 1) = unat p + 1" using Suc.prems(1) Suc unat_add_no_wrap [of p 1] by simp
    have "\<exists>b. user_load (p + 1) n h = Some b \<and> length b = n"
      by (rule Suc.IH) (use Suc.prems s in auto)
    then show ?thesis using p by (auto simp: user_get_def)
  qed
qed simp

lemma valid_ptr_loads:
  assumes "is_valid_user_ptr ptr len s = Some (Valid, s')" "current_task s \<noteq> 0" "len \<noteq> 0"
    and "cr3 (kheap s) = t_page_directory (cur s)"
  shows "\<exists>b. user_load ptr (unat len) (kheap s') = Some b \<and> length b = unat len"
proof -
  have v: "s' = s" "unat ptr + unat len \<le> 0xC0000000" and
    p: "\<And>v. unat ptr \<le> unat v \<and> unat v < unat ptr + unat len \<Longrightarrow> vmm_lookup (cr3 (kheap s)) v (kheap s) \<noteq> None"
    using assms(1) unfolding user_ptr_valid [OF assms(2,3)] assms(4) by blast+
  show ?thesis unfolding v(1) by (rule user_load_present) (use v(2) p in \<open>simp_all add: page_present_lookup\<close>)
qed

end
