(* ===== verification/Nodes.thy ===== *)
theory Nodes
  imports Usermem
begin

text \<open>
  The calls through the function pointers of \<open>vfs_node_t\<close> and \<open>fs_driver_t\<close>, on the state of the whole
  kernel, with \<open>vga_write\<close> of \<open>drivers/vga_display/vga_vfs.c\<close>. \<open>sys_env\<close> is what the system calls depend
  on besides the state: what the other tasks do at each point where the caller waits, the bytes that lie
  in memory behind a buffer, the clock, a bound for the depth of the directory tree, the link address
  of \<open>return_to_user_mode\<close>, and the calls into the power and sound drivers, which are not modelled.
\<close>

record sys_env =
  env_others :: "(sys_state \<Rightarrow> sys_state) list"
  env_behind :: "u8 list"
  env_clock :: "nat \<Rightarrow> rtc_time"
  env_register_b :: u8
  env_depth :: nat
  env_rtu :: u32
  env_drivers :: "u32 \<Rightarrow> u32 \<Rightarrow> sys_state \<Rightarrow> (u32 \<times> sys_state) option"

text \<open>The bytes a driver stores at the start of a buffer; more than fit are stored behind it.\<close>

definition fill :: "u8 list \<Rightarrow> u8 list \<Rightarrow> (u32 \<times> u8 list) option" where
  "fill out buf =
     (if length out \<le> length buf then Some (of_nat (length out), out @ drop (length out) buf) else None)"

definition vga_write :: "u32 \<Rightarrow> u8 list \<Rightarrow> sys_state \<Rightarrow> u32 \<times> sys_state" where
  "vga_write sz buf s =
     (if sz = 0 then (0, s) else (sz, s\<lparr>console_out := console_out s @ take (unat sz) buf\<rparr>))"

definition read_node ::
  "sys_env \<Rightarrow> read_fn \<Rightarrow> u32 \<Rightarrow> u32 \<Rightarrow> u32 \<Rightarrow> u8 list \<Rightarrow> sys_state \<Rightarrow> (u32 \<times> u8 list \<times> sys_state) option"
where
  "read_node env f node offset sz buf s =
     (case f of
        No_read \<Rightarrow> None
      | Fn_pipe_read \<Rightarrow> do { (n, b, s') \<leftarrow> pipe_vfs_read (env_others env) node offset sz (Some buf) s; b' \<leftarrow> b; Some (n, b', s') }
      | Fn_null_read \<Rightarrow> (case null_read sz buf of (n, b) \<Rightarrow> Some (n, b, s))
      | Fn_zero_read \<Rightarrow> do { (n, b) \<leftarrow> zero_read sz buf; Some (n, b, s) }
      | Fn_random_read \<Rightarrow> random_read (system_ticks s) sz buf s
      | Fn_procfs_read \<Rightarrow> do { (n, b) \<leftarrow> procfs_read node offset sz buf s; Some (n, b, s) }
      | Fn_fat16_read \<Rightarrow>
          do { (out, s') \<leftarrow> fat16_vfs_read node offset sz s; (n, b) \<leftarrow> fill out buf; Some (n, b, s') }
      | Fn_ata_read \<Rightarrow> do { (n, b) \<leftarrow> fill (ata_vfs_read False offset sz s) buf; Some (n, b, s) }
      | Fn_keyboard_read \<Rightarrow>
          do { (out, es, s') \<leftarrow> keyboard_vfs_read sz (env_others env) s; (n, b) \<leftarrow> fill out buf; Some (n, b, s') })"

definition write_node ::
  "sys_env \<Rightarrow> write_fn \<Rightarrow> u32 \<Rightarrow> u32 \<Rightarrow> u32 \<Rightarrow> u8 list \<Rightarrow> sys_state \<Rightarrow> (u32 \<times> sys_state) option"
where
  "write_node env f node offset sz buf s =
     (case f of
        No_write \<Rightarrow> None
      | Fn_pipe_write \<Rightarrow> pipe_vfs_write (env_others env) node offset sz (Some buf) s
      | Fn_null_write \<Rightarrow> Some (null_write sz buf, s)
      | Fn_zero_write \<Rightarrow> Some (zero_write sz buf, s)
      | Fn_random_write \<Rightarrow> Some (random_write sz buf, s)
      | Fn_fat16_write \<Rightarrow> fat16_vfs_write (env_behind env) node offset sz buf s
      | Fn_ata_write \<Rightarrow> Some (ata_vfs_write offset sz (Some buf) s)
      | Fn_vga_write \<Rightarrow> Some (vga_write sz buf s))"

definition open_node :: "open_fn \<Rightarrow> cstr \<Rightarrow> sys_state \<Rightarrow> (u32 \<times> sys_state) option" where
  "open_node f path s =
     (case f of
        No_open \<Rightarrow> None
      | Fn_devfs_open \<Rightarrow> Some (devfs_open path s)
      | Fn_procfs_open \<Rightarrow> procfs_open path s
      | Fn_fat16_open \<Rightarrow> fat16_vfs_open (Some path) s)"

definition node_read :: "sys_env \<Rightarrow> u32 \<Rightarrow> u32 \<Rightarrow> u32 \<Rightarrow> u8 list \<Rightarrow> sys_state \<Rightarrow> (u32 \<times> u8 list \<times> sys_state) option" where
  "node_read env node offset sz buf s =
     do { (n, b, s') \<leftarrow> vfs_read (read_node env) node offset sz (Some buf) s; b' \<leftarrow> b; Some (n, b', s') }"

definition node_write :: "sys_env \<Rightarrow> u32 \<Rightarrow> u32 \<Rightarrow> u32 \<Rightarrow> u8 list \<Rightarrow> sys_state \<Rightarrow> (u32 \<times> sys_state) option" where
  "node_write env node offset sz buf s = vfs_write (write_node env) node offset sz (Some buf) s"

definition node_close :: "u32 \<Rightarrow> sys_state \<Rightarrow> sys_state option" where
  "node_close node s = vfs_close close_node node s"

text \<open>\<open>vfs_open\<close>, and \<open>fat16_vfs_open\<close> if it finds nothing.\<close>

definition open_any :: "cstr \<Rightarrow> sys_state \<Rightarrow> (u32 \<times> sys_state) option" where
  "open_any path s =
     do {
       (node, s1) \<leftarrow> vfs_open open_node path s;
       if node = 0 then fat16_vfs_open (Some path) s1 else Some (node, s1)
     }"

end
