(* ===== verification/Elf.thy ===== *)
theory Elf
  imports Nodes
begin

text \<open>
  \<open>progs/elf/elf.c\<close>: the program loader and the search for the description in a program. The physical
  pages the loader fills are reached through their physical addresses, as the code does. \<open>None\<close>
  is a store outside of an object, an endless loop or a failing call below.
\<close>

section \<open>Headers\<close>

record elf32_phdr =
  p_type :: u32
  p_offset :: u32
  p_vaddr :: u32
  p_filesz :: u32
  p_memsz :: u32

definition ELF_MAGIC :: u32 where "ELF_MAGIC = 0x464C457F"
definition PT_LOAD :: u32 where "PT_LOAD = 1"
definition SIZEOF_EHDR :: nat where "SIZEOF_EHDR = 52"
definition SIZEOF_PHDR :: nat where "SIZEOF_PHDR = 32"

definition phdr_at :: "u8 list \<Rightarrow> nat \<Rightarrow> elf32_phdr" where
  "phdr_at b i =
     (let at = i * SIZEOF_PHDR
      in \<lparr>p_type = le32 b at, p_offset = le32 b (at + 4), p_vaddr = le32 b (at + 8),
          p_filesz = le32 b (at + 16), p_memsz = le32 b (at + 20)\<rparr>)"

section \<open>Loading\<close>

fun phys_store :: "u32 \<Rightarrow> u8 list \<Rightarrow> 'a vmm_state_scheme \<Rightarrow> 'a vmm_state_scheme" where
  "phys_store p [] h = h"
| "phys_store p (b # bs) h = phys_store (p + 1) bs (set_byte p b h)"

definition heap_do :: "(heap_state \<Rightarrow> 'b \<times> heap_state) \<Rightarrow> 'a vfs_state_scheme \<Rightarrow> 'b \<times> 'a vfs_state_scheme" where
  "heap_do f s = (case f (kheap s) of (r, h) \<Rightarrow> (r, s\<lparr>kheap := h\<rparr>))"

abbreviation heap_upd :: "(heap_state \<Rightarrow> heap_state) \<Rightarrow> 'a vfs_state_scheme \<Rightarrow> 'a vfs_state_scheme" where
  "heap_upd f s \<equiv> s\<lparr>kheap := f (kheap s)\<rparr>"

definition user_flags :: u32 where
  "user_flags = PAGE_PRESENT OR PAGE_WRITE OR PAGE_USER"

text \<open>A zeroed page mapped for the program: the address of its frame, 0 if there is none.\<close>

definition fresh_page :: "u32 \<Rightarrow> u32 \<Rightarrow> 'a vfs_state_scheme \<Rightarrow> u32 \<times> 'a vfs_state_scheme" where
  "fresh_page dir page s =
     (let (phys, s1) = heap_do pmm_alloc_block s
      in if phys = 0 then (0, s1)
         else (phys, heap_upd (vmm_map_page_in_directory dir phys page user_flags \<circ> zero_page phys) s1))"

text \<open>The part of a page at \<open>page_vaddr\<close> that comes from the file: where in the page, where in the segment, how much.\<close>

definition page_source :: "elf32_phdr \<Rightarrow> u32 \<Rightarrow> u32 \<times> u32 \<times> u32" where
  "page_source ph page_vaddr =
     (let vaddr = p_vaddr ph; filesz = p_filesz ph;
          dest_offset = (if page_vaddr < vaddr then vaddr - page_vaddr else 0);
          segment_offset = (if page_vaddr < vaddr then 0 else page_vaddr - vaddr);
          read_len = (if segment_offset < filesz
                      then let bytes_available = filesz - segment_offset; page_capacity = PAGE_SIZE - dest_offset
                           in if bytes_available < page_capacity then bytes_available else page_capacity
                      else 0)
      in (dest_offset, segment_offset, read_len))"

text \<open>The loop over the pages of a segment; \<open>False\<close> when the memory is used up.\<close>

fun load_pages :: "sys_env \<Rightarrow> u32 \<Rightarrow> u32 \<Rightarrow> elf32_phdr \<Rightarrow> u32 \<Rightarrow> nat \<Rightarrow> sys_state \<Rightarrow> (bool \<times> sys_state) option" where
  "load_pages env node dir ph page 0 s = Some (True, s)"
| "load_pages env node dir ph page (Suc n) s =
     (let (phys, s1) = fresh_page dir page s
      in if phys = 0 then Some (False, s1)
         else let (dest_offset, segment_offset, read_len) = page_source ph page
              in do {
                s2 \<leftarrow> (if read_len > 0
                  then do {
                    let old = replicate (unat read_len) 0;
                    (k, b, t) \<leftarrow> node_read env node (p_offset ph + segment_offset) read_len old s1;
                    Some (heap_upd (phys_store (phys + dest_offset) b) t)
                  }
                  else Some s1);
                load_pages env node dir ph (page + PAGE_SIZE) n s2
              })"

definition segment_pages :: "elf32_phdr \<Rightarrow> u32 \<times> u32 \<times> nat" where
  "segment_pages ph =
     (let start_page = frame_of (p_vaddr ph); end_page = frame_of (p_vaddr ph + p_memsz ph + 0xFFF)
      in (start_page, end_page, unat ((end_page - start_page) div 4096)))"

fun load_segments ::
  "sys_env \<Rightarrow> u32 \<Rightarrow> u32 \<Rightarrow> elf32_phdr list \<Rightarrow> u32 \<Rightarrow> sys_state \<Rightarrow> (u32 option \<times> sys_state) option"
where
  "load_segments env node dir [] max_vaddr s = Some (Some max_vaddr, s)"
| "load_segments env node dir (ph # phs) max_vaddr s =
     (if p_type ph = PT_LOAD
      then let (start_page, end_page, page_count) = segment_pages ph
           in do {
             (ok, s1) \<leftarrow> load_pages env node dir ph start_page page_count s;
             if ok then load_segments env node dir phs (if end_page > max_vaddr then end_page else max_vaddr) s1
             else Some (None, s1)
           }
      else load_segments env node dir phs max_vaddr s)"

text \<open>The program headers: the loop reads \<open>e_phnum\<close> of them, 32 bytes each, from the \<open>e_phnum * e_phentsize\<close>
  bytes that were allocated.\<close>

definition program_headers :: "u8 list \<Rightarrow> u16 \<Rightarrow> elf32_phdr list option" where
  "program_headers b phnum =
     (if unat phnum * SIZEOF_PHDR \<le> length b then Some (map (phdr_at b) [0..<unat phnum]) else None)"

section \<open>Arguments\<close>

text \<open>The strings are copied from offset 3840 of the stack page on until one does not fit. \<open>ptrs\<close> are the 64 words of
  \<open>argv_ptrs\<close>, which are not initialised.\<close>

fun copy_args :: "u32 \<Rightarrow> nat \<Rightarrow> cstr list \<Rightarrow> u32 \<Rightarrow> u32 list \<Rightarrow> 'a vmm_state_scheme \<Rightarrow> u32 \<times> u32 list \<times> 'a vmm_state_scheme"
where
  "copy_args phys_base i [] str_pos ptrs h = (str_pos, ptrs, h)"
| "copy_args phys_base i (a # as) str_pos ptrs h =
     (let len = of_nat (strlen a) + 1
      in if str_pos + len > 4096 - 16 then (str_pos, ptrs, h)
         else copy_args phys_base (i + 1) as (str_pos + len) (ptrs[i := 0xBFFFF000 + str_pos])
                (phys_store (phys_base + str_pos) (content a @ [0]) h))"

text \<open>Where the array of the pointers starts in the page.\<close>

definition ptr_array_offset :: "u32 \<Rightarrow> nat \<Rightarrow> u32" where
  "ptr_array_offset str_pos argc =
     (let off = (str_pos + 3) AND NOT 3
      in if off + (of_nat argc + 1) * 4 > 4096 - 16 then 4096 - 16 - (of_nat argc + 1) * 4 else off)"

definition build_stack :: "u32 \<Rightarrow> cstr list \<Rightarrow> u32 list \<Rightarrow> 'a vmm_state_scheme \<Rightarrow> 'a vmm_state_scheme" where
  "build_stack phys_base argv ptrs h =
     (let argc = min (length argv) 63;
          (str_pos, ptrs, h1) = copy_args phys_base 0 (take argc argv) (4096 - 256) ptrs h;
          ptrs = ptrs[argc := 0];
          off = ptr_array_offset str_pos argc;
          h2 = phys_store (phys_base + off) (concat (map bytes32 (take (argc + 1) ptrs))) h1
      in phys_store (phys_base + (4096 - 16)) (bytes32 (of_nat argc) @ bytes32 (0xBFFFF000 + off)) h2)"

section \<open>Starting a program\<close>

text \<open>A stream of the new task: the node it had is closed, \<open>node\<close> is retained.\<close>

definition redirect_fd :: "nat \<Rightarrow> cstr \<Rightarrow> u32 \<Rightarrow> u32 \<Rightarrow> sys_state \<Rightarrow> sys_state option" where
  "redirect_fd i name node tk s =
     (if node = 0 then Some s
      else do {
        let fd = t_fd_table (task_at tk s) ! i;
        s1 \<leftarrow> (if fd_in_use fd \<and> fd_node fd \<noteq> 0 then node_close (fd_node fd) s else Some s);
        nm \<leftarrow> strcpy (fd_filename fd) name;
        let (r, s2) = vfs_retain node s1;
        Some (upd_task tk (\<lambda>t. t\<lparr>t_fd_table := (t_fd_table t)[i := fd\<lparr>fd_in_use := True, fd_filename := nm,
          fd_current_offset := 0, fd_file_size := 0, fd_node := r\<rparr>]\<rparr>) s2)
      })"

text \<open>From the check of the program headers to the new task. On the error exits the pages are not given back.\<close>

definition spawn ::
  "sys_env \<Rightarrow> cstr \<Rightarrow> cstr list \<Rightarrow> u32 list \<Rightarrow> u32 \<Rightarrow> u32 \<Rightarrow> u32 \<Rightarrow> u8 list \<Rightarrow> sys_state \<Rightarrow> (u32 \<times> sys_state) option"
where
  "spawn env filename argv ptrs in_node out_node node ehdr s =
     do {
       let phnum = le16 ehdr 0x2C;
       let phdr_size = (ucast phnum * ucast (le16 ehdr 0x2A) :: u32);
       let give_up = (\<lambda>p t. do { t' \<leftarrow> node_close node (kmem_free p t); Some (0, t') });
       if phdr_size = 0 then do { t \<leftarrow> node_close node s; Some (0, t) }
       else do {
         (p, s1) \<leftarrow> kmem_zalloc phdr_size s;
         if p = 0 then do { t \<leftarrow> node_close node s1; Some (0, t) }
         else do {
           (k, b, s2) \<leftarrow> node_read env node (le32 ehdr 0x1C) phdr_size (replicate (unat phdr_size) 0) s1;
           phdrs \<leftarrow> program_headers b phnum;
           let (dir, s3) = heap_do vmm_create_directory s2;
           (m, s4) \<leftarrow> load_segments env node dir phdrs 0 s3;
           case m of
             None \<Rightarrow> give_up p s4
           | Some max_vaddr \<Rightarrow> do {
               let (stack_phys, s5) = heap_do pmm_alloc_block s4;
               if stack_phys = 0 then give_up p s5
               else do {
                 let s6 = heap_upd (zero_page stack_phys \<circ> vmm_map_page_in_directory dir stack_phys 0xBFFFF000 user_flags) s5;
                 let (tls_phys, s7) = heap_do pmm_alloc_block s6;
                 if tls_phys = 0 then give_up p s7
                 else do {
                   let s8 = heap_upd (zero_page tls_phys \<circ> vmm_map_page_in_directory dir tls_phys 0xBFFFE000 user_flags) s7;
                   s9 \<leftarrow> keyboard_flush_buffer (heap_upd (build_stack stack_phys argv ptrs) s8);
                   s10 \<leftarrow> node_close node (kmem_free p s9);
                   (pid, s11) \<leftarrow> task_create_user (env_rtu env) open_node filename (le32 ehdr 0x18) dir s10;
                   let tk = task_get_by_pid pid s11;
                   if pid = 0 \<or> tk = 0 then Some (pid, s11)
                   else do {
                     s12 \<leftarrow> redirect_fd 0 (bytes ''pipe:[read]'') in_node tk
                       (upd_task tk (\<lambda>t. t\<lparr>t_tls_ptr := 0xBFFFE000, t_heap_start := max_vaddr, t_heap_break := max_vaddr\<rparr>) s11);
                     s13 \<leftarrow> redirect_fd 1 (bytes ''pipe:[write]'') out_node tk s12;
                     Some (pid, s13)
                   }
                 }
               }
             }
         }
       }
     }"

definition elf_load_and_spawn ::
  "sys_env \<Rightarrow> cstr \<Rightarrow> cstr list \<Rightarrow> u32 list \<Rightarrow> u32 \<Rightarrow> u32 \<Rightarrow> sys_state \<Rightarrow> (u32 \<times> sys_state) option"
where
  "elf_load_and_spawn env filename argv ptrs in_node out_node s =
     do {
       (node, s1) \<leftarrow> open_any filename s;
       let refuse = (\<lambda>t. do { t' \<leftarrow> node_close node t; Some (0, t') });
       if node = 0 then Some (0, s1)
       else if nd_length (nodes s1 node) < of_nat SIZEOF_EHDR then refuse s1
       else do {
         (n, ehdr, s2) \<leftarrow> node_read env node 0 (of_nat SIZEOF_EHDR) (replicate SIZEOF_EHDR 0) s1;
         if n = 0 then refuse s2
         else if le32 ehdr 0 \<noteq> ELF_MAGIC \<or> le16 ehdr 0x10 \<noteq> 2 then refuse s2
         else if le32 ehdr 0x18 = 0 then refuse s2
         else spawn env filename argv ptrs in_node out_node node ehdr s2
       }
     }"

section \<open>The description\<close>

text \<open>The position of \<open>@DESC:\<close> among the bytes read.\<close>

fun find_tag :: "u8 list \<Rightarrow> nat \<Rightarrow> nat option" where
  "find_tag [] i = None"
| "find_tag (c # cs) i = (if take 6 (c # cs) = bytes ''@DESC:'' then Some i else find_tag cs (i + 1))"

text \<open>The text behind the tag, ended by a zero: whether there is one, and the user's buffer. A text that ends at the
  end of the file is ended at \<open>buffer[desc_bytes]\<close>.\<close>

definition read_description ::
  "sys_env \<Rightarrow> u32 \<Rightarrow> u32 \<Rightarrow> u32 \<Rightarrow> u8 list \<Rightarrow> sys_state \<Rightarrow> (bool \<times> u8 list \<times> sys_state) option"
where
  "read_description env node string_offset sz buf s =
     do {
       (n, b, s1) \<leftarrow> node_read env node string_offset (sz - 1) buf s;
       if 0 \<in> set (take (unat n) b) then Some (True, b, s1)
       else if n > 0 then do { b' \<leftarrow> put b (unat n) 0; Some (True, b', s1) }
       else Some (False, b, s1)
     }"

partial_function (option) scan_description ::
  "sys_env \<Rightarrow> u32 \<Rightarrow> u32 \<Rightarrow> u32 \<Rightarrow> u32 \<Rightarrow> u8 list \<Rightarrow> sys_state \<Rightarrow> (bool \<times> u8 list \<times> sys_state) option"
where
  "scan_description env node scan_limit offset sz buf s =
     (if offset < scan_limit
      then do {
        let to_read = (if offset + 1024 > scan_limit then scan_limit - offset else 1024);
        (n, chunk, s1) \<leftarrow> node_read env node offset to_read (replicate 1024 0) s;
        if n < 6 then Some (False, buf, s1)
        else case find_tag (take (unat n) chunk) 0 of
          None \<Rightarrow> scan_description env node scan_limit (offset + (n - 5)) sz buf s1
        | Some i \<Rightarrow> do {
            (found, buf', s2) \<leftarrow> read_description env node (offset + of_nat i + 6) sz buf s1;
            if found then Some (True, buf', s2)
            else scan_description env node scan_limit (offset + (n - 5)) sz buf' s2
          }
      }
      else Some (False, buf, s))"

text \<open>\<open>buf\<close> is the user's buffer of \<open>sz\<close> bytes.\<close>

definition elf_get_description :: "sys_env \<Rightarrow> cstr \<Rightarrow> u8 list \<Rightarrow> u32 \<Rightarrow> sys_state \<Rightarrow> (bool \<times> u8 list \<times> sys_state) option" where
  "elf_get_description env filename buf sz s =
     (if sz = 0 then Some (False, buf, s)
      else do {
        (a, s1) \<leftarrow> fat16_vfs_open (Some filename) s;
        (node, s2) \<leftarrow>
          (if a = 0 \<and> deref filename = 47
           then do { (p, k) \<leftarrow> snprintf 256 (bytes ''/system/bin/usr/commands%s'') [ArgStr (Some filename)]; fat16_vfs_open (Some p) s1 }
           else if a = 0
           then do { (p, k) \<leftarrow> snprintf 256 (bytes ''/%s'') [ArgStr (Some filename)]; fat16_vfs_open (Some p) s1 }
           else Some (a, s1));
        if node = 0 then Some (False, buf, s2)
        else do {
          let file_size = nd_length (nodes s2 node);
          if file_size < 4 then do { t \<leftarrow> node_close node s2; Some (False, buf, t) }
          else do {
            (n, magic, s3) \<leftarrow> node_read env node 0 4 (replicate 4 0) s2;
            if magic \<noteq> [0x7F, 69, 76, 70] then do { t \<leftarrow> node_close node s3; Some (False, buf, t) }
            else do {
              (found, buf', s4) \<leftarrow> scan_description env node (if file_size > 65536 then 65536 else file_size) 0 sz buf s3;
              t \<leftarrow> node_close node s4;
              Some (found, buf', t)
            }
          }
        }
      })"

end
