(* ===== verification/Syscall.thy ===== *)
theory Syscall
  imports Elf Auth
begin

text \<open>
  \<open>syscall/syscall.c\<close>: the system calls on the state of the whole kernel. A call is given the registers and
  returns the new \<open>eax\<close> and the new state; \<open>None\<close> in the place of \<open>eax\<close> is a call that does not return to its caller,
  because the caller was ended or the processor was given away for good. \<open>None\<close> as a whole is a call that
  hangs, waits longer than the environment says, or accesses memory outside of an object or of the mapped
  pages.
\<close>

section \<open>Results\<close>

type_synonym sysret = "(u32 option \<times> sys_state) option"

record syscall_regs =
  r_eax :: u32
  r_ebx :: u32
  r_ecx :: u32
  r_edx :: u32

definition ret :: "u32 \<Rightarrow> sys_state \<Rightarrow> sysret" where "ret v s = Some (Some v, s)"
definition ret_error :: "sys_state \<Rightarrow> sysret" where "ret_error s = Some (Some (- 1), s)"

definition on_check :: "check \<Rightarrow> (sys_state \<Rightarrow> sysret) \<Rightarrow> sys_state \<Rightarrow> sysret" where
  "on_check c k s = (case c of Valid \<Rightarrow> k s | Invalid \<Rightarrow> ret_error s | Gone \<Rightarrow> Some (None, s))"

definition with_ptr :: "u32 \<Rightarrow> u32 \<Rightarrow> (sys_state \<Rightarrow> sysret) \<Rightarrow> sys_state \<Rightarrow> sysret" where
  "with_ptr p len k s = do { (c, s1) \<leftarrow> is_valid_user_ptr p len s; on_check c k s1 }"

definition with_cstr :: "u32 \<Rightarrow> nat \<Rightarrow> (sys_state \<Rightarrow> sysret) \<Rightarrow> sys_state \<Rightarrow> sysret" where
  "with_cstr p n k s = do { (c, s1) \<leftarrow> is_valid_user_cstr p n s; on_check c k s1 }"

definition with_path :: "u32 \<Rightarrow> (cstr \<Rightarrow> sys_state \<Rightarrow> sysret) \<Rightarrow> sys_state \<Rightarrow> sysret" where
  "with_path p k s = do { (c, path, s1) \<leftarrow> normalize_user_path p 256 s; on_check c (k path) s1 }"

section \<open>File descriptors\<close>

definition MAX_OPEN_FILES :: nat where "MAX_OPEN_FILES = 16"
definition CAP_DEV_OPEN :: u32 where "CAP_DEV_OPEN = 1"
definition CAP_FS_WRITE :: u32 where "CAP_FS_WRITE = 2"
definition CAP_FS_FORMAT :: u32 where "CAP_FS_FORMAT = 4"

definition fd_at :: "nat \<Rightarrow> 'a task_state_scheme \<Rightarrow> file_descriptor" where
  "fd_at i s = t_fd_table (cur s) ! i"

definition upd_fd :: "nat \<Rightarrow> (file_descriptor \<Rightarrow> file_descriptor) \<Rightarrow> 'a task_state_scheme \<Rightarrow> 'a task_state_scheme" where
  "upd_fd i f s = upd_cur (\<lambda>t. t\<lparr>t_fd_table := (t_fd_table t)[i := f (t_fd_table t ! i)]\<rparr>) s"

text \<open>\<open>fd < 0 || fd >= MAX_OPEN_FILES || !fd_table[fd].in_use\<close>, the negation.\<close>

definition fd_open :: "u32 \<Rightarrow> 'a task_state_scheme \<Rightarrow> bool" where
  "fd_open fd s \<longleftrightarrow> 0 \<le> sint fd \<and> sint fd < int MAX_OPEN_FILES \<and> fd_in_use (fd_at (unat fd) s)"

fun free_fd_from :: "file_descriptor list \<Rightarrow> nat \<Rightarrow> nat option" where
  "free_fd_from [] i = None"
| "free_fd_from (d # ds) i = (if \<not> fd_in_use d then Some i else free_fd_from ds (i + 1))"

definition free_fd :: "'a task_state_scheme \<Rightarrow> nat option" where
  "free_fd s = free_fd_from (t_fd_table (cur s)) 0"

text \<open>A name copied with \<open>strncpy(dst, name, 255); dst[255] = 0\<close>.\<close>

definition fd_name :: "cstr \<Rightarrow> file_descriptor \<Rightarrow> u8 list option" where
  "fd_name name d = map_option (\<lambda>b. b[255 := 0]) (strncpy (fd_filename d) name 255)"

text \<open>The end of \<open>SYS_OPEN\<close> and \<open>SYS_CREATE\<close>: the node gets the first free descriptor.\<close>

definition install_node :: "cstr \<Rightarrow> u32 \<Rightarrow> sys_state \<Rightarrow> sysret" where
  "install_node path node s =
     (case free_fd s of
        None \<Rightarrow> do { t \<leftarrow> node_close node s; ret_error t }
      | Some i \<Rightarrow> do {
          nm \<leftarrow> fd_name path (fd_at i s);
          ret (of_nat i) (upd_fd i (\<lambda>d. d\<lparr>fd_in_use := True, fd_filename := nm, fd_file_size := nd_length (nodes s node),
            fd_current_offset := 0, fd_node := node\<rparr>) s)
        })"

definition sys_open :: "u32 \<Rightarrow> sys_state \<Rightarrow> sysret" where
  "sys_open user_path = with_path user_path (\<lambda>path s.
     do {
       (node, s1) \<leftarrow> open_any path s;
       if node = 0 then ret_error s1
       else if \<not> vfs_check_access node (current_task s1) VFS_ACCESS_READ s1
       then do { t \<leftarrow> node_close node s1; ret_error t }
       else if vfs_is_device node s1 \<and> \<not> task_has_cap (current_task s1) CAP_DEV_OPEN s1
       then do { t \<leftarrow> node_close node s1; ret_error t }
       else install_node path node s1
     })"

definition sys_close :: "u32 \<Rightarrow> sys_state \<Rightarrow> sysret" where
  "sys_close fd s =
     (if \<not> fd_open fd s then ret_error s
      else do {
        let i = unat fd;
        let node = fd_node (fd_at i s);
        s1 \<leftarrow> (if node \<noteq> 0 then node_close node s else Some s);
        ret 0 (upd_fd i (\<lambda>d. d\<lparr>fd_in_use := False, fd_node := 0, fd_filename := replicate 256 0,
          fd_current_offset := 0, fd_file_size := 0\<rparr>) s1)
      })"

definition stamp_output :: "'a task_state_scheme \<Rightarrow> 'a task_state_scheme" where
  "stamp_output s = upd_cur (\<lambda>t. t\<lparr>t_last_output_tick := system_ticks s\<rparr>) s"

definition write_to_stdout :: "sys_env \<Rightarrow> u8 list \<Rightarrow> sys_state \<Rightarrow> sys_state option" where
  "write_to_stdout env data s =
     (let s1 = (if current_task s \<noteq> 0 then stamp_output s else s); d = fd_at 1 s1
      in if current_task s1 \<noteq> 0 \<and> fd_in_use d \<and> fd_node d \<noteq> 0
         then do {
           (w, s2) \<leftarrow> node_write env (fd_node d) (fd_current_offset d) (of_nat (length data)) data s1;
           Some (upd_fd 1 (\<lambda>d. d\<lparr>fd_current_offset := fd_current_offset d + w\<rparr>) s2)
         }
         else let stdout_node = vfs_find (Some (bytes ''stdout'')) s1
              in if stdout_node \<noteq> 0 then map_option snd (node_write env stdout_node 0 (of_nat (length data)) data s1)
                 else Some s1)"

text \<open>The node of a descriptor may be \<open>NULL\<close>: \<open>read_node->type\<close> is then a read through \<open>NULL\<close>.\<close>

definition sys_read :: "sys_env \<Rightarrow> u32 \<Rightarrow> u32 \<Rightarrow> u32 \<Rightarrow> sys_state \<Rightarrow> sysret" where
  "sys_read env fd buf sz = with_ptr buf sz (\<lambda>s.
     if \<not> fd_open fd s then ret_error s
     else let i = unat fd; node = fd_node (fd_at i s); off = fd_current_offset (fd_at i s)
          in if node = 0 then None
             else if nd_type (nodes s node) = VFS_FILE \<and> off \<ge> nd_length (nodes s node) then ret 0 s
             else do {
               b \<leftarrow> user_load buf (unat sz) (kheap s);
               (n, b', s1) \<leftarrow> node_read env node off sz b s;
               s2 \<leftarrow> put_user buf b' s1;
               let s3 = upd_fd i (\<lambda>d. d\<lparr>fd_current_offset := fd_current_offset d + n\<rparr>) s2;
               if i = 0 \<and> n > 0 \<and> strcmp (nd_name (nodes s3 node)) (bytes ''stdin'') = 0
               then do { s4 \<leftarrow> write_to_stdout env (take (unat n) b') s3; ret n (stamp_output s4) }
               else ret n s3
             })"

definition sys_write :: "sys_env \<Rightarrow> u32 \<Rightarrow> u32 \<Rightarrow> u32 \<Rightarrow> sys_state \<Rightarrow> sysret" where
  "sys_write env fd buf sz = with_ptr buf sz (\<lambda>s.
     if \<not> fd_open fd s then ret_error s
     else let i = unat fd; s1 = (if i = 1 \<or> i = 2 then stamp_output s else s); node = fd_node (fd_at i s1)
          in if \<not> vfs_check_access node (current_task s1) VFS_ACCESS_WRITE s1 then ret_error s1
             else do {
               b \<leftarrow> user_load buf (unat sz) (kheap s1);
               (n, s2) \<leftarrow> node_write env node (fd_current_offset (fd_at i s1)) sz b s1;
               ret n (upd_fd i (\<lambda>d. d\<lparr>fd_current_offset := fd_current_offset d + n\<rparr>) s2)
             })"

definition SEEK_SET :: u32 where "SEEK_SET = 0"
definition SEEK_CUR :: u32 where "SEEK_CUR = 1"
definition SEEK_END :: u32 where "SEEK_END = 2"

text \<open>The new offset is computed in 64 bits and cut to 32.\<close>

definition sys_lseek :: "u32 \<Rightarrow> u32 \<Rightarrow> u32 \<Rightarrow> sys_state \<Rightarrow> sysret" where
  "sys_lseek fd offset whence s =
     (if \<not> fd_open fd s then ret_error s
      else let i = unat fd; d = fd_at i s;
               new_off = (if whence = SEEK_SET then Some (sint offset)
                          else if whence = SEEK_CUR then Some (uint (fd_current_offset d) + sint offset)
                          else if whence = SEEK_END then Some (uint (fd_file_size d) + sint offset)
                          else None)
           in case new_off of
                None \<Rightarrow> ret_error s
              | Some n \<Rightarrow> if n < 0 then ret_error s
                          else ret (of_int n) (upd_fd i (\<lambda>d. d\<lparr>fd_current_offset := of_int n\<rparr>) s))"

text \<open>What \<open>SYS_DUP\<close> and \<open>SYS_DUP2\<close> put into the new descriptor.\<close>

definition copy_fd :: "nat \<Rightarrow> nat \<Rightarrow> sys_state \<Rightarrow> sysret" where
  "copy_fd i j s =
     do {
       let src = fd_at i s;
       nm \<leftarrow> fd_name (fd_filename src) (fd_at j s);
       let (node, s1) = vfs_retain (fd_node src) s;
       ret (of_nat j) (upd_fd j (\<lambda>d. d\<lparr>fd_in_use := True, fd_filename := nm, fd_current_offset := fd_current_offset src,
         fd_file_size := fd_file_size src, fd_node := node\<rparr>) s1)
     }"

definition sys_dup :: "u32 \<Rightarrow> sys_state \<Rightarrow> sysret" where
  "sys_dup old_fd s =
     (if \<not> fd_open old_fd s then ret_error s
      else case free_fd s of None \<Rightarrow> ret_error s | Some j \<Rightarrow> copy_fd (unat old_fd) j s)"

definition sys_dup2 :: "u32 \<Rightarrow> u32 \<Rightarrow> sys_state \<Rightarrow> sysret" where
  "sys_dup2 old_fd new_fd s =
     (if \<not> fd_open old_fd s \<or> sint new_fd < 0 \<or> sint new_fd \<ge> int MAX_OPEN_FILES then ret_error s
      else if old_fd = new_fd then ret new_fd s
      else do {
        let j = unat new_fd;
        let d = fd_at j s;
        s1 \<leftarrow> (if fd_in_use d
          then do {
            t \<leftarrow> (if fd_node d \<noteq> 0 then node_close (fd_node d) s else Some s);
            Some (upd_fd j (\<lambda>d. d\<lparr>fd_filename := replicate 256 0, fd_node := 0, fd_current_offset := 0, fd_file_size := 0\<rparr>) t)
          }
          else Some s);
        copy_fd (unat old_fd) j s1
      })"

text \<open>The two lowest free descriptors.\<close>

definition two_free_fds :: "'a task_state_scheme \<Rightarrow> (nat \<times> nat) option" where
  "two_free_fds s =
     do {
       r \<leftarrow> free_fd s;
       w \<leftarrow> free_fd_from (drop (r + 1) (t_fd_table (cur s))) (r + 1);
       Some (r, w)
     }"

definition pipe_fd :: "nat \<Rightarrow> cstr \<Rightarrow> u32 \<Rightarrow> sys_state \<Rightarrow> sys_state option" where
  "pipe_fd i name node s =
     do {
       nm \<leftarrow> strcpy (fd_filename (fd_at i s)) name;
       Some (upd_fd i (\<lambda>d. d\<lparr>fd_in_use := True, fd_filename := nm, fd_current_offset := 0, fd_file_size := 0, fd_node := node\<rparr>) s)
     }"

definition sys_pipe :: "u32 \<Rightarrow> sys_state \<Rightarrow> sysret" where
  "sys_pipe user_pipefd = with_ptr user_pipefd 8 (\<lambda>s.
     do {
       (r, rnode, wnode, s1) \<leftarrow> pipe_create s;
       if r < 0 then ret_error s1
       else case two_free_fds s1 of
         None \<Rightarrow> do { t \<leftarrow> node_close rnode s1; u \<leftarrow> node_close wnode t; ret_error u }
       | Some (i, j) \<Rightarrow> do {
           s2 \<leftarrow> pipe_fd i (bytes ''pipe:[read]'') rnode s1;
           s3 \<leftarrow> pipe_fd j (bytes ''pipe:[write]'') wnode s2;
           s4 \<leftarrow> put_user user_pipefd (bytes32 (of_nat i) @ bytes32 (of_nat j)) s3;
           ret 0 s4
         }
     })"

section \<open>The file system\<close>

definition with_write_cap :: "(sys_state \<Rightarrow> sysret) \<Rightarrow> sys_state \<Rightarrow> sysret" where
  "with_write_cap k s = (if task_has_cap (current_task s) CAP_FS_WRITE s then k s else ret_error s)"

definition sys_format :: "sys_env \<Rightarrow> sys_state \<Rightarrow> sysret" where
  "sys_format env s =
     (if \<not> task_has_cap (current_task s) CAP_FS_FORMAT s then ret_error s
      else do { s1 \<leftarrow> fat16_format_drive (env_depth env) 0x80 (\<lambda>c t s. s) True s; ret 0 s1 })"

text \<open>The line \<open>sys_dir_visitor_callback\<close> prints for an dirent.\<close>

definition dir_line :: "u8 list \<Rightarrow> cstr \<Rightarrow> u8 list option" where
  "dir_line dirent lfn_name =
     do {
       let line = take 64 (content lfn_name) @ (if e_attributes dirent AND 0x10 \<noteq> 0 then [47] else []);
       let line = line @ replicate (32 - length line) 32;
       size_buf \<leftarrow> itoa (e_file_size dirent) 10;
       Some (line @ content size_buf @ bytes '' bytes'' @ [10])
     }"

definition sys_dir_visitor_callback :: "sys_env \<Rightarrow> u8 list \<times> cstr \<Rightarrow> sys_state \<Rightarrow> sys_state option" where
  "sys_dir_visitor_callback env item s =
     (case item of (dirent, lfn_name) \<Rightarrow>
       if e_attributes dirent = 0x0F \<or> dirent ! 0 = 0xE5 then Some s
       else do { line \<leftarrow> dir_line dirent lfn_name; write_to_stdout env line s })"

definition sys_list_dir :: "sys_env \<Rightarrow> u32 \<Rightarrow> sys_state \<Rightarrow> sysret" where
  "sys_list_dir env user_path = with_path user_path (\<lambda>path s.
     do {
       let saved_path = current_path s;
       (r, s1) \<leftarrow> fat16_chdir path s;
       if r \<noteq> 0 then ret_error s1
       else do {
         items \<leftarrow> fat16_list s1;
         s2 \<leftarrow> fold_opt (sys_dir_visitor_callback env) items s1;
         (r', s3) \<leftarrow> fat16_chdir saved_path s2;
         ret 0 s3
       }
     })"

definition sys_mkdir :: "u32 \<Rightarrow> sys_state \<Rightarrow> sysret" where
  "sys_mkdir user_path = with_path user_path (\<lambda>path.
     with_write_cap (\<lambda>s. do { (r, s1) \<leftarrow> fat16_create_dir (Some path) s; ret (of_int r) s1 }))"

definition sys_rmdir :: "u32 \<Rightarrow> sys_state \<Rightarrow> sysret" where
  "sys_rmdir user_path = with_path user_path (\<lambda>path.
     with_write_cap (\<lambda>s. do { s1 \<leftarrow> fat16_delete_dir (Some path) s; ret 0 s1 }))"

definition sys_remove :: "u32 \<Rightarrow> sys_state \<Rightarrow> sysret" where
  "sys_remove user_path = with_path user_path (\<lambda>path.
     with_write_cap (\<lambda>s. do { s1 \<leftarrow> fat16_delete_file (Some path) s; ret 0 s1 }))"

definition sys_create :: "sys_env \<Rightarrow> u32 \<Rightarrow> sys_state \<Rightarrow> sysret" where
  "sys_create env user_path = with_path user_path (\<lambda>path.
     with_write_cap (\<lambda>s. do {
       s1 \<leftarrow> fat16_write_file path (32 # env_behind env) 1 s;
       (node, s2) \<leftarrow> fat16_vfs_open (Some path) s1;
       if node = 0 then ret_error s2 else install_node path node s2
     }))"

definition sys_chdir :: "u32 \<Rightarrow> sys_state \<Rightarrow> sysret" where
  "sys_chdir user_path = with_path user_path (\<lambda>path s. do { (r, s1) \<leftarrow> fat16_chdir path s; ret (of_int r) s1 })"

definition sys_copy_file :: "sys_env \<Rightarrow> u32 \<Rightarrow> u32 \<Rightarrow> sys_state \<Rightarrow> sysret" where
  "sys_copy_file env src_user dst_user = with_path src_user (\<lambda>src. with_path dst_user (\<lambda>dst.
     with_write_cap (\<lambda>s. do { (r, s1) \<leftarrow> fat16_copy_file (env_behind env) src dst s; ret (of_int r) s1 })))"

definition sys_stat :: "u32 \<Rightarrow> u32 \<Rightarrow> sys_state \<Rightarrow> sysret" where
  "sys_stat user_path stat_buf = with_ptr stat_buf 20 (with_path user_path (\<lambda>path s.
     do {
       (node, s1) \<leftarrow> fat16_vfs_open (Some path) s;
       if node = 0 then ret_error s1
       else do {
         let n = nodes s1 node;
         s2 \<leftarrow> put_user stat_buf (bytes32 (nd_length n) @ bytes32 (nd_type n) @ bytes32 (nd_uid n) @ bytes32 (nd_gid n)
           @ bytes16 (nd_mode n)) s1;
         s3 \<leftarrow> node_close node s2;
         ret 0 s3
       }
     }))"

text \<open>With \<open>size\<close> 0 the length is \<open>size - 1 = 2 ^ 32 - 1\<close>; the bytes behind the path are then copied as well, which is \<open>None\<close>.\<close>

definition getcwd_length :: "u32 \<Rightarrow> u32 \<Rightarrow> u32" where
  "getcwd_length len sz = (if len \<ge> sz then sz - 1 else len)"

definition sys_getcwd :: "u32 \<Rightarrow> u32 \<Rightarrow> sys_state \<Rightarrow> sysret" where
  "sys_getcwd cwd_buf sz = with_ptr cwd_buf sz (\<lambda>s.
     do {
       let cwd = current_path s;
       let len = getcwd_length (of_nat (length cwd)) sz;
       if length cwd < unat len then None
       else do {
         s1 \<leftarrow> put_user cwd_buf (take (unat len) cwd @ [0]) s;
         ret len s1
       }
     })"

definition sys_get_description :: "sys_env \<Rightarrow> u32 \<Rightarrow> u32 \<Rightarrow> u32 \<Rightarrow> sys_state \<Rightarrow> sysret" where
  "sys_get_description env user_path user_buf sz = with_ptr user_buf sz (with_path user_path (\<lambda>path s.
     do {
       b \<leftarrow> user_load user_buf (unat sz) (kheap s);
       (found, b', s1) \<leftarrow> elf_get_description env path b sz s;
       s2 \<leftarrow> put_user user_buf b' s1;
       if found then ret 0 s2 else ret_error s2
     }))"

section \<open>Memory\<close>

definition sys_alloc_page :: "sys_state \<Rightarrow> sysret" where
  "sys_alloc_page s =
     (if current_task s = 0 then ret 0 s
      else let (phys, s1) = heap_do pmm_alloc_block s
           in if phys = 0 then ret 0 s1
              else let virt = t_next_user_vaddr (cur s1)
                   in if virt < USER_VIRT_MIN \<or> virt \<ge> USER_STACK_TOP then ret 0 (heap_upd (pmm_free_block phys) s1)
                      else let nxt = (if virt + PAGE_SIZE \<ge> USER_STACK_TOP then USER_STACK_TOP else virt + PAGE_SIZE);
                               s2 = upd_cur (\<lambda>t. t\<lparr>t_next_user_vaddr := nxt\<rparr>) s1
                           in ret virt (heap_upd (vmm_map_page_in_directory (t_page_directory (cur s2)) phys virt user_flags) s2))"

definition sys_free_page :: "u32 \<Rightarrow> sys_state \<Rightarrow> sysret" where
  "sys_free_page virt s =
     (if current_task s = 0 \<or> virt = 0 \<or> virt < USER_VIRT_MIN \<or> virt \<ge> KERNEL_VIRT_START \<or> virt AND 0xFFF \<noteq> 0
      then ret_error s
      else let pd = t_page_directory (cur s)
           in if \<not> page_present pd virt (kheap s) then ret_error s
              else ret 0 (heap_upd (\<lambda>h.
                set_word (slot (frame_of (mem h (slot pd (pd_index virt)))) (pt_index virt)) 0
                  (pmm_free_block (frame_of (page_entry pd virt h)) h)) s))"

text \<open>The loop of \<open>SYS_SBRK\<close>: \<open>n\<close> pages from \<open>page\<close> on; \<open>False\<close> when there is no frame left.\<close>

fun sbrk_pages :: "u32 \<Rightarrow> u32 \<Rightarrow> nat \<Rightarrow> sys_state \<Rightarrow> bool \<times> sys_state" where
  "sbrk_pages dir page 0 s = (True, s)"
| "sbrk_pages dir page (Suc n) s =
     (let (phys, s1) = fresh_page dir page s
      in if phys = 0 then (False, s1) else sbrk_pages dir (page + 4096) n s1)"

definition page_up :: "u32 \<Rightarrow> u32" where "page_up v = (v + 0xFFF) AND NOT 0xFFF"

definition sys_sbrk :: "u32 \<Rightarrow> sys_state \<Rightarrow> sysret" where
  "sys_sbrk increment s =
     (if current_task s = 0 then ret_error s
      else let fresh = (if t_heap_start (cur s) \<noteq> 0 then t_heap_start (cur s) else 0x10000000);
               s1 = (if t_heap_break (cur s) = 0 then upd_cur (\<lambda>t. t\<lparr>t_heap_start := fresh, t_heap_break := fresh\<rparr>) s else s);
               old_break = t_heap_break (cur s1);
               new_break = old_break + increment
           in if increment = 0 then ret old_break s1
              else if sint increment < 0
              then if new_break < t_heap_start (cur s1) then ret_error s1
                   else ret old_break (upd_cur (\<lambda>t. t\<lparr>t_heap_break := new_break\<rparr>) s1)
              else if new_break \<ge> 0xB0000000 \<or> new_break < old_break then ret_error s1
              else let start_page = page_up old_break; end_page = page_up new_break;
                       n = (if start_page < end_page then unat ((end_page - start_page) div 4096) else 0);
                       (ok, s2) = sbrk_pages (t_page_directory (cur s1)) start_page n s1
                   in if \<not> ok then ret_error s2
                      else ret old_break (upd_cur (\<lambda>t. t\<lparr>t_heap_break := new_break\<rparr>) s2))"

section \<open>Information\<close>

definition sys_syslog :: "u32 \<Rightarrow> u32 \<Rightarrow> sys_state \<Rightarrow> sysret" where
  "sys_syslog user_buf sz = with_ptr user_buf sz (\<lambda>s.
     do { let b = logger_read_log sz (klog s); s1 \<leftarrow> put_user user_buf b s; ret (of_nat (length b)) s1 })"

definition sys_get_mem_info :: "u32 \<Rightarrow> sys_state \<Rightarrow> sysret" where
  "sys_get_mem_info info = with_ptr info 12 (\<lambda>s.
     case pmm_get_memory_info (kheap s) of (total_bytes, used_bytes, free_bytes) \<Rightarrow>
       do { s1 \<leftarrow> put_user info (bytes32 total_bytes @ bytes32 used_bytes @ bytes32 free_bytes) s; ret 0 s1 })"

text \<open>The 50 bytes of \<open>sys_process_info_t\<close> before its padding; \<open>store_items\<close> puts items of \<open>width\<close> bytes one behind the other.\<close>

definition process_info_bytes :: "process_info \<Rightarrow> u8 list" where
  "process_info_bytes p =
     bytes32 (pi_pid p) @ bytes32 (pi_parent_pid p) @ bytes32 (pi_state p) @ bytes32 (pi_cpu_ticks p)
     @ [pi_base_priority p, pi_dynamic_priority p] @ pi_name p"

fun store_items :: "u32 \<Rightarrow> u32 \<Rightarrow> u8 list list \<Rightarrow> 'a vfs_state_scheme \<Rightarrow> 'a vfs_state_scheme option" where
  "store_items width at [] s = Some s"
| "store_items width at (b # bs) s = do { s1 \<leftarrow> put_user at b s; store_items width (at + width) bs s1 }"

text \<open>The length \<open>sizeof(sys_process_info_t) * max_entries\<close> is computed in 32 bits.\<close>

definition sys_get_process_info :: "u32 \<Rightarrow> u32 \<Rightarrow> sys_state \<Rightarrow> sysret" where
  "sys_get_process_info buf max_entries = with_ptr buf (52 * max_entries) (\<lambda>s.
     do {
       (infos, s1) \<leftarrow> task_get_process_info max_entries s;
       s2 \<leftarrow> store_items 52 buf (map process_info_bytes infos) s1;
       ret (of_nat (length infos)) s2
     })"

definition sys_set_priority :: "u32 \<Rightarrow> u32 \<Rightarrow> sys_state \<Rightarrow> sysret" where
  "sys_set_priority pid prio s = do { s1 \<leftarrow> task_set_priority pid (ucast prio) s; ret 0 s1 }"

definition sys_get_priority :: "u32 \<Rightarrow> sys_state \<Rightarrow> sysret" where
  "sys_get_priority pid s = ret (ucast (task_get_priority pid s)) s"

definition sys_get_time :: "sys_env \<Rightarrow> u32 \<Rightarrow> sys_state \<Rightarrow> sysret" where
  "sys_get_time env time_buf = with_ptr time_buf 8 (\<lambda>s.
     do {
       t \<leftarrow> rtc_get_time (env_clock env) (env_register_b env);
       s1 \<leftarrow> put_user time_buf [rtc_second t, rtc_minute t, rtc_hour t, rtc_day t, rtc_month t] s;
       s2 \<leftarrow> put_user (time_buf + 6) (bytes16 (rtc_year t)) s1;
       ret 0 s2
     })"

text \<open>The message goes to the log with the format \<open>%s\<close>; a level that is none is \<open>DEBUG\<close>.\<close>

definition sys_log_level :: "u32 \<Rightarrow> u32" where
  "sys_log_level level = (if 1 \<le> level \<and> level \<le> 5 then level else LOG_LEVEL_DEBUG)"

definition zero_time :: rtc_time where
  "zero_time = \<lparr>rtc_second = 0, rtc_minute = 0, rtc_hour = 0, rtc_day = 0, rtc_month = 0, rtc_year = 0\<rparr>"

definition sys_log :: "sys_env \<Rightarrow> u32 \<Rightarrow> u32 \<Rightarrow> u32 \<Rightarrow> sys_state \<Rightarrow> sysret" where
  "sys_log env level user_module user_msg = with_cstr user_module 64 (with_cstr user_msg 1024 (\<lambda>s.
     do {
       m \<leftarrow> user_string user_module 64 (kheap s);
       t \<leftarrow> user_string user_msg 1024 (kheap s);
       now \<leftarrow> (if sys_log_level level > log_min_level (klog s) then Some zero_time
              else rtc_get_time (env_clock env) (env_register_b env));
       l \<leftarrow> log_message (system_ticks s) now (sys_log_level level) (Some m) (bytes ''%s'') [ArgStr (Some t)] (klog s);
       ret 0 (s\<lparr>klog := l\<rparr>)
     }))"

section \<open>Tasks, devices and the network\<close>

definition sys_yield :: "sys_state \<Rightarrow> sysret" where
  "sys_yield s = do { s1 \<leftarrow> task_request_yield s; ret 0 s1 }"

definition sys_return :: "u32 \<Rightarrow> sys_state \<Rightarrow> sysret" where
  "sys_return status s =
     do { s1 \<leftarrow> task_exit_with_status status s; if current_task s = 0 then ret 0 s1 else Some (None, s1) }"

text \<open>A signal to the caller itself may end it.\<close>

definition sys_kill :: "u32 \<Rightarrow> u32 \<Rightarrow> sys_state \<Rightarrow> sysret" where
  "sys_kill pid signum s =
     do {
       (r, s1) \<leftarrow> task_send_signal pid (sint signum) s;
       if current_task s1 = current_task s then ret (of_int r) s1 else Some (None, s1)
     }"

definition sys_signal :: "u32 \<Rightarrow> u32 \<Rightarrow> sys_state \<Rightarrow> sysret" where
  "sys_signal signum handler s = (case task_set_signal_handler (sint signum) handler s of (r, s1) \<Rightarrow> ret r s1)"

definition sys_set_busy :: "u32 \<Rightarrow> sys_state \<Rightarrow> sysret" where
  "sys_set_busy busy s =
     ret 0 (if current_task s \<noteq> 0
            then upd_cur (\<lambda>t. t\<lparr>t_wants_spinner := (busy \<noteq> 0), t_last_output_tick := system_ticks s\<rparr>) s else s)"

definition pci_device_bytes :: "pci_device \<Rightarrow> u8 list" where
  "pci_device_bytes d =
     [pd_bus d, pd_slot d, pd_func d, 0] @ bytes16 (pd_vendor_id d) @ bytes16 (pd_device_id d)
     @ [pd_class_code d, pd_subclass d, pd_prog_if d, pd_revision_id d, pd_header_type d, pd_irq_line d, pd_irq_pin d, 0]
     @ concat (map bytes32 (pd_bar d))"

definition sys_get_pci_devices :: "u32 \<Rightarrow> u32 \<Rightarrow> sys_state \<Rightarrow> sysret" where
  "sys_get_pci_devices buf max_entries = with_ptr buf (40 * max_entries) (\<lambda>s.
     do {
       let ds = pci_get_devices max_entries (pci_devices s);
       s1 \<leftarrow> store_items 40 buf (map pci_device_bytes ds) s;
       ret (of_nat (length ds)) s1
     })"

definition store_word :: "u32 \<Rightarrow> u32 option \<Rightarrow> sys_state \<Rightarrow> sys_state option" where
  "store_word at v s = (case v of None \<Rightarrow> Some s | Some w \<Rightarrow> put_user at (bytes32 w) s)"

definition sys_ping :: "sys_env \<Rightarrow> u32 \<Rightarrow> u32 \<Rightarrow> sys_state \<Rightarrow> sysret" where
  "sys_ping env target_ip latency_out = with_ptr latency_out 4 (\<lambda>s.
     do {
       (r, v, es, s1) \<leftarrow> net_ping (env_others env) target_ip s;
       s2 \<leftarrow> store_word latency_out v s1;
       ret (of_int r) s2
     })"

definition sys_get_mouse :: "u32 \<Rightarrow> sys_state \<Rightarrow> sysret" where
  "sys_get_mouse user_state = with_ptr user_state 12 (\<lambda>s.
     do {
       ((x, y, buttons), m) \<leftarrow> mouse_get_state (mouse s);
       s1 \<leftarrow> put_user user_state (bytes32 x @ bytes32 y @ [buttons]) (s\<lparr>mouse := m\<rparr>);
       ret 0 s1
     })"

definition sys_dns_resolve :: "sys_env \<Rightarrow> u32 \<Rightarrow> u32 \<Rightarrow> sys_state \<Rightarrow> sysret" where
  "sys_dns_resolve env user_host user_ip = with_cstr user_host 256 (with_ptr user_ip 4 (\<lambda>s.
     do {
       host \<leftarrow> user_string user_host 256 (kheap s);
       (r, v, es, s1) \<leftarrow> net_dns_resolve (env_others env) host s;
       s2 \<leftarrow> store_word user_ip v s1;
       ret (of_int r) s2
     }))"

text \<open>The parameters are read again after they were checked; the driver gets their address.\<close>

definition sys_sound_play :: "sys_env \<Rightarrow> u32 \<Rightarrow> sys_state \<Rightarrow> sysret" where
  "sys_sound_play env params = with_ptr params 16 (\<lambda>s.
     do {
       b \<leftarrow> user_load params 8 (kheap s);
       with_ptr (le32 b 0) (le32 b 4) (\<lambda>s. do { (r, s1) \<leftarrow> env_drivers env 42 params s; ret r s1 }) s
     })"

text \<open>Power and sound: \<open>SYS_POWEROFF\<close>, \<open>SYS_REBOOT\<close> and the three sounds.\<close>

definition sys_driver :: "sys_env \<Rightarrow> u32 \<Rightarrow> sys_state \<Rightarrow> sysret" where
  "sys_driver env n s = do { (r, s1) \<leftarrow> env_drivers env n 0 s; ret 0 s1 }"

section \<open>The dispatcher\<close>

definition dispatch_high :: "sys_env \<Rightarrow> u32 \<Rightarrow> u32 \<Rightarrow> u32 \<Rightarrow> u32 \<Rightarrow> sys_state \<Rightarrow> sysret" where
  "dispatch_high env n b c d s =
    (if n = 23 then sys_get_description env b c d s
     else if n = 24 then sys_syslog b c s
     else if n = 25 then sys_get_mem_info b s
     else if n = 26 then sys_get_process_info b c s
     else if n = 27 then sys_set_priority b c s
     else if n = 28 then sys_get_priority b s
     else if n = 29 then sys_get_time env b s
     else if n = 30 then sys_sbrk b s
     else if n = 31 then sys_log env b c d s
     else if n = 32 then sys_pipe b s
     else if n = 33 then sys_kill b c s
     else if n = 34 then sys_signal b c s
     else if n = 35 then sys_set_busy b s
     else if n = 36 then sys_get_pci_devices b c s
     else if n = 39 then sys_ping env b c s
     else if n = 40 then sys_get_mouse b s
     else if n = 41 then sys_dns_resolve env b c s
     else if n = 42 then sys_sound_play env b s
     else if n \<in> {37, 38, 43, 44, 45} then sys_driver env n s
     else ret_error s)"

definition dispatch :: "sys_env \<Rightarrow> u32 \<Rightarrow> u32 \<Rightarrow> u32 \<Rightarrow> u32 \<Rightarrow> sys_state \<Rightarrow> sysret" where
  "dispatch env n b c d s =
    (if n = 1 then sys_yield s
     else if n = 2 then sys_return b s
     else if n = 3 then sys_open b s
     else if n = 4 then sys_close b s
     else if n = 5 then sys_read env b c d s
     else if n = 6 then sys_write env b c d s
     else if n = 7 then sys_format env s
     else if n = 8 then sys_list_dir env b s
     else if n = 9 then sys_mkdir b s
     else if n = 10 then sys_rmdir b s
     else if n = 11 then sys_remove b s
     else if n = 12 then sys_create env b s
     else if n = 13 then ret (system_ticks s) s
     else if n = 14 then sys_alloc_page s
     else if n = 15 then sys_free_page b s
     else if n = 16 then sys_chdir b s
     else if n = 17 then sys_copy_file env b c s
     else if n = 18 then sys_lseek b c d s
     else if n = 19 then sys_stat b c s
     else if n = 20 then sys_getcwd b c s
     else if n = 21 then sys_dup b s
     else if n = 22 then sys_dup2 b c s
     else dispatch_high env n b c d s)"

text \<open>The signals that are pending for a program are taken care of before the return.\<close>

definition syscall_dispatcher :: "sys_env \<Rightarrow> syscall_regs \<Rightarrow> sys_state \<Rightarrow> (syscall_regs option \<times> sys_state) option" where
  "syscall_dispatcher env regs s =
     do {
       (r, s1) \<leftarrow> dispatch env (r_eax regs) (r_ebx regs) (r_ecx regs) (r_edx regs) s;
       case r of
         None \<Rightarrow> Some (None, s1)
       | Some v \<Rightarrow>
           if current_task s1 \<noteq> 0 \<and> t_is_user (cur s1) \<noteq> 0
           then do {
             s2 \<leftarrow> task_check_signals s1;
             Some (if current_task s2 = current_task s1 then Some (regs\<lparr>r_eax := v\<rparr>) else None, s2)
           }
           else Some (Some (regs\<lparr>r_eax := v\<rparr>), s1)
     }"

end
