(* ===== verification/Syscall_Safety.thy ===== *)
theory Syscall_Safety
  imports Syscall Sched
begin

text \<open>
  What the system calls guarantee, and where they do not: the reference counts of the nodes cover the
  descriptors of all tasks, a heap that was grown is mapped, writable and new, and the gaps of the
  validation of pointers.
\<close>

section \<open>Reference counts cover the descriptors\<close>

definition refers :: "u32 \<Rightarrow> file_descriptor \<Rightarrow> nat" where
  "refers n d = of_bool (fd_in_use d \<and> fd_node d = n)"

definition task_refs :: "u32 \<Rightarrow> task \<Rightarrow> nat" where
  "task_refs n t = sum_list (map (refers n) (t_fd_table t))"

definition fd_refs :: "u32 \<Rightarrow> 'a task_state_scheme \<Rightarrow> nat" where
  "fd_refs n s = sum_list (map (task_refs n \<circ> snd) (task_list s))"

definition fds_wf :: "'a task_state_scheme \<Rightarrow> bool" where
  "fds_wf s \<longleftrightarrow> distinct (map fst (task_list s)) \<and> current_task s \<in> fst ` set (task_list s) \<and>
     (\<forall>(p, t) \<in> set (task_list s). length (t_fd_table t) = 16)"

definition refs_ok :: "'a task_state_scheme \<Rightarrow> bool" where
  "refs_ok s \<longleftrightarrow> (\<forall>n. n \<noteq> 0 \<longrightarrow> \<not> nd_persistent (nodes s n) \<longrightarrow> fd_refs n s \<le> unat (nd_ref_count (nodes s n)))"

lemma sum_list_update_nat:
  "i < length xs \<Longrightarrow> sum_list (map g (xs[i := y])) + g (xs ! i) = sum_list (map g xs) + (g y :: nat)"
  by (induction xs arbitrary: i) (auto split: nat.splits)

lemma sum_map_task:
  "distinct (map fst ts) \<Longrightarrow> map_of ts p = Some t \<Longrightarrow>
    sum_list (map (g \<circ> snd) (map_task p f ts)) + g t = sum_list (map (g \<circ> snd) ts) + (g (f t) :: nat)"
proof (induction ts)
  case (Cons a ts)
  obtain q u where a: "a = (q, u)" by fastforce
  show ?case
  proof (cases "q = p")
    case True
    then have "map_task p f ts = ts"
      using Cons.prems(1) a by (auto simp: map_task_def image_iff intro!: map_idI)
    then show ?thesis using Cons.prems a True by (simp add: map_task_def)
  next
    case False
    then show ?thesis using Cons a by (simp add: map_task_def)
  qed
qed simp

lemma fds_wfD:
  assumes "fds_wf s"
  shows "distinct (map fst (task_list s))" "map_of (task_list s) (current_task s) = Some (cur s)"
    "length (t_fd_table (cur s)) = 16"
proof -
  show d: "distinct (map fst (task_list s))" using assms by (simp add: fds_wf_def)
  obtain t where t: "(current_task s, t) \<in> set (task_list s)" using assms by (auto simp: fds_wf_def)
  then have "map_of (task_list s) (current_task s) = Some t" using d by simp
  moreover from this have "cur s = t" by (simp add: task_at_def)
  ultimately show "map_of (task_list s) (current_task s) = Some (cur s)" by simp
  show "length (t_fd_table (cur s)) = 16" using assms t \<open>cur s = t\<close> by (auto simp: fds_wf_def)
qed

lemma upd_fd_frame [simp]:
  "nodes (upd_fd i f s) = nodes s" "current_task (upd_fd i f s) = current_task s" "kheap (upd_fd i f s) = kheap s"
  by (simp_all add: upd_fd_def upd_task_def)

lemma fd_refs_upd_fd:
  assumes "fds_wf s" "i < 16"
  shows "fd_refs n (upd_fd i f s) + refers n (fd_at i s) = fd_refs n s + refers n (f (fd_at i s))"
proof -
  note w = fds_wfD [OF assms(1)]
  let ?g = "\<lambda>t. t\<lparr>t_fd_table := (t_fd_table t)[i := f (t_fd_table t ! i)]\<rparr>"
  have "fd_refs n (upd_fd i f s) + task_refs n (cur s) = fd_refs n s + task_refs n (?g (cur s))"
    using sum_map_task [OF w(1,2), of "task_refs n" ?g] by (simp add: fd_refs_def upd_fd_def upd_task_def)
  moreover have "task_refs n (?g (cur s)) + refers n (fd_at i s) = task_refs n (cur s) + refers n (f (fd_at i s))"
    using sum_list_update_nat [of i "t_fd_table (cur s)" "refers n" "f (fd_at i s)"] w(3) assms(2)
    by (simp add: task_refs_def fd_at_def)
  ultimately show ?thesis by simp
qed

lemma map_task_keys [simp]: "map fst (map_task p f ts) = map fst ts"
  by (induction ts) (auto simp: map_task_def)

lemma fds_wf_upd_fd: "fds_wf s \<Longrightarrow> fds_wf (upd_fd i f s)"
proof -
  assume w: "fds_wf s"
  have k: "fst ` set (map_task p g ts) = fst ` set ts" for p g and ts :: "(u32 \<times> task) list"
    by (metis list.set_map map_task_keys)
  show ?thesis using w
    by (auto simp: fds_wf_def upd_fd_def upd_task_def k) (auto simp: map_task_def)
qed

lemma fd_at_upd_fd:
  assumes "fds_wf s" "i < 16"
  shows "fd_at j (upd_fd i f s) = (if j = i then f (fd_at i s) else fd_at j s)"
proof -
  note w = fds_wfD [OF assms(1)]
  have "map_of (map_task p g ts) p = map_option g (map_of ts p)" for p g and ts :: "(u32 \<times> task) list"
    by (induction ts) (auto simp: map_task_def)
  then have "cur (upd_fd i f s) = (cur s)\<lparr>t_fd_table := (t_fd_table (cur s))[i := f (t_fd_table (cur s) ! i)]\<rparr>"
    using w(2) by (cases "map_of (task_list s) (current_task s)") (simp_all add: upd_fd_def upd_task_def task_at_def)
  then show ?thesis using w(3) assms(2) by (simp add: fd_at_def)
qed

text \<open>Closing a node takes one from its count; the other nodes and the tasks stay as they are.\<close>

lemma close_node_nodes: "close_node f n s = Some s' \<Longrightarrow> nodes s' = nodes s"
  by (auto simp: close_node_def pipe_vfs_close_read_def pipe_vfs_close_write_def procfs_close_def Let_def
      kmem_free_def set_pipe_def split: close_fn.splits bind_split_asm if_splits)

lemma node_close_result:
  assumes "node_close n s = Some s'" "n \<noteq> 0"
  shows "nodes s' = (nodes s)(n := nodes s n\<lparr>nd_ref_count := nd_ref_count (nodes s n) - (if nd_ref_count (nodes s n) > 0 then 1 else 0)\<rparr>)"
    "task_list s' = task_list s" "current_task s' = current_task s"
proof -
  let ?s1 = "if nd_ref_count (nodes s n) > 0 then set_node n (nodes s n\<lparr>nd_ref_count := nd_ref_count (nodes s n) - 1\<rparr>) s else s"
  have "nodes s' = nodes ?s1"
    using assms by (auto simp: node_close_def vfs_close_def vfs_release_def Let_def kmem_free_def
        dest!: close_node_nodes split: if_splits)
  then show "nodes s' = (nodes s)(n := nodes s n\<lparr>nd_ref_count := nd_ref_count (nodes s n) - (if nd_ref_count (nodes s n) > 0 then 1 else 0)\<rparr>)"
    by (auto simp: set_node_def)
  have "pipe_state.more s' = pipe_state.more s" using vfs_close_frame [of n s s'] assms(1) by (simp add: node_close_def)
  then show "task_list s' = task_list s" "current_task s' = current_task s"
    by (cases s; cases s'; simp)+
qed

lemma refs_cong:
  assumes "task_list s' = task_list s" "current_task s' = current_task s"
  shows "fd_refs n s' = fd_refs n s" "fds_wf s' = fds_wf s" "fd_at i s' = fd_at i s" "cur s' = cur s"
  using assms by (simp_all add: fd_refs_def fds_wf_def fd_at_def task_at_def)

lemma refers_None: "refers n (fd_at i s) = 0 \<Longrightarrow> fds_wf s \<Longrightarrow> i < 16 \<Longrightarrow>
    fd_refs n (upd_fd i g s) = fd_refs n s + refers n (g (fd_at i s))"
  using fd_refs_upd_fd [of s i n g] by simp

lemma drop_ref:
  assumes w: "fds_wf s" and ok: "refs_ok s" and i: "i < 16" and use: "fd_in_use (fd_at i s)"
    and close: "(if fd_node (fd_at i s) \<noteq> 0 then node_close (fd_node (fd_at i s)) s else Some s) = Some s1"
    and g: "\<And>m d. m \<noteq> 0 \<Longrightarrow> refers m (g d) = 0"
  shows "refs_ok (upd_fd i g s1)" "fds_wf (upd_fd i g s1)" "nd_ref_count (nodes (upd_fd i g s1) n) \<le> nd_ref_count (nodes s n)"
    "j \<noteq> i \<Longrightarrow> fd_at j (upd_fd i g s1) = fd_at j s"
proof -
  let ?n = "fd_node (fd_at i s)"
  have tl: "task_list s1 = task_list s" "current_task s1 = current_task s"
    using close node_close_result(2,3) [of ?n s s1] by (auto split: if_splits)
  note c = refs_cong [OF tl]
  have w1: "fds_wf s1" using w by (simp add: c)
  show "fds_wf (upd_fd i g s1)" by (rule fds_wf_upd_fd [OF w1])
  show "j \<noteq> i \<Longrightarrow> fd_at j (upd_fd i g s1) = fd_at j s" by (simp add: fd_at_upd_fd [OF w1 i] c)
  have nd: "nodes s1 = (if ?n \<noteq> 0 then (nodes s)(?n := nodes s ?n\<lparr>nd_ref_count :=
      nd_ref_count (nodes s ?n) - (if nd_ref_count (nodes s ?n) > 0 then 1 else 0)\<rparr>) else nodes s)"
    using close node_close_result(1) [of ?n s s1] by (auto split: if_splits)
  have dec: "v - (if v > 0 then 1 else 0) \<le> v" for v :: u32
    using unat_sub_le [of 1 v] by (auto simp: word_le_nat_alt word_less_nat_alt)
  show "nd_ref_count (nodes (upd_fd i g s1) n) \<le> nd_ref_count (nodes s n)" by (simp add: nd dec)
  show "refs_ok (upd_fd i g s1)"
    unfolding refs_ok_def
  proof (intro allI impI)
    fix m :: u32 assume m: "m \<noteq> 0" "\<not> nd_persistent (nodes (upd_fd i g s1) m)"
    have r: "fd_refs m (upd_fd i g s1) + refers m (fd_at i s) = fd_refs m s"
      using fd_refs_upd_fd [OF w1 i, of m g] g [OF m(1)] by (simp add: c)
    have pm: "\<not> nd_persistent (nodes s m)" using m(2) by (simp add: nd split: if_splits)
    have le: "fd_refs m s \<le> unat (nd_ref_count (nodes s m))" using ok m(1) pm by (simp add: refs_ok_def)
    show "fd_refs m (upd_fd i g s1) \<le> unat (nd_ref_count (nodes (upd_fd i g s1) m))"
    proof (cases "m = ?n")
      case True
      then have one: "refers m (fd_at i s) = 1" using use by (simp add: refers_def)
      then have "0 < unat (nd_ref_count (nodes s m))" using r le by simp
      then have "unat (nd_ref_count (nodes s m) - 1) = unat (nd_ref_count (nodes s m)) - 1" "nd_ref_count (nodes s m) > 0"
        using unat_sub_le [of 1 "nd_ref_count (nodes s m)"] by (simp_all add: word_less_nat_alt)
      then show ?thesis using True m(1) r le one by (simp add: nd)
    next
      case False
      then show ?thesis using r le by (simp add: nd)
    qed
  qed
qed

lemma add_ref:
  assumes w: "fds_wf s" and ok: "refs_ok s" and j: "j < 16" and free: "\<And>m. m \<noteq> 0 \<Longrightarrow> refers m (fd_at j s) = 0"
    and retain: "vfs_retain n s = (r, s1)" and top: "nd_ref_count (nodes s n) \<noteq> - 1"
    and g: "\<And>d. fd_node (g d) = r"
  shows "refs_ok (upd_fd j g s1)" "fds_wf (upd_fd j g s1)"
proof -
  have tl: "task_list s1 = task_list s" "current_task s1 = current_task s" and r: "r = n"
    using retain by (auto simp: vfs_retain_def set_node_def split: if_splits)
  note c = refs_cong [OF tl]
  have w1: "fds_wf s1" using w by (simp add: c)
  show "fds_wf (upd_fd j g s1)" by (rule fds_wf_upd_fd [OF w1])
  have nd: "nodes s1 = (if n \<noteq> 0 \<and> \<not> nd_persistent (nodes s n)
      then (nodes s)(n := nodes s n\<lparr>nd_ref_count := nd_ref_count (nodes s n) + 1\<rparr>) else nodes s)"
    using retain by (auto simp: vfs_retain_def set_node_def split: if_splits)
  have inc: "unat (nd_ref_count (nodes s n) + 1) = unat (nd_ref_count (nodes s n)) + 1"
    using top unatSuc [of "nd_ref_count (nodes s n)"] by (simp add: add_eq_0_iff add.commute)
  show "refs_ok (upd_fd j g s1)"
    unfolding refs_ok_def
  proof (intro allI impI)
    fix m :: u32 assume m: "m \<noteq> 0" "\<not> nd_persistent (nodes (upd_fd j g s1) m)"
    have f: "fd_refs m (upd_fd j g s1) = fd_refs m s + refers m (g (fd_at j s))"
      using refers_None [OF _ w1 j, of m g] free [OF m(1)] by (simp add: c)
    have pm: "\<not> nd_persistent (nodes s m)" using m(2) by (simp add: nd split: if_splits)
    have le: "fd_refs m s \<le> unat (nd_ref_count (nodes s m))" using ok m(1) pm by (simp add: refs_ok_def)
    show "fd_refs m (upd_fd j g s1) \<le> unat (nd_ref_count (nodes (upd_fd j g s1) m))"
    proof (cases "m = n")
      case True
      then show ?thesis using f le m(1) pm inc by (simp add: nd refers_def)
    next
      case False
      then have "refers m (g (fd_at j s)) = 0" using g r by (simp add: refers_def)
      then show ?thesis using f le False by (simp add: nd)
    qed
  qed
qed

lemma fd_open_index: "0 \<le> sint fd \<Longrightarrow> sint fd < int MAX_OPEN_FILES \<Longrightarrow> unat fd < 16" for fd :: u32
proof -
  assume a: "0 \<le> sint fd" "sint fd < int MAX_OPEN_FILES"
  have "take_bit 32 (sint fd) = sint fd"
    by (rule take_bit_int_eq_self) (use a in \<open>simp_all add: MAX_OPEN_FILES_def\<close>)
  then have "uint fd = sint fd" using uint_sint [of fd] by simp
  then show ?thesis using a(2) by (simp add: MAX_OPEN_FILES_def unat_eq_nat_uint)
qed

lemma fd_openD: "fd_open fd s \<Longrightarrow> unat fd < 16 \<and> fd_in_use (fd_at (unat fd) s)"
  using fd_open_index by (simp add: fd_open_def)

lemma free_fd_from_spec: "free_fd_from ds i = Some j \<Longrightarrow> i \<le> j \<and> j - i < length ds \<and> \<not> fd_in_use (ds ! (j - i))"
  by (induction ds arbitrary: i) (force split: if_splits simp: Suc_diff_le nth_Cons')+

lemma free_fd_spec: "free_fd s = Some j \<Longrightarrow> fds_wf s \<Longrightarrow> j < 16 \<and> \<not> fd_in_use (fd_at j s)"
  using free_fd_from_spec [of "t_fd_table (cur s)" 0 j] fds_wfD(3) [of s] by (simp add: free_fd_def fd_at_def)

lemma copy_fd_refs:
  assumes "fds_wf s" "refs_ok s" "j < 16" "\<And>m. m \<noteq> 0 \<Longrightarrow> refers m (fd_at j s) = 0"
    and "nd_ref_count (nodes s (fd_node (fd_at i s))) \<noteq> - 1" "copy_fd i j s = Some (v, s')"
  shows "refs_ok s' \<and> fds_wf s'"
proof -
  obtain nm r s1 where c: "vfs_retain (fd_node (fd_at i s)) s = (r, s1)"
    "s' = upd_fd j (\<lambda>d. d\<lparr>fd_in_use := True, fd_filename := nm, fd_current_offset := fd_current_offset (fd_at i s),
         fd_file_size := fd_file_size (fd_at i s), fd_node := r\<rparr>) s1"
    using assms(6) by (auto simp: copy_fd_def ret_def Let_def split: bind_split_asm prod.splits)
  show ?thesis unfolding c(2) using add_ref [OF assms(1-4) c(1) assms(5)] by simp
qed

lemma dup2_refs:
  assumes w: "fds_wf s" and ok: "refs_ok s" and top: "\<And>n. nd_ref_count (nodes s n) \<noteq> - 1"
    and e: "sys_dup2 fd fd' s = Some (v, s')"
  shows "refs_ok s' \<and> fds_wf s'"
proof (cases "\<not> fd_open fd s \<or> sint fd' < 0 \<or> sint fd' \<ge> int MAX_OPEN_FILES \<or> fd = fd'")
  case True
  then show ?thesis using e ok w by (auto simp: sys_dup2_def ret_error_def ret_def split: if_splits)
next
  case False
  let ?j = "unat fd'" and ?g = "\<lambda>d :: file_descriptor. d\<lparr>fd_filename := replicate 256 0, fd_node := 0, fd_current_offset := 0, fd_file_size := 0\<rparr>"
  have j: "?j < 16" using False fd_open_index by simp
  have ij: "unat fd \<noteq> ?j" using False by (simp add: word_unat_eq_iff)
  show ?thesis
  proof (cases "fd_in_use (fd_at ?j s)")
    case True
    obtain t where c: "(if fd_node (fd_at ?j s) \<noteq> 0 then node_close (fd_node (fd_at ?j s)) s else Some s) = Some t"
      and cp: "copy_fd (unat fd) ?j (upd_fd ?j ?g t) = Some (v, s')"
      using e False True by (auto simp: sys_dup2_def Let_def split: bind_split_asm if_splits)
    note D = drop_ref [OF w ok j True c, of ?g]
    have z: "refers m (fd_at ?j (upd_fd ?j ?g t)) = 0" if "m \<noteq> 0" for m
    proof -
      have "fds_wf t" using w c refs_cong(2) [of t s] node_close_result(2,3) [of "fd_node (fd_at ?j s)" s t] by (auto split: if_splits)
      then show ?thesis using fd_at_upd_fd [of t ?j ?j ?g] j that by (simp add: refers_def)
    qed
    have top': "nd_ref_count (nodes (upd_fd ?j ?g t) n) \<noteq> - 1" for n
      using D(3) [of n] top [of n] word_order.extremum_unique [of "nd_ref_count (nodes s n)"] by (auto simp: refers_def)
    show ?thesis
      by (rule copy_fd_refs [OF _ _ j z top' cp]) (use D(1,2) in \<open>simp_all add: refers_def\<close>)
  next
    case F: False
    then have cp: "copy_fd (unat fd) ?j s = Some (v, s')"
      using e False by (auto simp: sys_dup2_def Let_def split: if_splits)
    show ?thesis by (rule copy_fd_refs [OF w ok j _ top cp]) (simp add: refers_def F)
  qed
qed


text \<open>Two descriptors on one node.\<close>

definition sample_fds :: sys_state where
  "sample_fds = sample_sys\<lparr>nodes := (\<lambda>n. zero_node\<lparr>nd_ref_count := 2\<rparr>),
     task_list := [(0x1000, zero_task\<lparr>t_fd_table := replicate 2 (zero_fd\<lparr>fd_in_use := True, fd_node := 5\<rparr>) @ replicate 14 zero_fd\<rparr>)]\<rparr>"

lemma sample_fds_fields [simp]:
  "nodes sample_fds = (\<lambda>n. zero_node\<lparr>nd_ref_count := 2\<rparr>)" "current_task sample_fds = 0x1000"
  "task_list sample_fds = [(0x1000, zero_task\<lparr>t_fd_table := replicate 2 (zero_fd\<lparr>fd_in_use := True, fd_node := 5\<rparr>) @ replicate 14 zero_fd\<rparr>)]"
  by (simp_all add: sample_fds_def)

lemma sample_fds_ok: "fds_wf sample_fds" "refs_ok sample_fds"
  by (simp_all add: fds_wf_def refs_ok_def fd_refs_def task_refs_def refers_def zero_fd_def sum_list_replicate map_replicate_const zero_node_def)


section \<open>The kernel writes where the program points\<close>

lemma valid_one_byte:
  assumes "current_task s \<noteq> 0" "0x100000 \<le> unat p" "unat p < 0xC0000000"
    and "page_present (t_page_directory (cur s)) p (kheap s)"
  shows "is_valid_user_ptr p 1 s = Some (Valid, s)"
proof -
  have "v = p" if "unat p \<le> unat v \<and> unat v < unat p + 1" for v using that by (simp add: word_unat_eq_iff)
  then show ?thesis using assms by (auto simp: user_ptr_valid page_present_lookup)
qed

text \<open>A program can have the kernel write into a page that belongs to the kernel alone: \<open>SYS_GETCWD\<close> with
  the address of such a page between 1 MiB and 3 GiB, where the heap of the kernel lies, stores there and reports success.\<close>

theorem getcwd_writes_kernel_page:
  assumes "current_task s \<noteq> 0" "cr3 (kheap s) = t_page_directory (cur s)"
    and "0x100000 \<le> unat p" "unat p < 0xC0000000"
    and "page_writable (cr3 (kheap s)) p (kheap s)" "\<not> page_user (cr3 (kheap s)) p (kheap s)"
  shows "dispatch env 20 p 1 d s = Some (Some 0, s\<lparr>kheap := set_byte (phys_of p (kheap s)) 0 (kheap s)\<rparr>)"
proof -
  have "page_present (t_page_directory (cur s)) p (kheap s)" using assms(2,5) by (simp add: page_writable_def)
  note v = valid_one_byte [OF assms(1,3,4) this]
  have len: "getcwd_length (of_nat (length (current_path s))) 1 = 0"
  proof (cases "(of_nat (length (current_path s)) :: u32) \<ge> 1")
    case False
    then have "unat (of_nat (length (current_path s)) :: u32) = 0" by (simp add: word_le_nat_alt)
    then show ?thesis using False by (simp add: getcwd_length_def unat_eq_0)
  qed (simp add: getcwd_length_def)
  show ?thesis
    using assms(5) by (simp add: dispatch_def sys_getcwd_def with_ptr_def v on_check_def len put_user_def user_put_def ret_def Let_def)
qed

theorem getcwd_writes_kernel_page_witness:
  "\<forall>env. \<exists>s'. dispatch env 20 0x600000 1 0 sample_sys = Some (Some 0, s') \<and> \<not> page_user 0x2000 0x600000 (kheap sample_sys)"
  using getcwd_writes_kernel_page [of sample_sys "0x600000" _ 0] sample_sys_page [of "0x600000"] by simp

text \<open>A buffer of length 0 is only checked for the range of its address, and \<open>SYS_GETCWD\<close> then takes it for one of \<open>2 ^ 32\<close>
  bytes: the call never succeeds but copies memory of the kernel until it faults.\<close>

theorem getcwd_size_zero:
  assumes "current_task s \<noteq> 0" "0x100000 \<le> unat p" "unat p < 0xC0000000" "length (current_path s) < 2 ^ 32 - 1"
  shows "is_valid_user_ptr p 0 s = Some (Valid, s)" "getcwd_length (of_nat (length (current_path s))) 0 = 2 ^ 32 - 1"
    "sys_getcwd p 0 s = None"
proof -
  have p: "p \<noteq> 0" "\<not> (p < USER_ADDR_MIN \<or> p \<ge> KERNEL_USER_BOUNDARY)"
    using assms(2,3) by (auto simp: USER_ADDR_MIN_def KERNEL_USER_BOUNDARY_def word_less_nat_alt word_le_nat_alt)
  then show v: "is_valid_user_ptr p 0 s = Some (Valid, s)" by (simp add: is_valid_user_ptr_def)
  show l: "getcwd_length (of_nat (length (current_path s))) 0 = 2 ^ 32 - 1" by (simp add: getcwd_length_def)
  have "unat (2 ^ 32 - 1 :: u32) = 2 ^ 32 - 1" by simp
  then show "sys_getcwd p 0 s = None" using assms(4) by (simp add: sys_getcwd_def with_ptr_def v on_check_def l Let_def)
qed

section \<open>A heap that was grown\<close>

text \<open>A new frame that was cleared is not part of the directory, which stays as it was.\<close>

lemma fresh_frame_result:
  assumes wf: "dir_wf dir h" and al: "pmm_alloc_block h = (phys, h0)" "phys \<noteq> 0" and z: "z = zero_page phys h0"
  shows "dir_wf dir z" "pmm_in_use z = insert phys (pmm_in_use h)" "phys \<notin> pmm_in_use h" "unat phys mod 4096 = 0"
    "\<And>i. has_table dir i z = has_table dir i h" "\<And>w. user_page w \<Longrightarrow> vmm_lookup dir w z = vmm_lookup dir w h"
    "dir_frames dir z = dir_frames dir h" "\<And>i. has_table dir i h \<Longrightarrow> entry dir i z = entry dir i h"
    "\<And>g i. unat g mod 4096 = 0 \<Longrightarrow> unat i < 1024 \<Longrightarrow> entry g i z = (if g = phys then 0 else entry g i h)"
proof -
  note D = dir_wfD [OF wf]
  note fr = pmm_frames.alloc_fresh [OF D(1) al]
  show ph: "unat phys mod 4096 = 0" using fr by (simp add: PAGE_SIZE_def word_unat_eq_iff unat_mod)
  show new: "phys \<notin> pmm_in_use h" using fr by simp
  have m: "mem h0 = mem h" using pmm_alloc_mem [OF al(1)] by simp
  show use0: "pmm_in_use z = insert phys (pmm_in_use h)" using fr by (simp add: z)
  show ent: "entry g i z = (if g = phys then 0 else entry g i h)" if "unat g mod 4096 = 0" "unat i < 1024" for g i
    using entry_zero_page [OF ph that, of h0] entry_cong [OF m, of g i] by (simp add: z)
  have dn: "dir \<noteq> phys" using D(3) new by auto
  have edir: "entry dir i z = entry dir i h" if "unat i < 1024" for i using ent [OF D(4) that] dn by simp
  show tab: "has_table dir i z = has_table dir i h" for i
    using edir [of i] by (auto simp: has_table_def word_nat)
  show same: "entry dir i z = entry dir i h" if "has_table dir i h" for i using edir [OF D(7) [OF that]] .
  have inv: "pmm_inv z" using pmm_frames.alloc_inv [OF D(1) al(1)] by (simp add: z)
  show "dir_wf dir z"
    unfolding dir_wf_def
  proof (intro conjI allI impI)
    fix i assume "has_table dir i z"
    then show "frame_of (entry dir i z) \<in> pmm_in_use z - {0, dir}"
      using tab same D(5) by (auto simp: use0)
  next
    fix i j assume "has_table dir i z" "has_table dir j z" "frame_of (entry dir i z) = frame_of (entry dir j z)"
    then show "i = j" using tab same D(6) by metis
  qed (use inv D(2,3) use0 in auto)
  show "vmm_lookup dir w z = vmm_lookup dir w h" if "user_page w" for w
  proof (cases "has_table dir (pd_index w) h")
    case True
    have "frame_of (entry dir (pd_index w) h) \<noteq> phys" using D(5) [OF True] new by auto
    then show ?thesis using that True same [OF True] by (simp add: vmm_lookup_user tab ent pt_index_lt Let_def)
  qed (use that in \<open>simp add: vmm_lookup_user tab\<close>)
  show "dir_frames dir z = dir_frames dir h"
    unfolding dir_frames_def tab by (intro arg_cong [of _ _ "insert dir"] Collect_cong) (metis same)
qed

lemma fresh_page_result:
  assumes wf: "dir_wf dir (kheap s)" and p: "user_page page" and t: "has_table dir (pd_index page) (kheap s)"
    and f: "fresh_page dir page s = (phys, s1)" "phys \<noteq> 0"
  shows "dir_wf dir (kheap s1)" "pmm_in_use (kheap s1) = insert phys (pmm_in_use (kheap s))" "phys \<notin> pmm_in_use (kheap s)"
    "unat phys mod 4096 = 0" "vmm_lookup dir page (kheap s1) = Some (phys OR user_flags)"
    "\<And>w. user_page w \<Longrightarrow> w \<noteq> page \<Longrightarrow> vmm_lookup dir w (kheap s1) = vmm_lookup dir w (kheap s)"
    "\<And>i. has_table dir i (kheap s1) = has_table dir i (kheap s)" "dir_frames dir (kheap s1) = dir_frames dir (kheap s)"
    "\<And>g i. unat g mod 4096 = 0 \<Longrightarrow> unat i < 1024 \<Longrightarrow> g \<notin> dir_frames dir (kheap s) \<Longrightarrow>
       entry g i (kheap s1) = (if g = phys then 0 else entry g i (kheap s))"
    "s1 = s\<lparr>kheap := kheap s1\<rparr>"
proof -
  let ?h = "kheap s"
  obtain h0 where al: "pmm_alloc_block ?h = (phys, h0)"
    and s1: "s1 = s\<lparr>kheap := vmm_map_page_in_directory dir phys page user_flags (zero_page phys h0)\<rparr>"
    using f by (auto simp: fresh_page_def heap_do_def Let_def split: prod.splits if_splits)
  let ?z = "zero_page phys h0"
  note F = fresh_frame_result [OF wf al f(2) refl]
  show "phys \<notin> pmm_in_use ?h" "unat phys mod 4096 = 0" by (rule F(3), rule F(4))
  have tz: "has_table dir (pd_index page) ?z" using t by (simp add: F(5))
  have k1: "kheap s1 = vmm_map_page_in_directory dir phys page user_flags ?z" by (simp add: s1)
  have eq: "kheap s1 = vmm_set_entry dir phys page user_flags ?z"
    using tz by (simp add: k1 map_page_eq [OF F(1) f(2) F(4) p])
  note E = set_entry_result [OF F(1) tz F(4) p eq]
  show "dir_wf dir (kheap s1)" by (rule E(1))
  show "pmm_in_use (kheap s1) = insert phys (pmm_in_use ?h)" using E(2) F(2) by simp
  have "phys OR flag_bits user_flags OR PAGE_PRESENT = phys OR user_flags"
    by (simp add: user_flags_def flag_bits_def PAGE_PRESENT_def PAGE_WRITE_def PAGE_USER_def)
  then show "vmm_lookup dir page (kheap s1) = Some (phys OR user_flags)" using E(3) by (simp add: or.assoc)
  show "vmm_lookup dir w (kheap s1) = vmm_lookup dir w ?h" if "user_page w" "w \<noteq> page" for w
    using E(4) that F(6) by simp
  let ?t = "frame_of (entry dir (pd_index page) ?z)"
  have eq2: "kheap s1 = set_word (slot ?t (pt_index page)) (phys OR flag_bits user_flags OR PAGE_PRESENT) ?z"
    using dir_wfD(5) [OF F(1) tz] F(4) unfolding eq vmm_set_entry_def Let_def by (simp add: entry_def or.assoc)
  note R = dir_set_table_entry [OF F(1) tz refl eq2]
  show "has_table dir i (kheap s1) = has_table dir i ?h" for i using R(2) F(5) by simp
  show "dir_frames dir (kheap s1) = dir_frames dir ?h" using E(5) F(7) by simp
  show "entry g i (kheap s1) = (if g = phys then 0 else entry g i ?h)"
    if g: "unat g mod 4096 = 0" "unat i < 1024" "g \<notin> dir_frames dir ?h" for g i
  proof -
    have "?t \<in> dir_frames dir ?h" using t F(8) [OF t] by (auto simp: dir_frames_def)
    then have "g \<noteq> ?t" using g(3) by blast
    then have "entry g i (kheap s1) = entry g i ?z"
      unfolding eq2 using entry_set_word [OF _ g(1) pt_index_lt g(2), of ?t] by simp
    then show ?thesis using F(9) [OF g(1,2)] by simp
  qed
  show "s1 = s\<lparr>kheap := kheap s1\<rparr>" by (simp add: s1)
qed

text \<open>The loop over the pages: every page gets a frame of its own that was not in use and is full of zeros.\<close>

definition grown :: "u32 \<Rightarrow> u32 \<Rightarrow> nat \<Rightarrow> (nat \<Rightarrow> u32) \<Rightarrow> heap_state \<Rightarrow> heap_state \<Rightarrow> bool" where
  "grown dir page n fr h h' \<longleftrightarrow> inj_on fr {..<n} \<and>
     (\<forall>k < n. vmm_lookup dir (page + 4096 * of_nat k) h' = Some (fr k OR user_flags) \<and>
        unat (fr k) mod 4096 = 0 \<and> fr k \<in> pmm_in_use h' - pmm_in_use h \<and> (\<forall>i. unat i < 1024 \<longrightarrow> entry (fr k) i h' = 0))"

lemma page_seq:
  assumes "unat page mod 4096 = 0" "page \<noteq> 0" "unat page + n * 4096 \<le> 0xB0000000" "k < n"
  shows "unat (page + 4096 * of_nat k) = unat page + 4096 * k" "user_page (page + 4096 * of_nat k)"
proof -
  have b: "unat page + 4096 * k < 0xB0000000" using assms(3,4) by linarith
  have "page + 4096 * of_nat k = of_nat (unat page + 4096 * k)" by simp
  moreover have "unat (of_nat (unat page + 4096 * k) :: u32) = unat page + 4096 * k"
    using b by (intro unat_of_nat_small) simp
  ultimately show u: "unat (page + 4096 * of_nat k) = unat page + 4096 * k" by (simp only:)
  have "(unat page + 4096 * k) div 4194304 < 1023" using b by (simp add: less_mult_imp_div_less)
  moreover have "page + 4096 * of_nat k \<noteq> 0"
    using u assms(2) unat_gt_0 [of page] by (metis add_is_0 less_irrefl unat_0)
  ultimately show "user_page (page + 4096 * of_nat k)"
    using u assms(1) by (simp add: user_page_def word_nat unat_pd_index)
qed

lemma grown_Suc:
  assumes g: "grown dir (page + 4096) n fr h1 h2" and new: "f \<in> pmm_in_use h1 - pmm_in_use h" and sub: "pmm_in_use h \<subseteq> pmm_in_use h1"
    "pmm_in_use h1 \<subseteq> pmm_in_use h2" and f: "vmm_lookup dir page h2 = Some (f OR user_flags)" "unat f mod 4096 = 0"
    "\<forall>i. unat i < 1024 \<longrightarrow> entry f i h2 = 0"
  shows "grown dir page (Suc n) (case_nat f fr) h h2"
  unfolding grown_def
proof (intro conjI allI impI)
  have fr: "fr k \<noteq> f" if "k < n" for k using g that new by (auto simp: grown_def)
  show "inj_on (case_nat f fr) {..<Suc n}"
  proof (rule inj_onI)
    fix a b assume ab: "a \<in> {..<Suc n}" "b \<in> {..<Suc n}" "case_nat f fr a = case_nat f fr b"
    show "a = b"
    proof (cases a; cases b)
      fix a' b' assume "a = Suc a'" "b = Suc b'"
      then show ?thesis using g ab by (auto simp: grown_def inj_on_def)
    qed (use ab fr in auto)
  qed
next
  fix k assume k: "k < Suc n"
  show "vmm_lookup dir (page + 4096 * of_nat k) h2 = Some (case_nat f fr k OR user_flags)"
    using k g f(1) by (cases k) (auto simp: grown_def algebra_simps)
  show "unat (case_nat f fr k) mod 4096 = 0" using k g f(2) by (cases k) (auto simp: grown_def)
  show "case_nat f fr k \<in> pmm_in_use h2 - pmm_in_use h" using k g new sub by (cases k) (auto simp: grown_def)
  show "entry (case_nat f fr k) i h2 = 0" if "unat i < 1024" for i using k g f(3) that by (cases k) (auto simp: grown_def)
qed

lemma in_dir_frames: "dir_wf dir h \<Longrightarrow> dir_frames dir h \<subseteq> pmm_in_use h"
  using dir_wfD(3) [of dir h] dir_wfD(5) [of dir h] unfolding dir_frames_def by blast

lemma sbrk_pages_result:
  assumes "dir_wf dir (kheap s)" "unat page mod 4096 = 0" "page \<noteq> 0" "unat page + n * 4096 \<le> 0xB0000000"
    and "\<forall>k < n. has_table dir (pd_index (page + 4096 * of_nat k)) (kheap s)" "sbrk_pages dir page n s = (True, s')"
  shows "(\<exists>fr. grown dir page n fr (kheap s) (kheap s')) \<and> dir_wf dir (kheap s') \<and> pmm_in_use (kheap s) \<subseteq> pmm_in_use (kheap s') \<and>
    (\<forall>w. user_page w \<longrightarrow> (\<forall>k < n. w \<noteq> page + 4096 * of_nat k) \<longrightarrow> vmm_lookup dir w (kheap s') = vmm_lookup dir w (kheap s)) \<and>
    (\<forall>g i. unat g mod 4096 = 0 \<longrightarrow> unat i < 1024 \<longrightarrow> g \<in> pmm_in_use (kheap s) - dir_frames dir (kheap s) \<longrightarrow>
       entry g i (kheap s') = entry g i (kheap s)) \<and> s' = s\<lparr>kheap := kheap s'\<rparr>"
  using assms
proof (induction n arbitrary: page s)
  case 0
  have "s' = s" using 0(6) by simp
  then show ?case using 0(1) by (auto simp: grown_def)
next
  case (Suc n)
  obtain f s1 where fp: "fresh_page dir page s = (f, s1)" "f \<noteq> 0" and rest: "sbrk_pages dir (page + 4096) n s1 = (True, s')"
    using Suc.prems(6) by (auto split: prod.splits if_splits)
  have up: "user_page page" "has_table dir (pd_index page) (kheap s)"
    using page_seq(2) [OF Suc.prems(2-4), of 0] Suc.prems(5) by (auto dest: spec [of _ 0])
  note F = fresh_page_result [OF Suc.prems(1) up fp]
  have nx: "unat (page + 4096) = unat page + 4096" using Suc.prems(4) unat_add_no_wrap [of page 4096] by simp
  have tabs: "\<forall>k < n. has_table dir (pd_index (page + 4096 + 4096 * of_nat k)) (kheap s1)"
    using Suc.prems(5) F(7) by (auto simp: algebra_simps dest: spec [of _ "Suc _"])
  have "page + 4096 \<noteq> 0" using nx by (metis add_is_0 unat_0 zero_neq_numeral)
  note IH = Suc.IH [OF F(1) _ this _ tabs rest]
  have prem: "unat (page + 4096) mod 4096 = 0" "unat (page + 4096) + n * 4096 \<le> 0xB0000000"
    using nx Suc.prems(2,4) by simp_all
  note IH = IH [OF prem]
  obtain fr where g: "grown dir (page + 4096) n fr (kheap s1) (kheap s')" using IH by blast
  have new: "f \<in> pmm_in_use (kheap s1) - pmm_in_use (kheap s)" using F(2,3) by simp
  have fd: "f \<notin> dir_frames dir (kheap s)" using in_dir_frames [OF Suc.prems(1)] F(3) by blast
  have keep: "vmm_lookup dir w (kheap s') = vmm_lookup dir w (kheap s1)"
    if "user_page w" "\<forall>k < n. w \<noteq> page + 4096 + 4096 * of_nat k" for w using IH that by blast
  have pg: "\<forall>k < n. page \<noteq> page + 4096 + 4096 * of_nat k"
  proof (intro allI impI)
    fix k assume "k < n"
    then have "unat (page + 4096 * of_nat (Suc k)) = unat page + 4096 * Suc k"
      using page_seq(1) [OF Suc.prems(2-4), of "Suc k"] by simp
    then have "page \<noteq> page + 4096 * of_nat (Suc k)" by auto
    then show "page \<noteq> page + 4096 + 4096 * of_nat k" by (simp add: algebra_simps)
  qed
  have ent: "entry h i (kheap s') = entry h i (kheap s1)"
    if "unat h mod 4096 = 0" "unat i < 1024" "h \<in> pmm_in_use (kheap s1) - dir_frames dir (kheap s)" for h i
    using IH that unfolding F(8) by simp
  have "grown dir page (Suc n) (case_nat f fr) (kheap s) (kheap s')"
  proof (rule grown_Suc [OF g new])
    show "pmm_in_use (kheap s) \<subseteq> pmm_in_use (kheap s1)" "pmm_in_use (kheap s1) \<subseteq> pmm_in_use (kheap s')" using F(2) IH by auto
    show "vmm_lookup dir page (kheap s') = Some (f OR user_flags)" using keep [OF up(1) pg] F(5) by simp
    show "unat f mod 4096 = 0" by (rule F(4))
    show "\<forall>i. unat i < 1024 \<longrightarrow> entry f i (kheap s') = 0" using ent [OF F(4)] F(9) [OF F(4)] new fd by auto
  qed
  moreover have "vmm_lookup dir w (kheap s') = vmm_lookup dir w (kheap s)"
    if "user_page w" "\<forall>k < Suc n. w \<noteq> page + 4096 * of_nat k" for w
  proof -
    have "w \<noteq> page" "\<forall>k < n. w \<noteq> page + 4096 + 4096 * of_nat k"
      using that(2) by (auto simp: algebra_simps dest: spec [of _ 0] spec [of _ "Suc _"])
    then show ?thesis using keep that(1) F(6) by simp
  qed
  moreover have "entry h i (kheap s') = entry h i (kheap s)"
    if "unat h mod 4096 = 0" "unat i < 1024" "h \<in> pmm_in_use (kheap s) - dir_frames dir (kheap s)" for h i
    using ent [OF that(1,2)] F(2,3) F(9) [OF that(1,2)] that(3) by auto
  moreover have "s' = s\<lparr>kheap := kheap s'\<rparr>"
  proof -
    obtain h where h: "s1 = s\<lparr>kheap := h\<rparr>" using F(10) by blast
    have "s' = s1\<lparr>kheap := kheap s'\<rparr>" using IH by blast
    then show ?thesis unfolding h by simp
  qed
  ultimately show ?case using IH F(2) by blast
qed


section \<open>The program's break\<close>

text \<open>The pages \<open>sbrk\<close> adds when the break moves from \<open>old\<close> to \<open>new\<close>.\<close>

definition heap_pages :: "u32 \<Rightarrow> u32 \<Rightarrow> u32 set" where
  "heap_pages old new = {v. user_page v \<and> unat (page_up old) \<le> unat v \<and> unat v < unat (page_up new)}"

lemma unat_page_up: "unat v \<le> 0xB0000000 \<Longrightarrow> unat (page_up v) = (unat v + 4095) div 4096 * 4096"
proof -
  assume v: "unat v \<le> 0xB0000000"
  have "page_up v = frame_of (v + 0xFFF)" by (simp add: page_up_def frame_of_def)
  then show ?thesis using v unat_add_no_wrap [of v "0xFFF"] by (simp add: unat_frame_of)
qed

lemma heap_pages_seq:
  assumes "unat old \<le> unat new" "unat new < 0xB0000000" "old \<noteq> 0"
    and n: "n = (if page_up old < page_up new then unat ((page_up new - page_up old) div 4096) else 0)"
  shows "unat (page_up old) mod 4096 = 0" "page_up old \<noteq> 0" "unat (page_up old) + n * 4096 \<le> 0xB0000000"
    "heap_pages old new = (\<lambda>k. page_up old + 4096 * of_nat k) ` {..<n}"
proof -
  have a: "unat (page_up old) = (unat old + 4095) div 4096 * 4096" "unat (page_up new) = (unat new + 4095) div 4096 * 4096"
    using assms(1,2) by (simp_all add: unat_page_up)
  have le: "unat (page_up old) \<le> unat (page_up new)" unfolding a using assms(1) by (intro mult_le_mono1 div_le_mono) simp
  have "unat new + 4095 < 0xB0001 * 4096" using assms(2) by simp
  then have "(unat new + 4095) div 4096 < 0xB0001" by (simp add: div_less_iff_less_mult)
  then have top: "unat (page_up new) \<le> 0xB0000000" unfolding a by simp
  have "n = unat (page_up new - page_up old) div 4096"
  proof (cases "page_up old < page_up new")
    case False
    then have "page_up new = page_up old" using le by (simp add: word_less_nat_alt word_unat_eq_iff)
    then show ?thesis using n by simp
  qed (use n in \<open>simp add: unat_div\<close>)
  then have "n = (unat (page_up new) - unat (page_up old)) div 4096"
    using le unat_sub_le by metis
  moreover have "unat (page_up new) - unat (page_up old) = ((unat new + 4095) div 4096 - (unat old + 4095) div 4096) * 4096"
    unfolding a by (simp add: diff_mult_distrib)
  ultimately have "n * 4096 = unat (page_up new) - unat (page_up old)" by simp
  then have n': "unat (page_up old) + n * 4096 = unat (page_up new)" using le by simp
  show al: "unat (page_up old) mod 4096 = 0" unfolding a by simp
  have "0 < unat old" using assms(3) by (simp add: unat_gt_0)
  then have "0 < (unat old + 4095) div 4096" by (simp add: div_greater_zero_iff)
  then show nz: "page_up old \<noteq> 0" using a(1) by (metis mult_is_0 unat_0 not_gr0 zero_neq_numeral)
  show bd: "unat (page_up old) + n * 4096 \<le> 0xB0000000" using n' top by simp
  note sq = page_seq [OF al nz bd]
  show "heap_pages old new = (\<lambda>k. page_up old + 4096 * of_nat k) ` {..<n}"
  proof (intro set_eqI iffI)
    fix v assume "v \<in> heap_pages old new"
    then have v: "unat v mod 4096 = 0" "unat (page_up old) \<le> unat v" "unat v < unat (page_up new)"
      by (auto simp: heap_pages_def user_page_def)
    let ?k = "(unat v - unat (page_up old)) div 4096"
    have "unat v - unat (page_up old) < n * 4096" using v n' by simp
    then have k: "?k < n" by (simp add: div_less_iff_less_mult)
    have "(unat v - unat (page_up old)) mod 4096 = 0" using v(1) al v(2) by (metis mod_0_imp_dvd dvd_diff_nat mod_eq_0_iff_dvd)
    then have "unat (page_up old) + 4096 * ?k = unat v" using v(2) by auto
    then have "v = page_up old + 4096 * of_nat ?k" using sq(1) [OF k] by (simp add: word_unat_eq_iff)
    then show "v \<in> (\<lambda>k. page_up old + 4096 * of_nat k) ` {..<n}" using k by blast
  next
    fix v assume "v \<in> (\<lambda>k. page_up old + 4096 * of_nat k) ` {..<n}"
    then obtain k where "k < n" "v = page_up old + 4096 * of_nat k" by blast
    then show "v \<in> heap_pages old new" using sq(1) [of k] sq(2) [of k] n' by (simp add: heap_pages_def)
  qed
qed


lemma grown_on:
  assumes g: "grown dir page n fr h h'" and P: "P = (\<lambda>k. page + 4096 * of_nat k) ` {..<n}"
    and inj: "\<And>k. k < n \<Longrightarrow> unat (page + 4096 * of_nat k) = unat page + 4096 * k"
  shows "\<exists>f. inj_on f P \<and> (\<forall>v \<in> P. vmm_lookup dir v h' = Some (f v OR user_flags) \<and> unat (f v) mod 4096 = 0 \<and>
    f v \<in> pmm_in_use h' - pmm_in_use h \<and> (\<forall>i. unat i < 1024 \<longrightarrow> entry (f v) i h' = 0))"
proof -
  let ?f = "\<lambda>v. fr ((unat v - unat page) div 4096)"
  have f: "?f (page + 4096 * of_nat k) = fr k" if "k < n" for k using inj [OF that] by simp
  have "inj_on ?f P"
    unfolding P by (rule inj_on_imageI) (use g f in \<open>simp add: grown_def inj_on_def\<close>)
  moreover have "\<forall>v \<in> P. vmm_lookup dir v h' = Some (?f v OR user_flags) \<and> unat (?f v) mod 4096 = 0 \<and>
      ?f v \<in> pmm_in_use h' - pmm_in_use h \<and> (\<forall>i. unat i < 1024 \<longrightarrow> entry (?f v) i h' = 0)"
    unfolding P using g by (auto simp: f grown_def)
  ultimately show ?thesis by blast
qed

lemma sys_sbrk_success:
  assumes "t_heap_break (cur s) \<noteq> 0" "0 < sint increment" "sys_sbrk increment s = Some (Some r, s')" "r \<noteq> - 1"
  shows "\<exists>s2. r = t_heap_break (cur s) \<and> unat r \<le> unat (r + increment) \<and> unat (r + increment) < 0xB0000000 \<and>
    sbrk_pages (t_page_directory (cur s)) (page_up r)
      (if page_up r < page_up (r + increment) then unat ((page_up (r + increment) - page_up r) div 4096) else 0) s = (True, s2) \<and>
    s' = upd_cur (\<lambda>t. t\<lparr>t_heap_break := r + increment\<rparr>) s2"
  using assms by (auto simp: sys_sbrk_def ret_def ret_error_def Let_def word_less_nat_alt word_le_nat_alt not_le not_less
      split: prod.splits if_splits)


definition sample_heap :: sys_state where
  "sample_heap = sample_sys
   \<lparr>task_list := [(0x1000, zero_task\<lparr>t_pid := 3, t_page_directory := 0x1000, t_heap_start := 0x08000000, t_heap_break := 0x08000000\<rparr>)],
    kheap := (kheap sample_fat)\<lparr>pmm_bitmap := 0x200000, pmm_words := (\<lambda>i. 7), pmm_max_blocks := 64,
      kernel_directory := 0x1000, cr3 := 0x1000, mem := (\<lambda>a. 0)(0x1080 := 0x2007)\<rparr>\<rparr>"

lemma sample_heap_fields [simp]:
  "current_task sample_heap = 0x1000" "pmm_bitmap (kheap sample_heap) = 0x200000" "pmm_words (kheap sample_heap) = (\<lambda>i. 7)"
  "pmm_max_blocks (kheap sample_heap) = 64" "mem (kheap sample_heap) = (\<lambda>a. 0)(0x1080 := 0x2007)"
  "task_at 0x1000 sample_heap = zero_task\<lparr>t_pid := 3, t_page_directory := 0x1000, t_heap_start := 0x08000000, t_heap_break := 0x08000000\<rparr>"
  by (simp_all add: sample_heap_def task_at_def)

lemma sample_heap_entry: "unat i < 1024 \<Longrightarrow> entry 0x1000 i (kheap sample_heap) = (if i = 32 then 0x2007 else 0)"
proof -
  assume i: "unat i < 1024"
  have "slot 0x1000 32 = 0x1080" by (simp add: slot_def)
  then show ?thesis using slot_inject [of "0x1000" "0x1000" i 32] i by (simp add: entry_def)
qed

lemma sample_heap_table: "has_table 0x1000 i (kheap sample_heap) \<longleftrightarrow> i = 32"
  using sample_heap_entry [of i] by (cases "unat i < 1023") (auto simp: has_table_def PAGE_PRESENT_def word_nat)

lemma sample_heap_wf: "dir_wf 0x1000 (kheap sample_heap)"
proof -
  have "frame_of 0x2007 = 0x2000" by (simp add: frame_of_def)
  moreover have "0x1000 \<in> pmm_in_use (kheap sample_heap)" "0x2000 \<in> pmm_in_use (kheap sample_heap)" "pmm_inv (kheap sample_heap)"
    by (simp_all add: pmm_inv_def pmm_used_def bit_simps pmm_in_use_def pmm_addr_valid_iff)
  ultimately show ?thesis by (simp add: dir_wf_def sample_heap_table sample_heap_entry)
qed

lemma sample_heap_alloc: "pmm_alloc_block (kheap sample_heap) = (0x3000, bitmap_set 3 (kheap sample_heap))"
proof -
  have "m < 3 \<longleftrightarrow> m = 0 \<or> m = 1 \<or> m = 2" for m :: nat by auto
  then show ?thesis
    using pmm_alloc_block_eq [of "kheap sample_heap" 3] by (simp add: pmm_used_def bit_simps PAGE_SIZE_def)
qed

lemma sample_heap_pages: "v \<in> heap_pages 0x08000000 0x08001000 \<longleftrightarrow> v = 0x08000000"
proof
  assume "v \<in> heap_pages 0x08000000 0x08001000"
  then have "unat v mod 4096 = 0" "0x08000000 \<le> unat v" "unat v < 0x08001000"
    by (auto simp: heap_pages_def user_page_def page_up_def)
  moreover obtain k where "unat v = 4096 * k" using calculation(1) by blast
  ultimately have "\<not> k < 0x8000" "\<not> 0x8000 < k" "unat v = 4096 * k" by simp_all
  then have "k = 0x8000" by simp
  then have "unat v = 0x08000000" using \<open>unat v = 4096 * k\<close> by simp
  then show "v = 0x08000000" by (simp add: word_unat_eq_iff)
qed (simp add: heap_pages_def user_page_def page_up_def pd_index_def word_nat)


end
