(* ===== verification/Ustring.thy ===== *)
theory Ustring
  imports Cstring
begin

text \<open>
  The strings of the user library, \<open>usr/libs/string.c\<close>, in the conventions of \<open>Cstring\<close>: a string that
  is read is the list of its bytes, the end of the list reads as zero; a buffer that is written is a list as
  long as the buffer, a write outside of it is \<open>None\<close>. Functions that have the name of a kernel function end in
  \<open>_u\<close>. Copies between places that may overlap are on the bytes of the address space.
\<close>

section \<open>Reading\<close>

fun strlen_u :: "cstr \<Rightarrow> nat" where
  "strlen_u [] = 0"
| "strlen_u (c # cs) = (if c \<noteq> 0 then Suc (strlen_u cs) else 0)"

fun strcmp_u :: "cstr \<Rightarrow> cstr \<Rightarrow> int" where
  "strcmp_u [] t = 0 - uint (deref t)"
| "strcmp_u (c # cs) t = (if c \<noteq> 0 \<and> c = deref t then strcmp_u cs (tl t) else uint c - uint (deref t))"

fun strncmp_u :: "cstr \<Rightarrow> cstr \<Rightarrow> nat \<Rightarrow> int" where
  "strncmp_u s t 0 = 0"
| "strncmp_u s t (Suc n) =
     (if deref s \<noteq> deref t then uint (deref s) - uint (deref t)
      else if deref s = 0 then 0
      else strncmp_u (tl s) (tl t) n)"

fun strcasecmp_u :: "cstr \<Rightarrow> cstr \<Rightarrow> int" where
  "strcasecmp_u [] t = 0 - uint (to_lower (deref t))"
| "strcasecmp_u (c # cs) t =
     (let c1 = to_lower c; c2 = to_lower (deref t)
      in if c1 \<noteq> 0 \<and> c1 = c2 then strcasecmp_u cs (tl t) else uint c1 - uint c2)"

fun strncasecmp :: "cstr \<Rightarrow> cstr \<Rightarrow> nat \<Rightarrow> int" where
  "strncasecmp s t 0 = 0"
| "strncasecmp s t (Suc n) =
     (let c1 = to_lower (deref s); c2 = to_lower (deref t)
      in if c1 \<noteq> c2 then uint c1 - uint c2 else if c1 = 0 then 0 else strncasecmp (tl s) (tl t) n)"

text \<open>The character is an \<open>int\<close>: the loop compares its low byte, the end compares all of it.\<close>

fun strchr_u :: "cstr \<Rightarrow> u32 \<Rightarrow> cstr option" where
  "strchr_u [] c = (if c = 0 then Some [] else None)"
| "strchr_u (x # xs) c =
     (if x \<noteq> 0 then (if x = ucast c then Some (x # xs) else strchr_u xs c)
      else if c = 0 then Some (x # xs) else None)"

fun strrchr_from_u :: "cstr \<Rightarrow> u8 \<Rightarrow> cstr option \<Rightarrow> cstr option" where
  "strrchr_from_u [] c found = (if c = 0 then Some [] else found)"
| "strrchr_from_u (x # xs) c found =
     (let found' = (if x = c then Some (x # xs) else found)
      in if x \<noteq> 0 then strrchr_from_u xs c found' else found')"

definition strrchr_u :: "cstr \<Rightarrow> u32 \<Rightarrow> cstr option" where
  "strrchr_u s c = strrchr_from_u s (ucast c) None"

fun strstr_at_u :: "cstr \<Rightarrow> cstr \<Rightarrow> bool" where
  "strstr_at_u a [] = True"
| "strstr_at_u a (b # bs) = (if deref a \<noteq> 0 \<and> b \<noteq> 0 \<and> deref a = b then strstr_at_u (tl a) bs else b = 0)"

fun strstr_from_u :: "cstr \<Rightarrow> cstr \<Rightarrow> cstr option" where
  "strstr_from_u [] needle = None"
| "strstr_from_u (x # xs) needle =
     (if x = 0 then None else if strstr_at_u (x # xs) needle then Some (x # xs) else strstr_from_u xs needle)"

definition strstr_u :: "cstr \<Rightarrow> cstr \<Rightarrow> cstr option" where
  "strstr_u haystack needle = (if deref needle = 0 then Some haystack else strstr_from_u haystack needle)"

definition in_set :: "cstr \<Rightarrow> u8 \<Rightarrow> bool" where
  "in_set accept c \<longleftrightarrow> strchr_u accept (scast c) \<noteq> None"

fun strspn :: "cstr \<Rightarrow> cstr \<Rightarrow> nat" where
  "strspn [] accept = 0"
| "strspn (c # cs) accept = (if c \<noteq> 0 \<and> in_set accept c then Suc (strspn cs accept) else 0)"

fun strcspn :: "cstr \<Rightarrow> cstr \<Rightarrow> nat" where
  "strcspn [] reject = 0"
| "strcspn (c # cs) reject = (if c \<noteq> 0 \<and> \<not> in_set reject c then Suc (strcspn cs reject) else 0)"

fun strpbrk :: "cstr \<Rightarrow> cstr \<Rightarrow> cstr option" where
  "strpbrk [] accept = None"
| "strpbrk (c # cs) accept = (if c = 0 then None else if in_set accept c then Some (c # cs) else strpbrk cs accept)"

fun memcmp_u :: "u8 list \<Rightarrow> u8 list \<Rightarrow> nat \<Rightarrow> int" where
  "memcmp_u a b 0 = 0"
| "memcmp_u a b (Suc n) =
     (if deref a \<noteq> deref b then uint (deref a) - uint (deref b) else memcmp_u (tl a) (tl b) n)"

fun memchr :: "u8 list \<Rightarrow> u32 \<Rightarrow> nat \<Rightarrow> u8 list option" where
  "memchr p c 0 = None"
| "memchr p c (Suc n) = (if deref p = ucast c then Some p else memchr (tl p) c n)"

text \<open>\<open>strtok_r\<close>: the token and the new \<open>saveptr\<close>. The token is the string up to the zero byte that replaces the delimiter.\<close>

fun cut_token :: "cstr \<Rightarrow> cstr \<Rightarrow> u8 list \<times> cstr" where
  "cut_token [] delim = ([], [])"
| "cut_token (c # cs) delim =
     (if c = 0 then ([], c # cs)
      else if in_set delim c then ([], cs)
      else case cut_token cs delim of (t, r) \<Rightarrow> (c # t, r))"

definition strtok_r :: "cstr option \<Rightarrow> cstr \<Rightarrow> cstr option \<Rightarrow> u8 list option \<times> cstr option" where
  "strtok_r str delim saveptr =
     (case (if str \<noteq> None then str else saveptr) of
        None \<Rightarrow> (None, None)
      | Some s \<Rightarrow>
          let token = drop (strspn s delim) s
          in if deref token = 0 then (None, Some token)
             else case cut_token token delim of (t, r) \<Rightarrow> (Some t, Some r))"

section \<open>Writing\<close>

fun strcpy_from_u :: "u8 list \<Rightarrow> nat \<Rightarrow> cstr \<Rightarrow> u8 list option" where
  "strcpy_from_u dest i [] = put dest i 0"
| "strcpy_from_u dest i (c # cs) = do { d \<leftarrow> put dest i c; if c \<noteq> 0 then strcpy_from_u d (i + 1) cs else Some d }"

definition strcpy_u :: "u8 list \<Rightarrow> cstr \<Rightarrow> u8 list option" where
  "strcpy_u dest src = strcpy_from_u dest 0 src"

fun zero_from :: "u8 list \<Rightarrow> nat \<Rightarrow> nat \<Rightarrow> u8 list option" where
  "zero_from dest i 0 = Some dest"
| "zero_from dest i (Suc n) = do { d \<leftarrow> put dest i 0; zero_from d (i + 1) n }"

fun strncpy_from_u :: "u8 list \<Rightarrow> nat \<Rightarrow> cstr \<Rightarrow> nat \<Rightarrow> u8 list option" where
  "strncpy_from_u dest i src 0 = Some dest"
| "strncpy_from_u dest i src (Suc n) =
     (if deref src \<noteq> 0 then do { d \<leftarrow> put dest i (deref src); strncpy_from_u d (i + 1) (tl src) n }
      else zero_from dest i (Suc n))"

definition strncpy_u :: "u8 list \<Rightarrow> cstr \<Rightarrow> nat \<Rightarrow> u8 list option" where
  "strncpy_u dest src n = strncpy_from_u dest 0 src n"

definition strcat_u :: "u8 list \<Rightarrow> cstr \<Rightarrow> u8 list option" where
  "strcat_u dest src = strcpy_from_u dest (strlen_u dest) src"

fun strncat_from :: "u8 list \<Rightarrow> nat \<Rightarrow> cstr \<Rightarrow> nat \<Rightarrow> u8 list option" where
  "strncat_from dest i src 0 = put dest i 0"
| "strncat_from dest i src (Suc n) =
     (if deref src \<noteq> 0 then do { d \<leftarrow> put dest i (deref src); strncat_from d (i + 1) (tl src) n } else put dest i 0)"

definition strncat :: "u8 list \<Rightarrow> cstr \<Rightarrow> nat \<Rightarrow> u8 list option" where
  "strncat dest src n = strncat_from dest (strlen_u dest) src n"

section \<open>Bytes of the address space\<close>

type_synonym umem = "u32 \<Rightarrow> u8"

fun copy_up :: "u32 \<Rightarrow> u32 \<Rightarrow> nat \<Rightarrow> umem \<Rightarrow> umem" where
  "copy_up d s 0 m = m"
| "copy_up d s (Suc n) m = copy_up (d + 1) (s + 1) n (m(d := m s))"

fun copy_down :: "u32 \<Rightarrow> u32 \<Rightarrow> nat \<Rightarrow> umem \<Rightarrow> umem" where
  "copy_down d s 0 m = m"
| "copy_down d s (Suc n) m = copy_down d s n (m(d + of_nat n := m (s + of_nat n)))"

definition memcpy_u :: "u32 \<Rightarrow> u32 \<Rightarrow> u32 \<Rightarrow> umem \<Rightarrow> umem" where
  "memcpy_u dest src n = copy_up dest src (unat n)"

definition memmove :: "u32 \<Rightarrow> u32 \<Rightarrow> u32 \<Rightarrow> umem \<Rightarrow> umem" where
  "memmove dest src n = (if dest < src then copy_up dest src (unat n) else copy_down dest src (unat n))"

fun set_up :: "u32 \<Rightarrow> u8 \<Rightarrow> nat \<Rightarrow> umem \<Rightarrow> umem" where
  "set_up p v 0 m = m"
| "set_up p v (Suc n) m = set_up (p + 1) v n (m(p := v))"

definition memset_u :: "u32 \<Rightarrow> u32 \<Rightarrow> u32 \<Rightarrow> umem \<Rightarrow> umem" where
  "memset_u ptr v n = set_up ptr (ucast v) (unat n)"

text \<open>A string at an address, \<open>n\<close> bytes stored at an address.\<close>

fun store_at :: "u32 \<Rightarrow> u8 list \<Rightarrow> umem \<Rightarrow> umem" where
  "store_at p [] m = m"
| "store_at p (b # bs) m = store_at (p + 1) bs (m(p := b))"

section \<open>Copies\<close>

lemma unat_Suc_off:
  "unat (d::u32) + Suc n \<le> 2 ^ 32 \<Longrightarrow> 0 < n \<Longrightarrow> unat (d + 1) = unat d + 1"
  using unat_add_no_wrap [of d 1] by simp

lemma copy_up_result:
  "unat d + n \<le> 2 ^ 32 \<Longrightarrow> unat s + n \<le> 2 ^ 32 \<Longrightarrow> unat d \<le> unat s \<Longrightarrow>
     copy_up d s n m a = (if unat d \<le> unat a \<and> unat a < unat d + n then m (s + (a - d)) else m a)"
proof (induction n arbitrary: d s m)
  case (Suc n)
  show ?case
  proof (cases "n = 0")
    case False
    have u: "unat (d + 1) = unat d + 1" "unat (s + 1) = unat s + 1"
      using Suc.prems unat_Suc_off [of d n] unat_Suc_off [of s n] False by auto
    have IH: "copy_up (d + 1) (s + 1) n (m(d := m s)) a =
        (if unat d + 1 \<le> unat a \<and> unat a < unat d + 1 + n then (m(d := m s)) (s + 1 + (a - (d + 1))) else (m(d := m s)) a)"
      using Suc.IH [of "d + 1" "s + 1"] Suc.prems u by simp
    have "s + (a - d) \<noteq> d" if "unat d < unat a" "unat a < unat d + 1 + n"
    proof -
      have "unat (a - d) = unat a - unat d" using that by (simp add: unat_sub_le)
      moreover have "unat (s + (a - d)) = unat s + unat (a - d)"
        using calculation that Suc.prems(2) by (intro unat_add_no_wrap) simp
      ultimately have "unat d < unat (s + (a - d))" using that Suc.prems(3) by linarith
      then show ?thesis by (metis less_irrefl)
    qed
    moreover have "unat d \<le> unat a \<longleftrightarrow> a = d \<or> unat d + 1 \<le> unat a" by (auto simp: word_unat_eq_iff [of a d])
    ultimately show ?thesis unfolding copy_up.simps IH by auto
  next
    case True
    moreover have "unat d \<le> unat a \<and> unat a < unat d + 1 \<longleftrightarrow> a = d" by (auto simp: word_unat_eq_iff [of a d])
    ultimately show ?thesis by auto
  qed
qed auto

lemma copy_down_result:
  "unat d + n \<le> 2 ^ 32 \<Longrightarrow> unat s + n \<le> 2 ^ 32 \<Longrightarrow> unat s \<le> unat d \<Longrightarrow>
     copy_down d s n m a = (if unat d \<le> unat a \<and> unat a < unat d + n then m (s + (a - d)) else m a)"
proof (induction n arbitrary: m)
  case (Suc n)
  have u: "unat (d + of_nat n) = unat d + n" "unat (s + of_nat n) = unat s + n"
    using Suc.prems by (simp_all add: unat_add_no_wrap unat_of_nat_small)
  have IH: "copy_down d s n m' a = (if unat d \<le> unat a \<and> unat a < unat d + n then m' (s + (a - d)) else m' a)" for m'
    using Suc by simp
  have "s + (a - d) \<noteq> d + of_nat n" if "unat d \<le> unat a" "unat a < unat d + n"
  proof -
    have "unat (a - d) = unat a - unat d" using that by (simp add: unat_sub_le)
    moreover have "unat (s + (a - d)) = unat s + unat (a - d)"
      using calculation that Suc.prems(2) by (intro unat_add_no_wrap) simp
    ultimately have "unat (s + (a - d)) < unat (d + of_nat n)" using that Suc.prems(3) u by linarith
    then show ?thesis by (metis less_irrefl)
  qed
  moreover have "a = d + of_nat n \<longleftrightarrow> unat a = unat d + n" using u by (auto simp: word_unat_eq_iff)
  ultimately show ?case unfolding copy_down.simps IH by auto
qed auto

text \<open>\<open>memmove\<close> is right also when the two ranges overlap: every byte of the target is the byte the source
  held before the call, and no other byte changes.\<close>

theorem memmove_overlap:
  assumes "unat dest + unat n \<le> 2 ^ 32" "unat src + unat n \<le> 2 ^ 32"
  shows "memmove dest src n m a =
    (if unat dest \<le> unat a \<and> unat a < unat dest + unat n then m (src + (a - dest)) else m a)"
proof (cases "dest < src")
  case True
  then show ?thesis using assms by (simp add: memmove_def copy_up_result word_less_nat_alt)
next
  case False
  then show ?thesis using assms by (simp add: memmove_def copy_down_result word_less_nat_alt)
qed

theorem memmove_overlap_witness:
  "memmove 0x1001 0x1000 3 (\<lambda>a. ucast a) 0x1003 = 2"
  using memmove_overlap [of "0x1001" 3 "0x1000" "\<lambda>a. ucast a" "0x1003"] by simp

end
