(* ===== verification/Ustdlib.thy ===== *)
theory Ustdlib
  imports Ustring
begin

text \<open>
  Numbers and messages of the user library: \<open>strtol\<close>, \<open>atoi\<close>, \<open>itoa\<close>, \<open>inet_addr\<close> and \<open>strerror\<close> of
  \<open>usr/libs/stdlib.c\<close>, and the option parser of \<open>usr/libs/getopt.c\<close>. An \<open>int\<close> or \<open>long\<close> is its 32-bit word; where the C
  code overflows a signed number the model wraps. \<open>strtol_itoa\<close> shows that what \<open>itoa\<close> prints is read back.
\<close>

section \<open>Reading numbers\<close>

fun skip_blanks :: "cstr \<Rightarrow> cstr" where
  "skip_blanks [] = []"
| "skip_blanks (c # cs) = (if c = 32 \<or> c = 9 then skip_blanks cs else c # cs)"

definition digit_value :: "u8 \<Rightarrow> nat option" where
  "digit_value c =
     (if 48 \<le> c \<and> c \<le> 57 then Some (unat (c - 48))
      else if 97 \<le> c \<and> c \<le> 102 then Some (unat (c - 97) + 10)
      else if 65 \<le> c \<and> c \<le> 70 then Some (unat (c - 65) + 10)
      else None)"

fun strtol_digits :: "u32 \<Rightarrow> u32 \<Rightarrow> cstr \<Rightarrow> u32 \<times> cstr" where
  "strtol_digits b result [] = (result, [])"
| "strtol_digits b result (c # cs) =
     (case digit_value c of
        None \<Rightarrow> (result, c # cs)
      | Some d \<Rightarrow> if int d \<ge> sint b then (result, c # cs) else strtol_digits b (result * b + of_nat d) cs)"

definition is_x :: "u8 \<Rightarrow> bool" where "is_x c \<longleftrightarrow> c = 120 \<or> c = 88"

text \<open>The number and \<open>*endptr\<close>.\<close>

definition strtol :: "cstr \<Rightarrow> u32 \<Rightarrow> u32 \<times> cstr" where
  "strtol str b =
     (let p = skip_blanks str;
          negative = (deref p = 45);
          p = (if deref p = 45 \<or> deref p = 43 then tl p else p);
          (b, p) = (if b = 0
                    then if deref p = 48
                         then if is_x (deref (tl p)) then (16, tl (tl p)) else (8, tl p)
                         else (10, p)
                    else (b, p));
          p = (if b = 16 \<and> deref p = 48 \<and> is_x (deref (tl p)) then tl (tl p) else p);
          (result, r) = strtol_digits b 0 p
      in (if negative then - result else result, r))"

definition atoi_u :: "cstr \<Rightarrow> u32" where
  "atoi_u str = fst (strtol str 10)"

text \<open>An address in dots; the octets are neither counted nor bounded.\<close>

fun inet_loop :: "cstr \<Rightarrow> u32 \<Rightarrow> u32 \<Rightarrow> nat \<Rightarrow> u32" where
  "inet_loop [] ip octet shift = ip OR push_bit shift octet"
| "inet_loop (c # cs) ip octet shift =
     (if c = 0 then ip OR push_bit shift octet
      else if c = 46 then inet_loop cs (ip OR push_bit shift octet) 0 (shift + 8)
      else if 48 \<le> c \<and> c \<le> 57 then inet_loop cs ip (octet * 10 + (ucast c - 48)) shift
      else 0)"

definition inet_addr :: "cstr \<Rightarrow> u32" where
  "inet_addr ip_str = inet_loop ip_str 0 0 0"

section \<open>Printing numbers\<close>

function itoa_loop :: "u32 \<Rightarrow> u32 \<Rightarrow> u8 list \<Rightarrow> u8 list" where
  "itoa_loop v b tmp =
     (let m = v mod b; tmp' = tmp @ [if m > 9 then ucast (m - 10 + 97) else ucast (m + 48)]
      in if b < 2 \<or> v div b = 0 then tmp' else itoa_loop (v div b) b tmp')"
  by pat_completeness auto
termination
proof (relation "measure (\<lambda>(v, b, tmp). unat v)", goal_cases)
  case (2 v b tmp m tmp')
  then have "2 \<le> unat b" by (simp add: word_less_nat_alt not_less)
  moreover have "0 < unat v" using 2(3) by (cases "v = 0") (auto simp: unat_gt_0)
  ultimately show ?case by (simp add: unat_div)
qed simp

declare itoa_loop.simps [simp del]

text \<open>\<open>tmp\<close> is filled from the last digit to the sign and then copied backwards.\<close>

definition itoa_u :: "u32 \<Rightarrow> u32 \<Rightarrow> cstr" where
  "itoa_u val b =
     (if sint b < 2 \<or> sint b > 36 then []
      else let negative = (sint val < 0 \<and> b = 10);
               tmp = itoa_loop (if negative then - val else val) b []
           in rev (if negative then tmp @ [45] else tmp))"

definition strerror :: "u32 \<Rightarrow> cstr" where
  "strerror errnum =
     (if errnum = 1 then bytes ''Operation not permitted''
      else if errnum = 2 then bytes ''No such file or directory''
      else if errnum = 5 then bytes ''Input/output error''
      else if errnum = 9 then bytes ''Bad file descriptor''
      else if errnum = 12 then bytes ''Out of memory''
      else if errnum = 13 then bytes ''Permission denied''
      else if errnum = 14 then bytes ''Bad address''
      else if errnum = 22 then bytes ''Invalid argument''
      else bytes ''Unknown error'')"

text \<open>What \<open>perror\<close> writes to descriptor 2, call by call.\<close>

definition perror :: "cstr option \<Rightarrow> u32 \<Rightarrow> u8 list list" where
  "perror s errnum =
     (case s of None \<Rightarrow> [] | Some t \<Rightarrow> if deref t \<noteq> 0 then [content t, bytes '': ''] else [])
     @ [strerror errnum, [10]]"

section \<open>Options\<close>

record getopt_state =
  opterr :: bool
  optind :: nat
  optopt :: u8
  optreset :: bool
  optarg :: "cstr option"
  optpos :: nat
  messages :: "u8 list list"

definition boot_getopt :: getopt_state where
  "boot_getopt = \<lparr>opterr = True, optind = 1, optopt = 0, optreset = False, optarg = None, optpos = 1, messages = []\<rparr>"

text \<open>A byte of an argument; \<open>None\<close> behind its end.\<close>

definition arg_at :: "cstr list \<Rightarrow> nat \<Rightarrow> nat \<Rightarrow> u8 option" where
  "arg_at argv i j =
     (if i < length argv \<and> j < length (content (argv ! i)) then Some (argv ! i ! j)
      else if i < length argv \<and> j = length (content (argv ! i)) then Some 0
      else None)"

text \<open>The position behind the character just read.\<close>

definition next_char :: "cstr list \<Rightarrow> getopt_state \<Rightarrow> getopt_state option" where
  "next_char argv g =
     do {
       let g = g\<lparr>optpos := optpos g + 1\<rparr>;
       c \<leftarrow> arg_at argv (optind g) (optpos g);
       Some (if c = 0 then g\<lparr>optind := optind g + 1, optpos := 1\<rparr> else g)
     }"

definition complain :: "u8 list list \<Rightarrow> getopt_state \<Rightarrow> getopt_state" where
  "complain m g = (if opterr g then g\<lparr>messages := messages g @ m\<rparr> else g)"

text \<open>The result is \<open>-1\<close>, the option letter, \<open>?\<close> or \<open>:\<close>. \<open>messages\<close> collects the calls of \<open>write(2, ...)\<close>.\<close>

partial_function (option) getopt :: "cstr list \<Rightarrow> cstr \<Rightarrow> getopt_state \<Rightarrow> (int \<times> getopt_state) option" where
  "getopt argv opts g0 =
     do {
       let g = (if optreset g0 \<or> optind g0 = 0 then g0\<lparr>optind := 1, optpos := 1, optreset := False\<rparr> else g0);
       let g = g\<lparr>optarg := None\<rparr>;
       if optind g \<ge> length argv \<or> deref (argv ! optind g) \<noteq> 45 then Some (- 1, g)
       else do {
         c \<leftarrow> arg_at argv (optind g) (optpos g);
         if c = 0 then getopt argv opts (g\<lparr>optind := optind g + 1, optpos := 1\<rparr>)
         else case strchr_u opts (scast c) of
           None \<Rightarrow> do {
             g1 \<leftarrow> next_char argv (complain [bytes ''Unknown option: -'', [c], [10]] (g\<lparr>optopt := c\<rparr>));
             Some (63, g1)
           }
         | Some p \<Rightarrow>
             if deref (tl p) = 58
             then do {
               d \<leftarrow> arg_at argv (optind g) (optpos g + 1);
               if d \<noteq> 0
               then Some (sint c, g\<lparr>optarg := Some (drop (optpos g + 1) (argv ! optind g)), optind := optind g + 1, optpos := 1\<rparr>)
               else if optind g + 1 < length argv
               then Some (sint c, g\<lparr>optarg := Some (argv ! (optind g + 1)), optind := optind g + 2, optpos := 1\<rparr>)
               else Some (58, (complain [bytes ''Option -'', [c], bytes '' requires an argument'' @ [10]] (g\<lparr>optopt := c\<rparr>))
                 \<lparr>optind := optind g + 1, optpos := 1\<rparr>)
             }
             else do { g1 \<leftarrow> next_char argv g; Some (sint c, g1) }
       }
     }"

section \<open>Printed numbers are read back\<close>

definition digit_char :: "u32 \<Rightarrow> u8" where
  "digit_char m = (if m > 9 then ucast (m - 10 + 97) else ucast (m + 48))"

lemma digit_char_props:
  assumes "unat m < 16"
  shows "digit_value (digit_char m) = Some (unat m)" "digit_char m \<notin> {0, 9, 32, 43, 45, 88, 120}"
proof -
  have "m = of_nat (unat m)" by simp
  moreover have "n < 16 \<Longrightarrow> n \<in> {0, 1, 2, 3, 4, 5, 6, 7, 8, 9, 10, 11, 12, 13, 14, 15}" for n :: nat
    by (simp only: insert_iff empty_iff) presburger
  then have "unat m \<in> {0, 1, 2, 3, 4, 5, 6, 7, 8, 9, 10, 11, 12, 13, 14, 15}" using assms by blast
  ultimately have "m \<in> {0, 1, 2, 3, 4, 5, 6, 7, 8, 9, 10, 11, 12, 13, 14, 15}" by (elim insertE emptyE; simp)
  then show "digit_value (digit_char m) = Some (unat m)" "digit_char m \<notin> {0, 9, 32, 43, 45, 88, 120}"
    by (elim insertE emptyE; simp add: digit_char_def digit_value_def)+
qed

lemma itoa_loop_step:
  "itoa_loop v b tmp = tmp @ digit_char (v mod b) # (if b < 2 \<or> v div b = 0 then [] else itoa_loop (v div b) b [])"
proof (induction "unat v" arbitrary: v tmp rule: less_induct)
  case less
  show ?case
  proof (cases "b < 2 \<or> v div b = 0")
    case False
    then have "2 \<le> unat b" "0 < unat v" by (auto simp: word_less_nat_alt not_less unat_gt_0)
    then have lt: "unat (v div b) < unat v" by (simp add: unat_div)
    let ?d = "digit_char (v mod b)"
    have "itoa_loop v b tmp = itoa_loop (v div b) b (tmp @ [?d])"
      using False by (subst itoa_loop.simps) (simp add: Let_def digit_char_def)
    also have "\<dots> = (tmp @ [?d]) @ itoa_loop (v div b) b []"
      unfolding less [OF lt, of "tmp @ [?d]"] less [OF lt, of "[]"] by simp
    finally show ?thesis using False by simp
  qed (subst itoa_loop.simps, simp add: Let_def digit_char_def)
qed

text \<open>The printed digits: they are digits of the base, and the loop of \<open>strtol\<close> gives back the number.\<close>

lemma strtol_digits_snoc:
  "strtol_digits b r xs = (q, []) \<Longrightarrow> digit_value c = Some d \<Longrightarrow> int d < sint b \<Longrightarrow>
     strtol_digits b r (xs @ [c]) = (q * b + of_nat d, [])"
  by (induction b r xs rule: strtol_digits.induct) (auto split: option.splits if_splits)

lemma itoa_digits:
  assumes b: "2 \<le> unat b" "unat b \<le> 16"
  shows "strtol_digits b 0 (rev (itoa_loop v b [])) = (v, []) \<and> set (itoa_loop v b []) \<inter> {0, 9, 32, 43, 45, 88, 120} = {} \<and>
    itoa_loop v b [] \<noteq> []"
proof (induction "unat v" arbitrary: v rule: less_induct)
  case less
  let ?m = "v mod b"
  have m: "unat ?m < unat b" using b by (simp add: unat_mod)
  have sb: "sint b = int (unat b)"
  proof -
    have "b = of_nat (unat b)" by simp
    moreover have "n \<le> 16 \<Longrightarrow> sint (of_nat n :: u32) = int n" for n
      by (simp add: signed_of_nat signed_take_bit_int_eq_self_iff)
    ultimately show ?thesis using b(2) by metis
  qed
  have sbm: "int (unat ?m) < sint b" unfolding sb using m by (simp only: of_nat_less_iff)
  have "unat ?m < 16" using m b(2) by linarith
  note D = digit_char_props [OF this]
  have vm: "v div b * b + of_nat (unat ?m) = v" by (simp add: word_mod_div_equality)
  show ?case
  proof (cases "v div b = 0")
    case True
    then have e: "itoa_loop v b [] = [digit_char ?m]" by (subst itoa_loop_step) simp
    have "strtol_digits b 0 ([] @ [digit_char ?m]) = (0 * b + of_nat (unat ?m), [])"
      by (rule strtol_digits_snoc [OF _ D(1) sbm]) simp
    then have "strtol_digits b 0 [digit_char ?m] = (v, [])" using vm True by (simp del: strtol_digits.simps)
    then show ?thesis unfolding e using D(2) by (simp del: strtol_digits.simps)
  next
    case False
    then have "0 < unat v" by (auto simp: unat_gt_0)
    then have lt: "unat (v div b) < unat v" using b by (simp add: unat_div)
    have e: "itoa_loop v b [] = digit_char ?m # itoa_loop (v div b) b []"
      using False b by (subst itoa_loop_step) (simp add: word_less_nat_alt)
    have "strtol_digits b 0 (rev (itoa_loop (v div b) b []) @ [digit_char ?m]) = (v div b * b + of_nat (unat ?m), [])"
      using less [OF lt] by (intro strtol_digits_snoc [OF _ D(1) sbm]) simp
    then show ?thesis unfolding e using D(2) less [OF lt] vm by auto
  qed
qed

lemma strtol_plain:
  assumes "set ds \<inter> {0, 9, 32, 43, 45, 88, 120} = {}" "ds \<noteq> []" "b \<noteq> 0"
  shows "strtol ds b = strtol_digits b 0 ds" "strtol (45 # ds) b = (case strtol_digits b 0 ds of (r, e) \<Rightarrow> (- r, e))"
proof -
  obtain c cs where ds: "ds = c # cs" using assms(2) by (cases ds) auto
  have "\<not> is_x (deref cs)" using assms(1) by (cases cs) (auto simp: ds is_x_def deref_def)
  then show "strtol ds b = strtol_digits b 0 ds" "strtol (45 # ds) b = (case strtol_digits b 0 ds of (r, e) \<Rightarrow> (- r, e))"
    using assms(1,3) by (auto simp: strtol_def ds deref_def Let_def split: prod.splits)
qed

text \<open>What \<open>itoa\<close> prints in a base from 2 to 16 is read back by \<open>strtol\<close> as the same 32-bit number, to the end of
  the text, for every number with and without a sign.\<close>

theorem strtol_itoa:
  assumes "2 \<le> unat b" "unat b \<le> 16"
  shows "strtol (itoa_u v b) b = (v, [])"
proof -
  have s: "\<not> (sint b < 2 \<or> sint b > 36)"
  proof -
    have "b = of_nat (unat b)" by simp
    moreover have "n \<le> 16 \<Longrightarrow> sint (of_nat n :: u32) = int n" for n
      by (simp add: signed_of_nat signed_take_bit_int_eq_self_iff)
    ultimately have "sint b = int (unat b)" using assms(2) by metis
    then show ?thesis using assms by linarith
  qed
  have b0: "b \<noteq> 0" using assms(1) by auto
  note I = itoa_digits [OF assms]
  have S: "strtol (rev (itoa_loop w b [])) b = (w, [])" "strtol (45 # rev (itoa_loop w b [])) b = (- w, [])" for w
    using strtol_plain [of "rev (itoa_loop w b [])" b] I [of w] b0 by auto
  show ?thesis
  proof (cases "sint v < 0 \<and> b = 10")
    case True
    then show ?thesis using S(2) [of "- v"] s by (simp add: itoa_u_def Let_def)
  next
    case False
    then have "itoa_u v b = rev (itoa_loop v b [])" using s unfolding itoa_u_def Let_def by auto
    then show ?thesis using S(1) by simp
  qed
qed

theorem strtol_itoa_witness: "strtol (itoa_u 0x80000000 10) 10 = (0x80000000, [])"
  using strtol_itoa [of 10 "0x80000000"] by simp

end
