(* ===== verification/Umalloc.thy ===== *)
theory Umalloc
  imports Ustring Syscall_Safety
begin

text \<open>
  The heap of a program, \<open>usr/libs/stdlib.c\<close>: \<open>malloc\<close> and its relatives, and \<open>strdup\<close> of \<open>string.c\<close>, over
  the system call \<open>SYS_SBRK\<close> of the modelled kernel. As in \<open>Kheap\<close>, \<open>ublocks\<close> holds the header at an address and \<open>ubytes\<close>
  the bytes between the headers. The lists of the kernel heap and of this heap are the same structure: \<open>as_heap\<close> reads
  the one as the other, and the lemmas about splitting and joining blocks are those of \<open>Kheap\<close>.
\<close>

section \<open>State and operations\<close>

record user_block =
  ub_magic :: u32
  ub_size :: u32
  ub_free :: u32
  ub_next :: u32
  ub_prev :: u32

record user_lib =
  ublocks :: "u32 \<Rightarrow> user_block"
  ubytes :: umem
  heap_head :: u32
  errno :: u32
  kernel :: sys_state

definition ENOMEM :: u32 where "ENOMEM = 12"
definition EFAULT :: u32 where "EFAULT = 14"
definition EINVAL :: u32 where "EINVAL = 22"

definition BLOCK_MAGIC :: u32 where "BLOCK_MAGIC = 0xCAFEBABE"
definition BLOCK_ALIGN :: u32 where "BLOCK_ALIGN = 8"

text \<open>\<open>sizeof(user_block_t)\<close>.\<close>

definition SIZEOF_BLOCK :: u32 where "SIZEOF_BLOCK = 20"

definition ALIGN_UP :: "u32 \<Rightarrow> u32" where
  "ALIGN_UP x = (x + (BLOCK_ALIGN - 1)) AND NOT (BLOCK_ALIGN - 1)"

abbreviation usize :: "user_lib \<Rightarrow> u32 \<Rightarrow> u32" where "usize u b \<equiv> ub_size (ublocks u b)"
abbreviation ufree :: "user_lib \<Rightarrow> u32 \<Rightarrow> bool" where "ufree u b \<equiv> ub_free (ublocks u b) \<noteq> 0"
abbreviation unext :: "user_lib \<Rightarrow> u32 \<Rightarrow> u32" where "unext u b \<equiv> ub_next (ublocks u b)"
abbreviation uprev :: "user_lib \<Rightarrow> u32 \<Rightarrow> u32" where "uprev u b \<equiv> ub_prev (ublocks u b)"
abbreviation umagic :: "user_lib \<Rightarrow> u32 \<Rightarrow> bool" where "umagic u b \<equiv> ub_magic (ublocks u b) = BLOCK_MAGIC"

definition upd_block :: "u32 \<Rightarrow> (user_block \<Rightarrow> user_block) \<Rightarrow> user_lib \<Rightarrow> user_lib" where
  "upd_block b f u = u\<lparr>ublocks := (ublocks u)(b := f (ublocks u b))\<rparr>"

definition usr_sbrk :: "u32 \<Rightarrow> user_lib \<Rightarrow> (u32 \<times> user_lib) option" where
  "usr_sbrk increment u =
     do {
       (r, k) \<leftarrow> sys_sbrk increment (kernel u);
       v \<leftarrow> r;
       Some (v, u\<lparr>kernel := k, errno := (if v = - 1 then ENOMEM else errno u)\<rparr>)
     }"

text \<open>How the search for a free block ends.\<close>

datatype block_search = Reuse u32 | Corrupt | No_fit

partial_function (option) find_block :: "u32 \<Rightarrow> u32 \<Rightarrow> user_lib \<Rightarrow> block_search option" where
  "find_block aligned_size b u =
     (if b = 0 then Some No_fit
      else if \<not> umagic u b then Some Corrupt
      else if ufree u b \<and> usize u b \<ge> aligned_size then Some (Reuse b)
      else find_block aligned_size (unext u b) u)"

text \<open>The split behind \<open>aligned_size\<close> bytes of \<open>b\<close>, which \<open>malloc\<close> has twice and \<open>realloc\<close> once.\<close>

definition split_block :: "u32 \<Rightarrow> u32 \<Rightarrow> user_lib \<Rightarrow> user_lib" where
  "split_block aligned_size b u =
     (if usize u b \<ge> aligned_size + SIZEOF_BLOCK + BLOCK_ALIGN
      then let split = b + SIZEOF_BLOCK + aligned_size;
               u1 = upd_block split (\<lambda>_. \<lparr>ub_magic = BLOCK_MAGIC, ub_size = usize u b - aligned_size - SIZEOF_BLOCK, ub_free = 1,
                      ub_next = unext u b, ub_prev = b\<rparr>) u;
               u2 = (if unext u1 b \<noteq> 0 then upd_block (unext u1 b) (\<lambda>h. h\<lparr>ub_prev := split\<rparr>) u1 else u1)
           in upd_block b (\<lambda>h. h\<lparr>ub_size := aligned_size, ub_next := split\<rparr>) u2
      else u)"

text \<open>\<open>while (tail->next) tail = tail->next;\<close>\<close>

partial_function (option) last_block :: "u32 \<Rightarrow> user_lib \<Rightarrow> u32 option" where
  "last_block b u = (if unext u b \<noteq> 0 then last_block (unext u b) u else Some b)"

definition append_block :: "u32 \<Rightarrow> u32 \<Rightarrow> user_lib \<Rightarrow> user_lib option" where
  "append_block new_block sz u =
     do {
       let u1 = upd_block new_block (\<lambda>_. \<lparr>ub_magic = BLOCK_MAGIC, ub_size = sz, ub_free = 0, ub_next = 0, ub_prev = 0\<rparr>) u;
       if heap_head u1 = 0 then Some (u1\<lparr>heap_head := new_block\<rparr>)
       else do {
         lst \<leftarrow> last_block (heap_head u1) u1;
         Some (upd_block new_block (\<lambda>h. h\<lparr>ub_prev := lst\<rparr>) (upd_block lst (\<lambda>h. h\<lparr>ub_next := new_block\<rparr>) u1))
       }
     }"

definition malloc :: "u32 \<Rightarrow> user_lib \<Rightarrow> (u32 \<times> user_lib) option" where
  "malloc sz u =
     (if sz = 0 then Some (0, u)
      else do {
        let aligned_size = ALIGN_UP sz;
        found \<leftarrow> find_block aligned_size (heap_head u) u;
        case found of
          Corrupt \<Rightarrow> Some (0, u\<lparr>errno := EFAULT\<rparr>)
        | Reuse b \<Rightarrow> Some (b + SIZEOF_BLOCK, upd_block b (\<lambda>h. h\<lparr>ub_free := 0\<rparr>) (split_block aligned_size b u))
        | No_fit \<Rightarrow> do {
            let total_req = SIZEOF_BLOCK + aligned_size;
            let alloc_chunk = (if total_req < 4096 then 4096 else total_req);
            (raw_mem, u1) \<leftarrow> usr_sbrk alloc_chunk u;
            if raw_mem = - 1 \<or> raw_mem = 0 then Some (0, u1\<lparr>errno := ENOMEM\<rparr>)
            else do {
              u2 \<leftarrow> append_block raw_mem (alloc_chunk - SIZEOF_BLOCK) u1;
              Some (raw_mem + SIZEOF_BLOCK, split_block aligned_size raw_mem u2)
            }
          }
      })"

text \<open>\<open>b\<close> swallows the block behind it.\<close>

definition absorb_next :: "u32 \<Rightarrow> u32 \<Rightarrow> user_lib \<Rightarrow> user_lib" where
  "absorb_next b c u =
     (let u1 = upd_block b (\<lambda>h. h\<lparr>ub_size := ub_size h + (SIZEOF_BLOCK + usize u c), ub_next := unext u c\<rparr>) u
      in if unext u1 b \<noteq> 0 then upd_block (unext u1 b) (\<lambda>h. h\<lparr>ub_prev := b\<rparr>) u1 else u1)"

definition usr_free :: "u32 \<Rightarrow> user_lib \<Rightarrow> user_lib" where
  "usr_free ptr u =
     (if ptr = 0 then u
      else let block = ptr - SIZEOF_BLOCK
           in if \<not> umagic u block then u
              else let u1 = upd_block block (\<lambda>h. h\<lparr>ub_free := 1\<rparr>) u;
                       u2 = (if unext u1 block \<noteq> 0 \<and> ufree u1 (unext u1 block) \<and> umagic u1 (unext u1 block)
                             then absorb_next block (unext u1 block) u1 else u1)
                   in if uprev u2 block \<noteq> 0 \<and> ufree u2 (uprev u2 block) \<and> umagic u2 (uprev u2 block)
                      then absorb_next (uprev u2 block) block u2 else u2)"

definition calloc :: "u32 \<Rightarrow> u32 \<Rightarrow> user_lib \<Rightarrow> (u32 \<times> user_lib) option" where
  "calloc count sz u =
     (if sz \<noteq> 0 \<and> count > - 1 div sz then Some (0, u\<lparr>errno := ENOMEM\<rparr>)
      else do {
        (ptr, u1) \<leftarrow> malloc (count * sz) u;
        Some (ptr, if ptr \<noteq> 0 then u1\<lparr>ubytes := memset_u ptr 0 (count * sz) (ubytes u1)\<rparr> else u1)
      })"

definition realloc :: "u32 \<Rightarrow> u32 \<Rightarrow> user_lib \<Rightarrow> (u32 \<times> user_lib) option" where
  "realloc ptr new_size u =
     (if ptr = 0 then malloc new_size u
      else if new_size = 0 then Some (0, usr_free ptr u)
      else let block = ptr - SIZEOF_BLOCK; aligned_size = ALIGN_UP new_size; nxt = unext u block
           in if \<not> umagic u block then Some (0, u\<lparr>errno := EINVAL\<rparr>)
              else if usize u block \<ge> aligned_size then Some (ptr, u)
              else if nxt \<noteq> 0 \<and> ufree u nxt \<and> umagic u nxt \<and> usize u block + SIZEOF_BLOCK + usize u nxt \<ge> aligned_size
              then Some (ptr, split_block aligned_size block (absorb_next block nxt u))
              else do {
                (new_ptr, u1) \<leftarrow> malloc new_size u;
                if new_ptr = 0 then Some (0, u1)
                else let copy_size = (if usize u1 block < new_size then usize u1 block else new_size)
                     in Some (new_ptr, usr_free ptr (u1\<lparr>ubytes := memcpy_u new_ptr ptr copy_size (ubytes u1)\<rparr>))
              })"

definition reallocarray :: "u32 \<Rightarrow> u32 \<Rightarrow> u32 \<Rightarrow> user_lib \<Rightarrow> (u32 \<times> user_lib) option" where
  "reallocarray ptr nmemb sz u =
     (if sz \<noteq> 0 \<and> nmemb > - 1 div sz then Some (0, u\<lparr>errno := ENOMEM\<rparr>) else realloc ptr (nmemb * sz) u)"

definition malloc_usable_size :: "u32 \<Rightarrow> user_lib \<Rightarrow> u32" where
  "malloc_usable_size ptr u =
     (if ptr = 0 \<or> \<not> umagic u (ptr - SIZEOF_BLOCK) then 0 else usize u (ptr - SIZEOF_BLOCK))"

definition strdup :: "cstr option \<Rightarrow> user_lib \<Rightarrow> (u32 \<times> user_lib) option" where
  "strdup s u =
     (case s of
        None \<Rightarrow> Some (0, u)
      | Some t \<Rightarrow> do {
          (copy, u1) \<leftarrow> malloc (of_nat (strlen_u t) + 1) u;
          Some (copy, if copy \<noteq> 0 then u1\<lparr>ubytes := store_at copy (content t @ [0]) (ubytes u1)\<rparr> else u1)
        })"

definition strndup :: "cstr option \<Rightarrow> u32 \<Rightarrow> user_lib \<Rightarrow> (u32 \<times> user_lib) option" where
  "strndup s n u =
     (case s of
        None \<Rightarrow> Some (0, u)
      | Some t \<Rightarrow> do {
          let len = min (unat n) (strlen_u t);
          (copy, u1) \<leftarrow> malloc (of_nat len + 1) u;
          Some (copy, if copy \<noteq> 0 then u1\<lparr>ubytes := store_at copy (take len t @ [0]) (ubytes u1)\<rparr> else u1)
        })"

section \<open>The same list as the kernel heap\<close>

definition hdr :: "user_block \<Rightarrow> heap_block" where
  "hdr h = \<lparr>hb_magic = (if ub_magic h = BLOCK_MAGIC then HEAP_MAGIC else 0), hb_size = ub_size h,
     hb_is_free = (if ub_free h \<noteq> 0 then 1 else 0), hb_next = ub_next h, hb_prev = ub_prev h\<rparr>"

definition prog_break :: "user_lib \<Rightarrow> u32" where
  "prog_break u = t_heap_break (cur (kernel u))"

definition as_heap :: "user_lib \<Rightarrow> heap_state" where
  "as_heap u = boot_heap\<lparr>blocks := \<lambda>a. hdr (ublocks u a), heap_start := heap_head u, heap_current_end := prog_break u\<rparr>"

lemma as_heap_fields [simp]:
  "blocks (as_heap u) a = hdr (ublocks u a)" "heap_start (as_heap u) = heap_head u" "heap_current_end (as_heap u) = prog_break u"
  by (simp_all add: as_heap_def)

lemma hdr_fields [simp]:
  "hb_size (hdr h) = ub_size h" "hb_next (hdr h) = ub_next h" "hb_prev (hdr h) = ub_prev h"
  "hb_is_free (hdr h) \<noteq> 0 \<longleftrightarrow> ub_free h \<noteq> 0" "hb_is_free (hdr h) = 0 \<longleftrightarrow> ub_free h = 0"
  "hb_magic (hdr h) = HEAP_MAGIC \<longleftrightarrow> ub_magic h = BLOCK_MAGIC"
  by (simp_all add: hdr_def HEAP_MAGIC_def)

lemma hdr_update [simp]:
  "hdr (h\<lparr>ub_size := v\<rparr>) = (hdr h)\<lparr>hb_size := v\<rparr>" "hdr (h\<lparr>ub_next := v\<rparr>) = (hdr h)\<lparr>hb_next := v\<rparr>"
  "hdr (h\<lparr>ub_prev := v\<rparr>) = (hdr h)\<lparr>hb_prev := v\<rparr>"
  "hdr (h\<lparr>ub_free := v\<rparr>) = (hdr h)\<lparr>hb_is_free := if v \<noteq> 0 then 1 else 0\<rparr>"
  "hdr \<lparr>ub_magic = BLOCK_MAGIC, ub_size = z, ub_free = 1, ub_next = n, ub_prev = p\<rparr> =
     \<lparr>hb_magic = HEAP_MAGIC, hb_size = z, hb_is_free = 1, hb_next = n, hb_prev = p\<rparr>"
  by (simp_all add: hdr_def)

lemma set_block_again [simp]: "set_block b h (set_block b h' s) = set_block b h s"
  by (simp add: set_block_def)

lemma upd_block_fields [simp]:
  "ublocks (upd_block b f u) a = (if a = b then f (ublocks u b) else ublocks u a)"
  "heap_head (upd_block b f u) = heap_head u" "kernel (upd_block b f u) = kernel u"
  by (simp_all add: upd_block_def)

lemma as_heap_upd: "as_heap (upd_block b f u) = set_block b (hdr (f (ublocks u b))) (as_heap u)"
  by (simp add: as_heap_def upd_block_def set_block_def prog_break_def fun_eq_iff)

lemma as_heap_keep [simp]: "as_heap (u\<lparr>errno := e\<rparr>) = as_heap u" "as_heap (u\<lparr>ubytes := m\<rparr>) = as_heap u"
  by (simp_all add: as_heap_def prog_break_def)

lemma as_heap_free: "as_heap (upd_block b (\<lambda>h. h\<lparr>ub_free := v\<rparr>) u) = set_free b (if v \<noteq> 0 then 1 else 0) (as_heap u)"
  by (simp add: as_heap_upd set_free_def)

lemma as_heap_absorb: "as_heap (absorb_next b c u) = heap_absorb b c (as_heap u)" if "b \<noteq> c"
  using that by (simp add: absorb_next_def heap_absorb_def Let_def as_heap_upd heap_set_defs SIZEOF_BLOCK_def HEADER_def)

lemma as_heap_split:
  assumes "aligned_size + SIZEOF_BLOCK + BLOCK_ALIGN \<le> usize u b" "b + SIZEOF_BLOCK + aligned_size \<noteq> b"
    "unext u b \<noteq> b + SIZEOF_BLOCK + aligned_size" "unext u b \<noteq> b"
  shows "as_heap (split_block aligned_size b u) = heap_split aligned_size b (as_heap u)"
  using assms by (simp add: split_block_def heap_split_def Let_def as_heap_upd heap_set_defs SIZEOF_BLOCK_def HEADER_def)

section \<open>What \<open>malloc\<close> returns\<close>

text \<open>The blocks of the heap lie end to end from the first one to the break of the program.\<close>

definition uheap_ok :: "user_lib \<Rightarrow> u32 list \<Rightarrow> bool" where
  "uheap_ok u bs \<longleftrightarrow> 24 \<le> unat (prog_break u) \<and> current_task (kernel u) \<in> fst ` set (task_list (kernel u)) \<and>
     (if heap_head u = 0 then bs = [] else heap_tiled (as_heap u) bs)"

lemma heap_tiled_not_null: "heap_tiled s bs \<Longrightarrow> heap_start s \<noteq> 0 \<and> bs \<noteq> [] \<and> 0 \<notin> set bs"
  using heap_tiled_block(3) [of s bs 0] by (auto simp: heap_tiled_def)

lemma find_block_seg:
  "heap_seg (as_heap u) p a bs 0 e \<Longrightarrow> find_block f (hd (bs @ [0])) u =
     Some (case find (\<lambda>b. ufree u b \<and> f \<le> usize u b) bs of Some b \<Rightarrow> Reuse b | None \<Rightarrow> No_fit)"
proof (induction bs arbitrary: p a)
  case (Cons b bs)
  then have "find_block f (unext u b) u = Some (case find (\<lambda>b. ufree u b \<and> f \<le> usize u b) bs of Some b \<Rightarrow> Reuse b | None \<Rightarrow> No_fit)"
    by auto
  then show ?case using Cons.prems by (subst find_block.simps) auto
qed (subst find_block.simps, simp)

lemma find_block_first:
  assumes "uheap_ok u bs"
  shows "find_block f (heap_head u) u =
    Some (case find (\<lambda>b. ufree u b \<and> f \<le> usize u b) bs of Some b \<Rightarrow> Reuse b | None \<Rightarrow> No_fit)"
proof (cases "heap_head u = 0")
  case True
  then show ?thesis using assms by (subst find_block.simps) (simp add: uheap_ok_def)
next
  case False
  then have seg: "heap_seg (as_heap u) 0 (unat (heap_head u)) bs 0 (unat (prog_break u))" and h: "hd (bs @ [0]) = heap_head u"
    using assms by (auto simp: uheap_ok_def heap_tiled_def hd_append)
  show ?thesis using find_block_seg [OF seg, of f] by (simp only: h)
qed

text \<open>Taking a block: what is left over becomes a free block behind it.\<close>

lemma split_block_taken:
  assumes t: "heap_tiled (as_heap u) (xs @ b # ys)" and f: "f \<le> usize u b" "unat f + 28 < 2 ^ 32"
  shows "\<exists>zs. heap_tiled (as_heap (split_block f b u)) (xs @ b # zs) \<and> set ys \<subseteq> set zs \<and> f \<le> usize (split_block f b u) b \<and>
    (\<forall>c \<in> set (xs @ ys). usize (split_block f b u) c = usize u c \<and> ufree (split_block f b u) c = ufree u c) \<and>
    ufree (split_block f b u) b = ufree u b"
proof (cases "f + SIZEOF_BLOCK + BLOCK_ALIGN \<le> usize u b")
  case True
  have u28: "unat (f + SIZEOF_BLOCK + BLOCK_ALIGN) = unat f + 28"
    using f(2) by (simp add: SIZEOF_BLOCK_def BLOCK_ALIGN_def unat_word_ariths)
  have b: "b \<in> set (xs @ b # ys)" by simp
  have fb: "f \<le> bsize (as_heap u) b" using f by simp
  note S = splits_iff [OF t b fb]
  have sp: "splits f b (as_heap u)" using S(1) True u28 by (simp add: word_nat)
  note R = heap_split_result [OF t fb sp]
  have nb: "b + SIZEOF_BLOCK + f \<noteq> b"
  proof
    assume "b + SIZEOF_BLOCK + f = b"
    then have "b + HEADER + f = b" unfolding SIZEOF_BLOCK_def HEADER_def .
    then have "unat b + 20 + unat f = unat b" using S(3) by (simp only:)
    then show False by simp
  qed
  have seg: "heap_seg (as_heap u) 0 (unat (heap_head u)) (xs @ b # ys) 0 (unat (prog_break u))" using t by (simp add: heap_tiled_def)
  have nx: "unext u b = hd (ys @ [0])" using seg by (auto simp: heap_seg_around)
  have ny: "unext u b \<noteq> b" "unext u b \<noteq> b + SIZEOF_BLOCK + f"
    using nx R(2) heap_seg_around_notin [OF seg] heap_tiled_not_null [OF t] S(3)
    by (cases ys; force simp: SIZEOF_BLOCK_def HEADER_def)+
  note e = as_heap_split [OF True nb ny(2,1)]
  have view: "usize v c = bsize (as_heap v) c" "ufree v c = bfree (as_heap v) c" for v c by simp_all
  show ?thesis
  proof (intro exI conjI)
    show "heap_tiled (as_heap (split_block f b u)) (xs @ b # (b + HEADER + f) # ys)" unfolding e by (rule R(1))
    show "f \<le> usize (split_block f b u) b" unfolding view e R(3) by simp
    show "\<forall>c \<in> set (xs @ ys). usize (split_block f b u) c = usize u c \<and> ufree (split_block f b u) c = ufree u c"
      unfolding view e using R(8) by blast
    show "ufree (split_block f b u) b = ufree u b" unfolding view e R(4) by simp
  qed auto
next
  case False
  then show ?thesis using t f by (intro exI [of _ ys]) (simp add: split_block_def)
qed

section \<open>A new chunk\<close>

lemma sbrk_pages_keep: "sbrk_pages dir page n s = (ok, s') \<Longrightarrow> \<exists>h. s' = s\<lparr>kheap := h\<rparr>"
proof (induction n arbitrary: page s)
  case (Suc n)
  obtain f s1 where fp: "fresh_page dir page s = (f, s1)" by fastforce
  then obtain h where h: "s1 = s\<lparr>kheap := h\<rparr>"
    by (auto simp: fresh_page_def heap_do_def Let_def split: prod.splits if_splits)
  show ?case
  proof (cases "f = 0")
    case False
    then have "sbrk_pages dir (page + 4096) n s1 = (ok, s')" using Suc.prems fp by simp
    from Suc.IH [OF this] show ?thesis unfolding h by fastforce
  qed (use Suc.prems fp h in auto)
next
  case 0
  then show ?case by (intro exI [of _ "kheap s"]) simp
qed

lemma le_plus_no_wrap: "unat r \<le> unat (r + n) \<Longrightarrow> unat (r + n) = unat r + unat n" for r n :: u32
  using unat_lt_2p32 [of r] unat_lt_2p32 [of n] by (simp add: unat_word_ariths mod_if split: if_splits)

lemma usr_sbrk_grows:
  assumes "usr_sbrk n u = Some (r, u1)" "r \<noteq> - 1" "0 < sint n" "uheap_ok u bs"
  shows "r = prog_break u" "unat (prog_break u1) = unat r + unat n" "ublocks u1 = ublocks u" "heap_head u1 = heap_head u"
    "current_task (kernel u1) \<in> fst ` set (task_list (kernel u1))" "24 \<le> unat r"
proof -
  obtain k where k: "sys_sbrk n (kernel u) = Some (Some r, k)" and u1: "u1 = u\<lparr>kernel := k, errno := errno u\<rparr>"
    using assms(1,2) by (auto simp: usr_sbrk_def split: bind_splits)
  have ok: "24 \<le> unat (prog_break u)" "current_task (kernel u) \<in> fst ` set (task_list (kernel u))"
    using assms(4) by (auto simp: uheap_ok_def)
  then have nz: "t_heap_break (cur (kernel u)) \<noteq> 0" by (auto simp: prog_break_def)
  obtain s2 p m where s2: "r = prog_break u" "unat r \<le> unat (r + n)" "sbrk_pages (t_page_directory (cur (kernel u))) p m (kernel u) = (True, s2)"
    "k = upd_cur (\<lambda>t. t\<lparr>t_heap_break := r + n\<rparr>) s2"
    using sys_sbrk_success [OF nz assms(3) k assms(2)] by (auto simp: prog_break_def)
  obtain h where h: "s2 = (kernel u)\<lparr>kheap := h\<rparr>" using sbrk_pages_keep [OF s2(3)] by blast
  show "r = prog_break u" "24 \<le> unat r" using s2(1) ok by simp_all
  have "prog_break u1 = r + n"
    unfolding prog_break_def u1 s2(4) h
    using task_at_upd [of "current_task (kernel u)" "(kernel u)\<lparr>kheap := h\<rparr>"] ok(2) by (simp add: upd_task_def)
  then show "unat (prog_break u1) = unat r + unat n" using le_plus_no_wrap [OF s2(2)] by simp
  show "ublocks u1 = ublocks u" "heap_head u1 = heap_head u" by (simp_all add: u1)
  show "current_task (kernel u1) \<in> fst ` set (task_list (kernel u1))"
    using ok(2) by (force simp: u1 s2(4) h upd_task_def map_task_def)
qed

lemma last_block_seg: "heap_seg (as_heap u) p a bs 0 e \<Longrightarrow> bs \<noteq> [] \<Longrightarrow> last_block (hd bs) u = Some (last bs)"
proof (induction bs arbitrary: p a)
  case (Cons b bs)
  show ?case
  proof (cases bs)
    case Nil
    with Cons.prems show ?thesis by (subst last_block.simps) simp
  next
    case (Cons c cs)
    with Cons.prems have "unext u b = c" "c \<noteq> 0" by auto
    moreover have "last_block c u = Some (last bs)" using Cons.IH Cons.prems(1) Cons by auto
    ultimately show ?thesis using Cons by (subst last_block.simps) simp
  qed
qed simp

text \<open>The header of a new chunk.\<close>

definition chunk_header :: "u32 \<Rightarrow> u32 \<Rightarrow> user_lib \<Rightarrow> user_lib" where
  "chunk_header r sz = upd_block r (\<lambda>_. \<lparr>ub_magic = BLOCK_MAGIC, ub_size = sz, ub_free = 0, ub_next = 0, ub_prev = 0\<rparr>)"

lemma chunk_header_fields [simp]:
  "heap_head (chunk_header r sz u) = heap_head u" "kernel (chunk_header r sz u) = kernel u"
  "prog_break (chunk_header r sz u) = prog_break u"
  "ublocks (chunk_header r sz u) a = (if a = r then \<lparr>ub_magic = BLOCK_MAGIC, ub_size = sz, ub_free = 0, ub_next = 0, ub_prev = 0\<rparr> else ublocks u a)"
  by (simp_all add: chunk_header_def prog_break_def)

lemma append_block_eq:
  assumes ok: "uheap_ok u bs" and r: "r = prog_break u" and u1: "ublocks u1 = ublocks u" "heap_head u1 = heap_head u"
  shows "append_block r sz u1 = Some (if heap_head u = 0 then (chunk_header r sz u1)\<lparr>heap_head := r\<rparr>
      else upd_block r (\<lambda>h. h\<lparr>ub_prev := last bs\<rparr>) (upd_block (last bs) (\<lambda>h. h\<lparr>ub_next := r\<rparr>) (chunk_header r sz u1)))"
    "heap_head u \<noteq> 0 \<Longrightarrow> heap_seg (as_heap (chunk_header r sz u1)) 0 (unat (heap_head u)) bs 0 (unat r) \<and> r \<notin> set bs"
proof -
  let ?v = "chunk_header r sz u1"
  have sv: "heap_seg (as_heap ?v) 0 (unat (heap_head u)) bs 0 (unat r) \<and> r \<notin> set bs \<and> bs \<noteq> [] \<and> hd bs = heap_head u"
    if "heap_head u \<noteq> 0"
  proof -
    have seg: "heap_seg (as_heap u) 0 (unat (heap_head u)) bs 0 (unat r)" "bs \<noteq> []" "hd bs = heap_head u"
      using ok r that by (auto simp: heap_tiled_def uheap_ok_def)
    have nr: "r \<notin> set bs" using heap_seg_bounds [OF seg(1)] by force
    have "heap_seg (as_heap ?v) 0 (unat (heap_head u)) bs 0 (unat r) = heap_seg (as_heap u) 0 (unat (heap_head u)) bs 0 (unat r)"
      using nr by (intro heap_seg_cong) (auto simp: u1)
    then show ?thesis using seg nr by simp
  qed
  then show "heap_head u \<noteq> 0 \<Longrightarrow> heap_seg (as_heap ?v) 0 (unat (heap_head u)) bs 0 (unat r) \<and> r \<notin> set bs" by blast
  show "append_block r sz u1 = Some (if heap_head u = 0 then ?v\<lparr>heap_head := r\<rparr>
      else upd_block r (\<lambda>h. h\<lparr>ub_prev := last bs\<rparr>) (upd_block (last bs) (\<lambda>h. h\<lparr>ub_next := r\<rparr>) ?v))"
    unfolding append_block_def Let_def chunk_header_def [symmetric]
    using sv last_block_seg [of ?v 0 "unat (heap_head u)" bs "unat r"] u1 by (cases "heap_head u = 0") auto
qed

lemma append_block_tiled:
  assumes ok: "uheap_ok u bs" and r: "r = prog_break u" and u1: "ublocks u1 = ublocks u" "heap_head u1 = heap_head u"
    and e: "unat (prog_break u1) = unat r + 20 + unat sz"
  shows "\<exists>u2. append_block r sz u1 = Some u2 \<and> heap_tiled (as_heap u2) (bs @ [r]) \<and> usize u2 r = sz \<and> \<not> ufree u2 r \<and>
    (\<forall>c \<in> set bs. usize u2 c = usize u c \<and> ufree u2 c = ufree u c) \<and> kernel u2 = kernel u1 \<and> r \<notin> set bs"
proof -
  note A = append_block_eq [OF assms(1-4), of sz]
  let ?v = "chunk_header r sz u1"
  have r24: "24 \<le> unat r" using ok r by (simp add: uheap_ok_def)
  then have r0: "r \<noteq> 0" by auto
  show ?thesis
  proof (cases "heap_head u = 0")
    case True
    then have "bs = []" using ok by (simp add: uheap_ok_def)
    moreover have "heap_tiled (as_heap (?v\<lparr>heap_head := r\<rparr>)) [r]"
      using r24 r0 e by (simp add: heap_tiled_def prog_break_def)
    ultimately show ?thesis using A(1) True by simp
  next
    case False
    let ?a = "unat (heap_head u)"
    have t: "bs \<noteq> []" "hd bs = heap_head u" "24 \<le> ?a" using ok False by (auto simp: uheap_ok_def heap_tiled_def)
    have sv: "heap_seg (as_heap ?v) 0 ?a bs 0 (unat r)" and nr: "r \<notin> set bs" using A(2) False by auto
    obtain xs l where bs: "bs = xs @ [l]" using t(1) by (metis rev_exhaust)
    let ?w = "upd_block r (\<lambda>h. h\<lparr>ub_prev := l\<rparr>) (upd_block l (\<lambda>h. h\<lparr>ub_next := r\<rparr>) ?v)"
    have ap: "append_block r sz u1 = Some ?w" using A(1) False by (simp add: bs)
    have lr: "l \<noteq> r" using nr bs by auto
    have hw: "as_heap ?w = set_prev r l (set_next l r (as_heap ?v))"
      using lr by (simp add: as_heap_upd heap_set_defs hdr_def)
    have "heap_seg (set_next l r (as_heap ?v)) 0 ?a (xs @ [l]) r (unat r)"
      using sv unfolding bs by (rule heap_seg_set_next)
    then have sw: "heap_seg (as_heap ?w) 0 ?a bs r (unat r)"
      unfolding hw using nr by (simp add: heap_seg_set_size_free bs)
    have br: "ublocks ?w r = \<lparr>ub_magic = BLOCK_MAGIC, ub_size = sz, ub_free = 0, ub_next = 0, ub_prev = l\<rparr>"
      using lr by simp
    have "heap_seg (as_heap ?w) 0 ?a (bs @ [r]) 0 (unat r + 20 + unat sz)"
      using sw br r0 bs unfolding heap_seg_append by auto
    then have "heap_tiled (as_heap ?w) (bs @ [r])"
      using t u1 e by (simp add: heap_tiled_def prog_break_def hd_append)
    moreover have "usize ?w c = usize u c \<and> ufree ?w c = ufree u c" if "c \<in> set bs" for c
      using that nr by (auto simp: u1)
    ultimately show ?thesis using ap br nr by (intro exI [of _ ?w]) auto
  qed
qed

text \<open>Rounding up to 8 bytes.\<close>

lemma unat_ALIGN_UP: "unat sz + 7 < 2 ^ 32 \<Longrightarrow> unat (ALIGN_UP sz) = (unat sz + 7) div 8 * 8"
proof -
  assume sz: "unat sz + 7 < 2 ^ 32"
  have m: "BLOCK_ALIGN - 1 = mask 3" by (simp add: mask_eq_exp_minus_1 BLOCK_ALIGN_def)
  have "(sz + mask 3) AND NOT (mask 3) = push_bit 3 (drop_bit 3 (sz + mask 3))"
    by (rule bit_word_eqI) (auto simp: bit_simps)
  moreover have "sz + mask 3 = sz + 7" by (simp add: mask_eq_exp_minus_1)
  ultimately have "ALIGN_UP sz = push_bit 3 (drop_bit 3 (sz + 7))" unfolding ALIGN_UP_def m by (simp only:)
  then have "unat (ALIGN_UP sz) = take_bit 32 (push_bit 3 (drop_bit 3 (unat (sz + 7))))"
    by (simp only: unsigned_push_bit_eq unat_drop_bit_eq) simp
  moreover have "unat (sz + 7) = unat sz + 7" using sz by (subst unat_add_no_wrap) simp_all
  ultimately show ?thesis using sz
    by (simp add: push_bit_eq_mult drop_bit_eq_div take_bit_eq_mod)
qed

lemma alloc_chunk_size:
  assumes "unat sz < 0x7FFFFFE0" "aligned = ALIGN_UP sz"
    and "chunk = (if SIZEOF_BLOCK + aligned < 4096 then 4096 else SIZEOF_BLOCK + aligned)"
  shows "unat sz \<le> unat aligned" "unat aligned + 28 < 2 ^ 32" "0 < sint chunk" "unat aligned + 20 \<le> unat chunk"
    "unat (chunk - SIZEOF_BLOCK) = unat chunk - 20"
proof -
  have al: "unat aligned = (unat sz + 7) div 8 * 8" using assms(1,2) by (simp add: unat_ALIGN_UP)
  have "unat aligned + (unat sz + 7) mod 8 = unat sz + 7" unfolding al by (rule div_mult_mod_eq)
  moreover have "(unat sz + 7) mod 8 < 8" by simp
  ultimately have a: "unat sz \<le> unat aligned" "unat aligned \<le> unat sz + 7" by simp_all
  then show "unat sz \<le> unat aligned" "unat aligned + 28 < 2 ^ 32" using assms(1) by simp_all
  have t: "unat (SIZEOF_BLOCK + aligned) = unat aligned + 20"
    using a assms(1) by (simp add: SIZEOF_BLOCK_def unat_word_ariths)
  then have c: "unat chunk = max 4096 (unat aligned + 20)" using assms(3) by (auto simp: word_less_nat_alt)
  then show "unat aligned + 20 \<le> unat chunk" "unat (chunk - SIZEOF_BLOCK) = unat chunk - 20"
    by (simp_all add: SIZEOF_BLOCK_def unat_sub_le)
  have "unat chunk < 2147483648" using c a assms(1) by simp
  moreover have u: "uint chunk = int (unat chunk)" by simp
  ultimately have "uint chunk < 2147483648" by linarith
  moreover have "- 2147483648 \<le> uint chunk" unfolding u by (rule order.trans [of _ 0]) (rule neg_numeral_le_zero, rule of_nat_0_le_iff)
  ultimately have "signed_take_bit 31 (uint chunk) = uint chunk" by (simp add: signed_take_bit_int_eq_self_iff)
  then have "sint chunk = int (unat chunk)" unfolding sint_uint u by simp
  then show "0 < sint chunk" using c by simp
qed

text \<open>The block \<open>b\<close> of \<open>v\<close>, taken: it is apart from the blocks \<open>bs\<close> of \<open>u\<close> that are in use.\<close>

lemma taken_block_fresh:
  assumes t: "heap_tiled (as_heap v) (xs @ b # ys)" and f: "f \<le> usize v b" "unat f + 28 < 2 ^ 32"
    and u': "as_heap u' = set_free b 0 (as_heap (split_block f b v)) \<or> as_heap u' = as_heap (split_block f b v) \<and> \<not> ufree v b"
    and old: "set bs - {b} \<subseteq> set (xs @ ys)" "\<forall>c \<in> set bs - {b}. usize v c = usize u c \<and> ufree v c = ufree u c"
    and nb: "b \<notin> set bs \<or> ufree u b"
  shows "\<exists>bs'. heap_tiled (as_heap u') bs' \<and> b \<in> set bs' \<and> \<not> ufree u' b \<and> f \<le> usize u' b \<and>
    (\<forall>c \<in> set bs. \<not> ufree u c \<longrightarrow> c \<in> set bs' \<and> \<not> ufree u' c \<and> usize u' c = usize u c \<and>
       (unat c + 20 + unat (usize u c) \<le> unat b \<or> unat b + 20 + unat (usize u' b) \<le> unat c))"
proof -
  let ?s = "split_block f b v"
  obtain zs where z: "heap_tiled (as_heap ?s) (xs @ b # zs)" "set ys \<subseteq> set zs" "f \<le> usize ?s b"
    "\<forall>c \<in> set (xs @ ys). usize ?s c = usize v c \<and> ufree ?s c = ufree v c" "ufree ?s b = ufree v b"
    using split_block_taken [OF t f] by blast
  let ?H = "as_heap ?s"
  have view: "usize w c = bsize (as_heap w) c" "ufree w c = bfree (as_heap w) c" for w c by simp_all
  have "as_heap u' = set_free b 0 ?H \<or> as_heap u' = ?H \<and> \<not> bfree ?H b"
    using u' z(5) unfolding view by blast
  then have V: "heap_tiled (as_heap u') (xs @ b # zs) \<and> bsize (as_heap u') b = bsize ?H b \<and> \<not> bfree (as_heap u') b \<and>
      (\<forall>c. c \<noteq> b \<longrightarrow> bsize (as_heap u') c = bsize ?H c \<and> bfree (as_heap u') c = bfree ?H c)"
  proof
    assume "as_heap u' = set_free b 0 ?H"
    then show ?thesis using z(1) by (simp del: as_heap_fields)
  qed (use z(1) in \<open>simp del: as_heap_fields\<close>)
  have U: "heap_tiled (as_heap u') (xs @ b # zs)" "usize u' b = usize ?s b" "\<not> ufree u' b"
    "\<And>c. c \<noteq> b \<Longrightarrow> usize u' c = usize ?s c \<and> ufree u' c = ufree ?s c"
    unfolding view using V by blast+
  have "c \<in> set (xs @ b # zs) \<and> \<not> ufree u' c \<and> usize u' c = usize u c \<and>
       (unat c + 20 + unat (usize u c) \<le> unat b \<or> unat b + 20 + unat (usize u' b) \<le> unat c)"
    if c: "c \<in> set bs" "\<not> ufree u c" for c
  proof -
    have cb: "c \<noteq> b" using c nb by auto
    then have m: "c \<in> set (xs @ ys)" "usize v c = usize u c" "ufree v c = ufree u c" using old c(1) by auto
    then have c': "c \<in> set (xs @ b # zs)" "usize u' c = usize u c" "\<not> ufree u' c" using z(2,4) U(4) [OF cb] c(2) by auto
    have seg: "heap_seg (as_heap u') 0 (unat (heap_head u')) (xs @ b # zs) 0 (unat (prog_break u'))"
      using U(1) by (simp add: heap_tiled_def)
    have "unat c + 20 + unat (bsize (as_heap u') c) \<le> unat b \<or> unat b + 20 + unat (bsize (as_heap u') b) \<le> unat c"
      by (rule heap_seg_disjoint [OF seg c'(1) _ cb]) simp
    then show ?thesis using c' by simp
  qed
  then show ?thesis using U(1-3) z(3) by (intro exI [of _ "xs @ b # zs"]) auto
qed


lemma sample_sbrk: "\<exists>s'. sys_sbrk 4096 sample_heap = Some (Some 0x08000000, s')"
  by (simp add: sys_sbrk_def page_up_def fresh_page_def heap_do_def sample_heap_alloc ret_def ret_error_def)

definition sample_lib :: user_lib where
  "sample_lib = \<lparr>ublocks = (\<lambda>a. \<lparr>ub_magic = 0, ub_size = 0, ub_free = 0, ub_next = 0, ub_prev = 0\<rparr>), ubytes = (\<lambda>a. 0),
     heap_head = 0, errno = 0, kernel = sample_heap\<rparr>"

lemma sample_lib_ok: "uheap_ok sample_lib []" "prog_break sample_lib = 0x08000000"
proof -
  have "task_list sample_heap = [(0x1000, zero_task\<lparr>t_pid := 3, t_page_directory := 0x1000, t_heap_start := 0x08000000, t_heap_break := 0x08000000\<rparr>)]"
    by (simp add: sample_heap_def)
  then show "uheap_ok sample_lib []" "prog_break sample_lib = 0x08000000"
    by (simp_all add: uheap_ok_def sample_lib_def prog_break_def)
qed


section \<open>Huge requests\<close>

text \<open>A request of 2 GiB and more is a negative increment for \<open>sbrk\<close>. If the heap is larger than the increment is negative,
  the call succeeds: the program gets a block that claims the whole size although the break went down, below
  memory that is still in use.\<close>

theorem malloc_huge_shrinks_heap:
  assumes "uheap_ok u bs" "find (\<lambda>b. ufree u b \<and> ALIGN_UP sz \<le> usize u b) bs = None" "sz \<noteq> 0"
    and "n = - (20 + ALIGN_UP sz)" "0 < unat n" "unat n < 2 ^ 31" "current_task (kernel u) \<noteq> 0"
    and "unat (t_heap_start (cur (kernel u))) + unat n \<le> unat (prog_break u)" "unat (prog_break u) < 0xB0000000"
  shows "\<exists>u'. malloc sz u = Some (prog_break u + 20, u') \<and> prog_break u' = prog_break u - n \<and> prog_break u' < prog_break u"
proof -
  let ?k = "kernel u" and ?r = "prog_break u"
  have t: "SIZEOF_BLOCK + ALIGN_UP sz = - n" using assms(4) by (simp add: SIZEOF_BLOCK_def)
  have un: "unat (- n) = 4294967296 - unat n"
  proof -
    have "unat (- n + n) = (unat (- n) + unat n) mod 4294967296" by (simp only: unat_word_ariths) simp
    then show ?thesis using assms(5) unat_lt_2p32 [of n] unat_lt_2p32 [of "- n"] by (simp add: mod_if split: if_splits)
  qed
  then have big: "\<not> - n < 4096" "- n \<noteq> 0" using assms(5,6) by (auto simp: word_less_nat_alt)
  have "unat (- n) div 2 ^ 31 = 1" unfolding un using assms(5,6) by (intro div_nat_eqI) simp_all
  then have "bit (unat (- n)) 31" by (simp add: bit_iff_odd)
  then have "bit (- n) (LENGTH(32) - Suc 0)" by (simp add: bit_unsigned_iff)
  then have neg: "sint (- n) < 0" unfolding bit_last_iff .
  have le: "unat n \<le> unat ?r" using assms(8) by simp
  have new: "?r + - n = ?r - n" "unat (?r - n) = unat ?r - unat n" using le by (simp_all add: unat_sub_le)
  then have ge: "\<not> ?r + - n < t_heap_start (cur ?k)" using assms(8) by (simp add: word_less_nat_alt)
  have r24: "24 \<le> unat ?r" "current_task ?k \<in> fst ` set (task_list ?k)" using assms(1) by (auto simp: uheap_ok_def)
  then have r0: "?r \<noteq> 0" by auto
  have "sys_sbrk (- n) ?k = Some (Some ?r, upd_cur (\<lambda>t. t\<lparr>t_heap_break := ?r - n\<rparr>) ?k)"
    using assms(7) r0 big neg ge new(1) by (simp add: sys_sbrk_def ret_def prog_break_def Let_def)
  moreover have "?r \<noteq> - 1" using assms(9) by (auto simp: unsigned_minus_1_eq_mask mask_eq_exp_minus_1)
  ultimately have sb: "usr_sbrk (- n) u = Some (?r, u\<lparr>kernel := upd_cur (\<lambda>t. t\<lparr>t_heap_break := ?r - n\<rparr>) ?k\<rparr>)" (is "_ = Some (?r, ?u1)")
    by (simp add: usr_sbrk_def)
  obtain u2 where u2: "append_block ?r (- n - SIZEOF_BLOCK) ?u1 = Some u2" "kernel u2 = kernel ?u1"
    using append_block_eq(1) [OF assms(1) refl, of ?u1 "- n - SIZEOF_BLOCK"] by (cases "heap_head u = 0") auto
  have "malloc sz u = Some (?r + 20, split_block (ALIGN_UP sz) ?r u2)"
    using assms(2,3) find_block_first [OF assms(1), of "ALIGN_UP sz"] t big sb r0 \<open>?r \<noteq> - 1\<close> u2(1)
    unfolding malloc_def Let_def t if_not_P [OF big(1)] by (simp add: SIZEOF_BLOCK_def)
  moreover have "kernel (split_block f b v) = kernel v" for f b v by (simp add: split_block_def Let_def)
  moreover have "prog_break ?u1 = ?r - n"
    unfolding prog_break_def using task_at_upd [OF r24(2)] by (simp add: upd_task_def)
  ultimately show ?thesis using u2(2) new(2) assms(5) r24 le by (auto simp: prog_break_def word_less_nat_alt)
qed

definition sample_lib2 :: user_lib where
  "sample_lib2 = sample_lib\<lparr>ublocks := (\<lambda>a. \<lparr>ub_magic = BLOCK_MAGIC, ub_size = 4076, ub_free = 0, ub_next = 0, ub_prev = 0\<rparr>),
     heap_head := 0x08000000,
     kernel := upd_cur (\<lambda>t. t\<lparr>t_heap_break := 0x08001000\<rparr>) sample_heap\<rparr>"

lemma sample_lib2_break:
  "current_task (kernel sample_lib2) = 0x1000" "prog_break sample_lib2 = 0x08001000"
  "t_heap_start (task_at 0x1000 (kernel sample_lib2)) = 0x08000000" "current_task (kernel sample_lib2) \<in> fst ` set (task_list (kernel sample_lib2))"
proof -
  have "task_list sample_heap = [(0x1000, zero_task\<lparr>t_pid := 3, t_page_directory := 0x1000, t_heap_start := 0x08000000, t_heap_break := 0x08000000\<rparr>)]"
    by (simp add: sample_heap_def)
  then show "current_task (kernel sample_lib2) = 0x1000" "prog_break sample_lib2 = 0x08001000"
    "t_heap_start (task_at 0x1000 (kernel sample_lib2)) = 0x08000000" "current_task (kernel sample_lib2) \<in> fst ` set (task_list (kernel sample_lib2))"
    by (simp_all add: sample_lib2_def prog_break_def upd_task_def map_task_def task_at_def)
qed

lemma sample_lib2_ok: "uheap_ok sample_lib2 [0x08000000]"
  using sample_lib2_break(2,4) by (simp add: uheap_ok_def heap_tiled_def) (simp add: sample_lib2_def)

theorem malloc_huge_shrinks_heap_witness:
  "\<exists>u'. malloc 0xFFFFEFF0 sample_lib2 = Some (0x08001014, u') \<and> prog_break u' = 0x08000004"
proof -
  have f: "find (\<lambda>b. ufree sample_lib2 b \<and> ALIGN_UP 0xFFFFEFF0 \<le> usize sample_lib2 b) [0x08000000] = None"
    by (simp add: sample_lib2_def)
  show ?thesis
    using malloc_huge_shrinks_heap [OF sample_lib2_ok f, of 4092]
    by (auto simp: sample_lib2_break ALIGN_UP_def BLOCK_ALIGN_def)
qed

section \<open>Release\<close>

lemma blocks_absorb_cursor: "blocks (heap_absorb b c (s\<lparr>last_alloc := l\<rparr>)) = blocks (heap_absorb b c s)"
  by (simp add: heap_absorb_def heap_set_defs set_block_def Let_def)

lemma absorb_if_cursor:
  "blocks (heap_absorb b c (if P then s\<lparr>last_alloc := l\<rparr> else s)) = blocks (heap_absorb b c s)"
  by (simp add: blocks_absorb_cursor)

lemma blocks_absorb_cong: "blocks s = blocks t \<Longrightarrow> blocks (heap_absorb b c s) = blocks (heap_absorb b c t)"
  by (simp add: heap_absorb_def heap_set_defs set_block_def Let_def)

text \<open>The two allocators of the system release a block in the same way: \<open>free\<close> of the user library leaves the list of
  headers that \<open>mem_free\<close> of the kernel heap leaves on the same list.\<close>

theorem usr_free_is_mem_free:
  assumes t: "heap_tiled (as_heap u) bs" and b: "b \<in> set bs" "\<not> ufree u b"
  shows "blocks (as_heap (usr_free (b + 20) u)) = blocks (mem_free (b + 20) (as_heap u))"
proof -
  obtain xs ys where bs: "bs = xs @ b # ys" using split_list [OF b(1)] by blast
  let ?s = "as_heap u" and ?u1 = "upd_block b (\<lambda>h. h\<lparr>ub_free := 1\<rparr>) u"
  let ?s1 = "set_free b 1 ?s"
  have s1: "as_heap ?u1 = ?s1" by (simp add: as_heap_free)
  have b0: "b \<noteq> 0" "umagic u b" "b + 20 \<noteq> 0"
  proof -
    note B = heap_tiled_block [OF t b(1)]
    then show "b \<noteq> 0" "umagic u b" by simp_all
    have "unat (b + 20) = unat b + 20" using B(2) by (subst unat_add_no_wrap) simp_all
    then show "b + 20 \<noteq> 0" by auto
  qed
  have t1: "heap_tiled ?s1 (xs @ b # ys)" using t bs by simp
  have seg: "heap_seg ?s1 0 (unat (heap_head u)) (xs @ b # ys) 0 (unat (prog_break u))" using t1 by (simp add: heap_tiled_def)
  have nb: "unext u b = hd (ys @ [0])" using seg by (auto simp: heap_seg_around set_free_def)
  have nn: "unext u b \<noteq> b" using nb b0(1) heap_seg_around_notin(2) [OF seg] by (cases ys) auto
  have nm: "unext u b \<noteq> 0 \<Longrightarrow> umagic u (unext u b)"
    using heap_tiled_block(4) [OF t, of "unext u b"] nb bs by (cases ys) auto
  define u2 where "u2 = (if unext u b \<noteq> 0 \<and> ufree u (unext u b) then absorb_next b (unext u b) ?u1 else ?u1)"
  define s2 where "s2 = heap_merge_next b ?s1"
  have e2: "blocks (as_heap u2) = blocks s2"
    using nn by (simp add: u2_def s2_def heap_merge_next_absorb absorb_if_cursor as_heap_absorb s1 set_free_def)
  obtain zs where t2: "heap_tiled s2 (xs @ b # zs)" using heap_merge_next_result(1) [OF t1 s2_def] by blast
  have F: "uprev u2 c = bprev s2 c" "ufree u2 c = bfree s2 c" "umagic u2 c \<longleftrightarrow> hb_magic (blocks s2 c) = HEAP_MAGIC" for c
    unfolding e2 [symmetric] by simp_all
  let ?p = "bprev s2 b"
  have p: "?p = last (0 # xs)" using t2 by (auto simp: heap_tiled_def heap_seg_around)
  have pb: "?p \<noteq> b"
    using p heap_seg_around_notin(1) [of s2 0 _ xs b zs] t2 b0(1) by (cases xs rule: rev_cases) (auto simp: heap_tiled_def)
  have pm: "?p \<noteq> 0 \<Longrightarrow> hb_magic (blocks s2 ?p) = HEAP_MAGIC"
    using heap_tiled_block(4) [OF t2, of ?p] p by (cases xs rule: rev_cases) auto
  have "usr_free (b + 20) u = (if uprev u2 b \<noteq> 0 \<and> ufree u2 (uprev u2 b) \<and> umagic u2 (uprev u2 b)
      then absorb_next (uprev u2 b) b u2 else u2)"
  proof -
    have fwd: "(unext ?u1 b \<noteq> 0 \<and> ufree ?u1 (unext ?u1 b) \<and> umagic ?u1 (unext ?u1 b)) \<longleftrightarrow> (unext u b \<noteq> 0 \<and> ufree u (unext u b))"
      using nn nm by auto
    have nx: "unext ?u1 b = unext u b" by simp
    have m: "\<not> \<not> umagic u b" using b0(2) by simp
    show ?thesis
      unfolding usr_free_def Let_def SIZEOF_BLOCK_def add_diff_cancel_right' if_not_P [OF b0(3)] if_not_P [OF m] fwd
      unfolding nx u2_def [symmetric] by (rule refl)
  qed
  also have "\<dots> = (if ?p \<noteq> 0 \<and> bfree s2 ?p then absorb_next ?p b u2 else u2)"
    unfolding F using pm by auto
  finally have "blocks (as_heap (usr_free (b + 20) u)) =
      (if ?p \<noteq> 0 \<and> bfree s2 ?p then blocks (heap_absorb ?p b s2) else blocks s2)"
    using as_heap_absorb [OF pb] blocks_absorb_cong [OF e2] e2 by (simp only: if_distrib [of "\<lambda>x. blocks (as_heap x)"])
  moreover have "mem_free (b + 20) ?s = heap_merge_prev b s2"
    using b0 b(2) by (simp add: mem_free_def HEADER_def Let_def s2_def)
  ultimately show ?thesis by (simp only: heap_merge_prev_absorb [OF pb] if_distrib [of blocks] absorb_if_cursor)
qed

theorem usr_free_is_mem_free_witness:
  "blocks (as_heap (usr_free 0x08000014 sample_lib2)) = blocks (mem_free 0x08000014 (as_heap sample_lib2))"
proof -
  have "heap_head sample_lib2 = 0x08000000" "\<not> ufree sample_lib2 0x08000000" by (simp_all add: sample_lib2_def)
  then show ?thesis
    using usr_free_is_mem_free [of sample_lib2 "[0x08000000]" "0x08000000"] sample_lib2_ok by (simp add: uheap_ok_def)
qed

end
