(* ===== verification/Ustdio.thy ===== *)
theory Ustdio
  imports Ustdlib Syscall_Safety
begin

text \<open>
  Buffered input and output of programs, \<open>usr/libs/stdio.c\<close>: the 4096-byte buffers in front of the
  descriptors, lines and characters, and formatted output. The system calls are the record \<open>kernel_calls\<close>; \<open>meow_kernel\<close> is the
  instance on the modelled kernel: data goes through a buffer of the program at an address that the
  kernel validates and reads. \<open>None\<close> is a call that does not return to the program.
\<close>

section \<open>System calls of a program\<close>

record 'k kernel_calls =
  kc_open :: "cstr \<Rightarrow> 'k \<Rightarrow> (u32 \<times> 'k) option"
  kc_close :: "u32 \<Rightarrow> 'k \<Rightarrow> (u32 \<times> 'k) option"
  kc_read :: "u32 \<Rightarrow> u32 \<Rightarrow> 'k \<Rightarrow> (u32 \<times> u8 list \<times> 'k) option"
  kc_write :: "u32 \<Rightarrow> u8 list \<Rightarrow> 'k \<Rightarrow> (u32 \<times> 'k) option"
  kc_lseek :: "u32 \<Rightarrow> u32 \<Rightarrow> u32 \<Rightarrow> 'k \<Rightarrow> (u32 \<times> 'k) option"
  kc_dup2 :: "u32 \<Rightarrow> u32 \<Rightarrow> 'k \<Rightarrow> (u32 \<times> 'k) option"
  kc_log :: "u32 \<Rightarrow> cstr \<Rightarrow> cstr \<Rightarrow> 'k \<Rightarrow> (u32 \<times> 'k) option"

definition returned :: "sysret \<Rightarrow> (u32 \<times> sys_state) option" where
  "returned r = do { (v, s) \<leftarrow> r; w \<leftarrow> v; Some (w, s) }"

text \<open>\<open>buf\<close> is the address of the data in the program, \<open>buf2\<close> that of a second string.\<close>

definition meow_kernel :: "sys_env \<Rightarrow> u32 \<Rightarrow> u32 \<Rightarrow> sys_state kernel_calls" where
  "meow_kernel env buf buf2 =
     \<lparr>kc_open = (\<lambda>path s. do { s1 \<leftarrow> put_user buf (content path @ [0]) s; returned (sys_open buf s1) }),
      kc_close = (\<lambda>fd s. returned (sys_close fd s)),
      kc_read = (\<lambda>fd n s. do {
        (r, s1) \<leftarrow> returned (sys_read env fd buf n s);
        b \<leftarrow> (if 0 < sint r then user_load buf (unat r) (kheap s1) else Some []);
        Some (r, b, s1) }),
      kc_write = (\<lambda>fd d s. do { s1 \<leftarrow> put_user buf d s; returned (sys_write env fd buf (of_nat (length d)) s1) }),
      kc_lseek = (\<lambda>fd off whence s. returned (sys_lseek fd off whence s)),
      kc_dup2 = (\<lambda>old new s. returned (sys_dup2 old new s)),
      kc_log = (\<lambda>level m t s. do { s1 \<leftarrow> put_user buf (content m @ [0]) s; s2 \<leftarrow> put_user buf2 (content t @ [0]) s1;
        returned (sys_log env level buf buf2 s2) })\<rparr>"

section \<open>Buffers\<close>

definition LIBC_MAX_FDS :: int where "LIBC_MAX_FDS = 32"
definition STDIO_BUF_SIZE :: nat where "STDIO_BUF_SIZE = 4096"
definition EOF :: u32 where "EOF = - 1"

record file_buffer =
  read_buffer :: "u8 list"
  read_head :: nat
  read_tail :: nat
  eof :: bool
  write_buffer :: "u8 list"
  write_count :: nat

record 'k stdio =
  fd_buffers :: "file_buffer list"
  os :: 'k

definition zero_buffer :: file_buffer where
  "zero_buffer = \<lparr>read_buffer = replicate 4096 0, read_head = 0, read_tail = 0, eof = False,
     write_buffer = replicate 4096 0, write_count = 0\<rparr>"

definition boot_stdio :: "'k \<Rightarrow> 'k stdio" where
  "boot_stdio k = \<lparr>fd_buffers = replicate 32 zero_buffer, os = k\<rparr>"

definition has_buffer :: "u32 \<Rightarrow> bool" where
  "has_buffer fd \<longleftrightarrow> 0 \<le> sint fd \<and> sint fd < LIBC_MAX_FDS"

definition fb_at :: "u32 \<Rightarrow> 'k stdio \<Rightarrow> file_buffer" where
  "fb_at fd s = fd_buffers s ! unat fd"

definition upd_fb :: "u32 \<Rightarrow> (file_buffer \<Rightarrow> file_buffer) \<Rightarrow> 'k stdio \<Rightarrow> 'k stdio" where
  "upd_fb fd f s = s\<lparr>fd_buffers := (fd_buffers s)[unat fd := f (fb_at fd s)]\<rparr>"

definition fflush :: "'k kernel_calls \<Rightarrow> u32 \<Rightarrow> 'k stdio \<Rightarrow> (u32 \<times> 'k stdio) option" where
  "fflush kc fd s =
     (if has_buffer fd \<and> write_count (fb_at fd s) > 0
      then do {
        (r, k) \<leftarrow> kc_write kc fd (take (write_count (fb_at fd s)) (write_buffer (fb_at fd s))) (os s);
        Some (if sint r \<ge> 0 then 0 else EOF, upd_fb fd (\<lambda>b. b\<lparr>write_count := 0\<rparr>) (s\<lparr>os := k\<rparr>))
      }
      else Some (0, s))"

definition forget_reads :: "u32 \<Rightarrow> 'k stdio \<Rightarrow> 'k stdio" where
  "forget_reads fd = upd_fb fd (\<lambda>b. b\<lparr>read_head := 0, read_tail := 0, eof := False\<rparr>)"

definition flush_fd_buffer :: "'k kernel_calls \<Rightarrow> u32 \<Rightarrow> 'k stdio \<Rightarrow> 'k stdio option" where
  "flush_fd_buffer kc fd s =
     (if has_buffer fd then do { (r, s1) \<leftarrow> fflush kc fd s; Some (forget_reads fd s1) } else Some s)"

text \<open>A system call on the kernel below the buffers.\<close>

definition on_os :: "('k \<Rightarrow> (u32 \<times> 'k) option) \<Rightarrow> 'k stdio \<Rightarrow> (u32 \<times> 'k stdio) option" where
  "on_os f s = do { (r, k) \<leftarrow> f (os s); Some (r, s\<lparr>os := k\<rparr>) }"

definition u_open :: "'k kernel_calls \<Rightarrow> cstr \<Rightarrow> 'k stdio \<Rightarrow> (u32 \<times> 'k stdio) option" where
  "u_open kc path s =
     do {
       (fd, s1) \<leftarrow> on_os (kc_open kc path) s;
       s2 \<leftarrow> (if has_buffer fd then flush_fd_buffer kc fd s1 else Some s1);
       Some (fd, s2)
     }"

definition u_close :: "'k kernel_calls \<Rightarrow> u32 \<Rightarrow> 'k stdio \<Rightarrow> (u32 \<times> 'k stdio) option" where
  "u_close kc fd s = do { s1 \<leftarrow> flush_fd_buffer kc fd s; on_os (kc_close kc fd) s1 }"

definition u_dup2 :: "'k kernel_calls \<Rightarrow> u32 \<Rightarrow> u32 \<Rightarrow> 'k stdio \<Rightarrow> (u32 \<times> 'k stdio) option" where
  "u_dup2 kc oldfd newfd s = do { s1 \<leftarrow> flush_fd_buffer kc newfd s; on_os (kc_dup2 kc oldfd newfd) s1 }"

definition flush_if_dirty :: "'k kernel_calls \<Rightarrow> u32 \<Rightarrow> 'k stdio \<Rightarrow> 'k stdio option" where
  "flush_if_dirty kc fd s =
     (if write_count (fb_at fd s) > 0 then do { (r, s1) \<leftarrow> fflush kc fd s; Some s1 } else Some s)"

text \<open>Up to \<open>n\<close> bytes that were read ahead.\<close>

definition take_buffered :: "u32 \<Rightarrow> nat \<Rightarrow> 'k stdio \<Rightarrow> u8 list \<times> 'k stdio" where
  "take_buffered fd n s =
     (let fb = fb_at fd s; got = take n (drop (read_head fb) (take (read_tail fb) (read_buffer fb)))
      in (got, upd_fb fd (\<lambda>b. b\<lparr>read_head := read_head b + length got\<rparr>) s))"

text \<open>A full buffer from the kernel: what the system call returned.\<close>

definition fill_buffer :: "'k kernel_calls \<Rightarrow> u32 \<Rightarrow> 'k stdio \<Rightarrow> (u32 \<times> 'k stdio) option" where
  "fill_buffer kc fd s =
     do {
       (r, b, k) \<leftarrow> kc_read kc fd (of_nat STDIO_BUF_SIZE) (os s);
       let s1 = s\<lparr>os := k\<rparr>;
       Some (r, if sint r \<le> 0 then upd_fb fd (\<lambda>f. f\<lparr>eof := True\<rparr>) s1
                else upd_fb fd (\<lambda>f. f\<lparr>read_buffer := b @ drop (length b) (read_buffer f), read_head := 0, read_tail := unat r\<rparr>) s1)
     }"

text \<open>The result, the bytes stored at \<open>buf\<close> and the state.\<close>

definition u_read :: "'k kernel_calls \<Rightarrow> u32 \<Rightarrow> u32 \<Rightarrow> 'k stdio \<Rightarrow> (u32 \<times> u8 list \<times> 'k stdio) option" where
  "u_read kc fd count s =
     (if count = 0 then Some (0, [], s)
      else if \<not> has_buffer fd then do { (r, b, k) \<leftarrow> kc_read kc fd count (os s); Some (r, b, s\<lparr>os := k\<rparr>) }
      else do {
        s1 \<leftarrow> flush_if_dirty kc fd s;
        let (got, s2) = take_buffered fd (unat count) s1;
        let n = of_nat (length got);
        let remaining = unat count - length got;
        if remaining = 0 then Some (n, got, s2)
        else if remaining \<ge> STDIO_BUF_SIZE
        then do {
          (r, b, k) \<leftarrow> kc_read kc fd (of_nat remaining) (os s2);
          let s3 = s2\<lparr>os := k\<rparr>;
          Some (if sint r > 0 then (n + r, got @ b, s3) else if got = [] then (r, [], s3) else (n, got, s3))
        }
        else if eof (fb_at fd s2) then Some (n, got, s2)
        else do {
          (r, s3) \<leftarrow> fill_buffer kc fd s2;
          if sint r \<le> 0 then Some (if got = [] then r else n, got, s3)
          else let (more, s4) = take_buffered fd remaining s3
               in Some (n + of_nat (length more), got @ more, s4)
        }
      })"

text \<open>The loop of \<open>write\<close>; \<open>written\<close> bytes of \<open>src\<close> are done.\<close>

partial_function (option) write_loop ::
  "'k kernel_calls \<Rightarrow> u32 \<Rightarrow> u8 list \<Rightarrow> nat \<Rightarrow> 'k stdio \<Rightarrow> (u32 \<times> 'k stdio) option" where
  "write_loop kc fd src written s =
     (let rest = length src - written; fb = fb_at fd s
      in if rest = 0 then Some (of_nat written, s)
         else if write_count fb = 0 \<and> rest \<ge> STDIO_BUF_SIZE
         then do {
           (r, k) \<leftarrow> kc_write kc fd (drop written src) (os s);
           if sint r \<le> 0 then Some (if written > 0 then of_nat written else r, s\<lparr>os := k\<rparr>)
           else write_loop kc fd src (written + unat r) (s\<lparr>os := k\<rparr>)
         }
         else do {
           let to_copy = min rest (STDIO_BUF_SIZE - write_count fb);
           let s1 = upd_fb fd (\<lambda>b. b\<lparr>write_buffer := take (write_count b) (write_buffer b) @ take to_copy (drop written src)
               @ drop (write_count b + to_copy) (write_buffer b), write_count := write_count b + to_copy\<rparr>) s;
           if write_count (fb_at fd s1) = STDIO_BUF_SIZE
           then do {
             (e, s2) \<leftarrow> fflush kc fd s1;
             if e = EOF then Some (of_nat (written + to_copy), s2)
             else write_loop kc fd src (written + to_copy) s2
           }
           else write_loop kc fd src (written + to_copy) s1
         })"

definition u_write :: "'k kernel_calls \<Rightarrow> u32 \<Rightarrow> u8 list \<Rightarrow> 'k stdio \<Rightarrow> (u32 \<times> 'k stdio) option" where
  "u_write kc fd src s =
     (if src = [] then Some (0, s)
      else if sint fd \<le> 2 \<or> sint fd \<ge> LIBC_MAX_FDS then on_os (kc_write kc fd src) s
      else write_loop kc fd src 0 s)"

definition u_lseek :: "'k kernel_calls \<Rightarrow> u32 \<Rightarrow> u32 \<Rightarrow> u32 \<Rightarrow> 'k stdio \<Rightarrow> (u32 \<times> 'k stdio) option" where
  "u_lseek kc fd offset whence s =
     (if has_buffer fd
      then do {
        (r, s1) \<leftarrow> fflush kc fd s;
        let fb = fb_at fd s1;
        let offset' = (if whence = SEEK_CUR then offset - of_nat (read_tail fb - read_head fb) else offset);
        on_os (kc_lseek kc fd offset' whence) (forget_reads fd s1)
      }
      else on_os (kc_lseek kc fd offset whence) s)"

text \<open>The size a file has, found by moving its offset to the end and back; the type is always 1.\<close>

definition fstat :: "'k kernel_calls \<Rightarrow> u32 \<Rightarrow> 'k stdio \<Rightarrow> (u32 \<times> u32 option \<times> 'k stdio) option" where
  "fstat kc fd s =
     (if sint fd < 0 then Some (- 1, None, s)
      else do {
        (cur_off, s1) \<leftarrow> u_lseek kc fd 0 SEEK_CUR s;
        (end_off, s2) \<leftarrow> u_lseek kc fd 0 SEEK_END s1;
        (r, s3) \<leftarrow> u_lseek kc fd cur_off SEEK_SET s2;
        Some (if sint end_off < 0 then (- 1, None, s3) else (0, Some end_off, s3))
      })"

section \<open>Characters and lines\<close>

text \<open>\<open>None\<close> in the place of the character is \<open>EOF\<close>.\<close>

definition fgetc :: "'k kernel_calls \<Rightarrow> u32 \<Rightarrow> 'k stdio \<Rightarrow> (u8 option \<times> 'k stdio) option" where
  "fgetc kc fd s =
     (if \<not> has_buffer fd
      then do { (r, b, k) \<leftarrow> kc_read kc fd 1 (os s); Some (if sint r > 0 then Some (b ! 0) else None, s\<lparr>os := k\<rparr>) }
      else do {
        s1 \<leftarrow> flush_if_dirty kc fd s;
        let get = (\<lambda>t. let fb = fb_at fd t
                       in (Some (read_buffer fb ! read_head fb), upd_fb fd (\<lambda>b. b\<lparr>read_head := read_head b + 1\<rparr>) t));
        if read_head (fb_at fd s1) < read_tail (fb_at fd s1) then Some (get s1)
        else if eof (fb_at fd s1) then Some (None, s1)
        else do {
          (r, s2) \<leftarrow> fill_buffer kc fd s1;
          Some (if sint r \<le> 0 then (None, s2) else get s2)
        }
      })"

definition getchar :: "'k kernel_calls \<Rightarrow> 'k stdio \<Rightarrow> (u8 option \<times> 'k stdio) option" where
  "getchar kc = fgetc kc 0"

text \<open>The characters \<open>fgets\<close> stores, \<open>None\<close> for \<open>NULL\<close>.\<close>

fun fgets_loop :: "'k kernel_calls \<Rightarrow> nat \<Rightarrow> u32 \<Rightarrow> u8 list \<Rightarrow> 'k stdio \<Rightarrow> (u8 list option \<times> 'k stdio) option" where
  "fgets_loop kc 0 fd line s = Some (Some line, s)"
| "fgets_loop kc (Suc n) fd line s =
     do {
       (ch, s1) \<leftarrow> fgetc kc fd s;
       case ch of
         None \<Rightarrow> Some (if line = [] then None else Some line, s1)
       | Some c \<Rightarrow> if c = 10 then Some (Some (line @ [c]), s1) else fgets_loop kc n fd (line @ [c]) s1
     }"

definition fgets :: "'k kernel_calls \<Rightarrow> u32 \<Rightarrow> u32 \<Rightarrow> 'k stdio \<Rightarrow> (u8 list option \<times> 'k stdio) option" where
  "fgets kc sz fd s = (if sint sz \<le> 0 then Some (None, s) else fgets_loop kc (unat sz - 1) fd [] s)"

definition fputs :: "'k kernel_calls \<Rightarrow> cstr option \<Rightarrow> u32 \<Rightarrow> 'k stdio \<Rightarrow> (u32 \<times> 'k stdio) option" where
  "fputs kc str fd s = (case str of None \<Rightarrow> Some (EOF, s) | Some t \<Rightarrow> u_write kc fd (content t) s)"

definition putchar :: "'k kernel_calls \<Rightarrow> u32 \<Rightarrow> 'k stdio \<Rightarrow> (u32 \<times> 'k stdio) option" where
  "putchar kc c = u_write kc 1 [ucast c]"

definition puts :: "'k kernel_calls \<Rightarrow> cstr option \<Rightarrow> 'k stdio \<Rightarrow> (u32 \<times> 'k stdio) option" where
  "puts kc str s =
     (if str = None then Some (EOF, s)
      else do { (r, s1) \<leftarrow> fputs kc str 1 s; (r', s2) \<leftarrow> putchar kc 10 s1; Some (0, s2) })"

section \<open>Formatted output\<close>

text \<open>\<open>lim\<close> is \<open>size - 1\<close>, \<open>out\<close> what is in the buffer. \<open>pad\<close> and \<open>emit\<close> are the loops that append as long as there is room.\<close>

definition pad :: "nat \<Rightarrow> u8 \<Rightarrow> int \<Rightarrow> u8 list \<Rightarrow> u8 list" where
  "pad lim c n out = out @ replicate (min (nat n) (lim - length out)) c"

definition emit :: "nat \<Rightarrow> u8 list \<Rightarrow> u8 list \<Rightarrow> u8 list" where
  "emit lim t out = out @ take (lim - length out) t"

text \<open>\<open>t\<close> in a field of \<open>width\<close>.\<close>

definition field :: "nat \<Rightarrow> bool \<Rightarrow> u8 \<Rightarrow> int \<Rightarrow> u8 list \<Rightarrow> u8 list \<Rightarrow> u8 list" where
  "field lim left_align c width t out =
     (let gap = width - int (length t)
      in if left_align then pad lim 32 gap (emit lim t out) else emit lim t (pad lim c gap out))"

definition to_upper_hex :: "u8 \<Rightarrow> u8" where
  "to_upper_hex c = (if 97 \<le> c \<and> c \<le> 102 then c - 32 else c)"

text \<open>One conversion; the pad character is \<open>0\<close> or a blank.\<close>

definition conv_int :: "nat \<Rightarrow> bool \<Rightarrow> bool \<Rightarrow> int \<Rightarrow> u32 \<Rightarrow> u8 list \<Rightarrow> u8 list" where
  "conv_int lim pad_zero left_align width v out =
     (let numbuf = itoa_u v 10
      in if sint v < 0 \<and> pad_zero
         then emit lim (tl numbuf) (pad lim 48 (width - int (length numbuf)) (emit lim [45] out))
         else field lim left_align (if pad_zero then 48 else 32) width numbuf out)"

definition conv_hex :: "nat \<Rightarrow> u8 \<Rightarrow> bool \<Rightarrow> bool \<Rightarrow> int \<Rightarrow> u32 \<Rightarrow> u8 list \<Rightarrow> u8 list" where
  "conv_hex lim p pad_zero left_align width v out =
     (let numbuf = map (if p = 88 then to_upper_hex else id) (itoa_u v 16);
          out1 = (if p = 112 \<and> length out + 2 < lim then out @ [48, 120] else out)
      in field lim left_align (if pad_zero then 48 else 32) width numbuf out1)"

definition conv_char :: "nat \<Rightarrow> bool \<Rightarrow> int \<Rightarrow> u8 \<Rightarrow> u8 list \<Rightarrow> u8 list" where
  "conv_char lim left_align width c out = field lim left_align 32 width [c] out"

definition convert ::
  "nat \<Rightarrow> u8 \<Rightarrow> bool \<Rightarrow> bool \<Rightarrow> int \<Rightarrow> printf_arg list \<Rightarrow> u8 list \<Rightarrow> (u8 list \<times> printf_arg list) option"
where
  "convert lim p pad_zero left_align width args out =
     (if p \<in> {99, 100, 105, 117, 120, 88, 112}
      then (case args of
              ArgInt v # as \<Rightarrow>
                Some (if p = 99 then conv_char lim left_align width (ucast v) out
                      else if p = 100 \<or> p = 105 then conv_int lim pad_zero left_align width v out
                      else if p = 117 then field lim left_align (if pad_zero then 48 else 32) width (itoa_u v 10) out
                      else conv_hex lim p pad_zero left_align width v out, as)
            | _ \<Rightarrow> None)
      else if p = 115
      then (case args of
              ArgStr t # as \<Rightarrow> Some (field lim left_align 32 width (content (case t of None \<Rightarrow> null_text | Some x \<Rightarrow> x)) out, as)
            | _ \<Rightarrow> None)
      else if p = 37 then Some (out @ [37], args)
      else Some (emit lim [p] (out @ [37]), args))"

text \<open>The flags and the width behind a percent sign; the width wraps like an \<open>int\<close>.\<close>

fun parse_flags :: "cstr \<Rightarrow> bool \<Rightarrow> bool \<Rightarrow> bool \<times> bool \<times> cstr" where
  "parse_flags [] pad_zero left_align = (pad_zero, left_align, [])"
| "parse_flags (c # cs) pad_zero left_align =
     (if c = 48 then parse_flags cs True left_align
      else if c = 45 then parse_flags cs pad_zero True
      else (pad_zero, left_align, c # cs))"

fun parse_width :: "cstr \<Rightarrow> u32 \<Rightarrow> u32 \<times> cstr" where
  "parse_width [] width = (width, [])"
| "parse_width (c # cs) width =
     (if 48 \<le> c \<and> c \<le> 57 then parse_width cs (width * 10 + (ucast c - 48)) else (width, c # cs))"

lemma parse_flags_shorter: "parse_flags cs z l = (z', l', r) \<Longrightarrow> length r \<le> length cs"
  by (induction cs z l rule: parse_flags.induct) (auto split: if_splits)

lemma parse_width_shorter: "parse_width cs w = (w', r) \<Longrightarrow> length r \<le> length cs"
  by (induction cs w rule: parse_width.induct) (auto split: if_splits)

function format_loop :: "nat \<Rightarrow> cstr \<Rightarrow> printf_arg list \<Rightarrow> u8 list \<Rightarrow> u8 list option" where
  "format_loop lim [] args out = Some out"
| "format_loop lim (c # cs) args out =
     (if c = 0 \<or> \<not> length out < lim then Some out
      else if c \<noteq> 37 then format_loop lim cs args (out @ [c])
      else if deref cs = 0 then Some out
      else case parse_flags cs False False of (pad_zero, left_align, r) \<Rightarrow>
           case parse_width r 0 of (width, q) \<Rightarrow>
             if deref q = 0 then Some out
             else case convert lim (deref q) (pad_zero \<and> \<not> left_align) left_align (sint width) args out of
                    None \<Rightarrow> None
                  | Some (out', args') \<Rightarrow> format_loop lim (tl q) args' out')"
  by pat_completeness auto
termination
  by (relation "measure (\<lambda>(lim, cs, args, out). length cs)")
    (auto dest!: sym [THEN parse_flags_shorter] sym [THEN parse_width_shorter])

text \<open>The string in the buffer, without the terminating zero, and the result.\<close>

definition vsnprintf :: "nat \<Rightarrow> cstr \<Rightarrow> printf_arg list \<Rightarrow> (u8 list \<times> nat) option" where
  "vsnprintf sz fmt args =
     (if sz = 0 then Some ([], 0)
      else do { out \<leftarrow> format_loop (sz - 1) fmt args []; Some (out, length out) })"

definition sprintf :: "cstr \<Rightarrow> printf_arg list \<Rightarrow> (u8 list \<times> nat) option" where
  "sprintf fmt args = vsnprintf 0x7FFFFFFF fmt args"

definition vprintf :: "'k kernel_calls \<Rightarrow> cstr \<Rightarrow> printf_arg list \<Rightarrow> 'k stdio \<Rightarrow> (nat \<times> 'k stdio) option" where
  "vprintf kc fmt args s =
     do {
       (buf, len) \<leftarrow> vsnprintf 1024 fmt args;
       if len > 0 then do { (r, s1) \<leftarrow> u_write kc 1 buf s; Some (len, s1) } else Some (len, s)
     }"

definition user_log_v :: "'k kernel_calls \<Rightarrow> u32 \<Rightarrow> cstr option \<Rightarrow> cstr \<Rightarrow> printf_arg list \<Rightarrow> 'k stdio \<Rightarrow> 'k stdio option" where
  "user_log_v kc level m fmt args s =
     do {
       (buf, len) \<leftarrow> vsnprintf 512 fmt args;
       (r, s1) \<leftarrow> on_os (kc_log kc level (case m of None \<Rightarrow> bytes ''USER'' | Some x \<Rightarrow> x) buf) s;
       Some s1
     }"

end
