(* ===== verification/Kconsole.thy ===== *)
theory Kconsole
  imports Cstring Spinlock Task
begin

text \<open>
  \<open>utils/console_print/kconsole.c\<close>: the graphical console. The frame buffer is a map from offsets behind \<open>fb\<close> to
  bytes; \<open>fb_null\<close> says that there is none. A write behind the saved picture of the mouse pointer is \<open>None\<close>, and so is
  a spin on a held lock.
\<close>

record console =
  cursor_x :: u32
  cursor_y :: u32
  fg_color :: u32
  bg_color :: u32
  fb :: "u32 \<Rightarrow> u8"
  fb_null :: bool
  fb_width :: u32
  fb_height :: u32
  fb_pitch :: u32
  fb_bpp :: u8
  cursor_blink_counter :: u32
  cursor_is_visible :: bool
  mouse_bg_backup :: "u32 list"
  mouse_saved_x :: u32
  mouse_saved_y :: u32
  mouse_saved_w :: u32
  mouse_saved_h :: u32
  mouse_rendered :: bool
  console_lock :: u32
  console_eflags :: u32
  spinner_counter :: u32
  spinner_frame :: u32
  was_spinner_active :: bool

definition CURSOR_SPRITE_WIDTH :: u32 where "CURSOR_SPRITE_WIDTH = 12"
definition CURSOR_SPRITE_HEIGHT :: u32 where "CURSOR_SPRITE_HEIGHT = 19"

text \<open>The fields of the VBE block that the boot loader leaves at \<open>0x8000\<close>.\<close>

record vbe_mode_info =
  vbe_pitch :: u16
  vbe_width :: u16
  vbe_height :: u16
  vbe_bpp :: u8
  vbe_framebuffer :: u32

section \<open>The font and the pointer\<close>

text \<open>The glyphs of the characters 32 to 127, one byte for each of the 16 rows; the other rows of the table are zero.\<close>

definition font_rows :: "u8 list list" where
  "font_rows = [
    [0x00, 0x00, 0x00, 0x00, 0x00, 0x00, 0x00, 0x00, 0x00, 0x00, 0x00, 0x00, 0x00, 0x00, 0x00, 0x00],
    [0x00, 0x00, 0x18, 0x3C, 0x3C, 0x18, 0x18, 0x18, 0x18, 0x00, 0x18, 0x18, 0x00, 0x00, 0x00, 0x00],
    [0x00, 0x66, 0x66, 0x66, 0x24, 0x00, 0x00, 0x00, 0x00, 0x00, 0x00, 0x00, 0x00, 0x00, 0x00, 0x00],
    [0x00, 0x00, 0x00, 0x6C, 0x6C, 0xF0, 0x6C, 0x6C, 0x6C, 0xFE, 0x6C, 0x6C, 0x00, 0x00, 0x00, 0x00],
    [0x18, 0x18, 0x7C, 0xC6, 0xC2, 0xC0, 0x7C, 0x06, 0x06, 0x86, 0xC6, 0x7C, 0x18, 0x18, 0x00, 0x00],
    [0x00, 0x00, 0x00, 0x00, 0xC2, 0xC6, 0x0C, 0x18, 0x30, 0x60, 0xC6, 0x86, 0x00, 0x00, 0x00, 0x00],
    [0x00, 0x00, 0x38, 0x6C, 0x6C, 0x38, 0x70, 0xDC, 0xCC, 0xCC, 0xCC, 0x76, 0x00, 0x00, 0x00, 0x00],
    [0x00, 0x30, 0x30, 0x30, 0x60, 0x00, 0x00, 0x00, 0x00, 0x00, 0x00, 0x00, 0x00, 0x00, 0x00, 0x00],
    [0x00, 0x00, 0x0C, 0x18, 0x30, 0x30, 0x30, 0x30, 0x30, 0x30, 0x30, 0x18, 0x0C, 0x00, 0x00, 0x00],
    [0x00, 0x00, 0x30, 0x18, 0x0C, 0x0C, 0x0C, 0x0C, 0x0C, 0x0C, 0x0C, 0x18, 0x30, 0x00, 0x00, 0x00],
    [0x00, 0x00, 0x00, 0x00, 0x00, 0x18, 0x7E, 0x3C, 0x7E, 0x18, 0x00, 0x00, 0x00, 0x00, 0x00, 0x00],
    [0x00, 0x00, 0x00, 0x00, 0x18, 0x18, 0x18, 0xFF, 0x18, 0x18, 0x18, 0x00, 0x00, 0x00, 0x00, 0x00],
    [0x00, 0x00, 0x00, 0x00, 0x00, 0x00, 0x00, 0x00, 0x00, 0x00, 0x18, 0x18, 0x18, 0x30, 0x00, 0x00],
    [0x00, 0x00, 0x00, 0x00, 0x00, 0x00, 0x00, 0xFF, 0x00, 0x00, 0x00, 0x00, 0x00, 0x00, 0x00, 0x00],
    [0x00, 0x00, 0x00, 0x00, 0x00, 0x00, 0x00, 0x00, 0x00, 0x00, 0x18, 0x18, 0x00, 0x00, 0x00, 0x00],
    [0x00, 0x00, 0x00, 0x06, 0x0C, 0x18, 0x30, 0x60, 0xC0, 0x80, 0x00, 0x00, 0x00, 0x00, 0x00, 0x00],
    [0x00, 0x00, 0x38, 0x6C, 0xC6, 0xC6, 0xC6, 0xC6, 0xC6, 0xC6, 0xC6, 0x6C, 0x38, 0x00, 0x00, 0x00],
    [0x00, 0x00, 0x18, 0x38, 0x78, 0x18, 0x18, 0x18, 0x18, 0x18, 0x18, 0x18, 0x7E, 0x00, 0x00, 0x00],
    [0x00, 0x00, 0x7C, 0xC6, 0x06, 0x0C, 0x18, 0x30, 0x60, 0xC0, 0xC0, 0xC6, 0xFE, 0x00, 0x00, 0x00],
    [0x00, 0x00, 0x7C, 0xC6, 0x06, 0x06, 0x3C, 0x06, 0x06, 0x06, 0x06, 0xC6, 0x7C, 0x00, 0x00, 0x00],
    [0x00, 0x00, 0x0C, 0x1C, 0x3C, 0x6C, 0xCC, 0xFE, 0x0C, 0x0C, 0x0C, 0x0C, 0x1E, 0x00, 0x00, 0x00],
    [0x00, 0x00, 0xFE, 0xC0, 0xC0, 0xC0, 0xFC, 0x06, 0x06, 0x06, 0x06, 0xC6, 0x7C, 0x00, 0x00, 0x00],
    [0x00, 0x00, 0x38, 0x60, 0xC0, 0xC0, 0xFC, 0xC6, 0xC6, 0xC6, 0xC6, 0xC6, 0x7C, 0x00, 0x00, 0x00],
    [0x00, 0x00, 0xFE, 0xC6, 0x06, 0x06, 0x0C, 0x18, 0x30, 0x30, 0x30, 0x30, 0x30, 0x00, 0x00, 0x00],
    [0x00, 0x00, 0x7C, 0xC6, 0xC6, 0xC6, 0x7C, 0xC6, 0xC6, 0xC6, 0xC6, 0xC6, 0x7C, 0x00, 0x00, 0x00],
    [0x00, 0x00, 0x7C, 0xC6, 0xC6, 0xC6, 0xC6, 0xC6, 0x7E, 0x06, 0x06, 0x0C, 0x78, 0x00, 0x00, 0x00],
    [0x00, 0x00, 0x00, 0x00, 0x18, 0x18, 0x00, 0x00, 0x00, 0x18, 0x18, 0x00, 0x00, 0x00, 0x00, 0x00],
    [0x00, 0x00, 0x00, 0x00, 0x18, 0x18, 0x00, 0x00, 0x00, 0x18, 0x18, 0x30, 0x00, 0x00, 0x00, 0x00],
    [0x00, 0x00, 0x00, 0x06, 0x0C, 0x18, 0x30, 0x60, 0x30, 0x18, 0x0C, 0x06, 0x00, 0x00, 0x00, 0x00],
    [0x00, 0x00, 0x00, 0x00, 0x00, 0x7E, 0x00, 0x00, 0x7E, 0x00, 0x00, 0x00, 0x00, 0x00, 0x00, 0x00],
    [0x00, 0x00, 0x00, 0x60, 0x30, 0x18, 0x0C, 0x06, 0x0C, 0x18, 0x30, 0x60, 0x00, 0x00, 0x00, 0x00],
    [0x00, 0x00, 0x7C, 0xC6, 0xC6, 0x06, 0x0C, 0x18, 0x18, 0x00, 0x18, 0x18, 0x00, 0x00, 0x00, 0x00],
    [0x00, 0x00, 0x7C, 0xC6, 0xC6, 0xDE, 0xDE, 0xDE, 0xDE, 0xC0, 0xC0, 0xC6, 0x7C, 0x00, 0x00, 0x00],
    [0x00, 0x00, 0x10, 0x38, 0x6C, 0xC6, 0xC6, 0xFE, 0xC6, 0xC6, 0xC6, 0xC6, 0x00, 0x00, 0x00, 0x00],
    [0x00, 0x00, 0xFC, 0x66, 0x66, 0x66, 0x7C, 0x66, 0x66, 0x66, 0x66, 0xFC, 0x00, 0x00, 0x00, 0x00],
    [0x00, 0x00, 0x3C, 0x66, 0xC2, 0xC0, 0xC0, 0xC0, 0xC0, 0xC2, 0x66, 0x3C, 0x00, 0x00, 0x00, 0x00],
    [0x00, 0x00, 0xF8, 0x6C, 0x66, 0x66, 0x66, 0x66, 0x66, 0x66, 0x6C, 0xF8, 0x00, 0x00, 0x00, 0x00],
    [0x00, 0x00, 0xFE, 0x62, 0x60, 0x64, 0x7C, 0x64, 0x60, 0x60, 0x62, 0xFE, 0x00, 0x00, 0x00, 0x00],
    [0x00, 0x00, 0xFE, 0x62, 0x60, 0x64, 0x7C, 0x64, 0x60, 0x60, 0x60, 0xF0, 0x00, 0x00, 0x00, 0x00],
    [0x00, 0x00, 0x3C, 0x66, 0xC2, 0xC0, 0xC0, 0xCE, 0xC6, 0xC6, 0x66, 0x3E, 0x00, 0x00, 0x00, 0x00],
    [0x00, 0x00, 0xC6, 0xC6, 0xC6, 0xC6, 0xFE, 0xC6, 0xC6, 0xC6, 0xC6, 0xC6, 0x00, 0x00, 0x00, 0x00],
    [0x00, 0x00, 0x3E, 0x1C, 0x1C, 0x1C, 0x1C, 0x1C, 0x1C, 0x1C, 0x1C, 0x3E, 0x00, 0x00, 0x00, 0x00],
    [0x00, 0x00, 0x0E, 0x06, 0x06, 0x06, 0x06, 0x06, 0x06, 0x06, 0x66, 0x3C, 0x00, 0x00, 0x00, 0x00],
    [0x00, 0x00, 0xE6, 0x66, 0x6C, 0x78, 0x70, 0x78, 0x6C, 0x66, 0x66, 0xE6, 0x00, 0x00, 0x00, 0x00],
    [0x00, 0x00, 0xF0, 0x60, 0x60, 0x60, 0x60, 0x60, 0x60, 0x60, 0x62, 0xFE, 0x00, 0x00, 0x00, 0x00],
    [0x00, 0x00, 0xC6, 0xEE, 0xFE, 0xFE, 0xD6, 0xC6, 0xC6, 0xC6, 0xC6, 0xC6, 0x00, 0x00, 0x00, 0x00],
    [0x00, 0x00, 0xC6, 0xE6, 0xF6, 0xFE, 0xDE, 0xCE, 0xC6, 0xC6, 0xC6, 0xC6, 0x00, 0x00, 0x00, 0x00],
    [0x00, 0x00, 0x38, 0x6C, 0xC6, 0xC6, 0xC6, 0xC6, 0xC6, 0xC6, 0x6C, 0x38, 0x00, 0x00, 0x00, 0x00],
    [0x00, 0x00, 0xFC, 0x66, 0x66, 0x66, 0x7C, 0x60, 0x60, 0x60, 0x60, 0xF0, 0x00, 0x00, 0x00, 0x00],
    [0x00, 0x00, 0x38, 0x6C, 0xC6, 0xC6, 0xC6, 0xC6, 0xC6, 0xDA, 0xEC, 0x7E, 0x06, 0x00, 0x00, 0x00],
    [0x00, 0x00, 0xFC, 0x66, 0x66, 0x66, 0x7C, 0x6C, 0x66, 0x66, 0x66, 0xE6, 0x00, 0x00, 0x00, 0x00],
    [0x00, 0x00, 0x7C, 0xC6, 0xC6, 0x60, 0x38, 0x0C, 0x06, 0xC6, 0xC6, 0x7C, 0x00, 0x00, 0x00, 0x00],
    [0x00, 0x00, 0xFE, 0x7C, 0x38, 0x38, 0x38, 0x38, 0x38, 0x38, 0x38, 0x38, 0x00, 0x00, 0x00, 0x00],
    [0x00, 0x00, 0xC6, 0xC6, 0xC6, 0xC6, 0xC6, 0xC6, 0xC6, 0xC6, 0xC6, 0x7C, 0x00, 0x00, 0x00, 0x00],
    [0x00, 0x00, 0xC6, 0xC6, 0xC6, 0xC6, 0xC6, 0xC6, 0xC6, 0x6C, 0x38, 0x10, 0x00, 0x00, 0x00, 0x00],
    [0x00, 0x00, 0xC6, 0xC6, 0xC6, 0xC6, 0xC6, 0xD6, 0xFE, 0xFE, 0xEE, 0xC6, 0x00, 0x00, 0x00, 0x00],
    [0x00, 0x00, 0xC6, 0xC6, 0x6C, 0x38, 0x38, 0x6C, 0xC6, 0xC6, 0xC6, 0xC6, 0x00, 0x00, 0x00, 0x00],
    [0x00, 0x00, 0xC6, 0xC6, 0xC6, 0x6C, 0x38, 0x38, 0x38, 0x38, 0x38, 0x38, 0x00, 0x00, 0x00, 0x00],
    [0x00, 0x00, 0xFE, 0x06, 0x0C, 0x18, 0x30, 0x60, 0xC0, 0xC0, 0xC0, 0xFE, 0x00, 0x00, 0x00, 0x00],
    [0x00, 0x00, 0x3C, 0x30, 0x30, 0x30, 0x30, 0x30, 0x30, 0x30, 0x30, 0x3C, 0x00, 0x00, 0x00, 0x00],
    [0x00, 0x00, 0x00, 0x80, 0xC0, 0x60, 0x30, 0x18, 0x0C, 0x06, 0x00, 0x00, 0x00, 0x00, 0x00, 0x00],
    [0x00, 0x00, 0x3C, 0x0C, 0x0C, 0x0C, 0x0C, 0x0C, 0x0C, 0x0C, 0x0C, 0x3C, 0x00, 0x00, 0x00, 0x00],
    [0x00, 0x00, 0x18, 0x3C, 0x66, 0x00, 0x00, 0x00, 0x00, 0x00, 0x00, 0x00, 0x00, 0x00, 0x00, 0x00],
    [0x00, 0x00, 0x00, 0x00, 0x00, 0x00, 0x00, 0x00, 0x00, 0x00, 0x00, 0x00, 0xFF, 0x00, 0x00, 0x00],
    [0x00, 0x00, 0x60, 0x60, 0x30, 0x00, 0x00, 0x00, 0x00, 0x00, 0x00, 0x00, 0x00, 0x00, 0x00, 0x00],
    [0x00, 0x00, 0x00, 0x00, 0x00, 0x78, 0x0C, 0x7C, 0xCC, 0xCC, 0xCC, 0x76, 0x00, 0x00, 0x00, 0x00],
    [0x00, 0x00, 0xE0, 0x60, 0x60, 0x78, 0x6C, 0x66, 0x66, 0x66, 0x66, 0x7C, 0x00, 0x00, 0x00, 0x00],
    [0x00, 0x00, 0x00, 0x00, 0x00, 0x3C, 0x66, 0xC0, 0xC0, 0xC0, 0x66, 0x3C, 0x00, 0x00, 0x00, 0x00],
    [0x00, 0x00, 0x0E, 0x06, 0x06, 0x3E, 0x66, 0xC6, 0xC6, 0xC6, 0xC6, 0x7E, 0x00, 0x00, 0x00, 0x00],
    [0x00, 0x00, 0x00, 0x00, 0x00, 0x3C, 0x66, 0xFE, 0xC0, 0xC0, 0x66, 0x3C, 0x00, 0x00, 0x00, 0x00],
    [0x00, 0x00, 0x1C, 0x36, 0x30, 0x78, 0x30, 0x30, 0x30, 0x30, 0x30, 0x78, 0x00, 0x00, 0x00, 0x00],
    [0x00, 0x00, 0x00, 0x00, 0x00, 0x3E, 0x66, 0xC6, 0xC6, 0xC6, 0x7E, 0x06, 0x0C, 0x38, 0x00, 0x00],
    [0x00, 0x00, 0xE0, 0x60, 0x60, 0x78, 0x6C, 0x66, 0x66, 0x66, 0x66, 0xE6, 0x00, 0x00, 0x00, 0x00],
    [0x00, 0x00, 0x18, 0x18, 0x00, 0x38, 0x18, 0x18, 0x18, 0x18, 0x18, 0x3C, 0x00, 0x00, 0x00, 0x00],
    [0x00, 0x00, 0x06, 0x06, 0x00, 0x0E, 0x06, 0x06, 0x06, 0x06, 0x06, 0x06, 0x66, 0x3C, 0x00, 0x00],
    [0x00, 0x00, 0xE0, 0x60, 0x60, 0x66, 0x6C, 0x78, 0x78, 0x6C, 0x66, 0xE6, 0x00, 0x00, 0x00, 0x00],
    [0x00, 0x00, 0x38, 0x18, 0x18, 0x18, 0x18, 0x18, 0x18, 0x18, 0x18, 0x3C, 0x00, 0x00, 0x00, 0x00],
    [0x00, 0x00, 0x00, 0x00, 0x00, 0xEC, 0xFE, 0xD6, 0xD6, 0xD6, 0xD6, 0xC6, 0x00, 0x00, 0x00, 0x00],
    [0x00, 0x00, 0x00, 0x00, 0x00, 0xDC, 0x66, 0x66, 0x66, 0x66, 0x66, 0x66, 0x00, 0x00, 0x00, 0x00],
    [0x00, 0x00, 0x00, 0x00, 0x00, 0x3C, 0x66, 0xC6, 0xC6, 0xC6, 0x66, 0x3C, 0x00, 0x00, 0x00, 0x00],
    [0x00, 0x00, 0x00, 0x00, 0x00, 0xDC, 0x66, 0x66, 0x66, 0x66, 0x7C, 0x60, 0x60, 0xF0, 0x00, 0x00],
    [0x00, 0x00, 0x00, 0x00, 0x00, 0x3E, 0x66, 0xC6, 0xC6, 0xC6, 0x7E, 0x06, 0x06, 0x0F, 0x00, 0x00],
    [0x00, 0x00, 0x00, 0x00, 0x00, 0xDC, 0x66, 0x60, 0x60, 0x60, 0x60, 0xF0, 0x00, 0x00, 0x00, 0x00],
    [0x00, 0x00, 0x00, 0x00, 0x00, 0x3E, 0x60, 0x3C, 0x06, 0x06, 0x66, 0x3C, 0x00, 0x00, 0x00, 0x00],
    [0x00, 0x00, 0x10, 0x30, 0x30, 0xFC, 0x30, 0x30, 0x30, 0x30, 0x34, 0x18, 0x00, 0x00, 0x00, 0x00],
    [0x00, 0x00, 0x00, 0x00, 0x00, 0xCC, 0xCC, 0xCC, 0xCC, 0xCC, 0xCC, 0x76, 0x00, 0x00, 0x00, 0x00],
    [0x00, 0x00, 0x00, 0x00, 0x00, 0xC6, 0xC6, 0xC6, 0x6C, 0x38, 0x38, 0x10, 0x00, 0x00, 0x00, 0x00],
    [0x00, 0x00, 0x00, 0x00, 0x00, 0xC6, 0xD6, 0xD6, 0xD6, 0xFE, 0xEE, 0x44, 0x00, 0x00, 0x00, 0x00],
    [0x00, 0x00, 0x00, 0x00, 0x00, 0xC6, 0x6C, 0x38, 0x38, 0x6C, 0xC6, 0xC6, 0x00, 0x00, 0x00, 0x00],
    [0x00, 0x00, 0x00, 0x00, 0x00, 0xC6, 0xC6, 0xC6, 0xC6, 0x7E, 0x06, 0x0C, 0x38, 0x00, 0x00, 0x00],
    [0x00, 0x00, 0x00, 0x00, 0x00, 0xFE, 0x0C, 0x18, 0x30, 0x60, 0xC0, 0xFE, 0x00, 0x00, 0x00, 0x00],
    [0x00, 0x00, 0x0E, 0x18, 0x18, 0x18, 0x70, 0x18, 0x18, 0x18, 0x18, 0x0E, 0x00, 0x00, 0x00, 0x00],
    [0x00, 0x00, 0x18, 0x18, 0x18, 0x18, 0x18, 0x18, 0x18, 0x18, 0x18, 0x18, 0x00, 0x00, 0x00, 0x00],
    [0x00, 0x00, 0x70, 0x18, 0x18, 0x18, 0x0E, 0x18, 0x18, 0x18, 0x18, 0x70, 0x00, 0x00, 0x00, 0x00],
    [0x00, 0x00, 0x76, 0xDC, 0x00, 0x00, 0x00, 0x00, 0x00, 0x00, 0x00, 0x00, 0x00, 0x00, 0x00, 0x00],
    [0x00, 0x00, 0x00, 0x00, 0x00, 0x00, 0x00, 0x00, 0x00, 0x00, 0x00, 0x00, 0x00, 0x00, 0x00, 0x00]]"

definition font8x16 :: "u8 \<Rightarrow> u8 list" where
  "font8x16 c = (if 32 \<le> c \<and> c < 128 then font_rows ! (unat c - 32) else replicate 16 0)"

definition mouse_pointer_sprite :: "string list" where
  "mouse_pointer_sprite = [
    ''B...........'',
    ''BB..........'',
    ''BWB.........'',
    ''BWWb........'',
    ''BWWWB.......'',
    ''BWWWWb......'',
    ''BWWWWWB.....'',
    ''BWWWWWWB....'',
    ''BWWWWWWWB...'',
    ''BWWWWWWWWB..'',
    ''BWWWWWWWWWB.'',
    ''BWWWWWWWWWB.'',
    ''BWWWWBBBBBB.'',
    ''BWWWB.......'',
    ''BWWB........'',
    ''BWB.........'',
    ''BB..........'',
    ''B...........'',
    ''............'']"

section \<open>Pixels\<close>

definition pixel_offset :: "u32 \<Rightarrow> u32 \<Rightarrow> console \<Rightarrow> u32" where
  "pixel_offset x y c = y * fb_pitch c + x * (ucast (fb_bpp c) div 8)"

definition fb_get_pixel :: "u32 \<Rightarrow> u32 \<Rightarrow> console \<Rightarrow> u32" where
  "fb_get_pixel x y c =
     (if x \<ge> fb_width c \<or> y \<ge> fb_height c \<or> fb_null c then 0
      else let off = pixel_offset x y c; b = (\<lambda>i. push_bit (8 * unat i) (ucast (fb c (off + i)) :: u32))
           in if fb_bpp c = 32 then b 0 OR b 1 OR b 2 OR b 3
              else if fb_bpp c = 24 then b 0 OR b 1 OR b 2
              else 0)"

definition fb_put_pixel :: "u32 \<Rightarrow> u32 \<Rightarrow> u32 \<Rightarrow> console \<Rightarrow> console" where
  "fb_put_pixel x y color c =
     (if x \<ge> fb_width c \<or> y \<ge> fb_height c \<or> fb_null c then c
      else let off = pixel_offset x y c; b = (\<lambda>i. ucast (drop_bit (8 * i) color) :: u8)
           in if fb_bpp c = 32 then c\<lparr>fb := (fb c)(off := b 0, off + 1 := b 1, off + 2 := b 2, off + 3 := b 3)\<rparr>
              else if fb_bpp c = 24 then c\<lparr>fb := (fb c)(off := b 0, off + 1 := b 1, off + 2 := b 2)\<rparr>
              else c)"

text \<open>\<open>for (cy = 0; cy < h; cy++) for (cx = 0; cx < w; cx++)\<close>.\<close>

definition cells :: "nat \<Rightarrow> nat \<Rightarrow> (nat \<times> nat) list" where
  "cells h w = concat (map (\<lambda>cy. map (\<lambda>cx. (cy, cx)) [0..<w]) [0..<h])"

definition fill_cell :: "u32 \<Rightarrow> u32 \<Rightarrow> nat \<Rightarrow> nat \<Rightarrow> (nat \<Rightarrow> nat \<Rightarrow> u32) \<Rightarrow> console \<Rightarrow> console" where
  "fill_cell x y row0 h color =
     fold (\<lambda>(cy, cx). fb_put_pixel (x + of_nat cx) (y + of_nat (row0 + cy)) (color (row0 + cy) cx)) (cells h 8)"

definition glyph_color :: "u8 \<Rightarrow> console \<Rightarrow> nat \<Rightarrow> nat \<Rightarrow> u32" where
  "glyph_color ch c cy cx =
     (if (font8x16 ch ! cy) AND drop_bit cx 0x80 \<noteq> 0 then fg_color c else bg_color c)"

definition fb_draw_cursor :: "bool \<Rightarrow> console \<Rightarrow> console" where
  "fb_draw_cursor visible c =
     fill_cell (cursor_x c) (cursor_y c) 14 2 (\<lambda>cy cx. if visible then fg_color c else bg_color c) c"

section \<open>Text\<close>

text \<open>\<open>dest[i] = src[i]\<close> from the bottom up, and the rows of zeros behind.\<close>

definition move_rows :: "u32 \<Rightarrow> u32 \<Rightarrow> (u32 \<Rightarrow> u8) \<Rightarrow> u32 \<Rightarrow> u8" where
  "move_rows scroll_bytes bytes_to_move m =
     fold (\<lambda>i f. f(bytes_to_move + of_nat i := 0)) [0..<unat scroll_bytes]
       (fold (\<lambda>i f. f(of_nat i := f (scroll_bytes + of_nat i))) [0..<unat bytes_to_move] m)"

definition fb_scroll :: "console \<Rightarrow> console" where
  "fb_scroll c =
     (if fb_null c then c
      else let c1 = fb_draw_cursor False c;
               scroll_bytes = fb_pitch c * 16; total_bytes = fb_pitch c * fb_height c;
               c2 = c1\<lparr>fb := move_rows scroll_bytes (total_bytes - scroll_bytes) (fb c1), cursor_y := cursor_y c1 - 16\<rparr>
           in fb_draw_cursor (cursor_is_visible c2) c2)"

definition kbackspace :: "console \<Rightarrow> console" where
  "kbackspace c =
     (let c1 = fb_draw_cursor False c;
          c2 = (if cursor_x c1 \<ge> 8 then c1\<lparr>cursor_x := cursor_x c1 - 8\<rparr>
                else if cursor_y c1 \<ge> 16 then c1\<lparr>cursor_y := cursor_y c1 - 16, cursor_x := fb_width c1 - 8\<rparr>
                else c1);
          c3 = fill_cell (cursor_x c2) (cursor_y c2) 0 16 (\<lambda>cy cx. bg_color c2) c2
      in fb_draw_cursor (cursor_is_visible c3) c3)"

definition new_line :: "console \<Rightarrow> console" where
  "new_line c = c\<lparr>cursor_x := 0, cursor_y := cursor_y c + 16\<rparr>"

definition wrap_line :: "console \<Rightarrow> console" where
  "wrap_line c = (if cursor_x c \<ge> fb_width c then new_line c else c)"

definition draw_glyph :: "u8 \<Rightarrow> console \<Rightarrow> console" where
  "draw_glyph ch c = fill_cell (cursor_x c) (cursor_y c) 0 16 (glyph_color ch c) c"

definition kput_char :: "u8 \<Rightarrow> console \<Rightarrow> console" where
  "kput_char ch c0 =
     (let c = fb_draw_cursor False c0
      in if ch = 8 then kbackspace c
         else let c1 = (if ch = 10 then new_line c
                        else if ch = 13 then c\<lparr>cursor_x := 0\<rparr>
                        else if ch = 9 then wrap_line (c\<lparr>cursor_x := (cursor_x c div 32 + 1) * 32\<rparr>)
                        else if 32 \<le> ch \<and> ch \<le> 126
                        then let d = draw_glyph ch c in wrap_line (d\<lparr>cursor_x := cursor_x d + 8\<rparr>)
                        else c);
                  c2 = (if cursor_y c1 + 16 > fb_height c1 then fb_scroll c1 else c1)
              in fb_draw_cursor True (c2\<lparr>cursor_is_visible := True, cursor_blink_counter := 0\<rparr>))"

definition kprint :: "cstr \<Rightarrow> console \<Rightarrow> console" where
  "kprint str = fold kput_char (content str)"

definition kprintln :: "cstr \<Rightarrow> console \<Rightarrow> console" where
  "kprintln str c = kput_char 10 (kprint str c)"

section \<open>The mouse pointer\<close>

text \<open>The pixel at \<open>(dx, dy)\<close> of the area that starts at \<open>(x, y)\<close>, and its place in the backup.\<close>

definition backup_index :: "nat \<Rightarrow> nat \<Rightarrow> nat" where
  "backup_index dy dx = dy * 12 + dx"

definition restore_pixel :: "u32 \<Rightarrow> u32 \<Rightarrow> nat \<times> nat \<Rightarrow> console \<Rightarrow> console option" where
  "restore_pixel x y = (\<lambda>(dy, dx) c.
     (let px = x + of_nat dx; py = y + of_nat dy
      in if px < fb_width c \<and> py < fb_height c
         then if backup_index dy dx < length (mouse_bg_backup c)
              then Some (fb_put_pixel px py (mouse_bg_backup c ! backup_index dy dx) c) else None
         else Some c))"

definition kconsole_restore_mouse_cursor :: "console \<Rightarrow> console option" where
  "kconsole_restore_mouse_cursor c =
     (if \<not> mouse_rendered c \<or> sint (mouse_saved_x c) < 0 \<or> sint (mouse_saved_y c) < 0 then Some c
      else do {
        c1 \<leftarrow> fold_opt (restore_pixel (mouse_saved_x c) (mouse_saved_y c))
                (cells (unat (mouse_saved_h c)) (unat (mouse_saved_w c))) c;
        Some (c1\<lparr>mouse_rendered := False\<rparr>)
      })"

definition save_pixel :: "u32 \<Rightarrow> u32 \<Rightarrow> nat \<times> nat \<Rightarrow> console \<Rightarrow> console option" where
  "save_pixel x y = (\<lambda>(dy, dx) c.
     (if backup_index dy dx < length (mouse_bg_backup c)
      then Some (c\<lparr>mouse_bg_backup := (mouse_bg_backup c)
        [backup_index dy dx := fb_get_pixel (x + of_nat dx) (y + of_nat dy) c]\<rparr>) else None))"

text \<open>A row of the picture ends at its terminating zero, behind 12 characters.\<close>

definition sprite_pixel :: "u32 \<Rightarrow> u32 \<Rightarrow> nat \<times> nat \<Rightarrow> console \<Rightarrow> console option" where
  "sprite_pixel x y = (\<lambda>(dy, dx) c.
     (if dy \<ge> length mouse_pointer_sprite then None
      else if dx \<ge> length (mouse_pointer_sprite ! dy) then Some c
      else let p = mouse_pointer_sprite ! dy ! dx
           in Some (if p = CHR ''B'' \<or> p = CHR ''b'' then fb_put_pixel (x + of_nat dx) (y + of_nat dy) 0 c
                    else if p = CHR ''W'' \<or> p = CHR ''w'' then fb_put_pixel (x + of_nat dx) (y + of_nat dy) 0x00FFFFFF c
                    else c)))"

definition console_locked :: "(console \<Rightarrow> console option) \<Rightarrow> console \<Rightarrow> console option" where
  "console_locked body c =
     do {
       (flags, l, e) \<leftarrow> spinlock_acquire_irq_save (console_lock c) (console_eflags c);
       d \<leftarrow> body (c\<lparr>console_lock := l, console_eflags := e\<rparr>);
       let (l', e') = spinlock_release_irq_restore (console_lock d) flags (console_eflags d);
       Some (d\<lparr>console_lock := l', console_eflags := e'\<rparr>)
     }"

definition draw_mouse_locked :: "u32 \<Rightarrow> u32 \<Rightarrow> console \<Rightarrow> console option" where
  "draw_mouse_locked x y c =
     do {
       c1 \<leftarrow> (if mouse_rendered c then kconsole_restore_mouse_cursor c else Some c);
       let w = (if sint (x + CURSOR_SPRITE_WIDTH) > sint (fb_width c1) then fb_width c1 - x else CURSOR_SPRITE_WIDTH);
       let h = (if sint (y + CURSOR_SPRITE_HEIGHT) > sint (fb_height c1) then fb_height c1 - y else CURSOR_SPRITE_HEIGHT);
       let area = cells (unat h) (unat w);
       c2 \<leftarrow> fold_opt (save_pixel x y) area c1;
       fold_opt (sprite_pixel x y) area
         (c2\<lparr>mouse_saved_x := x, mouse_saved_y := y, mouse_saved_w := w, mouse_saved_h := h, mouse_rendered := True\<rparr>)
     }"

definition kconsole_draw_mouse_cursor :: "u32 \<Rightarrow> u32 \<Rightarrow> console \<Rightarrow> console option" where
  "kconsole_draw_mouse_cursor x y c =
     (if fb_null c \<or> fb_width c = 0 \<or> fb_height c = 0 then Some c else console_locked (draw_mouse_locked x y) c)"

section \<open>The whole screen\<close>

definition clear_bytes :: "u32 \<Rightarrow> (u32 \<Rightarrow> u8) \<Rightarrow> u32 \<Rightarrow> u8" where
  "clear_bytes n m = fold (\<lambda>i f. f(of_nat i := 0)) [0..<unat n] m"

definition kclear_screen :: "console \<Rightarrow> console option" where
  "kclear_screen c =
     (if fb_null c then Some c
      else console_locked (\<lambda>c. do {
        c1 \<leftarrow> kconsole_restore_mouse_cursor c;
        Some (fb_draw_cursor True (c1\<lparr>fb := clear_bytes (fb_pitch c1 * fb_height c1) (fb c1), cursor_x := 0, cursor_y := 0,
          cursor_is_visible := True, cursor_blink_counter := 0\<rparr>))
      }) c)"

definition kscreen_initialize :: "vbe_mode_info \<Rightarrow> console \<Rightarrow> console option" where
  "kscreen_initialize v c =
     kclear_screen (c\<lparr>fb_null := (vbe_framebuffer v = 0), fb_width := ucast (vbe_width v), fb_height := ucast (vbe_height v),
       fb_pitch := ucast (vbe_pitch v), fb_bpp := vbe_bpp v\<rparr>)"

text \<open>A picture of three bytes for each pixel.\<close>

definition fb_draw_bitmap :: "u32 \<Rightarrow> u32 \<Rightarrow> u8 list \<Rightarrow> nat \<Rightarrow> nat \<Rightarrow> console \<Rightarrow> console option" where
  "fb_draw_bitmap start_x start_y bitmap width height =
     fold_opt (\<lambda>(y, x) c.
       (let off = (y * width + x) * 3
        in if off + 2 < length bitmap
           then Some (fb_put_pixel (start_x + of_nat x) (start_y + of_nat y)
             (push_bit 16 (ucast (bitmap ! off)) OR push_bit 8 (ucast (bitmap ! (off + 1))) OR ucast (bitmap ! (off + 2))) c)
           else None)) (cells height width)"

section \<open>The timer\<close>

definition SPINNER_CHARS :: "u8 list" where "SPINNER_CHARS = [124, 47, 45, 92]"

definition spin :: "bool \<Rightarrow> console \<Rightarrow> console" where
  "spin active c =
     (if active
      then let c1 = c\<lparr>spinner_counter := spinner_counter c + 1\<rparr>
           in if spinner_counter c1 \<ge> 100
              then let c2 = c1\<lparr>spinner_counter := 0, spinner_frame := (spinner_frame c1 + 1) mod 4\<rparr>;
                       sc = SPINNER_CHARS ! unat (spinner_frame c2)
                   in (fill_cell (fb_width c2 - 16) 0 0 16 (glyph_color sc c2) c2)\<lparr>was_spinner_active := True\<rparr>
              else c1
      else if was_spinner_active c
      then (fill_cell (fb_width c - 16) 0 0 16 (\<lambda>cy cx. bg_color c) c)\<lparr>was_spinner_active := False\<rparr>
      else c)"

text \<open>The foreground task wants the spinner and has been silent for 2000 ticks.\<close>

definition wants_spin :: "u32 \<Rightarrow> 'a task_state_scheme \<Rightarrow> bool" where
  "wants_spin fg s \<longleftrightarrow> fg \<noteq> 0 \<and> t_wants_spinner (task_at fg s) \<and> system_ticks s - t_last_output_tick (task_at fg s) \<ge> 2000"

definition blink :: "console \<Rightarrow> console" where
  "blink c =
     (let c1 = c\<lparr>cursor_blink_counter := cursor_blink_counter c + 1\<rparr>
      in if cursor_blink_counter c1 \<ge> 500
         then let c2 = c1\<lparr>cursor_blink_counter := 0, cursor_is_visible := \<not> cursor_is_visible c1\<rparr>
              in fb_draw_cursor (cursor_is_visible c2) c2
         else c1)"

definition kscreen_timer_tick :: "'a task_state_scheme \<Rightarrow> console \<Rightarrow> (console \<times> 'a task_state_scheme) option" where
  "kscreen_timer_tick s c =
     (if fb_width c = 0 then Some (c, s)
      else do {
        (fg_pid, s1) \<leftarrow> task_get_foreground_pid s;
        Some (spin (wants_spin (task_get_by_pid fg_pid s1) s1) (blink c), s1)
      })"

section \<open>Bytes of a pixel\<close>

text \<open>The offsets a pixel covers.\<close>

definition pixel_bytes :: "u32 \<Rightarrow> u32 \<Rightarrow> console \<Rightarrow> u32 set" where
  "pixel_bytes x y c =
     (if x \<ge> fb_width c \<or> y \<ge> fb_height c \<or> fb_null c then {}
      else (\<lambda>i. pixel_offset x y c + i) ` (if fb_bpp c = 32 then {0, 1, 2, 3} else if fb_bpp c = 24 then {0, 1, 2} else {}))"

text \<open>Two states of the console that differ at most in the picture.\<close>

definition same_frame :: "console \<Rightarrow> console \<Rightarrow> bool" where
  "same_frame c d \<longleftrightarrow> d = c\<lparr>fb := fb d\<rparr>"

lemma same_frameD:
  assumes "same_frame c d"
  shows "fb_width d = fb_width c" "fb_height d = fb_height c" "fb_pitch d = fb_pitch c" "fb_bpp d = fb_bpp c" "fb_null d = fb_null c"
    "mouse_bg_backup d = mouse_bg_backup c" "cursor_x d = cursor_x c" "cursor_y d = cursor_y c" "fg_color d = fg_color c"
    "bg_color d = bg_color c" "cursor_is_visible d = cursor_is_visible c" "pixel_bytes x y d = pixel_bytes x y c"
    "pixel_offset x y d = pixel_offset x y c"
proof -
  have d: "d = c\<lparr>fb := fb d\<rparr>" using assms by (simp add: same_frame_def)
  show "fb_width d = fb_width c" "fb_height d = fb_height c" "fb_pitch d = fb_pitch c" "fb_bpp d = fb_bpp c" "fb_null d = fb_null c"
    "mouse_bg_backup d = mouse_bg_backup c" "cursor_x d = cursor_x c" "cursor_y d = cursor_y c" "fg_color d = fg_color c"
    "bg_color d = bg_color c" "cursor_is_visible d = cursor_is_visible c"
    by (subst d, simp)+
  then show "pixel_bytes x y d = pixel_bytes x y c" "pixel_offset x y d = pixel_offset x y c"
    by (simp_all add: pixel_bytes_def pixel_offset_def)
qed

lemma same_frame_refl [simp]: "same_frame c c"
  by (simp add: same_frame_def)

lemma same_frame_trans: "same_frame c d \<Longrightarrow> same_frame d e \<Longrightarrow> same_frame c e"
  unfolding same_frame_def by (cases c; cases d; cases e) simp

lemma put_pixel_frame [simp]: "same_frame c (fb_put_pixel x y color c)"
  by (cases c) (simp add: fb_put_pixel_def same_frame_def Let_def)

lemma put_pixel_other: "a \<notin> pixel_bytes x y c \<Longrightarrow> fb (fb_put_pixel x y color c) a = fb c a"
  by (auto simp: fb_put_pixel_def pixel_bytes_def Let_def split: if_splits)

lemma byte_of_pixel:
  fixes b0 b1 b2 b3 :: u8
  defines "w \<equiv> (push_bit 0 (ucast b0) OR push_bit 8 (ucast b1) OR push_bit 16 (ucast b2) OR push_bit 24 (ucast b3)) :: u32"
  shows "(ucast (drop_bit 0 w) :: u8) = b0" "(ucast (drop_bit 8 w) :: u8) = b1" "(ucast (drop_bit 16 w) :: u8) = b2"
    "(ucast (drop_bit 24 w) :: u8) = b3"
  unfolding w_def by (rule bit_word_eqI, auto simp: bit_simps dest: bit_imp_le_length)+

lemma put_get_pixel:
  assumes "same_frame c0 c" "a \<in> pixel_bytes x y c"
  shows "fb (fb_put_pixel x y (fb_get_pixel x y c0) c) a = fb c0 a"
proof -
  note F = same_frameD [OF assms(1)]
  have v: "\<not> (x \<ge> fb_width c \<or> y \<ge> fb_height c \<or> fb_null c)" using assms(2) by (auto simp: pixel_bytes_def)
  let ?o = "pixel_offset x y c0"
  note B = byte_of_pixel [where ?b0.0 = "fb c0 ?o" and ?b1.0 = "fb c0 (?o + 1)" and ?b2.0 = "fb c0 (?o + 2)"]
  consider (a) "fb_bpp c = 32" | (b) "fb_bpp c = 24" using assms(2) v by (auto simp: pixel_bytes_def split: if_splits)
  then show ?thesis
  proof cases
    case a
    then show ?thesis using assms(2) v B [where ?b3.0 = "fb c0 (?o + 3)"] F(1-5,13)
      by (auto simp: fb_put_pixel_def fb_get_pixel_def pixel_bytes_def Let_def or.assoc)
  next
    case b
    then show ?thesis using assms(2) v B [where ?b3.0 = 0] F(1-5,13)
      by (auto simp: fb_put_pixel_def fb_get_pixel_def pixel_bytes_def Let_def or.assoc)
  qed
qed

end
