(* ===== verification/Kconsole_Pointer.thy ===== *)
theory Kconsole_Pointer
  imports Kconsole
begin

text \<open>
  The mouse pointer of the graphical console does not damage the picture: what it covers is saved before it is
  drawn and put back before it moves.
\<close>

section \<open>The three loops of the pointer\<close>

lemma cells_set [simp]: "(dy, dx) \<in> set (cells h w) \<longleftrightarrow> dy < h \<and> dx < w"
  by (force simp: cells_def)

definition area_bytes :: "u32 \<Rightarrow> u32 \<Rightarrow> (nat \<times> nat) list \<Rightarrow> console \<Rightarrow> u32 set" where
  "area_bytes x y ps c = (\<Union>(dy, dx) \<in> set ps. pixel_bytes (x + of_nat dx) (y + of_nat dy) c)"

lemma area_bytes_frame: "same_frame c d \<Longrightarrow> area_bytes x y ps d = area_bytes x y ps c"
  unfolding area_bytes_def by (simp add: same_frameD(12))

lemma get_pixel_frame: "fb_get_pixel x y (c\<lparr>mouse_bg_backup := b\<rparr>) = fb_get_pixel x y c"
  by (simp add: fb_get_pixel_def pixel_offset_def Let_def)

lemma save_area:
  assumes "\<forall>(dy, dx) \<in> set ps. dx < 12 \<and> dy < 19" "length b0 = 228"
  shows "\<exists>b. fold_opt (save_pixel x y) ps (c\<lparr>mouse_bg_backup := b0\<rparr>) = Some (c\<lparr>mouse_bg_backup := b\<rparr>) \<and> length b = 228 \<and>
    (\<forall>i. b ! i \<noteq> b0 ! i \<longrightarrow> b ! i = fb_get_pixel (x + of_nat (i mod 12)) (y + of_nat (i div 12)) c) \<and>
    (\<forall>(dy, dx) \<in> set ps. b ! backup_index dy dx = fb_get_pixel (x + of_nat dx) (y + of_nat dy) c)"
  using assms
proof (induction ps arbitrary: b0)
  case Nil
  then show ?case by (intro exI [of _ b0]) simp
next
  case (Cons p ps)
  obtain dy dx where p: "p = (dy, dx)" by (cases p)
  let ?v = "fb_get_pixel (x + of_nat dx) (y + of_nat dy) c" and ?i = "backup_index dy dx"
  have d: "dx < 12" "dy < 19" using Cons.prems(1) p by auto
  have i: "?i < 228" "?i mod 12 = dx" "?i div 12 = dy" using d by (simp_all add: backup_index_def)
  obtain b where b: "fold_opt (save_pixel x y) ps (c\<lparr>mouse_bg_backup := b0[?i := ?v]\<rparr>) = Some (c\<lparr>mouse_bg_backup := b\<rparr>)"
    "length b = 228" "\<forall>j. b ! j \<noteq> b0[?i := ?v] ! j \<longrightarrow> b ! j = fb_get_pixel (x + of_nat (j mod 12)) (y + of_nat (j div 12)) c"
    "\<forall>(dy, dx) \<in> set ps. b ! backup_index dy dx = fb_get_pixel (x + of_nat dx) (y + of_nat dy) c"
    using Cons.IH [of "b0[?i := ?v]"] Cons.prems by auto
  have v: "b ! ?i = ?v" using b(3) [rule_format, of ?i] i Cons.prems(2) by auto
  have "save_pixel x y p (c\<lparr>mouse_bg_backup := b0\<rparr>) = Some (c\<lparr>mouse_bg_backup := b0[?i := ?v]\<rparr>)"
    using i Cons.prems(2) by (simp add: save_pixel_def p get_pixel_frame)
  moreover have "\<forall>j. b ! j \<noteq> b0 ! j \<longrightarrow> b ! j = fb_get_pixel (x + of_nat (j mod 12)) (y + of_nat (j div 12)) c"
  proof (intro allI impI)
    fix j assume "b ! j \<noteq> b0 ! j"
    then show "b ! j = fb_get_pixel (x + of_nat (j mod 12)) (y + of_nat (j div 12)) c"
      using b(3) [rule_format, of j] v i by (cases "j = ?i") auto
  qed
  ultimately show ?case using b(1,2,4) v p by (intro exI [of _ b]) auto
qed

lemma sprite_area:
  assumes "\<forall>(dy, dx) \<in> set ps. dy < 19"
  shows "\<exists>d. fold_opt (sprite_pixel x y) ps c = Some d \<and> same_frame c d \<and> (\<forall>a. a \<notin> area_bytes x y ps c \<longrightarrow> fb d a = fb c a)"
  using assms
proof (induction ps arbitrary: c)
  case Nil
  then show ?case by simp
next
  case (Cons p ps)
  obtain dy dx where p: "p = (dy, dx)" by (cases p)
  have "dy < length mouse_pointer_sprite" using Cons.prems p by (simp add: mouse_pointer_sprite_def)
  then have "\<exists>c'. sprite_pixel x y p c = Some c' \<and> (c' = c \<or> (\<exists>col. c' = fb_put_pixel (x + of_nat dx) (y + of_nat dy) col c))"
    by (simp add: sprite_pixel_def p Let_def) blast
  then obtain c' where c': "sprite_pixel x y p c = Some c'" "c' = c \<or> (\<exists>col. c' = fb_put_pixel (x + of_nat dx) (y + of_nat dy) col c)"
    by blast
  then have f: "same_frame c c'" by auto
  obtain d where d: "fold_opt (sprite_pixel x y) ps c' = Some d" "same_frame c' d"
    "\<forall>a. a \<notin> area_bytes x y ps c' \<longrightarrow> fb d a = fb c' a"
    using Cons.IH [of c'] Cons.prems by (meson list.set_intros(2))
  have "fb d a = fb c a" if "a \<notin> area_bytes x y (p # ps) c" for a
  proof -
    have "a \<notin> area_bytes x y ps c'" "a \<notin> pixel_bytes (x + of_nat dx) (y + of_nat dy) c"
      using that unfolding area_bytes_frame [OF f] by (auto simp: area_bytes_def p)
    then show ?thesis using d(3) c'(2) put_pixel_other by auto
  qed
  then show ?case using c'(1) d same_frame_trans [OF f d(2)] by auto
qed

text \<open>\<open>c0\<close> is the state the backup was made in.\<close>

lemma restore_area:
  assumes "same_frame c0 c" "\<forall>(dy, dx) \<in> set ps. backup_index dy dx < length (mouse_bg_backup c)"
    and "\<forall>(dy, dx) \<in> set ps. mouse_bg_backup c ! backup_index dy dx = fb_get_pixel (x + of_nat dx) (y + of_nat dy) c0"
  shows "\<exists>d. fold_opt (restore_pixel x y) ps c = Some d \<and> same_frame c d \<and>
    (\<forall>a. fb d a = (if a \<in> area_bytes x y ps c then fb c0 a else fb c a))"
  using assms
proof (induction ps arbitrary: c)
  case Nil
  then show ?case by (simp add: area_bytes_def)
next
  case (Cons p ps)
  obtain dy dx where p: "p = (dy, dx)" by (cases p)
  let ?x = "x + of_nat dx" and ?y = "y + of_nat dy"
  let ?c = "fb_put_pixel ?x ?y (fb_get_pixel ?x ?y c0) c"
  note F = same_frameD [OF put_pixel_frame [of c ?x ?y "fb_get_pixel ?x ?y c0"]]
  have "?c = c" if "\<not> (?x < fb_width c \<and> ?y < fb_height c)" using that by (auto simp: fb_put_pixel_def)
  then have s: "restore_pixel x y p c = Some ?c"
    using Cons.prems(2,3) by (auto simp: restore_pixel_def p Let_def)
  have b: "fb ?c a = (if a \<in> pixel_bytes ?x ?y c then fb c0 a else fb c a)" for a
    using put_get_pixel [OF Cons.prems(1)] put_pixel_other by simp
  obtain d where d: "fold_opt (restore_pixel x y) ps ?c = Some d" "same_frame ?c d"
    "\<forall>a. fb d a = (if a \<in> area_bytes x y ps ?c then fb c0 a else fb ?c a)"
  proof -
    have 1: "\<forall>(dy, dx) \<in> set ps. backup_index dy dx < length (mouse_bg_backup ?c)" using Cons.prems(2) unfolding F(6) by simp
    have 2: "\<forall>(dy, dx) \<in> set ps. mouse_bg_backup ?c ! backup_index dy dx = fb_get_pixel (x + of_nat dx) (y + of_nat dy) c0"
      using Cons.prems(3) unfolding F(6) by simp
    show thesis using Cons.IH [OF same_frame_trans [OF Cons.prems(1) put_pixel_frame] 1 2] that by blast
  qed
  have "area_bytes x y (p # ps) c = pixel_bytes ?x ?y c \<union> area_bytes x y ps ?c"
    unfolding area_bytes_frame [OF put_pixel_frame] by (simp add: area_bytes_def p)
  then have "\<forall>a. fb d a = (if a \<in> area_bytes x y (p # ps) c then fb c0 a else fb c a)" using d(3) b by auto
  then show ?case using s d(1) same_frame_trans [OF put_pixel_frame d(2)] by auto
qed

section \<open>Drawing and restoring\<close>

definition pointer_ok :: "console \<Rightarrow> bool" where
  "pointer_ok c \<longleftrightarrow> \<not> fb_null c \<and> unat (fb_width c) < 65536 \<and> unat (fb_height c) < 65536 \<and> console_lock c = 0 \<and>
     length (mouse_bg_backup c) = 228 \<and>
     (mouse_rendered c \<longrightarrow> 0 \<le> sint (mouse_saved_x c) \<and> 0 \<le> sint (mouse_saved_y c) \<and>
        unat (mouse_saved_w c) \<le> 12 \<and> unat (mouse_saved_h c) \<le> 19)"

text \<open>The picture without the pointer.\<close>

definition under_pointer :: "console \<Rightarrow> u32 \<Rightarrow> u8" where
  "under_pointer c = (case kconsole_restore_mouse_cursor c of Some d \<Rightarrow> fb d | None \<Rightarrow> fb c)"

lemma saved_area:
  assumes "h \<le> 19" "w \<le> 12"
  shows "\<forall>(dy, dx) \<in> set (cells h w). dx < 12 \<and> dy < 19" "\<forall>(dy, dx) \<in> set (cells h w). backup_index dy dx < 228"
proof -
  show s: "\<forall>(dy, dx) \<in> set (cells h w). dx < 12 \<and> dy < 19" using assms by auto
  have "backup_index dy dx < 228" if "dx < 12" "dy < 19" for dy dx using that by (simp add: backup_index_def)
  then show "\<forall>(dy, dx) \<in> set (cells h w). backup_index dy dx < 228" using s by auto
qed

lemma restore_returns:
  assumes "pointer_ok c"
  shows "\<exists>m. kconsole_restore_mouse_cursor c = Some (c\<lparr>fb := m, mouse_rendered := False\<rparr>)"
proof (cases "mouse_rendered c")
  case False
  then show ?thesis unfolding kconsole_restore_mouse_cursor_def by (intro exI [of _ "fb c"]) simp
next
  case True
  let ?g = "\<lambda>(dy, dx). fb_put_pixel (mouse_saved_x c + of_nat dx) (mouse_saved_y c + of_nat dy) (mouse_bg_backup c ! backup_index dy dx)"
  let ?a = "cells (unat (mouse_saved_h c)) (unat (mouse_saved_w c))"
  note ok = assms [unfolded pointer_ok_def]
  have "\<exists>d. fold_opt (restore_pixel x y) ps d0 = Some d \<and> same_frame d0 d"
    if "\<forall>(dy, dx) \<in> set ps. backup_index dy dx < 228" "length (mouse_bg_backup d0) = 228" for ps x y d0
    using that
  proof (induction ps arbitrary: d0)
    case (Cons p ps)
    obtain dy dx where p: "p = (dy, dx)" by (cases p)
    have "backup_index dy dx < length (mouse_bg_backup d0)" using Cons.prems p by auto
    then have "\<exists>d1. restore_pixel x y p d0 = Some d1 \<and> same_frame d0 d1" by (simp add: restore_pixel_def p Let_def)
    then obtain d1 where d1: "restore_pixel x y p d0 = Some d1" "same_frame d0 d1" by blast
    show ?case
      using Cons.IH [of d1] Cons.prems d1 same_frameD(6) [OF d1(2)] same_frame_trans [OF d1(2)] by auto
  qed simp
  from this [of ?a c "mouse_saved_x c" "mouse_saved_y c"] obtain d where
    d: "fold_opt (restore_pixel (mouse_saved_x c) (mouse_saved_y c)) ?a c = Some d" "same_frame c d"
    using saved_area(2) ok True by auto
  have "d = c\<lparr>fb := fb d\<rparr>" using d(2) by (simp add: same_frame_def)
  then have "d\<lparr>mouse_rendered := False\<rparr> = c\<lparr>fb := fb d, mouse_rendered := False\<rparr>" by (metis console.update_convs(5,18))
  then show ?thesis using d(1) ok True unfolding kconsole_restore_mouse_cursor_def by auto
qed

lemma drawn_area:
  assumes "unat x < unat (W :: u32)" "unat W < 65536" "0 < n" "n < 65536"
    and "w = (if sint (x + of_nat n) > sint W then W - x else of_nat n)"
  shows "unat w \<le> n" "0 \<le> sint x"
proof -
  have s: "unat (x + of_nat n) = unat x + n"
  proof -
    have "unat (of_nat n :: u32) = n" using assms(4) by (intro unat_of_nat_small) simp
    then show ?thesis using assms(1,2,4) by (subst unat_add_no_wrap) simp_all
  qed
  have i: "sint (x + of_nat n) = int (unat (x + of_nat n))" "sint W = int (unat W)" "sint x = int (unat x)"
    using assms s by (intro sint_small; simp)+
  show "0 \<le> sint x" unfolding i(3) by simp
  have "sint (x + of_nat n) > sint W \<longleftrightarrow> unat W < unat x + n"
    unfolding i(1,2) s by (simp only: of_nat_less_iff)
  moreover have "unat (W - x) = unat W - unat x" "unat (of_nat n :: u32) = n"
    using assms(1,4) by (simp_all add: unat_sub_le unat_of_nat_small)
  ultimately show "unat w \<le> n" unfolding assms(5) by (simp only: if_distrib [of unat]) auto
qed

text \<open>A state the pointer code does not look at.\<close>

lemma restore_lock:
  "kconsole_restore_mouse_cursor (c\<lparr>console_lock := l, console_eflags := e\<rparr>) =
    map_option (\<lambda>d. d\<lparr>console_lock := l, console_eflags := e\<rparr>) (kconsole_restore_mouse_cursor c)"
proof -
  have step: "restore_pixel x y p (d\<lparr>console_lock := l, console_eflags := e\<rparr>) =
      map_option (\<lambda>d. d\<lparr>console_lock := l, console_eflags := e\<rparr>) (restore_pixel x y p d)" for x y p d
    by (cases p) (simp add: restore_pixel_def fb_put_pixel_def pixel_offset_def Let_def)
  have "fold_opt (restore_pixel x y) ps (d\<lparr>console_lock := l, console_eflags := e\<rparr>) =
      map_option (\<lambda>d. d\<lparr>console_lock := l, console_eflags := e\<rparr>) (fold_opt (restore_pixel x y) ps d)" for x y ps d
  proof (induction ps arbitrary: d)
    case (Cons p ps)
    then show ?case by (cases "restore_pixel x y p d") (simp_all add: step)
  qed simp
  then show ?thesis
    by (simp add: kconsole_restore_mouse_cursor_def) (simp add: map_option_case option.case_distrib Option.bind_def split: option.split)
qed

lemma under_pointer_lock: "under_pointer (c\<lparr>console_lock := l, console_eflags := e\<rparr>) = under_pointer c"
  unfolding under_pointer_def restore_lock by (simp split: option.split)

lemma draw_locked:
  assumes "pointer_ok c" "unat x < unat (fb_width c)" "unat y < unat (fb_height c)"
  shows "\<exists>d. draw_mouse_locked x y (c\<lparr>console_lock := l, console_eflags := e\<rparr>) = Some d \<and> pointer_ok (d\<lparr>console_lock := 0, console_eflags := e'\<rparr>) \<and>
    console_lock d = l \<and> console_eflags d = e \<and> under_pointer d = under_pointer c \<and> fb_width d = fb_width c \<and> fb_height d = fb_height c"
proof -
  let ?c = "c\<lparr>console_lock := l, console_eflags := e\<rparr>"
  note ok = assms(1) [unfolded pointer_ok_def]
  obtain m where m: "kconsole_restore_mouse_cursor c = Some (c\<lparr>fb := m, mouse_rendered := False\<rparr>)"
    using restore_returns [OF assms(1)] by blast
  then have um: "under_pointer c = m" by (simp add: under_pointer_def)
  define c1 where "c1 = ?c\<lparr>fb := m, mouse_rendered := False\<rparr>"
  have c1: "(if mouse_rendered ?c then kconsole_restore_mouse_cursor ?c else Some ?c) = Some c1"
  proof (cases "mouse_rendered c")
    case True
    then show ?thesis unfolding restore_lock m c1_def by simp
  next
    case False
    then have "m = fb c" using m by (cases c) (simp add: kconsole_restore_mouse_cursor_def)
    then show ?thesis using False by (cases c) (simp add: c1_def)
  qed
  define w where "w = (if sint (x + CURSOR_SPRITE_WIDTH) > sint (fb_width c1) then fb_width c1 - x else CURSOR_SPRITE_WIDTH)"
  define h where "h = (if sint (y + CURSOR_SPRITE_HEIGHT) > sint (fb_height c1) then fb_height c1 - y else CURSOR_SPRITE_HEIGHT)"
  have dims: "fb_width c1 = fb_width c" "fb_height c1 = fb_height c" by (simp_all add: c1_def)
  have "w = (if sint (x + of_nat 12) > sint (fb_width c) then fb_width c - x else of_nat 12)"
    unfolding w_def dims CURSOR_SPRITE_WIDTH_def by simp
  from drawn_area [OF assms(2) _ _ _ this] have w: "unat w \<le> 12" "0 \<le> sint x" using ok by simp_all
  have "h = (if sint (y + of_nat 19) > sint (fb_height c) then fb_height c - y else of_nat 19)"
    unfolding h_def dims CURSOR_SPRITE_HEIGHT_def by simp
  from drawn_area [OF assms(3) _ _ _ this] have h: "unat h \<le> 19" "0 \<le> sint y" using ok by simp_all
  let ?a = "cells (unat h) (unat w)"
  note A = saved_area [OF h(1) w(1)]
  have l1: "length (mouse_bg_backup c1) = 228" using ok by (simp add: c1_def)
  obtain b where b: "fold_opt (save_pixel x y) ?a (c1\<lparr>mouse_bg_backup := mouse_bg_backup c1\<rparr>) = Some (c1\<lparr>mouse_bg_backup := b\<rparr>)"
    "length b = 228" "\<forall>(dy, dx) \<in> set ?a. b ! backup_index dy dx = fb_get_pixel (x + of_nat dx) (y + of_nat dy) c1"
    using save_area [OF A(1) l1, of x y c1] by blast
  define c3 where "c3 = c1\<lparr>mouse_bg_backup := b, mouse_saved_x := x, mouse_saved_y := y, mouse_saved_w := w, mouse_saved_h := h,
    mouse_rendered := True\<rparr>"
  have "\<forall>(dy, dx) \<in> set ?a. dy < 19" using A(1) by auto
  from sprite_area [OF this, of x y c3] obtain d where d: "fold_opt (sprite_pixel x y) ?a c3 = Some d" "same_frame c3 d"
    "\<forall>a. a \<notin> area_bytes x y ?a c3 \<longrightarrow> fb d a = fb c3 a" by blast
  have dc: "d = c3\<lparr>fb := fb d\<rparr>" using d(2) by (simp add: same_frame_def)
  have run: "draw_mouse_locked x y ?c = Some d"
    unfolding draw_mouse_locked_def c1 using b(1) d(1) by (simp add: w_def [symmetric] h_def [symmetric] c3_def Let_def)
  have g: "fb_get_pixel px py c3 = fb_get_pixel px py c1" for px py by (simp add: c3_def fb_get_pixel_def pixel_offset_def Let_def)
  have bd: "mouse_bg_backup d = b" using same_frameD(6) [OF d(2)] by (simp add: c3_def)
  obtain r where r: "fold_opt (restore_pixel x y) ?a d = Some r" "same_frame d r"
    "\<forall>a. fb r a = (if a \<in> area_bytes x y ?a d then fb c3 a else fb d a)"
    using restore_area [OF d(2), of ?a x y] A(2) b(2,3) unfolding bd g by auto
  have "fb r = m"
    using r(3) d(3) unfolding area_bytes_frame [OF d(2)] by (auto simp: c3_def c1_def)
  moreover have "mouse_rendered d" "mouse_saved_x d = x" "mouse_saved_y d = y" "mouse_saved_w d = w" "mouse_saved_h d = h"
    by (subst dc, simp add: c3_def)+
  ultimately have "under_pointer d = m"
    using r(1) w(2) h(2) by (simp add: under_pointer_def kconsole_restore_mouse_cursor_def)
  moreover have "pointer_ok (d\<lparr>console_lock := 0, console_eflags := e'\<rparr>)"
    by (subst dc, insert ok b(2) w h) (simp add: pointer_ok_def c3_def c1_def)
  moreover have "console_lock d = l \<and> console_eflags d = e \<and> fb_width d = fb_width c \<and> fb_height d = fb_height c"
    by (subst (1 2 3 4) dc) (simp add: c3_def c1_def)
  ultimately show ?thesis using run um by (intro exI [of _ d]) simp
qed

lemma draw_mouse_cursor:
  assumes "pointer_ok c" "unat x < unat (fb_width c)" "unat y < unat (fb_height c)"
  shows "\<exists>d. kconsole_draw_mouse_cursor x y c = Some d \<and> pointer_ok d \<and> under_pointer d = under_pointer c \<and>
    fb_width d = fb_width c \<and> fb_height d = fb_height c"
proof -
  let ?e = "disable_interrupts (console_eflags c)"
  obtain d where d: "draw_mouse_locked x y (c\<lparr>console_lock := 1, console_eflags := ?e\<rparr>) = Some d"
    "pointer_ok (d\<lparr>console_lock := 0, console_eflags := console_eflags c\<rparr>)" "console_lock d = 1" "console_eflags d = ?e"
    "under_pointer d = under_pointer c" "fb_width d = fb_width c" "fb_height d = fb_height c"
    using draw_locked [OF assms, where l = 1 and e = ?e and e' = "console_eflags c"] by blast
  have v: "\<not> (fb_null c \<or> fb_width c = 0 \<or> fb_height c = 0)" "console_lock c = 0"
    using assms by (auto simp: pointer_ok_def)
  have "kconsole_draw_mouse_cursor x y c = Some (d\<lparr>console_lock := 0, console_eflags := console_eflags c\<rparr>)"
    using d v(2) unfolding kconsole_draw_mouse_cursor_def if_not_P [OF v(1)] console_locked_def
    by (simp add: lock_defs)
  then show ?thesis using d(2,5-7) by (simp add: under_pointer_lock)
qed

text \<open>C35: The mouse pointer leaves no trace. However often it is drawn on the screen, at whatever positions, taking it
  away gives the picture that taking it away at the start would have given, byte for byte of the frame buffer; the
  calls return and never write behind the saved picture.\<close>

theorem pointer_keeps_picture:
  assumes "pointer_ok c" "\<forall>(x, y) \<in> set ps. unat x < unat (fb_width c) \<and> unat y < unat (fb_height c)"
  shows "\<exists>d e e'. fold_opt (\<lambda>(x, y). kconsole_draw_mouse_cursor x y) ps c = Some d \<and>
    kconsole_restore_mouse_cursor c = Some e \<and> kconsole_restore_mouse_cursor d = Some e' \<and> fb e' = fb e"
proof -
  have "\<exists>d. fold_opt (\<lambda>(x, y). kconsole_draw_mouse_cursor x y) ps c = Some d \<and> pointer_ok d \<and> under_pointer d = under_pointer c"
    using assms
  proof (induction ps arbitrary: c)
    case (Cons p ps)
    obtain x y where p: "p = (x, y)" by (cases p)
    obtain d where d: "kconsole_draw_mouse_cursor x y c = Some d" "pointer_ok d" "under_pointer d = under_pointer c"
      "fb_width d = fb_width c" "fb_height d = fb_height c"
      using draw_mouse_cursor [OF Cons.prems(1), of x y] Cons.prems(2) p by auto
    then show ?case using Cons.IH [OF d(2)] Cons.prems(2) p by auto
  qed simp
  then obtain d where d: "fold_opt (\<lambda>(x, y). kconsole_draw_mouse_cursor x y) ps c = Some d" "pointer_ok d"
    "under_pointer d = under_pointer c" by blast
  with restore_returns [OF assms(1)] restore_returns [OF d(2)] show ?thesis by (fastforce simp: under_pointer_def)
qed

text \<open>A screen of 16 by 16 pixels of three bytes.\<close>

definition sample_console :: console where
  "sample_console = \<lparr>cursor_x = 0, cursor_y = 0, fg_color = 0xFFFFFFFF, bg_color = 0, fb = (\<lambda>a. ucast a), fb_null = False, fb_width = 16,
     fb_height = 16, fb_pitch = 48, fb_bpp = 24, cursor_blink_counter = 0, cursor_is_visible = True, mouse_bg_backup = replicate 228 0,
     mouse_saved_x = - 1, mouse_saved_y = - 1, mouse_saved_w = 0, mouse_saved_h = 0, mouse_rendered = False, console_lock = 0,
     console_eflags = 0, spinner_counter = 0, spinner_frame = 0, was_spinner_active = False\<rparr>"

theorem pointer_keeps_picture_witness:
  "\<exists>d e'. fold_opt (\<lambda>(x, y). kconsole_draw_mouse_cursor x y) [(3, 2), (15, 15)] sample_console = Some d \<and>
    kconsole_restore_mouse_cursor d = Some e' \<and> fb e' = fb sample_console"
proof -
  have "pointer_ok sample_console" by (simp add: pointer_ok_def sample_console_def)
  moreover have "kconsole_restore_mouse_cursor sample_console = Some sample_console"
    by (simp add: kconsole_restore_mouse_cursor_def sample_console_def)
  ultimately show ?thesis
    using pointer_keeps_picture [of sample_console "[(3, 2), (15, 15)]"] by (auto simp: sample_console_def)
qed

end
