(* ===== verification/Kconsole_Text.thy ===== *)
theory Kconsole_Text
  imports Kconsole
begin

text \<open>
  The graphical console is a text terminal: a screen of characters with a cursor, on which a character is put,
  the line wraps and the screen scrolls. \<open>displays\<close> says that the frame buffer shows such a screen, pixel for pixel, and
  every character given to \<open>kput_char\<close> keeps the two in step.
\<close>

section \<open>Pixels as a map\<close>

definition norm_color :: "console \<Rightarrow> u32 \<Rightarrow> u32" where
  "norm_color c col = (if fb_bpp c = 32 then col else take_bit 24 col)"

definition pix :: "console \<Rightarrow> nat \<Rightarrow> nat \<Rightarrow> u32" where
  "pix c X Y = fb_get_pixel (of_nat X) (of_nat Y) c"

definition text_rows :: "console \<Rightarrow> nat" where "text_rows c = unat (fb_height c) div 16"
definition text_cols :: "console \<Rightarrow> nat" where "text_cols c = unat (fb_width c) div 8"

definition screen_ok :: "console \<Rightarrow> bool" where
  "screen_ok c \<longleftrightarrow> \<not> fb_null c \<and> fb_bpp c \<in> {24, 32} \<and> unat (fb_width c) mod 8 = 0 \<and> 8 \<le> unat (fb_width c) \<and>
     16 \<le> unat (fb_height c) \<and> unat (fb_width c) < 65536 \<and> unat (fb_height c) < 65536 \<and>
     unat (fb_width c) * (unat (fb_bpp c) div 8) \<le> unat (fb_pitch c) \<and> unat (fb_pitch c) * unat (fb_height c) < 2 ^ 32 \<and>
     norm_color c (bg_color c) = 0"

lemma screen_ok_frame: "same_frame c d \<Longrightarrow> screen_ok d = screen_ok c"
  by (simp add: screen_ok_def norm_color_def same_frameD)

lemma pix_fields [simp]:
  "pix (c\<lparr>cursor_x := a\<rparr>) = pix c" "pix (c\<lparr>cursor_y := a\<rparr>) = pix c" "pix (c\<lparr>cursor_is_visible := v\<rparr>) = pix c"
  "pix (c\<lparr>cursor_blink_counter := a\<rparr>) = pix c"
  by (simp_all add: fun_eq_iff pix_def fb_get_pixel_def pixel_offset_def Let_def)

lemma pixel_place_unique:
  assumes "(y :: nat) * p + (x * b + i) = Y * p + (X * b + j)" "x * b + i < p" "X * b + j < p" "i < b" "j < b"
  shows "x = X" "y = Y" "i = j"
proof -
  have "p \<noteq> 0" "b \<noteq> 0" using assms(2,4) by auto
  then have "(y * p + (x * b + i)) div p = y" "(Y * p + (X * b + j)) div p = Y" using assms(2,3) by simp_all
  then show y: "y = Y" using assms(1) by simp
  then have e: "x * b + i = X * b + j" using assms(1) by simp
  have "(x * b + i) div b = x" "(X * b + j) div b = X" using assms(4,5) \<open>b \<noteq> 0\<close> by simp_all
  then show "x = X" using e by simp
  then show "i = j" using e by simp
qed

lemma unat_pixel_byte:
  assumes "screen_ok c" "unat x < unat (fb_width c)" "unat y < unat (fb_height c)" "i < unat (fb_bpp c) div 8"
  shows "unat (pixel_offset x y c + of_nat i) = unat y * unat (fb_pitch c) + (unat x * (unat (fb_bpp c) div 8) + i)"
    "unat x * (unat (fb_bpp c) div 8) + i < unat (fb_pitch c)"
proof -
  let ?b = "unat (fb_bpp c) div 8"
  note ok = assms(1) [unfolded screen_ok_def]
  have b: "unat (ucast (fb_bpp c) div 8 :: u32) = ?b" by (simp add: unat_div unat_ucast_wide)
  have "(unat x + 1) * ?b \<le> unat (fb_width c) * ?b" using assms(2) by (intro mult_le_mono1) simp
  then show row: "unat x * ?b + i < unat (fb_pitch c)" using assms(4) ok by (simp only: add_mult_distrib) linarith
  have "(unat y + 1) * unat (fb_pitch c) \<le> unat (fb_pitch c) * unat (fb_height c)"
    using assms(3) by (simp only: mult.commute [of "unat (fb_pitch c)"]) (intro mult_le_mono1, simp)
  then have tot: "unat y * unat (fb_pitch c) + (unat x * ?b + i) < 2 ^ 32"
    using row ok by (simp only: add_mult_distrib) linarith
  have "unat (y * fb_pitch c) = unat y * unat (fb_pitch c)" "unat (x * (ucast (fb_bpp c) div 8)) = unat x * ?b"
    using tot b by (simp_all add: unat_word_ariths)
  then show "unat (pixel_offset x y c + of_nat i) = unat y * unat (fb_pitch c) + (unat x * ?b + i)"
    using tot by (simp add: pixel_offset_def unat_word_ariths unat_of_nat)
qed

text \<open>A pixel that is put reads back, and no other pixel changes.\<close>

lemma word_of_bytes:
  fixes w :: u32
  shows "push_bit 0 (ucast (ucast (drop_bit 0 w) :: u8)) OR push_bit 8 (ucast (ucast (drop_bit 8 w) :: u8)) OR
      push_bit 16 (ucast (ucast (drop_bit 16 w) :: u8)) OR push_bit 24 (ucast (ucast (drop_bit 24 w) :: u8)) = w"
    "push_bit 0 (ucast (ucast (drop_bit 0 w) :: u8)) OR push_bit 8 (ucast (ucast (drop_bit 8 w) :: u8)) OR
      push_bit 16 (ucast (ucast (drop_bit 16 w) :: u8)) = take_bit 24 w"
proof -
  have byte: "bit (push_bit k (ucast (ucast (drop_bit k w) :: u8)) :: u32) n \<longleftrightarrow> k \<le> n \<and> n < k + 8 \<and> n < 32 \<and> bit w n" for k n
    by (auto simp: bit_simps dest: bit_imp_le_length)
  have "n < 32 \<Longrightarrow> (0 \<le> n \<and> n < 8) \<or> (8 \<le> n \<and> n < 16) \<or> (16 \<le> n \<and> n < 24) \<or> (24 \<le> n \<and> n < 32)" for n :: nat by linarith
  then show "push_bit 0 (ucast (ucast (drop_bit 0 w) :: u8)) OR push_bit 8 (ucast (ucast (drop_bit 8 w) :: u8)) OR
      push_bit 16 (ucast (ucast (drop_bit 16 w) :: u8)) OR push_bit 24 (ucast (ucast (drop_bit 24 w) :: u8)) = w"
    by (intro bit_word_eqI) (auto simp: byte bit_or_iff simp del: push_bit_0_id drop_bit_0)
  show "push_bit 0 (ucast (ucast (drop_bit 0 w) :: u8)) OR push_bit 8 (ucast (ucast (drop_bit 8 w) :: u8)) OR
      push_bit 16 (ucast (ucast (drop_bit 16 w) :: u8)) = take_bit 24 w"
    by (intro bit_word_eqI) (auto simp: byte bit_or_iff bit_take_bit_iff simp del: push_bit_0_id drop_bit_0 dest: bit_imp_le_length)
qed

definition pixel_byte :: "console \<Rightarrow> nat \<Rightarrow> nat \<Rightarrow> nat \<Rightarrow> u8" where
  "pixel_byte c X Y i = fb c (pixel_offset (of_nat X) (of_nat Y) c + of_nat i)"

lemma pix_bytes:
  assumes "screen_ok c" "X < unat (fb_width c)" "Y < unat (fb_height c)"
  shows "pix c X Y =
    (if fb_bpp c = 32
     then push_bit 0 (ucast (pixel_byte c X Y 0)) OR push_bit 8 (ucast (pixel_byte c X Y 1)) OR
       push_bit 16 (ucast (pixel_byte c X Y 2)) OR push_bit 24 (ucast (pixel_byte c X Y 3))
     else push_bit 0 (ucast (pixel_byte c X Y 0)) OR push_bit 8 (ucast (pixel_byte c X Y 1)) OR
       push_bit 16 (ucast (pixel_byte c X Y 2)))"
proof -
  note ok = assms(1) [unfolded screen_ok_def]
  have "unat (of_nat X :: u32) = X" "unat (of_nat Y :: u32) = Y" using assms ok by (intro unat_of_nat_small; simp)+
  then have "\<not> (of_nat X \<ge> fb_width c \<or> of_nat Y \<ge> fb_height c \<or> fb_null c)"
    using assms ok by (simp add: word_le_nat_alt not_le)
  then show ?thesis using ok by (auto simp: pix_def fb_get_pixel_def pixel_byte_def Let_def or.assoc)
qed

lemma put_pixel_byte:
  assumes "screen_ok c" "X < unat (fb_width c)" "Y < unat (fb_height c)" "i < unat (fb_bpp c) div 8"
  shows "pixel_byte (fb_put_pixel x y col c) X Y i =
    (if unat x = X \<and> unat y = Y then ucast (drop_bit (8 * i) col) else pixel_byte c X Y i)"
proof (cases "unat x < unat (fb_width c) \<and> unat y < unat (fb_height c)")
  case False
  then have "fb_put_pixel x y col c = c" by (auto simp: fb_put_pixel_def word_le_nat_alt not_less)
  then show ?thesis using False assms by auto
next
  case True
  note ok = assms(1) [unfolded screen_ok_def]
  let ?b = "unat (fb_bpp c) div 8" and ?p = "unat (fb_pitch c)"
  have xy: "unat (of_nat X :: u32) = X" "unat (of_nat Y :: u32) = Y" using assms ok by (intro unat_of_nat_small; simp)+
  have same: "pixel_offset (of_nat X) (of_nat Y) c + of_nat i = pixel_offset x y c + of_nat j \<longleftrightarrow> unat x = X \<and> unat y = Y \<and> i = j"
    if j: "j < ?b" for j
  proof -
    note A = unat_pixel_byte [OF assms(1) _ _ assms(4), of "of_nat X" "of_nat Y", unfolded xy, OF assms(2,3)]
    note B = unat_pixel_byte [OF assms(1) conjunct1 [OF True] conjunct2 [OF True] j]
    have "pixel_offset (of_nat X) (of_nat Y) c + of_nat i = pixel_offset x y c + of_nat j \<longleftrightarrow>
        Y * ?p + (X * ?b + i) = unat y * ?p + (unat x * ?b + j)"
      unfolding word_unat_eq_iff A(1) B(1) ..
    also have "\<dots> \<longleftrightarrow> unat x = X \<and> unat y = Y \<and> i = j"
    proof
      assume "Y * ?p + (X * ?b + i) = unat y * ?p + (unat x * ?b + j)"
      from pixel_place_unique [OF this A(2) B(2) assms(4) j] show "unat x = X \<and> unat y = Y \<and> i = j" by simp
    qed simp
    finally show ?thesis .
  qed
  have v: "\<not> (x \<ge> fb_width c \<or> y \<ge> fb_height c \<or> fb_null c)" using True ok by (simp add: word_le_nat_alt not_le)
  have pb: "pixel_byte (fb_put_pixel x y col c) X Y i = fb (fb_put_pixel x y col c) (pixel_offset (of_nat X) (of_nat Y) c + of_nat i)"
    by (simp add: pixel_byte_def same_frameD(13) [OF put_pixel_frame])
  have sel: "fb (c\<lparr>fb := f\<rparr>) = f" for f by simp
  let ?a = "pixel_offset (of_nat X) (of_nat Y) c + of_nat i" and ?xy = "unat x = X \<and> unat y = Y"
  consider (a) "fb_bpp c = 32" "?b = 4" | (b) "fb_bpp c = 24" "?b = 3" using ok by auto
  then show ?thesis
  proof cases
    case a
    have "0 < ?b" "1 < ?b" "2 < ?b" "3 < ?b" using a(2) by simp_all
    note S = this [THEN same, unfolded semiring_1_class.of_nat_0 semiring_1_class.of_nat_1 of_nat_numeral add_0_right]
    have "i = 0 \<or> i = 1 \<or> i = 2 \<or> i = 3" using assms(4) a(2) by linarith
    moreover have "fb (fb_put_pixel x y col c) ?a = (if ?xy \<and> i = 3 then ucast (drop_bit (8 * 3) col) else if ?xy \<and> i = 2 then ucast (drop_bit (8 * 2) col)
        else if ?xy \<and> i = 1 then ucast (drop_bit (8 * 1) col) else if ?xy \<and> i = 0 then ucast (drop_bit (8 * 0) col) else fb c ?a)"
      unfolding conj_assoc S [symmetric] fb_put_pixel_def if_not_P [OF v] Let_def if_P [OF a(1)] by (simp only: fun_upd_apply sel)
    ultimately show ?thesis unfolding pb by (cases ?xy) (auto simp: pixel_byte_def)
  next
    case b
    have "0 < ?b" "1 < ?b" "2 < ?b" using b(2) by simp_all
    note S = this [THEN same, unfolded semiring_1_class.of_nat_0 semiring_1_class.of_nat_1 of_nat_numeral add_0_right]
    have n: "fb_bpp c \<noteq> 32" using b(1) by simp
    have "i = 0 \<or> i = 1 \<or> i = 2" using assms(4) b(2) by linarith
    moreover have "fb (fb_put_pixel x y col c) ?a = (if ?xy \<and> i = 2 then ucast (drop_bit (8 * 2) col)
        else if ?xy \<and> i = 1 then ucast (drop_bit (8 * 1) col) else if ?xy \<and> i = 0 then ucast (drop_bit (8 * 0) col) else fb c ?a)"
      unfolding conj_assoc S [symmetric] fb_put_pixel_def if_not_P [OF v] Let_def if_not_P [OF n] if_P [OF b(1)] by (simp only: fun_upd_apply sel)
    ultimately show ?thesis unfolding pb by (cases ?xy) (auto simp: pixel_byte_def)
  qed
qed

lemma pix_put_pixel:
  assumes "screen_ok c" "X < unat (fb_width c)" "Y < unat (fb_height c)"
  shows "pix (fb_put_pixel x y col c) X Y = (if unat x = X \<and> unat y = Y then norm_color c col else pix c X Y)"
proof -
  note F = same_frameD [OF put_pixel_frame [of c x y col]]
  have ok: "screen_ok (fb_put_pixel x y col c)" using assms(1) by (simp add: screen_ok_frame [OF put_pixel_frame])
  note P = pix_bytes [OF ok, unfolded F(1,2), OF assms(2,3), unfolded F(4)] pix_bytes [OF assms]
  have b: "fb_bpp c = 32 \<or> fb_bpp c = 24" using assms(1) by (auto simp: screen_ok_def)
  have "pixel_byte (fb_put_pixel x y col c) X Y i = (if unat x = X \<and> unat y = Y then ucast (drop_bit (8 * i) col) else pixel_byte c X Y i)"
    if "i < unat (fb_bpp c) div 8" for i by (rule put_pixel_byte [OF assms that])
  from this [of 0] this [of 1] this [of 2] this [of 3] show ?thesis
    using b word_of_bytes [of col] by (cases "unat x = X \<and> unat y = Y") (elim disjE; simp only: P; simp add: norm_color_def)+
qed

section \<open>Cells\<close>

lemma fill_cell_frame: "same_frame c (fill_cell x y r0 h color c)"
proof -
  have "same_frame c (fold (\<lambda>(cy, cx). fb_put_pixel (x + of_nat cx) (y + of_nat (r0 + cy)) (color (r0 + cy) cx)) ps c)" for ps
    by (rule fold_preserves) (auto intro: same_frame_trans)
  then show ?thesis unfolding fill_cell_def .
qed

lemmas fill_cell_fields = same_frameD [OF fill_cell_frame]

lemma pix_fill_cell:
  assumes "screen_ok c" "X < unat (fb_width c)" "Y < unat (fb_height c)"
    and "unat x + 8 \<le> 2 ^ 32" "unat y + 16 \<le> 2 ^ 32" "r0 + h \<le> 16"
  shows "pix (fill_cell x y r0 h color c) X Y =
    (if unat x \<le> X \<and> X < unat x + 8 \<and> unat y + r0 \<le> Y \<and> Y < unat y + r0 + h
     then norm_color c (color (Y - unat y) (X - unat x)) else pix c X Y)"
proof -
  let ?f = "\<lambda>(cy, cx). fb_put_pixel (x + of_nat cx) (y + of_nat (r0 + cy)) (color (r0 + cy) cx)"
  have "pix (fold ?f ps d) X Y =
      (if \<exists>(cy, cx) \<in> set ps. X = unat x + cx \<and> Y = unat y + (r0 + cy) then norm_color c (color (Y - unat y) (X - unat x)) else pix d X Y)"
    if "same_frame c d" "\<forall>(cy, cx) \<in> set ps. cx < 8 \<and> cy < h" for ps d
    using that
  proof (induction ps arbitrary: d)
    case (Cons p ps)
    obtain cy cx where p: "p = (cy, cx)" by (cases p)
    have b: "cx < 8" "r0 + cy < 16" using Cons.prems(2) p assms(6) by auto
    have n: "unat (of_nat cx :: u32) = cx" "unat (of_nat (r0 + cy) :: u32) = r0 + cy" using b by (intro unat_of_nat_small; simp)+
    have "unat x + unat (of_nat cx :: u32) < 2 ^ 32" "unat y + unat (of_nat (r0 + cy) :: u32) < 2 ^ 32"
      unfolding n using b assms(4,5) by linarith+
    then have xy: "unat (x + of_nat cx) = unat x + cx" "unat (y + of_nat (r0 + cy)) = unat y + (r0 + cy)"
      using n by (simp_all add: unat_add_no_wrap)
    note F = same_frameD [OF Cons.prems(1)]
    have d: "screen_ok d" "X < unat (fb_width d)" "Y < unat (fb_height d)" "norm_color d = norm_color c"
      using assms(1-3) F by (auto simp: screen_ok_frame [OF Cons.prems(1)] norm_color_def fun_eq_iff)
    have s: "same_frame c (?f p d)" using Cons.prems(1) same_frame_trans put_pixel_frame unfolding p by auto
    have P: "pix (?f p d) X Y = (if X = unat x + cx \<and> Y = unat y + (r0 + cy) then norm_color c (color (Y - unat y) (X - unat x)) else pix d X Y)"
      unfolding p using pix_put_pixel [OF d(1-3), of "x + of_nat cx" "y + of_nat (r0 + cy)" "color (r0 + cy) cx"] d(4) xy by auto
    have IH: "pix (fold ?f ps (?f p d)) X Y =
      (if \<exists>(cy, cx) \<in> set ps. X = unat x + cx \<and> Y = unat y + (r0 + cy) then norm_color c (color (Y - unat y) (X - unat x)) else pix (?f p d) X Y)"
      by (rule Cons.IH [OF s]) (use Cons.prems(2) in simp)
    show ?case unfolding fold_Cons o_apply IH P using p by auto
  qed simp
  moreover have "set (cells h 8) = {(cy, cx). cy < h \<and> cx < 8}" by (auto simp: cells_def)
  moreover have "(\<exists>(cy, cx) \<in> {(cy, cx). cy < h \<and> cx < 8}. X = unat x + cx \<and> Y = unat y + (r0 + cy)) \<longleftrightarrow>
      unat x \<le> X \<and> X < unat x + 8 \<and> unat y + r0 \<le> Y \<and> Y < unat y + r0 + h"
    (is "?L \<longleftrightarrow> ?R")
  proof
    assume ?R
    then show ?L by (intro bexI [of _ "(Y - unat y - r0, X - unat x)"]) auto
  qed auto
  ultimately show ?thesis unfolding fill_cell_def by auto
qed

section \<open>Scrolling\<close>

lemma move_rows_result:
  assumes "unat n + unat s < 2 ^ 32"
  shows "move_rows s n m a = (if unat a < unat n then m (s + a) else if unat a < unat n + unat s then 0 else m a)"
proof -
  have small: "unat (of_nat i :: u32) = i" if "i < unat n + unat s" for i using that assms by (intro unat_of_nat_small) simp
  have up: "fold (\<lambda>i f. f(of_nat i := f (s + of_nat i))) [0..<k] m a = (if unat a < k then m (s + a) else m a)"
    if "k \<le> unat n" for k a
    using that
  proof (induction k arbitrary: a)
    case (Suc k)
    have k: "unat (of_nat k :: u32) = k" using Suc.prems small by simp
    then have "unat s + unat (of_nat k :: u32) < 2 ^ 32" using Suc.prems assms by linarith
    then have sk: "unat (s + of_nat k) = unat s + k" using k by (simp add: unat_add_no_wrap)
    have "of_nat k = a \<longleftrightarrow> unat a = k" using k by (auto simp: word_unat_eq_iff)
    then show ?case using Suc sk by (auto simp: less_Suc_eq)
  qed simp
  have zero: "fold (\<lambda>i f. f(n + of_nat i := 0)) [0..<k] g a = (if unat n \<le> unat a \<and> unat a < unat n + k then 0 else g a)"
    if "k \<le> unat s" for k g
    using that
  proof (induction k arbitrary: g)
    case (Suc k)
    have k: "unat (of_nat k :: u32) = k" using Suc.prems small by simp
    then have "unat n + unat (of_nat k :: u32) < 2 ^ 32" using Suc.prems assms by linarith
    then have sk: "unat (n + of_nat k) = unat n + k" using k by (simp add: unat_add_no_wrap)
    have "n + of_nat k = a \<longleftrightarrow> unat a = unat n + k" using sk by (auto simp: word_unat_eq_iff)
    then show ?case using Suc by (auto simp: less_Suc_eq)
  qed auto
  show ?thesis unfolding move_rows_def zero [OF order_refl] up [OF order_refl] by auto
qed

lemma pix_scrolled:
  assumes "screen_ok c" "X < unat (fb_width c)" "Y < unat (fb_height c)"
  defines "s \<equiv> fb_pitch c * 16"
  shows "pix (c\<lparr>fb := move_rows s (fb_pitch c * fb_height c - s) (fb c), cursor_y := cy\<rparr>) X Y =
    (if Y + 16 < unat (fb_height c) then pix c X (Y + 16) else 0)"
proof -
  note ok = assms(1) [unfolded screen_ok_def]
  let ?p = "unat (fb_pitch c)" and ?h = "unat (fb_height c)" and ?b = "unat (fb_bpp c) div 8"
  let ?n = "fb_pitch c * fb_height c - s" and ?m = "move_rows s (fb_pitch c * fb_height c - s) (fb c)"
  let ?d = "c\<lparr>fb := ?m, cursor_y := cy\<rparr>"
  have le: "?p * 16 \<le> ?p * ?h" using ok by (intro mult_le_mono2) simp
  then have "?p * 16 < 2 ^ 32" "?p * ?h < 2 ^ 32" using ok by (linarith, linarith)
  then have s: "unat s = ?p * 16" and tot: "unat (fb_pitch c * fb_height c) = ?p * ?h"
    by (simp_all add: s_def unat_word_ariths)
  then have n: "unat ?n = ?p * ?h - ?p * 16" using le by (simp add: unat_sub_le)
  have fit: "unat ?n + unat s < 2 ^ 32" using n s le ok by simp
  have d: "screen_ok ?d" "fb_width ?d = fb_width c" "fb_height ?d = fb_height c" "fb_bpp ?d = fb_bpp c"
    using assms(1) by (simp_all add: screen_ok_def norm_color_def)
  have xy: "unat (of_nat X :: u32) = X" "unat (of_nat Y :: u32) = Y" using assms(2,3) ok by (intro unat_of_nat_small; simp)+
  have byte: "pixel_byte ?d X Y i = (if Y + 16 < ?h then pixel_byte c X (Y + 16) i else 0)" if i: "i < ?b" for i
  proof -
    let ?a = "pixel_offset (of_nat X) (of_nat Y) c + of_nat i"
    note A = unat_pixel_byte [OF assms(1) _ _ i, of "of_nat X" "of_nat Y", unfolded xy, OF assms(2,3)]
    have pb: "pixel_byte ?d X Y i = ?m ?a" by (simp add: pixel_byte_def pixel_offset_def)
    have "Suc Y * ?p \<le> ?h * ?p" using assms(3) by (intro mult_le_mono1) simp
    then have in_all: "unat ?a < unat ?n + unat s" using A n s le by (simp add: mult.commute)
    have low: "unat ?a < unat ?n \<longleftrightarrow> Y + 16 < ?h"
    proof
      assume "Y + 16 < ?h"
      then have "(Y + 17) * ?p \<le> ?h * ?p" by (intro mult_le_mono1) simp
      then show "unat ?a < unat ?n" using A n by (simp add: algebra_simps)
    next
      assume l: "unat ?a < unat ?n"
      show "Y + 16 < ?h"
      proof (rule ccontr)
        assume "\<not> Y + 16 < ?h"
        then have "?h * ?p \<le> (Y + 16) * ?p" by (intro mult_le_mono1) simp
        then show False using l A n by (simp add: algebra_simps)
      qed
    qed
    show ?thesis
    proof (cases "Y + 16 < ?h")
      case True
      have u: "unat (of_nat (Y + 16) :: u32) = Y + 16" using True ok by (intro unat_of_nat_small) simp
      note B = unat_pixel_byte [OF assms(1) _ _ i, of "of_nat X" "of_nat (Y + 16)", unfolded xy u, OF assms(2) True]
      have "unat s + unat ?a < 2 ^ 32" using in_all fit low True by simp
      then have "unat (s + ?a) = unat s + unat ?a" by (intro unat_add_no_wrap) simp
      also have "\<dots> = (Y + 16) * ?p + (X * ?b + i)" unfolding A(1) s by (simp only: add_mult_distrib mult.commute [of ?p 16])
      finally have e: "s + ?a = pixel_offset (of_nat X) (of_nat (Y + 16)) c + of_nat i"
        unfolding word_unat_eq_iff B(1) .
      have "?m ?a = fb c (s + ?a)" using low True unfolding move_rows_result [OF fit] by simp
      then show ?thesis using True unfolding pb e by (simp only: pixel_byte_def if_True)
    next
      case False
      then show ?thesis unfolding pb move_rows_result [OF fit] using low in_all by simp
    qed
  qed
  have b: "fb_bpp c = 32 \<or> fb_bpp c = 24" using ok by auto
  note P = pix_bytes [OF d(1), unfolded d(2-4), OF assms(2,3)]
  show ?thesis
  proof (cases "Y + 16 < ?h")
    case True
    show ?thesis unfolding P pix_bytes [OF assms(1,2) True] using b byte [of 0] byte [of 1] byte [of 2] byte [of 3] True by auto
  next
    case False
    show ?thesis unfolding P using b byte [of 0] byte [of 1] byte [of 2] byte [of 3] False by auto
  qed
qed

section \<open>A text terminal\<close>

record terminal =
  grid :: "nat \<Rightarrow> nat \<Rightarrow> u8"
  trow :: nat
  tcol :: nat

definition term_set :: "u8 \<Rightarrow> terminal \<Rightarrow> terminal" where
  "term_set ch t = t\<lparr>grid := (grid t)(trow t := (grid t (trow t))(tcol t := ch))\<rparr>"

definition term_wrap :: "nat \<Rightarrow> terminal \<Rightarrow> terminal" where
  "term_wrap cols t = (if tcol t \<ge> cols then t\<lparr>tcol := 0, trow := trow t + 1\<rparr> else t)"

definition term_scroll :: "nat \<Rightarrow> terminal \<Rightarrow> terminal" where
  "term_scroll rows t =
     (if trow t < rows then t
      else t\<lparr>grid := (\<lambda>r. if r + 1 < rows then grid t (r + 1) else (\<lambda>_. 32)), trow := trow t - 1\<rparr>)"

definition term_back :: "nat \<Rightarrow> terminal \<Rightarrow> terminal" where
  "term_back cols t =
     (if 0 < tcol t then t\<lparr>tcol := tcol t - 1\<rparr>
      else if 0 < trow t then t\<lparr>trow := trow t - 1, tcol := cols - 1\<rparr>
      else t)"

text \<open>A character on a terminal of \<open>rows\<close> and \<open>cols\<close>.\<close>

definition term_put :: "nat \<Rightarrow> nat \<Rightarrow> u8 \<Rightarrow> terminal \<Rightarrow> terminal" where
  "term_put rows cols ch t =
     (if ch = 8 then term_set 32 (term_back cols t)
      else term_scroll rows
        (if ch = 10 then t\<lparr>tcol := 0, trow := trow t + 1\<rparr>
         else if ch = 13 then t\<lparr>tcol := 0\<rparr>
         else if ch = 9 then term_wrap cols (t\<lparr>tcol := (tcol t div 4 + 1) * 4\<rparr>)
         else if 32 \<le> ch \<and> ch \<le> 126 then term_wrap cols ((term_set ch t)\<lparr>tcol := tcol t + 1\<rparr>)
         else t))"

section \<open>The picture of a terminal\<close>

definition text_pixel :: "(nat \<Rightarrow> nat \<Rightarrow> u8) \<Rightarrow> console \<Rightarrow> nat \<Rightarrow> nat \<Rightarrow> u32" where
  "text_pixel g c X Y =
     norm_color c (if Y div 16 < text_rows c then glyph_color (g (Y div 16) (X div 8)) c (Y mod 16) (X mod 8) else bg_color c)"

text \<open>The bar of the cursor in the last two rows of a cell.\<close>

definition bar :: "terminal \<Rightarrow> nat \<Rightarrow> nat \<Rightarrow> bool" where
  "bar t X Y \<longleftrightarrow> X div 8 = tcol t \<and> Y div 16 = trow t \<and> 14 \<le> Y mod 16"

definition cursor_at :: "terminal \<Rightarrow> console \<Rightarrow> bool" where
  "cursor_at t c \<longleftrightarrow> screen_ok c \<and> unat (cursor_x c) = 8 * tcol t \<and> unat (cursor_y c) = 16 * trow t \<and>
     tcol t < text_cols c \<and> trow t \<le> text_rows c"

definition shows_outside_bar :: "terminal \<Rightarrow> console \<Rightarrow> bool" where
  "shows_outside_bar t c \<longleftrightarrow> (\<forall>X < unat (fb_width c). \<forall>Y < unat (fb_height c). bar t X Y \<or> pix c X Y = text_pixel (grid t) c X Y)"

definition shows_text :: "(nat \<Rightarrow> nat \<Rightarrow> u8) \<Rightarrow> console \<Rightarrow> bool" where
  "shows_text g c \<longleftrightarrow> (\<forall>X < unat (fb_width c). \<forall>Y < unat (fb_height c). pix c X Y = text_pixel g c X Y)"

definition displays :: "terminal \<Rightarrow> console \<Rightarrow> bool" where
  "displays t c \<longleftrightarrow> cursor_at t c \<and> trow t < text_rows c \<and>
     (\<forall>X < unat (fb_width c). \<forall>Y < unat (fb_height c).
        pix c X Y = (if cursor_is_visible c \<and> bar t X Y then norm_color c (fg_color c) else text_pixel (grid t) c X Y))"

lemma norm_color_cong: "fb_bpp d = fb_bpp c \<Longrightarrow> norm_color d = norm_color c"
  by (simp add: fun_eq_iff norm_color_def)

lemma text_pixel_cong:
  assumes "fb_height d = fb_height c" "fb_bpp d = fb_bpp c" "fg_color d = fg_color c" "bg_color d = bg_color c"
  shows "text_pixel g d = text_pixel g c"
  using assms by (simp add: fun_eq_iff text_pixel_def norm_color_def text_rows_def glyph_color_def)

lemma text_size [simp]:
  "text_rows (c\<lparr>cursor_x := a\<rparr>) = text_rows c" "text_rows (c\<lparr>cursor_y := a\<rparr>) = text_rows c"
  "text_cols (c\<lparr>cursor_x := a\<rparr>) = text_cols c" "text_cols (c\<lparr>cursor_y := a\<rparr>) = text_cols c"
  by (simp_all add: text_rows_def text_cols_def)

lemma screen_ok_cong:
  assumes "fb_width d = fb_width c" "fb_height d = fb_height c" "fb_bpp d = fb_bpp c" "fb_pitch d = fb_pitch c"
    "fb_null d = fb_null c" "bg_color d = bg_color c"
  shows "screen_ok d = screen_ok c"
  using assms by (simp add: screen_ok_def norm_color_def)

text \<open>The last two rows of every glyph are empty, and a blank is.\<close>

lemma font_row_empty: "list_all (\<lambda>r. r ! 14 = 0 \<and> r ! 15 = 0) font_rows" "length font_rows = 96" "set (font_rows ! 0) = {0}" "length (font_rows ! 0) = 16"
  by (simp_all add: font_rows_def)

lemma glyph_bottom:
  assumes "14 \<le> i" "i < 16"
  shows "font8x16 ch ! i = 0"
proof -
  have i: "i = 14 \<or> i = 15" using assms by linarith
  show ?thesis
  proof (cases "32 \<le> ch \<and> ch < 128")
    case True
    then have "unat ch - 32 < length font_rows" unfolding font_row_empty(2) by (auto simp: word_less_nat_alt word_le_nat_alt)
    then show ?thesis using font_row_empty(1) i True by (auto simp: font8x16_def list_all_length)
  next
    case False
    then show ?thesis using i by (auto simp: font8x16_def)
  qed
qed

lemma glyph_blank: "i < 16 \<Longrightarrow> font8x16 32 ! i = 0"
  using nth_mem [of i "font_rows ! 0"] by (simp add: font8x16_def font_row_empty(3,4))

lemma text_pixel_bottom: "14 \<le> Y mod 16 \<Longrightarrow> text_pixel g c X Y = norm_color c (bg_color c)"
  by (simp add: text_pixel_def glyph_color_def glyph_bottom)

section \<open>The cursor\<close>

lemma cursor_cell:
  assumes "cursor_at t c"
  shows "unat (cursor_x c) + 8 \<le> 2 ^ 32" "unat (cursor_y c) + 16 \<le> 2 ^ 32" "unat (fb_width c) = 8 * text_cols c"
    "unat (cursor_x c) \<le> X \<and> X < unat (cursor_x c) + 8 \<longleftrightarrow> X div 8 = tcol t"
    "unat (cursor_y c) \<le> Y \<and> Y < unat (cursor_y c) + 16 \<longleftrightarrow> Y div 16 = trow t"
proof -
  note a = assms [unfolded cursor_at_def screen_ok_def]
  show w: "unat (fb_width c) = 8 * text_cols c" using a by (auto simp: text_cols_def)
  have "8 * tcol t < unat (fb_width c)" using a w by linarith
  then show "unat (cursor_x c) + 8 \<le> 2 ^ 32" using a by auto
  have "16 * text_rows c \<le> unat (fb_height c)" by (simp add: text_rows_def)
  then have "16 * trow t < 65536" using a by linarith
  then show "unat (cursor_y c) + 16 \<le> 2 ^ 32" using a by auto
  show "unat (cursor_x c) \<le> X \<and> X < unat (cursor_x c) + 8 \<longleftrightarrow> X div 8 = tcol t"
    "unat (cursor_y c) \<le> Y \<and> Y < unat (cursor_y c) + 16 \<longleftrightarrow> Y div 16 = trow t"
    using a by auto
qed

lemma pix_cell:
  assumes "cursor_at t c" "X < unat (fb_width c)" "Y < unat (fb_height c)" "r0 + h \<le> 16"
  shows "pix (fill_cell (cursor_x c) (cursor_y c) r0 h color c) X Y =
    (if X div 8 = tcol t \<and> Y div 16 = trow t \<and> r0 \<le> Y mod 16 \<and> Y mod 16 < r0 + h
     then norm_color c (color (Y mod 16) (X mod 8)) else pix c X Y)"
proof -
  note C = cursor_cell [OF assms(1)]
  have ok: "screen_ok c" using assms(1) by (simp add: cursor_at_def)
  have xy: "unat (cursor_x c) = 8 * tcol t" "unat (cursor_y c) = 16 * trow t" using assms(1) by (simp_all add: cursor_at_def)
  have x: "unat (cursor_x c) \<le> X \<and> X < unat (cursor_x c) + 8 \<longleftrightarrow> X div 8 = tcol t" by (rule C(4))
  have y: "unat (cursor_y c) + r0 \<le> Y \<and> Y < unat (cursor_y c) + r0 + h \<longleftrightarrow> Y div 16 = trow t \<and> r0 \<le> Y mod 16 \<and> Y mod 16 < r0 + h"
  proof -
    define q r where "q = Y div 16" and "r = Y mod 16"
    have Y: "Y = 16 * q + r" "r < 16" by (simp_all add: q_def r_def)
    have "16 * trow t + r0 \<le> 16 * q + r \<and> 16 * q + r < 16 * trow t + r0 + h \<longleftrightarrow> q = trow t \<and> r0 \<le> r \<and> r < r0 + h"
      using Y(2) assms(4) by (cases q "trow t" rule: linorder_cases) auto
    then show ?thesis unfolding xy q_def [symmetric] r_def [symmetric] using Y(1) by simp
  qed
  show ?thesis
  proof (cases "X div 8 = tcol t \<and> Y div 16 = trow t \<and> r0 \<le> Y mod 16 \<and> Y mod 16 < r0 + h")
    case True
    have "8 * (X div 8) + X mod 8 = X" "16 * (Y div 16) + Y mod 16 = Y" by simp_all
    then have "X - unat (cursor_x c) = X mod 8" "Y - unat (cursor_y c) = Y mod 16" using True unfolding xy by (metis diff_add_inverse)+
    then show ?thesis using True x y pix_fill_cell [OF ok assms(2,3) C(1,2) assms(4), of color] by simp
  next
    case False
    then show ?thesis using x y pix_fill_cell [OF ok assms(2,3) C(1,2) assms(4), of color] by auto
  qed
qed

lemma cursor_at_frame: "same_frame c d \<Longrightarrow> cursor_at t d = cursor_at t c"
  by (simp add: cursor_at_def screen_ok_frame same_frameD text_rows_def text_cols_def)

lemma draw_cursor_frame: "same_frame c (fb_draw_cursor v c)"
  unfolding fb_draw_cursor_def by (rule fill_cell_frame)

lemma pix_draw_cursor:
  assumes "cursor_at t c" "X < unat (fb_width c)" "Y < unat (fb_height c)"
  shows "pix (fb_draw_cursor v c) X Y = (if bar t X Y then norm_color c (if v then fg_color c else bg_color c) else pix c X Y)"
  unfolding fb_draw_cursor_def pix_cell [OF assms, of 14 2, simplified] by (auto simp: bar_def)

text \<open>Drawing the bar shows the terminal, erasing it shows the text alone.\<close>

lemma draw_cursor_displays:
  assumes "cursor_at t c" "trow t < text_rows c" "shows_outside_bar t c" "cursor_is_visible c = v"
  shows "displays t (fb_draw_cursor v c)"
  unfolding displays_def cursor_at_frame [OF draw_cursor_frame]
proof (intro conjI allI impI)
  note F = same_frameD [OF draw_cursor_frame [of c v]]
  show "trow t < text_rows (fb_draw_cursor v c)" using assms(2) F(2) by (simp add: text_rows_def)
  fix X Y assume "X < unat (fb_width (fb_draw_cursor v c))" "Y < unat (fb_height (fb_draw_cursor v c))"
  then have XY: "X < unat (fb_width c)" "Y < unat (fb_height c)" using F(1,2) by simp_all
  have "bar t X Y \<Longrightarrow> text_pixel (grid t) c X Y = norm_color c (bg_color c)" by (simp add: bar_def text_pixel_bottom)
  moreover have "bar t X Y \<or> pix c X Y = text_pixel (grid t) c X Y" using assms(3) XY by (simp add: shows_outside_bar_def)
  moreover have "norm_color (fb_draw_cursor v c) = norm_color c" "text_pixel (grid t) (fb_draw_cursor v c) = text_pixel (grid t) c"
    using norm_color_cong [OF F(4)] text_pixel_cong [OF F(2,4,9,10)] by simp_all
  ultimately show "pix (fb_draw_cursor v c) X Y = (if cursor_is_visible (fb_draw_cursor v c) \<and> bar t X Y
      then norm_color (fb_draw_cursor v c) (fg_color (fb_draw_cursor v c)) else text_pixel (grid t) (fb_draw_cursor v c) X Y)"
    unfolding pix_draw_cursor [OF assms(1) XY] F(9,11) assms(4) by (cases "bar t X Y"; cases v) simp_all
qed (rule assms(1))

lemma erase_cursor:
  assumes "cursor_at t c" "shows_outside_bar t c"
  shows "shows_text (grid t) (fb_draw_cursor False c)" "cursor_at t (fb_draw_cursor False c)"
proof -
  note F = same_frameD [OF draw_cursor_frame [of c False]]
  show "cursor_at t (fb_draw_cursor False c)" unfolding cursor_at_frame [OF draw_cursor_frame] by (rule assms(1))
  have "text_pixel (grid t) (fb_draw_cursor False c) = text_pixel (grid t) c" by (rule text_pixel_cong [OF F(2,4,9,10)])
  then show "shows_text (grid t) (fb_draw_cursor False c)"
    using assms(2) pix_draw_cursor [OF assms(1), of _ _ False] F(1,2)
    by (auto simp: shows_text_def shows_outside_bar_def bar_def text_pixel_bottom)
qed

lemma outside_bar: "displays t c \<Longrightarrow> shows_outside_bar t c" "shows_text (grid t) c \<Longrightarrow> shows_outside_bar t c"
  by (auto simp: displays_def shows_outside_bar_def shows_text_def)

section \<open>The operations keep terminal and picture in step\<close>

lemma shows_text_cong:
  assumes "pix d = pix c" "fb_width d = fb_width c" "fb_height d = fb_height c" "fb_bpp d = fb_bpp c" "fg_color d = fg_color c"
    "bg_color d = bg_color c"
  shows "shows_text g d = shows_text g c" "shows_outside_bar t d = shows_outside_bar t c"
  unfolding shows_text_def shows_outside_bar_def assms(1-3) text_pixel_cong [OF assms(3-6)] by simp_all

lemma glyph_color_blank: "i < 16 \<Longrightarrow> glyph_color 32 c i j = bg_color c"
  by (simp add: glyph_color_def glyph_blank)

lemma shows_text_put:
  assumes "cursor_at t c" "trow t < text_rows c" "shows_text (grid t) c"
    and "\<And>i j. i < 16 \<Longrightarrow> color i j = glyph_color ch c i j"
  defines "d \<equiv> fill_cell (cursor_x c) (cursor_y c) 0 16 color c"
  shows "shows_text (grid (term_set ch t)) d" "cursor_at t d"
proof -
  note F = same_frameD [OF fill_cell_frame [of c "cursor_x c" "cursor_y c" 0 16 color], folded d_def]
  show "cursor_at t d" unfolding d_def cursor_at_frame [OF fill_cell_frame] by (rule assms(1))
  show "shows_text (grid (term_set ch t)) d"
    unfolding shows_text_def F(1,2) text_pixel_cong [OF F(2,4,9,10)]
  proof (intro allI impI)
    fix X Y assume XY: "X < unat (fb_width c)" "Y < unat (fb_height c)"
    have "pix d X Y = (if X div 8 = tcol t \<and> Y div 16 = trow t then norm_color c (color (Y mod 16) (X mod 8)) else pix c X Y)"
      unfolding d_def pix_cell [OF assms(1) XY, of 0 16, simplified] by simp
    moreover have "color (Y mod 16) (X mod 8) = glyph_color ch c (Y mod 16) (X mod 8)" by (rule assms(4)) simp
    moreover have "pix c X Y = text_pixel (grid t) c X Y" using assms(3) XY by (simp add: shows_text_def)
    ultimately show "pix d X Y = text_pixel (grid (term_set ch t)) c X Y"
      using assms(2) by (auto simp: text_pixel_def term_set_def)
  qed
qed

lemma fb_scroll_displays:
  assumes "cursor_at t c" "trow t = text_rows c" "shows_text (grid t) c"
  shows "displays (term_scroll (text_rows c) t) (fb_scroll c)"
proof -
  define c1 where "c1 = fb_draw_cursor False c"
  note F = same_frameD [OF draw_cursor_frame [of c False], folded c1_def]
  note E = erase_cursor [OF assms(1) outside_bar(2) [OF assms(3)], folded c1_def]
  have ok: "screen_ok c1" using E(2) by (simp add: cursor_at_def)
  have rows: "text_rows c1 = text_rows c" "0 < text_rows c" using F(2) ok by (auto simp: text_rows_def screen_ok_def)
  let ?s = "fb_pitch c1 * 16"
  define c2 where "c2 = c1\<lparr>fb := move_rows ?s (fb_pitch c1 * fb_height c1 - ?s) (fb c1), cursor_y := cursor_y c1 - 16\<rparr>"
  let ?t = "term_scroll (text_rows c) t"
  have G: "fb_width c2 = fb_width c1" "fb_height c2 = fb_height c1" "fb_bpp c2 = fb_bpp c1" "fg_color c2 = fg_color c1" "bg_color c2 = bg_color c1"
    "fb_pitch c2 = fb_pitch c1" "fb_null c2 = fb_null c1" "cursor_x c2 = cursor_x c1" "cursor_y c2 = cursor_y c1 - 16"
    by (simp_all add: c2_def)
  have t: "trow ?t = text_rows c - 1" "tcol ?t = tcol t"
    "grid ?t = (\<lambda>r. if r + 1 < text_rows c then grid t (r + 1) else (\<lambda>_. 32))"
    using assms(2) by (simp_all add: term_scroll_def)
  have y: "unat (cursor_y c1) = 16 * text_rows c" using E(2) assms(2) by (simp add: cursor_at_def)
  have "unat (cursor_y c1 - 16) = 16 * (text_rows c - 1)"
    using y rows(2) by (subst unat_sub_le) (auto simp: diff_mult_distrib2)
  then have at: "cursor_at ?t c2"
    using E(2) rows t(1,2) screen_ok_cong [of c2 c1] G by (simp add: cursor_at_def text_rows_def text_cols_def)
  have "shows_text (grid ?t) c2"
    unfolding shows_text_def G(1,2) text_pixel_cong [OF G(2-5)]
  proof (intro allI impI)
    fix X Y assume XY: "X < unat (fb_width c1)" "Y < unat (fb_height c1)"
    have p: "pix c2 X Y = (if Y + 16 < unat (fb_height c1) then pix c1 X (Y + 16) else 0)"
      unfolding c2_def by (rule pix_scrolled [OF ok XY])
    have d: "(Y + 16) div 16 = Y div 16 + 1" "(Y + 16) mod 16 = Y mod 16" by simp_all
    have z: "norm_color c1 (bg_color c1) = 0" using ok by (simp add: screen_ok_def)
    have blank: "glyph_color 32 c1 (Y mod 16) (X mod 8) = bg_color c1" by (rule glyph_color_blank) simp
    show "pix c2 X Y = text_pixel (grid ?t) c1 X Y"
    proof (cases "Y + 16 < unat (fb_height c1)")
      case True
      then have "pix c1 X (Y + 16) = text_pixel (grid t) c1 X (Y + 16)" using E(1) XY(1) by (simp add: shows_text_def)
      then show ?thesis using True z blank unfolding p t(3) text_pixel_def d rows(1) by auto
    next
      case False
      then have "\<not> Y div 16 + 1 < text_rows c" using rows(1) by (auto simp: text_rows_def)
      then show ?thesis using False z blank unfolding p t(3) text_pixel_def rows(1) by auto
    qed
  qed
  moreover have "\<not> fb_null c" using assms(1) by (simp add: cursor_at_def screen_ok_def)
  then have "fb_scroll c = fb_draw_cursor (cursor_is_visible c2) c2"
    unfolding fb_scroll_def c2_def c1_def by (simp add: Let_def same_frameD(2,3) [OF draw_cursor_frame])
  moreover have "trow ?t < text_rows c2" using t(1) rows G(2) by (simp add: text_rows_def)
  ultimately show ?thesis using draw_cursor_displays [OF at _ outside_bar(2) refl] by simp
qed

lemma kbackspace_displays:
  assumes "cursor_at t c" "trow t < text_rows c" "shows_outside_bar t c"
  shows "displays (term_set 32 (term_back (text_cols c) t)) (kbackspace c)"
proof -
  define c1 where "c1 = fb_draw_cursor False c"
  note F = same_frameD [OF draw_cursor_frame [of c False], folded c1_def]
  note E = erase_cursor [OF assms(1,3), folded c1_def]
  define c2 where "c2 = (if cursor_x c1 \<ge> 8 then c1\<lparr>cursor_x := cursor_x c1 - 8\<rparr>
      else if cursor_y c1 \<ge> 16 then c1\<lparr>cursor_y := cursor_y c1 - 16, cursor_x := fb_width c1 - 8\<rparr> else c1)"
  let ?t = "term_back (text_cols c) t"
  have G: "pix c2 = pix c1" "fb_width c2 = fb_width c1" "fb_height c2 = fb_height c1" "fb_bpp c2 = fb_bpp c1" "fg_color c2 = fg_color c1"
    "bg_color c2 = bg_color c1" "fb_pitch c2 = fb_pitch c1" "fb_null c2 = fb_null c1"
    by (simp_all add: c2_def)
  have size: "text_rows c1 = text_rows c" "text_cols c1 = text_cols c" using F(1,2) by (simp_all add: text_rows_def text_cols_def)
  have xy: "unat (cursor_x c1) = 8 * tcol t" "unat (cursor_y c1) = 16 * trow t" using E(2) by (simp_all add: cursor_at_def)
  have w: "unat (fb_width c1) = 8 * text_cols c1" by (rule cursor_cell(3) [OF E(2)])
  have cols: "tcol t < text_cols c1" using E(2) by (simp add: cursor_at_def)
  have cond: "cursor_x c1 \<ge> 8 \<longleftrightarrow> 0 < tcol t" "cursor_y c1 \<ge> 16 \<longleftrightarrow> 0 < trow t"
    using xy by (auto simp: word_le_nat_alt)
  have "unat (cursor_x c2) = 8 * tcol ?t \<and> unat (cursor_y c2) = 16 * trow ?t \<and> tcol ?t < text_cols c1 \<and> trow ?t < text_rows c"
  proof (cases "0 < tcol t")
    case True
    then have "unat (cursor_x c1 - 8) = 8 * (tcol t - 1)" using xy by (subst unat_sub_le) auto
    then show ?thesis using True cond xy cols assms(2) by (auto simp: c2_def term_back_def)
  next
    case False
    show ?thesis
    proof (cases "0 < trow t")
      case True
      then have "unat (cursor_y c1 - 16) = 16 * (trow t - 1)" using xy by (subst unat_sub_le) auto
      moreover have "unat (fb_width c1 - 8) = 8 * (text_cols c1 - 1)" using w cols by (subst unat_sub_le) auto
      ultimately show ?thesis using True False cond cols assms(2) size by (auto simp: c2_def term_back_def)
    next
      case f: False
      then show ?thesis using False cond xy cols assms(2) by (auto simp: c2_def term_back_def)
    qed
  qed
  then have at: "cursor_at ?t c2" "trow ?t < text_rows c2"
    using E(2) screen_ok_cong [OF G(2-4,7,8,6)] G(2,3) size by (simp_all add: cursor_at_def text_rows_def text_cols_def)
  have "grid ?t = grid t" by (simp add: term_back_def)
  then have "shows_text (grid ?t) c2" using E(1) shows_text_cong(1) [OF G(1-6)] by simp
  note P = shows_text_put [OF at this, of "\<lambda>cy cx. bg_color c2" 32, OF glyph_color_blank [symmetric]]
  define c3 where "c3 = fill_cell (cursor_x c2) (cursor_y c2) 0 16 (\<lambda>cy cx. bg_color c2) c2"
  note H = same_frameD [OF fill_cell_frame [of c2 "cursor_x c2" "cursor_y c2" 0 16 "\<lambda>cy cx. bg_color c2"], folded c3_def]
  have s: "tcol (term_set 32 ?t) = tcol ?t" "trow (term_set 32 ?t) = trow ?t" by (simp_all add: term_set_def)
  have "cursor_at (term_set 32 ?t) c3" using P(2) unfolding c3_def [symmetric] by (simp add: cursor_at_def s)
  moreover have "trow (term_set 32 ?t) < text_rows c3" using at(2) H(2) s by (simp add: text_rows_def)
  moreover have "kbackspace c = fb_draw_cursor (cursor_is_visible c3) c3"
    by (simp add: kbackspace_def Let_def c3_def c2_def c1_def)
  ultimately show ?thesis using draw_cursor_displays [OF _ _ outside_bar(2) refl] P(1) unfolding c3_def [symmetric] by simp
qed

lemma wrap_line_at:
  assumes "screen_ok c" "unat (cursor_x c) = 8 * tcol t" "unat (cursor_y c) = 16 * trow t" "trow t < text_rows c"
  shows "cursor_at (term_wrap (text_cols c) t) (wrap_line c)"
proof -
  note ok = assms(1) [unfolded screen_ok_def]
  have w: "unat (fb_width c) = 8 * text_cols c" "0 < text_cols c" using ok by (auto simp: text_cols_def)
  have full: "cursor_x c \<ge> fb_width c \<longleftrightarrow> tcol t \<ge> text_cols c" using w assms(2) by (simp add: word_le_nat_alt)
  have "16 * text_rows c \<le> unat (fb_height c)" by (simp add: text_rows_def)
  then have "16 * trow t + 16 < 2 ^ 32" using assms(4) ok by simp
  then have "unat (cursor_y c + 16) = 16 * (trow t + 1)" using assms(3) by (subst unat_add_no_wrap) auto
  moreover have "screen_ok (new_line c) = screen_ok c" by (rule screen_ok_cong) (simp_all add: new_line_def)
  ultimately show ?thesis
    using assms full w(2) by (auto simp: cursor_at_def term_wrap_def wrap_line_def new_line_def)
qed

lemma wrap_line_text: "shows_text g (wrap_line c) = shows_text g c" "cursor_is_visible (wrap_line c) = cursor_is_visible c"
    "fb_height (wrap_line c) = fb_height c"
  by (rule shows_text_cong) (simp_all add: wrap_line_def new_line_def)

text \<open>What \<open>kput_char\<close> does behind the branches of the characters.\<close>

lemma put_char_end:
  assumes "cursor_at t c" "shows_text (grid t) c"
  defines "d \<equiv> (if cursor_y c + 16 > fb_height c then fb_scroll c else c)"
  shows "displays (term_scroll (text_rows c) t) (fb_draw_cursor True (d\<lparr>cursor_is_visible := True, cursor_blink_counter := 0\<rparr>))"
proof -
  let ?t = "term_scroll (text_rows c) t" and ?e = "d\<lparr>cursor_is_visible := True, cursor_blink_counter := 0\<rparr>"
  note C = cursor_cell [OF assms(1)]
  have y: "unat (cursor_y c) = 16 * trow t" "trow t \<le> text_rows c" using assms(1) by (simp_all add: cursor_at_def)
  have "unat (cursor_y c) + 16 < 2 ^ 32"
  proof -
    have "16 * text_rows c \<le> unat (fb_height c)" "unat (fb_height c) < 65536"
      using assms(1) by (simp_all add: text_rows_def cursor_at_def screen_ok_def)
    then have "16 * trow t + 16 < 2 ^ 32" using y(2) by simp
    then show ?thesis unfolding y(1) .
  qed
  then have u: "unat (cursor_y c + 16) = 16 * trow t + 16" using y(1) by (subst unat_add_no_wrap) auto
  have scroll: "cursor_y c + 16 > fb_height c \<longleftrightarrow> trow t = text_rows c"
    using y(2) by (auto simp: word_less_nat_alt u text_rows_def)
  have "cursor_at ?t d \<and> trow ?t < text_rows d \<and> shows_outside_bar ?t d"
  proof (cases "trow t = text_rows c")
    case True
    then have "displays ?t (fb_scroll c)" by (rule fb_scroll_displays [OF assms(1) _ assms(2)])
    then show ?thesis using True scroll outside_bar(1) by (simp add: d_def displays_def)
  next
    case False
    then have "?t = t" using y(2) by (simp add: term_scroll_def)
    then show ?thesis using False scroll assms(1,2) y(2) outside_bar(2) by (simp add: d_def)
  qed
  moreover have "cursor_at ?t ?e = cursor_at ?t d"
    using screen_ok_cong [of ?e d] by (simp add: cursor_at_def text_rows_def text_cols_def)
  moreover have "shows_outside_bar ?t ?e = shows_outside_bar ?t d" by (rule shows_text_cong) simp_all
  moreover have "text_rows ?e = text_rows d" by (simp add: text_rows_def)
  ultimately show ?thesis by (intro draw_cursor_displays) simp_all
qed

lemma screen_size [simp]:
  "fb_width (fb_draw_cursor v c) = fb_width c" "fb_height (fb_draw_cursor v c) = fb_height c"
  "fb_width (fill_cell x y r0 h color c) = fb_width c" "fb_height (fill_cell x y r0 h color c) = fb_height c"
  by (rule same_frameD [OF draw_cursor_frame] same_frameD [OF fill_cell_frame])+

lemma kput_char_size: "text_rows (kput_char ch c) = text_rows c" "text_cols (kput_char ch c) = text_cols c"
  by (simp_all add: text_rows_def text_cols_def kput_char_def kbackspace_def fb_scroll_def wrap_line_def new_line_def draw_glyph_def Let_def)

text \<open>The branches of the characters: where the cursor moves, and what is drawn.\<close>

lemma cursor_small:
  assumes "cursor_at t c" "trow t < text_rows c"
  shows "8 * tcol t < 65536" "16 * trow t + 16 < 2 ^ 32"
proof -
  have "unat (fb_width c) = 8 * text_cols c" by (rule cursor_cell(3) [OF assms(1)])
  then show "8 * tcol t < 65536" using assms(1) by (simp add: cursor_at_def screen_ok_def)
  have "16 * text_rows c \<le> unat (fb_height c)" by (simp add: text_rows_def)
  then show "16 * trow t + 16 < 2 ^ 32" using assms by (simp add: cursor_at_def screen_ok_def)
qed

lemma new_line_step:
  assumes "cursor_at t c" "trow t < text_rows c"
  shows "cursor_at (t\<lparr>tcol := 0, trow := trow t + 1\<rparr>) (new_line c)" "cursor_at (t\<lparr>tcol := 0\<rparr>) (c\<lparr>cursor_x := 0\<rparr>)"
    "shows_text g (new_line c) = shows_text g c" "shows_text g (c\<lparr>cursor_x := 0\<rparr>) = shows_text g c"
    "text_rows (new_line c) = text_rows c"
proof -
  have "unat (cursor_y c + 16) = 16 * (trow t + 1)"
    using assms(1) cursor_small(2) [OF assms] by (subst unat_add_no_wrap) (auto simp: cursor_at_def)
  moreover have "screen_ok (new_line c) = screen_ok c" "screen_ok (c\<lparr>cursor_x := 0\<rparr>) = screen_ok c"
    by (rule screen_ok_cong; simp add: new_line_def)+
  ultimately show "cursor_at (t\<lparr>tcol := 0, trow := trow t + 1\<rparr>) (new_line c)" "cursor_at (t\<lparr>tcol := 0\<rparr>) (c\<lparr>cursor_x := 0\<rparr>)"
    using assms by (auto simp: cursor_at_def new_line_def)
  show "shows_text g (new_line c) = shows_text g c" "shows_text g (c\<lparr>cursor_x := 0\<rparr>) = shows_text g c"
    by (rule shows_text_cong(1); simp add: new_line_def)+
qed (simp add: new_line_def)

lemma tab_step:
  assumes "cursor_at t c" "trow t < text_rows c"
  defines "t1 \<equiv> term_wrap (text_cols c) (t\<lparr>tcol := (tcol t div 4 + 1) * 4\<rparr>)"
    and "c1 \<equiv> wrap_line (c\<lparr>cursor_x := (cursor_x c div 32 + 1) * 32\<rparr>)"
  shows "cursor_at t1 c1" "grid t1 = grid t" "shows_text g c1 = shows_text g c" "text_rows c1 = text_rows c"
proof -
  let ?c = "c\<lparr>cursor_x := (cursor_x c div 32 + 1) * 32\<rparr>"
  have dv: "unat (cursor_x c div 32) = tcol t div 4" using assms(1) by (simp add: cursor_at_def unat_div)
  have b: "(tcol t div 4 + 1) * 32 < 2 ^ 32" using cursor_small(1) [OF assms(1,2)] by simp
  then have u: "unat (cursor_x c div 32 + 1) = tcol t div 4 + 1" using dv by (subst unat_add_no_wrap) auto
  have "unat (q * 32) = unat q * 32" if "unat q * 32 < 2 ^ 32" for q :: u32 using that by (simp add: unat_word_ariths)
  then have "unat ((cursor_x c div 32 + 1) * 32) = (tcol t div 4 + 1) * 32" using b unfolding u [symmetric] .
  moreover have "screen_ok ?c = screen_ok c" by (rule screen_ok_cong) simp_all
  ultimately show "cursor_at t1 c1"
    using wrap_line_at [of ?c "t\<lparr>tcol := (tcol t div 4 + 1) * 4\<rparr>"] assms(1,2) by (simp add: t1_def c1_def cursor_at_def)
  show "grid t1 = grid t" by (simp add: t1_def term_wrap_def)
  show "shows_text g c1 = shows_text g c" unfolding c1_def wrap_line_text by (rule shows_text_cong) simp_all
  show "text_rows c1 = text_rows c" unfolding c1_def text_rows_def wrap_line_text by simp
qed

lemma letter_step:
  fixes ch :: u8
  assumes "cursor_at t c" "trow t < text_rows c" "shows_text (grid t) c"
  defines "t1 \<equiv> term_wrap (text_cols c) ((term_set ch t)\<lparr>tcol := tcol t + 1\<rparr>)"
    and "c1 \<equiv> wrap_line ((draw_glyph ch c)\<lparr>cursor_x := cursor_x (draw_glyph ch c) + 8\<rparr>)"
  shows "cursor_at t1 c1" "shows_text (grid t1) c1" "text_rows c1 = text_rows c"
proof -
  define d where "d = draw_glyph ch c"
  have c1: "c1 = wrap_line (d\<lparr>cursor_x := cursor_x d + 8\<rparr>)" by (simp add: c1_def d_def)
  note P = shows_text_put [OF assms(1-3) refl, of ch, folded draw_glyph_def, folded d_def]
  note H = same_frameD [OF fill_cell_frame [of c "cursor_x c" "cursor_y c" 0 16 "glyph_color ch c"], folded draw_glyph_def, folded d_def]
  let ?t = "(term_set ch t)\<lparr>tcol := tcol t + 1\<rparr>" and ?c = "d\<lparr>cursor_x := cursor_x d + 8\<rparr>"
  have cs: "text_cols ?c = text_cols c" "text_rows ?c = text_rows c" using H(1,2) by (simp_all add: text_cols_def text_rows_def)
  have "unat (cursor_x d + 8) = 8 * (tcol t + 1)"
    using assms(1) cursor_small(1) [OF assms(1,2)] H(7) by (subst unat_add_no_wrap) (auto simp: cursor_at_def)
  moreover have "screen_ok ?c" using P(2) screen_ok_cong [of ?c d] by (simp add: cursor_at_def)
  ultimately show "cursor_at t1 c1"
    using wrap_line_at [of ?c ?t] assms(1,2) H(8) cs by (simp add: t1_def c1 term_set_def cursor_at_def)
  have "grid t1 = grid (term_set ch t)" by (simp add: t1_def term_wrap_def)
  moreover have "shows_text g c1 = shows_text g d" for g unfolding c1 wrap_line_text by (rule shows_text_cong) simp_all
  ultimately show "shows_text (grid t1) c1" using P(1) by simp
  show "text_rows c1 = text_rows c" using cs(2) unfolding c1 text_rows_def wrap_line_text by simp
qed

lemma kput_char_step:
  assumes "displays t c"
  shows "displays (term_put (text_rows c) (text_cols c) ch t) (kput_char ch c)"
proof -
  define c0 where "c0 = fb_draw_cursor False c"
  have at: "cursor_at t c" "trow t < text_rows c" using assms by (simp_all add: displays_def)
  note E = erase_cursor [OF at(1) outside_bar(1) [OF assms], folded c0_def]
  have size: "text_rows c0 = text_rows c" "text_cols c0 = text_cols c" by (simp_all add: c0_def text_rows_def text_cols_def)
  have row: "trow t < text_rows c0" using at(2) size by simp
  show ?thesis
  proof (cases "ch = 8")
    case True
    have "kput_char ch c = kbackspace c0" using True by (simp add: kput_char_def c0_def Let_def)
    then show ?thesis using kbackspace_displays [OF E(2) row outside_bar(2) [OF E(1)]] True size by (simp add: term_put_def)
  next
    case False
    define t1 where "t1 = (if ch = 10 then t\<lparr>tcol := 0, trow := trow t + 1\<rparr>
         else if ch = 13 then t\<lparr>tcol := 0\<rparr>
         else if ch = 9 then term_wrap (text_cols c0) (t\<lparr>tcol := (tcol t div 4 + 1) * 4\<rparr>)
         else if 32 \<le> ch \<and> ch \<le> 126 then term_wrap (text_cols c0) ((term_set ch t)\<lparr>tcol := tcol t + 1\<rparr>)
         else t)"
    define c1 where "c1 = (if ch = 10 then new_line c0
        else if ch = 13 then c0\<lparr>cursor_x := 0\<rparr>
        else if ch = 9 then wrap_line (c0\<lparr>cursor_x := (cursor_x c0 div 32 + 1) * 32\<rparr>)
        else if 32 \<le> ch \<and> ch \<le> 126 then let d = draw_glyph ch c0 in wrap_line (d\<lparr>cursor_x := cursor_x d + 8\<rparr>)
        else c0)"
    have k: "kput_char ch c = fb_draw_cursor True ((if cursor_y c1 + 16 > fb_height c1 then fb_scroll c1 else c1)
        \<lparr>cursor_is_visible := True, cursor_blink_counter := 0\<rparr>)"
      using False unfolding kput_char_def c1_def c0_def Let_def by (simp only: if_False)
    have p: "term_put (text_rows c) (text_cols c) ch t = term_scroll (text_rows c) t1"
      using False unfolding term_put_def t1_def size by (simp only: if_False)
    have "cursor_at t1 c1 \<and> shows_text (grid t1) c1 \<and> text_rows c1 = text_rows c"
      using new_line_step [OF E(2) row] tab_step [OF E(2) row] letter_step [OF E(2) row E(1), of ch] E size
      unfolding t1_def c1_def Let_def by auto
    then show ?thesis using put_char_end [of t1 c1] unfolding k p by simp
  qed
qed

text \<open>C34: The graphical console implements a text terminal. If the frame buffer shows a terminal (every pixel, with
  the cursor), then after printing a string it shows the terminal on which the characters of the string were put
  one by one: letters, line breaks, tabs, backspaces, wrapped lines and scrolling.\<close>

theorem kprint_displays:
  assumes "displays t c"
  shows "displays (fold (term_put (text_rows c) (text_cols c)) (content str) t) (kprint str c)"
proof -
  have "displays (fold (term_put (text_rows c) (text_cols c)) cs t) (fold kput_char cs c)" for cs
    using assms
  proof (induction cs arbitrary: t c)
    case (Cons ch cs)
    show ?case using Cons.IH [OF kput_char_step [OF Cons.prems, of ch]] by (simp add: kput_char_size)
  qed simp
  then show ?thesis by (simp add: kprint_def)
qed

text \<open>An empty screen of two characters in one line.\<close>

definition blank_console :: console where
  "blank_console = \<lparr>cursor_x = 0, cursor_y = 0, fg_color = 0xFFFFFFFF, bg_color = 0, fb = (\<lambda>a. 0), fb_null = False, fb_width = 16,
     fb_height = 16, fb_pitch = 48, fb_bpp = 24, cursor_blink_counter = 0, cursor_is_visible = False, mouse_bg_backup = replicate 228 0,
     mouse_saved_x = - 1, mouse_saved_y = - 1, mouse_saved_w = 0, mouse_saved_h = 0, mouse_rendered = False, console_lock = 0,
     console_eflags = 0, spinner_counter = 0, spinner_frame = 0, was_spinner_active = False\<rparr>"

definition blank_terminal :: terminal where
  "blank_terminal = \<lparr>grid = (\<lambda>r c. 32), trow = 0, tcol = 0\<rparr>"

lemma blank_displays: "displays blank_terminal blank_console"
proof -
  have "pix blank_console X Y = 0" for X Y by (simp add: pix_def fb_get_pixel_def blank_console_def Let_def)
  moreover have "text_pixel (grid blank_terminal) blank_console X Y = 0" for X Y
    by (simp add: text_pixel_def blank_terminal_def glyph_color_blank) (simp add: norm_color_def blank_console_def)
  moreover have "cursor_at blank_terminal blank_console \<and> trow blank_terminal < text_rows blank_console"
    by (simp add: cursor_at_def screen_ok_def text_rows_def text_cols_def norm_color_def blank_console_def blank_terminal_def)
  ultimately show ?thesis by (simp add: displays_def) (simp add: blank_console_def)
qed

theorem kprint_displays_witness:
  "displays (fold (term_put 1 2) [65, 10, 66] blank_terminal) (kprint [65, 10, 66] blank_console) \<and>
    grid (fold (term_put 1 2) [65, 10, 66] blank_terminal) 0 0 = 66"
proof -
  have "content [65, 10, 66 :: u8] = [65, 10, 66]" by simp
  moreover have "text_rows blank_console = 1" "text_cols blank_console = 2"
    by (simp_all add: text_rows_def text_cols_def blank_console_def)
  ultimately show ?thesis
    using kprint_displays [OF blank_displays, of "[65, 10, 66]"]
    by (simp add: term_put_def term_set_def term_wrap_def term_scroll_def blank_terminal_def)
qed

end
