(* ===== verification/Kservices.thy ===== *)
theory Kservices
  imports Syscall
begin

text \<open>
  The services of \<open>kernel_services/kernel_services.c\<close> that the shell and the start of the kernel use:
  formatted output through the cached node of \<open>/dev/stdout\<close>, and the sound files. The buffer of
  \<open>kprintf\<close> has 2048 bytes, the last for the terminator. The sound card is a parameter. \<open>cached\<close> is the
  static variable \<open>cached_stdio\<close>, which the functions take and return. Log messages are left out.
\<close>

section \<open>Standard output\<close>

definition VFS_STDOUT_NODE :: cstr where
  "VFS_STDOUT_NODE = bytes ''/dev/stdout''"

definition cache_stdio_node :: "u32 \<Rightarrow> sys_state \<Rightarrow> (u32 \<times> sys_state) option" where
  "cache_stdio_node cached s = (if cached = 0 then vfs_open open_node VFS_STDOUT_NODE s else Some (cached, s))"

text \<open>\<open>kput_char\<close> and \<open>kprint\<close>, as far as the record of the characters goes.\<close>

definition console_print :: "u8 list \<Rightarrow> sys_state \<Rightarrow> sys_state" where
  "console_print cs s = s\<lparr>console_out := console_out s @ cs\<rparr>"

definition kout_str :: "sys_env \<Rightarrow> cstr option \<Rightarrow> u32 \<Rightarrow> sys_state \<Rightarrow> (u32 \<times> sys_state) option" where
  "kout_str env str cached s =
     do {
       let t = content (case str of None \<Rightarrow> null_text | Some t \<Rightarrow> t);
       (node, s1) \<leftarrow> cache_stdio_node cached s;
       if node \<noteq> 0 then do { (w, s2) \<leftarrow> node_write env node 0 (of_nat (length t)) t s1; Some (node, s2) }
       else Some (node, console_print t s1)
     }"

section \<open>Formatted output\<close>

text \<open>The loops that store while \<open>len < sizeof(buffer) - 1\<close>.\<close>

definition put_room :: "u8 list \<Rightarrow> u8 list \<Rightarrow> u8 list" where
  "put_room t out = out @ take (2047 - length out) t"

definition pad_with :: "u8 \<Rightarrow> int \<Rightarrow> u8 list \<Rightarrow> u8 list" where
  "pad_with c n out = out @ replicate (min (nat n) (2047 - length out)) c"

text \<open>A text in a field: filled with \<open>fill_char\<close> on the left, or with blanks on the right.\<close>

definition put_field :: "u8 \<Rightarrow> bool \<Rightarrow> int \<Rightarrow> u8 list \<Rightarrow> u8 list \<Rightarrow> u8 list" where
  "put_field fill_char left width t out =
     (let n = width - int (length t);
          out1 = (if \<not> left \<and> n > 0 then pad_with fill_char n out else out);
          out2 = put_room t out1
      in if left \<and> n > 0 then pad_with 32 n out2 else out2)"

fun skip_flags :: "cstr \<Rightarrow> bool \<Rightarrow> bool \<Rightarrow> bool \<times> bool \<times> cstr" where
  "skip_flags [] zero left = (zero, left, [])"
| "skip_flags (c # cs) zero left =
     (if c = 48 then skip_flags cs True left
      else if c = 45 then skip_flags cs zero True
      else (zero, left, c # cs))"

fun read_width :: "cstr \<Rightarrow> u32 \<Rightarrow> u32 \<times> cstr" where
  "read_width [] w = (w, [])"
| "read_width (c # cs) w = (if 48 \<le> c \<and> c \<le> 57 then read_width cs (w * 10 + (ucast c - 48)) else (w, c # cs))"

definition hex_upper :: "u8 \<Rightarrow> u8" where
  "hex_upper c = (if 97 \<le> c \<and> c \<le> 102 then c - 97 + 65 else c)"

definition put_signed :: "bool \<Rightarrow> bool \<Rightarrow> int \<Rightarrow> u32 \<Rightarrow> cstr \<Rightarrow> u8 list \<Rightarrow> u8 list" where
  "put_signed zero left width v numbuf out =
     (if sint v < 0 \<and> zero
      then put_room (tl numbuf) (pad_with 48 (width - int (length numbuf)) (put_room [45] out))
      else put_field (if zero then 48 else 32) left width numbuf out)"

text \<open>One conversion, \<open>zero\<close> and \<open>left\<close> its flags; \<open>None\<close> when the arguments do not fit the format.\<close>

definition kprintf_conv ::
  "u8 \<Rightarrow> bool \<Rightarrow> bool \<Rightarrow> int \<Rightarrow> printf_arg list \<Rightarrow> u8 list \<Rightarrow> (u8 list \<times> printf_arg list) option"
where
  "kprintf_conv p zero left width args out =
     (if p = 99
      then (case args of ArgInt v # as \<Rightarrow> Some (put_field 32 left width [ucast v] out, as) | _ \<Rightarrow> None)
      else if p = 115
      then (case args of
              ArgStr t # as \<Rightarrow>
                Some (put_field 32 left width (content (case t of None \<Rightarrow> null_text | Some t \<Rightarrow> t)) out, as)
            | _ \<Rightarrow> None)
      else if p = 100 \<or> p = 105
      then (case args of
              ArgInt v # as \<Rightarrow> do { numbuf \<leftarrow> itoa v 10; Some (put_signed zero left width v numbuf out, as) }
            | _ \<Rightarrow> None)
      else if p = 117
      then (case args of
              ArgInt v # as \<Rightarrow>
                do { numbuf \<leftarrow> itoa v 10; Some (put_field (if zero then 48 else 32) left width numbuf out, as) }
            | _ \<Rightarrow> None)
      else if p = 120 \<or> p = 88 \<or> p = 112
      then (case args of
              ArgInt v # as \<Rightarrow>
                do {
                  numbuf \<leftarrow> itoa v 16;
                  let numbuf = (if p = 88 then map hex_upper numbuf else numbuf);
                  let out1 = (if p = 112 \<and> length out + 2 < 2047 then out @ [48, 120] else out);
                  Some (put_field (if zero then 48 else 32) left width numbuf out1, as)
                }
            | _ \<Rightarrow> None)
      else if p = 37 then Some (out @ [37], args)
      else Some (put_room [p] (out @ [37]), args))"

lemma skip_flags_length: "skip_flags cs z l = (z', l', r) \<Longrightarrow> length r \<le> length cs"
  by (induction cs z l rule: skip_flags.induct) (fastforce split: if_splits)+

lemma read_width_length: "read_width cs w = (w', r) \<Longrightarrow> length r \<le> length cs"
  by (induction cs w rule: read_width.induct) (fastforce split: if_splits)+

function kprintf_loop :: "cstr \<Rightarrow> printf_arg list \<Rightarrow> u8 list \<Rightarrow> u8 list option" where
  "kprintf_loop [] args out = Some out"
| "kprintf_loop (c # cs) args out =
     (if c = 0 \<or> \<not> length out < 2047 then Some out
      else if c \<noteq> 37 then kprintf_loop cs args (out @ [c])
      else if deref cs = 0 then Some out
      else case skip_flags cs False False of
        (zero, left, r) \<Rightarrow>
          (case read_width r 0 of
             (width, q) \<Rightarrow>
               if deref q = 0 then Some out
               else (case kprintf_conv (deref q) (zero \<and> \<not> left) left (sint width) args out of
                       None \<Rightarrow> None
                     | Some (out', args') \<Rightarrow> kprintf_loop (tl q) args' out')))"
  by pat_completeness auto
termination
  by (relation "measure (\<lambda>(fmt, args, out). length fmt)")
    (auto dest!: sym [of "(_, _, _)" "skip_flags _ _ _"] sym [of "(_, _)" "read_width _ _"] skip_flags_length read_width_length
      simp: less_Suc_eq_le)

definition kprintf :: "sys_env \<Rightarrow> cstr \<Rightarrow> printf_arg list \<Rightarrow> u32 \<Rightarrow> sys_state \<Rightarrow> (u32 \<times> sys_state) option" where
  "kprintf env fmt args cached s = do { out \<leftarrow> kprintf_loop fmt args []; kout_str env (Some out) cached s }"

lemma length_put_room: "length out \<le> 2047 \<Longrightarrow> length (put_room t out) \<le> 2047"
  by (simp add: put_room_def)

lemma length_pad_with: "length out \<le> 2047 \<Longrightarrow> length (pad_with c n out) \<le> 2047"
  by (simp add: pad_with_def)

lemma length_put_field: "length out \<le> 2047 \<Longrightarrow> length (put_field c left n t out) \<le> 2047"
  by (simp add: put_field_def Let_def length_put_room length_pad_with)

lemma length_put_signed: "length out \<le> 2047 \<Longrightarrow> length (put_signed z left n v t out) \<le> 2047"
  by (simp add: put_signed_def length_put_field length_put_room length_pad_with)

lemma kprintf_conv_bounded:
  "kprintf_conv p zero left width args out = Some (out', args') \<Longrightarrow> length out < 2047 \<Longrightarrow> length out' \<le> 2047"
  by (auto simp: kprintf_conv_def Let_def length_put_field length_put_signed length_put_room
      split: if_splits list.splits printf_arg.splits bind_splits)

text \<open>\<open>kprintf\<close> never stores behind its buffer, whatever the widths are.\<close>

lemma kprintf_bounded:
  "kprintf_loop fmt args out = Some out' \<Longrightarrow> length out \<le> 2047 \<Longrightarrow> length out' \<le> 2047"
proof (induction fmt args out rule: kprintf_loop.induct)
  case (2 c cs args out)
  show ?case
  proof (cases "c = 0 \<or> \<not> length out < 2047 \<or> (c = 37 \<and> deref cs = 0)")
    case True
    then show ?thesis using 2 by (auto split: if_splits)
  next
    case False
    show ?thesis
    proof (cases "c = 37")
      case False
      then show ?thesis using 2 \<open>\<not> (c = 0 \<or> _)\<close> by simp
    next
      case True
      obtain zero left r where f: "skip_flags cs False False = (zero, left, r)" by (cases "skip_flags cs False False")
      obtain width q where w: "read_width r 0 = (width, q)" by (cases "read_width r 0")
      show ?thesis
        using 2 True False f w kprintf_conv_bounded
        by (auto split: if_splits option.splits prod.splits)
    qed
  qed
qed simp

section \<open>Sound files\<close>

text \<open>\<open>fmt\<close> is the format chunk, 24 bytes, which is not initialised; the result is the format with the
  place and the length of the samples. The loop goes on as long as eight bytes can be read.\<close>

partial_function (option) wav_scan ::
  "sys_env \<Rightarrow> u32 \<Rightarrow> u32 \<Rightarrow> u8 list \<Rightarrow> sys_state \<Rightarrow> (u8 list \<times> u32 \<times> u32 \<times> sys_state) option"
where
  "wav_scan env node offset fmt s =
     do {
       (n, hdr, s1) \<leftarrow> node_read env node offset 8 (replicate 8 0) s;
       if n \<noteq> 8 then Some (fmt, 0, 0, s1)
       else if strncmp hdr (bytes ''fmt '') 4 = 0
       then do {
         (m, b, s2) \<leftarrow> node_read env node (offset + 8) 16 (drop 8 fmt) s1;
         wav_scan env node (offset + (8 + le32 hdr 4)) (hdr @ b) s2
       }
       else if strncmp hdr (bytes ''data'') 4 = 0 then Some (fmt, offset + 8, le32 hdr 4, s1)
       else wav_scan env node (offset + (8 + le32 hdr 4)) fmt s1
     }"

text \<open>What is given to the sound card: the samples, rate, channels and bits.\<close>

definition wav_play ::
  "sys_env \<Rightarrow> (u8 list \<Rightarrow> u32 \<Rightarrow> u16 \<Rightarrow> u16 \<Rightarrow> sys_state \<Rightarrow> sys_state option) \<Rightarrow> u32 \<Rightarrow> u8 list \<Rightarrow> u32 \<Rightarrow> u32
   \<Rightarrow> sys_state \<Rightarrow> sys_state option"
where
  "wav_play env play node fmt data_offset data_size s =
     (if data_size > 0 \<and> le16 fmt 8 = 1
      then do {
        (p, s1) \<leftarrow> kmem_alloc data_size s;
        if p = 0 then Some s1
        else do {
          (n, samples, s2) \<leftarrow> node_read env node data_offset data_size (replicate (unat data_size) 0) s1;
          s3 \<leftarrow> play samples (le32 fmt 12) (le16 fmt 10) (le16 fmt 22) s2;
          Some (kmem_free p s3)
        }
      }
      else Some s)"

definition kplay_sound_file ::
  "sys_env \<Rightarrow> bool \<Rightarrow> (u8 list \<Rightarrow> u32 \<Rightarrow> u16 \<Rightarrow> u16 \<Rightarrow> sys_state \<Rightarrow> sys_state option) \<Rightarrow> u8 list \<Rightarrow> cstr
   \<Rightarrow> sys_state \<Rightarrow> sys_state option"
where
  "kplay_sound_file env present play fmt path s =
     (if \<not> present then Some s
      else do {
        (node, s1) \<leftarrow> open_any path s;
        if node = 0 then Some s1
        else do {
          (n, hdr, s2) \<leftarrow> node_read env node 0 12 (replicate 12 0) s1;
          if n \<noteq> 12 \<or> strncmp hdr (bytes ''RIFF'') 4 \<noteq> 0 \<or> strncmp (drop 8 hdr) (bytes ''WAVE'') 4 \<noteq> 0
          then node_close node s2
          else do {
            (fmt', data_offset, data_size, s3) \<leftarrow> wav_scan env node 12 fmt s2;
            s4 \<leftarrow> wav_play env play node fmt' data_offset data_size s3;
            node_close node s4
          }
        }
      })"

text \<open>The three sounds: the first of the files that can be opened, else \<open>fallback\<close>.\<close>

fun first_sound ::
  "sys_env \<Rightarrow> bool \<Rightarrow> (u8 list \<Rightarrow> u32 \<Rightarrow> u16 \<Rightarrow> u16 \<Rightarrow> sys_state \<Rightarrow> sys_state option) \<Rightarrow> u8 list \<Rightarrow> cstr list
   \<Rightarrow> cstr option \<Rightarrow> sys_state \<Rightarrow> sys_state option"
where
  "first_sound env present play fmt [] fallback s =
     (case fallback of None \<Rightarrow> Some s | Some f \<Rightarrow> kplay_sound_file env present play fmt f s)"
| "first_sound env present play fmt (p # ps) fallback s =
     do {
       (node, s1) \<leftarrow> open_any p s;
       if node \<noteq> 0 then do { s2 \<leftarrow> node_close node s1; kplay_sound_file env present play fmt p s2 }
       else first_sound env present play fmt ps fallback s1
     }"

definition ksound_notify ::
  "sys_env \<Rightarrow> bool \<Rightarrow> (u8 list \<Rightarrow> u32 \<Rightarrow> u16 \<Rightarrow> u16 \<Rightarrow> sys_state \<Rightarrow> sys_state option) \<Rightarrow> u8 list \<Rightarrow> sys_state \<Rightarrow> sys_state option"
where
  "ksound_notify env present play fmt =
     first_sound env present play fmt [bytes ''/system/assets/sounds/notifications/blip.wav'']
       (Some (bytes ''/notification_blip.wav''))"

definition ksound_error ::
  "sys_env \<Rightarrow> bool \<Rightarrow> (u8 list \<Rightarrow> u32 \<Rightarrow> u16 \<Rightarrow> u16 \<Rightarrow> sys_state \<Rightarrow> sys_state option) \<Rightarrow> u8 list \<Rightarrow> sys_state \<Rightarrow> sys_state option"
where
  "ksound_error env present play fmt =
     first_sound env present play fmt [bytes ''/system/assets/sounds/errors/blip.wav''] (Some (bytes ''/error_blip.wav''))"

definition ksound_boot ::
  "sys_env \<Rightarrow> bool \<Rightarrow> (u8 list \<Rightarrow> u32 \<Rightarrow> u16 \<Rightarrow> u16 \<Rightarrow> sys_state \<Rightarrow> sys_state option) \<Rightarrow> u8 list \<Rightarrow> sys_state \<Rightarrow> sys_state option"
where
  "ksound_boot env present play fmt =
     first_sound env present play fmt
       [bytes ''/system/assets/sounds/system/startup.wav'', bytes ''/system_startup.wav'', bytes ''/startup.wav''] None"

text \<open>A chunk of unknown kind with the size \<open>0xFFFFFFF8\<close> is followed by itself: the scan never ends.\<close>

lemma wav_scan_loops:
  assumes read: "node_read env node offset 8 (replicate 8 0) s = Some (8, hdr, s)"
    and kind: "strncmp hdr (bytes ''fmt '') 4 \<noteq> 0" "strncmp hdr (bytes ''data'') 4 \<noteq> 0"
    and sz: "le32 hdr 4 = 0xFFFFFFF8"
  shows "wav_scan env node offset fmt s = None"
proof -
  have again: "offset + (8 + le32 hdr 4) = offset" unfolding sz by simp
  let ?P = "\<lambda>e n p f t (r :: u8 list \<times> u32 \<times> u32 \<times> sys_state). \<not> (e = env \<and> n = node \<and> p = offset \<and> t = s)"
  have "?P env node offset fmt s r" if "wav_scan env node offset fmt s = Some r" for r
  proof (rule wav_scan.raw_induct [where P = ?P, OF _ that])
    fix g e n p f t r'
    assume IH: "\<And>e n p f t r. g e n p f t = Some r \<Longrightarrow> ?P e n p f t r"
      and run: "node_read e n p 8 (replicate 8 0) t \<bind> (\<lambda>(k, hdr, s1).
        if k \<noteq> 8 then Some (f, 0, 0, s1)
        else if strncmp hdr (bytes ''fmt '') 4 = 0
        then node_read e n (p + 8) 16 (drop 8 f) s1 \<bind> (\<lambda>(m, b, s2). g e n (p + (8 + le32 hdr 4)) (hdr @ b) s2)
        else if strncmp hdr (bytes ''data'') 4 = 0 then Some (f, p + 8, le32 hdr 4, s1)
        else g e n (p + (8 + le32 hdr 4)) f s1) = Some r'"
    have "g env node offset f s = Some r'" if "e = env \<and> n = node \<and> p = offset \<and> t = s"
      using run that by (simp only: read kind again bind.bind_lunit prod.case if_False simp_thms)
    then show "?P e n p f t r'" using IH by blast
  qed
  then show ?thesis by (cases "wav_scan env node offset fmt s") auto
qed

end
