(* ===== verification/Shell_Line.thy ===== *)
theory Shell_Line
  imports Kservices "HOL-Library.Sublist"
begin

text \<open>
  The command line of the kernel shell, \<open>progs/shell/shell.c\<close>: the ring of the last 50 commands, the
  completion of file names and the line editor over the keyboard and the console. The static variables
  of the file are \<open>shell_state\<close>; the C integers that are never negative are natural numbers, and
  \<open>(history_end - offset + 50) % 50\<close> is written with the sum first. Arrays are lists of their length.
  What the other tasks do while the shell waits for a key is the list of functions of Keyboard.
\<close>

section \<open>State\<close>

definition HISTORY_SIZE :: nat where "HISTORY_SIZE = 50"
definition KEY_UP :: u16 where "KEY_UP = 0xE000"
definition KEY_DOWN :: u16 where "KEY_DOWN = 0xE001"

record shell_state =
  cmd_history :: "u8 list list"
  history_start :: nat
  history_end :: nat
  history_count :: nat
  comp_prefix :: "u8 list"
  comp_prefix_len :: nat
  comp_match :: "u8 list"
  comp_match_count :: nat
  cached_stdio :: u32

definition boot_shell :: shell_state where
  "boot_shell = \<lparr>cmd_history = replicate 50 (replicate 128 0), history_start = 0, history_end = 0, history_count = 0,
     comp_prefix = replicate 128 0, comp_prefix_len = 0, comp_match = replicate 128 0, comp_match_count = 0,
     cached_stdio = 0\<rparr>"

section \<open>History\<close>

definition history_add :: "cstr \<Rightarrow> shell_state \<Rightarrow> shell_state option" where
  "history_add cmd sh =
     (if deref cmd = 0 then Some sh
      else let last_idx = (if history_end sh = 0 then HISTORY_SIZE - 1 else history_end sh - 1)
           in if history_count sh > 0 \<and> strcmp (cmd_history sh ! last_idx) cmd = 0 then Some sh
              else do {
                d \<leftarrow> strncpy (cmd_history sh ! history_end sh) cmd 127;
                d' \<leftarrow> put d 127 0;
                let sh1 = sh\<lparr>cmd_history := (cmd_history sh)[history_end sh := d'],
                             history_end := (history_end sh + 1) mod HISTORY_SIZE\<rparr>;
                Some (if history_count sh < HISTORY_SIZE then sh1\<lparr>history_count := history_count sh + 1\<rparr>
                      else sh1\<lparr>history_start := (history_start sh + 1) mod HISTORY_SIZE\<rparr>)
              })"

text \<open>The command that was entered \<open>offset\<close> commands ago.\<close>

definition history_at :: "nat \<Rightarrow> shell_state \<Rightarrow> u8 list" where
  "history_at offset sh = cmd_history sh ! ((history_end sh + HISTORY_SIZE - offset) mod HISTORY_SIZE)"

section \<open>Completion\<close>

text \<open>How far the loop of \<open>tab_visitor\<close> runs.\<close>

fun common_len :: "cstr \<Rightarrow> cstr \<Rightarrow> nat" where
  "common_len (a # as) (b # bs) = (if a \<noteq> 0 \<and> b \<noteq> 0 \<and> a = b then Suc (common_len as bs) else 0)"
| "common_len _ _ = 0"

definition tab_visitor :: "u8 list \<times> cstr \<Rightarrow> shell_state \<Rightarrow> shell_state option" where
  "tab_visitor item sh =
     (let lfn_name = snd item; n = comp_prefix_len sh
      in if strncmp lfn_name (comp_prefix sh) n = 0
         then do {
           m \<leftarrow> (if comp_match_count sh = 0 then do { m \<leftarrow> strncpy (comp_match sh) lfn_name 127; put m 127 0 }
                 else put (comp_match sh) (n + common_len (drop n (comp_match sh)) (drop n lfn_name)) 0);
           Some (sh\<lparr>comp_match := m, comp_match_count := comp_match_count sh + 1\<rparr>)
         }
         else Some sh)"

definition visit_dir :: "sys_state \<Rightarrow> shell_state \<Rightarrow> shell_state option" where
  "visit_dir s sh = do { items \<leftarrow> fat16_list s; fold_opt tab_visitor items sh }"

text \<open>The first word of a line is looked for among the commands and in the working directory, any
  other word in the directory that it names.\<close>

definition complete_search :: "nat \<Rightarrow> shell_state \<Rightarrow> sys_state \<Rightarrow> (shell_state \<times> sys_state) option" where
  "complete_search word_start sh s =
     (let old_cwd = take 255 (current_path s)
      in if word_start = 0
         then do {
           (r, s1) \<leftarrow> fat16_chdir (bytes ''/system/bin/usr/commands'') s;
           sh1 \<leftarrow> (if r = 0 then visit_dir s1 sh else Some sh);
           (r', s2) \<leftarrow> fat16_chdir old_cwd s1;
           sh2 \<leftarrow> visit_dir s2 sh1;
           Some (sh2, s2)
         }
         else case strrchr (comp_prefix sh) 47 of
           None \<Rightarrow> do { sh1 \<leftarrow> visit_dir s sh; Some (sh1, s) }
         | Some last_slash \<Rightarrow> do {
             let dir_len = length (comp_prefix sh) - length last_slash;
             let dir_path = (if dir_len = 0 then [47] else take dir_len (comp_prefix sh));
             let file_prefix = content (tl last_slash);
             p \<leftarrow> strcpy (comp_prefix sh) file_prefix;
             let sh1 = sh\<lparr>comp_prefix := p, comp_prefix_len := strlen p\<rparr>;
             (r, s1) \<leftarrow> fat16_chdir dir_path s;
             sh2 \<leftarrow> (if r = 0 then visit_dir s1 sh1 else Some sh1);
             (r', s2) \<leftarrow> fat16_chdir old_cwd s1;
             Some (sh2, s2)
           })"

section \<open>The line editor\<close>

text \<open>\<open>buffer\<close>, \<open>cursor_pos\<close>, \<open>history_offset\<close> and \<open>typing_buf\<close> of \<open>shell_read_line\<close>.\<close>

record line_editor =
  ed_buffer :: "u8 list"
  cursor_pos :: nat
  history_offset :: nat
  typing_buf :: "u8 list"

text \<open>The cursor steps back over the line on the screen, and another line is put in its place.\<close>

definition replace_line :: "nat \<Rightarrow> cstr \<Rightarrow> line_editor \<Rightarrow> sys_state \<Rightarrow> (line_editor \<times> sys_state) option" where
  "replace_line max_size src ed s =
     do {
       let s1 = console_print (replicate (cursor_pos ed) 8) s;
       b \<leftarrow> strncpy (ed_buffer ed) src (max_size - 1);
       b' \<leftarrow> put b (max_size - 1) 0;
       Some (ed\<lparr>ed_buffer := b', cursor_pos := strlen b'\<rparr>, console_print (content b') s1)
     }"

definition key_up :: "nat \<Rightarrow> line_editor \<Rightarrow> shell_state \<Rightarrow> sys_state \<Rightarrow> (line_editor \<times> sys_state) option" where
  "key_up max_size ed sh s =
     (if history_offset ed < history_count sh
      then do {
        ed1 \<leftarrow> (if history_offset ed = 0
          then do {
            b \<leftarrow> put (ed_buffer ed) (cursor_pos ed) 0;
            t \<leftarrow> strncpy (typing_buf ed) b 127;
            Some (ed\<lparr>ed_buffer := b, typing_buf := t\<rparr>)
          }
          else Some ed);
        let off = history_offset ed + 1;
        replace_line max_size (history_at off sh) (ed1\<lparr>history_offset := off\<rparr>) s
      }
      else Some (ed, s))"

definition key_down :: "nat \<Rightarrow> line_editor \<Rightarrow> shell_state \<Rightarrow> sys_state \<Rightarrow> (line_editor \<times> sys_state) option" where
  "key_down max_size ed sh s =
     (if history_offset ed > 0
      then let off = history_offset ed - 1
           in replace_line max_size (if off = 0 then typing_buf ed else history_at off sh) (ed\<lparr>history_offset := off\<rparr>) s
      else Some (ed, s))"

text \<open>Characters that are typed, or put in by the completion, until the line is full.\<close>

fun type_chars :: "nat \<Rightarrow> u8 list \<Rightarrow> line_editor \<Rightarrow> sys_state \<Rightarrow> (line_editor \<times> sys_state) option" where
  "type_chars max_size [] ed s = Some (ed, s)"
| "type_chars max_size (c # cs) ed s =
     (if cursor_pos ed < max_size - 1
      then do {
        b \<leftarrow> put (ed_buffer ed) (cursor_pos ed) c;
        type_chars max_size cs (ed\<lparr>ed_buffer := b, cursor_pos := cursor_pos ed + 1\<rparr>) (console_print [c] s)
      }
      else Some (ed, s))"

fun word_start :: "u8 list \<Rightarrow> nat \<Rightarrow> nat" where
  "word_start b 0 = 0"
| "word_start b (Suc n) = (if b ! n \<noteq> 32 then word_start b n else Suc n)"

definition key_tab ::
  "nat \<Rightarrow> line_editor \<Rightarrow> shell_state \<Rightarrow> sys_state \<Rightarrow> (line_editor \<times> shell_state \<times> sys_state) option"
where
  "key_tab max_size ed sh s =
     (let ws = word_start (ed_buffer ed) (cursor_pos ed); len = cursor_pos ed - ws
      in if len < 128
         then do {
           p \<leftarrow> strncpy (comp_prefix sh) (drop ws (ed_buffer ed)) len;
           p' \<leftarrow> put p len 0;
           let sh1 = sh\<lparr>comp_prefix := p', comp_prefix_len := len\<rparr>;
           if len > 0
           then do {
             m \<leftarrow> put (comp_match sh1) 0 0;
             (sh2, s1) \<leftarrow> complete_search ws (sh1\<lparr>comp_match := m, comp_match_count := 0\<rparr>) s;
             if comp_match_count sh2 > 0
             then do {
               (ed1, s2) \<leftarrow> type_chars max_size (drop (comp_prefix_len sh2) (content (comp_match sh2))) ed s1;
               b \<leftarrow> put (ed_buffer ed1) (cursor_pos ed1) 0;
               Some (ed1\<lparr>ed_buffer := b\<rparr>, sh2, s2)
             }
             else Some (ed, sh2, s1)
           }
           else Some (ed, sh1, s)
         }
         else Some (ed, sh, s))"

text \<open>The control keys that stand for the arrows and for Tab.\<close>

definition ctrl_key :: "bool \<Rightarrow> u16 \<Rightarrow> u16" where
  "ctrl_key ctrl_held key =
     (if ctrl_held
      then if key = 112 \<or> key = 80 then KEY_UP
           else if key = 110 \<or> key = 78 then KEY_DOWN
           else if key = 116 \<or> key = 84 \<or> key = 105 \<or> key = 73 then KEY_TAB
           else key
      else key)"

text \<open>One key; the first result says that the line is finished.\<close>

definition edit_key ::
  "nat \<Rightarrow> u16 \<Rightarrow> bool \<Rightarrow> line_editor \<Rightarrow> shell_state \<Rightarrow> sys_state
   \<Rightarrow> (bool \<times> line_editor \<times> shell_state \<times> sys_state) option"
where
  "edit_key max_size key0 ctrl_held ed sh s =
     (let key = ctrl_key ctrl_held key0
      in if key = 10 \<or> key = 13
         then do {
           b \<leftarrow> put (ed_buffer ed) (cursor_pos ed) 0;
           sh1 \<leftarrow> history_add b sh;
           Some (True, ed\<lparr>ed_buffer := b\<rparr>, sh1, console_print [10] s)
         }
         else if key = 8 \<or> key = 0x7F
         then (if cursor_pos ed > 0
               then do {
                 b \<leftarrow> put (ed_buffer ed) (cursor_pos ed - 1) 0;
                 Some (False, ed\<lparr>ed_buffer := b, cursor_pos := cursor_pos ed - 1\<rparr>, sh, console_print [8] s)
               }
               else Some (False, ed, sh, s))
         else if key = KEY_UP then do { (ed1, s1) \<leftarrow> key_up max_size ed sh s; Some (False, ed1, sh, s1) }
         else if key = KEY_DOWN then do { (ed1, s1) \<leftarrow> key_down max_size ed sh s; Some (False, ed1, sh, s1) }
         else if key = KEY_TAB then do { (ed1, sh1, s1) \<leftarrow> key_tab max_size ed sh s; Some (False, ed1, sh1, s1) }
         else if key < 0x80 \<and> \<not> ctrl_held \<and> 0x20 \<le> key \<and> key \<le> 0x7E
         then do { (ed1, s1) \<leftarrow> type_chars max_size [ucast key] ed s; Some (False, ed1, sh, s1) }
         else Some (False, ed, sh, s))"

text \<open>The loop; the key 0 is the release of a key, after which the shell sleeps for one tick.\<close>

partial_function (option) edit_loop ::
  "nat \<Rightarrow> line_editor \<Rightarrow> shell_state \<Rightarrow> (sys_state \<Rightarrow> sys_state) list \<Rightarrow> sys_state
   \<Rightarrow> (line_editor \<times> shell_state \<times> (sys_state \<Rightarrow> sys_state) list \<times> sys_state) option"
where
  "edit_loop max_size ed sh others s =
     do {
       (key, es, s1) \<leftarrow> keyboard_read_keycode others s;
       if key = 0
       then (case es of
               [] \<Rightarrow> None
             | e # es' \<Rightarrow> do { (sw, s2) \<leftarrow> task_sleep 1 s1; edit_loop max_size ed sh es' (e s2) })
       else do {
         (fin, ed1, sh1, s2) \<leftarrow>
           edit_key max_size key (keyboard_get_modifiers s1 AND MODIFIER_CTRL \<noteq> 0) ed sh s1;
         if fin then Some (ed1, sh1, es, s2) else edit_loop max_size ed1 sh1 es s2
       }
     }"

definition start_editor :: "u8 list \<Rightarrow> line_editor" where
  "start_editor b = \<lparr>ed_buffer = b, cursor_pos = 0, history_offset = 0, typing_buf = replicate 128 0\<rparr>"

text \<open>The line, with the array it stands in.\<close>

definition shell_read_line ::
  "u8 list \<Rightarrow> nat \<Rightarrow> shell_state \<Rightarrow> (sys_state \<Rightarrow> sys_state) list \<Rightarrow> sys_state
   \<Rightarrow> (u8 list \<times> shell_state \<times> (sys_state \<Rightarrow> sys_state) list \<times> sys_state) option"
where
  "shell_read_line buf max_size sh others s =
     do {
       b \<leftarrow> put buf 0 0;
       (ed, sh1, es, s1) \<leftarrow> edit_loop max_size (start_editor b) sh others s;
       Some (ed_buffer ed, sh1, es, s1)
     }"

section \<open>Strings in arrays\<close>

lemma strncpy_at_eq:
  "i + n \<le> length dest \<Longrightarrow>
     strncpy_at dest i src n = Some (take i dest @ take n (content src @ replicate n 0) @ drop (i + n) dest)"
proof (induction n arbitrary: dest i src)
  case (Suc n)
  let ?d = "dest[i := deref src]" and ?src = "if deref src \<noteq> 0 then tl src else src"
  have "take (Suc n) (content src @ replicate (Suc n) 0) = deref src # take n (content ?src @ replicate n 0)"
    by (cases src) (auto simp: deref_def take_replicate simp flip: replicate_Suc)
  moreover have "strncpy_at ?d (Suc i) ?src n
      = Some (take (Suc i) ?d @ take n (content ?src @ replicate n 0) @ drop (Suc i + n) ?d)"
    using Suc.prems by (intro Suc.IH) simp
  ultimately show ?case using Suc.prems by (simp add: put_def take_Suc_conv_app_nth drop_update_cancel)
qed simp

lemma strncpy_eq:
  "n \<le> length dest \<Longrightarrow> strncpy dest src n = Some (take n (content src @ replicate n 0) @ drop n dest)"
  by (simp add: strncpy_def strncpy_at_eq)

lemma content_terminated: "0 \<notin> set xs \<Longrightarrow> content (xs @ 0 # ys) = xs"
  using content_append [of xs "0 # ys"] by auto

lemma content_no_zero: "0 \<notin> set xs \<Longrightarrow> content xs = xs"
  using content_append [of xs "[]"] by auto

lemma zero_content [simp]: "0 \<notin> set (content s)"
  using content_nonzero by blast

lemma content_of_line: "k \<le> length b \<Longrightarrow> 0 \<notin> set (take k b) \<Longrightarrow> b ! k = 0 \<Longrightarrow> k < length b \<Longrightarrow> content b = take k b"
  by (metis content_terminated id_take_nth_drop)

text \<open>What \<open>strncpy(dest, src, n); dest[n] = 0\<close> leaves in \<open>dest\<close>.\<close>

definition copied :: "nat \<Rightarrow> cstr \<Rightarrow> u8 list \<Rightarrow> u8 list" where
  "copied n src dest = take n (content src @ replicate n 0) @ 0 # drop (Suc n) dest"

lemma strncpy_terminated:
  assumes "n < length dest"
  shows "strncpy dest src n \<bind> (\<lambda>d. put d n 0) = Some (copied n src dest)"
proof -
  have "(xs @ drop n dest)[n := 0] = xs @ 0 # drop (Suc n) dest" if "length xs = n" for xs
    using assms that by (auto simp: list_update_append simp flip: Cons_nth_drop_Suc)
  from this [of "take n (content src @ replicate n 0)"]
  have "(take n (content src @ replicate n 0) @ drop n dest)[n := 0] = copied n src dest"
    by (simp add: copied_def del: take_append)
  then show ?thesis using assms by (simp add: strncpy_eq put_def del: take_append)
qed

lemma length_copied [simp]: "n < length dest \<Longrightarrow> length (copied n src dest) = length dest"
  by (simp add: copied_def)

lemma content_copied [simp]: "content (copied n src dest) = take n (content src)"
proof (cases "length (content src) < n")
  case True
  then have "take n (content src @ replicate n 0) = content src @ 0 # replicate (n - length (content src) - 1) 0"
    by (cases "n - length (content src)") (simp_all add: take_Cons')
  then show ?thesis using True by (simp add: copied_def content_terminated)
next
  case False
  then show ?thesis by (simp add: copied_def content_terminated zero_content [THEN contra_subsetD [OF set_take_subset]])
qed

section \<open>The ring holds the last commands\<close>

definition hist_ok :: "shell_state \<Rightarrow> bool" where
  "hist_ok sh \<longleftrightarrow> length (cmd_history sh) = 50 \<and> (\<forall>h \<in> set (cmd_history sh). length h = 128) \<and>
     history_start sh < 50 \<and> history_count sh \<le> 50 \<and> history_end sh = (history_start sh + history_count sh) mod 50"

definition hist_list :: "shell_state \<Rightarrow> u8 list list" where
  "hist_list sh = map content (ring (cmd_history sh) (history_start sh) (history_count sh))"

lemma length_hist_list [simp]: "length (hist_list sh) = history_count sh"
  by (simp add: hist_list_def)

lemma hist_ok_end: "hist_ok sh \<Longrightarrow> history_end sh < 50"
  by (simp add: hist_ok_def)

text \<open>What is remembered of one command after the others.\<close>

definition remember :: "u8 list \<Rightarrow> u8 list list \<Rightarrow> u8 list list" where
  "remember c hs = (if c = [] \<or> (hs \<noteq> [] \<and> last hs = c) then hs else last_n 50 (hs @ [c]))"

lemma history_at_content:
  assumes "hist_ok sh" "0 < off" "off \<le> history_count sh"
  shows "content (history_at off sh) = hist_list sh ! (history_count sh - off)"
proof -
  let ?s = "history_start sh" and ?n = "history_count sh"
  have ok: "length (cmd_history sh) = 50" "?s < 50" "?n \<le> 50" "history_end sh = (?s + ?n) mod 50"
    using assms(1) by (simp_all add: hist_ok_def)
  have "((?s + ?n) mod 50 + (50 - off)) mod 50 = (?s + ?n + (50 - off)) mod 50" by (rule mod_add_left_eq)
  also have "?s + ?n + (50 - off) = (?s + (?n - off)) + 50" using assms ok by linarith
  also have "(?s + (?n - off) + 50) mod 50 = (?s + (?n - off)) mod 50" by (rule mod_add_self2)
  finally have "(history_end sh + 50 - off) mod 50 = (?s + (?n - off)) mod 50" using assms ok by simp
  then show ?thesis using assms ok by (simp add: history_at_def HISTORY_SIZE_def hist_list_def ring_nth)
qed

lemma history_last:
  assumes "hist_ok sh" "0 < history_count sh"
  shows "content (cmd_history sh ! (if history_end sh = 0 then 49 else history_end sh - 1)) = last (hist_list sh)"
proof -
  have "(history_end sh + 50 - 1) mod 50 = (if history_end sh = 0 then 49 else history_end sh - 1)"
    using hist_ok_end [OF assms(1)] by (auto simp: mod_if)
  moreover have "last (hist_list sh) = hist_list sh ! (history_count sh - 1)"
    using assms(2) by (subst last_conv_nth) (auto simp flip: length_greater_0_conv)
  ultimately show ?thesis using history_at_content [OF assms(1), of 1] assms(2)
    by (simp add: history_at_def HISTORY_SIZE_def)
qed

lemma history_add_content:
  assumes ok: "hist_ok sh" and short: "length (content cmd) \<le> 127"
  shows "\<exists>sh'. history_add cmd sh = Some sh' \<and> hist_ok sh' \<and> hist_list sh' = remember (content cmd) (hist_list sh)
    \<and> sh' = sh\<lparr>cmd_history := cmd_history sh', history_start := history_start sh',
         history_end := history_end sh', history_count := history_count sh'\<rparr>"
proof -
  let ?e = "history_end sh" and ?n = "history_count sh" and ?s = "history_start sh" and ?h = "cmd_history sh"
  have h: "length ?h = 50" "?s < 50" "?n \<le> 50" "?e = (?s + ?n) mod 50" "?e < 50"
    using ok by (simp_all add: hist_ok_def)
  have empty: "deref cmd = 0 \<longleftrightarrow> content cmd = []" 
    using content_nonzero [of "hd (content cmd)" cmd] by (cases "content cmd") (auto simp: deref_content)
  have same: "0 < ?n \<and> strcmp (?h ! (if ?e = 0 then HISTORY_SIZE - 1 else ?e - 1)) cmd = 0
      \<longleftrightarrow> hist_list sh \<noteq> [] \<and> last (hist_list sh) = content cmd"
    using history_last [OF ok] by (auto simp: strcmp_zero HISTORY_SIZE_def simp flip: length_greater_0_conv)
  show ?thesis
  proof (cases "content cmd = [] \<or> hist_list sh \<noteq> [] \<and> last (hist_list sh) = content cmd")
    case True
    then have "history_add cmd sh = Some sh" using empty same by (auto simp: history_add_def Let_def)
    then show ?thesis using ok True by (auto simp: remember_def)
  next
    case False
    let ?d = "copied 127 cmd (?h ! ?e)"
    have d: "strncpy (?h ! ?e) cmd 127 \<bind> (\<lambda>d. put d 127 0) = Some ?d" and len: "length ?d = 128"
      using ok h by (auto simp: hist_ok_def intro!: strncpy_terminated)
    let ?sh1 = "sh\<lparr>cmd_history := ?h[?e := ?d], history_end := (?e + 1) mod 50\<rparr>"
    let ?sh' = "if ?n < 50 then ?sh1\<lparr>history_count := ?n + 1\<rparr> else ?sh1\<lparr>history_start := (?s + 1) mod 50\<rparr>"
    have "history_add cmd sh = Some ?sh'"
      using False empty same d by (auto simp: history_add_def Let_def HISTORY_SIZE_def bind_eq_Some_conv)
    moreover have "hist_ok ?sh'"
      using ok len h by (auto simp: hist_ok_def mod_simps dest!: set_update_subset_insert [THEN subsetD])
    moreover have "hist_list ?sh' = last_n 50 (hist_list sh @ [content cmd])"
    proof (cases "?n < 50")
      case True
      then show ?thesis
        using short h ring_push [of ?n ?h ?e ?s ?d] by (simp add: hist_list_def)
    next
      case False
      then have "?n = 50" "?e = ?s" using h by auto
      moreover have "ring ?h ?s 50 = ?h ! ?s # ring ?h (Suc ?s mod 50) 49" using ring_pop [of ?h ?s 49] h by simp
      moreover have "ring (?h[?s := ?d]) (Suc ?s mod 50) 50 = ring ?h (Suc ?s mod 50) 49 @ [?d]"
        using ring_push [of 49 ?h ?s "Suc ?s mod 50" ?d] h by (simp add: mod_simps)
      ultimately show ?thesis using short by (simp add: hist_list_def last_n_def)
    qed
    ultimately show ?thesis using False by (auto simp: remember_def)
  qed
qed

lemma last_last_n: "0 < n \<Longrightarrow> xs \<noteq> [] \<Longrightarrow> last (last_n n xs) = last xs"
  by (simp add: last_n_def)

lemma last_n_Nil_iff: "0 < n \<Longrightarrow> last_n n xs = [] \<longleftrightarrow> xs = []"
  by (cases xs) (auto simp: last_n_def)

lemma remdups_adj_snoc:
  "remdups_adj (xs @ [x]) = (if xs \<noteq> [] \<and> last xs = x then remdups_adj xs else remdups_adj xs @ [x])"
  by (cases xs rule: rev_cases) (auto simp: remdups_adj_append_two)

lemma remember_fold:
  "fold remember cs [] = last_n 50 (remdups_adj (filter (\<lambda>c. c \<noteq> []) cs))"
proof (induction cs rule: rev_induct)
  case (snoc c cs)
  let ?r = "remdups_adj (filter (\<lambda>c. c \<noteq> []) cs)"
  have "last_n 50 (last_n 50 ?r @ [c]) = last_n 50 (?r @ [c])" by (rule last_n_append)
  then show ?case using snoc
    by (auto simp: remember_def remdups_adj_snoc last_last_n last_n_Nil_iff)
qed simp

lemma history_adds:
  assumes "hist_ok sh" "\<forall>c \<in> set cmds. length (content c) \<le> 127"
  shows "\<exists>sh'. fold_opt history_add cmds sh = Some sh' \<and> hist_ok sh' \<and>
    hist_list sh' = fold remember (map content cmds) (hist_list sh)"
  using assms
proof (induction cmds arbitrary: sh)
  case (Cons c cmds)
  then obtain sh1 where "history_add c sh = Some sh1" "hist_ok sh1" "hist_list sh1 = remember (content c) (hist_list sh)"
    using history_add_content [of sh c] by auto
  then show ?case using Cons.IH [of sh1] Cons.prems by auto
qed simp

lemma boot_hist_ok: "hist_ok boot_shell" and boot_hist_list: "hist_list boot_shell = []"
  by (simp_all add: hist_ok_def hist_list_def boot_shell_def)

text \<open>C37: after any commands were entered the history holds the last fifty of them, without the empty
  ones and without immediate repetitions, and the arrow keys find the command that was entered
  \<open>offset\<close> commands ago at that distance from the end.\<close>

theorem history_recent:
  assumes "\<forall>c \<in> set cmds. length (content c) \<le> 127"
  shows "\<exists>sh. fold_opt history_add cmds boot_shell = Some sh \<and>
    hist_list sh = last_n 50 (remdups_adj (filter (\<lambda>c. c \<noteq> []) (map content cmds))) \<and>
    (\<forall>offset. 0 < offset \<and> offset \<le> history_count sh \<longrightarrow>
       content (history_at offset sh) = hist_list sh ! (length (hist_list sh) - offset))"
proof -
  from history_adds [OF boot_hist_ok assms] obtain sh where
    sh: "fold_opt history_add cmds boot_shell = Some sh" "hist_ok sh"
      "hist_list sh = fold remember (map content cmds) []"
    unfolding boot_hist_list by blast
  then show ?thesis using history_at_content [OF sh(2)] by (auto simp: remember_fold)
qed

theorem history_recent_witness:
  "\<exists>sh. fold_opt history_add [bytes ''ls'', bytes ''ls'', [0], bytes ''ps''] boot_shell = Some sh \<and>
    hist_list sh = [bytes ''ls'', bytes ''ps''] \<and> content (history_at 1 sh) = bytes ''ps''"
proof -
  have b: "content (bytes ''ls'') = bytes ''ls''" "content (bytes ''ps'') = bytes ''ps''"
    by (simp_all add: bytes_def)
  let ?cmds = "[bytes ''ls'', bytes ''ls'', [0], bytes ''ps'']"
  have "\<forall>c \<in> set ?cmds. length (content c) \<le> 127" by (simp add: bytes_def)
  from history_recent [OF this] obtain sh where
    sh: "fold_opt history_add ?cmds boot_shell = Some sh"
      "hist_list sh = last_n 50 (remdups_adj (filter (\<lambda>c. c \<noteq> []) (map content ?cmds)))"
      "0 < (1 :: nat) \<and> 1 \<le> history_count sh \<longrightarrow>
        content (history_at 1 sh) = hist_list sh ! (length (hist_list sh) - 1)"
    by blast
  have l: "hist_list sh = [bytes ''ls'', bytes ''ps'']" unfolding sh(2) by (simp add: bytes_def)
  then have n: "history_count sh = 2" using length_hist_list [of sh] by simp
  have "content (history_at 1 sh) = bytes ''ps''" using sh(3) unfolding n l by simp
  then show ?thesis using sh(1) l by blast
qed

section \<open>The completion is the longest common one\<close>

lemma common_len_take: "take (common_len a b) a = longest_common_prefix (content a) (content b)"
  by (induction a b rule: common_len.induct) auto

lemma common_len_zero: "0 \<notin> set (take (common_len a b) a)"
  by (induction a b rule: common_len.induct) auto

lemma common_len_length: "common_len a b \<le> length a"
  by (induction a b rule: common_len.induct) auto

lemma longest_common_prefix_append: "longest_common_prefix (p @ a) (p @ b) = p @ longest_common_prefix a b"
  by (induction p) auto

lemma longest_common_prefix_take: "longest_common_prefix a (take (length a + k) b) = longest_common_prefix a b"
  by (induction a b rule: longest_common_prefix.induct) auto

lemma Longest_common_prefix_insert:
  assumes "L \<noteq> {}"
  shows "Longest_common_prefix (insert x L) = longest_common_prefix (Longest_common_prefix L) x"
proof (rule Longest_common_prefix_eq)
  let ?m = "Longest_common_prefix L"
  show "\<forall>ys \<in> insert x L. prefix (longest_common_prefix ?m x) ys"
    using longest_common_prefix_prefix2 longest_common_prefix_prefix1 Longest_common_prefix_prefix prefix_order.trans
    by (metis insert_iff)
  show "\<forall>qs. (\<forall>ys \<in> insert x L. prefix qs ys) \<longrightarrow> length qs \<le> length (longest_common_prefix ?m x)"
    using Longest_common_prefix_max_prefix [OF assms] longest_common_prefix_max_prefix prefix_length_le
    by (metis insert_iff)
qed simp

lemma Longest_common_prefix_single: "Longest_common_prefix {x} = x"
  by (rule Longest_common_prefix_eq) (auto dest: prefix_length_le)

text \<open>The names that begin with the word to complete, cut to what \<open>comp_match\<close> holds.\<close>

definition candidates :: "u8 list \<Rightarrow> (u8 list \<times> cstr) list \<Rightarrow> u8 list list" where
  "candidates w items = map (take 127) (filter (prefix w) (map (\<lambda>x. content (snd x)) items))"

definition comp_ok :: "u8 list \<Rightarrow> shell_state \<Rightarrow> bool" where
  "comp_ok w sh \<longleftrightarrow> length (comp_match sh) = 128 \<and> content (comp_prefix sh) = w \<and> comp_prefix_len sh = length w \<and>
     length w \<le> 127"

definition best_match :: "nat \<Rightarrow> u8 list list \<Rightarrow> shell_state \<Rightarrow> bool" where
  "best_match n names sh \<longleftrightarrow> comp_match_count sh = length names + n \<and>
     (names \<noteq> [] \<longrightarrow> content (comp_match sh) = Longest_common_prefix (set names))"

lemma prefix_take_eq: "take (length w) xs = w \<longleftrightarrow> prefix w xs"
  by (metis append_eq_conv_conj append_take_drop_id prefix_def)

lemma visitor_skip:
  assumes "comp_ok w sh" "\<not> prefix w (content (snd item))"
  shows "tab_visitor item sh = Some sh"
  using assms by (auto simp: tab_visitor_def Let_def strncmp_zero comp_ok_def prefix_take_eq)

lemma visitor_first:
  assumes "comp_ok w sh" "prefix w (content (snd item))" "comp_match_count sh = 0"
  shows "\<exists>m. tab_visitor item sh = Some (sh\<lparr>comp_match := m, comp_match_count := 1\<rparr>) \<and> length m = 128 \<and>
    content m = take 127 (content (snd item))"
  using assms strncpy_terminated [of 127 "comp_match sh" "snd item"]
  by (intro exI [of _ "copied 127 (snd item) (comp_match sh)"])
    (auto simp: tab_visitor_def Let_def strncmp_zero comp_ok_def prefix_take_eq)

lemma content_parts: "content x = w @ r \<Longrightarrow> take (length w) x = w \<and> content (drop (length w) x) = r"
proof (induction w arbitrary: x)
  case (Cons a w)
  then show ?case by (cases x) (auto split: if_splits)
qed simp

lemma content_cut: "i < length x \<Longrightarrow> 0 \<notin> set (take i x) \<Longrightarrow> content (x[i := 0]) = take i x"
  by (simp add: upd_conv_take_nth_drop content_terminated)

lemma visitor_more:
  assumes ok: "comp_ok w sh" and w: "prefix w (content (snd item))" and c: "0 < comp_match_count sh"
    and m: "prefix w (content (comp_match sh))" "length (content (comp_match sh)) \<le> 127"
  shows "\<exists>m. tab_visitor item sh = Some (sh\<lparr>comp_match := m, comp_match_count := comp_match_count sh + 1\<rparr>) \<and>
    length m = 128 \<and> content m = longest_common_prefix (content (comp_match sh)) (content (snd item))"
proof -
  let ?n = "length w" and ?m = "comp_match sh" and ?name = "snd item"
  let ?k = "common_len (drop ?n ?m) (drop ?n ?name)"
  obtain r where r: "content ?m = w @ r" using m(1) by (auto simp: prefix_def)
  obtain q where q: "content ?name = w @ q" using w by (auto simp: prefix_def)
  note rp = content_parts [OF r] and qp = content_parts [OF q]
  have k: "take ?k (drop ?n ?m) = longest_common_prefix r q" using rp qp by (simp add: common_len_take)
  have cut: "take (?n + ?k) ?m = longest_common_prefix (w @ r) (w @ q)"
    using rp k by (simp add: take_add longest_common_prefix_append)
  have "length (longest_common_prefix (w @ r) (w @ q)) \<le> length (w @ r)"
    by (rule prefix_length_le) (rule longest_common_prefix_prefix1)
  moreover have "?k \<le> length (drop ?n ?m)" by (rule common_len_length)
  ultimately have lt: "?n + ?k < 128" using cut r m(2) ok by (auto simp: comp_ok_def dest!: arg_cong [of _ _ length])
  have "0 \<notin> set (take (?n + ?k) ?m)"
    using zero_content [of ?m] set_mono_prefix [OF longest_common_prefix_prefix1 [of "w @ r" "w @ q"]]
    unfolding cut r by blast
  then have "content (?m[?n + ?k := 0]) = longest_common_prefix (content ?m) (content ?name)"
    using content_cut [of "?n + ?k" ?m] lt ok cut r q by (simp add: comp_ok_def)
  moreover have "tab_visitor item sh = Some (sh\<lparr>comp_match := ?m[?n + ?k := 0], comp_match_count := comp_match_count sh + 1\<rparr>)"
    using ok w c lt by (auto simp: tab_visitor_def Let_def strncmp_zero comp_ok_def prefix_take_eq put_def)
  ultimately show ?thesis using ok by (auto simp: comp_ok_def)
qed

lemma visits_best:
  assumes "comp_ok w sh" "comp_match_count sh = length seen" "set seen \<subseteq> {x. prefix w x \<and> length x \<le> 127}"
    "seen \<noteq> [] \<Longrightarrow> content (comp_match sh) = Longest_common_prefix (set seen)"
  shows "\<exists>sh'. fold_opt tab_visitor items sh = Some sh' \<and> comp_ok w sh' \<and>
    comp_match_count sh' = length (seen @ candidates w items) \<and>
    (seen @ candidates w items \<noteq> [] \<longrightarrow>
       content (comp_match sh') = Longest_common_prefix (set (seen @ candidates w items)))"
  using assms
proof (induction items arbitrary: sh seen)
  case (Cons item items)
  let ?name = "content (snd item)"
  show ?case
  proof (cases "prefix w ?name")
    case False
    then show ?thesis using visitor_skip [OF Cons.prems(1) False] Cons.IH [OF Cons.prems] by (simp add: candidates_def)
  next
    case True
    have w: "length w \<le> 127" using Cons.prems(1) by (simp add: comp_ok_def)
    have pw: "prefix w (take 127 ?name)" using True w by (auto simp: prefix_def)
    have "\<exists>m. tab_visitor item sh = Some (sh\<lparr>comp_match := m, comp_match_count := comp_match_count sh + 1\<rparr>) \<and>
      length m = 128 \<and> content m = Longest_common_prefix (set (seen @ [take 127 ?name]))"
    proof (cases "seen = []")
      case True
      then show ?thesis
        using visitor_first [OF Cons.prems(1) \<open>prefix w ?name\<close>] Cons.prems(2) by (simp add: Longest_common_prefix_single)
    next
      case False
      let ?l = "content (comp_match sh)"
      have l: "?l = Longest_common_prefix (set seen)" using Cons.prems(4) False by simp
      have "prefix w ?l" unfolding l using Cons.prems(3) False by (intro Longest_common_prefix_max_prefix) auto
      moreover have "length ?l \<le> 127"
      proof -
        have h: "hd seen \<in> set seen" using False by simp
        then have "length ?l \<le> length (hd seen)" unfolding l by (intro prefix_length_le Longest_common_prefix_prefix)
        then show ?thesis using h Cons.prems(3) by fastforce
      qed
      ultimately have "\<exists>m. tab_visitor item sh = Some (sh\<lparr>comp_match := m, comp_match_count := comp_match_count sh + 1\<rparr>) \<and>
          length m = 128 \<and> content m = longest_common_prefix ?l ?name"
        using visitor_more [OF Cons.prems(1) True] Cons.prems(2) False by simp
      moreover have "longest_common_prefix ?l ?name = longest_common_prefix ?l (take 127 ?name)"
        using longest_common_prefix_take [of ?l "127 - length ?l" ?name] \<open>length ?l \<le> 127\<close> by simp
      ultimately show ?thesis using Longest_common_prefix_insert [of "set seen" "take 127 ?name"] False l by simp
    qed
    then obtain m where m: "tab_visitor item sh = Some (sh\<lparr>comp_match := m, comp_match_count := comp_match_count sh + 1\<rparr>)"
      "length m = 128" "content m = Longest_common_prefix (set (seen @ [take 127 ?name]))" by blast
    let ?sh1 = "sh\<lparr>comp_match := m, comp_match_count := comp_match_count sh + 1\<rparr>"
    have "\<exists>sh'. fold_opt tab_visitor items ?sh1 = Some sh' \<and> comp_ok w sh' \<and>
      comp_match_count sh' = length ((seen @ [take 127 ?name]) @ candidates w items) \<and>
      ((seen @ [take 127 ?name]) @ candidates w items \<noteq> [] \<longrightarrow>
       content (comp_match sh') = Longest_common_prefix (set ((seen @ [take 127 ?name]) @ candidates w items)))"
      using Cons.prems m pw by (intro Cons.IH) (auto simp: comp_ok_def)
    then show ?thesis using m(1) True by (simp add: candidates_def)
  qed
qed (auto simp: candidates_def)

text \<open>C38: whatever the directory holds, the completion of a word is the longest beginning that all names
  which start with the word have in common (of names longer than \<open>comp_match\<close>, the part it holds), and
  the number of these names is counted.\<close>

theorem tab_completes:
  assumes "length (comp_match sh) = 128" "comp_match_count sh = 0" "content (comp_prefix sh) = w"
    "comp_prefix_len sh = length w" "length w \<le> 127"
  shows "\<exists>sh'. fold_opt tab_visitor items sh = Some sh' \<and> comp_match_count sh' = length (candidates w items) \<and>
    (candidates w items \<noteq> [] \<longrightarrow> content (comp_match sh') = Longest_common_prefix (set (candidates w items)))"
  using visits_best [of w sh "[]" items] assms by (auto simp: comp_ok_def)

theorem tab_completes_witness:
  "\<exists>sh'. fold_opt tab_visitor [([], bytes ''ping''), ([], bytes ''ls''), ([], bytes ''pipe'')]
     (boot_shell\<lparr>comp_prefix := bytes ''p'', comp_prefix_len := 1\<rparr>) = Some sh' \<and>
     comp_match_count sh' = 2 \<and> content (comp_match sh') = bytes ''pi''"
proof -
  let ?items = "[([], bytes ''ping''), ([], bytes ''ls''), ([], bytes ''pipe'')] :: (u8 list \<times> cstr) list"
  let ?sh = "boot_shell\<lparr>comp_prefix := bytes ''p'', comp_prefix_len := 1\<rparr>"
  have c: "candidates (bytes ''p'') ?items = [bytes ''ping'', bytes ''pipe'']"
    by (simp add: candidates_def bytes_def)
  have l: "Longest_common_prefix (set [bytes ''ping'', bytes ''pipe'']) = bytes ''pi''"
  proof -
    have "Longest_common_prefix {bytes ''pipe'', bytes ''ping''} = longest_common_prefix (bytes ''ping'') (bytes ''pipe'')"
      using Longest_common_prefix_insert [of "{bytes ''ping''}" "bytes ''pipe''"] by (simp add: Longest_common_prefix_single)
    also have "\<dots> = bytes ''pi''" by (simp add: bytes_def)
    finally show ?thesis by (simp add: insert_commute)
  qed
  have "\<exists>sh'. fold_opt tab_visitor ?items ?sh = Some sh' \<and>
    comp_match_count sh' = length (candidates (bytes ''p'') ?items) \<and>
    (candidates (bytes ''p'') ?items \<noteq> [] \<longrightarrow>
       content (comp_match sh') = Longest_common_prefix (set (candidates (bytes ''p'') ?items)))"
    by (rule tab_completes) (simp_all add: boot_shell_def bytes_def)
  then show ?thesis unfolding c l by auto
qed

end
