(* ===== verification/Shell_Screen.thy ===== *)
theory Shell_Screen
  imports Shell_Line
begin

text \<open>
  What the line editor promises: the characters given to the console, read as a terminal reads them, are
  the line that is edited, at every moment and whatever keys were pressed; the array of the line is never
  left; and the history takes the line that is seen. Only a file name with a backspace in it could spoil
  the display, so the keys are required not to complete one.
\<close>

section \<open>The console as a line\<close>

definition line :: "line_editor \<Rightarrow> u8 list" where
  "line ed = take (cursor_pos ed) (ed_buffer ed)"

text \<open>A backspace takes the last character away.\<close>

fun type_out :: "u8 list \<Rightarrow> u8 list \<Rightarrow> u8 list" where
  "type_out l [] = l"
| "type_out l (c # cs) = type_out (if c = 8 then butlast l else l @ [c]) cs"

lemma type_out_append: "type_out l (xs @ ys) = type_out (type_out l xs) ys"
  by (induction xs arbitrary: l) auto

lemma type_out_plain: "8 \<notin> set cs \<Longrightarrow> type_out l cs = l @ cs"
  by (induction cs arbitrary: l) auto

lemma type_out_back: "type_out l (replicate n 8) = take (length l - n) l"
proof (induction n arbitrary: l)
  case (Suc n)
  then show ?case by (simp add: butlast_conv_take min_def)
qed simp

section \<open>Invariants\<close>

definition ed_ok :: "line_editor \<Rightarrow> bool" where
  "ed_ok ed \<longleftrightarrow> length (ed_buffer ed) = 128 \<and> cursor_pos ed \<le> 127 \<and> 0 \<notin> set (line ed) \<and> 8 \<notin> set (line ed) \<and>
     length (typing_buf ed) = 128 \<and> typing_buf ed ! 127 = 0 \<and> 8 \<notin> set (content (typing_buf ed))"

definition hist_plain :: "shell_state \<Rightarrow> bool" where
  "hist_plain sh \<longleftrightarrow> (\<forall>h \<in> set (cmd_history sh). 8 \<notin> set (content h))"

definition same_history :: "shell_state \<Rightarrow> shell_state \<Rightarrow> bool" where
  "same_history sh sh' \<longleftrightarrow> cmd_history sh' = cmd_history sh \<and> history_start sh' = history_start sh \<and>
     history_end sh' = history_end sh \<and> history_count sh' = history_count sh"

lemma same_history_refl [simp]: "same_history sh sh"
  by (simp add: same_history_def)

lemma same_history_trans [trans]: "same_history a b \<Longrightarrow> same_history b c \<Longrightarrow> same_history a c"
  by (simp add: same_history_def)

lemma same_history_facts:
  assumes "same_history sh sh'"
  shows "hist_ok sh' = hist_ok sh" "hist_list sh' = hist_list sh" "hist_plain sh' = hist_plain sh"
  using assms by (simp_all add: same_history_def hist_ok_def hist_list_def hist_plain_def)

lemma start_ed_ok: "length b = 128 \<Longrightarrow> ed_ok (start_editor b)"
  by (simp add: ed_ok_def start_editor_def line_def content_def)

lemma length_line: "ed_ok ed \<Longrightarrow> length (line ed) = cursor_pos ed"
  by (simp add: ed_ok_def line_def)

text \<open>The buffer with the terminator put behind the line.\<close>

lemma terminated_line:
  assumes "ed_ok ed"
  shows "content ((ed_buffer ed)[cursor_pos ed := 0]) = line ed" "take (cursor_pos ed) ((ed_buffer ed)[cursor_pos ed := 0]) = line ed"
  using assms content_cut [of "cursor_pos ed" "ed_buffer ed"] by (simp_all add: ed_ok_def line_def)

section \<open>Frames\<close>

text \<open>Changing the directory changes nothing else.\<close>

definition moved :: "'a fat_state_scheme \<Rightarrow> 'a fat_state_scheme \<Rightarrow> bool" where
  "moved s s' \<longleftrightarrow> (\<exists>c q. s' = s\<lparr>current_dir_cluster := c, current_path := q\<rparr>)"

lemma moved_upd: "moved s (s\<lparr>current_dir_cluster := c, current_path := q\<rparr>)"
  by (auto simp: moved_def)

lemma moved_refl [simp]: "moved s s"
  using moved_upd [where s = s and c = "current_dir_cluster s" and q = "current_path s"] by simp

lemma moved_trans: "moved a b \<Longrightarrow> moved b c \<Longrightarrow> moved a c"
  using moved_upd by (fastforce simp: moved_def)

lemma chdir_step_moved: "chdir_step t s = Some (Some s') \<Longrightarrow> moved s s'"
  by (auto simp: chdir_step_def Let_def moved_upd split: if_splits bind_splits option.splits)

lemma chdir_loop_moved: "chdir_loop token l s = Some (Some s') \<Longrightarrow> moved s s'"
proof (induction token l s rule: chdir_loop.induct)
  case (1 token l s)
  show ?case
  proof (cases token)
    case None
    then show ?thesis using 1(2) by (simp add: chdir_loop.simps)
  next
    case (Some t)
    then obtain s1 where s1: "chdir_step t s = Some (Some s1)"
      using 1(2) by (auto simp: chdir_loop.simps [of "Some t"] split: option.splits)
    obtain tok l' where st: "strtok None [47] l = (tok, l')" by (cases "strtok None [47] l")
    have "chdir_loop tok l' s1 = Some (Some s')"
      using 1(2) s1 st Some by (simp add: chdir_loop.simps [of "Some t"])
    then show ?thesis using 1(1) [OF Some s1 refl st [symmetric]] chdir_step_moved [OF s1] moved_trans by blast
  qed
qed

lemma fat16_chdir_moved:
  assumes "fat16_chdir p s = Some (r, s')"
  shows "moved s s'"
proof -
  define s1 where "s1 = (if deref p = 47 then s\<lparr>current_dir_cluster := 0, current_path := [47]\<rparr> else s)"
  have s1: "moved s s1" "moved s (s1\<lparr>current_dir_cluster := c, current_path := q\<rparr>)" for c q
    by (auto simp: s1_def moved_upd)
  obtain tok l where st: "strtok (Some (content p)) [47] None = (tok, l)" by (cases "strtok (Some (content p)) [47] None")
  show ?thesis
  proof (cases "chdir_loop tok l s1")
    case None
    then show ?thesis using assms st by (auto simp: fat16_chdir_def s1_def [symmetric] split: if_splits)
  next
    case (Some x)
    show ?thesis
    proof (cases x)
      case None
      then show ?thesis using assms st Some s1(2)
        by (auto simp: fat16_chdir_def s1_def [symmetric] split: if_splits)
    next
      case 2: (Some t)
      then show ?thesis using assms st Some moved_trans [OF s1(1) chdir_loop_moved]
        by (auto simp: fat16_chdir_def s1_def [symmetric] split: if_splits)
    qed
  qed
qed

lemma chdir_console: "fat16_chdir p s = Some (r, s') \<Longrightarrow> console_out s' = console_out s"
  for s :: sys_state
  using fat16_chdir_moved [of p s r s'] by (auto simp: moved_def)

lemma visitor_history: "tab_visitor x sh = Some sh' \<Longrightarrow> same_history sh sh'"
  by (auto simp: tab_visitor_def same_history_def Let_def split: if_splits bind_splits)

lemma visits_history: "fold_opt tab_visitor xs sh = Some sh' \<Longrightarrow> same_history sh sh'"
proof (induction xs arbitrary: sh)
  case (Cons x xs)
  then show ?case by (auto split: bind_splits intro: same_history_trans [OF visitor_history])
qed simp

lemma visit_dir_history: "visit_dir s sh = Some sh' \<Longrightarrow> same_history sh sh'"
  by (auto simp: visit_dir_def visits_history split: bind_splits)

lemma visit_maybe: "(if b then visit_dir s sh else Some sh) = Some sh' \<Longrightarrow> same_history sh sh'"
  by (auto simp: visit_dir_history split: if_splits)

lemma complete_search_frame:
  assumes "complete_search ws sh s = Some (sh', s')"
  shows "same_history sh sh' \<and> console_out s' = console_out s"
proof (cases "ws = 0")
  case True
  then obtain r s1 sh1 r' where p: "fat16_chdir (bytes ''/system/bin/usr/commands'') s = Some (r, s1)"
    "(if r = 0 then visit_dir s1 sh else Some sh) = Some sh1" "fat16_chdir (take 255 (current_path s)) s1 = Some (r', s')"
    "visit_dir s' sh1 = Some sh'"
    using assms by (auto simp: complete_search_def Let_def bind_eq_Some_conv)
  show ?thesis
    using chdir_console [OF p(1)] chdir_console [OF p(3)] same_history_trans [OF visit_maybe [OF p(2)] visit_dir_history [OF p(4)]]
    by simp
next
  case False
  show ?thesis
  proof (cases "strrchr (comp_prefix sh) 47")
    case None
    then show ?thesis using assms False by (auto simp: complete_search_def Let_def visit_dir_history bind_eq_Some_conv)
  next
    case (Some slash)
    then obtain p r s1 r' dir where p: "fat16_chdir dir s = Some (r, s1)" "fat16_chdir (take 255 (current_path s)) s1 = Some (r', s')"
      "(if r = 0 then visit_dir s1 (sh\<lparr>comp_prefix := p, comp_prefix_len := strlen p\<rparr>)
        else Some (sh\<lparr>comp_prefix := p, comp_prefix_len := strlen p\<rparr>)) = Some sh'"
      using assms False by (auto simp: complete_search_def Let_def bind_eq_Some_conv)
    have "same_history sh (sh\<lparr>comp_prefix := p, comp_prefix_len := strlen p\<rparr>)" by (simp add: same_history_def)
    then show ?thesis
      using chdir_console [OF p(1)] chdir_console [OF p(2)] same_history_trans [OF _ visit_maybe [OF p(3)]] by simp
  qed
qed

section \<open>One key\<close>

text \<open>What an operation of the editor gives to the console turns the line before into the line after.\<close>

definition shows_line :: "line_editor \<Rightarrow> sys_state \<Rightarrow> line_editor \<Rightarrow> sys_state \<Rightarrow> u8 list \<Rightarrow> bool" where
  "shows_line ed s ed' s' l \<longleftrightarrow> ed_ok ed' \<and>
     (\<exists>out. console_out s' = console_out s @ out \<and> type_out (line ed) out = l)"

lemma shows_line_refl [simp]: "shows_line ed s ed s (line ed) \<longleftrightarrow> ed_ok ed"
  by (auto simp: shows_line_def intro: exI [of _ "[]"])

lemma type_chars_shows:
  assumes "ed_ok ed" "0 \<notin> set cs" "8 \<notin> set cs"
  shows "\<exists>ed' s'. type_chars 128 cs ed s = Some (ed', s') \<and> ed_ok ed' \<and>
    line ed' = line ed @ take (127 - cursor_pos ed) cs \<and>
    console_out s' = console_out s @ take (127 - cursor_pos ed) cs"
  using assms
proof (induction cs arbitrary: ed s)
  case (Cons c cs)
  show ?case
  proof (cases "cursor_pos ed < 127")
    case True
    let ?b = "(ed_buffer ed)[cursor_pos ed := c]"
    let ?ed = "ed\<lparr>ed_buffer := ?b, cursor_pos := cursor_pos ed + 1\<rparr>"
    have put: "put (ed_buffer ed) (cursor_pos ed) c = Some ?b" using True Cons.prems by (simp add: put_def ed_ok_def)
    have l: "line ?ed = line ed @ [c]" using True Cons.prems by (simp add: line_def ed_ok_def take_Suc_conv_app_nth)
    have "ed_ok ?ed" using Cons.prems True l by (auto simp: ed_ok_def)
    with Cons.IH [of ?ed "console_print [c] s"] Cons.prems obtain ed' s' where
      r: "type_chars 128 cs ?ed (console_print [c] s) = Some (ed', s')" "ed_ok ed'"
        "line ed' = line ?ed @ take (126 - cursor_pos ed) cs"
        "console_out s' = console_out (console_print [c] s) @ take (126 - cursor_pos ed) cs" by auto
    have n: "127 - cursor_pos ed = Suc (126 - cursor_pos ed)" using True by simp
    show ?thesis using r True put l unfolding n by (simp add: console_print_def)
  qed (use Cons.prems in simp)
qed simp

lemma replace_line_shows:
  assumes "ed_ok ed" "8 \<notin> set (content src)"
  shows "\<exists>ed' s'. replace_line 128 src ed s = Some (ed', s') \<and> shows_line ed s ed' s' (line ed') \<and>
    line ed' = take 127 (content src)"
proof -
  let ?b = "copied 127 src (ed_buffer ed)" and ?t = "take 127 (content src)"
  let ?ed = "ed\<lparr>ed_buffer := ?b, cursor_pos := length ?t\<rparr>"
  let ?s = "console_print ?t (console_print (replicate (cursor_pos ed) 8) s)"
  have "replace_line 128 src ed s = Some (?ed, ?s)"
    using assms strncpy_terminated [of 127 "ed_buffer ed" src]
    by (auto simp: replace_line_def ed_ok_def strlen_content bind_eq_Some_conv)
  moreover have l: "line ?ed = ?t" using content_parts [of ?b ?t "[]"] by (simp add: line_def)
  moreover have "type_out (line ed) (replicate (cursor_pos ed) 8 @ ?t) = ?t"
    using assms length_line [of ed] type_out_plain [of ?t "[]"]
    by (auto simp: type_out_append type_out_back dest: in_set_takeD)
  moreover have "ed_ok ?ed"
    using assms l zero_content [of src] set_take_subset [of 127 "content src"] by (auto simp: ed_ok_def)
  ultimately show ?thesis by (auto simp: shows_line_def console_print_def)
qed

lemma shows_line_cong:
  "line ed1 = line ed \<Longrightarrow> shows_line ed1 s ed' s' l \<Longrightarrow> shows_line ed s ed' s' l"
  by (simp add: shows_line_def)

lemma history_at_plain: "hist_ok sh \<Longrightarrow> hist_plain sh \<Longrightarrow> 8 \<notin> set (content (history_at n sh))"
  by (simp add: history_at_def HISTORY_SIZE_def hist_ok_def hist_plain_def)

lemma ed_ok_offset [simp]: "ed_ok (ed\<lparr>history_offset := n\<rparr>) = ed_ok ed" "line (ed\<lparr>history_offset := n\<rparr>) = line ed"
  by (simp_all add: ed_ok_def line_def)

lemma save_typing:
  assumes "ed_ok ed"
  shows "\<exists>ed1. (do {
      b \<leftarrow> put (ed_buffer ed) (cursor_pos ed) 0;
      t \<leftarrow> strncpy (typing_buf ed) b 127;
      Some (ed\<lparr>ed_buffer := b, typing_buf := t\<rparr>) }) = Some ed1 \<and> ed_ok ed1 \<and> line ed1 = line ed"
proof -
  let ?b = "(ed_buffer ed)[cursor_pos ed := 0]" and ?t = "typing_buf ed"
  have b: "put (ed_buffer ed) (cursor_pos ed) 0 = Some ?b" "content ?b = line ed" "take (cursor_pos ed) ?b = line ed"
    using assms terminated_line [OF assms] by (simp_all add: put_def ed_ok_def)
  have last: "drop 127 ?t = [0]" using assms Cons_nth_drop_Suc [of 127 ?t] by (simp add: ed_ok_def)
  have t: "strncpy ?t ?b 127 = Some (copied 127 ?b ?t)"
    using assms last by (simp add: strncpy_eq ed_ok_def copied_def)
  have nth: "copied 127 ?b ?t ! 127 = 0"
    using nth_append_length [of "take 127 (content ?b @ replicate 127 0)" 0 "drop 128 ?t"]
    by (simp add: copied_def del: take_append nth_append_length)
  have "ed_ok (ed\<lparr>ed_buffer := ?b, typing_buf := copied 127 ?b ?t\<rparr>)"
    using assms b nth set_take_subset [of 127 "line ed"] by (auto simp: ed_ok_def line_def)
  then show ?thesis using b t by (auto simp: line_def)
qed

lemma key_up_shows:
  assumes "ed_ok ed" "hist_ok sh" "hist_plain sh"
  shows "\<exists>ed' s'. key_up 128 ed sh s = Some (ed', s') \<and> shows_line ed s ed' s' (line ed')"
proof (cases "history_offset ed < history_count sh")
  case True
  obtain ed1 where ed1: "(if history_offset ed = 0 then do {
      b \<leftarrow> put (ed_buffer ed) (cursor_pos ed) 0;
      t \<leftarrow> strncpy (typing_buf ed) b 127;
      Some (ed\<lparr>ed_buffer := b, typing_buf := t\<rparr>) } else Some ed) = Some ed1" "ed_ok ed1" "line ed1 = line ed"
    using save_typing [OF assms(1)] assms(1) by (cases "history_offset ed = 0") auto
  let ?off = "history_offset ed + 1"
  obtain ed' s' where "replace_line 128 (history_at ?off sh) (ed1\<lparr>history_offset := ?off\<rparr>) s = Some (ed', s')"
    "shows_line (ed1\<lparr>history_offset := ?off\<rparr>) s ed' s' (line ed')"
    using replace_line_shows [of "ed1\<lparr>history_offset := ?off\<rparr>" "history_at ?off sh" s] ed1(2)
      history_at_plain [OF assms(2,3)] by auto
  then show ?thesis using True ed1(1,3) shows_line_cong [of "ed1\<lparr>history_offset := ?off\<rparr>" ed]
    by (auto simp: key_up_def Let_def)
qed (use assms in \<open>simp add: key_up_def\<close>)

lemma key_down_shows:
  assumes "ed_ok ed" "hist_ok sh" "hist_plain sh"
  shows "\<exists>ed' s'. key_down 128 ed sh s = Some (ed', s') \<and> shows_line ed s ed' s' (line ed')"
proof (cases "history_offset ed > 0")
  case True
  let ?off = "history_offset ed - 1"
  let ?src = "if ?off = 0 then typing_buf ed else history_at ?off sh"
  have "8 \<notin> set (content ?src)" using assms history_at_plain by (auto simp: ed_ok_def)
  then obtain ed' s' where "replace_line 128 ?src (ed\<lparr>history_offset := ?off\<rparr>) s = Some (ed', s')"
    "shows_line (ed\<lparr>history_offset := ?off\<rparr>) s ed' s' (line ed')"
    using replace_line_shows [of "ed\<lparr>history_offset := ?off\<rparr>" ?src s] assms(1) by auto
  then show ?thesis using True shows_line_cong [of "ed\<lparr>history_offset := ?off\<rparr>" ed]
    by (auto simp: key_down_def Let_def)
qed (use assms in \<open>simp add: key_down_def\<close>)

lemma put_terminator:
  assumes "ed_ok ed"
  shows "\<exists>b. put (ed_buffer ed) (cursor_pos ed) 0 = Some b \<and> content b = line ed \<and>
    ed_ok (ed\<lparr>ed_buffer := b\<rparr>) \<and> line (ed\<lparr>ed_buffer := b\<rparr>) = line ed"
  using assms terminated_line [OF assms] by (auto simp: put_def ed_ok_def line_def)

lemma key_tab_shows:
  assumes run: "key_tab 128 ed sh s = Some (ed', sh', s')" and ok: "ed_ok ed" and plain: "8 \<notin> set (content (comp_match sh'))"
  shows "shows_line ed s ed' s' (line ed') \<and> same_history sh sh'"
proof -
  let ?ws = "word_start (ed_buffer ed) (cursor_pos ed)"
  let ?len = "cursor_pos ed - ?ws"
  show ?thesis
  proof (cases "?len < 128 \<and> 0 < ?len")
    case False
    then have "ed' = ed" "s' = s" "same_history sh sh'"
      using run by (auto simp: key_tab_def Let_def same_history_def bind_eq_Some_conv split: if_splits)
    then show ?thesis using ok by simp
  next
    case True
    then obtain p m sh2 s1 where r:
      "complete_search ?ws (sh\<lparr>comp_prefix := p, comp_prefix_len := ?len, comp_match := m, comp_match_count := 0\<rparr>) s = Some (sh2, s1)"
      "(if comp_match_count sh2 > 0
        then do {
          (ed1, s2) \<leftarrow> type_chars 128 (drop (comp_prefix_len sh2) (content (comp_match sh2))) ed s1;
          b \<leftarrow> put (ed_buffer ed1) (cursor_pos ed1) 0;
          Some (ed1\<lparr>ed_buffer := b\<rparr>, sh2, s2)
        }
        else Some (ed, sh2, s1)) = Some (ed', sh', s')"
      using run by (auto simp: key_tab_def Let_def bind_eq_Some_conv)
    have h: "same_history sh sh2" "console_out s1 = console_out s"
      using complete_search_frame [OF r(1)] by (auto simp: same_history_def)
    have sh': "sh' = sh2" using r(2) by (auto simp: bind_eq_Some_conv split: if_splits)
    let ?cs = "drop (comp_prefix_len sh2) (content (comp_match sh2))"
    have cs: "0 \<notin> set ?cs" "8 \<notin> set ?cs" using plain zero_content unfolding sh' by (meson in_set_dropD)+
    show ?thesis
    proof (cases "comp_match_count sh2 > 0")
      case True
      obtain ed1 s2 where e: "type_chars 128 ?cs ed s1 = Some (ed1, s2)" "ed_ok ed1"
        "line ed1 = line ed @ take (127 - cursor_pos ed) ?cs"
        "console_out s2 = console_out s1 @ take (127 - cursor_pos ed) ?cs"
        using type_chars_shows [OF ok cs] by blast
      obtain b where b: "put (ed_buffer ed1) (cursor_pos ed1) 0 = Some b" "ed_ok (ed1\<lparr>ed_buffer := b\<rparr>)"
        "line (ed1\<lparr>ed_buffer := b\<rparr>) = line ed1" using put_terminator [OF e(2)] by blast
      have "ed' = ed1\<lparr>ed_buffer := b\<rparr>" "s' = s2" using r(2) True e(1) b(1) by auto
      moreover have "type_out (line ed) (take (127 - cursor_pos ed) ?cs) = line ed1"
        using e(3) cs(2) type_out_plain by (metis in_set_takeD)
      ultimately show ?thesis using b(2,3) e(4) h sh' by (auto simp: shows_line_def)
    next
      case False
      then show ?thesis using r(2) h ok by (auto simp: shows_line_def intro!: exI [of _ "[]"])
    qed
  qed
qed

section \<open>Keys\<close>

lemma enter_key: "ctrl_key c k = 10 \<or> ctrl_key c k = 13 \<Longrightarrow>
    edit_key 128 k c ed sh s = do {
      b \<leftarrow> put (ed_buffer ed) (cursor_pos ed) 0;
      sh1 \<leftarrow> history_add b sh;
      Some (True, ed\<lparr>ed_buffer := b\<rparr>, sh1, console_print [10] s) }"
  by (simp add: edit_key_def Let_def)

lemma enter_shows:
  assumes "ctrl_key c k = 10 \<or> ctrl_key c k = 13" "ed_ok ed" "hist_ok sh"
  shows "\<exists>ed' sh'. edit_key 128 k c ed sh s = Some (True, ed', sh', console_print [10] s) \<and>
    content (ed_buffer ed') = line ed \<and> hist_ok sh' \<and> hist_list sh' = remember (line ed) (hist_list sh)"
proof -
  obtain b where b: "put (ed_buffer ed) (cursor_pos ed) 0 = Some b" "content b = line ed"
    using put_terminator [OF assms(2)] by blast
  have "length (content b) \<le> 127" using b(2) length_line [OF assms(2)] assms(2) by (simp add: ed_ok_def)
  then show ?thesis using history_add_content [OF assms(3), of b] b enter_key [OF assms(1)] by auto
qed

lemma backspace_shows:
  assumes "ed_ok ed" "0 < cursor_pos ed"
  shows "\<exists>b. put (ed_buffer ed) (cursor_pos ed - 1) 0 = Some b \<and>
    shows_line ed s (ed\<lparr>ed_buffer := b, cursor_pos := cursor_pos ed - 1\<rparr>) (console_print [8] s)
      (line (ed\<lparr>ed_buffer := b, cursor_pos := cursor_pos ed - 1\<rparr>))"
proof -
  let ?i = "cursor_pos ed - 1"
  let ?ed = "ed\<lparr>ed_buffer := (ed_buffer ed)[?i := 0], cursor_pos := ?i\<rparr>"
  have l: "line ?ed = butlast (line ed)"
    using assms by (simp add: line_def ed_ok_def butlast_take)
  then have "ed_ok ?ed" using assms by (auto simp: ed_ok_def dest: in_set_butlastD)
  then show ?thesis using assms l
    by (auto simp: put_def ed_ok_def shows_line_def console_print_def)
qed

text \<open>Every key but Tab is handled without leaving an array, and its effect is seen.\<close>

lemma edit_key_shows:
  assumes ok: "ed_ok ed" "hist_ok sh" "hist_plain sh" and key: "ctrl_key c k \<noteq> 10" "ctrl_key c k \<noteq> 13" "ctrl_key c k \<noteq> KEY_TAB"
  shows "\<exists>ed' s'. edit_key 128 k c ed sh s = Some (False, ed', sh, s') \<and> shows_line ed s ed' s' (line ed')"
proof -
  let ?k = "ctrl_key c k"
  consider (erase) "?k = 8 \<or> ?k = 0x7F" | (up) "?k = KEY_UP" | (down) "?k = KEY_DOWN"
    | (typed) "?k < 0x80 \<and> \<not> c \<and> 0x20 \<le> ?k \<and> ?k \<le> 0x7E"
    | (rest) "?k \<noteq> 8" "?k \<noteq> 0x7F" "?k \<noteq> KEY_UP" "?k \<noteq> KEY_DOWN" "\<not> (?k < 0x80 \<and> \<not> c \<and> 0x20 \<le> ?k \<and> ?k \<le> 0x7E)"
    by blast
  then show ?thesis
  proof cases
    case erase
    then show ?thesis using backspace_shows [OF ok(1), of s] ok(1) key
      by (cases "cursor_pos ed > 0") (auto simp: edit_key_def Let_def)
  next
    case up
    then show ?thesis using key_up_shows [OF ok, of s] key by (auto simp: edit_key_def Let_def KEY_UP_def)
  next
    case down
    then show ?thesis using key_down_shows [OF ok, of s] key by (auto simp: edit_key_def Let_def KEY_UP_def KEY_DOWN_def)
  next
    case rest
    then show ?thesis using ok(1) key by (auto simp: edit_key_def Let_def)
  next
    case typed
    let ?c = "ucast ?k :: u8"
    have typed': "?k < 0x80" "\<not> c" "0x20 \<le> ?k" "?k \<le> 0x7E" using typed by blast+
    have n: "unat ?k < 128" "32 \<le> unat ?k" "unat ?k \<le> 126" using typed by (auto simp: word_less_nat_alt word_le_nat_alt)
    then have u: "unat ?c = unat ?k" by (simp add: unsigned_ucast_eq take_bit_eq_mod)
    have c: "?c \<noteq> 0" "?c \<noteq> 8" using n u by (auto dest: arg_cong [of _ _ unat])
    have "?k \<noteq> 8" "?k \<noteq> 0x7F" "?k \<noteq> KEY_UP" "?k \<noteq> KEY_DOWN" using n by (auto simp: KEY_UP_def KEY_DOWN_def)
    then have e: "edit_key 128 k c ed sh s = type_chars 128 [?c] ed s \<bind> (\<lambda>(ed1, s1). Some (False, ed1, sh, s1))"
      using typed' key by (simp add: edit_key_def Let_def)
    obtain ed' s' where t: "type_chars 128 [?c] ed s = Some (ed', s')" "ed_ok ed'"
      "line ed' = line ed @ take (127 - cursor_pos ed) [?c]" "console_out s' = console_out s @ take (127 - cursor_pos ed) [?c]"
      using type_chars_shows [OF ok(1), of "[?c]" s] c by auto
    have "type_out (line ed) (take (127 - cursor_pos ed) [?c]) = line ed'"
      unfolding t(3) using c by (intro type_out_plain) (auto dest: in_set_takeD)
    then show ?thesis using e t(1,2,4) by (auto simp: shows_line_def simp del: type_chars.simps)
  qed
qed

text \<open>A session with the editor: the keys of a line before Enter, with or without Ctrl, while no other task
  writes on the console. A completion must not put a name with a backspace in its text into the line.\<close>

inductive edits :: "line_editor \<times> shell_state \<times> sys_state \<Rightarrow> line_editor \<times> shell_state \<times> sys_state \<Rightarrow> bool" where
  begin_line: "edits x x"
| key: "edits x (ed, sh, s) \<Longrightarrow> edit_key 128 k c ed sh s = Some (False, ed', sh', s') \<Longrightarrow>
    (ctrl_key c k = KEY_TAB \<longrightarrow> 8 \<notin> set (content (comp_match sh'))) \<Longrightarrow> edits x (ed', sh', s')"

lemma edit_step:
  assumes run: "edit_key 128 k c ed sh s = Some (False, ed', sh', s')" and ok: "ed_ok ed" "hist_ok sh" "hist_plain sh"
    and plain: "ctrl_key c k = KEY_TAB \<longrightarrow> 8 \<notin> set (content (comp_match sh'))"
  shows "shows_line ed s ed' s' (line ed') \<and> same_history sh sh'"
proof -
  have "ctrl_key c k \<noteq> 10 \<and> ctrl_key c k \<noteq> 13"
    using run enter_shows [OF _ ok(1,2), of c k s] by auto
  then show ?thesis
    using run plain edit_key_shows [OF ok, of c k s] key_tab_shows [OF _ ok(1), of sh s ed' sh' s']
    by (cases "ctrl_key c k = KEY_TAB") (auto simp: edit_key_def Let_def KEY_TAB_def KEY_UP_def KEY_DOWN_def bind_eq_Some_conv)
qed

lemma edits_show:
  assumes "edits (ed0, sh0, s0) (ed, sh, s)" "ed_ok ed0" "hist_ok sh0" "hist_plain sh0"
  shows "shows_line ed0 s0 ed s (line ed) \<and> same_history sh0 sh"
  using assms
proof (induction "(ed0, sh0, s0)" "(ed, sh, s)" arbitrary: ed sh s rule: edits.induct)
  case (key ed1 sh1 s1 k c ed sh s)
  then have 1: "shows_line ed0 s0 ed1 s1 (line ed1)" "same_history sh0 sh1" by auto
  then have "ed_ok ed1" "hist_ok sh1" "hist_plain sh1"
    using key.prems same_history_facts [OF 1(2)] by (auto simp: shows_line_def)
  from edit_step [OF key.hyps(3) this key.hyps(4)]
  have 2: "shows_line ed1 s1 ed s (line ed)" "same_history sh1 sh" by auto
  obtain out1 out2 where "console_out s1 = console_out s0 @ out1" "type_out (line ed0) out1 = line ed1"
    "console_out s = console_out s1 @ out2" "type_out (line ed1) out2 = line ed"
    using 1 2 by (auto simp: shows_line_def)
  then have "console_out s = console_out s0 @ (out1 @ out2)" "type_out (line ed0) (out1 @ out2) = line ed"
    by (simp_all add: type_out_append)
  then show ?case using 1 2 same_history_trans by (auto simp: shows_line_def)
qed simp_all

text \<open>C36: after any keys the console shows the line that is in the buffer, at most 127 characters, and
  Enter never fails: it hands exactly the line that is seen to the caller and to the history.\<close>

theorem line_seen_is_line_entered:
  assumes "length b = 128" "hist_ok sh0" "hist_plain sh0" "edits (start_editor b, sh0, s0) (ed, sh, s)"
  shows "\<exists>out ed' sh' s'. console_out s = console_out s0 @ out \<and> length (type_out [] out) \<le> 127 \<and>
    edit_key 128 10 c ed sh s = Some (True, ed', sh', s') \<and>
    content (ed_buffer ed') = type_out [] out \<and> hist_list sh' = remember (type_out [] out) (hist_list sh0)"
proof -
  from edits_show [OF assms(4) start_ed_ok [OF assms(1)] assms(2,3)]
  have e: "shows_line (start_editor b) s0 ed s (line ed)" "same_history sh0 sh" by auto
  obtain out where out: "console_out s = console_out s0 @ out" "type_out [] out = line ed" "ed_ok ed"
    using e(1) by (auto simp: shows_line_def line_def start_editor_def)
  have k: "ctrl_key c 10 = 10 \<or> ctrl_key c 10 = 13" by (simp add: ctrl_key_def)
  have "hist_ok sh" "hist_list sh = hist_list sh0" using same_history_facts [OF e(2)] assms(2) by auto
  then show ?thesis using enter_shows [OF k out(3), of sh s] out length_line [OF out(3)] by (auto simp: ed_ok_def)
qed

theorem line_seen_is_line_entered_witness:
  "\<exists>ed sh s ed' sh' s'. edits (start_editor (replicate 128 0), boot_shell, sample_sys) (ed, sh, s) \<and>
     console_out s = bytes ''ls'' \<and> edit_key 128 10 False ed sh s = Some (True, ed', sh', s') \<and>
     content (ed_buffer ed') = bytes ''ls'' \<and> hist_list sh' = [bytes ''ls'']"
proof -
  let ?b = "replicate 128 0 :: u8 list"
  let ?ed1 = "\<lparr>ed_buffer = ?b[0 := 108], cursor_pos = 1, history_offset = 0, typing_buf = ?b\<rparr>"
  let ?ed2 = "?ed1\<lparr>ed_buffer := ?b[0 := 108, 1 := 115], cursor_pos := 2\<rparr>"
  let ?s1 = "console_print [108] sample_sys" and ?s2 = "console_print [115] (console_print [108] sample_sys)"
  have keys: "edit_key 128 108 False (start_editor ?b) boot_shell sample_sys = Some (False, ?ed1, boot_shell, ?s1)"
    "edit_key 128 115 False ?ed1 boot_shell ?s1 = Some (False, ?ed2, boot_shell, ?s2)"
    by (simp_all add: edit_key_def ctrl_key_def Let_def start_editor_def put_def KEY_UP_def KEY_DOWN_def KEY_TAB_def)
  have tab: "ctrl_key False 108 \<noteq> KEY_TAB" "ctrl_key False 115 \<noteq> KEY_TAB" by (simp_all add: ctrl_key_def KEY_TAB_def)
  have e: "edits (start_editor ?b, boot_shell, sample_sys) (?ed2, boot_shell, ?s2)"
    using edits.key [OF edits.key [OF edits.begin_line keys(1)] keys(2)] tab by blast
  have plain: "hist_plain boot_shell" by (simp add: hist_plain_def boot_shell_def content_def)
  have out: "console_out ?s2 = console_out sample_sys @ bytes ''ls''" "console_out sample_sys = []"
    by (simp_all add: console_print_def bytes_def sample_sys_def net_state.extend_def procfs_state.extend_def fat_state.extend_def)
  have t: "type_out [] (bytes ''ls'') = bytes ''ls''" by (simp add: bytes_def)
  have r: "remember (bytes ''ls'') (hist_list boot_shell) = [bytes ''ls'']"
    by (simp add: remember_def boot_hist_list bytes_def)
  obtain out' ed' sh' s' where o: "console_out ?s2 = console_out sample_sys @ out'"
    "edit_key 128 10 False ?ed2 boot_shell ?s2 = Some (True, ed', sh', s')"
    "content (ed_buffer ed') = type_out [] out'" "hist_list sh' = remember (type_out [] out') (hist_list boot_shell)"
    using line_seen_is_line_entered [OF _ boot_hist_ok plain e, of False] by auto
  have "out' = bytes ''ls''" using o(1) out(1) by simp
  then have "content (ed_buffer ed') = bytes ''ls''" "hist_list sh' = [bytes ''ls'']" using o(3,4) t r by simp_all
  moreover have "console_out ?s2 = bytes ''ls''" using out by simp
  ultimately show ?thesis using e o(2) by (intro exI conjI)
qed

end
