(* ===== verification/Shell.thy ===== *)
theory Shell
  imports Shell_Screen
begin

text \<open>
  The commands of the kernel shell, \<open>progs/shell/shell.c\<close>: the words of a line, programs and where they are
  looked for, redirections, the three built-in commands, pipelines, and a turn of \<open>kshell_main\<close>. \<open>None\<close> is
  undefined behaviour or a call that does not return. The results of \<open>resolve_path\<close> are not looked at: if
  it fails, the array of the path is read without having been written, \<open>None\<close>. \<open>ptrs\<close> are the words of
  the array of argument pointers in \<open>elf_load_and_spawn\<close>. \<open>con\<close> is the cached node of standard output.
\<close>

section \<open>Words\<close>

definition SHELL_MAX_ARGS :: nat where "SHELL_MAX_ARGS = 32"

definition is_blank :: "u8 \<Rightarrow> bool" where
  "is_blank c \<longleftrightarrow> c = 32 \<or> c = 9"

text \<open>Line ends at the end of the line are cut off.\<close>

fun strip_end :: "u8 list \<Rightarrow> nat \<Rightarrow> u8 list" where
  "strip_end l 0 = l"
| "strip_end l (Suc n) = (if l ! n = 10 \<or> l ! n = 13 then strip_end (l[n := 0]) n else l)"

text \<open>The loop that fills \<open>argv\<close>; the number is how many more words it takes.\<close>

fun split_args :: "nat \<Rightarrow> cstr \<Rightarrow> u8 list list" where
  "split_args 0 p = []"
| "split_args (Suc n) p =
     (if deref p = 0 then []
      else let q = dropWhile is_blank p
           in if deref q = 0 then []
              else let w = takeWhile (\<lambda>c. c \<noteq> 0 \<and> \<not> is_blank c) q; r = drop (length w) q
                   in w # split_args n (if deref r \<noteq> 0 then tl r else r))"

definition command_args :: "u8 list \<Rightarrow> u8 list list" where
  "command_args l = split_args (SHELL_MAX_ARGS - 1) (strip_end l (strlen l))"

text \<open>The words before and after the first bar.\<close>

definition pipe_index :: "cstr list \<Rightarrow> nat option" where
  "pipe_index argv =
     (let i = length (takeWhile (\<lambda>a. strcmp a (bytes ''|'') \<noteq> 0) argv) in if i < length argv then Some i else None)"

section \<open>Programs\<close>

definition has_elf_suffix :: "cstr \<Rightarrow> bool" where
  "has_elf_suffix name \<longleftrightarrow> strlen name \<ge> 4 \<and> strcasecmp (drop (strlen name - 4) name) (bytes ''.elf'') = 0"

definition SYSTEM_PROGRAM_PREFIX :: cstr where
  "SYSTEM_PROGRAM_PREFIX = bytes ''/system/bin/usr/commands/''"

definition program_path :: "cstr \<Rightarrow> cstr" where
  "program_path name =
     (if \<not> has_elf_suffix name then take (min (strlen name) 59) name @ bytes ''.elf''
      else take 63 (content name))"

definition prefixed_path :: "nat \<Rightarrow> cstr \<Rightarrow> cstr \<Rightarrow> cstr" where
  "prefixed_path sz pre path =
     (let plen = strlen path; plen = (if length pre + plen \<ge> sz then sz - length pre - 1 else plen)
      in pre @ take plen path)"

text \<open>The program of the working directory, of the system directory or of the root.\<close>

definition shell_spawn_command ::
  "sys_env \<Rightarrow> u32 list \<Rightarrow> cstr list \<Rightarrow> u32 \<Rightarrow> u32 \<Rightarrow> sys_state \<Rightarrow> (u32 \<times> sys_state) option"
where
  "shell_spawn_command env ptrs argv in_node out_node s =
     (case argv of
        [] \<Rightarrow> Some (0, s)
      | name # args \<Rightarrow>
          do {
            let path = program_path name;
            let spawn = (\<lambda>p. elf_load_and_spawn env p argv ptrs in_node out_node);
            (pid, s1) \<leftarrow> spawn path s;
            if pid \<noteq> 0 then Some (pid, s1)
            else do {
              (pid, s2) \<leftarrow> spawn (prefixed_path 128 SYSTEM_PROGRAM_PREFIX path) s1;
              if pid \<noteq> 0 then Some (pid, s2)
              else spawn (prefixed_path 64 [47] path) s2
            }
          })"

section \<open>Built-in commands\<close>

definition println :: "string \<Rightarrow> cstr" where
  "println t = bytes t @ [10]"

text \<open>The path of a program in the working directory, in an array of 256 bytes.\<close>

definition help_path :: "u8 list \<Rightarrow> cstr \<Rightarrow> cstr option" where
  "help_path cwd file_name =
     (let p = (if length cwd = 1 \<and> cwd ! 0 = 47 then [47]
               else if cwd \<noteq> [] \<and> last cwd = 47 then cwd else cwd @ [47]) @ content file_name
      in if cwd \<noteq> [] \<and> length p < 256 then Some p else None)"

definition shell_help_visitor ::
  "sys_env \<Rightarrow> u8 list \<times> cstr \<Rightarrow> u32 \<times> sys_state \<Rightarrow> (u32 \<times> sys_state) option"
where
  "shell_help_visitor env item cs =
     (case (item, cs) of ((e, file_name), (con, s)) \<Rightarrow>
       if e_attributes e = 0x0F \<or> e ! 0 = 0xE5 then Some (con, s)
       else if \<not> has_elf_suffix file_name then Some (con, s)
       else do {
         full_path \<leftarrow> help_path (current_path s) file_name;
         (found, desc, s1) \<leftarrow> elf_get_description env full_path (replicate 256 0) 256 s;
         if found then kprintf env (println ''  %s - %s'') [ArgStr (Some file_name), ArgStr (Some desc)] con s1
         else kprintf env (println ''  %s (no description)'') [ArgStr (Some file_name)] con s1
       })"

text \<open>The visitor is called while the directory is read; it only reads, so the names are listed first.\<close>

definition help_list :: "sys_env \<Rightarrow> u32 \<Rightarrow> sys_state \<Rightarrow> (u32 \<times> sys_state) option" where
  "help_list env con s = do { items \<leftarrow> fat16_list s; fold_opt (shell_help_visitor env) items (con, s) }"

definition command_help :: "sys_env \<Rightarrow> u32 \<Rightarrow> sys_state \<Rightarrow> (u32 \<times> sys_state) option" where
  "command_help env con s =
     do {
       (c1, s1) \<leftarrow> kprintf env (println ''MeowMeowOS Commands'') [] con s;
       (c2, s2) \<leftarrow> kprintf env (println ''Built-ins: help, clear, cd'' @ [10]) [] c1 s1;
       let old_cwd = current_path s2;
       (r, s3) \<leftarrow> fat16_chdir (bytes ''/system/bin/usr/commands'') s2;
       if r = 0
       then do {
         (c4, s4) \<leftarrow> kprintf env (println ''Installed commands:'') [] c2 s3;
         (c5, s5) \<leftarrow> help_list env c4 s4;
         (r6, s6) \<leftarrow> fat16_chdir [47] s5;
         (c7, s7) \<leftarrow> kprintf env (10 # println ''Root commands:'') [] c5 s6;
         (c8, s8) \<leftarrow> help_list env c7 s7;
         (r9, s9) \<leftarrow> fat16_chdir old_cwd s8;
         Some (c8, s9)
       }
       else do {
         (r4, s4) \<leftarrow> fat16_chdir [47] s3;
         (c5, s5) \<leftarrow> help_list env c2 s4;
         (r6, s6) \<leftarrow> fat16_chdir old_cwd s5;
         Some (c5, s6)
       }
     }"

text \<open>The characters since the screen was cleared.\<close>

definition command_clear :: "sys_state \<Rightarrow> sys_state" where
  "command_clear s = s\<lparr>console_out := []\<rparr>"

definition command_cd :: "sys_env \<Rightarrow> cstr list \<Rightarrow> u32 \<Rightarrow> sys_state \<Rightarrow> (u32 \<times> sys_state) option" where
  "command_cd env argv con s =
     (if length argv < 2 then kprintf env (println ''Usage: cd <path>'') [] con s
      else do { (r, s1) \<leftarrow> fat16_chdir (argv ! 1) s; Some (con, s1) })"

section \<open>Redirections\<close>

record redirection =
  in_node :: u32
  out_node :: u32
  append_out :: bool
  should_close_in :: bool
  should_close_out :: bool
  new_argv :: "cstr list"

definition close_if :: "bool \<Rightarrow> u32 \<Rightarrow> sys_state \<Rightarrow> sys_state option" where
  "close_if b node s = (if b then node_close node s else Some s)"

definition arg_path :: "cstr \<Rightarrow> sys_state \<Rightarrow> cstr option" where
  "arg_path a s = resolve_path (Some (current_path s)) (Some a) False 256"

definition redirect_in :: "cstr \<Rightarrow> redirection \<Rightarrow> sys_state \<Rightarrow> (redirection option \<times> sys_state) option" where
  "redirect_in a r s =
     do {
       path \<leftarrow> arg_path a s;
       s1 \<leftarrow> close_if (should_close_in r) (in_node r) s;
       (node, s2) \<leftarrow> fat16_vfs_open (Some path) s1;
       Some (if node = 0 then None else Some (r\<lparr>in_node := node, should_close_in := True\<rparr>), s2)
     }"

definition redirect_out :: "sys_env \<Rightarrow> cstr \<Rightarrow> redirection \<Rightarrow> sys_state \<Rightarrow> (redirection option \<times> sys_state) option" where
  "redirect_out env a r s =
     do {
       path \<leftarrow> arg_path a s;
       s1 \<leftarrow> fat16_delete_file (Some path) s;
       s2 \<leftarrow> fat16_write_file path (32 # env_behind env) 1 s1;
       s3 \<leftarrow> close_if (should_close_out r) (out_node r) s2;
       (node, s4) \<leftarrow> fat16_vfs_open (Some path) s3;
       Some (if node = 0 then None
             else Some (r\<lparr>out_node := node, append_out := False, should_close_out := True\<rparr>), s4)
     }"

definition redirect_append :: "sys_env \<Rightarrow> cstr \<Rightarrow> redirection \<Rightarrow> sys_state \<Rightarrow> (redirection option \<times> sys_state) option" where
  "redirect_append env a r s =
     do {
       path \<leftarrow> arg_path a s;
       s1 \<leftarrow> close_if (should_close_out r) (out_node r) s;
       (node, s2) \<leftarrow> fat16_vfs_open (Some path) s1;
       (node, s3) \<leftarrow> (if node = 0
         then do { t \<leftarrow> fat16_write_file path (32 # env_behind env) 1 s2; fat16_vfs_open (Some path) t }
         else Some (node, s2));
       Some (if node = 0 then None
             else Some (r\<lparr>out_node := node, append_out := True, should_close_out := True\<rparr>), s3)
     }"

definition keep_arg :: "cstr \<Rightarrow> redirection \<Rightarrow> redirection" where
  "keep_arg a r = (if length (new_argv r) < SHELL_MAX_ARGS - 1 then r\<lparr>new_argv := new_argv r @ [a]\<rparr> else r)"

text \<open>The loop over the words. A redirection that fails is reported, and nothing that was opened is closed.\<close>

fun redirect_args ::
  "sys_env \<Rightarrow> cstr list \<Rightarrow> redirection \<Rightarrow> u32 \<Rightarrow> sys_state \<Rightarrow> (redirection option \<times> u32 \<times> sys_state) option"
where
  "redirect_args env [] r con s = Some (Some r, con, s)"
| "redirect_args env [a] r con s = Some (Some (keep_arg a r), con, s)"
| "redirect_args env (a # b # args) r con s =
     (if strcmp a (bytes ''<'') = 0
      then do {
        (r', s1) \<leftarrow> redirect_in b r s;
        case r' of
          None \<Rightarrow> do { (c, s2) \<leftarrow> kprintf env (println ''shell: no such file: %s'') [ArgStr (Some b)] con s1; Some (None, c, s2) }
        | Some r1 \<Rightarrow> redirect_args env args r1 con s1
      }
      else if strcmp a (bytes ''>'') = 0
      then do {
        (r', s1) \<leftarrow> redirect_out env b r s;
        case r' of
          None \<Rightarrow> do { (c, s2) \<leftarrow> kprintf env (println ''shell: cannot create file: %s'') [ArgStr (Some b)] con s1; Some (None, c, s2) }
        | Some r1 \<Rightarrow> redirect_args env args r1 con s1
      }
      else if strcmp a (bytes ''>>'') = 0
      then do {
        (r', s1) \<leftarrow> redirect_append env b r s;
        case r' of
          None \<Rightarrow> do { (c, s2) \<leftarrow> kprintf env (println ''shell: cannot create file: %s'') [ArgStr (Some b)] con s1; Some (None, c, s2) }
        | Some r1 \<Rightarrow> redirect_args env args r1 con s1
      }
      else redirect_args env (b # args) (keep_arg a r) con s)"

section \<open>Commands\<close>

text \<open>Where standard output of the new task starts in the file.\<close>

definition set_out_offset :: "u32 \<Rightarrow> redirection \<Rightarrow> sys_state \<Rightarrow> sys_state" where
  "set_out_offset pid r s =
     (let t = task_get_by_pid pid s;
          at = (\<lambda>off. upd_task t (\<lambda>k. k\<lparr>t_fd_table := (t_fd_table k)[1 := (t_fd_table k ! 1)\<lparr>fd_current_offset := off\<rparr>]\<rparr>) s)
      in if t \<noteq> 0 \<and> out_node r \<noteq> 0
         then if append_out r then at (nd_length (nodes s (out_node r)))
              else if should_close_out r then at 0 else s
         else s)"

definition close_redirections :: "redirection \<Rightarrow> sys_state \<Rightarrow> sys_state option" where
  "close_redirections r s = do { s1 \<leftarrow> close_if (should_close_in r) (in_node r) s; close_if (should_close_out r) (out_node r) s1 }"

definition run_command :: "sys_env \<Rightarrow> u32 list \<Rightarrow> redirection \<Rightarrow> u32 \<Rightarrow> sys_state \<Rightarrow> (u32 \<times> u32 \<times> sys_state) option" where
  "run_command env ptrs r con s =
     do {
       let name = hd (new_argv r);
       if strcmp name (bytes ''help'') = 0
       then do { (c, s1) \<leftarrow> command_help env con s; s2 \<leftarrow> close_redirections r s1; Some (0, c, s2) }
       else if strcmp name (bytes ''clear'') = 0
       then do { s1 \<leftarrow> close_redirections r (command_clear s); Some (0, con, s1) }
       else if strcmp name (bytes ''cd'') = 0
       then do { (c, s1) \<leftarrow> command_cd env (new_argv r) con s; s2 \<leftarrow> close_redirections r s1; Some (0, c, s2) }
       else do {
         (pid, s1) \<leftarrow> shell_spawn_command env ptrs (new_argv r) (in_node r) (out_node r) s;
         (c, s2) \<leftarrow> (if pid \<noteq> 0 then Some (con, set_out_offset pid r s1)
           else kprintf env (println ''shell: command not found: %s'') [ArgStr (Some name)] con s1);
         s3 \<leftarrow> close_redirections r s2;
         Some (pid, c, s3)
       }
     }"

definition execute_command_block ::
  "sys_env \<Rightarrow> u32 list \<Rightarrow> cstr list \<Rightarrow> u32 \<Rightarrow> u32 \<Rightarrow> u32 \<Rightarrow> sys_state \<Rightarrow> (u32 \<times> u32 \<times> sys_state) option"
where
  "execute_command_block env ptrs argv pipe_in pipe_out con s =
     do {
       (r, c, s1) \<leftarrow> redirect_args env argv \<lparr>in_node = pipe_in, out_node = pipe_out, append_out = False,
         should_close_in = False, should_close_out = False, new_argv = []\<rparr> con s;
       case r of
         None \<Rightarrow> Some (0, c, s1)
       | Some r1 \<Rightarrow> if new_argv r1 = [] then Some (0, c, s1) else run_command env ptrs r1 c s1
     }"

text \<open>\<open>task_wait\<close>, and what the other tasks do until the shell runs again.\<close>

definition wait_for ::
  "u32 \<Rightarrow> (sys_state \<Rightarrow> sys_state) list \<Rightarrow> sys_state \<Rightarrow> ((sys_state \<Rightarrow> sys_state) list \<times> sys_state) option"
where
  "wait_for pid others s =
     do {
       (switched, s1) \<leftarrow> task_wait pid s;
       if switched then (case others of [] \<Rightarrow> None | e # es \<Rightarrow> Some (es, e s1)) else Some (others, s1)
     }"

definition shell_execute_pipeline ::
  "sys_env \<Rightarrow> u32 list \<Rightarrow> cstr list \<Rightarrow> cstr list \<Rightarrow> u32 \<Rightarrow> (sys_state \<Rightarrow> sys_state) list \<Rightarrow> sys_state
   \<Rightarrow> (u32 \<times> (sys_state \<Rightarrow> sys_state) list \<times> sys_state) option"
where
  "shell_execute_pipeline env ptrs argv1 argv2 con others s =
     do {
       (r, read_node, write_node, s1) \<leftarrow> pipe_create s;
       if r < 0
       then do { (c, s2) \<leftarrow> kprintf env (println ''shell: failed to create pipe'') [] con s1; Some (c, others, s2) }
       else do {
         (pid1, c1, s2) \<leftarrow> execute_command_block env ptrs argv1 0 write_node con s1;
         if pid1 = 0
         then do { s3 \<leftarrow> node_close read_node s2; s4 \<leftarrow> node_close write_node s3; Some (c1, others, s4) }
         else do {
           (pid2, c2, s3) \<leftarrow> execute_command_block env ptrs argv2 read_node 0 c1 s2;
           s4 \<leftarrow> node_close read_node s3;
           s5 \<leftarrow> node_close write_node s4;
           (es, s6) \<leftarrow> wait_for pid1 others s5;
           if pid2 = 0 then Some (c2, es, s6)
           else do { (es', s7) \<leftarrow> wait_for pid2 es s6; Some (c2, es', s7) }
         }
       }
     }"

section \<open>The shell\<close>

text \<open>What is done with a line that was read.\<close>

definition execute_line ::
  "sys_env \<Rightarrow> u32 list \<Rightarrow> u8 list \<Rightarrow> u32 \<Rightarrow> (sys_state \<Rightarrow> sys_state) list \<Rightarrow> sys_state
   \<Rightarrow> (u32 \<times> (sys_state \<Rightarrow> sys_state) list \<times> sys_state) option"
where
  "execute_line env ptrs l con others s =
     (let argv = command_args l
      in if deref l = 0 \<or> argv = [] then Some (con, others, s)
         else case pipe_index argv of
           Some i \<Rightarrow>
             if i = 0 \<or> i = length argv - 1
             then do {
               (c, s1) \<leftarrow> kprintf env (bytes ''shell: syntax error near unexpected token '' @ [39, 124, 39, 10]) [] con s;
               Some (c, others, s1)
             }
             else shell_execute_pipeline env ptrs (take i argv) (drop (i + 1) argv) con others s
         | None \<Rightarrow> do {
             (pid, c, s1) \<leftarrow> execute_command_block env ptrs argv 0 0 con s;
             if pid \<noteq> 0 then do { (es, s2) \<leftarrow> wait_for pid others s1; Some (c, es, s2) }
             else Some (c, others, s1)
           })"

text \<open>One round of the loop of \<open>kshell_main\<close>; \<open>buf\<close> is what the array of the line holds before.\<close>

definition shell_turn ::
  "sys_env \<Rightarrow> u32 list \<Rightarrow> u8 list \<Rightarrow> shell_state \<times> (sys_state \<Rightarrow> sys_state) list \<times> sys_state
   \<Rightarrow> (shell_state \<times> (sys_state \<Rightarrow> sys_state) list \<times> sys_state) option"
where
  "shell_turn env ptrs buf x =
     (case x of (sh, others, s) \<Rightarrow>
       do {
         (c, s1) \<leftarrow> kprintf env (bytes ''[root@shell: %s]> '') [ArgStr (Some (current_path s))] (cached_stdio sh) s;
         (l, sh1, es, s2) \<leftarrow> shell_read_line buf 128 sh others s1;
         (c', es', s3) \<leftarrow> execute_line env ptrs l c es s2;
         Some (sh1\<lparr>cached_stdio := c'\<rparr>, es', s3)
       })"

text \<open>The first rounds of \<open>kshell_main\<close>, which never returns.\<close>

definition kshell_main ::
  "sys_env \<Rightarrow> u32 list \<Rightarrow> u8 list list \<Rightarrow> shell_state \<Rightarrow> (sys_state \<Rightarrow> sys_state) list \<Rightarrow> sys_state
   \<Rightarrow> (shell_state \<times> (sys_state \<Rightarrow> sys_state) list \<times> sys_state) option"
where
  "kshell_main env ptrs bufs sh others s =
     do {
       (c, s1) \<leftarrow> kprintf env (println ''Welcome to MeowMeowOS!'' @ [10]) [] (cached_stdio sh)
         (s\<lparr>eflags := enable_interrupts (eflags s)\<rparr>);
       fold_opt (shell_turn env ptrs) bufs (sh\<lparr>cached_stdio := c\<rparr>, others, s1)
     }"

section \<open>The words of a line\<close>

text \<open>The text between the blanks, empty pieces included.\<close>

fun pieces :: "u8 list \<Rightarrow> u8 list list" where
  "pieces [] = [[]]"
| "pieces (c # cs) = (if is_blank c then [] # pieces cs else (c # hd (pieces cs)) # tl (pieces cs))"

definition words_of :: "u8 list \<Rightarrow> u8 list list" where
  "words_of l = filter (\<lambda>w. w \<noteq> []) (pieces l)"

lemma pieces_not_Nil [simp]: "pieces l \<noteq> []"
  by (cases l) auto

lemma words_of_blank: "is_blank c \<Longrightarrow> words_of (c # cs) = words_of cs"
  by (simp add: words_of_def)

lemma words_of_dropWhile: "words_of (dropWhile is_blank l) = words_of l"
  by (induction l) (auto simp: words_of_blank)

text \<open>The first word, when the text starts with one.\<close>

lemma pieces_word:
  "\<forall>c \<in> set w. \<not> is_blank c \<Longrightarrow> pieces (w @ r) = (w @ hd (pieces r)) # tl (pieces r)"
  by (induction w) auto

lemma words_of_word:
  assumes "\<forall>c \<in> set w. \<not> is_blank c" "w \<noteq> []" "r = [] \<or> is_blank (hd r)"
  shows "words_of (w @ r) = w # words_of (tl r)"
proof (cases r)
  case Nil
  then show ?thesis using pieces_word [OF assms(1), of "[]"] assms(2) by (simp add: words_of_def)
next
  case (Cons c cs)
  then have "pieces (w @ r) = w # pieces cs" using pieces_word [OF assms(1), of r] assms(3) by simp
  then show ?thesis using Cons assms(2) by (simp add: words_of_def)
qed

lemma content_dropWhile: "content (dropWhile is_blank p) = dropWhile is_blank (content p)"
  by (induction p) (auto simp: is_blank_def)

lemma take_word: "takeWhile (\<lambda>c. c \<noteq> 0 \<and> \<not> is_blank c) q = takeWhile (\<lambda>c. \<not> is_blank c) (content q)"
  by (induction q) auto

lemma split_args_words: "split_args n p = take n (words_of (content p))"
proof (induction n arbitrary: p)
  case (Suc n)
  let ?q = "dropWhile is_blank p"
  have wq: "words_of (content ?q) = words_of (content p)" by (simp add: content_dropWhile words_of_dropWhile)
  show ?case
  proof (cases "content ?q = []")
    case True
    then have "words_of (content p) = []" using wq by (simp add: words_of_def)
    then show ?thesis using True by (simp add: deref_content Let_def)
  next
    case False
    let ?w = "takeWhile (\<lambda>c. \<not> is_blank c) (content ?q)"
    let ?r = "drop (length ?w) ?q"
    obtain r where r: "content ?q = ?w @ r" "r = [] \<or> is_blank (hd r)"
      using takeWhile_dropWhile_id [of "\<lambda>c. \<not> is_blank c" "content ?q"] hd_dropWhile by metis
    have d: "deref p \<noteq> 0" "deref ?q \<noteq> 0"
    proof -
      show "deref ?q \<noteq> 0" using False content_nonzero [of "hd (content ?q)" ?q]
        by (cases "content ?q") (auto simp: deref_content)
      then show "deref p \<noteq> 0" by (cases p) (auto simp: deref_def is_blank_def split: if_splits)
    qed
    have w: "?w \<noteq> []" "\<forall>c \<in> set ?w. \<not> is_blank c"
    proof -
      have "\<not> is_blank (hd (content ?q))" using False unfolding content_dropWhile by (rule hd_dropWhile)
      then show "?w \<noteq> []" using False by (cases "content ?q") auto
      show "\<forall>c \<in> set ?w. \<not> is_blank c" by (auto dest: set_takeWhileD)
    qed
    have rest: "content ?r = r" using content_parts [OF r(1)] by simp
    have "content (if deref ?r \<noteq> 0 then tl ?r else ?r) = tl r"
      using rest by (cases ?r) (auto simp: deref_def)
    then have "split_args (Suc n) p = ?w # take n (words_of (tl r))"
      using d Suc by (simp add: Let_def take_word)
    also have "\<dots> = take (Suc n) (words_of (?w @ r))"
      using words_of_word [OF w(2,1) r(2)] by simp
    finally show ?thesis using r(1) wq by simp
  qed
qed simp

text \<open>The line without the line ends at its end.\<close>

definition rstrip :: "u8 list \<Rightarrow> u8 list" where
  "rstrip l = rev (dropWhile (\<lambda>c. c = 10 \<or> c = 13) (rev l))"

lemma rstrip_snoc: "rstrip (l @ [c]) = (if c = 10 \<or> c = 13 then rstrip l else l @ [c])"
  by (simp add: rstrip_def)

lemma content_strip_end:
  "n \<le> length l \<Longrightarrow> content l = take n l \<Longrightarrow> content (strip_end l n) = rstrip (take n l)"
proof (induction n arbitrary: l)
  case (Suc n)
  have l: "take (Suc n) l = take n l @ [l ! n]" using Suc.prems by (simp add: take_Suc_conv_app_nth)
  show ?case
  proof (cases "l ! n = 10 \<or> l ! n = 13")
    case True
    have z: "0 \<notin> set (take n l)" using zero_content [of l] unfolding Suc.prems(2) l by simp
    have "content (l[n := 0]) = take n (l[n := 0])" using content_cut [of n l] Suc.prems(1) z by simp
    then show ?thesis using Suc.IH [of "l[n := 0]"] Suc.prems True l by (simp add: rstrip_snoc)
  next
    case False
    then show ?thesis using Suc.prems l by (simp add: rstrip_snoc)
  qed
qed (simp add: rstrip_def)

text \<open>C39: the words of a command are the maximal pieces without blanks and tabs of the line up to its line
  ends, in their order and at most 31 of them.\<close>

theorem command_args_words: "command_args l = take 31 (words_of (rstrip (content l)))"
proof -
  have "content l = take (strlen l) l" "strlen l \<le> length l"
    using content_parts [of l "content l" "[]"] length_takeWhile_le [of "\<lambda>c. c \<noteq> 0" l]
    by (simp_all add: strlen_content content_def)
  then show ?thesis using content_strip_end [of "strlen l" l]
    by (simp add: command_args_def split_args_words SHELL_MAX_ARGS_def)
qed

end
