(* ===== verification/Acpi.thy ===== *)
theory Acpi
  imports Usermem
begin

text \<open>
  The tables of the firmware, \<open>drivers/acpi/acpi.c\<close>: the search for the root table, the way over it to the
  fixed table and to the byte code of the DSDT, in which the values for switching off are looked for, and
  the writes to the ports that switch off or restart. The tables are read through the page tables; a page
  that is not present is a page fault, \<open>None\<close>. \<open>outb\<close> and \<open>outw\<close> are the list of the port and the value.
  Log messages and the idle loops of delay are left out.
\<close>

section \<open>State\<close>

record acpi_state =
  smi_cmd_port :: u32
  acpi_enable :: u8
  acpi_disable :: u8
  pm1a_cnt_blk :: u32
  pm1b_cnt_blk :: u32
  slp_typa :: u16
  slp_typb :: u16
  acpi_enabled_flag :: bool

definition boot_acpi :: acpi_state where
  "boot_acpi = \<lparr>smi_cmd_port = 0, acpi_enable = 0, acpi_disable = 0, pm1a_cnt_blk = 0, pm1b_cnt_blk = 0,
     slp_typa = 0, slp_typb = 0, acpi_enabled_flag = False\<rparr>"

definition SIZEOF_RSDP :: nat where "SIZEOF_RSDP = 20"
definition SIZEOF_ACPI_HEADER :: u32 where "SIZEOF_ACPI_HEADER = 36"

definition load32 :: "u32 \<Rightarrow> 'a vmm_state_scheme \<Rightarrow> u32 option" where
  "load32 a h = do { b \<leftarrow> user_load a 4 h; Some (le32 b 0) }"

definition load16 :: "u32 \<Rightarrow> 'a vmm_state_scheme \<Rightarrow> u16 option" where
  "load16 a h = do { b \<leftarrow> user_load a 2 h; Some (le16 b 0) }"

text \<open>\<open>strncmp\<close> and \<open>memcmp\<close> with a signature stop at the first byte that differs.\<close>

fun has_signature :: "u32 \<Rightarrow> u8 list \<Rightarrow> 'a vmm_state_scheme \<Rightarrow> bool option" where
  "has_signature a [] h = Some True"
| "has_signature a (c # cs) h = do { b \<leftarrow> user_get a h; if b = c then has_signature (a + 1) cs h else Some False }"

section \<open>The root table\<close>

text \<open>The signature of the root pointer, and a sum of its bytes that is zero.\<close>

definition rsdp_at :: "u32 \<Rightarrow> 'a vmm_state_scheme \<Rightarrow> bool option" where
  "rsdp_at p h =
     do {
       w \<leftarrow> load32 p h;
       if w \<noteq> 0x20445352 then Some False
       else do {
         w' \<leftarrow> load32 (p + 4) h;
         if w' \<noteq> 0x20525450 then Some False
         else do { b \<leftarrow> user_load p SIZEOF_RSDP h; Some (sum_list b = 0) }
       }
     }"

text \<open>The places at a distance of 16 bytes; the number is how many there are. The address of the table, or 0.\<close>

fun scan_rsdp :: "nat \<Rightarrow> u32 \<Rightarrow> 'a vmm_state_scheme \<Rightarrow> u32 option option" where
  "scan_rsdp 0 p h = Some None"
| "scan_rsdp (Suc n) p h =
     do { found \<leftarrow> rsdp_at p h; if found then do { a \<leftarrow> load32 (p + 16) h; Some (Some a) } else scan_rsdp n (p + 16) h }"

definition get_rsdt :: "'a vmm_state_scheme \<Rightarrow> u32 option" where
  "get_rsdt h =
     do {
       ebda_seg \<leftarrow> load16 0x40E h;
       let ebda_phys = (push_bit 4 (ucast ebda_seg) :: u32);
       r \<leftarrow> (if ebda_phys \<noteq> 0 then scan_rsdp 64 ebda_phys h else Some None);
       case r of
         Some a \<Rightarrow> Some a
       | None \<Rightarrow> do { r' \<leftarrow> scan_rsdp 8192 0xE0000 h; Some (case r' of None \<Rightarrow> 0 | Some a \<Rightarrow> a) }
     }"

section \<open>The tables\<close>

definition map_table :: "u32 \<Rightarrow> u32 \<Rightarrow> 'a vmm_state_scheme \<Rightarrow> 'a vmm_state_scheme option" where
  "map_table a sz h = vmm_map_region (a AND NOT 0xFFF) (a AND NOT 0xFFF) sz (PAGE_PRESENT OR PAGE_WRITE) h"

text \<open>The fixed table among the \<open>n\<close> entries from \<open>ptr\<close> on, 0 if there is none.\<close>

fun find_fadt :: "nat \<Rightarrow> u32 \<Rightarrow> 'a vmm_state_scheme \<Rightarrow> (u32 \<times> 'a vmm_state_scheme) option" where
  "find_fadt 0 ptr h = Some (0, h)"
| "find_fadt (Suc n) ptr h =
     do {
       a \<leftarrow> load32 ptr h;
       h1 \<leftarrow> map_table a 8192 h;
       facp \<leftarrow> has_signature a (bytes ''FACP'') h1;
       if facp then Some (a, h1) else find_fadt n (ptr + 4) h1
     }"

text \<open>The loop that looks for the name: \<open>dsdt_length\<close> and \<open>s5_addr\<close> after it.\<close>

fun find_s5 :: "nat \<Rightarrow> u32 \<Rightarrow> 'a vmm_state_scheme \<Rightarrow> (int \<times> u32) option" where
  "find_s5 0 p h = Some (- 1, p)"
| "find_s5 (Suc n) p h =
     do { found \<leftarrow> has_signature p (bytes ''_S5_'') h; if found then Some (int n, p) else find_s5 n (p + 1) h }"

definition s5_fallback :: "acpi_state \<Rightarrow> acpi_state" where
  "s5_fallback a = a\<lparr>slp_typa := 5 * 1024\<rparr>"

text \<open>\<open>if (*s5_addr == 0x0A) s5_addr++;\<close> and the value there.\<close>

definition s5_value :: "u32 \<Rightarrow> 'a vmm_state_scheme \<Rightarrow> (u16 \<times> u32) option" where
  "s5_value p h =
     do {
       b \<leftarrow> user_get p h;
       let q = (if b = 0x0A then p + 1 else p);
       v \<leftarrow> user_get q h;
       Some (push_bit 10 (ucast v), q + 1)
     }"

definition read_s5 :: "u32 \<Rightarrow> 'a vmm_state_scheme \<Rightarrow> acpi_state \<Rightarrow> acpi_state option" where
  "read_s5 s5_addr h a =
     do {
       b1 \<leftarrow> user_get (s5_addr - 1) h;
       b2 \<leftarrow> (if b1 = 0x08 then Some 0x08 else user_get (s5_addr - 2) h);
       if b2 = 0x08 \<and> b1 \<noteq> 92
       then do {
         len \<leftarrow> user_get (s5_addr + 4) h;
         let p = s5_addr + 4 + (ucast (drop_bit 6 (len AND 0xC0)) + 2);
         (ta, q) \<leftarrow> s5_value p h;
         (tb, q') \<leftarrow> s5_value q h;
         Some (a\<lparr>slp_typa := ta, slp_typb := tb\<rparr>)
       }
       else Some (s5_fallback a)
     }"

text \<open>\<open>len\<close> is the length of the table with its header.\<close>

definition s5_search :: "u32 \<Rightarrow> u32 \<Rightarrow> acpi_state \<Rightarrow> 'a vmm_state_scheme \<Rightarrow> acpi_state option" where
  "s5_search dsdt_addr len a h =
     do {
       (dsdt_length, s5_addr) \<leftarrow> find_s5 (nat (sint (len - SIZEOF_ACPI_HEADER))) (dsdt_addr + SIZEOF_ACPI_HEADER) h;
       if dsdt_length > 0 then read_s5 s5_addr h a else Some (s5_fallback a)
     }"

definition read_dsdt :: "u32 \<Rightarrow> acpi_state \<Rightarrow> 'a vmm_state_scheme \<Rightarrow> (acpi_state \<times> 'a vmm_state_scheme) option" where
  "read_dsdt dsdt_addr a h =
     do {
       h1 \<leftarrow> map_table dsdt_addr 65536 h;
       dsdt \<leftarrow> has_signature dsdt_addr (bytes ''DSDT'') h1;
       if \<not> dsdt then Some (a, h1)
       else do {
         len \<leftarrow> load32 (dsdt_addr + 4) h1;
         a1 \<leftarrow> s5_search dsdt_addr len a h1;
         Some (a1, h1)
       }
     }"

definition read_fadt :: "u32 \<Rightarrow> acpi_state \<Rightarrow> 'a vmm_state_scheme \<Rightarrow> (acpi_state \<times> 'a vmm_state_scheme) option" where
  "read_fadt fadt a h =
     do {
       dsdt_addr \<leftarrow> load32 (fadt + 40) h;
       smi \<leftarrow> load32 (fadt + 48) h;
       en \<leftarrow> user_get (fadt + 52) h;
       dis \<leftarrow> user_get (fadt + 53) h;
       pm1a \<leftarrow> load32 (fadt + 64) h;
       pm1b \<leftarrow> load32 (fadt + 68) h;
       let a1 = a\<lparr>smi_cmd_port := smi, acpi_enable := en, acpi_disable := dis, pm1a_cnt_blk := pm1a, pm1b_cnt_blk := pm1b\<rparr>;
       (a2, h1) \<leftarrow> (if dsdt_addr \<noteq> 0 then read_dsdt dsdt_addr a1 h else Some (a1, h));
       Some (a2\<lparr>acpi_enabled_flag := True\<rparr>, h1)
     }"

definition acpi_initialize :: "acpi_state \<Rightarrow> 'a vmm_state_scheme \<Rightarrow> (acpi_state \<times> 'a vmm_state_scheme) option" where
  "acpi_initialize a h =
     do {
       rsdt \<leftarrow> get_rsdt h;
       if rsdt = 0 then Some (a, h)
       else do {
         h1 \<leftarrow> map_table rsdt 65536 h;
         valid \<leftarrow> has_signature rsdt (bytes ''RSDT'') h1;
         if \<not> valid then Some (a, h1)
         else do {
           len \<leftarrow> load32 (rsdt + 4) h1;
           (fadt, h2) \<leftarrow> find_fadt (unat ((len - SIZEOF_ACPI_HEADER) div 4)) (rsdt + SIZEOF_ACPI_HEADER) h1;
           if fadt = 0 then Some (a, h2) else read_fadt fadt a h2
         }
       }
     }"

section \<open>Switching off and restarting\<close>

datatype port_write = Outb u32 u8 | Outw u32 u16

text \<open>What is written before the processor halts.\<close>

definition acpi_poweroff :: "acpi_state \<Rightarrow> port_write list" where
  "acpi_poweroff a =
     (if acpi_enabled_flag a
      then (if smi_cmd_port a \<noteq> 0 \<and> acpi_enable a \<noteq> 0 then [Outb (smi_cmd_port a) (acpi_enable a)] else []) @
           (if pm1a_cnt_blk a \<noteq> 0 then [Outw (pm1a_cnt_blk a) (slp_typa a OR bit_mask 13)] else []) @
           (if pm1b_cnt_blk a \<noteq> 0 then [Outw (pm1b_cnt_blk a) (slp_typb a OR bit_mask 13)] else [])
      else []) @
     [Outw 0xB004 0x2000, Outw 0x604 0x2000, Outw 0x4004 0x3400]"

text \<open>The status bytes of the keyboard controller are read until its buffer is empty; \<open>None\<close> if it never is.\<close>

fun drained :: "u8 list \<Rightarrow> bool option" where
  "drained [] = None"
| "drained (st # sts) = (if st AND 1 \<noteq> 0 then drained sts else Some True)"

definition acpi_reboot :: "u8 \<Rightarrow> u8 list \<Rightarrow> port_write list option" where
  "acpi_reboot cf9 status =
     (let reset_val = cf9 AND NOT 6
      in do {
        d \<leftarrow> drained status;
        Some [Outb 0xCF9 (reset_val OR 2), Outb 0xCF9 (reset_val OR 6), Outb 0x64 0xFE]
      })"

section \<open>What is taken for the sleep type\<close>

text \<open>The bytes of \<open>bs\<close> are in memory from \<open>p\<close> on.\<close>

definition in_memory :: "u8 list \<Rightarrow> u32 \<Rightarrow> 'a vmm_state_scheme \<Rightarrow> bool" where
  "in_memory bs p h \<longleftrightarrow> (\<forall>i < length bs. user_get (p + of_nat i) h = Some (bs ! i))"

lemma in_memory_Cons: "in_memory (b # bs) p h \<longleftrightarrow> user_get p h = Some b \<and> in_memory bs (p + 1) h"
  by (auto simp: in_memory_def less_Suc_eq_0_disj algebra_simps)

lemma in_memory_Nil [simp]: "in_memory [] p h"
  by (simp add: in_memory_def)

lemma in_memory_drop: "in_memory bs p h \<Longrightarrow> in_memory (drop n bs) (p + of_nat n) h"
  unfolding in_memory_def
proof (intro allI impI)
  fix i assume all: "\<forall>i < length bs. user_get (p + of_nat i) h = Some (bs ! i)" and i: "i < length (drop n bs)"
  have "n + i < length bs" using i by simp
  then have "user_get (p + of_nat (n + i)) h = Some (bs ! (n + i))" using all by blast
  then show "user_get (p + of_nat n + of_nat i) h = Some (drop n bs ! i)" using i by (simp add: algebra_simps)
qed

lemma has_signature_eq:
  "in_memory bs p h \<Longrightarrow> length cs \<le> length bs \<Longrightarrow> has_signature p cs h = Some (take (length cs) bs = cs)"
proof (induction p cs h arbitrary: bs rule: has_signature.induct)
  case (2 p c cs h)
  then show ?case by (cases bs) (auto simp: in_memory_Cons)
qed simp

text \<open>The loop stops at the first place where the name stands.\<close>

lemma find_s5_first:
  assumes "in_memory bs p h" "take 4 (drop j bs) = bytes ''_S5_''" "j < n"
    "\<forall>i < j. take 4 (drop i bs) \<noteq> bytes ''_S5_''"
  shows "find_s5 n p h = Some (int (n - Suc j), p + of_nat j)"
  using assms
proof (induction j arbitrary: n p bs)
  case 0
  have l: "length (bytes ''_S5_'') = 4" by (simp add: bytes_def)
  have "4 \<le> length bs" using arg_cong [OF 0(2), of length] l by simp
  then have "has_signature p (bytes ''_S5_'') h = Some True" using has_signature_eq [OF 0(1)] 0(2) l by simp
  then show ?case using 0(3) by (cases n) auto
next
  case (Suc j)
  have l: "length (bytes ''_S5_'') = 4" by (simp add: bytes_def)
  have "4 \<le> length (drop (Suc j) bs)" using arg_cong [OF Suc.prems(2), of length] l by simp
  then have s: "has_signature p (bytes ''_S5_'') h = Some False"
    using has_signature_eq [OF Suc.prems(1)] Suc.prems(4) l by auto
  obtain b bs' where bs: "bs = b # bs'" using \<open>4 \<le> length (drop (Suc j) bs)\<close> by (cases bs) auto
  obtain m where n: "n = Suc m" using Suc.prems(3) by (cases n) auto
  have "find_s5 m (p + 1) h = Some (int (m - Suc j), p + 1 + of_nat j)"
    using Suc.prems bs n by (intro Suc.IH [of bs']) (auto simp: in_memory_Cons)
  then show ?case using s n by (simp add: algebra_simps)
qed

text \<open>What is read behind the name when the package operator \<open>0x12\<close> follows it.\<close>

lemma read_s5_package:
  assumes "user_get (p - 1) h = Some 0x08" "user_get (p + 4) h = Some 0x12" "user_get (p + 6) h = Some n" "n \<noteq> 0x0A"
    "user_get (p + 7) h = Some 0x0A" "user_get (p + 8) h = Some t"
  shows "read_s5 p h a = Some (a\<lparr>slp_typa := push_bit 10 (ucast n), slp_typb := push_bit 10 (ucast t)\<rparr>)"
proof -
  have "(0x12 :: u8) AND 0xC0 = 0" by simp
  then have "p + 4 + (ucast (drop_bit 6 ((0x12 :: u8) AND 0xC0)) + 2) = p + 6" by (simp only: drop_bit_of_0) simp
  moreover have "s5_value (p + 6) h = Some (push_bit 10 (ucast n), p + 7)"
    using assms by (simp add: s5_value_def Let_def)
  moreover have "s5_value (p + 7) h = Some (push_bit 10 (ucast t), p + 9)"
    using assms(5,6) by (simp add: s5_value_def Let_def add.commute [of p])
  ultimately show ?thesis
    unfolding read_s5_def Let_def using assms(1,2) by (simp only: bind.bind_lunit prod.case if_True simp_thms) simp
qed

text \<open>C40: with the object \<open>_S5_\<close> as compilers of ACPI code emit it, a package of which the first two elements
  are the sleep types of the two registers, the code takes the number of elements for the first type and
  the type of the first register for the second: it leaves out the byte with the package operator.\<close>

theorem s5_takes_element_count:
  assumes "in_memory bs (dsdt_addr + SIZEOF_ACPI_HEADER) h" "nat (sint (len - SIZEOF_ACPI_HEADER)) = length bs"
    and bs: "bs = pre @ 0x08 # bytes ''_S5_'' @ [0x12, pkg_length, num_elements, 0x0A, type_a, 0x0A, type_b] @ post"
    and first: "\<forall>i \<le> length pre. take 4 (drop i bs) \<noteq> bytes ''_S5_''" and n: "num_elements \<noteq> 0x0A"
  shows "s5_search dsdt_addr len a h =
    Some (a\<lparr>slp_typa := push_bit 10 (ucast num_elements), slp_typb := push_bit 10 (ucast type_a)\<rparr>)"
proof -
  let ?q = "dsdt_addr + SIZEOF_ACPI_HEADER" and ?k = "length pre"
  let ?s5 = "?q + of_nat (Suc ?k)"
  have len: "length bs = ?k + 12 + length post" unfolding bs by (simp add: bytes_def)
  have sig: "take 4 (drop (Suc ?k) bs) = bytes ''_S5_''" unfolding bs by (simp add: bytes_def)
  have f: "find_s5 (length bs) ?q h = Some (int (length bs - Suc (Suc ?k)), ?s5)"
    by (rule find_s5_first [OF assms(1) sig]) (use len first in \<open>auto simp: less_Suc_eq_le\<close>)
  have tail: "in_memory (drop ?k bs) (?q + of_nat ?k) h" using in_memory_drop [OF assms(1)] .
  have d: "drop ?k bs = [0x08, 95, 83, 53, 95, 0x12, pkg_length, num_elements, 0x0A, type_a, 0x0A, type_b] @ post"
    unfolding bs by (simp add: bytes_def)
  have g: "user_get (?q + of_nat ?k + of_nat i) h = Some (drop ?k bs ! i)" if "i < 12" for i
    using tail that unfolding in_memory_def by (auto simp: d)
  have at: "user_get (?s5 - 1) h = Some 0x08" "user_get (?s5 + 4) h = Some 0x12" "user_get (?s5 + 6) h = Some num_elements"
    "user_get (?s5 + 7) h = Some 0x0A" "user_get (?s5 + 8) h = Some type_a"
    using g [of 0] g [of 5] g [of 7] g [of 8] g [of 9] unfolding d by (simp_all add: algebra_simps)
  have "read_s5 ?s5 h a = Some (a\<lparr>slp_typa := push_bit 10 (ucast num_elements), slp_typb := push_bit 10 (ucast type_a)\<rparr>)"
    by (rule read_s5_package [OF at(1-3) n at(4,5)])
  then show ?thesis using f assms(2) len by (simp add: s5_search_def)
qed

text \<open>A program's page with such an object, of four elements, for the sleep type 5.\<close>

definition sample_aml :: vmm_state where
  "sample_aml = vmm_state.truncate ((kheap sample_sys)\<lparr>mem := (\<lambda>a. 0)(0x2004 := 0x3003, 0x3800 := 0x600003,
     0x600000 := 0x35535F08, 0x600004 := 0x0406125F, 0x600008 := 0x050A050A)\<rparr>)"

lemma sample_aml_fields: "cr3 sample_aml = 0x2000" "mem sample_aml = (\<lambda>a. 0)(0x2004 := 0x3003, 0x3800 := 0x600003,
     0x600000 := 0x35535F08, 0x600004 := 0x0406125F, 0x600008 := 0x050A050A)"
  by (simp_all add: sample_aml_def vmm_state.defs)

lemma sample_aml_memory:
  "in_memory [0x08, 95, 83, 53, 95, 0x12, 6, 4, 0x0A, 5, 0x0A, 5] 0x600000 sample_aml"
  by (simp add: in_memory_Cons user_get_def page_present_def page_entry_def phys_of_def pd_index_def pt_index_def slot_def
      frame_of_def byte_at_def byte_shift_def PAGE_PRESENT_def sample_aml_fields)

theorem s5_takes_element_count_witness:
  "s5_search 0x5FFFDC 48 boot_acpi sample_aml = Some (boot_acpi\<lparr>slp_typa := 4 * 1024, slp_typb := 5 * 1024\<rparr>)"
proof -
  let ?bs = "[0x08, 95, 83, 53, 95, 0x12, 6, 4, 0x0A, 5, 0x0A, 5] :: u8 list"
  have m: "in_memory ?bs (0x5FFFDC + SIZEOF_ACPI_HEADER) sample_aml"
    using sample_aml_memory by (simp add: SIZEOF_ACPI_HEADER_def)
  have l: "nat (sint (48 - SIZEOF_ACPI_HEADER)) = length ?bs" by (simp add: SIZEOF_ACPI_HEADER_def)
  have b: "?bs = [] @ 0x08 # bytes ''_S5_'' @ [0x12, 6, 4, 0x0A, 5, 0x0A, 5] @ []" by (simp add: bytes_def)
  have f: "\<forall>i \<le> length ([] :: u8 list). take 4 (drop i ?bs) \<noteq> bytes ''_S5_''" by (simp add: bytes_def)
  show ?thesis using s5_takes_element_count [OF m l b f, of boot_acpi] by simp
qed

end
