(* ===== verification/Spec2Isabelle.thy ===== *)
theory Spec2Isabelle
  imports Meow_Prelude Pmm Vmm Kheap Cstring Path Spinlock Fifo Vfs Devfs Pipe Task Sched Auth Keyboard Rtc Logger Mouse Pci Vga Disk Fat16_Names Fat16 Fat16_Ops Fat16_Data Procfs Net Usermem Nodes Elf Syscall Syscall_Safety Ustring Ustdlib Umalloc Ustdio Kconsole Kconsole_Pointer Kconsole_Text Kservices Shell_Line Shell_Screen Shell Acpi
begin

text \<open>
  MeowMeowOS is a kernel for 32-bit x86 with a small user land, written in C. This development models the
  parts of \<open>src/kernel\<close> and \<open>src/usr/libs\<close> that keep state and decide things, and proves what they promise.

  \<^bold>\<open>How the parts interact.\<close> The physical memory manager hands out 4096-byte frames. The virtual memory manager
  builds page tables in such frames; the kernel heap grows over them and carries every object of the kernel.
  Nodes of the virtual file system stand for files, devices and pipes; a driver is a set of function
  pointers. Tasks hold descriptors, which refer to nodes, and a page directory. A system call checks the pointers of the
  program against its page tables, copies paths, looks up a descriptor, asks for the permission and calls
  through the node. The library of the programs puts a heap over \<open>SYS_SBRK\<close> and buffers over \<open>SYS_READ\<close> and \<open>SYS_WRITE\<close>.

  \<^bold>\<open>State.\<close> Every component has a record with the variables of its C file, and the records form one chain in
  which each extends the one it needs: \<open>pmm_state\<close>, \<open>vmm_state\<close>, \<open>heap_state\<close> for the memory, and from \<open>vfs_state\<close>, which holds it in
  the field \<open>kheap\<close>, on \<open>devfs_state\<close>, \<open>pipe_state\<close>, \<open>task_state\<close>, \<open>kbd_state\<close>, \<open>disk_state\<close>, \<open>fat_state\<close>, \<open>procfs_state\<close>, \<open>net_state\<close> and \<open>sys_state\<close>. An operation is
  a function on the scheme of its record, so it works on the state of the whole kernel. \<open>kheap s\<close> is the machine
  below the file systems: page directories, words of memory, bitmap, block list. Objects on the heap (nodes,
  rings, tasks, texts of procfs) are maps from addresses; \<open>kmem_alloc\<close> gives the address. A program is \<open>user_lib\<close>
  (its heap, its memory and the kernel) or \<open>stdio\<close> (its buffers and a kernel given by \<open>kernel_calls\<close>).

  \<^bold>\<open>Conventions.\<close> A C integer of \<open>w\<close> bits is a word of \<open>w\<close> bits, so that it wraps as in the code; an \<open>int\<close> is a word
  read with \<open>sint\<close>. A C string is the list of the bytes from a pointer on, see \<open>Cstring\<close>. A write behind the end of an array is \<open>None\<close>,
  a read in a loop that may not end is a \<open>partial_function\<close> whose result is \<open>None\<close> when it does not end. A call that can
  wait for another task takes the list of what the others do meanwhile (\<open>env_others\<close>); with the list used up the result is \<open>None\<close>.
  Log messages of drivers are left out, except where the text is what the code makes.

  \<^bold>\<open>Theories, sources and results.\<close>

  \<^item> \<open>Meow_Prelude\<close>: word types, counting loops (\<open>for_words\<close>), page arithmetic, the collection \<open>word_nat\<close>.
  \<^item> \<open>Pmm\<close> (\<open>mem/physical_memory_manager/pmm.c\<close>): the bitmap. First fit, first run, what the memory map of the boot
    loader frees, two allocations are distinct. The locale \<open>frame_allocator\<close> is the contract of a source of frames.
  \<^item> \<open>Vmm\<close> (\<open>mem/virtual_memory_manager/vmm.c\<close>): page tables on a word-addressed memory. Mapping refines the update of the map the
    processor walks, regions, identity map at start, visibility between directories; locale \<open>address_space\<close>.
  \<^item> \<open>Kheap\<close> (\<open>mem/heap/heap.c\<close>): next fit over a list of blocks that tile the heap; fresh blocks, coalescing, and the
    allocation through a stale cursor that overlaps.
  \<^item> \<open>Spinlock\<close> (\<open>arch/x86/sync/spinlock.h\<close>), \<open>Fifo\<close>: locks and the contract \<open>byte_queue\<close> of a bounded queue, interpreted on
    the pipe ring and on the keyboard ring.
  \<^item> \<open>Cstring\<close>, \<open>Path\<close> (\<open>lib/string\<close>, \<open>lib/integer_ascii_converters\<close>, \<open>lib/path\<close>): strings, number conversions, \<open>snprintf\<close>,
    \<open>resolve_path\<close> against a reference on lists of components.
  \<^item> \<open>Vfs\<close>, \<open>Devfs\<close>, \<open>Procfs\<close>, \<open>Pipe\<close> (\<open>fs/vfs\<close>, \<open>fs/devfs\<close>, \<open>fs/procfs\<close>, \<open>fs/pipe\<close>): registration, mount points, reference counts,
    devices, generated files, rings between two tasks under every interleaving.
  \<^item> \<open>Task\<close>, \<open>Sched\<close> (\<open>arch/x86/task/task.c\<close>, \<open>pit.c\<close>, \<open>gdt.c\<close>, \<open>switch.asm\<close>): tasks and their switch; which task a yield picks,
    that no ready task starves, and the invariant of the scheduler over the step relation \<open>sched_step\<close>.
  \<^item> \<open>Auth\<close>, \<open>Keyboard\<close>, \<open>Mouse\<close>, \<open>Rtc\<close>, \<open>Pci\<close>, \<open>Vga\<close>, \<open>Logger\<close> (\<open>security/auth\<close>, \<open>drivers\<close>, \<open>utils/logging\<close>): permission checks and the
    devices that keep state.
  \<^item> \<open>Disk\<close>, \<open>Fat16_Names\<close>, \<open>Fat16\<close>, \<open>Fat16_Ops\<close>, \<open>Fat16_Data\<close> (\<open>drivers/disk\<close>, \<open>fs/fat_16\<close>): sectors, byte access over them, names,
    the table, the operations, and what is on the disk after a file was written.
  \<^item> \<open>Net\<close> (\<open>net/net.c\<close>): packets from Ethernet to UDP; checksums verify.
  \<^item> \<open>Usermem\<close>, \<open>Nodes\<close>, \<open>Elf\<close>, \<open>Syscall\<close>, \<open>Syscall_Safety\<close> (\<open>syscall/syscall.c\<close>, \<open>drivers/vga_display/vga_vfs.c\<close>, \<open>progs/elf/elf.c\<close>): bytes
    behind virtual addresses, validation of pointers, calls through nodes (\<open>call_read\<close>, \<open>call_write\<close>, \<open>call_open\<close> dispatch on the
    function pointers), the loader, every system call and the dispatcher; the break, reference counts, what validation lets through.
  \<^item> \<open>Ustring\<close>, \<open>Ustdlib\<close>, \<open>Umalloc\<close>, \<open>Ustdio\<close> (\<open>usr/libs\<close>): the library of the programs. \<open>free\<close> is the same function as \<open>mem_free\<close> of
    the kernel under the abstraction \<open>as_heap\<close>, \<open>malloc\<close> is safe below 2 GiB, numbers are read back.
  \<^item> \<open>Kconsole\<close>, \<open>Kconsole_Text\<close>, \<open>Kconsole_Pointer\<close> (\<open>utils/console_print/kconsole.c\<close>): the frame buffer with its font and cursor. The
    relation \<open>displays\<close> ties it to a text terminal, and every character keeps the two in step; the mouse pointer leaves
    no trace. The characters a system call prints are the list \<open>console_out\<close>; \<open>kput_char\<close> folded over it gives the picture.
  \<^item> \<open>Acpi\<close> (\<open>drivers/acpi/acpi.c\<close>): the tables of the firmware, read through the page tables, and the ports. The sleep type is
    taken from the wrong byte of the package.
  \<^item> \<open>Kservices\<close> (\<open>kernel_services/kernel_services.c\<close>): \<open>kprintf\<close>, which never leaves its buffer, and the sound files, with the scan that
    a damaged file keeps busy for ever.
  \<^item> \<open>Shell_Line\<close>, \<open>Shell_Screen\<close>, \<open>Shell\<close> (\<open>progs/shell/shell.c\<close>): the history is the end of the list of commands, a completion is the
    longest one the directory allows, and over the step relation \<open>edits\<close> of the line editor the console shows the line that
    Enter delivers; then words, programs, redirections, pipelines and \<open>kshell_main\<close>. A backspace on the console is the character 8.

  \<^bold>\<open>Interfaces.\<close> \<open>byte_queue\<close> (interpreted as \<open>pipe_queue\<close> and \<open>key_queue\<close>) promises first-in first-out for every sequence of puts
  and gets; \<open>frame_allocator\<close> (\<open>pmm_frames\<close>) that frames handed out are distinct; \<open>address_space\<close> (\<open>user_space\<close>) that mapping changes one page.

  \<^bold>\<open>Bounds and fuel.\<close> \<open>for_words\<close> counts a 32-bit index up to its bound and is total where the bound is reached. Loops over
  sectors, digits, entries and formats have measures. The search loops of heap, task list, bucket lists and cluster chains
  follow pointers and are partial functions: with a cycle in the data the code does not return, and the results state
  that it does return on well-formed data. \<open>env_depth\<close> bounds the depth of the directory tree that \<open>format\<close> protects.

  \<^bold>\<open>Findings.\<close> Theorems that show a defect say so: \<open>stale_cursor_overlap\<close>, \<open>vfs_check_access_any_bit\<close>, \<open>getcwd_writes_kernel_page\<close>,
  \<open>pmm_initialize_from_map_above_4GiB\<close>, \<open>vmm_handle_user_page_fault_result\<close>, \<open>caps_lock_toggled_twice\<close>, \<open>expired_slice_not_refilled\<close>,
  \<open>rtc_twelve_wrong\<close>, \<open>malloc_huge_shrinks_heap\<close>, \<open>getcwd_size_zero\<close>, \<open>wav_scan_loops\<close>, \<open>s5_takes_element_count\<close>.

  \<^bold>\<open>Not modelled.\<close> Assembly but for the switch of stacks; port and memory-mapped input and output (the serial line, the
  speaker, AC97, RTL8139 and the programming of the interrupt controllers), where the drivers of system calls are the
  parameter \<open>env_drivers\<close> and a packet sent is appended to a list; time-outs of the drive and of the network; reading a line and drawing a BMP file on the graphical console, and the user programs. Objects of
  different C types are kept in different maps, so an overlap between objects of two types is not represented.
\<close>

end
